(* ===== verification/Prelude.thy ===== *)
theory Prelude imports Main "HOL-Library.Word" begin

text \<open>
  Shared by every component: the types that stand for Go's values (bytes, strings, signed
  64-bit integers, instants and durations, fixed-width big-endian integers), the association
  lists that stand for Go's maps, and the generic interfaces several components rely on,
  stated as locales: \<open>text_codec\<close> (an encoder and a canonical decoder),
  \<open>go_map\<close> (the map operations the code uses), \<open>stepped_component\<close> (a state
  machine whose operations keep an invariant). The normative status tables of the service
  are lists of conditions of which the first that fails decides; \<open>first_failing\<close> is
  that reading.
\<close>

named_theorems go_simps \<open>equations that evaluate the Go primitives of this theory\<close>
named_theorems status_defs \<open>the status tables and the constants they use\<close>

section \<open>Values\<close>

type_synonym byte = "8 word"
type_synonym bytes = "byte list"

text \<open>
  A Go string is a byte sequence, and a HOL \<open>char\<close> is exactly one byte, so text is
  \<open>string\<close> and binary data is \<open>bytes\<close>; the two conversions are inverse.
\<close>

definition byte_of :: "nat \<Rightarrow> byte" where
  "byte_of n = of_nat n"

definition bytes_of_string :: "string \<Rightarrow> bytes" where
  "bytes_of_string s = map (\<lambda>c. byte_of (of_char c)) s"

definition string_of_bytes :: "bytes \<Rightarrow> string" where
  "string_of_bytes b = map (\<lambda>w. char_of (unat w)) b"

lemma unat_byte_less [simp]: "unat (b :: byte) < 256"
  by (rule order.strict_trans2 [OF unsigned_less]) simp

lemma unat_byte_le [simp]: "unat (b :: byte) \<le> 255"
  using unat_byte_less [of b] by linarith

lemma unat_byte_of [simp]: "n < 256 \<Longrightarrow> unat (byte_of n) = n"
  by (simp add: byte_of_def unat_of_nat take_bit_eq_mod)

lemma byte_of_unat [simp]: "byte_of (unat b) = b"
  by (simp add: byte_of_def)

lemma of_char_less_256 [simp]: "(of_char c :: nat) < 256"
  by (metis of_char_mod_256 mod_less_divisor zero_less_numeral)

lemma length_bytes_of_string [simp]: "length (bytes_of_string s) = length s"
  by (simp add: bytes_of_string_def)

lemma length_string_of_bytes [simp]: "length (string_of_bytes b) = length b"
  by (simp add: string_of_bytes_def)

lemma string_of_bytes_of_string [simp]: "string_of_bytes (bytes_of_string s) = s"
  by (induction s) (simp_all add: string_of_bytes_def bytes_of_string_def)

lemma bytes_of_string_of_bytes [simp]: "bytes_of_string (string_of_bytes b) = b"
  by (induction b) (simp_all add: string_of_bytes_def bytes_of_string_def)

lemma bytes_of_string_append [simp]:
  "bytes_of_string (s @ t) = bytes_of_string s @ bytes_of_string t"
  by (simp add: bytes_of_string_def)

lemma bytes_of_string_inject [simp]: "bytes_of_string s = bytes_of_string t \<longleftrightarrow> s = t"
  by (metis string_of_bytes_of_string)

text \<open>ASCII decimal digits and the number they spell, as \<open>strconv\<close> reads them.\<close>

definition is_digit :: "char \<Rightarrow> bool" where
  "is_digit c \<longleftrightarrow> 48 \<le> (of_char c :: nat) \<and> (of_char c :: nat) \<le> 57"

definition digits_value :: "string \<Rightarrow> nat" where
  "digits_value ds = foldl (\<lambda>a c. a * 10 + (of_char c - 48)) 0 ds"

text \<open>
  Go's \<open>int\<close> and \<open>int64\<close> are 64-bit and wrap; a value is kept as an \<open>int\<close> and every
  addition whose operands the code does not bound goes through \<open>i64\<close>.
\<close>

definition i64 :: "int \<Rightarrow> int" where
  "i64 x = (x + 2 ^ 63) mod 2 ^ 64 - 2 ^ 63"

definition is_i64 :: "int \<Rightarrow> bool" where
  "is_i64 x \<longleftrightarrow> - (2 ^ 63) \<le> x \<and> x < 2 ^ 63"

lemma i64_id: "is_i64 x \<Longrightarrow> i64 x = x"
  by (simp add: i64_def is_i64_def)

lemma is_i64_i64 [simp]: "is_i64 (i64 x)"
  using pos_mod_bound [of "2 ^ 64" "x + 2 ^ 63"] pos_mod_sign [of "2 ^ 64" "x + 2 ^ 63"]
  by (simp add: i64_def is_i64_def)

lemma i64_add: "i64 (i64 x + y) = i64 (x + y)"
proof -
  have "(x + 2 ^ 63) mod 2 ^ 64 - 2 ^ 63 + y + 2 ^ 63 = (x + 2 ^ 63) mod 2 ^ 64 + (y :: int)" by simp
  then have "((x + 2 ^ 63) mod 2 ^ 64 - 2 ^ 63 + y + 2 ^ 63) mod 2 ^ 64 = (x + 2 ^ 63 + y) mod 2 ^ 64"
    by (simp only: mod_add_left_eq)
  then show ?thesis unfolding i64_def by (simp only: ac_simps)
qed

lemma i64_wraps:
  assumes "is_i64 y" and "x = y + 2 ^ 64 * k"
  shows "i64 x = y"
proof -
  have "(x + 2 ^ 63) mod 2 ^ 64 = (y + 2 ^ 63 + 2 ^ 64 * k) mod 2 ^ 64"
    using assms(2) by (simp only: ac_simps)
  also have "\<dots> = (y + 2 ^ 63) mod 2 ^ 64" by (rule mod_mult_self2)
  finally have "i64 x = i64 y" by (simp only: i64_def)
  with assms(1) show ?thesis by (simp add: i64_id)
qed

section \<open>Time\<close>

text \<open>
  An instant is its number of nanoseconds since the Unix epoch. The zero \<open>time.Time\<close> is
  1 January of year 1. A \<open>time.Duration\<close> is a signed 64-bit count of nanoseconds, and
  \<open>Time.Sub\<close> saturates at its ends instead of wrapping.
\<close>

type_synonym instant = int
type_synonym duration = int

definition seconds :: "int \<Rightarrow> duration" where
  "seconds n = n * 1000000000"

definition zero_time :: instant where
  "zero_time = -62135596800 * 1000000000"

definition time_Unix :: "instant \<Rightarrow> int" where
  "time_Unix t = t div 1000000000"

definition time_Sub :: "instant \<Rightarrow> instant \<Rightarrow> duration" where
  "time_Sub t u = max (- (2 ^ 63)) (min (2 ^ 63 - 1) (t - u))"

lemma is_i64_time_Sub [simp]: "is_i64 (time_Sub t u)"
  by (auto simp: time_Sub_def is_i64_def)

section \<open>Fixed-width big-endian integers\<close>

text \<open>\<open>be_bytes n v\<close> is the \<open>n\<close>-byte big-endian form of \<open>v\<close> modulo \<open>256 ^ n\<close>.\<close>

fun be_bytes :: "nat \<Rightarrow> nat \<Rightarrow> bytes" where
  "be_bytes 0 v = []"
| "be_bytes (Suc n) v = be_bytes n (v div 256) @ [byte_of (v mod 256)]"

definition be_value :: "bytes \<Rightarrow> nat" where
  "be_value b = foldl (\<lambda>a w. a * 256 + unat w) 0 b"

definition uint64_of :: "int \<Rightarrow> nat" where
  "uint64_of x = nat (x mod 2 ^ 64)"

lemma length_be_bytes [simp]: "length (be_bytes n v) = n"
  by (induction n arbitrary: v) auto

lemma be_value_Nil [simp]: "be_value [] = 0"
  by (simp add: be_value_def)

lemma be_value_snoc [simp]: "be_value (b @ [w]) = be_value b * 256 + unat w"
  by (simp add: be_value_def)

lemma be_value_bytes: "be_value (be_bytes n v) = v mod 256 ^ n"
proof (induction n arbitrary: v)
  case 0
  then show ?case by simp
next
  case (Suc n)
  have "v mod 256 ^ Suc n = 256 * (v div 256 mod 256 ^ n) + v mod 256"
    using mod_mult2_eq [of v 256 "256 ^ n"] by simp
  with Suc.IH [of "v div 256"] show ?case
    by simp
qed

lemma be_bytes_value: "be_bytes (length b) (be_value b) = b"
proof (induction b rule: rev_induct)
  case Nil
  then show ?case by simp
next
  case (snoc w b)
  have "(be_value b * 256 + unat w) div 256 = be_value b"
    using unat_byte_less [of w] by simp
  moreover have "(be_value b * 256 + unat w) mod 256 = unat w"
    using unat_byte_less [of w] by simp
  ultimately show ?case using snoc.IH by simp
qed

lemma be_value_bound: "be_value b < 256 ^ length b"
proof (induction b rule: rev_induct)
  case Nil
  then show ?case by simp
next
  case (snoc w b)
  have "be_value b * 256 + unat w < (be_value b + 1) * 256"
    using unat_byte_less [of w] by simp
  also have "\<dots> \<le> 256 ^ length b * 256"
    using snoc by (intro mult_right_mono) auto
  finally show ?case by (simp add: mult.commute)
qed

lemma be_value_inject: "length a = length b \<Longrightarrow> be_value a = be_value b \<Longrightarrow> a = b"
  by (metis be_bytes_value)

lemma be_bytes_inject:
  assumes "be_bytes n u = be_bytes n v" and "u < 256 ^ n" and "v < 256 ^ n"
  shows "u = v"
proof -
  have "be_value (be_bytes n u) = be_value (be_bytes n v)" using assms(1) by simp
  with assms(2,3) show ?thesis by (simp add: be_value_bytes)
qed

lemma take_be_bytes: "take n (be_bytes (n + m) v) = be_bytes n (v div 256 ^ m)"
proof (induction m arbitrary: v)
  case (Suc m)
  have "v div 256 div 256 ^ m = v div 256 ^ Suc m" by (simp add: div_mult2_eq)
  with Suc.IH [of "v div 256"] show ?case by simp
qed simp

lemma uint64_of_less [simp]: "uint64_of x < 256 ^ 8"
  by (simp add: uint64_of_def nat_less_iff)

lemma uint64_of_inject:
  assumes "is_i64 x" and "is_i64 y" and "uint64_of x = uint64_of y"
  shows "x = y"
proof -
  have "x mod 2 ^ 64 = y mod 2 ^ 64"
    using assms(3) by (simp add: uint64_of_def)
  then have "i64 x = i64 y"
    unfolding i64_def by (metis mod_add_left_eq)
  with assms(1,2) show ?thesis by (simp add: i64_id)
qed

section \<open>Go maps as association lists\<close>

text \<open>
  A Go map is a list of key/value pairs with distinct keys, so that it can be evaluated and
  its length is the number of entries; \<open>map_of\<close> reads it as a partial function.
  Iteration order is unspecified in Go; no lemma here depends on the list's order.
\<close>

type_synonym ('k, 'v) gomap = "('k \<times> 'v) list"

definition map_ok :: "('k, 'v) gomap \<Rightarrow> bool" where
  "map_ok m \<longleftrightarrow> distinct (map fst m)"

fun map_put :: "'k \<Rightarrow> 'v \<Rightarrow> ('k, 'v) gomap \<Rightarrow> ('k, 'v) gomap" where
  "map_put k v [] = [(k, v)]"
| "map_put k v ((k', v') # m) = (if k = k' then (k, v) # m else (k', v') # map_put k v m)"

definition map_drop :: "'k \<Rightarrow> ('k, 'v) gomap \<Rightarrow> ('k, 'v) gomap" where
  "map_drop k m = filter (\<lambda>e. fst e \<noteq> k) m"

text \<open>\<open>for k, v := range m { if !keep(k, v) { delete(m, k) } }\<close>\<close>

definition map_retain :: "('k \<Rightarrow> 'v \<Rightarrow> bool) \<Rightarrow> ('k, 'v) gomap \<Rightarrow> ('k, 'v) gomap" where
  "map_retain keep m = filter (\<lambda>e. keep (fst e) (snd e)) m"

lemma map_of_map_put [simp]: "map_of (map_put k v m) = (map_of m)(k \<mapsto> v)"
  by (induction k v m rule: map_put.induct) auto

lemma fst_set_map_put: "fst ` set (map_put k v m) = insert k (fst ` set m)"
  by (induction k v m rule: map_put.induct) auto

lemma map_ok_put [simp]: "map_ok m \<Longrightarrow> map_ok (map_put k v m)"
  unfolding map_ok_def
proof (induction k v m rule: map_put.induct)
  case (2 k v k' v' m)
  then show ?case using fst_set_map_put [of k v m] by auto
qed simp

lemma map_ok_Nil [simp]: "map_ok []"
  by (simp add: map_ok_def)

lemma length_map_put:
  "length (map_put k v m) = (if map_of m k = None then Suc (length m) else length m)"
  by (induction k v m rule: map_put.induct) auto

lemma map_ok_filter: "map_ok m \<Longrightarrow> map_ok (filter P m)"
  by (auto simp: map_ok_def distinct_map inj_on_def)

lemma map_ok_drop [simp]: "map_ok m \<Longrightarrow> map_ok (map_drop k m)"
  by (simp add: map_drop_def map_ok_filter)

lemma map_ok_retain [simp]: "map_ok m \<Longrightarrow> map_ok (map_retain P m)"
  by (simp add: map_retain_def map_ok_filter)

lemma map_of_map_drop [simp]: "map_of (map_drop k m) = (map_of m)(k := None)"
  by (induction m) (auto simp: map_drop_def)

lemma map_of_map_retain:
  assumes "map_ok m"
  shows "map_of (map_retain P m) k =
    (case map_of m k of None \<Rightarrow> None | Some v \<Rightarrow> if P k v then Some v else None)"
  using assms
proof (induction m)
  case Nil
  then show ?case by (simp add: map_retain_def)
next
  case (Cons e m)
  then have "map_ok m" and "fst e \<notin> fst ` set m" by (auto simp: map_ok_def)
  moreover from this have "map_of m (fst e) = None" by (simp add: map_of_eq_None_iff)
  moreover obtain k' v where "e = (k', v)" by (cases e)
  ultimately show ?case using Cons.IH by (auto simp: map_retain_def split: option.splits)
qed

lemma length_map_retain_le: "length (map_retain P m) \<le> length m"
  by (simp add: map_retain_def)

lemma map_of_SomeI: "map_ok m \<Longrightarrow> (k, v) \<in> set m \<Longrightarrow> map_of m k = Some v"
  by (simp add: map_ok_def)

lemma map_ok_map_of_iff: "map_ok m \<Longrightarrow> (k, v) \<in> set m \<longleftrightarrow> map_of m k = Some v"
  by (auto simp: map_ok_def dest: map_of_SomeD)

text \<open>What the code relies on when it uses a map, as an interface.\<close>

locale go_map =
  fixes valid :: "'m \<Rightarrow> bool"
    and lookup :: "'m \<Rightarrow> 'k \<Rightarrow> 'v option"
    and put :: "'k \<Rightarrow> 'v \<Rightarrow> 'm \<Rightarrow> 'm"
    and remove :: "'k \<Rightarrow> 'm \<Rightarrow> 'm"
    and retain :: "('k \<Rightarrow> 'v \<Rightarrow> bool) \<Rightarrow> 'm \<Rightarrow> 'm"
    and len :: "'m \<Rightarrow> nat"
  assumes lookup_put: "lookup (put k v m) = (lookup m)(k \<mapsto> v)"
    and lookup_remove: "lookup (remove k m) = (lookup m)(k := None)"
    and lookup_retain: "valid m \<Longrightarrow> lookup (retain P m) k =
      (case lookup m k of None \<Rightarrow> None | Some v \<Rightarrow> if P k v then Some v else None)"
    and valid_put: "valid m \<Longrightarrow> valid (put k v m)"
    and valid_remove: "valid m \<Longrightarrow> valid (remove k m)"
    and valid_retain: "valid m \<Longrightarrow> valid (retain P m)"
    and len_put: "len (put k v m) = (if lookup m k = None then Suc (len m) else len m)"
    and len_retain: "len (retain P m) \<le> len m"
begin

lemma retain_SomeD:
  assumes "valid m" and "lookup (retain P m) k = Some v"
  shows "lookup m k = Some v \<and> P k v"
  using assms by (auto simp: lookup_retain split: option.splits if_splits)

lemma retain_keeps:
  assumes "valid m" and "lookup m k = Some v" and "P k v"
  shows "lookup (retain P m) k = Some v"
  using assms by (simp add: lookup_retain)

lemma retain_NoneI: "valid m \<Longrightarrow> lookup m k = None \<Longrightarrow> lookup (retain P m) k = None"
  by (simp add: lookup_retain)

lemma put_same: "lookup (put k v m) k = Some v"
  by (simp add: lookup_put)

lemma put_other: "k \<noteq> k' \<Longrightarrow> lookup (put k v m) k' = lookup m k'"
  by (simp add: lookup_put)

lemma len_put_le: "len m < n \<Longrightarrow> len (put k v m) \<le> n"
  by (simp add: len_put)

lemma len_put_tracked: "lookup m k \<noteq> None \<Longrightarrow> len (put k v m) = len m"
  by (simp add: len_put)

end

interpretation gm: go_map map_ok map_of map_put map_drop map_retain length
  by unfold_locales
    (auto simp: map_of_map_retain length_map_put length_map_retain_le split: option.splits)

section \<open>Joining strings\<close>

text \<open>\<open>strings.Join\<close>.\<close>

fun join :: "string \<Rightarrow> string list \<Rightarrow> string" where
  "join sep [] = []"
| "join sep [x] = x"
| "join sep (x # xs) = x @ sep @ join sep xs"

text \<open>The section sign and the dash of the texts the program writes, as UTF-8.\<close>

definition sect :: string where "sect = [CHR 0xC2, CHR 0xA7]"
definition emdash :: string where "emdash = [CHR 0xE2, CHR 0x80, CHR 0x94]"

section \<open>Interfaces\<close>

text \<open>
  An encoder together with a decoder that undoes it and accepts nothing else: every value
  has exactly one accepted spelling.
\<close>

locale text_codec =
  fixes enc :: "'a \<Rightarrow> 'b" and dec :: "'b \<Rightarrow> 'a option"
    and dom_enc :: "'a \<Rightarrow> bool" and canon :: "'b \<Rightarrow> bool"
  assumes dec_enc: "dom_enc x \<Longrightarrow> dec (enc x) = Some x"
    and enc_canon: "dom_enc x \<Longrightarrow> canon (enc x)"
    and enc_dec: "canon s \<Longrightarrow> dec s = Some x \<Longrightarrow> enc x = s"
begin

lemma enc_inject: "dom_enc x \<Longrightarrow> dom_enc y \<Longrightarrow> enc x = enc y \<Longrightarrow> x = y"
  by (metis dec_enc option.inject)

lemma dec_inject: "canon s \<Longrightarrow> canon t \<Longrightarrow> dec s = Some x \<Longrightarrow> dec t = Some x \<Longrightarrow> s = t"
  by (metis enc_dec)

lemma dec_iff: "dom_enc x \<Longrightarrow> canon s \<Longrightarrow> dec s = Some x \<longleftrightarrow> s = enc x"
  by (metis dec_enc enc_dec)

end

text \<open>
  A component with a state and operations, each of which keeps an invariant: the invariant
  then holds after any sequence of operations.
\<close>

fun run_ops :: "('o \<Rightarrow> 's \<Rightarrow> 's) \<Rightarrow> 'o list \<Rightarrow> 's \<Rightarrow> 's" where
  "run_ops f [] s = s"
| "run_ops f (x # xs) s = run_ops f xs (f x s)"

lemma run_ops_append [simp]: "run_ops f (xs @ ys) s = run_ops f ys (run_ops f xs s)"
  by (induction xs arbitrary: s) auto

locale stepped_component =
  fixes apply_op :: "'o \<Rightarrow> 's \<Rightarrow> 's" and inv :: "'s \<Rightarrow> bool"
  assumes op_inv: "inv s \<Longrightarrow> inv (apply_op x s)"
begin

lemma run_inv: "inv s \<Longrightarrow> inv (run_ops apply_op xs s)"
  by (induction xs arbitrary: s) (auto intro: op_inv)

end

section \<open>Tables of conditions\<close>

text \<open>
  The status tables of the service are normative in their order: the outcome is the first
  row whose condition the request violates, and the success row where none is violated.
\<close>

fun first_failing :: "(bool \<times> 'r) list \<Rightarrow> 'r \<Rightarrow> 'r" where
  "first_failing [] ok = ok"
| "first_failing ((violated, r) # rows) ok = (if violated then r else first_failing rows ok)"

lemma first_failing_ok:
  "ok \<notin> snd ` set rows \<Longrightarrow> first_failing rows ok = ok \<longleftrightarrow> (\<forall>row \<in> set rows. \<not> fst row)"
  by (induction rows ok rule: first_failing.induct) auto

lemma first_failing_nth:
  assumes "i < length rows" and "fst (rows ! i)" and "\<And>j. j < i \<Longrightarrow> \<not> fst (rows ! j)"
  shows "first_failing rows ok = snd (rows ! i)"
  using assms
proof (induction rows ok arbitrary: i rule: first_failing.induct)
  case (2 violated r rows ok)
  show ?case
  proof (cases i)
    case 0
    with 2 show ?thesis by simp
  next
    case (Suc j)
    with "2.prems"(3) [of 0] have pass: "\<not> violated" by simp
    have "\<not> fst (rows ! i')" if "i' < j" for i'
      using "2.prems"(3) [of "Suc i'"] that Suc by simp
    with "2.prems"(1,2) Suc have "first_failing rows ok = snd (rows ! j)"
      by (intro "2.IH" [OF pass]) auto
    with pass show ?thesis using Suc by simp
  qed
qed simp

end
