(* ===== verification/B64.thy ===== *)
theory B64 imports Prelude begin

text \<open>
  \<open>internal/b64/base64url.go\<close>: unpadded base64url over Go's
  \<open>base64.RawURLEncoding.Strict()\<close>. The encoder and the decoder of the standard library
  are modelled as they behave: the decoder skips carriage returns and line feeds wherever
  they occur, refuses every other character outside the alphabet (the padding character
  included), refuses a last group of one character, and refuses non-zero unused bits in the
  last group.
\<close>

section \<open>The alphabet\<close>

definition b64_char :: "nat \<Rightarrow> char" where
  "b64_char n =
    (if n < 26 then char_of (n + 65)
     else if n < 52 then char_of (n + 71)
     else if n < 62 then char_of (n - 4)
     else if n = 62 then CHR ''-'' else CHR ''_'')"

definition b64_sextet :: "char \<Rightarrow> nat option" where
  "b64_sextet c =
    (let n = of_char c :: nat in
     if 65 \<le> n \<and> n \<le> 90 then Some (n - 65)
     else if 97 \<le> n \<and> n \<le> 122 then Some (n - 71)
     else if 48 \<le> n \<and> n \<le> 57 then Some (n + 4)
     else if c = CHR ''-'' then Some 62
     else if c = CHR ''_'' then Some 63
     else None)"

lemma of_char_dash [simp]: "(of_char CHR ''-'' :: nat) = 45"
  by code_simp

lemma of_char_underscore [simp]: "(of_char CHR ''_'' :: nat) = 95"
  by code_simp

lemma b64_sextet_char [simp]: "n < 64 \<Longrightarrow> b64_sextet (b64_char n) = Some n"
  by (auto simp: b64_sextet_def b64_char_def Let_def)

lemma b64_char_sextet:
  assumes "b64_sextet c = Some n"
  shows "n < 64 \<and> b64_char n = c"
proof -
  have "char_of (of_char c :: nat) = c" by simp
  then show ?thesis
    using assms
    by (auto simp: b64_sextet_def b64_char_def Let_def split: if_splits)
qed

lemma b64_sextet_less: "b64_sextet c = Some n \<Longrightarrow> n < 64"
  by (simp add: b64_char_sextet)

section \<open>Groups\<close>

text \<open>Three bytes become four six-bit values; a last group of one or two bytes, two or three.\<close>

fun sextets_of :: "bytes \<Rightarrow> nat list" where
  "sextets_of [] = []"
| "sextets_of [a] = [unat a div 4, unat a mod 4 * 16]"
| "sextets_of [a, b] = [unat a div 4, unat a mod 4 * 16 + unat b div 16, unat b mod 16 * 4]"
| "sextets_of (a # b # c # bs) =
     unat a div 4 # (unat a mod 4 * 16 + unat b div 16) # (unat b mod 16 * 4 + unat c div 64)
       # unat c mod 64 # sextets_of bs"

fun bytes_of_sextets :: "nat list \<Rightarrow> bytes option" where
  "bytes_of_sextets [] = Some []"
| "bytes_of_sextets [s] = None"
| "bytes_of_sextets [s, t] =
     (if t mod 16 = 0 then Some [byte_of (s * 4 + t div 16)] else None)"
| "bytes_of_sextets [s, t, u] =
     (if u mod 4 = 0
      then Some [byte_of (s * 4 + t div 16), byte_of (t mod 16 * 16 + u div 4)] else None)"
| "bytes_of_sextets (s # t # u # v # ss) =
     map_option (\<lambda>bs. byte_of (s * 4 + t div 16) # byte_of (t mod 16 * 16 + u div 4)
       # byte_of (u mod 4 * 64 + v) # bs) (bytes_of_sextets ss)"

text \<open>The bounds and the two ways of regrouping bits that the round trips need.\<close>

lemma digit_bounds:
  fixes a :: nat
  assumes "a < 256"
  shows "a div 4 < 64" and "a div 16 < 16" and "a div 64 < 4"
  using assms by (auto intro!: less_mult_imp_div_less)

lemma sextet_bounds:
  fixes a :: nat
  assumes "a < 64"
  shows "a div 4 < 16" and "a div 16 < 4"
  using assms by (auto intro!: less_mult_imp_div_less)

lemma regroup:
  fixes x y :: nat
  shows "y < 16 \<Longrightarrow> (x * 16 + y) div 16 = x" and "y < 16 \<Longrightarrow> (x * 16 + y) mod 16 = y"
    and "y < 4 \<Longrightarrow> (x * 4 + y) div 4 = x" and "y < 4 \<Longrightarrow> (x * 4 + y) mod 4 = y"
    and "y < 64 \<Longrightarrow> (x * 64 + y) div 64 = x" and "y < 64 \<Longrightarrow> (x * 64 + y) mod 64 = y"
  by simp_all

lemma mod_bounds:
  fixes x :: nat
  shows "x mod 4 < 4" and "x mod 16 < 16" and "x mod 64 < 64"
  by simp_all

lemma combine_bounds:
  fixes x y :: nat
  shows "x < 4 \<Longrightarrow> y < 16 \<Longrightarrow> x * 16 + y < 64" and "x < 16 \<Longrightarrow> y < 4 \<Longrightarrow> x * 4 + y < 64"
    and "x < 64 \<Longrightarrow> y < 4 \<Longrightarrow> x * 4 + y < 256" and "x < 16 \<Longrightarrow> y < 16 \<Longrightarrow> x * 16 + y < 256"
    and "x < 4 \<Longrightarrow> y < 64 \<Longrightarrow> x * 64 + y < 256" and "x < 4 \<Longrightarrow> x * 16 < 64" and "x < 16 \<Longrightarrow> x * 4 < 64"
  by simp_all

lemmas bit_groups = digit_bounds sextet_bounds regroup mod_bounds combine_bounds

lemma sextets_of_less: "\<forall>s \<in> set (sextets_of b). s < 64"
  by (induction b rule: sextets_of.induct) (simp_all add: bit_groups)

lemma bytes_of_sextets_of [simp]: "bytes_of_sextets (sextets_of b) = Some b"
proof (induction b rule: sextets_of.induct)
  case (2 a)
  show ?case by (simp add: mult.commute [of _ 4])
next
  case (3 a b)
  show ?case by (simp add: bit_groups)
next
  case (4 a b c bs)
  then show ?case by (simp add: bit_groups)
qed simp

lemma length_sextets_of: "length (sextets_of b) = (4 * length b + 2) div 3"
  by (induction b rule: sextets_of.induct) simp_all

text \<open>The decoder accepts exactly the image of the encoder: this is what \<open>Strict\<close> buys.\<close>

lemma sextets_of_bytes:
  "bytes_of_sextets ss = Some b \<Longrightarrow> \<forall>s \<in> set ss. s < 64 \<Longrightarrow> sextets_of b = ss"
proof (induction ss arbitrary: b rule: bytes_of_sextets.induct)
  case (3 s t)
  then show ?case by (auto simp: bit_groups split: if_splits)
next
  case (4 s t u)
  then show ?case by (auto simp: bit_groups split: if_splits)
next
  case (5 s t u v ss)
  then obtain bs where "bytes_of_sextets ss = Some bs"
    and "b = byte_of (s * 4 + t div 16) # byte_of (t mod 16 * 16 + u div 4)
       # byte_of (u mod 4 * 64 + v) # bs"
    by auto
  with 5 show ?case by (simp add: bit_groups)
qed auto

section \<open>The package\<close>

definition is_newline :: "char \<Rightarrow> bool" where
  "is_newline c \<longleftrightarrow> c = CHR 0x0A \<or> c = CHR 0x0D"

definition b64_Encode :: "bytes \<Rightarrow> string" where
  "b64_Encode b = map b64_char (sextets_of b)"

definition b64_Decode :: "string \<Rightarrow> bytes option" where
  "b64_Decode s =
    (case those (map b64_sextet (filter (\<lambda>c. \<not> is_newline c) s)) of
       None \<Rightarrow> None
     | Some ss \<Rightarrow> bytes_of_sextets ss)"

datatype b64_error = CorruptInput | ErrLength

definition b64_DecodeFixed :: "string \<Rightarrow> nat \<Rightarrow> b64_error + bytes" where
  "b64_DecodeFixed s n =
    (case b64_Decode s of
       None \<Rightarrow> Inl CorruptInput
     | Some b \<Rightarrow> if length b \<noteq> n then Inl ErrLength else Inr b)"

lemma those_map_Some: "(\<And>x. x \<in> set xs \<Longrightarrow> f x = Some (g x)) \<Longrightarrow> those (map f xs) = Some (map g xs)"
  by (induction xs) auto

lemma those_SomeD: "those (map f xs) = Some ys \<Longrightarrow> length ys = length xs \<and> (\<forall>i < length xs. f (xs ! i) = Some (ys ! i))"
proof (induction xs arbitrary: ys)
  case (Cons x xs)
  then obtain y ys' where "f x = Some y" "those (map f xs) = Some ys'" "ys = y # ys'"
    by (auto split: option.splits)
  with Cons.IH [of ys'] show ?case by (auto simp: nth_Cons split: nat.splits)
qed simp

lemma those_inverse:
  "those (map f xs) = Some ys \<Longrightarrow> (\<And>x y. f x = Some y \<Longrightarrow> P y \<and> g y = x) \<Longrightarrow>
    (\<forall>y \<in> set ys. P y) \<and> map g ys = xs"
  by (induction xs arbitrary: ys) (auto split: option.splits)

lemma of_char_newlines [simp]:
  "(of_char (CHR 0x0A) :: nat) = 10" "(of_char (CHR 0x0D) :: nat) = 13"
  by code_simp+

lemma b64_sextet_newline: "is_newline c \<Longrightarrow> b64_sextet c = None"
  by (auto simp: is_newline_def b64_sextet_def Let_def)

lemma b64_char_not_newline: "n < 64 \<Longrightarrow> \<not> is_newline (b64_char n)"
  by (metis b64_sextet_char b64_sextet_newline option.distinct(1))

lemma b64_Decode_Encode [simp]: "b64_Decode (b64_Encode b) = Some b"
proof -
  have "filter (\<lambda>c. \<not> is_newline c) (b64_Encode b) = b64_Encode b"
    using sextets_of_less [of b] by (auto simp: b64_Encode_def b64_char_not_newline filter_id_conv)
  moreover have "those (map b64_sextet (b64_Encode b)) = Some (sextets_of b)"
    using sextets_of_less [of b] those_map_Some [of "sextets_of b" "b64_sextet \<circ> b64_char" id]
    by (simp add: b64_Encode_def)
  ultimately show ?thesis by (simp add: b64_Decode_def)
qed

text \<open>
  Everything the decoder accepts is, up to the newlines it skips, the one canonical spelling
  of its value; a spelling of the canonical length has no newline in it.
\<close>

lemma b64_Decode_canonical:
  assumes "b64_Decode s = Some b"
  shows "filter (\<lambda>c. \<not> is_newline c) s = b64_Encode b"
proof -
  let ?t = "filter (\<lambda>c. \<not> is_newline c) s"
  obtain ss where ss: "those (map b64_sextet ?t) = Some ss" and b: "bytes_of_sextets ss = Some b"
    using assms by (auto simp: b64_Decode_def split: option.splits)
  have "(\<forall>n \<in> set ss. n < 64) \<and> map b64_char ss = ?t"
    by (rule those_inverse [OF ss]) (simp add: b64_char_sextet)
  with sextets_of_bytes [OF b] show ?thesis by (simp add: b64_Encode_def)
qed

lemma length_b64_Encode [simp]: "length (b64_Encode b) = (4 * length b + 2) div 3"
  by (simp add: b64_Encode_def length_sextets_of)

lemma b64_Decode_unique_length:
  assumes "b64_Decode s = Some b" and "length s \<le> (4 * length b + 2) div 3"
  shows "s = b64_Encode b"
proof -
  have "length s \<le> length (filter (\<lambda>c. \<not> is_newline c) s)"
    using assms by (simp add: b64_Decode_canonical)
  then have "filter (\<lambda>c. \<not> is_newline c) s = s"
    by (metis length_filter_less filter_id_conv linorder_not_le)
  with b64_Decode_canonical [OF assms(1)] show ?thesis by simp
qed

lemma b64_no_newline_Encode: "filter is_newline (b64_Encode b) = []"
  using sextets_of_less [of b] b64_char_not_newline by (auto simp: b64_Encode_def filter_empty_conv)

interpretation b64: text_codec b64_Encode b64_Decode "\<lambda>_. True" "\<lambda>s. filter is_newline s = []"
proof unfold_locales
  fix s b
  assume s: "filter is_newline s = []" and b: "b64_Decode s = Some b"
  from s have "filter (\<lambda>c. \<not> is_newline c) s = s"
    by (auto simp: filter_empty_conv filter_id_conv)
  with b64_Decode_canonical [OF b] show "b64_Encode b = s" by simp
qed (simp_all add: b64_no_newline_Encode)

lemma b64_DecodeFixed_Encode [simp]: "length b = n \<Longrightarrow> b64_DecodeFixed (b64_Encode b) n = Inr b"
  by (simp add: b64_DecodeFixed_def)

lemma b64_DecodeFixed_Inr:
  "b64_DecodeFixed s n = Inr b \<longleftrightarrow> b64_Decode s = Some b \<and> length b = n"
  by (auto simp: b64_DecodeFixed_def split: option.splits if_splits)

text \<open>The encoder never emits padding or a newline, and padding is never accepted.\<close>

lemma b64_sextet_padding: "b64_sextet CHR ''='' = None"
  by code_simp

lemma b64_Decode_padding: "CHR ''='' \<in> set s \<Longrightarrow> b64_Decode s = None"
proof -
  have none: "those (map f xs) = None" if "x \<in> set xs" "f x = None"
    for f :: "char \<Rightarrow> nat option" and x xs
    using that by (induction xs) (auto split: option.splits)
  assume "CHR ''='' \<in> set s"
  then have "CHR ''='' \<in> set (filter (\<lambda>c. \<not> is_newline c) s)" by (simp add: is_newline_def)
  from none [where f = b64_sextet, OF this b64_sextet_padding] show "b64_Decode s = None"
    by (simp add: b64_Decode_def)
qed

section \<open>Properties\<close>

text \<open>
  C27. \<open>Decode\<close> undoes \<open>Encode\<close> on every byte string, the encoding has the unpadded length,
  and any text \<open>Decode\<close> accepts is the canonical encoding of its value once the carriage
  returns and line feeds in it are removed: in particular padding and non-zero unused bits
  are refused.
\<close>

theorem b64_roundtrip_canonical:
  "b64_Decode (b64_Encode b) = Some b \<and> length (b64_Encode b) = (4 * length b + 2) div 3 \<and>
   (b64_Decode s = Some b \<longleftrightarrow> filter (\<lambda>c. \<not> is_newline c) s = b64_Encode b)"
proof -
  have "b64_Decode s = Some b" if "filter (\<lambda>c. \<not> is_newline c) s = b64_Encode b"
    using that b64_Decode_Encode [of b]
    by (metis (no_types, lifting) b64_Decode_def filter_filter filter_cong)
  then show ?thesis by (auto dest: b64_Decode_canonical)
qed

text \<open>
  The package states that a value has exactly one accepted spelling; the standard
  decoder's tolerance of newlines leaves others. This is a second spelling of one 32-byte
  value that \<open>DecodeFixed\<close> accepts.
\<close>

theorem b64_newline_second_spelling:
  "\<exists>s t b. s \<noteq> t \<and> length b = 32 \<and> b64_DecodeFixed s 32 = Inr b \<and> b64_DecodeFixed t 32 = Inr b"
proof -
  let ?b = "replicate 32 (0 :: byte)"
  let ?s = "b64_Encode ?b"
  have "b64_Decode (CHR 0x0A # ?s) = b64_Decode ?s"
    by (simp add: b64_Decode_def is_newline_def)
  then have "b64_DecodeFixed (CHR 0x0A # ?s) 32 = Inr ?b"
    by (simp add: b64_DecodeFixed_Inr)
  moreover have "b64_DecodeFixed ?s 32 = Inr ?b" by simp
  ultimately show ?thesis by (metis length_replicate not_Cons_self2)
qed

end
