(* ===== verification/Json.thy ===== *)
theory Json imports Prelude begin

text \<open>
  What the program uses of Go's \<open>encoding/json\<close>: the well-formedness check (RFC 8259 syntax,
  nesting bounded by 10000), the unquoting of strings, the members of an object in the order
  of the text, integers as \<open>strconv.ParseInt\<close> reads them, and the matching of member names
  with struct fields, which first tries the exact name and then the case-folded one.

  The recursive-descent parser carries fuel. Every call consumes one unit, and
  \<open>2 * length s + 2\<close> units are enough for any input \<open>s\<close>: \<open>pval_fuel\<close> shows that more fuel never
  changes a result.
\<close>

section \<open>Values\<close>

text \<open>Numbers stay literals, as in the code: the target type decides how they are read.\<close>

datatype json =
    JNull
  | JBool bool
  | JNum string
  | JStr string
  | JArr "json list"
  | JObj "(string \<times> json) list"

definition is_ws :: "char \<Rightarrow> bool" where
  "is_ws c \<longleftrightarrow> c = CHR '' '' \<or> c = CHR 0x09 \<or> c = CHR 0x0A \<or> c = CHR 0x0D"

definition skip_ws :: "string \<Rightarrow> string" where
  "skip_ws s = dropWhile is_ws s"

lemma length_skip_ws: "length (skip_ws s) \<le> length s"
  by (simp add: skip_ws_def length_dropWhile_le)

definition hex_val :: "char \<Rightarrow> nat option" where
  "hex_val c =
    (let n = of_char c :: nat in
     if 48 \<le> n \<and> n \<le> 57 then Some (n - 48)
     else if 65 \<le> n \<and> n \<le> 70 then Some (n - 55)
     else if 97 \<le> n \<and> n \<le> 102 then Some (n - 87)
     else None)"

text \<open>The value of \<open>\uXXXX\<close> after the backslash and the \<open>u\<close>.\<close>

fun hex4 :: "string \<Rightarrow> nat option" where
  "hex4 (a # b # c # d # s) =
    (case (hex_val a, hex_val b, hex_val c, hex_val d) of
       (Some w, Some x, Some y, Some z) \<Rightarrow> Some (w * 4096 + x * 256 + y * 16 + z)
     | _ \<Rightarrow> None)"
| "hex4 s = None"

section \<open>Strings\<close>

text \<open>The raw text of a string up to its closing quote, escapes checked but not decoded.\<close>

fun string_body :: "string \<Rightarrow> (string \<times> string) option" where
  "string_body [] = None"
| "string_body (c # cs) =
    (if c = CHR 0x22 then Some ([], cs)
     else if c = CHR 0x5C then
       (case cs of
          [] \<Rightarrow> None
        | e # cs' \<Rightarrow>
          if e \<in> {CHR 0x22, CHR 0x5C, CHR ''/'', CHR ''b'', CHR ''f'', CHR ''n'', CHR ''r'', CHR ''t''}
             \<or> e = CHR ''u'' \<and> hex4 cs' \<noteq> None
          then map_option (apfst (\<lambda>r. c # e # r)) (string_body cs')
          else None)
     else if (of_char c :: nat) < 32 then None
     else map_option (apfst (\<lambda>r. c # r)) (string_body cs))"

text \<open>UTF-8 as \<open>utf8.EncodeRune\<close> and \<open>utf8.DecodeRune\<close> have it; 0xFFFD is the replacement.\<close>

definition utf8_encode :: "nat \<Rightarrow> string" where
  "utf8_encode r =
    map char_of
     (if r < 0x80 then [r]
      else if r < 0x800 then [0xC0 + r div 64, 0x80 + r mod 64]
      else if 0xD800 \<le> r \<and> r < 0xE000 \<or> 0x10FFFF < r then [0xEF, 0xBF, 0xBD]
      else if r < 0x10000 then [0xE0 + r div 4096, 0x80 + r div 64 mod 64, 0x80 + r mod 64]
      else [0xF0 + r div 262144, 0x80 + r div 4096 mod 64, 0x80 + r div 64 mod 64,
            0x80 + r mod 64])"

definition utf8_cont :: "nat \<Rightarrow> nat \<Rightarrow> string \<Rightarrow> nat option" where
  "utf8_cont lo hi s =
    (case s of [] \<Rightarrow> None
     | c # _ \<Rightarrow> if lo \<le> of_char c \<and> of_char c \<le> hi then Some (of_char c - 0x80) else None)"

definition utf8_decode :: "char \<Rightarrow> string \<Rightarrow> nat \<times> nat" where
  "utf8_decode c cs =
    (let b = of_char c :: nat;
         bad = (0xFFFD, 1);
         second = utf8_cont (if b = 0xE0 then 0xA0 else if b = 0xF0 then 0x90 else 0x80)
           (if b = 0xED then 0x9F else if b = 0xF4 then 0x8F else 0xBF) cs;
         third = utf8_cont 0x80 0xBF (drop 1 cs);
         fourth = utf8_cont 0x80 0xBF (drop 2 cs)
     in if b < 0x80 then (b, 1)
        else if 0xC2 \<le> b \<and> b \<le> 0xDF then
          (case second of Some x \<Rightarrow> ((b - 0xC0) * 64 + x, 2) | None \<Rightarrow> bad)
        else if 0xE0 \<le> b \<and> b \<le> 0xEF then
          (case (second, third) of
             (Some x, Some y) \<Rightarrow> ((b - 0xE0) * 4096 + x * 64 + y, 3) | _ \<Rightarrow> bad)
        else if 0xF0 \<le> b \<and> b \<le> 0xF4 then
          (case (second, third, fourth) of
             (Some x, Some y, Some z) \<Rightarrow> ((b - 0xF0) * 262144 + x * 4096 + y * 64 + z, 4)
           | _ \<Rightarrow> bad)
        else bad)"

definition simple_escape :: "char \<Rightarrow> char" where
  "simple_escape e =
    (if e = CHR ''b'' then CHR 0x08 else if e = CHR ''f'' then CHR 0x0C
     else if e = CHR ''n'' then CHR 0x0A else if e = CHR ''r'' then CHR 0x0D
     else if e = CHR ''t'' then CHR 0x09 else e)"

text \<open>
  \<open>unquoteBytes\<close> on a body that passed \<open>string_body\<close>: escapes are decoded, a surrogate pair is
  one rune, a lone surrogate and every byte that is not UTF-8 become the replacement rune.
\<close>

fun low_surrogate :: "string \<Rightarrow> nat option" where
  "low_surrogate (b # u # s) =
    (if b = CHR 0x5C \<and> u = CHR ''u'' then
       (case hex4 s of
          Some r \<Rightarrow> if 0xDC00 \<le> r \<and> r < 0xE000 then Some r else None
        | None \<Rightarrow> None)
     else None)"
| "low_surrogate s = None"

fun unquote :: "string \<Rightarrow> string" where
  "unquote [] = []"
| "unquote (c # cs) =
    (if c = CHR 0x5C then
       (case cs of
          [] \<Rightarrow> []
        | e # s \<Rightarrow>
          if e = CHR ''u'' then
            (let r = (case hex4 s of Some r \<Rightarrow> r | None \<Rightarrow> 0xFFFD);
                 s' = drop 4 s
             in if 0xD800 \<le> r \<and> r < 0xE000 then
                  (case (if r < 0xDC00 then low_surrogate s' else None) of
                     Some r' \<Rightarrow> utf8_encode (0x10000 + (r - 0xD800) * 1024 + (r' - 0xDC00))
                       @ unquote (drop 6 s')
                   | None \<Rightarrow> utf8_encode 0xFFFD @ unquote s')
                else utf8_encode r @ unquote s')
          else simple_escape e # unquote s)
     else if (of_char c :: nat) < 0x80 then c # unquote cs
     else (let (r, n) = utf8_decode c cs in utf8_encode r @ unquote (drop (n - 1) cs)))"

section \<open>Numbers\<close>

definition digits :: "string \<Rightarrow> string \<times> string" where
  "digits s = (takeWhile is_digit s, dropWhile is_digit s)"

fun lex_frac :: "string \<Rightarrow> (string \<times> string) option" where
  "lex_frac [] = Some ([], [])"
| "lex_frac (c # s) =
    (if c = CHR ''.'' then
       (let (ds, r) = digits s in if ds = [] then None else Some (c # ds, r))
     else Some ([], c # s))"

fun lex_exp :: "string \<Rightarrow> (string \<times> string) option" where
  "lex_exp [] = Some ([], [])"
| "lex_exp (c # s) =
    (if c = CHR ''e'' \<or> c = CHR ''E'' then
       (let (sign, s') = (case s of
            [] \<Rightarrow> ([], [])
          | x # xs \<Rightarrow> if x = CHR ''+'' \<or> x = CHR ''-'' then ([x], xs) else ([], s));
            (ds, r) = digits s'
        in if ds = [] then None else Some (c # sign @ ds, r))
     else Some ([], c # s))"

definition lex_int :: "string \<Rightarrow> (string \<times> string) option" where
  "lex_int s =
    (case s of
       [] \<Rightarrow> None
     | c # r \<Rightarrow> if c = CHR ''0'' then Some ([c], r)
         else let (ds, r') = digits s in if ds = [] then None else Some (ds, r'))"

definition lex_number :: "string \<Rightarrow> (string \<times> string) option" where
  "lex_number s =
    (let (sign, s1) = (case s of
         [] \<Rightarrow> ([], [])
       | c # r \<Rightarrow> if c = CHR ''-'' then ([c], r) else ([], s))
     in case lex_int s1 of
       None \<Rightarrow> None
     | Some (i, s2) \<Rightarrow>
         (case lex_frac s2 of
            None \<Rightarrow> None
          | Some (f, s3) \<Rightarrow>
              (case lex_exp s3 of
                 None \<Rightarrow> None
               | Some (e, s4) \<Rightarrow> Some (sign @ i @ f @ e, s4))))"

text \<open>
  \<open>strconv.ParseInt(lit, 10, 64)\<close> on a literal of the grammar above: a fraction, an exponent
  or a value outside the signed 64-bit range is an error.
\<close>

definition parse_int64 :: "string \<Rightarrow> int option" where
  "parse_int64 lit =
    (let (neg, ds) = (case lit of
         [] \<Rightarrow> (False, [])
       | c # r \<Rightarrow> if c = CHR ''-'' then (True, r) else (False, lit))
     in if ds = [] \<or> \<not> list_all is_digit ds then None
        else let v = (if neg then - int (digits_value ds) else int (digits_value ds))
          in if is_i64 v then Some v else None)"

section \<open>Values, recursively\<close>

definition strip_prefix :: "string \<Rightarrow> string \<Rightarrow> string option" where
  "strip_prefix p s = (if take (length p) s = p then Some (drop (length p) s) else None)"

fun pval :: "nat \<Rightarrow> nat \<Rightarrow> string \<Rightarrow> (json \<times> string) option"
  and pelems :: "nat \<Rightarrow> nat \<Rightarrow> string \<Rightarrow> (json list \<times> string) option"
  and pmems :: "nat \<Rightarrow> nat \<Rightarrow> string \<Rightarrow> ((string \<times> json) list \<times> string) option" where
  "pval 0 d s = None"
| "pval (Suc n) d s =
    (case skip_ws s of
       [] \<Rightarrow> None
     | c # r \<Rightarrow>
       if c = CHR 0x22 then map_option (apfst (JStr \<circ> unquote)) (string_body r)
       else if c = CHR ''['' then
         (if d = 0 then None
          else case skip_ws r of
            [] \<Rightarrow> None
          | x # r' \<Rightarrow> if x = CHR '']'' then Some (JArr [], r')
              else map_option (apfst JArr) (pelems n (d - 1) r))
       else if c = CHR 0x7B then
         (if d = 0 then None
          else case skip_ws r of
            [] \<Rightarrow> None
          | x # r' \<Rightarrow> if x = CHR 0x7D then Some (JObj [], r')
              else map_option (apfst JObj) (pmems n (d - 1) r))
       else if c = CHR ''t'' then map_option (Pair (JBool True)) (strip_prefix ''rue'' r)
       else if c = CHR ''f'' then map_option (Pair (JBool False)) (strip_prefix ''alse'' r)
       else if c = CHR ''n'' then map_option (Pair JNull) (strip_prefix ''ull'' r)
       else map_option (apfst JNum) (lex_number (c # r)))"
| "pelems 0 d s = None"
| "pelems (Suc n) d s =
    (case pval n d s of
       None \<Rightarrow> None
     | Some (v, r) \<Rightarrow>
       (case skip_ws r of
          [] \<Rightarrow> None
        | x # r' \<Rightarrow> if x = CHR '','' then map_option (apfst (Cons v)) (pelems n d r')
            else if x = CHR '']'' then Some ([v], r') else None))"
| "pmems 0 d s = None"
| "pmems (Suc n) d s =
    (case skip_ws s of
       [] \<Rightarrow> None
     | q # s1 \<Rightarrow>
       if q \<noteq> CHR 0x22 then None
       else case string_body s1 of
         None \<Rightarrow> None
       | Some (name, s2) \<Rightarrow>
         (case skip_ws s2 of
            [] \<Rightarrow> None
          | colon # s3 \<Rightarrow>
            if colon \<noteq> CHR '':'' then None
            else case pval n d s3 of
              None \<Rightarrow> None
            | Some (v, r) \<Rightarrow>
              (case skip_ws r of
                 [] \<Rightarrow> None
               | x # r' \<Rightarrow>
                 if x = CHR '','' then map_option (apfst (Cons (unquote name, v))) (pmems n d r')
                 else if x = CHR 0x7D then Some ([(unquote name, v)], r') else None)))"

definition maxNestingDepth :: nat where "maxNestingDepth = 10000"

text \<open>The whole of a text as one value, as \<open>json.Unmarshal\<close> checks it before decoding.\<close>

definition json_parse :: "string \<Rightarrow> json option" where
  "json_parse s =
    (case pval (2 * length s + 2) maxNestingDepth s of
       None \<Rightarrow> None
     | Some (v, r) \<Rightarrow> if skip_ws r = [] then Some v else None)"

section \<open>The fuel is enough\<close>

lemma string_body_shorter: "string_body s = Some (b, r) \<Longrightarrow> length r < length s"
  by (induction s arbitrary: b rule: string_body.induct)
    (fastforce split: if_splits list.splits)+

lemma digits_shorter: "digits s = (ds, r) \<Longrightarrow> ds @ r = s"
  by (auto simp: digits_def)

lemma lex_int_app: "lex_int s = Some (i, r) \<Longrightarrow> i @ r = s \<and> i \<noteq> []"
  by (auto simp: lex_int_def Let_def split: list.splits if_splits prod.splits dest: digits_shorter)

lemma lex_frac_app: "lex_frac s = Some (f, r) \<Longrightarrow> f @ r = s"
  by (cases s) (auto simp: Let_def split: if_splits prod.splits dest: digits_shorter)

lemma lex_exp_app: "lex_exp s = Some (e, r) \<Longrightarrow> e @ r = s"
  by (cases s) (auto simp: Let_def split: if_splits prod.splits list.splits dest: digits_shorter)

lemma lex_number_app: "lex_number s = Some (l, r) \<Longrightarrow> l @ r = s \<and> l \<noteq> []"
  by (auto simp: lex_number_def Let_def split: list.splits if_splits option.splits prod.splits
    dest!: lex_int_app lex_frac_app lex_exp_app)

lemma lex_number_shorter: "lex_number s = Some (l, r) \<Longrightarrow> length r < length s"
  using lex_number_app by fastforce

lemma strip_prefix_shorter: "strip_prefix p s = Some r \<Longrightarrow> length r \<le> length s"
  by (auto simp: strip_prefix_def split: if_splits)

lemma skip_ws_Cons: "skip_ws s = c # r \<Longrightarrow> length r < length s"
  using length_skip_ws [of s] by simp

lemma pval_shorter:
  "pval n d s = Some (v, r) \<Longrightarrow> length r < length s"
  "pelems n d s = Some (vs, r) \<Longrightarrow> length r < length s"
  "pmems n d s = Some (ms, r) \<Longrightarrow> length r < length s"
proof (induction n d s and n d s and n d s arbitrary: v r and vs r and ms r
    rule: pval_pelems_pmems.induct)
  case (2 n d s)
  then show ?case
    by (force split: list.splits if_splits option.splits
      dest!: skip_ws_Cons string_body_shorter lex_number_shorter strip_prefix_shorter)
next
  case (4 n d s)
  then show ?case
    by (force split: list.splits if_splits option.splits dest!: skip_ws_Cons)
next
  case (6 n d s)
  then show ?case
    by (force split: list.splits if_splits option.splits
      dest!: skip_ws_Cons string_body_shorter)
qed auto

lemma pval_fuel_Suc:
  "2 * length s + 1 \<le> n \<Longrightarrow> pval (Suc n) d s = pval n d s"
  "2 * length s + 2 \<le> n \<Longrightarrow> pelems (Suc n) d s = pelems n d s"
  "2 * length s + 2 \<le> n \<Longrightarrow> pmems (Suc n) d s = pmems n d s"
proof (induction n d s and n d s and n d s rule: pval_pelems_pmems.induct)
  case (2 n d s)
  show ?case
  proof (cases "skip_ws s")
    case (Cons c r)
    have elems: "pelems (Suc n) (d - 1) r = pelems n (d - 1) r"
      if "c = CHR ''[''" "d \<noteq> 0" "skip_ws r = x # r'" "x \<noteq> CHR '']''" for x r'
      by (rule "2.IH"(1) [OF Cons _ that(1) that(2) that(3) that(4)])
        (use that "2.prems" skip_ws_Cons [OF Cons] in simp_all)
    have mems: "pmems (Suc n) (d - 1) r = pmems n (d - 1) r"
      if "c = CHR 0x7B" "d \<noteq> 0" "skip_ws r = x # r'" "x \<noteq> CHR 0x7D" for x r'
      by (rule "2.IH"(2) [OF Cons _ _ that(1) that(2) that(3) that(4)])
        (use that "2.prems" skip_ws_Cons [OF Cons] in simp_all)
    show ?thesis
      unfolding pval.simps(2) [of "Suc n" d s] pval.simps(2) [of n d s] Cons
      by (auto simp del: pelems.simps pmems.simps One_nat_def simp: elems mems split: list.split)
  qed simp
next
  case (4 n d s)
  have same: "pval (Suc n) d s = pval n d s" by (rule "4.IH"(1)) (use "4.prems" in simp)
  have step: "pelems (Suc n) d r' = pelems n d r'"
    if "pval n d s = Some (v, r)" "skip_ws r = CHR '','' # r'" for v r r'
    by (rule "4.IH"(2) [OF that(1) refl that(2) refl])
      (use "4.prems" pval_shorter(1) [OF that(1)] skip_ws_Cons [OF that(2)] in simp)
  show ?case
    unfolding pelems.simps(2) [of "Suc n" d s] pelems.simps(2) [of n d s] same
    by (auto simp del: pelems.simps pval.simps simp: step split: option.split list.split)
next
  case (6 n d s)
  have same: "pval (Suc n) d s3 = pval n d s3"
    if "skip_ws s = q # s1" "q = CHR 0x22" "string_body s1 = Some (name, s2)"
      "skip_ws s2 = colon # s3" "colon = CHR '':''" for q s1 name s2 colon s3
    by (rule "6.IH"(1) [OF that(1) _ that(3) refl that(4)])
      (use that "6.prems" skip_ws_Cons [OF that(1)] string_body_shorter [OF that(3)]
        skip_ws_Cons [OF that(4)] in simp_all)
  have step: "pmems (Suc n) d r' = pmems n d r'"
    if "skip_ws s = q # s1" "q = CHR 0x22" "string_body s1 = Some (name, s2)"
      "skip_ws s2 = colon # s3" "colon = CHR '':''" "pval n d s3 = Some (v, r)"
      "skip_ws r = CHR '','' # r'" for q s1 name s2 colon s3 v r r'
    by (rule "6.IH"(2) [OF that(1) _ that(3) refl that(4) _ that(6) refl that(7) refl])
      (use that "6.prems" skip_ws_Cons [OF that(1)] string_body_shorter [OF that(3)]
        skip_ws_Cons [OF that(4)] pval_shorter(1) [OF that(6)] skip_ws_Cons [OF that(7)]
        in simp_all)
  show ?case
    unfolding pmems.simps(2) [of "Suc n" d s] pmems.simps(2) [of n d s]
    by (auto simp del: pmems.simps pval.simps simp: same step split: option.split list.split)
qed auto

lemma pval_fuel: "2 * length s + 1 \<le> n \<Longrightarrow> pval n d s = pval (2 * length s + 1) d s"
proof (induction n)
  case (Suc n)
  then show ?case
    using pval_fuel_Suc(1) [of s n d] by (cases "2 * length s + 1 = Suc n") simp_all
qed simp

lemma pval_mono:
  "pval n d s = Some x \<Longrightarrow> n \<le> m \<Longrightarrow> d \<le> e \<Longrightarrow> pval m e s = Some x"
  "pelems n d s = Some y \<Longrightarrow> n \<le> m \<Longrightarrow> d \<le> e \<Longrightarrow> pelems m e s = Some y"
  "pmems n d s = Some z \<Longrightarrow> n \<le> m \<Longrightarrow> d \<le> e \<Longrightarrow> pmems m e s = Some z"
proof (induction n d s and n d s and n d s arbitrary: x m e and y m e and z m e
    rule: pval_pelems_pmems.induct)
  case (2 n d s)
  obtain m' where m: "m = Suc m'" "n \<le> m'" using "2.prems"(2) by (cases m) auto
  show ?case
  proof (cases "skip_ws s")
    case Nil
    with 2 show ?thesis by simp
  next
    case (Cons c r)
    have elems: "pelems m' (e - 1) r = Some y"
      if "c = CHR ''[''" "d \<noteq> 0" "skip_ws r = x # r'" "x \<noteq> CHR '']''" "pelems n (d - 1) r = Some y"
      for x r' y
      by (rule "2.IH"(1) [OF Cons _ that(1) that(2) that(3) that(4) that(5)])
        (use that "2.prems" m in simp_all)
    have mems: "pmems m' (e - 1) r = Some z"
      if "c = CHR 0x7B" "d \<noteq> 0" "skip_ws r = x # r'" "x \<noteq> CHR 0x7D" "pmems n (d - 1) r = Some z"
      for x r' z
      by (rule "2.IH"(2) [OF Cons _ _ that(1) that(2) that(3) that(4) that(5)])
        (use that "2.prems" m in simp_all)
    show ?thesis
      using "2.prems" unfolding m(1) pval.simps(2) [of m' e s] pval.simps(2) [of n d s] Cons
      by (auto simp del: pelems.simps pmems.simps One_nat_def simp: elems mems
        split: list.splits if_splits)
  qed
next
  case (4 n d s)
  obtain m' where m: "m = Suc m'" "n \<le> m'" using "4.prems"(2) by (cases m) auto
  obtain v r where v: "pval n d s = Some (v, r)" using "4.prems"(1) by (auto split: option.splits)
  have same: "pval m' e s = Some (v, r)" by (rule "4.IH"(1) [OF v m(2) "4.prems"(3)])
  have step: "pelems m' e r' = Some y" if "skip_ws r = CHR '','' # r'" "pelems n d r' = Some y" for r' y
    by (rule "4.IH"(2) [OF v refl that(1) refl that(2) m(2) "4.prems"(3)])
  show ?case
    using "4.prems"(1) unfolding m(1) pelems.simps(2) [of m' e s] pelems.simps(2) [of n d s] same v
    by (auto simp del: pelems.simps pval.simps simp: step split: list.splits if_splits)
next
  case (6 n d s)
  obtain m' where m: "m = Suc m'" "n \<le> m'" using "6.prems"(2) by (cases m) auto
  obtain s1 name s2 s3 v r x r' where parts: "skip_ws s = CHR 0x22 # s1"
    "string_body s1 = Some (name, s2)" "skip_ws s2 = CHR '':'' # s3" "pval n d s3 = Some (v, r)"
    "skip_ws r = x # r'"
    using "6.prems"(1) by (simp split: option.split_asm list.split_asm if_split_asm prod.split_asm)
  have same: "pval m' e s3 = Some (v, r)"
    by (rule "6.IH"(1) [OF parts(1) _ parts(2) refl parts(3) _ parts(4) m(2) "6.prems"(3)]) simp_all
  have step: "pmems m' e r' = Some y" if "x = CHR '',''" "pmems n d r' = Some y" for y
    by (rule "6.IH"(2) [OF parts(1) _ parts(2) refl parts(3) _ parts(4) refl parts(5) that(1) that(2)
          m(2) "6.prems"(3)]) simp_all
  show ?case
    using "6.prems"(1) unfolding m(1) pmems.simps(2) [of m' e s] pmems.simps(2) [of n d s]
    by (auto simp del: pmems.simps pval.simps simp: parts same step split: if_splits)
qed auto

text \<open>Any result, whatever fuel and depth it was obtained with, is the one with enough of both.\<close>

lemma pval_enough:
  assumes "pval n d s = Some x" and "d \<le> e"
  shows "pval (2 * length s + 2) e s = Some x"
proof -
  have "pval (max n (2 * length s + 2)) e s = Some x"
    using pval_mono(1) [OF assms(1) _ assms(2)] by simp
  then show ?thesis
    using pval_fuel [of s "max n (2 * length s + 2)" e] pval_fuel [of s "2 * length s + 2" e] by simp
qed

section \<open>Decimal text\<close>

text \<open>\<open>strconv.Itoa\<close> and \<open>strconv.FormatInt(x, 10)\<close>.\<close>

definition digit_char :: "nat \<Rightarrow> char" where
  "digit_char n = char_of (48 + n)"

fun show_nat :: "nat \<Rightarrow> string" where
  "show_nat n = (if n < 10 then [digit_char n] else show_nat (n div 10) @ [digit_char (n mod 10)])"

declare show_nat.simps [simp del]

definition Itoa :: "int \<Rightarrow> string" where
  "Itoa x = (if x < 0 then CHR ''-'' # show_nat (nat (- x)) else show_nat (nat x))"

lemma of_digit_char [simp]: "n < 10 \<Longrightarrow> (of_char (digit_char n) :: nat) = 48 + n"
  by (simp add: digit_char_def)

lemma is_digit_digit_char [simp]: "n < 10 \<Longrightarrow> is_digit (digit_char n)"
  by (simp add: is_digit_def)

lemma show_nat_digits: "list_all is_digit (show_nat n) \<and> show_nat n \<noteq> []"
proof (induction n rule: show_nat.induct)
  case (1 n)
  then show ?case by (subst (1 2) show_nat.simps) auto
qed

lemma digits_value_snoc: "digits_value (ds @ [c]) = digits_value ds * 10 + (of_char c - 48)"
  by (simp add: digits_value_def)

lemma digits_value_show [simp]: "digits_value (show_nat n) = n"
proof (induction n rule: show_nat.induct)
  case (1 n)
  show ?case
  proof (cases "n < 10")
    case True
    then show ?thesis by (simp add: show_nat.simps [of n] digits_value_def)
  next
    case False
    with 1 show ?thesis by (simp add: show_nat.simps [of n] digits_value_snoc)
  qed
qed

lemma show_nat_first: "n > 0 \<Longrightarrow> \<exists>c ds. show_nat n = c # ds \<and> c \<noteq> CHR ''0'' \<and> is_digit c"
proof (induction n rule: show_nat.induct)
  case (1 n)
  show ?case
  proof (cases "n < 10")
    case True
    have "digit_char n \<noteq> CHR ''0''"
    proof
      assume "digit_char n = CHR ''0''"
      then have "(of_char (digit_char n) :: nat) = of_char CHR ''0''" by simp
      with True 1(2) show False by simp
    qed
    with True show ?thesis by (simp add: show_nat.simps [of n])
  next
    case False
    then have "n div 10 > 0" by simp
    with 1 False obtain c ds where "show_nat (n div 10) = c # ds" "c \<noteq> CHR ''0''" "is_digit c"
      by blast
    with False show ?thesis by (simp add: show_nat.simps [of n])
  qed
qed

lemma show_nat_0 [simp]: "show_nat 0 = ''0''"
  proof -
  have "digit_char 0 = CHR ''0''" by code_simp
  then show ?thesis by (simp add: show_nat.simps [of 0])
qed

lemma not_digit_dash [simp]: "\<not> is_digit CHR ''-''" "is_digit CHR ''0''"
  by code_simp+

lemma digit_not_dash: "is_digit c \<Longrightarrow> c \<noteq> CHR ''-''"
  by auto

lemma parse_int64_Itoa [simp]: "is_i64 x \<Longrightarrow> parse_int64 (Itoa x) = Some x"
proof -
  assume x: "is_i64 x"
  obtain c ds where sh: "show_nat (nat x) = c # ds" "is_digit c"
    using show_nat_digits [of "nat x"] by (cases "show_nat (nat x)") auto
  show ?thesis
  proof (cases "x < 0")
    case True
    with x show ?thesis using show_nat_digits [of "nat (- x)"]
      by (simp add: parse_int64_def Itoa_def)
  next
    case False
    have "list_all is_digit (c # ds)" using show_nat_digits [of "nat x"] sh by simp
    moreover have "digits_value (c # ds) = nat x" using sh by (metis digits_value_show)
    ultimately show ?thesis
      using x False sh digit_not_dash [OF sh(2)] by (simp add: parse_int64_def Itoa_def)
  qed
qed

section \<open>Strings, as the encoder writes them\<close>

definition hex_char :: "nat \<Rightarrow> char" where
  "hex_char n = char_of (if n < 10 then 48 + n else 87 + n)"

definition escape_ascii :: "char \<Rightarrow> string" where
  "escape_ascii c =
    (let n = of_char c :: nat in
     if c = CHR 0x22 \<or> c = CHR 0x5C then [CHR 0x5C, c]
     else if n = 8 then [CHR 0x5C, CHR ''b''] else if n = 12 then [CHR 0x5C, CHR ''f'']
     else if n = 10 then [CHR 0x5C, CHR ''n''] else if n = 13 then [CHR 0x5C, CHR ''r'']
     else if n = 9 then [CHR 0x5C, CHR ''t'']
     else if n < 32 \<or> c = CHR ''<'' \<or> c = CHR ''>'' \<or> c = CHR ''&''
       then [CHR 0x5C, CHR ''u'', CHR ''0'', CHR ''0'', hex_char (n div 16), hex_char (n mod 16)]
     else [c])"

function json_escape :: "string \<Rightarrow> string" where
  "json_escape [] = []"
| "json_escape (c # cs) =
    (if (of_char c :: nat) < 128 then escape_ascii c @ json_escape cs
     else let (r, n) = utf8_decode c cs in
       if r = 0xFFFD \<and> n = 1
         then [CHR 0x5C, CHR ''u'', CHR ''f'', CHR ''f'', CHR ''f'', CHR ''d''] @ json_escape cs
       else if r = 0x2028 \<or> r = 0x2029
         then [CHR 0x5C, CHR ''u'', CHR ''2'', CHR ''0'', CHR ''2'', hex_char (r mod 16)] @
           json_escape (drop (n - 1) cs)
       else c # take (n - 1) cs @ json_escape (drop (n - 1) cs))"
  by pat_completeness auto
termination
  by (relation "measure length") auto

text \<open>\<open>json.Marshal\<close> of a string: the characters HTML treats specially are escaped too.\<close>

definition json_quote :: "string \<Rightarrow> string" where
  "json_quote s = CHR 0x22 # json_escape s @ [CHR 0x22]"

section \<open>Parsing what was printed\<close>

text \<open>A character that stands for itself inside a string, and what may follow a value.\<close>

definition plain_char :: "char \<Rightarrow> bool" where
  "plain_char c \<longleftrightarrow> c \<noteq> CHR 0x22 \<and> c \<noteq> CHR 0x5C \<and> 32 \<le> (of_char c :: nat) \<and> (of_char c :: nat) < 128"

definition ends_value :: "string \<Rightarrow> bool" where
  "ends_value r \<longleftrightarrow> (\<exists>c s. r = c # s \<and> (c = CHR '','' \<or> c = CHR 0x7D \<or> c = CHR '']'' \<or> c = CHR 0x0A))"

lemma string_body_plain: "list_all plain_char b \<Longrightarrow> string_body (b @ CHR 0x22 # r) = Some (b, r)"
  by (induction b) (auto simp: plain_char_def)

lemma unquote_plain: "list_all plain_char b \<Longrightarrow> unquote b = b"
  by (induction b) (auto simp: plain_char_def)

definition quoted :: "string \<Rightarrow> string" where
  "quoted b = CHR 0x22 # b @ [CHR 0x22]"

definition renders :: "string \<Rightarrow> json \<Rightarrow> bool" where
  "renders t v \<longleftrightarrow> (\<forall>n d r. ends_value r \<longrightarrow> pval (Suc n) d (t @ r) = Some (v, r))"

lemma is_ws_simps [simp]:
  "\<not> is_ws CHR 0x22" "\<not> is_ws CHR 0x7B" "\<not> is_ws CHR 0x7D" "\<not> is_ws CHR '',''" "\<not> is_ws CHR '':''"
  "\<not> is_ws CHR ''-''" "\<not> is_ws CHR '']''" "\<not> is_ws CHR ''[''"
  by (simp_all add: is_ws_def)

lemma is_digit_not_special:
  "is_digit c \<Longrightarrow> \<not> is_ws c \<and> c \<noteq> CHR 0x22 \<and> c \<noteq> CHR ''['' \<and> c \<noteq> CHR 0x7B \<and> c \<noteq> CHR ''t'' \<and>
    c \<noteq> CHR ''f'' \<and> c \<noteq> CHR ''n'' \<and> c \<noteq> CHR ''-''"
  by (auto simp: is_digit_def is_ws_def)

lemma skip_ws_Cons_not [simp]: "\<not> is_ws c \<Longrightarrow> skip_ws (c # s) = c # s"
  by (simp add: skip_ws_def)

lemma skip_ws_Nil [simp]: "skip_ws [] = []"
  by (simp add: skip_ws_def)

lemma renders_string: "list_all plain_char b \<Longrightarrow> renders (quoted b) (JStr b)"
  by (simp add: renders_def quoted_def string_body_plain unquote_plain)

lemma ends_value_not:
  "ends_value (c # s) \<Longrightarrow> \<not> is_digit c \<and> c \<noteq> CHR ''.'' \<and> c \<noteq> CHR ''e'' \<and> c \<noteq> CHR ''E''"
  by (auto simp: ends_value_def is_digit_def)

lemma digits_app:
  "list_all is_digit ds \<Longrightarrow> ends_value r \<Longrightarrow> digits (ds @ r) = (ds, r)"
  by (cases r) (auto simp: digits_def list_all_iff ends_value_def is_digit_def)

lemma lex_rest: "ends_value r \<Longrightarrow> lex_frac r = Some ([], r) \<and> lex_exp r = Some ([], r)"
  by (cases r) (auto dest: ends_value_not)

lemma lex_int_show: "ends_value r \<Longrightarrow> lex_int (show_nat n @ r) = Some (show_nat n, r)"
proof (cases "n = 0")
  case False
  assume r: "ends_value r"
  from False obtain c ds where n: "show_nat n = c # ds" "c \<noteq> CHR ''0''"
    using show_nat_first [of n] by auto
  have "digits (show_nat n @ r) = (show_nat n, r)"
    using digits_app r show_nat_digits by blast
  with n show ?thesis by (simp add: lex_int_def)
qed (simp add: lex_int_def)

lemma lex_number_Itoa: "ends_value r \<Longrightarrow> lex_number (Itoa x @ r) = Some (Itoa x, r)"
proof -
  assume r: "ends_value r"
  obtain c ds where n: "show_nat (nat x) = c # ds" "c \<noteq> CHR ''-''"
    using show_nat_digits [of "nat x"] by (cases "show_nat (nat x)") (auto dest: digit_not_dash)
  show ?thesis
    using lex_int_show [OF r, of "nat x"] lex_int_show [OF r, of "nat (- x)"] lex_rest [OF r] n
    by (simp add: lex_number_def Itoa_def)
qed

lemma renders_int: "renders (Itoa x) (JNum (Itoa x))"
proof -
  have "pval (Suc n) d (Itoa x @ r) = Some (JNum (Itoa x), r)" if r: "ends_value r" for n d r
  proof -
    obtain c ds where x: "Itoa x = c # ds" "c = CHR ''-'' \<or> is_digit c"
      using show_nat_digits [of "nat x"]
      by (cases "show_nat (nat x)"; cases "x < 0") (simp_all add: Itoa_def)
    then have "\<not> is_ws c \<and> c \<noteq> CHR 0x22 \<and> c \<noteq> CHR ''['' \<and> c \<noteq> CHR 0x7B \<and> c \<noteq> CHR ''t'' \<and>
        c \<noteq> CHR ''f'' \<and> c \<noteq> CHR ''n''"
      using is_digit_not_special by auto
    with x(1) lex_number_Itoa [OF r, of x] show ?thesis by simp
  qed
  then show ?thesis by (simp add: renders_def)
qed

text \<open>An object whose members are rendered one after the other, without white space.\<close>

fun members_text :: "(string \<times> string) list \<Rightarrow> string" where
  "members_text [] = [CHR 0x7D]"
| "members_text [(k, t)] = quoted k @ CHR '':'' # t @ [CHR 0x7D]"
| "members_text ((k, t) # ms) = quoted k @ CHR '':'' # t @ CHR '','' # members_text ms"

definition object_text :: "(string \<times> string) list \<Rightarrow> string" where
  "object_text ms = CHR 0x7B # members_text ms"

lemma pmems_members_text:
  assumes "ms \<noteq> []" and "length ms < n"
    and "\<forall>(k, t, v) \<in> set ms. list_all plain_char k \<and> renders t v"
  shows "pmems n d (members_text (map (\<lambda>(k, t, v). (k, t)) ms) @ r) =
    Some (map (\<lambda>(k, t, v). (k, v)) ms, r)"
  using assms
proof (induction ms arbitrary: n)
  case (Cons m ms)
  obtain k t v where m: "m = (k, t, v)" by (cases m)
  obtain n' where n: "n = Suc (Suc n')" using Cons.prems(2) by (cases n; cases "n - 1") auto
  from Cons.prems(3) m have k: "list_all plain_char k" and t: "renders t v" by auto
  show ?case
  proof (cases ms)
    case Nil
    have "pval (Suc n') d (t @ CHR 0x7D # r) = Some (v, CHR 0x7D # r)"
      using t by (simp add: renders_def ends_value_def del: pval.simps)
    with Nil m n k show ?thesis
      by (simp add: quoted_def string_body_plain unquote_plain del: pval.simps)
  next
    case (Cons m' ms')
    obtain k' t' v' where m': "m' = (k', t', v')" by (cases m')
    let ?s = "members_text (map (\<lambda>(k, t, v). (k, t)) ms)"
    have "pmems (Suc n') d (?s @ r) = Some (map (\<lambda>(k, t, v). (k, v)) ms, r)"
      using Cons.IH Cons.prems Cons n by (intro Cons.IH) auto
    moreover have "pval (Suc n') d (t @ CHR '','' # ?s @ r) = Some (v, CHR '','' # ?s @ r)"
      using t by (simp add: renders_def ends_value_def del: pval.simps)
    ultimately show ?thesis
      using Cons m m' n k
      by (simp add: quoted_def string_body_plain unquote_plain del: pval.simps pmems.simps)
        (simp add: string_body_plain unquote_plain del: pval.simps)
  qed
qed simp

lemma length_members_text: "length ms \<le> length (members_text ms)"
  by (induction ms rule: members_text.induct) auto

lemma members_text_quote: "ms \<noteq> [] \<Longrightarrow> \<exists>s. members_text ms = CHR 0x22 # s"
  by (induction ms rule: members_text.induct) (auto simp: quoted_def)

lemma json_parse_object_text:
  assumes "ms \<noteq> []" and "\<forall>(k, t, v) \<in> set ms. list_all plain_char k \<and> renders t v"
  shows "json_parse (object_text (map (\<lambda>(k, t, v). (k, t)) ms)) =
    Some (JObj (map (\<lambda>(k, t, v). (k, v)) ms))"
proof -
  let ?s = "members_text (map (\<lambda>(k, t, v). (k, t)) ms)"
  obtain s' where q: "?s = CHR 0x22 # s'" using members_text_quote assms(1) by fastforce
  define n where "n = 2 * length ?s + 3"
  have "length ms < n"
    using length_members_text [of "map (\<lambda>(k, t, v). (k, t)) ms"] by (simp add: n_def)
  from pmems_members_text [OF assms(1) this assms(2), of 9999 "[]"]
  have "pmems n 9999 ?s = Some (map (\<lambda>(k, t, v). (k, v)) ms, [])" by simp
  then have "pval (Suc n) 10000 (CHR 0x7B # ?s) = Some (JObj (map (\<lambda>(k, t, v). (k, v)) ms), [])"
    using q by simp
  moreover have "2 * length (CHR 0x7B # ?s) + 2 = Suc n"
    by (simp add: n_def)
  ultimately show ?thesis
    by (simp only: json_parse_def maxNestingDepth_def object_text_def) simp
qed

section \<open>Decoding into Go values\<close>

text \<open>
  \<open>json.Unmarshal\<close> into a \<open>map[string]json.RawMessage\<close>: the members of an object, of which
  \<open>null\<close> has none; anything else is a type error. A later member of the same name replaces an
  earlier one, so the map is \<open>map_of (rev ms)\<close>.
\<close>

definition unmarshal_members :: "string \<Rightarrow> (string \<times> json) list option" where
  "unmarshal_members body =
    (case json_parse body of
       Some (JObj ms) \<Rightarrow> Some ms
     | Some JNull \<Rightarrow> Some []
     | _ \<Rightarrow> None)"

text \<open>
  A member name selects the struct field whose name it is or, failing that, the field it equals
  after case folding. Two runes outside ASCII fold to an ASCII letter, U+017F to S and U+212A
  to K; field names are ASCII, so no other rune matters.
\<close>

fun fold_name :: "string \<Rightarrow> string" where
  "fold_name [] = []"
| "fold_name (c # cs) =
    (if 97 \<le> (of_char c :: nat) \<and> (of_char c :: nat) \<le> 122
     then char_of ((of_char c :: nat) - 32) # fold_name cs
     else if c = CHR 0xC5 \<and> take 1 cs = [CHR 0xBF] then CHR ''S'' # fold_name (drop 1 cs)
     else if c = CHR 0xE2 \<and> take 2 cs = [CHR 0x84, CHR 0xAA] then CHR ''K'' # fold_name (drop 2 cs)
     else c # fold_name cs)"

definition field_for :: "string list \<Rightarrow> string \<Rightarrow> string option" where
  "field_for names k =
    (if k \<in> set names then Some k else find (\<lambda>f. fold_name f = fold_name k) names)"

text \<open>
  A JSON value stored into a string or a 64-bit integer field: \<open>null\<close> leaves the field as it is,
  another type is an error.
\<close>

definition store_string :: "json \<Rightarrow> string \<Rightarrow> string option" where
  "store_string v old = (case v of JStr s \<Rightarrow> Some s | JNull \<Rightarrow> Some old | _ \<Rightarrow> None)"

definition store_int64 :: "json \<Rightarrow> int \<Rightarrow> int option" where
  "store_int64 v old = (case v of JNum l \<Rightarrow> parse_int64 l | JNull \<Rightarrow> Some old | _ \<Rightarrow> None)"

end
