(* ===== verification/Crypto.thy ===== *)
theory Crypto imports Prelude begin

text \<open>
  The cryptographic primitives the program calls and does not contain: SHA-256, Ed25519,
  AES-256-GCM and HKDF-SHA256 of Go's \<open>crypto\<close> packages. They are a parameter of every
  definition that uses them; what the program relies on is stated as four predicates, each the
  documented behaviour of the primitive. \<open>toy_crypto\<close> satisfies all four and serves the
  witnesses only.
\<close>

record crypto =
  sha256 :: "bytes \<Rightarrow> bytes"
  ed_public :: "bytes \<Rightarrow> bytes"
  ed_sign :: "bytes \<Rightarrow> bytes \<Rightarrow> bytes"
  ed_verify :: "bytes \<Rightarrow> bytes \<Rightarrow> bytes \<Rightarrow> bool"
  gcm_seal :: "bytes \<Rightarrow> bytes \<Rightarrow> bytes \<Rightarrow> bytes"
  gcm_open :: "bytes \<Rightarrow> bytes \<Rightarrow> bytes \<Rightarrow> bytes option"
  hkdf :: "bytes \<Rightarrow> string \<Rightarrow> nat \<Rightarrow> bytes option"

text \<open>A digest has 32 bytes.\<close>

definition sha256_ok :: "crypto \<Rightarrow> bool" where
  "sha256_ok C \<longleftrightarrow> (\<forall>m. length (sha256 C m) = 32)"

text \<open>
  \<open>NewKeyFromSeed\<close>: a private key is the seed followed by the public key. A signature has 64
  bytes and verifies under the public key of the signer.
\<close>

definition NewKeyFromSeed :: "crypto \<Rightarrow> bytes \<Rightarrow> bytes" where
  "NewKeyFromSeed C seed = seed @ ed_public C seed"

definition ed25519_ok :: "crypto \<Rightarrow> bool" where
  "ed25519_ok C \<longleftrightarrow> (\<forall>seed m. length seed = 32 \<longrightarrow>
     length (ed_public C seed) = 32 \<and>
     length (ed_sign C (NewKeyFromSeed C seed) m) = 64 \<and>
     ed_verify C (ed_public C seed) m (ed_sign C (NewKeyFromSeed C seed) m))"

text \<open>The tag adds 16 bytes, and opening what was sealed returns the plaintext.\<close>

definition gcm_ok :: "crypto \<Rightarrow> bool" where
  "gcm_ok C \<longleftrightarrow> (\<forall>k n p. length k = 32 \<and> length n = 12 \<longrightarrow>
     length (gcm_seal C k n p) = length p + 16 \<and> gcm_open C k n (gcm_seal C k n p) = Some p)"

text \<open>HKDF-SHA256 gives as many bytes as asked for, up to 255 digests.\<close>

definition hkdf_ok :: "crypto \<Rightarrow> bool" where
  "hkdf_ok C \<longleftrightarrow> (\<forall>secret info n. n \<le> 255 * 32 \<longrightarrow>
     (\<exists>out. hkdf C secret info n = Some out \<and> length out = n))"

definition pad :: "nat \<Rightarrow> bytes \<Rightarrow> bytes" where
  "pad n b = take n (b @ replicate n 0)"

lemma length_pad [simp]: "length (pad n b) = n"
  by (simp add: pad_def)

definition toy_crypto :: crypto where
  "toy_crypto = \<lparr>
     sha256 = (\<lambda>m. pad 32 (rev m)),
     ed_public = (\<lambda>seed. seed),
     ed_sign = (\<lambda>key m. pad 32 key @ pad 32 m),
     ed_verify = (\<lambda>pub m sig. sig = pad 32 pub @ pad 32 m),
     gcm_seal = (\<lambda>k n p. p @ pad 16 (k @ n)),
     gcm_open = (\<lambda>k n c. if length c < 16 \<or> drop (length c - 16) c \<noteq> pad 16 (k @ n) then None
       else Some (take (length c - 16) c)),
     hkdf = (\<lambda>s info n. if n \<le> 255 * 32 then Some (pad n (drop (length s - 32 + 24) s @ bytes_of_string (rev info)))
       else None)\<rparr>"

lemma toy_sha256_ok [simp]: "sha256_ok toy_crypto"
  by (simp add: sha256_ok_def toy_crypto_def)

lemma toy_ed25519_ok [simp]: "ed25519_ok toy_crypto"
  by (auto simp: ed25519_ok_def toy_crypto_def NewKeyFromSeed_def pad_def)

lemma toy_hkdf_ok [simp]: "hkdf_ok toy_crypto"
  by (simp add: hkdf_ok_def toy_crypto_def)

lemma toy_gcm_ok [simp]: "gcm_ok toy_crypto"
  by (simp add: gcm_ok_def toy_crypto_def)

end
