(* ===== verification/Records.thy ===== *)
theory Records imports B64 Json Crypto begin

text \<open>
  \<open>internal/record\<close>: the envelope a directory stores (\<open>envelope.go\<close>, \<open>canonical.go\<close>), the
  encryption of the payload (\<open>payload.go\<close>) and the framing of its plaintext (\<open>plaintext.go\<close>).
  An error is the left summand; a call that Go answers with a panic (Ed25519 with a key of the
  wrong length) is the error \<open>PanicKeyLength\<close>.
\<close>

section \<open>Constants and types\<close>

definition Version :: int where "Version = 1"

definition LookupIDLen :: nat where "LookupIDLen = 32"
definition WKPubLen :: nat where "WKPubLen = 32"
definition NonceLen :: nat where "NonceLen = 12"
definition PoWLen :: nat where "PoWLen = 8"
definition SigLen :: nat where "SigLen = 64"
definition TagLen :: nat where "TagLen = 16"
definition MaxEnvelopeBytes :: int where "MaxEnvelopeBytes = 4096"
definition record_MaxTTL :: int where "record_MaxTTL = 48 * 60 * 60"

definition canonVLen :: nat where "canonVLen = 1"
definition canonExpiresAtLen :: nat where "canonExpiresAtLen = 8"
definition FixedPrefixLen :: nat where
  "FixedPrefixLen = canonVLen + LookupIDLen + WKPubLen + canonExpiresAtLen + NonceLen"

definition RecordKeyLen :: nat where "RecordKeyLen = 32"
definition BodyLenSize :: nat where "BodyLenSize = 2"
definition PayloadSigLen :: nat where "PayloadSigLen = 64"
definition MaxBodyLen :: nat where "MaxBodyLen = 65535"

lemmas record_lens = LookupIDLen_def WKPubLen_def NonceLen_def PoWLen_def SigLen_def TagLen_def
  canonVLen_def canonExpiresAtLen_def FixedPrefixLen_def RecordKeyLen_def BodyLenSize_def
  PayloadSigLen_def MaxBodyLen_def

datatype record_error =
    ErrVersion | ErrFieldSize | ErrLookupID | ErrSignature | ErrCiphertext
  | ErrRecordKeyLen | ErrNonceLen | ErrNotAuthentic
  | ErrPayloadFormat | ErrBodyTooLarge | ErrPayloadSignature
  | PanicKeyLength

record Envelope =
  e_V :: int
  e_LookupID :: string
  e_WKPub :: string
  e_ExpiresAt :: int
  e_CT :: string
  e_Nonce :: string
  e_PoW :: string
  e_Sig :: string

record Decoded =
  d_V :: byte
  d_LookupID :: bytes
  d_WKPub :: bytes
  d_ExpiresAt :: int
  d_CT :: bytes
  d_Nonce :: bytes
  d_PoW :: bytes
  d_Sig :: bytes

section \<open>The signing input\<close>

definition CanonicalEnvelope ::
  "byte \<Rightarrow> bytes \<Rightarrow> bytes \<Rightarrow> int \<Rightarrow> bytes \<Rightarrow> bytes \<Rightarrow> bytes" where
  "CanonicalEnvelope v lookupID wkPub expiresAt nonce ct =
    [v] @ lookupID @ wkPub @ be_bytes 8 (uint64_of expiresAt) @ nonce @ ct"

section \<open>The envelope\<close>

text \<open>One fixed-width field of the table in \<open>Decode\<close>.\<close>

definition fixed_field :: "string \<Rightarrow> nat \<Rightarrow> record_error + bytes" where
  "fixed_field src n =
    (case b64_DecodeFixed src n of Inl _ \<Rightarrow> Inl ErrFieldSize | Inr v \<Rightarrow> Inr v)"

definition Envelope_Decode :: "Envelope \<Rightarrow> record_error + Decoded" where
  "Envelope_Decode e =
    (if e_V e \<noteq> Version then Inl ErrVersion
     else case fixed_field (e_LookupID e) LookupIDLen of Inl x \<Rightarrow> Inl x | Inr lookup \<Rightarrow>
       (case fixed_field (e_WKPub e) WKPubLen of Inl x \<Rightarrow> Inl x | Inr wk \<Rightarrow>
       (case fixed_field (e_Nonce e) NonceLen of Inl x \<Rightarrow> Inl x | Inr nonce \<Rightarrow>
       (case fixed_field (e_PoW e) PoWLen of Inl x \<Rightarrow> Inl x | Inr pow \<Rightarrow>
       (case fixed_field (e_Sig e) SigLen of Inl x \<Rightarrow> Inl x | Inr sig \<Rightarrow>
       (case b64_Decode (e_CT e) of None \<Rightarrow> Inl ErrFieldSize | Some ct \<Rightarrow>
          if length ct < TagLen then Inl ErrCiphertext
          else Inr \<lparr>d_V = byte_of (nat (e_V e mod 256)), d_LookupID = lookup, d_WKPub = wk,
            d_ExpiresAt = e_ExpiresAt e, d_CT = ct, d_Nonce = nonce, d_PoW = pow,
            d_Sig = sig\<rparr>))))))"

definition SigningBytes :: "Decoded \<Rightarrow> bytes" where
  "SigningBytes d =
    CanonicalEnvelope (d_V d) (d_LookupID d) (d_WKPub d) (d_ExpiresAt d) (d_Nonce d) (d_CT d)"

definition VerifyLookupID :: "crypto \<Rightarrow> Decoded \<Rightarrow> record_error option" where
  "VerifyLookupID C d = (if sha256 C (d_WKPub d) \<noteq> d_LookupID d then Some ErrLookupID else None)"

definition VerifySignature :: "crypto \<Rightarrow> Decoded \<Rightarrow> record_error option" where
  "VerifySignature C d =
    (if length (d_WKPub d) \<noteq> 32 then Some PanicKeyLength
     else if \<not> ed_verify C (d_WKPub d) (SigningBytes d) (d_Sig d) then Some ErrSignature
     else None)"

definition Decoded_Verify :: "crypto \<Rightarrow> Decoded \<Rightarrow> record_error option" where
  "Decoded_Verify C d =
    (case VerifyLookupID C d of Some x \<Rightarrow> Some x | None \<Rightarrow> VerifySignature C d)"

definition record_Sign ::
  "crypto \<Rightarrow> bytes \<Rightarrow> byte \<Rightarrow> bytes \<Rightarrow> bytes \<Rightarrow> int \<Rightarrow> bytes \<Rightarrow> bytes \<Rightarrow> record_error + bytes" where
  "record_Sign C wk v lookupID wkPub expiresAt nonce ct =
    (if length wk \<noteq> 64 then Inl PanicKeyLength
     else Inr (ed_sign C wk (CanonicalEnvelope v lookupID wkPub expiresAt nonce ct)))"

section \<open>The payload\<close>

definition newGCM :: "bytes \<Rightarrow> record_error option" where
  "newGCM recordKey = (if length recordKey \<noteq> RecordKeyLen then Some ErrRecordKeyLen else None)"

text \<open>\<open>Seal\<close> draws its nonce from the system's generator: the 12 bytes it returned are an argument.\<close>

definition record_Seal :: "crypto \<Rightarrow> bytes \<Rightarrow> bytes \<Rightarrow> bytes \<Rightarrow> record_error + bytes \<times> bytes" where
  "record_Seal C recordKey plaintext random =
    (case newGCM recordKey of
       Some x \<Rightarrow> Inl x
     | None \<Rightarrow> Inr (random, gcm_seal C recordKey random plaintext))"

definition SealWithNonce :: "crypto \<Rightarrow> bytes \<Rightarrow> bytes \<Rightarrow> bytes \<Rightarrow> record_error + bytes" where
  "SealWithNonce C recordKey nonce plaintext =
    (case newGCM recordKey of
       Some x \<Rightarrow> Inl x
     | None \<Rightarrow> if length nonce \<noteq> NonceLen then Inl ErrNonceLen
         else Inr (gcm_seal C recordKey nonce plaintext))"

definition record_Open :: "crypto \<Rightarrow> bytes \<Rightarrow> bytes \<Rightarrow> bytes \<Rightarrow> record_error + bytes" where
  "record_Open C recordKey nonce ct =
    (case newGCM recordKey of
       Some x \<Rightarrow> Inl x
     | None \<Rightarrow> if length nonce \<noteq> NonceLen then Inl ErrNonceLen
         else (case gcm_open C recordKey nonce ct of
             None \<Rightarrow> Inl ErrNotAuthentic | Some pt \<Rightarrow> Inr pt))"

section \<open>The payload's plaintext\<close>

definition MarshalPlaintext :: "crypto \<Rightarrow> bytes \<Rightarrow> bytes \<Rightarrow> record_error + bytes" where
  "MarshalPlaintext C ik body =
    (if length body > MaxBodyLen then Inl ErrBodyTooLarge
     else if length ik \<noteq> 64 then Inl PanicKeyLength
     else Inr (be_bytes 2 (length body) @ body @ ed_sign C ik body))"

definition ParsePlaintext :: "bytes \<Rightarrow> record_error + bytes \<times> bytes" where
  "ParsePlaintext plaintext =
    (if length plaintext < BodyLenSize + PayloadSigLen then Inl ErrPayloadFormat
     else let bodyLen = be_value (take BodyLenSize plaintext);
              want = BodyLenSize + bodyLen + PayloadSigLen
       in if length plaintext \<noteq> want then Inl ErrPayloadFormat
          else Inr (take bodyLen (drop BodyLenSize plaintext),
                    drop (BodyLenSize + bodyLen) plaintext))"

definition VerifyPayload :: "crypto \<Rightarrow> bytes \<Rightarrow> bytes \<Rightarrow> bytes \<Rightarrow> record_error option" where
  "VerifyPayload C ikPub body sig =
    (if length sig \<noteq> PayloadSigLen then Some ErrPayloadSignature
     else if length ikPub \<noteq> 32 then Some PanicKeyLength
     else if \<not> ed_verify C ikPub body sig then Some ErrPayloadSignature
     else None)"

definition VerifyPlaintext :: "crypto \<Rightarrow> bytes \<Rightarrow> bytes \<Rightarrow> record_error + bytes" where
  "VerifyPlaintext C ikPub plaintext =
    (case ParsePlaintext plaintext of
       Inl x \<Rightarrow> Inl x
     | Inr (body, sig) \<Rightarrow>
         (case VerifyPayload C ikPub body sig of Some x \<Rightarrow> Inl x | None \<Rightarrow> Inr body))"

section \<open>What decoding guarantees\<close>

lemma fixed_field_Inr: "fixed_field s n = Inr b \<longleftrightarrow> b64_Decode s = Some b \<and> length b = n"
  by (auto simp: fixed_field_def b64_DecodeFixed_def split: sum.splits option.splits if_splits)

lemma fixed_field_Inl: "fixed_field s n = Inl x \<Longrightarrow> x = ErrFieldSize"
  by (auto simp: fixed_field_def split: sum.splits)

definition decoded_widths :: "Decoded \<Rightarrow> bool" where
  "decoded_widths d \<longleftrightarrow> length (d_LookupID d) = 32 \<and> length (d_WKPub d) = 32 \<and>
    length (d_Nonce d) = 12 \<and> length (d_PoW d) = 8 \<and> length (d_Sig d) = 64 \<and>
    16 \<le> length (d_CT d) \<and> d_V d = 1"

lemma Envelope_Decode_InrD:
  assumes "Envelope_Decode e = Inr d"
  shows "decoded_widths d \<and> d_ExpiresAt d = e_ExpiresAt e \<and> e_V e = 1 \<and>
    b64_Decode (e_LookupID e) = Some (d_LookupID d) \<and> b64_Decode (e_WKPub e) = Some (d_WKPub d) \<and>
    b64_Decode (e_Nonce e) = Some (d_Nonce d) \<and> b64_Decode (e_PoW e) = Some (d_PoW d) \<and>
    b64_Decode (e_Sig e) = Some (d_Sig d) \<and> b64_Decode (e_CT e) = Some (d_CT d)"
  using assms
  by (auto simp: Envelope_Decode_def decoded_widths_def fixed_field_Inr record_lens Version_def
      byte_of_def split: if_splits sum.splits option.splits)

lemma Envelope_Decode_InrI:
  assumes "e_V e = 1" and "b64_Decode (e_LookupID e) = Some l" "length l = 32"
    and "b64_Decode (e_WKPub e) = Some w" "length w = 32"
    and "b64_Decode (e_Nonce e) = Some n" "length n = 12"
    and "b64_Decode (e_PoW e) = Some p" "length p = 8"
    and "b64_Decode (e_Sig e) = Some s" "length s = 64"
    and "b64_Decode (e_CT e) = Some c" "16 \<le> length c"
  shows "Envelope_Decode e = Inr \<lparr>d_V = 1, d_LookupID = l, d_WKPub = w,
    d_ExpiresAt = e_ExpiresAt e, d_CT = c, d_Nonce = n, d_PoW = p, d_Sig = s\<rparr>"
proof -
  have "fixed_field (e_LookupID e) 32 = Inr l" "fixed_field (e_WKPub e) 32 = Inr w"
    "fixed_field (e_Nonce e) 12 = Inr n" "fixed_field (e_PoW e) 8 = Inr p"
    "fixed_field (e_Sig e) 64 = Inr s"
    using assms by (simp_all add: fixed_field_Inr)
  with assms show ?thesis by (simp add: Envelope_Decode_def record_lens Version_def byte_of_def)
qed

lemma SigningBytes_length:
  "decoded_widths d \<Longrightarrow> length (SigningBytes d) = FixedPrefixLen + length (d_CT d) \<and>
    drop FixedPrefixLen (SigningBytes d) = d_CT d"
  by (simp add: SigningBytes_def CanonicalEnvelope_def decoded_widths_def record_lens)

lemma ParsePlaintext_framed:
  assumes "length sig = 64" and "length body \<le> MaxBodyLen"
  shows "ParsePlaintext (be_bytes 2 (length body) @ body @ sig) = Inr (body, sig)"
  using assms by (simp add: ParsePlaintext_def Let_def record_lens be_value_bytes)

section \<open>Properties\<close>

text \<open>
  C13. The signing input is injective on what \<open>Decode\<close> accepts: two envelopes with the same
  signing bytes agree in every signed field, so bytes cannot be moved from one field to
  another under a valid signature.
\<close>

theorem SigningBytes_injective:
  assumes "Envelope_Decode e = Inr d" and "Envelope_Decode e' = Inr d'"
    and "is_i64 (e_ExpiresAt e)" and "is_i64 (e_ExpiresAt e')"
    and "SigningBytes d = SigningBytes d'"
  shows "d_V d = d_V d' \<and> d_LookupID d = d_LookupID d' \<and> d_WKPub d = d_WKPub d' \<and>
    d_ExpiresAt d = d_ExpiresAt d' \<and> d_Nonce d = d_Nonce d' \<and> d_CT d = d_CT d'"
proof -
  note w = Envelope_Decode_InrD [OF assms(1)] Envelope_Decode_InrD [OF assms(2)]
  from assms(5) w have eqs: "d_V d = d_V d'" "d_LookupID d = d_LookupID d'" "d_WKPub d = d_WKPub d'"
    "be_bytes 8 (uint64_of (d_ExpiresAt d)) = be_bytes 8 (uint64_of (d_ExpiresAt d'))"
    "d_Nonce d = d_Nonce d'" "d_CT d = d_CT d'"
    by (simp_all add: SigningBytes_def CanonicalEnvelope_def decoded_widths_def)
  have "uint64_of (d_ExpiresAt d) = uint64_of (d_ExpiresAt d')"
    by (rule be_bytes_inject [OF eqs(4)]) (rule uint64_of_less)+
  with w assms(3,4) have "d_ExpiresAt d = d_ExpiresAt d'"
    by (intro uint64_of_inject) simp_all
  with eqs show ?thesis by simp
qed

definition sample_envelope :: "bytes \<Rightarrow> Envelope" where
  "sample_envelope ct = \<lparr>e_V = 1, e_LookupID = b64_Encode (replicate 32 1),
    e_WKPub = b64_Encode (replicate 32 2), e_ExpiresAt = 5, e_CT = b64_Encode ct,
    e_Nonce = b64_Encode (replicate 12 3), e_PoW = b64_Encode (replicate 8 4),
    e_Sig = b64_Encode (replicate 64 5)\<rparr>"

definition sample_decoded :: "bytes \<Rightarrow> Decoded" where
  "sample_decoded ct = \<lparr>d_V = 1, d_LookupID = replicate 32 1, d_WKPub = replicate 32 2,
    d_ExpiresAt = 5, d_CT = ct, d_Nonce = replicate 12 3, d_PoW = replicate 8 4,
    d_Sig = replicate 64 5\<rparr>"

lemma sample_Decode: "16 \<le> length ct \<Longrightarrow> Envelope_Decode (sample_envelope ct) = Inr (sample_decoded ct)"
  using Envelope_Decode_InrI [of "sample_envelope ct"]
  by (simp add: sample_envelope_def sample_decoded_def)

theorem SigningBytes_injective_witness:
  "let d = sample_decoded (replicate 17 7) in d_CT d = d_CT d \<and> length (SigningBytes d) = 102"
proof -
  let ?e = "sample_envelope (replicate 17 7)" and ?d = "sample_decoded (replicate 17 7)"
  have "Envelope_Decode ?e = Inr ?d" by (rule sample_Decode) simp
  from SigningBytes_injective [OF this this] have "d_CT ?d = d_CT ?d"
    by (simp add: sample_envelope_def is_i64_def)
  then show ?thesis
    by (simp add: Let_def sample_decoded_def SigningBytes_def CanonicalEnvelope_def)
qed

text \<open>
  The framing of the plaintext is exact: \<open>ParsePlaintext\<close> accepts a byte string if and only
  if it is a two-byte length, a body of that length and 64 bytes of signature with nothing after
  them, and it returns that body and that signature.
\<close>

theorem ParsePlaintext_exact:
  "ParsePlaintext pt = Inr (body, sig) \<longleftrightarrow>
    pt = be_bytes 2 (length body) @ body @ sig \<and> length sig = 64 \<and> length body \<le> MaxBodyLen"
proof
  assume p: "ParsePlaintext pt = Inr (body, sig)"
  define n where n: "n = be_value (take 2 pt)"
  have "length pt = 2 + n + 64 \<and> body = take n (drop 2 pt) \<and> sig = drop (2 + n) pt"
    using p by (simp add: ParsePlaintext_def Let_def BodyLenSize_def PayloadSigLen_def flip: n split: if_splits)
  then have len: "length pt = 2 + n + 64" and body: "body = take n (drop 2 pt)"
    and sig: "sig = drop (2 + n) pt" by simp_all
  from len have two: "length (take 2 pt) = 2" by simp
  have "be_bytes 2 n = take 2 pt" using be_bytes_value [of "take 2 pt"] unfolding two n .
  moreover have "n < 256 ^ 2" using be_value_bound [of "take 2 pt"] unfolding two n .
  then have "n \<le> 65535" by simp
  moreover have "pt = take 2 pt @ take n (drop 2 pt) @ drop (2 + n) pt"
    by (metis append_take_drop_id drop_drop add.commute)
  ultimately show "pt = be_bytes 2 (length body) @ body @ sig \<and> length sig = 64 \<and>
      length body \<le> MaxBodyLen"
    using len body sig by (simp add: record_lens)
next
  assume pt: "pt = be_bytes 2 (length body) @ body @ sig \<and> length sig = 64 \<and>
    length body \<le> MaxBodyLen"
  with ParsePlaintext_framed show "ParsePlaintext pt = Inr (body, sig)" by simp
qed

text \<open>
  A record's payload survives the whole path: a body of at most 65535 bytes, framed and
  signed under the identity key, encrypted under the epoch's record key with any 12-byte nonce,
  is returned byte for byte by \<open>Open\<close> followed by \<open>VerifyPlaintext\<close>, and the ciphertext is 82
  bytes longer than the body.
\<close>

theorem payload_roundtrip:
  assumes "ed25519_ok C" and "gcm_ok C" and "length seed = 32" and "length key = 32"
    and "length nonce = 12" and "length body \<le> MaxBodyLen"
  shows "\<exists>pt ct. MarshalPlaintext C (NewKeyFromSeed C seed) body = Inr pt \<and>
    record_Seal C key pt nonce = Inr (nonce, ct) \<and> length ct = length body + 82 \<and>
    record_Open C key nonce ct = Inr pt \<and> VerifyPlaintext C (ed_public C seed) pt = Inr body"
proof -
  let ?ik = "NewKeyFromSeed C seed"
  let ?sig = "ed_sign C ?ik body"
  let ?pt = "be_bytes 2 (length body) @ body @ ?sig"
  let ?ct = "gcm_seal C key nonce ?pt"
  have ed: "length ?sig = 64" "length (ed_public C seed) = 32" "ed_verify C (ed_public C seed) body ?sig"
    "length ?ik = 64"
    using assms(1,3) by (simp_all add: ed25519_ok_def NewKeyFromSeed_def)
  have gcm: "length ?ct = length ?pt + 16" "gcm_open C key nonce ?ct = Some ?pt"
    using assms(2,4,5) by (simp_all add: gcm_ok_def)
  have "ParsePlaintext ?pt = Inr (body, ?sig)"
    using ParsePlaintext_framed [OF ed(1) assms(6)] by simp
  with ed have "VerifyPlaintext C (ed_public C seed) ?pt = Inr body"
    by (simp add: VerifyPlaintext_def VerifyPayload_def record_lens)
  moreover have "MarshalPlaintext C ?ik body = Inr ?pt"
    using assms(6) ed by (simp add: MarshalPlaintext_def)
  moreover have "record_Seal C key ?pt nonce = Inr (nonce, ?ct)" "record_Open C key nonce ?ct = Inr ?pt"
    using assms(4,5) gcm by (simp_all add: record_Seal_def record_Open_def newGCM_def record_lens)
  ultimately show ?thesis using gcm(1) ed(1) by auto
qed

theorem payload_roundtrip_witness:
  "\<exists>pt ct. MarshalPlaintext toy_crypto (NewKeyFromSeed toy_crypto (replicate 32 1)) [1, 2, 3] = Inr pt \<and>
    record_Seal toy_crypto (replicate 32 2) pt (replicate 12 3) = Inr (replicate 12 3, ct) \<and>
    length ct = length [1 :: byte, 2, 3] + 82 \<and>
    record_Open toy_crypto (replicate 32 2) (replicate 12 3) ct = Inr pt \<and>
    VerifyPlaintext toy_crypto (ed_public toy_crypto (replicate 32 1)) pt = Inr [1, 2, 3]"
  by (rule payload_roundtrip) (simp_all add: MaxBodyLen_def)

end
