(* ===== verification/Pow.thy ===== *)
theory Pow imports Crypto begin

text \<open>
  \<open>internal/pow/pow.go\<close>: the proof of work. \<open>Verify\<close> is what a directory runs; \<open>Solve\<close> is the
  search of the test vectors, a loop over the 64-bit counter that always ends: its measure is
  the number of counters left. The context's \<open>Done\<close> channel, polled at counters that are
  multiples of \<open>checkInterval\<close>, is a predicate on those counters.
\<close>

section \<open>Definitions\<close>

definition pow_Prefix :: string where "pow_Prefix = ''trig-pow-v1''"
definition pow_Len :: nat where "pow_Len = 8"
definition DefaultBits :: int where "DefaultBits = 20"
definition MaxBits :: int where "MaxBits = 40"
definition checkInterval :: nat where "checkInterval = 2 ^ 16"

definition pow_Input :: "bytes \<Rightarrow> int \<Rightarrow> bytes \<Rightarrow> bytes" where
  "pow_Input lookupID expiresAt pow =
    bytes_of_string pow_Prefix @ lookupID @ be_bytes 8 (uint64_of expiresAt) @ pow"

text \<open>\<open>bits.LeadingZeros8\<close>: 8 less the position of the highest bit set.\<close>

definition LeadingZeros8 :: "byte \<Rightarrow> int" where
  "LeadingZeros8 b =
    (let n = unat b in
     if n \<ge> 128 then 0 else if n \<ge> 64 then 1 else if n \<ge> 32 then 2 else if n \<ge> 16 then 3
     else if n \<ge> 8 then 4 else if n \<ge> 4 then 5 else if n \<ge> 2 then 6 else if n \<ge> 1 then 7 else 8)"

fun lzb :: "int \<Rightarrow> bytes \<Rightarrow> int" where
  "lzb n [] = n"
| "lzb n (b # bs) = (if b \<noteq> 0 then n + LeadingZeros8 b else lzb (n + 8) bs)"

definition LeadingZeroBits :: "bytes \<Rightarrow> int" where
  "LeadingZeroBits digest = lzb 0 digest"

definition pow_Verify :: "crypto \<Rightarrow> bytes \<Rightarrow> int \<Rightarrow> bytes \<Rightarrow> int \<Rightarrow> bool" where
  "pow_Verify C lookupID expiresAt pow powBits =
    (if length pow \<noteq> pow_Len \<or> powBits < 0 then False
     else LeadingZeroBits (sha256 C (pow_Input lookupID expiresAt pow)) \<ge> powBits)"

datatype pow_error = ErrBits | ErrExhausted | ErrContext

text \<open>\<open>binary.BigEndian.PutUint64(counter, i)\<close>, where \<open>counter\<close> is the tail of the buffer.\<close>

definition put_counter :: "bytes \<Rightarrow> nat \<Rightarrow> bytes" where
  "put_counter buf i = take (length buf - pow_Len) buf @ be_bytes 8 i"

function solve_from :: "crypto \<Rightarrow> (nat \<Rightarrow> bool) \<Rightarrow> bytes \<Rightarrow> int \<Rightarrow> nat \<Rightarrow> pow_error + bytes" where
  "solve_from C done buf powBits i =
    (if i mod checkInterval = 0 \<and> done i then Inl ErrContext
     else let buf = put_counter buf i in
       if LeadingZeroBits (sha256 C buf) \<ge> powBits then Inr (drop (length buf - pow_Len) buf)
       else if i \<ge> 2 ^ 64 - 1 then Inl ErrExhausted
       else solve_from C done buf powBits (i + 1))"
  by pat_completeness auto

termination
  by (relation "measure (\<lambda>(C, done, buf, powBits, i). 2 ^ 64 - i)") auto

declare solve_from.simps [simp del]

definition pow_Solve :: "crypto \<Rightarrow> (nat \<Rightarrow> bool) \<Rightarrow> bytes \<Rightarrow> int \<Rightarrow> int \<Rightarrow> pow_error + bytes" where
  "pow_Solve C done lookupID expiresAt powBits =
    (if powBits < 0 \<or> powBits > MaxBits then Inl ErrBits
     else solve_from C done (pow_Input lookupID expiresAt (replicate pow_Len 0)) powBits 0)"

section \<open>Leading zeros and magnitude\<close>

lemma LeadingZeros8_iff:
  "0 \<le> k \<Longrightarrow> k \<le> 8 \<Longrightarrow> k \<le> LeadingZeros8 b \<longleftrightarrow> unat b < 2 ^ nat (8 - k)"
proof -
  assume k: "0 \<le> k" "k \<le> 8"
  then have "k = 0 \<or> k = 1 \<or> k = 2 \<or> k = 3 \<or> k = 4 \<or> k = 5 \<or> k = 6 \<or> k = 7 \<or> k = 8"
    by presburger
  then show ?thesis
    using unat_byte_less [of b] by (elim disjE) (simp_all add: LeadingZeros8_def Let_def)
qed

lemma LeadingZeros8_range: "0 \<le> LeadingZeros8 b \<and> LeadingZeros8 b \<le> 8"
  by (simp add: LeadingZeros8_def Let_def)

lemma LeadingZeros8_nonzero: "b \<noteq> 0 \<Longrightarrow> LeadingZeros8 b \<le> 7"
proof -
  assume "b \<noteq> 0"
  then have "unat b \<noteq> 0" by (simp add: unat_eq_zero)
  then show ?thesis by (simp add: LeadingZeros8_def Let_def)
qed

lemma lzb_shift: "lzb n bs = n + lzb 0 bs"
proof (induction bs arbitrary: n)
  case (Cons b bs)
  show ?case using Cons [of "n + 8"] Cons [of 8] by simp
qed simp

lemma be_value_Cons: "be_value (b # bs) = unat b * 256 ^ length bs + be_value bs"
proof (induction bs rule: rev_induct)
  case (snoc w bs)
  have "be_value (b # bs @ [w]) = be_value (b # bs) * 256 + unat w"
    using be_value_snoc [of "b # bs" w] by simp
  with snoc show ?case by (simp add: algebra_simps)
qed (simp add: be_value_def)

lemma lzb_nonneg: "0 \<le> lzb 0 bs"
proof (induction bs)
  case (Cons b bs)
  then show ?case using LeadingZeros8_range [of b] lzb_shift [of 8 bs] by simp
qed simp

text \<open>
  A digest has at least \<open>k\<close> leading zero bits if and only if, read as a big-endian number,
  it is below \<open>2 ^ (8 * length - k)\<close>: the difficulty is a bound on the digest's magnitude.
\<close>

theorem LeadingZeroBits_magnitude:
  assumes "0 \<le> k" and "k \<le> 8 * int (length digest)"
  shows "k \<le> LeadingZeroBits digest \<longleftrightarrow> be_value digest < 2 ^ nat (8 * int (length digest) - k)"
  unfolding LeadingZeroBits_def
  using assms
proof (induction digest arbitrary: k)
  case Nil
  then show ?case by simp
next
  case (Cons b bs)
  let ?n = "length bs"
  have bound: "be_value bs < 256 ^ ?n" by (rule be_value_bound)
  have pow: "(256 :: nat) ^ ?n = 2 ^ (8 * ?n)" by (simp add: power_mult)
  show ?case
  proof (cases "b = 0")
    case True
    show ?thesis
    proof (cases "k \<le> 8")
      case True
      have "be_value bs < 2 ^ nat (8 * int (Suc ?n) - k)"
        using bound pow True by (elim order.strict_trans2) simp
      with True \<open>b = 0\<close> lzb_shift [of 8 bs] lzb_nonneg [of bs] show ?thesis
        by (simp add: be_value_Cons)
    next
      case False
      with Cons.IH [of "k - 8"] Cons.prems \<open>b = 0\<close> lzb_shift [of 8 bs] show ?thesis
        by (simp add: be_value_Cons algebra_simps)
    qed
  next
    case False
    then have nz: "unat b \<noteq> 0" by (simp add: unat_eq_zero)
    show ?thesis
    proof (cases "k \<le> 8")
      case True
      have "be_value (b # bs) < 2 ^ nat (8 * int (Suc ?n) - k) \<longleftrightarrow> unat b < 2 ^ nat (8 - k)"
      proof -
        have "nat (8 * int (Suc ?n) - k) = nat (8 - k) + 8 * ?n"
          using True Cons.prems(1) by (simp add: nat_eq_iff)
        then have e: "(2 :: nat) ^ nat (8 * int (Suc ?n) - k) = 2 ^ nat (8 - k) * 256 ^ ?n"
          by (simp add: power_add pow)
        have "unat b * 256 ^ ?n + be_value bs < m * 256 ^ ?n \<longleftrightarrow> unat b < m" for m
        proof
          assume "unat b < m"
          then have "(unat b + 1) * 256 ^ ?n \<le> m * 256 ^ ?n" by (intro mult_le_mono1) simp
          with bound show "unat b * 256 ^ ?n + be_value bs < m * 256 ^ ?n" by simp
        next
          assume less: "unat b * 256 ^ ?n + be_value bs < m * 256 ^ ?n"
          have "unat b * 256 ^ ?n \<le> unat b * 256 ^ ?n + be_value bs" by simp
          with less have "unat b * 256 ^ ?n < m * 256 ^ ?n" by (rule le_less_trans [rotated])
          then show "unat b < m" by simp
        qed
        then show ?thesis unfolding be_value_Cons e .
      qed
      with False True Cons.prems LeadingZeros8_iff [of k b] show ?thesis by simp
    next
      case big: False
      have "be_value (b # bs) \<ge> 1 * 256 ^ ?n"
        using nz by (simp add: be_value_Cons trans_le_add1)
      moreover have "(2 :: nat) ^ nat (8 * int (Suc ?n) - k) \<le> 256 ^ ?n"
        unfolding pow using big by (intro power_increasing) auto
      ultimately have "\<not> be_value (b # bs) < 2 ^ nat (8 * int (Suc ?n) - k)" by simp
      with False big LeadingZeros8_nonzero [of b] show ?thesis by simp
    qed
  qed
qed

theorem LeadingZeroBits_magnitude_witness:
  "(11 :: int) \<le> LeadingZeroBits [0, 0x1F, 0xFF] \<longleftrightarrow> be_value [0, 0x1F, 0xFF] < 2 ^ nat (8 * 3 - 11)"
  using LeadingZeroBits_magnitude [of 11 "[0, 0x1F, 0xFF]"] by simp

section \<open>The search\<close>

lemma put_counter_Input:
  "length pow = 8 \<Longrightarrow> put_counter (pow_Input l e pow) i = pow_Input l e (be_bytes 8 i)"
  by (simp add: put_counter_def pow_Input_def pow_Len_def)

lemma drop_counter_Input:
  "length pow = 8 \<Longrightarrow> drop (length (pow_Input l e pow) - pow_Len) (pow_Input l e pow) = pow"
  by (simp add: pow_Input_def pow_Len_def)

definition solves :: "crypto \<Rightarrow> bytes \<Rightarrow> int \<Rightarrow> int \<Rightarrow> nat \<Rightarrow> bool" where
  "solves C l e k i \<longleftrightarrow> pow_Verify C l e (be_bytes 8 i) k"

lemma solve_from_step:
  assumes "length pow = 8" and "0 \<le> k"
  shows "solve_from C done (pow_Input l e pow) k i =
    (if i mod checkInterval = 0 \<and> done i then Inl ErrContext
     else if solves C l e k i then Inr (be_bytes 8 i)
     else if i \<ge> 2 ^ 64 - 1 then Inl ErrExhausted
     else solve_from C done (pow_Input l e (be_bytes 8 i)) k (i + 1))"
  by (subst solve_from.simps)
    (use assms in \<open>simp add: Let_def put_counter_Input drop_counter_Input [unfolded pow_Len_def]
      solves_def pow_Verify_def pow_Len_def\<close>)

lemma solve_from_Inr:
  assumes "0 \<le> k" and "length pow = 8" and "solve_from C done (pow_Input l e pow) k i = Inr p"
  shows "\<exists>j \<ge> i. p = be_bytes 8 j \<and> solves C l e k j \<and> (\<forall>j' < j. i \<le> j' \<longrightarrow> \<not> solves C l e k j')"
  using assms(2,3)
proof (induction "2 ^ 64 - i" arbitrary: i pow rule: less_induct)
  case less
  show ?case
  proof (cases "solves C l e k i")
    case True
    with less.prems solve_from_step [OF less.prems(1) assms(1), of C "done" l e i]
    have "p = be_bytes 8 i" by (auto split: if_splits)
    with True show ?thesis by (intro exI [of _ i]) simp
  next
    case False
    with less.prems solve_from_step [OF less.prems(1) assms(1), of C "done" l e i]
    have i: "i < 2 ^ 64 - 1" and next_: "solve_from C done (pow_Input l e (be_bytes 8 i)) k (i + 1) = Inr p"
      by (auto split: if_splits)
    from i have "2 ^ 64 - (i + 1) < 2 ^ 64 - i" by simp
    from less.hyps [OF this _ next_] obtain j where "j \<ge> i + 1" "p = be_bytes 8 j" "solves C l e k j"
      "\<forall>j' < j. i + 1 \<le> j' \<longrightarrow> \<not> solves C l e k j'" by auto
    with False show ?thesis
      by (intro exI [of _ j]) (metis Suc_eq_plus1 Suc_leI Suc_leD le_neq_implies_less)
  qed
qed

lemma solve_from_finds:
  assumes "0 \<le> k" and "length pow = 8" and "\<forall>i. \<not> done i" and "i \<le> j" and "j < 2 ^ 64"
    and "solves C l e k j"
  shows "\<exists>p. solve_from C done (pow_Input l e pow) k i = Inr p"
  using assms(2,4)
proof (induction "2 ^ 64 - i" arbitrary: i pow rule: less_induct)
  case less
  show ?case
  proof (cases "solves C l e k i")
    case True
    with solve_from_step [OF less.prems(1) assms(1), of C "done" l e i] assms(3)
    show ?thesis by simp
  next
    case False
    with assms(6) less.prems(2) have i: "i + 1 \<le> j" by (metis Suc_eq_plus1 Suc_leI le_neq_implies_less)
    with assms(5) have "2 ^ 64 - (i + 1) < 2 ^ 64 - i" by simp
    from less.hyps [OF this _ i] have "\<exists>p. solve_from C done (pow_Input l e (be_bytes 8 i)) k (i + 1) = Inr p"
      by simp
    with False i assms(5) solve_from_step [OF less.prems(1) assms(1), of C "done" l e i] assms(3)
    show ?thesis by simp
  qed
qed

lemma pow_Solve_verifies: "pow_Solve C done l e k = Inr p \<Longrightarrow> pow_Verify C l e p k \<and> length p = 8"
  using solve_from_Inr [of k "replicate 8 0" C "done" l e 0 p]
  by (auto simp: pow_Solve_def pow_Len_def solves_def split: if_splits)

lemma solve_from_error:
  assumes "0 \<le> k" and "length pow = 8" and "\<forall>i. \<not> done i"
    and "solve_from C done (pow_Input l e pow) k i = Inl x"
  shows "x = ErrExhausted"
  using assms(2,4)
proof (induction "2 ^ 64 - i" arbitrary: i pow rule: less_induct)
  case less
  show ?case
  proof (cases "solves C l e k i \<or> i \<ge> 2 ^ 64 - 1")
    case True
    with less.prems solve_from_step [OF less.prems(1) assms(1), of C "done" l e i] assms(3)
    show ?thesis by (auto split: if_splits)
  next
    case False
    then have "i < 2 ^ 64 - 1" by simp
    then have "2 ^ 64 - (i + 1) < 2 ^ 64 - i" by simp
    from less.hyps [OF this, of "be_bytes 8 i"] False less.prems assms(3)
      solve_from_step [OF less.prems(1) assms(1), of C "done" l e i]
    show ?thesis by (auto split: if_splits)
  qed
qed

text \<open>
  C24. \<open>Solve\<close> is sound and complete. If the context is never cancelled and the difficulty is in
  range, the search ends either with a proof that passes \<open>Verify\<close> and is the smallest counter
  that does, or, after the whole counter space, with \<open>ErrExhausted\<close> when no counter passes.
\<close>

theorem pow_Solve_correct:
  assumes "\<forall>i. \<not> done i" and "0 \<le> k" and "k \<le> MaxBits"
  shows "case pow_Solve C done l e k of
      Inr p \<Rightarrow> length p = 8 \<and> pow_Verify C l e p k \<and>
        (\<forall>q. length q = 8 \<longrightarrow> be_value q < be_value p \<longrightarrow> \<not> pow_Verify C l e q k)
    | Inl x \<Rightarrow> x = ErrExhausted \<and> (\<forall>q. length q = 8 \<longrightarrow> \<not> pow_Verify C l e q k)"
proof -
  let ?zero = "replicate 8 0"
  have start: "pow_Solve C done l e k = solve_from C done (pow_Input l e ?zero) k 0"
    using assms(2,3) by (simp add: pow_Solve_def pow_Len_def)
  have bytes: "be_bytes 8 (be_value q) = q \<and> be_value q < 2 ^ 64" if "length q = 8" for q :: bytes
    using that be_bytes_value [of q] be_value_bound [of q] by simp
  show ?thesis
  proof (cases "solve_from C done (pow_Input l e ?zero) k 0")
    case (Inl x)
    have "\<not> pow_Verify C l e q k" if q: "length q = 8" for q
    proof
      assume "pow_Verify C l e q k"
      with bytes [OF q] have "solves C l e k (be_value q)" by (simp add: solves_def)
      with solve_from_finds [OF assms(2) _ assms(1), of ?zero 0 "be_value q" C l e] bytes [OF q] Inl
      show False by simp
    qed
    with solve_from_error [OF assms(2) _ assms(1) Inl] Inl show ?thesis by (simp add: start)
  next
    case (Inr p)
    from solve_from_Inr [OF assms(2) _ this] obtain j where
      j: "p = be_bytes 8 j" "solves C l e k j" "\<forall>j' < j. \<not> solves C l e k j'" by auto
    have "\<not> pow_Verify C l e q k" if q: "length q = 8" "be_value q < be_value p" for q
    proof -
      have "be_value p \<le> j" by (simp add: j(1) be_value_bytes)
      with q(2) j(3) have "\<not> solves C l e k (be_value q)" by simp
      with bytes [OF q(1)] show ?thesis by (simp add: solves_def)
    qed
    with Inr j(1,2) show ?thesis by (simp add: start solves_def)
  qed
qed

theorem pow_Solve_correct_witness:
  "case pow_Solve toy_crypto (\<lambda>i. False) [] 0 0 of
      Inr p \<Rightarrow> length p = 8 \<and> pow_Verify toy_crypto [] 0 p 0 \<and>
        (\<forall>q. length q = 8 \<longrightarrow> be_value q < be_value p \<longrightarrow> \<not> pow_Verify toy_crypto [] 0 q 0)
    | Inl x \<Rightarrow> x = ErrExhausted \<and> (\<forall>q. length q = 8 \<longrightarrow> \<not> pow_Verify toy_crypto [] 0 q 0)"
  by (rule pow_Solve_correct) (simp_all add: MaxBits_def)

end
