(* ===== verification/Reject.thy ===== *)
theory Reject imports Prelude "HOL-Library.Product_Lexorder" begin

text \<open>
  \<open>internal/reject/reject.go\<close> and \<open>internal/query/reason.go\<close>: the outcomes of a publish,
  of a signal operation and of a lookup, in their declaration order, and the HTTP status
  each one draws. A \<open>RecordReason\<close> or \<open>SignalReason\<close> outside the declared constants is
  the last constructor of its type; the code answers it with 500.
\<close>

section \<open>HTTP status codes used by the tables\<close>

definition StatusOK :: int where [status_defs]: "StatusOK = 200"
definition StatusNoContent :: int where [status_defs]: "StatusNoContent = 204"
definition StatusBadRequest :: int where [status_defs]: "StatusBadRequest = 400"
definition StatusForbidden :: int where [status_defs]: "StatusForbidden = 403"
definition StatusNotFound :: int where [status_defs]: "StatusNotFound = 404"
definition StatusMethodNotAllowed :: int where [status_defs]: "StatusMethodNotAllowed = 405"
definition StatusConflict :: int where [status_defs]: "StatusConflict = 409"
definition StatusRequestEntityTooLarge :: int where
  [status_defs]: "StatusRequestEntityTooLarge = 413"
definition StatusTooManyRequests :: int where [status_defs]: "StatusTooManyRequests = 429"
definition StatusInternalServerError :: int where
  [status_defs]: "StatusInternalServerError = 500"

section \<open>Publishing\<close>

datatype RecordReason =
    RecordAccepted
  | RecordRateLimited
  | RecordTooLarge
  | RecordMalformed
  | RecordBadVersion
  | RecordTTLTooLong
  | RecordLookupMismatch
  | RecordPoWInsufficient
  | RecordSigInvalid
  | RecordExpired
  | RecordNotNewer
  | RecordUndeclared int

fun RecordReason_HTTPStatus :: "RecordReason \<Rightarrow> int" where
  "RecordReason_HTTPStatus RecordAccepted = StatusNoContent"
| "RecordReason_HTTPStatus RecordRateLimited = StatusTooManyRequests"
| "RecordReason_HTTPStatus RecordTooLarge = StatusRequestEntityTooLarge"
| "RecordReason_HTTPStatus RecordMalformed = StatusBadRequest"
| "RecordReason_HTTPStatus RecordBadVersion = StatusBadRequest"
| "RecordReason_HTTPStatus RecordTTLTooLong = StatusBadRequest"
| "RecordReason_HTTPStatus RecordLookupMismatch = StatusForbidden"
| "RecordReason_HTTPStatus RecordPoWInsufficient = StatusForbidden"
| "RecordReason_HTTPStatus RecordSigInvalid = StatusForbidden"
| "RecordReason_HTTPStatus RecordExpired = StatusConflict"
| "RecordReason_HTTPStatus RecordNotNewer = StatusConflict"
| "RecordReason_HTTPStatus (RecordUndeclared _) = StatusInternalServerError"

section \<open>Signal channels\<close>

datatype SignalReason =
    SignalStored
  | SignalDelivered
  | SignalEmpty
  | SignalDisabled
  | SignalRateLimited
  | SignalBadChannel
  | SignalTooLarge
  | SignalConflict
  | SignalUndeclared int

fun SignalReason_HTTPStatus :: "SignalReason \<Rightarrow> int" where
  "SignalReason_HTTPStatus SignalStored = StatusNoContent"
| "SignalReason_HTTPStatus SignalEmpty = StatusNoContent"
| "SignalReason_HTTPStatus SignalDelivered = StatusOK"
| "SignalReason_HTTPStatus SignalBadChannel = StatusBadRequest"
| "SignalReason_HTTPStatus SignalTooLarge = StatusRequestEntityTooLarge"
| "SignalReason_HTTPStatus SignalConflict = StatusConflict"
| "SignalReason_HTTPStatus SignalRateLimited = StatusTooManyRequests"
| "SignalReason_HTTPStatus SignalDisabled = StatusNotFound"
| "SignalReason_HTTPStatus (SignalUndeclared _) = StatusInternalServerError"

section \<open>Lookups\<close>

datatype QueryReason =
    ReasonBitsMissing
  | ReasonBitsMalformed
  | ReasonBitsTooPrecise
  | ReasonPrefixMissing
  | ReasonPrefixLength
  | ReasonPrefixNotHex
  | ReasonRepeatedParameter
  | ReasonUndeclared int

fun QueryReason_Error :: "QueryReason \<Rightarrow> string" where
  "QueryReason_Error ReasonBitsMissing = ''query: bits parameter is required''"
| "QueryReason_Error ReasonBitsMalformed =
     ''query: bits parameter is not a non-negative integer''"
| "QueryReason_Error ReasonBitsTooPrecise =
     ''query: prefix is more precise than this instance permits''"
| "QueryReason_Error ReasonPrefixMissing =
     ''query: prefix parameter is required when bits is non-zero''"
| "QueryReason_Error ReasonPrefixLength = ''query: prefix length does not match bits''"
| "QueryReason_Error ReasonPrefixNotHex =
     ''query: prefix contains a character outside the hex alphabet''"
| "QueryReason_Error ReasonRepeatedParameter =
     ''query: a query parameter is supplied more than once''"
| "QueryReason_Error (ReasonUndeclared _) = ''query: rejected''"

fun QueryReason_HTTPStatus :: "QueryReason \<Rightarrow> int" where
  "QueryReason_HTTPStatus ReasonBitsMissing = StatusBadRequest"
| "QueryReason_HTTPStatus ReasonBitsMalformed = StatusBadRequest"
| "QueryReason_HTTPStatus ReasonBitsTooPrecise = StatusBadRequest"
| "QueryReason_HTTPStatus ReasonPrefixMissing = StatusBadRequest"
| "QueryReason_HTTPStatus ReasonPrefixLength = StatusBadRequest"
| "QueryReason_HTTPStatus ReasonPrefixNotHex = StatusBadRequest"
| "QueryReason_HTTPStatus ReasonRepeatedParameter = StatusBadRequest"
| "QueryReason_HTTPStatus (ReasonUndeclared _) = StatusInternalServerError"

section \<open>The order of the conditions\<close>

text \<open>
  The outcomes of a publish and of a signal operation are ordered as they are declared, which is
  the order in which the specification evaluates its conditions; values outside the declared
  constants come last.
\<close>

fun record_row :: "RecordReason \<Rightarrow> nat \<times> int" where
  "record_row RecordAccepted = (0, 0)"
| "record_row RecordRateLimited = (1, 0)"
| "record_row RecordTooLarge = (2, 0)"
| "record_row RecordMalformed = (3, 0)"
| "record_row RecordBadVersion = (4, 0)"
| "record_row RecordTTLTooLong = (5, 0)"
| "record_row RecordLookupMismatch = (6, 0)"
| "record_row RecordPoWInsufficient = (7, 0)"
| "record_row RecordSigInvalid = (8, 0)"
| "record_row RecordExpired = (9, 0)"
| "record_row RecordNotNewer = (10, 0)"
| "record_row (RecordUndeclared n) = (11, n)"

fun signal_row :: "SignalReason \<Rightarrow> nat \<times> int" where
  "signal_row SignalStored = (0, 0)"
| "signal_row SignalDelivered = (1, 0)"
| "signal_row SignalEmpty = (2, 0)"
| "signal_row SignalDisabled = (3, 0)"
| "signal_row SignalRateLimited = (4, 0)"
| "signal_row SignalBadChannel = (5, 0)"
| "signal_row SignalTooLarge = (6, 0)"
| "signal_row SignalConflict = (7, 0)"
| "signal_row (SignalUndeclared n) = (8, n)"

lemma record_row_inject: "record_row a = record_row b \<longleftrightarrow> a = b"
  by (cases a; cases b) simp_all

lemma signal_row_inject: "signal_row a = signal_row b \<longleftrightarrow> a = b"
  by (cases a; cases b) simp_all

instantiation RecordReason :: linorder
begin

definition less_eq_RecordReason :: "RecordReason \<Rightarrow> RecordReason \<Rightarrow> bool" where
  "a \<le> b \<longleftrightarrow> record_row a \<le> record_row b"

definition less_RecordReason :: "RecordReason \<Rightarrow> RecordReason \<Rightarrow> bool" where
  "a < b \<longleftrightarrow> record_row a < record_row b"

instance
  by intro_classes (auto simp: less_eq_RecordReason_def less_RecordReason_def record_row_inject
    less_le_not_le dest: order_antisym)

end

instantiation SignalReason :: linorder
begin

definition less_eq_SignalReason :: "SignalReason \<Rightarrow> SignalReason \<Rightarrow> bool" where
  "a \<le> b \<longleftrightarrow> signal_row a \<le> signal_row b"

definition less_SignalReason :: "SignalReason \<Rightarrow> SignalReason \<Rightarrow> bool" where
  "a < b \<longleftrightarrow> signal_row a < signal_row b"

instance
  by intro_classes (auto simp: less_eq_SignalReason_def less_SignalReason_def signal_row_inject
    less_le_not_le dest: order_antisym)

end

section \<open>The remedy a code stands for\<close>

text \<open>
  A publisher's retry logic is driven by the code alone: 400 and 413 are not retried
  unchanged, 409 is republished with a later expiry, 429 backs off.
\<close>

lemma record_status_success_iff:
  "RecordReason_HTTPStatus r = StatusNoContent \<longleftrightarrow> r = RecordAccepted"
  by (cases r) (simp_all add: status_defs)

lemma record_status_conflict_iff:
  "RecordReason_HTTPStatus r = StatusConflict \<longleftrightarrow> r = RecordExpired \<or> r = RecordNotNewer"
  by (cases r) (simp_all add: status_defs)

lemma record_status_rate_iff:
  "RecordReason_HTTPStatus r = StatusTooManyRequests \<longleftrightarrow> r = RecordRateLimited"
  by (cases r) (simp_all add: status_defs)

lemma signal_status_not_found_iff:
  "SignalReason_HTTPStatus r = StatusNotFound \<longleftrightarrow> r = SignalDisabled"
  by (cases r) (simp_all add: status_defs)

lemma signal_status_ok_iff:
  "SignalReason_HTTPStatus r = StatusOK \<longleftrightarrow> r = SignalDelivered"
  by (cases r) (simp_all add: status_defs)

lemmas status_remedies =
  record_status_success_iff record_status_conflict_iff record_status_rate_iff
  signal_status_not_found_iff signal_status_ok_iff

end
