(* ===== verification/Accept.thy ===== *)
theory Accept imports Records Pow Reject begin

text \<open>
  \<open>internal/accept/accept.go\<close>: the acceptance of a publish. \<open>Check\<close> takes the received body,
  the clock and the instance's limits and returns the first condition of the table of the
  specification that fails, or the decoded envelope. The recency rule, its last row, needs the
  store and is in theory \<open>Store\<close>.
\<close>

section \<open>Limits\<close>

definition DefaultSkewGrace :: int where "DefaultSkewGrace = 300"

record Limits =
  MaxRecordBytes :: int
  MaxTTL :: int
  PoWBits :: int
  SkewGrace :: int

definition DefaultLimits :: Limits where
  "DefaultLimits = \<lparr>MaxRecordBytes = MaxEnvelopeBytes, MaxTTL = record_MaxTTL,
    PoWBits = DefaultBits, SkewGrace = DefaultSkewGrace\<rparr>"

definition requiredMembers :: "string list" where
  "requiredMembers =
    [''v'', ''lookup_id'', ''wk_pub'', ''expires_at'', ''ct'', ''nonce'', ''pow'', ''sig'']"

section \<open>Parsing the body\<close>

text \<open>
  \<open>hasDuplicateMembers\<close> walks the token stream of the top-level object and stops at the first
  repeated name; everything it cannot walk reports false. \<open>first\<close> is false once a member has
  been read, when a comma must precede the next name. The walk reads at least one character per
  step, so the length of the body is enough fuel.
\<close>

fun dup_walk :: "nat \<Rightarrow> bool \<Rightarrow> string list \<Rightarrow> string \<Rightarrow> bool" where
  "dup_walk 0 first seen s = False"
| "dup_walk (Suc n) first seen s =
    (case skip_ws s of
       [] \<Rightarrow> False
     | c # r \<Rightarrow>
       if c = CHR '']'' \<or> c = CHR 0x7D then False
       else case (if first then Some (c # r) else if c = CHR '','' then Some (skip_ws r) else None) of
         None \<Rightarrow> False
       | Some [] \<Rightarrow> False
       | Some (q # s1) \<Rightarrow>
         if q \<noteq> CHR 0x22 then False
         else case string_body s1 of
           None \<Rightarrow> False
         | Some (raw, s2) \<Rightarrow>
           if unquote raw \<in> set seen then True
           else case skip_ws s2 of
             [] \<Rightarrow> False
           | colon # s3 \<Rightarrow>
             if colon \<noteq> CHR '':'' then False
             else case pval (2 * length s3 + 2) maxNestingDepth s3 of
               None \<Rightarrow> False
             | Some (v, rest) \<Rightarrow> dup_walk n False (unquote raw # seen) rest)"

definition hasDuplicateMembers :: "string \<Rightarrow> bool" where
  "hasDuplicateMembers body =
    (case skip_ws body of
       [] \<Rightarrow> False
     | c # s \<Rightarrow> if c \<noteq> CHR 0x7B then False else dup_walk (length body) True [] s)"

text \<open>\<open>json.Unmarshal\<close> into an \<open>Envelope\<close>: the members in order, the last writer of a field wins.\<close>

definition envelope_fields :: "string list" where
  "envelope_fields =
    [''v'', ''lookup_id'', ''wk_pub'', ''expires_at'', ''ct'', ''nonce'', ''pow'', ''sig'']"

definition envelope_zero :: Envelope where
  "envelope_zero = \<lparr>e_V = 0, e_LookupID = [], e_WKPub = [], e_ExpiresAt = 0, e_CT = [],
    e_Nonce = [], e_PoW = [], e_Sig = []\<rparr>"

definition store_member :: "Envelope \<Rightarrow> string \<times> json \<Rightarrow> Envelope option" where
  "store_member e m =
    (let v = snd m in
     case field_for envelope_fields (fst m) of
       None \<Rightarrow> Some e
     | Some f \<Rightarrow>
         if f = ''v'' then map_option (\<lambda>x. e\<lparr>e_V := x\<rparr>) (store_int64 v (e_V e))
         else if f = ''lookup_id'' then map_option (\<lambda>x. e\<lparr>e_LookupID := x\<rparr>) (store_string v (e_LookupID e))
         else if f = ''wk_pub'' then map_option (\<lambda>x. e\<lparr>e_WKPub := x\<rparr>) (store_string v (e_WKPub e))
         else if f = ''expires_at'' then map_option (\<lambda>x. e\<lparr>e_ExpiresAt := x\<rparr>) (store_int64 v (e_ExpiresAt e))
         else if f = ''ct'' then map_option (\<lambda>x. e\<lparr>e_CT := x\<rparr>) (store_string v (e_CT e))
         else if f = ''nonce'' then map_option (\<lambda>x. e\<lparr>e_Nonce := x\<rparr>) (store_string v (e_Nonce e))
         else if f = ''pow'' then map_option (\<lambda>x. e\<lparr>e_PoW := x\<rparr>) (store_string v (e_PoW e))
         else map_option (\<lambda>x. e\<lparr>e_Sig := x\<rparr>) (store_string v (e_Sig e)))"

fun store_members :: "Envelope \<Rightarrow> (string \<times> json) list \<Rightarrow> Envelope option" where
  "store_members e [] = Some e"
| "store_members e (m # ms) =
    (case store_member e m of None \<Rightarrow> None | Some e' \<Rightarrow> store_members e' ms)"

definition unmarshal_envelope :: "string \<Rightarrow> Envelope option" where
  "unmarshal_envelope body =
    (case unmarshal_members body of None \<Rightarrow> None | Some ms \<Rightarrow> store_members envelope_zero ms)"

definition member_missing :: "(string \<times> json) list \<Rightarrow> string \<Rightarrow> bool" where
  "member_missing ms name =
    (case map_of (rev ms) name of None \<Rightarrow> True | Some v \<Rightarrow> v = JNull)"

definition accept_parse :: "string \<Rightarrow> Envelope option" where
  "accept_parse body =
    (case unmarshal_members body of
       None \<Rightarrow> None
     | Some ms \<Rightarrow>
         if hasDuplicateMembers body then None
         else if list_ex (member_missing ms) requiredMembers then None
         else unmarshal_envelope body)"

section \<open>Check\<close>

definition accept_Check ::
  "crypto \<Rightarrow> string \<Rightarrow> int \<Rightarrow> Limits \<Rightarrow> bool \<Rightarrow> RecordReason \<times> Decoded option" where
  "accept_Check C body now lim rateLimited =
    (if rateLimited then (RecordRateLimited, None)
     else if int (length body) > MaxRecordBytes lim then (RecordTooLarge, None)
     else case accept_parse body of
       None \<Rightarrow> (RecordMalformed, None)
     | Some env \<Rightarrow>
         (case Envelope_Decode (env\<lparr>e_V := Version\<rparr>) of
            Inl _ \<Rightarrow> (RecordMalformed, None)
          | Inr d \<Rightarrow>
              if e_V env \<noteq> Version then (RecordBadVersion, None)
              else if d_ExpiresAt d > i64 (i64 (now + MaxTTL lim) + SkewGrace lim)
                then (RecordTTLTooLong, None)
              else if VerifyLookupID C d \<noteq> None then (RecordLookupMismatch, None)
              else if \<not> pow_Verify C (d_LookupID d) (d_ExpiresAt d) (d_PoW d) (PoWBits lim)
                then (RecordPoWInsufficient, None)
              else if VerifySignature C d \<noteq> None then (RecordSigInvalid, None)
              else if d_ExpiresAt d \<le> now then (RecordExpired, None)
              else (RecordAccepted, Some d)))"

section \<open>The walk against the parsed members\<close>

lemma pmems_SucD:
  assumes "pmems (Suc n) d s = Some (ms, r)"
  obtains s1 raw s2 s3 v rest x r' where "skip_ws s = CHR 0x22 # s1" "string_body s1 = Some (raw, s2)"
    "skip_ws s2 = CHR '':'' # s3" "pval n d s3 = Some (v, rest)" "skip_ws rest = x # r'"
    "x = CHR 0x7D \<and> ms = [(unquote raw, v)] \<and> r = r' \<or>
      x = CHR '','' \<and> (\<exists>ms'. ms = (unquote raw, v) # ms' \<and> pmems n d r' = Some (ms', r))"
  using assms
  by (simp split: option.split_asm list.split_asm if_split_asm prod.split_asm del: pval.simps pmems.simps(2)
      add: pmems.simps(2) [of n d s]) fastforce+

lemma dup_walk_member:
  assumes "skip_ws s = CHR 0x22 # s1" "string_body s1 = Some (raw, s2)" "skip_ws s2 = CHR '':'' # s3"
    "pval n d s3 = Some (v, rest)" "d \<le> maxNestingDepth"
    and "first \<and> t = s \<or> \<not> first \<and> skip_ws t = CHR '','' # s"
  shows "dup_walk (Suc k) first seen t \<longleftrightarrow>
    unquote raw \<in> set seen \<or> dup_walk k False (unquote raw # seen) rest"
  using assms(1-3,6) pval_enough [OF assms(4,5)]
  by (elim disjE conjE) (simp_all del: pval.simps)

lemma dup_walk_pmems:
  assumes "pmems n d s = Some (ms, r)" and "d \<le> maxNestingDepth" and "length ms < k"
    and "first \<and> t = s \<or> \<not> first \<and> skip_ws t = CHR '','' # s"
  shows "dup_walk k first seen t \<longleftrightarrow>
    \<not> distinct (map fst ms) \<or> set (map fst ms) \<inter> set seen \<noteq> {}"
  using assms
proof (induction n arbitrary: s ms k first t seen)
  case (Suc n)
  from Suc.prems(1) obtain s1 raw s2 s3 v rest x r' where m: "skip_ws s = CHR 0x22 # s1"
    "string_body s1 = Some (raw, s2)" "skip_ws s2 = CHR '':'' # s3" "pval n d s3 = Some (v, rest)"
    "skip_ws rest = x # r'"
    "x = CHR 0x7D \<and> ms = [(unquote raw, v)] \<and> r = r' \<or>
      x = CHR '','' \<and> (\<exists>ms'. ms = (unquote raw, v) # ms' \<and> pmems n d r' = Some (ms', r))"
    by (rule pmems_SucD)
  obtain k' where k: "k = Suc k'" using Suc.prems(3) by (cases k) auto
  note step = dup_walk_member [OF m(1-4) Suc.prems(2,4), of k' seen]
  from m(6) show ?case
  proof
    assume "x = CHR 0x7D \<and> ms = [(unquote raw, v)] \<and> r = r'"
    with step m(5) k show ?thesis by (cases k') simp_all
  next
    assume "x = CHR '','' \<and> (\<exists>ms'. ms = (unquote raw, v) # ms' \<and> pmems n d r' = Some (ms', r))"
    then obtain ms' where ms': "ms = (unquote raw, v) # ms'" "pmems n d r' = Some (ms', r)" "x = CHR '',''"
      by auto
    have "dup_walk k' False (unquote raw # seen) rest \<longleftrightarrow>
        \<not> distinct (map fst ms') \<or> set (map fst ms') \<inter> set (unquote raw # seen) \<noteq> {}"
      using Suc.prems(2,3) ms' k m(5) by (intro Suc.IH [OF ms'(2)]) auto
    with step ms'(1) k show ?thesis by auto
  qed
qed simp

lemma pmems_length: "pmems n d s = Some (ms, r) \<Longrightarrow> length ms \<le> length s"
proof (induction n arbitrary: s ms)
  case (Suc n)
  from Suc.prems obtain s1 raw s2 s3 v rest x r' where m: "skip_ws s = CHR 0x22 # s1"
    "string_body s1 = Some (raw, s2)" "skip_ws s2 = CHR '':'' # s3" "pval n d s3 = Some (v, rest)"
    "skip_ws rest = x # r'"
    "x = CHR 0x7D \<and> ms = [(unquote raw, v)] \<and> r = r' \<or>
      x = CHR '','' \<and> (\<exists>ms'. ms = (unquote raw, v) # ms' \<and> pmems n d r' = Some (ms', r))"
    by (rule pmems_SucD)
  have "length r' < length s"
    using skip_ws_Cons [OF m(1)] string_body_shorter [OF m(2)] skip_ws_Cons [OF m(3)]
      pval_shorter(1) [OF m(4)] skip_ws_Cons [OF m(5)] by simp
  with m(6) Suc.IH [of r'] show ?case by fastforce
qed simp

lemma json_parse_objectD:
  assumes "json_parse body = Some (JObj ms)"
  obtains s n d where "skip_ws body = CHR 0x7B # s" "ms = [] \<and> (\<exists>r. skip_ws s = CHR 0x7D # r) \<or>
    (\<exists>r. pmems n d s = Some (ms, r))" "d \<le> maxNestingDepth"
proof -
  from assms obtain r where v: "pval (Suc (2 * length body + 1)) maxNestingDepth body = Some (JObj ms, r)"
    by (auto simp: json_parse_def split: option.splits if_splits)
  let ?n = "2 * length body + 1" and ?d = "maxNestingDepth - 1"
  have "\<exists>s. skip_ws body = CHR 0x7B # s \<and> (ms = [] \<and> (\<exists>r. skip_ws s = CHR 0x7D # r) \<or>
      (\<exists>r. pmems ?n ?d s = Some (ms, r)))"
    using v unfolding pval.simps(2) [of ?n maxNestingDepth body]
    by (auto split: list.split_asm if_split_asm simp del: pmems.simps pelems.simps One_nat_def)
  with that [of _ ?n ?d] show thesis by auto
qed

lemma hasDuplicateMembers_object:
  assumes "json_parse body = Some (JObj ms)"
  shows "hasDuplicateMembers body \<longleftrightarrow> \<not> distinct (map fst ms)"
proof -
  from assms obtain s n d where o: "skip_ws body = CHR 0x7B # s" "ms = [] \<and> (\<exists>r. skip_ws s = CHR 0x7D # r) \<or>
    (\<exists>r. pmems n d s = Some (ms, r))" "d \<le> maxNestingDepth"
    by (rule json_parse_objectD)
  have len: "length s < length body" by (rule skip_ws_Cons [OF o(1)])
  from o(2) show ?thesis
  proof
    assume "ms = [] \<and> (\<exists>r. skip_ws s = CHR 0x7D # r)"
    with o(1) len show ?thesis
      by (cases "length body") (auto simp: hasDuplicateMembers_def)
  next
    assume "\<exists>r. pmems n d s = Some (ms, r)"
    then obtain r where r: "pmems n d s = Some (ms, r)" by auto
    have "dup_walk (length body) True [] s \<longleftrightarrow>
        \<not> distinct (map fst ms) \<or> set (map fst ms) \<inter> set [] \<noteq> {}"
      using pmems_length [OF r] len by (intro dup_walk_pmems [OF r o(3)]) auto
    with o(1) show ?thesis by (simp add: hasDuplicateMembers_def del: dup_walk.simps)
  qed
qed

text \<open>
  On every body that is a JSON object, however deep, spaced or escaped, the streaming walk
  reports a duplicate exactly when two of the object's decoded member names are equal.
\<close>

theorem hasDuplicateMembers_iff:
  assumes "json_parse body = Some (JObj ms)"
  shows "hasDuplicateMembers body \<longleftrightarrow> \<not> distinct (map fst ms)"
  using assms by (rule hasDuplicateMembers_object)

theorem hasDuplicateMembers_iff_witness:
  "hasDuplicateMembers (object_text [(''v'', Itoa 1), (''v'', Itoa 2)]) \<longleftrightarrow>
    \<not> distinct [''v'', ''v'']"
proof -
  have "json_parse (object_text [(''v'', Itoa 1), (''v'', Itoa 2)]) =
      Some (JObj [(''v'', JNum (Itoa 1)), (''v'', JNum (Itoa 2))])"
    using json_parse_object_text [of "[(''v'', Itoa 1, JNum (Itoa 1)), (''v'', Itoa 2, JNum (Itoa 2))]"]
    by (simp add: renders_int plain_char_def)
  from hasDuplicateMembers_iff [OF this] show ?thesis by simp
qed

section \<open>The table\<close>

text \<open>
  The rows of the specification's table that \<open>Check\<close> evaluates, each with the condition of the
  text: a row is read only when no row above it applies.
\<close>

definition accept_rows ::
  "crypto \<Rightarrow> string \<Rightarrow> int \<Rightarrow> Limits \<Rightarrow> bool \<Rightarrow> (bool \<times> RecordReason) list" where
  "accept_rows C body now lim rateLimited =
    (let env = accept_parse body;
         e = the env;
         dec = Envelope_Decode (e\<lparr>e_V := 1\<rparr>);
         d = projr dec
     in [(rateLimited, RecordRateLimited),
         (int (length body) > MaxRecordBytes lim, RecordTooLarge),
         (env = None \<or> isl dec, RecordMalformed),
         (e_V e \<noteq> 1, RecordBadVersion),
         (e_ExpiresAt e > i64 (i64 (now + MaxTTL lim) + SkewGrace lim), RecordTTLTooLong),
         (sha256 C (d_WKPub d) \<noteq> d_LookupID d, RecordLookupMismatch),
         (\<not> pow_Verify C (d_LookupID d) (e_ExpiresAt e) (d_PoW d) (PoWBits lim), RecordPoWInsufficient),
         (\<not> ed_verify C (d_WKPub d) (SigningBytes d) (d_Sig d), RecordSigInvalid),
         (e_ExpiresAt e \<le> now, RecordExpired)])"

lemma Decode_version: "e_V e = Version \<Longrightarrow> e\<lparr>e_V := Version\<rparr> = e"
  by simp

lemma VerifyLookupID_None [simp]: "VerifyLookupID C d = None \<longleftrightarrow> sha256 C (d_WKPub d) = d_LookupID d"
  by (simp add: VerifyLookupID_def)

lemma VerifySignature_decoded:
  "Envelope_Decode e = Inr d \<Longrightarrow> VerifySignature C d = None \<longleftrightarrow>
    ed_verify C (d_WKPub d) (SigningBytes d) (d_Sig d)"
  using Envelope_Decode_InrD [of e d] by (simp add: VerifySignature_def decoded_widths_def)

text \<open>
  C2. \<open>Check\<close> answers every body with the first row of the table that applies, in the order of
  the table, and with \<open>RecordAccepted\<close> when none does: the malformation of a field is reported
  before a bad version although \<open>Decode\<close> looks at the version first, and no body makes the
  signature check panic.
\<close>

theorem accept_Check_table:
  "fst (accept_Check C body now lim rateLimited) =
    first_failing (accept_rows C body now lim rateLimited) RecordAccepted"
proof (cases "accept_parse body")
  case None
  then show ?thesis by (simp add: accept_Check_def accept_rows_def Let_def)
next
  case (Some env)
  show ?thesis
  proof (cases "Envelope_Decode (env\<lparr>e_V := 1\<rparr>)")
    case (Inl x)
    with Some show ?thesis by (simp add: accept_Check_def accept_rows_def Let_def Version_def)
  next
    case (Inr d)
    with Envelope_Decode_InrD [OF Inr] have "d_ExpiresAt d = e_ExpiresAt env" by simp
    with Some Inr VerifySignature_decoded [OF Inr, of C] show ?thesis
      by (simp add: accept_Check_def accept_rows_def Let_def Version_def)
  qed
qed

text \<open>
  Exactly what is accepted: a body is accepted with decoded envelope \<open>d\<close> if and only if the
  request is not rate limited, the body is within the size limit, parses as an envelope of
  version 1 whose fields decode to \<open>d\<close>, the identifier is the digest of the public key, the proof
  of work meets the instance's difficulty, the signature verifies over the signing bytes, and
  the expiry lies after now and within the bound.
\<close>

theorem accept_Check_iff:
  "accept_Check C body now lim rateLimited = (RecordAccepted, Some d) \<longleftrightarrow>
    \<not> rateLimited \<and> int (length body) \<le> MaxRecordBytes lim \<and>
    (\<exists>env. accept_parse body = Some env \<and> Envelope_Decode env = Inr d) \<and>
    sha256 C (d_WKPub d) = d_LookupID d \<and>
    pow_Verify C (d_LookupID d) (d_ExpiresAt d) (d_PoW d) (PoWBits lim) \<and>
    ed_verify C (d_WKPub d) (SigningBytes d) (d_Sig d) \<and>
    now < d_ExpiresAt d \<and> d_ExpiresAt d \<le> i64 (i64 (now + MaxTTL lim) + SkewGrace lim)"
proof (cases "accept_parse body")
  case None
  then show ?thesis by (simp add: accept_Check_def)
next
  case (Some env)
  show ?thesis
  proof (cases "e_V env = Version")
    case True
    then have same: "env\<lparr>e_V := Version\<rparr> = env" by simp
    show ?thesis
    proof (cases "Envelope_Decode env")
      case (Inl x)
      with Some show ?thesis by (simp add: accept_Check_def same)
    next
      case (Inr d')
      with Some True VerifySignature_decoded [OF Inr, of C] show ?thesis
        by (auto simp: accept_Check_def same)
    qed
  next
    case False
    then have "Envelope_Decode env = Inl ErrVersion" by (simp add: Envelope_Decode_def)
    with Some False show ?thesis by (simp add: accept_Check_def split: sum.split)
  qed
qed

section \<open>Envelopes as they are transmitted\<close>

lemma plain_char_code:
  "plain_char c \<longleftrightarrow> 32 \<le> (of_char c :: nat) \<and> (of_char c :: nat) < 128 \<and>
    (of_char c :: nat) \<noteq> 34 \<and> (of_char c :: nat) \<noteq> 92"
proof -
  have "c = d \<longleftrightarrow> (of_char c :: nat) = of_char d" for d :: char by simp
  from this [of "CHR 0x22"] this [of "CHR 0x5C"] show ?thesis by (auto simp: plain_char_def)
qed

lemma plain_b64_char: "n < 64 \<Longrightarrow> plain_char (b64_char n)"
  by (auto simp: plain_char_code b64_char_def)

lemma plain_b64_Encode: "list_all plain_char (b64_Encode b)"
  using sextets_of_less [of b] plain_b64_char by (auto simp: b64_Encode_def list_all_iff)

text \<open>The members of a decoded envelope as a publisher renders them, in the order of the type.\<close>

definition envelope_members :: "Decoded \<Rightarrow> (string \<times> string \<times> json) list" where
  "envelope_members d =
    [(''v'', Itoa 1, JNum (Itoa 1)),
     (''lookup_id'', quoted (b64_Encode (d_LookupID d)), JStr (b64_Encode (d_LookupID d))),
     (''wk_pub'', quoted (b64_Encode (d_WKPub d)), JStr (b64_Encode (d_WKPub d))),
     (''expires_at'', Itoa (d_ExpiresAt d), JNum (Itoa (d_ExpiresAt d))),
     (''ct'', quoted (b64_Encode (d_CT d)), JStr (b64_Encode (d_CT d))),
     (''nonce'', quoted (b64_Encode (d_Nonce d)), JStr (b64_Encode (d_Nonce d))),
     (''pow'', quoted (b64_Encode (d_PoW d)), JStr (b64_Encode (d_PoW d))),
     (''sig'', quoted (b64_Encode (d_Sig d)), JStr (b64_Encode (d_Sig d)))]"

definition text_of_members :: "(string \<times> string \<times> json) list \<Rightarrow> string" where
  "text_of_members ms = object_text (map (\<lambda>(k, t, v). (k, t)) ms)"

definition envelope_text :: "Decoded \<Rightarrow> string" where
  "envelope_text d = text_of_members (envelope_members d)"

lemma envelope_members_rendered:
  "\<forall>(k, t, v) \<in> set (envelope_members d). list_all plain_char k \<and> renders t v"
  by (simp add: envelope_members_def renders_int renders_string plain_b64_Encode plain_char_def)

lemma accept_parse_text:
  assumes "ms \<noteq> []" and "\<forall>(k, t, v) \<in> set ms. list_all plain_char k \<and> renders t v"
    and "distinct (map fst ms)"
    and "\<not> list_ex (member_missing (map (\<lambda>(k, t, v). (k, v)) ms)) requiredMembers"
  shows "accept_parse (text_of_members ms) =
    store_members envelope_zero (map (\<lambda>(k, t, v). (k, v)) ms)"
proof -
  have json: "json_parse (text_of_members ms) = Some (JObj (map (\<lambda>(k, t, v). (k, v)) ms))"
    unfolding text_of_members_def by (rule json_parse_object_text [OF assms(1,2)])
  have names: "map fst (map (\<lambda>(k, t, v). (k, v)) ms) = map fst ms"
    by (simp add: comp_def split_def)
  have "\<not> hasDuplicateMembers (text_of_members ms)"
    unfolding hasDuplicateMembers_object [OF json] names using assms(3) by simp
  with assms(4) json show ?thesis
    by (simp add: accept_parse_def unmarshal_members_def unmarshal_envelope_def)
qed

definition transmitted :: "Decoded \<Rightarrow> Envelope" where
  "transmitted d = \<lparr>e_V = 1, e_LookupID = b64_Encode (d_LookupID d), e_WKPub = b64_Encode (d_WKPub d),
    e_ExpiresAt = d_ExpiresAt d, e_CT = b64_Encode (d_CT d), e_Nonce = b64_Encode (d_Nonce d),
    e_PoW = b64_Encode (d_PoW d), e_Sig = b64_Encode (d_Sig d)\<rparr>"

lemma field_for_exact: "k \<in> set names \<Longrightarrow> field_for names k = Some k"
  by (simp add: field_for_def)

lemma parse_int64_one [simp]: "parse_int64 (Itoa 1) = Some 1"
  by (rule parse_int64_Itoa) (simp add: is_i64_def)

lemma field_for_folded: "field_for envelope_fields ''EXPIRES_AT'' = Some ''expires_at''"
  by code_simp

lemma field_for_names [simp]:
  "field_for envelope_fields ''v'' = Some ''v''"
  "field_for envelope_fields ''lookup_id'' = Some ''lookup_id''"
  "field_for envelope_fields ''wk_pub'' = Some ''wk_pub''"
  "field_for envelope_fields ''expires_at'' = Some ''expires_at''"
  "field_for envelope_fields ''ct'' = Some ''ct''"
  "field_for envelope_fields ''nonce'' = Some ''nonce''"
  "field_for envelope_fields ''pow'' = Some ''pow''"
  "field_for envelope_fields ''sig'' = Some ''sig''"
  by (rule field_for_exact, simp add: envelope_fields_def)+

lemma store_envelope_members:
  "is_i64 (d_ExpiresAt d) \<Longrightarrow>
    store_members envelope_zero (map (\<lambda>(k, t, v). (k, v)) (envelope_members d)) = Some (transmitted d)"
  by (simp add: envelope_members_def store_member_def Let_def
    store_int64_def store_string_def envelope_zero_def transmitted_def)

lemma accept_parse_envelope_text:
  "is_i64 (d_ExpiresAt d) \<Longrightarrow> accept_parse (envelope_text d) = Some (transmitted d)"
  unfolding envelope_text_def
  by (subst accept_parse_text)
    (use envelope_members_rendered [of d] in \<open>simp_all add: store_envelope_members\<close>,
     simp_all add: envelope_members_def requiredMembers_def member_missing_def)

lemma Envelope_Decode_transmitted:
  "decoded_widths d \<Longrightarrow> Envelope_Decode (transmitted d) = Inr d"
  using Envelope_Decode_InrI [of "transmitted d"] by (simp add: transmitted_def decoded_widths_def)

section \<open>The honest publisher\<close>

text \<open>What a server publishes: the identifier is the digest of its write key, which signs.\<close>

definition published :: "crypto \<Rightarrow> bytes \<Rightarrow> int \<Rightarrow> bytes \<Rightarrow> bytes \<Rightarrow> bytes \<Rightarrow> Decoded" where
  "published C seed expiresAt nonce ct pow =
    (let pub = ed_public C seed; lookup = sha256 C pub
     in \<lparr>d_V = 1, d_LookupID = lookup, d_WKPub = pub, d_ExpiresAt = expiresAt, d_CT = ct,
         d_Nonce = nonce, d_PoW = pow,
         d_Sig = ed_sign C (NewKeyFromSeed C seed)
           (CanonicalEnvelope 1 lookup pub expiresAt nonce ct)\<rparr>)"

definition publishable ::
  "crypto \<Rightarrow> bytes \<Rightarrow> int \<Rightarrow> bytes \<Rightarrow> bytes \<Rightarrow> bytes \<Rightarrow> int \<Rightarrow> Limits \<Rightarrow> bool" where
  "publishable C seed expiresAt nonce ct pow now lim \<longleftrightarrow>
    length seed = 32 \<and> length nonce = 12 \<and> 16 \<le> length ct \<and>
    pow_Solve C (\<lambda>i. False) (sha256 C (ed_public C seed)) expiresAt (PoWBits lim) = Inr pow \<and>
    0 \<le> now \<and> 0 \<le> MaxTTL lim \<and> 0 \<le> SkewGrace lim \<and> now + MaxTTL lim + SkewGrace lim < 2 ^ 63 \<and>
    now < expiresAt \<and> expiresAt \<le> now + MaxTTL lim + SkewGrace lim"

lemma published_widths:
  assumes "sha256_ok C" "ed25519_ok C" "publishable C seed expiresAt nonce ct pow now lim"
  shows "decoded_widths (published C seed expiresAt nonce ct pow)"
  using assms pow_Solve_verifies
  by (auto simp: decoded_widths_def published_def publishable_def Let_def sha256_ok_def ed25519_ok_def)

lemma published_accepted:
  assumes laws: "sha256_ok C" "ed25519_ok C"
    and p: "publishable C seed expiresAt nonce ct pow now lim"
    and parse: "accept_parse body = Some (transmitted (published C seed expiresAt nonce ct pow))"
    and size: "int (length body) \<le> MaxRecordBytes lim"
  shows "accept_Check C body now lim False =
    (RecordAccepted, Some (published C seed expiresAt nonce ct pow))"
proof -
  let ?d = "published C seed expiresAt nonce ct pow"
  have dec: "Envelope_Decode (transmitted ?d) = Inr ?d"
    by (rule Envelope_Decode_transmitted [OF published_widths [OF laws p]])
  have v: "e_V (transmitted ?d) = Version" and same: "transmitted ?d\<lparr>e_V := Version\<rparr> = transmitted ?d"
    by (simp_all add: transmitted_def Version_def)
  have "VerifySignature C ?d = None" "VerifyLookupID C ?d = None"
    using laws p by (simp_all add: VerifySignature_decoded [OF dec])
      (simp_all add: published_def Let_def SigningBytes_def publishable_def ed25519_ok_def)
  moreover have "pow_Verify C (d_LookupID ?d) (d_ExpiresAt ?d) (d_PoW ?d) (PoWBits lim)"
    using p pow_Solve_verifies by (auto simp: publishable_def published_def Let_def)
  moreover have "i64 (i64 (now + MaxTTL lim) + SkewGrace lim) = now + MaxTTL lim + SkewGrace lim"
    using p i64_id [of "now + MaxTTL lim"] i64_id [of "now + MaxTTL lim + SkewGrace lim"]
    by (simp add: publishable_def is_i64_def)
  moreover have "d_ExpiresAt ?d = expiresAt" by (simp add: published_def Let_def)
  ultimately show ?thesis
    using p size by (simp add: accept_Check_def parse same dec v publishable_def)
qed

text \<open>
  C7. An honest publish is accepted. The text of an envelope that carries the digest of its key,
  a solved proof of work, a signature made with that key and an expiry within the instance's
  bound is accepted by every instance that is not rate limiting it and whose size limit it
  meets, and the decoded envelope is the one that was published.
\<close>

theorem honest_publish_accepted:
  assumes "sha256_ok C" and "ed25519_ok C" and "publishable C seed expiresAt nonce ct pow now lim"
    and "int (length (envelope_text (published C seed expiresAt nonce ct pow))) \<le> MaxRecordBytes lim"
  shows "accept_Check C (envelope_text (published C seed expiresAt nonce ct pow)) now lim False =
    (RecordAccepted, Some (published C seed expiresAt nonce ct pow))"
proof -
  have "is_i64 (d_ExpiresAt (published C seed expiresAt nonce ct pow))"
    using assms(3) by (simp add: publishable_def published_def Let_def is_i64_def)
  from published_accepted [OF assms(1-3) accept_parse_envelope_text [OF this] assms(4)]
  show ?thesis .
qed

lemma pow_Solve_zero: "pow_Solve C (\<lambda>i. False) l e 0 = Inr (be_bytes 8 0)"
  using solve_from_step [of "replicate 8 0" 0 C "\<lambda>i. False" l e 0] lzb_nonneg
  by (simp add: pow_Solve_def MaxBits_def pow_Len_def solves_def pow_Verify_def LeadingZeroBits_def
    del: be_bytes.simps)

definition sample_limits :: Limits where
  "sample_limits = \<lparr>MaxRecordBytes = 4096, MaxTTL = 3600, PoWBits = 0, SkewGrace = 300\<rparr>"

definition sample_published :: Decoded where
  "sample_published = published toy_crypto (replicate 32 1) 100 (replicate 12 3) (replicate 16 4)
    (be_bytes 8 0)"

lemma sample_publishable:
  "publishable toy_crypto (replicate 32 1) 100 (replicate 12 3) (replicate 16 4) (be_bytes 8 0) 50
    sample_limits"
  by (simp add: publishable_def sample_limits_def pow_Solve_zero del: be_bytes.simps)

lemma sample_lengths:
  "length (d_LookupID sample_published) = 32" "length (d_WKPub sample_published) = 32"
  "length (d_CT sample_published) = 16" "length (d_Nonce sample_published) = 12"
  "length (d_PoW sample_published) = 8" "length (d_Sig sample_published) = 64"
  "d_ExpiresAt sample_published = 100"
  by (simp_all add: sample_published_def published_def Let_def toy_crypto_def)

lemma Itoa_values: "Itoa 1 = ''1''" "Itoa 7 = ''7''" "Itoa 100 = ''100''"
  by code_simp+

theorem honest_publish_accepted_witness:
  "accept_Check toy_crypto (envelope_text sample_published) 50 sample_limits False =
    (RecordAccepted, Some sample_published)"
proof -
  have "int (length (envelope_text sample_published)) \<le> MaxRecordBytes sample_limits"
    by (simp add: envelope_text_def text_of_members_def envelope_members_def object_text_def
      quoted_def sample_lengths Itoa_values sample_limits_def)
  then show ?thesis
    unfolding sample_published_def
    by (rule honest_publish_accepted [OF toy_sha256_ok toy_ed25519_ok sample_publishable])
qed

text \<open>
  C28. The defence against repeated members compares names exactly, but \<open>json.Unmarshal\<close> matches
  them up to case. An envelope with one member \<open>expires_at\<close>, of any value \<open>x\<close>, and a later member
  \<open>EXPIRES_AT\<close> is accepted, signed and proved for the later value: a reader that takes the member
  \<open>expires_at\<close> from the stored bytes sees an expiry the directory did not validate.
\<close>

theorem case_folded_duplicate_accepted:
  fixes x expiresAt :: int
  defines "members d \<equiv> envelope_members (d\<lparr>d_ExpiresAt := x\<rparr>) @
    [(''EXPIRES_AT'', Itoa expiresAt, JNum (Itoa expiresAt))]"
  assumes "sha256_ok C" and "ed25519_ok C" and "publishable C seed expiresAt nonce ct pow now lim"
    and "is_i64 x"
    and "int (length (text_of_members (members (published C seed expiresAt nonce ct pow)))) \<le>
      MaxRecordBytes lim"
  shows "accept_Check C (text_of_members (members (published C seed expiresAt nonce ct pow))) now lim False =
      (RecordAccepted, Some (published C seed expiresAt nonce ct pow)) \<and>
    (\<exists>ms. unmarshal_members (text_of_members (members (published C seed expiresAt nonce ct pow))) = Some ms \<and>
      [v \<leftarrow> ms. fst v = ''expires_at''] = [(''expires_at'', JNum (Itoa x))])"
proof -
  let ?d = "published C seed expiresAt nonce ct pow"
  let ?ms = "members ?d"
  have rendered: "\<forall>(k, t, v) \<in> set ?ms. list_all plain_char k \<and> renders t v"
    using envelope_members_rendered [of "?d\<lparr>d_ExpiresAt := x\<rparr>"]
    by (auto simp: members_def renders_int plain_char_def)
  have exp: "d_ExpiresAt ?d = expiresAt" "is_i64 expiresAt"
    using assms(4) by (simp_all add: publishable_def published_def Let_def is_i64_def)
  have stored: "store_members envelope_zero (map (\<lambda>(k, t, v). (k, v)) ?ms) = Some (transmitted ?d)"
    using exp assms(5)
    by (simp add: members_def envelope_members_def store_member_def field_for_folded
      Let_def store_int64_def store_string_def envelope_zero_def transmitted_def)
  have "accept_parse (text_of_members ?ms) = Some (transmitted ?d)"
    using rendered stored
    by (subst accept_parse_text)
      (auto simp: members_def envelope_members_def requiredMembers_def member_missing_def)
  from published_accepted [OF assms(2-4) this assms(6)]
  have "accept_Check C (text_of_members ?ms) now lim False = (RecordAccepted, Some ?d)" .
  moreover have "json_parse (text_of_members ?ms) = Some (JObj (map (\<lambda>(k, t, v). (k, v)) ?ms))"
    unfolding text_of_members_def
    by (rule json_parse_object_text [OF _ rendered]) (simp add: members_def)
  ultimately show ?thesis by (simp add: unmarshal_members_def members_def envelope_members_def)
qed

theorem case_folded_duplicate_accepted_witness:
  "let body = text_of_members (envelope_members (sample_published\<lparr>d_ExpiresAt := 7\<rparr>) @
      [(''EXPIRES_AT'', Itoa 100, JNum (Itoa 100))])
   in accept_Check toy_crypto body 50 sample_limits False = (RecordAccepted, Some sample_published) \<and>
    (\<exists>ms. unmarshal_members body = Some ms \<and>
      [v \<leftarrow> ms. fst v = ''expires_at''] = [(''expires_at'', JNum (Itoa 7))])"
proof -
  have "int (length (text_of_members (envelope_members (sample_published\<lparr>d_ExpiresAt := 7\<rparr>) @
      [(''EXPIRES_AT'', Itoa 100, JNum (Itoa 100))]))) \<le> MaxRecordBytes sample_limits"
    by (simp add: text_of_members_def envelope_members_def object_text_def
      quoted_def sample_lengths Itoa_values sample_limits_def)
  moreover have "is_i64 7" by (simp add: is_i64_def)
  ultimately show ?thesis
    using case_folded_duplicate_accepted [OF toy_sha256_ok toy_ed25519_ok sample_publishable]
    unfolding Let_def sample_published_def by blast
qed

end
