(* ===== verification/Netip.thy ===== *)
theory Netip imports Prelude begin

text \<open>
  What the program uses of Go's \<open>net/netip\<close> and \<open>strings\<close>: addresses, prefixes, their
  parsers, and the trimming and splitting of header values. An address is invalid (the zero
  \<open>netip.Addr\<close>), an IPv4 address, or an IPv6 address with a possibly empty zone; an
  IPv4-mapped address is an IPv6 address until \<open>Unmap\<close> is applied.
\<close>

unbundle bit_operations_syntax

section \<open>Addresses\<close>

datatype Addr = AddrZero | Addr4 "32 word" | Addr6 "128 word" string

definition IsValid :: "Addr \<Rightarrow> bool" where
  "IsValid a \<longleftrightarrow> a \<noteq> AddrZero"

fun Is4 :: "Addr \<Rightarrow> bool" where
  "Is4 (Addr4 _) = True"
| "Is4 _ = False"

fun Is6 :: "Addr \<Rightarrow> bool" where
  "Is6 (Addr6 _ _) = True"
| "Is6 _ = False"

fun Is4In6 :: "Addr \<Rightarrow> bool" where
  "Is4In6 (Addr6 w _) = (drop_bit 32 w = 0xFFFF)"
| "Is4In6 _ = False"

fun Unmap :: "Addr \<Rightarrow> Addr" where
  "Unmap (Addr6 w z) = (if drop_bit 32 w = 0xFFFF then Addr4 (ucast w) else Addr6 w z)"
| "Unmap a = a"

fun BitLen :: "Addr \<Rightarrow> nat" where
  "BitLen AddrZero = 0"
| "BitLen (Addr4 _) = 32"
| "BitLen (Addr6 _ _) = 128"

fun Zone :: "Addr \<Rightarrow> string" where
  "Zone (Addr6 _ z) = z"
| "Zone _ = []"

fun withoutZone :: "Addr \<Rightarrow> Addr" where
  "withoutZone (Addr6 w _) = Addr6 w []"
| "withoutZone a = a"

definition mapped_v4 :: "32 word \<Rightarrow> 128 word" where
  "mapped_v4 v = push_bit 32 0xFFFF OR ucast v"

lemma Unmap_idem [simp]: "Unmap (Unmap a) = Unmap a"
  by (cases a) auto

lemma IsValid_Unmap [simp]: "IsValid (Unmap a) = IsValid a"
  by (cases a) (auto simp: IsValid_def)

lemma Unmap_not_mapped [simp]: "\<not> Is4In6 (Unmap a)"
  by (cases a) auto

lemma Unmap_cases:
  "Unmap a = AddrZero \<and> a = AddrZero \<or> (\<exists>v. Unmap a = Addr4 v) \<or>
   (\<exists>w z. a = Addr6 w z \<and> Unmap a = Addr6 w z \<and> \<not> Is4In6 a)"
  by (cases a) auto

section \<open>Prefixes\<close>

text \<open>
  A \<open>netip.Prefix\<close> holds a zoneless address and a bit count, or no bit count when it is
  invalid; the zero \<open>Prefix\<close> is invalid.
\<close>

record Prefix =
  p_ip :: Addr
  p_bits :: "nat option"

definition PrefixZero :: Prefix where
  "PrefixZero = \<lparr>p_ip = AddrZero, p_bits = None\<rparr>"

definition Prefix_IsValid :: "Prefix \<Rightarrow> bool" where
  "Prefix_IsValid p \<longleftrightarrow> p_bits p \<noteq> None"

definition Prefix_Bits :: "Prefix \<Rightarrow> int" where
  "Prefix_Bits p = (case p_bits p of None \<Rightarrow> -1 | Some b \<Rightarrow> int b)"

definition PrefixFrom :: "Addr \<Rightarrow> int \<Rightarrow> Prefix" where
  "PrefixFrom a bits =
    \<lparr>p_ip = withoutZone a,
     p_bits = (if IsValid a \<and> 0 \<le> bits \<and> bits \<le> int (BitLen a) then Some (nat bits) else None)\<rparr>"

definition mask6 :: "nat \<Rightarrow> 128 word" where
  "mask6 n = NOT (mask (128 - n))"

text \<open>\<open>Addr.Prefix\<close>, which \<open>Masked\<close> calls; its errors give the zero prefix.\<close>

fun Addr_Prefix :: "Addr \<Rightarrow> int \<Rightarrow> Prefix" where
  "Addr_Prefix AddrZero b = PrefixZero"
| "Addr_Prefix (Addr4 v) b =
    (if b < 0 \<or> b > 32 then PrefixZero
     else PrefixFrom (Addr4 (v AND NOT (mask (32 - nat b)))) b)"
| "Addr_Prefix (Addr6 w z) b =
    (if b < 0 \<or> b > 128 then PrefixZero
     else PrefixFrom (Addr6 (w AND mask6 (nat b)) z) b)"

definition Masked :: "Prefix \<Rightarrow> Prefix" where
  "Masked p = Addr_Prefix (p_ip p) (Prefix_Bits p)"

definition Contains :: "Prefix \<Rightarrow> Addr \<Rightarrow> bool" where
  "Contains p a =
    (case p_bits p of
       None \<Rightarrow> False
     | Some b \<Rightarrow>
        (if Zone a \<noteq> [] then False
         else case (p_ip p, a) of
             (Addr4 v, Addr4 u) \<Rightarrow> drop_bit (32 - b) (u XOR v) = 0
           | (Addr6 w _, Addr6 x _) \<Rightarrow> (x XOR w) AND mask6 b = 0
           | _ \<Rightarrow> False))"

section \<open>Strings\<close>

definition unicode_spaces :: "string list" where
  "unicode_spaces =
    [[CHR '' ''], [CHR 0x09], [CHR 0x0A], [CHR 0x0B], [CHR 0x0C], [CHR 0x0D],
     [CHR 0xC2, CHR 0x85], [CHR 0xC2, CHR 0xA0], [CHR 0xE1, CHR 0x9A, CHR 0x80],
     [CHR 0xE2, CHR 0x80, CHR 0x80], [CHR 0xE2, CHR 0x80, CHR 0x81],
     [CHR 0xE2, CHR 0x80, CHR 0x82], [CHR 0xE2, CHR 0x80, CHR 0x83],
     [CHR 0xE2, CHR 0x80, CHR 0x84], [CHR 0xE2, CHR 0x80, CHR 0x85],
     [CHR 0xE2, CHR 0x80, CHR 0x86], [CHR 0xE2, CHR 0x80, CHR 0x87],
     [CHR 0xE2, CHR 0x80, CHR 0x88], [CHR 0xE2, CHR 0x80, CHR 0x89],
     [CHR 0xE2, CHR 0x80, CHR 0x8A], [CHR 0xE2, CHR 0x80, CHR 0xA8],
     [CHR 0xE2, CHR 0x80, CHR 0xA9], [CHR 0xE2, CHR 0x80, CHR 0xAF],
     [CHR 0xE2, CHR 0x81, CHR 0x9F], [CHR 0xE3, CHR 0x80, CHR 0x80]]"

text \<open>Remove leading occurrences of the given non-empty words, as long as there is one.\<close>

definition leading_word :: "string list \<Rightarrow> string \<Rightarrow> string option" where
  "leading_word ws s = find (\<lambda>w. w \<noteq> [] \<and> take (length w) s = w) ws"

lemma leading_word_Some:
  "leading_word ws s = Some w \<Longrightarrow> w \<noteq> [] \<and> take (length w) s = w"
  by (auto simp: leading_word_def find_Some_iff)

lemma leading_word_shorter:
  "leading_word ws s = Some w \<Longrightarrow> length (drop (length w) s) < length s"
  using leading_word_Some [of ws s w] by (cases s) auto

function trim_front :: "string list \<Rightarrow> string \<Rightarrow> string" where
  "trim_front ws s =
    (case leading_word ws s of None \<Rightarrow> s | Some w \<Rightarrow> trim_front ws (drop (length w) s))"
  by pat_completeness auto
termination
  by (relation "measure (\<lambda>(ws, s). length s)") (auto dest: leading_word_shorter)

declare trim_front.simps [simp del]

definition TrimSpace :: "string \<Rightarrow> string" where
  "TrimSpace s = rev (trim_front (map rev unicode_spaces) (rev (trim_front unicode_spaces s)))"

lemma trim_front_Nil [simp]: "trim_front ws [] = []"
  by (subst trim_front.simps) (auto simp: leading_word_def find_Some_iff split: option.splits)

lemma TrimSpace_Nil [simp]: "TrimSpace [] = []"
  by (simp add: TrimSpace_def)

lemma trim_front_keeps:
  "c \<in> set s \<Longrightarrow> \<forall>w \<in> set ws. c \<notin> set w \<Longrightarrow> c \<in> set (trim_front ws s)"
proof (induction ws s rule: trim_front.induct)
  case (1 ws s)
  show ?case
  proof (cases "leading_word ws s")
    case None
    with "1.prems" show ?thesis by (subst trim_front.simps) simp
  next
    case (Some w)
    then have w: "w \<in> set ws" "take (length w) s = w"
      by (auto simp: leading_word_def find_Some_iff)
    have "c \<in> set (take (length w) s) \<or> c \<in> set (drop (length w) s)"
      using "1.prems"(1) by (metis Un_iff append_take_drop_id set_append)
    with w "1.prems"(2) have "c \<in> set (drop (length w) s)" by auto
    with "1.IH" [OF Some] "1.prems"(2) Some show ?thesis by (subst trim_front.simps) simp
  qed
qed

lemma TrimSpace_comma: "TrimSpace s = [] \<Longrightarrow> CHR '','' \<notin> set s"
proof
  assume t: "TrimSpace s = []" and c: "CHR '','' \<in> set s"
  have ws: "\<forall>w \<in> set unicode_spaces. CHR '','' \<notin> set w"
    by (simp add: unicode_spaces_def)
  then have "CHR '','' \<in> set (rev (trim_front unicode_spaces s))"
    using trim_front_keeps [OF c] by simp
  from trim_front_keeps [OF this, of "map rev unicode_spaces"] ws t show False
    by (simp add: TrimSpace_def)
qed

text \<open>\<open>strings.LastIndexByte\<close> and the slices taken around the index it returns.\<close>

fun split_last :: "char \<Rightarrow> string \<Rightarrow> (string \<times> string) option" where
  "split_last c [] = None"
| "split_last c (x # xs) =
    (case split_last c xs of
       Some (l, r) \<Rightarrow> Some (x # l, r)
     | None \<Rightarrow> if x = c then Some ([], xs) else None)"

text \<open>\<open>strings.Cut\<close> and \<open>strings.Split\<close> on one byte.\<close>

fun split_first :: "char \<Rightarrow> string \<Rightarrow> (string \<times> string) option" where
  "split_first c [] = None"
| "split_first c (x # xs) =
    (if x = c then Some ([], xs)
     else map_option (\<lambda>(l, r). (x # l, r)) (split_first c xs))"

fun split_on :: "char \<Rightarrow> string \<Rightarrow> string list" where
  "split_on c [] = [[]]"
| "split_on c (x # xs) =
    (if x = c then [] # split_on c xs
     else case split_on c xs of [] \<Rightarrow> [[x]] | f # fs \<Rightarrow> (x # f) # fs)"

lemma split_last_None_iff: "split_last c s = None \<longleftrightarrow> c \<notin> set s"
  by (induction s) (auto split: option.splits)

lemma split_last_append: "c \<notin> set r \<Longrightarrow> split_last c (l @ c # r) = Some (l, r)"
proof -
  assume "c \<notin> set r"
  then have "split_last c r = None" by (simp add: split_last_None_iff)
  then show ?thesis by (induction l) auto
qed

lemma split_last_SomeD: "split_last c s = Some (l, r) \<Longrightarrow> s = l @ c # r \<and> c \<notin> set r"
proof (induction s arbitrary: l)
  case (Cons x s)
  then show ?case
    by (cases "split_last c s") (auto simp: split_last_None_iff split: if_splits)
qed simp

lemma split_last_Some_iff:
  "split_last c s = Some (l, r) \<longleftrightarrow> s = l @ c # r \<and> c \<notin> set r"
  using split_last_append split_last_SomeD by blast

lemma split_on_not_Nil [simp]: "split_on c s \<noteq> []"
  by (induction s) (auto split: list.splits)

lemma split_on_no_sep: "c \<notin> set s \<Longrightarrow> split_on c s = [s]"
  by (induction s) auto

lemma split_on_append: "split_on c (l @ c # r) = split_on c l @ split_on c r"
  by (induction l) (auto split: list.splits)

section \<open>Parsers\<close>

definition dec_digit :: "char \<Rightarrow> nat option" where
  "dec_digit c = (let n = of_char c :: nat in if 48 \<le> n \<and> n \<le> 57 then Some (n - 48) else None)"

definition hex_digit :: "char \<Rightarrow> nat option" where
  "hex_digit c =
    (let n = of_char c :: nat in
     if 48 \<le> n \<and> n \<le> 57 then Some (n - 48)
     else if 97 \<le> n \<and> n \<le> 102 then Some (n - 97 + 10)
     else if 65 \<le> n \<and> n \<le> 70 then Some (n - 65 + 10)
     else None)"

text \<open>
  \<open>parseIPv4Fields\<close>: the loop state is the value of the current field, its digit count and
  the fields completed so far; \<open>prev\<close> is the previous character, if any.
\<close>

fun parse_ipv4_loop :: "nat \<Rightarrow> nat \<Rightarrow> nat list \<Rightarrow> char option \<Rightarrow> string \<Rightarrow> nat list option" where
  "parse_ipv4_loop val digLen done_fs prev [] =
    (if length done_fs < 3 then None else Some (done_fs @ [val]))"
| "parse_ipv4_loop val digLen done_fs prev (c # cs) =
    (case dec_digit c of
       Some d \<Rightarrow>
         if digLen = 1 \<and> val = 0 then None
         else let val' = val * 10 + d in
           if val' > 255 then None
           else parse_ipv4_loop val' (Suc digLen) done_fs (Some c) cs
     | None \<Rightarrow>
         if c = CHR ''.'' then
           if prev = None \<or> cs = [] \<or> prev = Some CHR ''.'' then None
           else if length done_fs = 3 then None
           else parse_ipv4_loop 0 0 (done_fs @ [val]) (Some c) cs
         else None)"

definition parse_ipv4_fields :: "string \<Rightarrow> nat list option" where
  "parse_ipv4_fields s = parse_ipv4_loop 0 0 [] None s"

definition bytes_value :: "nat list \<Rightarrow> nat" where
  "bytes_value fs = foldl (\<lambda>a f. a * 256 + f) 0 fs"

definition parse_ipv4 :: "string \<Rightarrow> Addr option" where
  "parse_ipv4 s = map_option (\<lambda>fs. Addr4 (of_nat (bytes_value fs))) (parse_ipv4_fields s)"

text \<open>
  One hexadecimal group of an IPv6 address: at most four digits; the result is the value,
  the number of digits and the rest of the text, or \<open>None\<close> for a fifth digit.
\<close>

fun hex_group :: "nat \<Rightarrow> nat \<Rightarrow> string \<Rightarrow> (nat \<times> nat \<times> string) option" where
  "hex_group off acc [] = Some (acc, off, [])"
| "hex_group off acc (c # cs) =
    (case hex_digit c of
       None \<Rightarrow> Some (acc, off, c # cs)
     | Some d \<Rightarrow> if off > 3 then None else hex_group (Suc off) (acc * 16 + d) cs)"

text \<open>
  The loop over the fields of an IPv6 address: \<open>ip\<close> holds the bytes written so far, and
  \<open>ellipsis\<close> the position of \<open>::\<close> in them. The result is the final \<open>ip\<close>, \<open>ellipsis\<close> and
  what is left of the text. Every iteration writes at least two of sixteen bytes, so eight
  are enough and \<open>fuel\<close> counts them.
\<close>

fun parse_ipv6_loop ::
  "nat \<Rightarrow> nat list \<Rightarrow> nat option \<Rightarrow> string \<Rightarrow> (nat list \<times> nat option \<times> string) option" where
  "parse_ipv6_loop 0 ip ellipsis s = Some (ip, ellipsis, s)"
| "parse_ipv6_loop (Suc fuel) ip ellipsis s =
    (case hex_group 0 0 s of
       None \<Rightarrow> None
     | Some (acc, off, rest) \<Rightarrow>
        if off = 0 then None
        else if rest \<noteq> [] \<and> hd rest = CHR ''.'' then
          if ellipsis = None \<and> length ip \<noteq> 12 then None
          else if length ip + 4 > 16 then None
          else (case parse_ipv4_fields s of
                  None \<Rightarrow> None
                | Some fs \<Rightarrow> Some (ip @ fs, ellipsis, []))
        else
          let ip' = ip @ [acc div 256, acc mod 256] in
          (case rest of
             [] \<Rightarrow> Some (ip', ellipsis, [])
           | c # s' \<Rightarrow>
              if c \<noteq> CHR '':'' then None
              else (case s' of
                 [] \<Rightarrow> None
               | d # s'' \<Rightarrow>
                  if d = CHR '':'' then
                    if ellipsis \<noteq> None then None
                    else if s'' = [] then Some (ip', Some (length ip'), [])
                    else parse_ipv6_loop fuel ip' (Some (length ip')) s''
                  else parse_ipv6_loop fuel ip' ellipsis s')))"

definition parse_ipv6 :: "string \<Rightarrow> Addr option" where
  "parse_ipv6 full =
    (let (s0, zone, badzone) =
       (case split_first CHR ''%'' full of
          None \<Rightarrow> (full, [], False)
        | Some (l, r) \<Rightarrow> (l, r, r = []))
     in if badzone then None
     else
       let lead = (length s0 \<ge> 2 \<and> take 2 s0 = ''::'');
           s = (if lead then drop 2 s0 else s0);
           ell = (if lead then Some 0 else None)
       in if lead \<and> s = [] then Some (Addr6 0 zone)
       else case parse_ipv6_loop 8 [] ell s of
           None \<Rightarrow> None
         | Some (ip, ellipsis, rest) \<Rightarrow>
            if rest \<noteq> [] then None
            else if length ip < 16 then
              (case ellipsis of
                 None \<Rightarrow> None
               | Some e \<Rightarrow>
                  Some (Addr6 (of_nat (bytes_value
                    (take e ip @ replicate (16 - length ip) 0 @ drop e ip))) zone))
            else if ellipsis \<noteq> None then None
            else Some (Addr6 (of_nat (bytes_value ip)) zone))"

definition ParseAddr :: "string \<Rightarrow> Addr option" where
  "ParseAddr s =
    (case find (\<lambda>c. c = CHR ''.'' \<or> c = CHR '':'' \<or> c = CHR ''%'') s of
       None \<Rightarrow> None
     | Some c \<Rightarrow>
        if c = CHR ''.'' then parse_ipv4 s
        else if c = CHR '':'' then parse_ipv6 s
        else None)"

definition all_digits_value :: "string \<Rightarrow> nat option" where
  "all_digits_value s =
    (if s = [] then None
     else map_option (\<lambda>ds. foldl (\<lambda>a d. a * 10 + d) 0 ds) (those (map dec_digit s)))"

text \<open>
  \<open>ParsePrefix\<close>. The bit count is read by \<open>strconv.Atoi\<close>, whose sign and leading zeros the
  code excludes before calling it when the text has two or more characters; a single
  character is accepted only when it is a digit.
\<close>

definition ParsePrefix :: "string \<Rightarrow> Prefix option" where
  "ParsePrefix s =
    (case split_last CHR ''/'' s of
       None \<Rightarrow> None
     | Some (l, bitsStr) \<Rightarrow>
        (case ParseAddr l of
           None \<Rightarrow> None
         | Some ip \<Rightarrow>
            if Is6 ip \<and> Zone ip \<noteq> [] then None
            else if length bitsStr > 1 \<and> (dec_digit (hd bitsStr) = None \<or> hd bitsStr = CHR ''0'')
            then None
            else (case all_digits_value bitsStr of
                None \<Rightarrow> None
              | Some b \<Rightarrow>
                 if b > (if Is6 ip then 128 else 32) then None
                 else Some (PrefixFrom ip (int b)))))"

definition splitAddrPort :: "string \<Rightarrow> (string \<times> string \<times> bool) option" where
  "splitAddrPort s =
    (case split_last CHR '':'' s of
       None \<Rightarrow> None
     | Some (ip, port) \<Rightarrow>
        if ip = [] \<or> port = [] then None
        else if hd ip = CHR ''['' then
          if length ip < 2 \<or> last ip \<noteq> CHR '']'' then None
          else Some (butlast (tl ip), port, True)
        else Some (ip, port, False))"

text \<open>\<open>ParseAddrPort\<close>, of which the program keeps the address only.\<close>

definition ParseAddrPort :: "string \<Rightarrow> (Addr \<times> nat) option" where
  "ParseAddrPort s =
    (case splitAddrPort s of
       None \<Rightarrow> None
     | Some (ip, port, v6) \<Rightarrow>
        (case all_digits_value port of
           None \<Rightarrow> None
         | Some p \<Rightarrow>
            if p \<ge> 2 ^ 16 then None
            else (case ParseAddr ip of
                None \<Rightarrow> None
              | Some a \<Rightarrow>
                 if v6 \<and> Is4 a then None
                 else if \<not> v6 \<and> Is6 a then None
                 else Some (a, p))))"

section \<open>Parsed addresses are valid\<close>

lemma parse_ipv6_valid: "parse_ipv6 s = Some a \<Longrightarrow> Is6 a"
  by (auto simp: parse_ipv6_def Let_def split: option.splits if_splits prod.splits)

lemma ParseAddr_valid: "ParseAddr s = Some a \<Longrightarrow> IsValid a"
  by (auto simp: ParseAddr_def parse_ipv4_def IsValid_def dest: parse_ipv6_valid
      split: option.splits if_splits)

lemma ParseAddrPort_valid: "ParseAddrPort s = Some (a, p) \<Longrightarrow> IsValid a"
  by (auto simp: ParseAddrPort_def dest: ParseAddr_valid split: option.splits if_splits)

end
