(* ===== verification/Http.thy ===== *)
theory Http imports Json Netip "HOL-Library.Char_ord" "HOL-Library.List_Lexorder" begin

text \<open>
  What the program uses of Go's \<open>net/http\<close> and \<open>net/url\<close>: requests and responses, the decoding of
  a query string, and the \<open>ServeMux\<close> that dispatches on method and path. A pattern is a method,
  a space and a path whose segments are literals or \<open>{name}\<close>; \<open>GET\<close> also serves \<open>HEAD\<close>, an
  unclean path is redirected, a path that is registered for other methods only draws 405.
\<close>

record response =
  rs_status :: int
  rs_headers :: "(string, string) gomap"
  rs_body :: string

text \<open>
  \<open>rq_path\<close> is the path as sent. The body is the bytes that arrive before the stream ends, and
  whether it ends in an error.
\<close>

record request =
  rq_method :: string
  rq_path :: string
  rq_rawquery :: string
  rq_remote :: string
  rq_forwarded :: "string list"
  rq_body :: string
  rq_body_fails :: bool

section \<open>Percent-decoding and query strings\<close>

fun unescape :: "bool \<Rightarrow> string \<Rightarrow> string option" where
  "unescape form [] = Some []"
| "unescape form (c # cs) =
    (if c = CHR ''%'' then
       (case cs of
          a # b # r \<Rightarrow>
            (case (hex_val a, hex_val b) of
               (Some x, Some y) \<Rightarrow> map_option (Cons (char_of (16 * x + y))) (unescape form r)
             | _ \<Rightarrow> None)
        | _ \<Rightarrow> None)
     else map_option (Cons (if form \<and> c = CHR ''+'' then CHR '' '' else c)) (unescape form cs))"

definition query_pair :: "string \<Rightarrow> (string \<times> string) option" where
  "query_pair piece =
    (if piece = [] \<or> CHR '';'' \<in> set piece then None
     else let (k, v) = (case split_first CHR ''='' piece of Some kv \<Rightarrow> kv | None \<Rightarrow> (piece, []))
       in case (unescape True k, unescape True v) of
            (Some k', Some v') \<Rightarrow> Some (k', v')
          | _ \<Rightarrow> None)"

fun query_pairs :: "string list \<Rightarrow> (string \<times> string) list" where
  "query_pairs [] = []"
| "query_pairs (p # ps) = (case query_pair p of None \<Rightarrow> query_pairs ps | Some kv \<Rightarrow> kv # query_pairs ps)"

fun add_values :: "(string \<times> string) list \<Rightarrow> (string, string list) gomap \<Rightarrow> (string, string list) gomap" where
  "add_values [] m = m"
| "add_values ((k, v) # kvs) m =
    add_values kvs (map_put k ((case map_of m k of None \<Rightarrow> [] | Some vs \<Rightarrow> vs) @ [v]) m)"

text \<open>\<open>URL.Query\<close>: pieces that do not decode are dropped.\<close>

definition url_Query :: "string \<Rightarrow> (string, string list) gomap" where
  "url_Query raw = add_values (query_pairs (split_on CHR ''&'' raw)) []"

lemma map_of_add_values:
  "map_of (add_values kvs m) k =
    (case (map_of m k, map snd (filter (\<lambda>kv. fst kv = k) kvs)) of
       (None, []) \<Rightarrow> None
     | (None, vs) \<Rightarrow> Some vs
     | (Some us, vs) \<Rightarrow> Some (us @ vs))"
  by (induction kvs m rule: add_values.induct) (auto split: option.splits list.splits)

lemma url_Query_values:
  "map_of (url_Query raw) k =
    (let vs = map snd (filter (\<lambda>kv. fst kv = k) (query_pairs (split_on CHR ''&'' raw)))
     in if vs = [] then None else Some vs)"
  by (simp add: url_Query_def map_of_add_values Let_def split: list.split)

section \<open>The dispatcher\<close>

definition segments :: "string \<Rightarrow> string list" where
  "segments path = split_on CHR ''/'' (drop 1 path)"

definition clean_path :: "string \<Rightarrow> bool" where
  "clean_path p \<longleftrightarrow> take 1 p = ''/'' \<and>
    list_all (\<lambda>s. s \<notin> {[], ''.'', ''..''}) (butlast (segments p)) \<and>
    last (segments p) \<notin> {''.'', ''..''}"

definition segment_value :: "string \<Rightarrow> string" where
  "segment_value s = (case unescape False s of None \<Rightarrow> s | Some t \<Rightarrow> t)"

fun match_segments :: "string list \<Rightarrow> string list \<Rightarrow> string list option" where
  "match_segments [] [] = Some []"
| "match_segments (p # ps) (s # ss) =
    (if take 1 p = ''{'' then
       (if s = [] \<or> s = ''/'' then None else map_option (Cons s) (match_segments ps ss))
     else if p = s then match_segments ps ss else None)"
| "match_segments _ _ = None"

definition pattern_method :: "string \<Rightarrow> string" where
  "pattern_method pat = takeWhile (\<lambda>c. c \<noteq> CHR '' '') pat"

definition pattern_path :: "string \<Rightarrow> string" where
  "pattern_path pat = drop 1 (dropWhile (\<lambda>c. c \<noteq> CHR '' '') pat)"

definition match_path :: "string \<Rightarrow> string \<Rightarrow> string list option" where
  "match_path pat path = match_segments (segments (pattern_path pat)) (map segment_value (segments path))"

definition method_matches :: "string \<Rightarrow> string \<Rightarrow> bool" where
  "method_matches pat m \<longleftrightarrow> pattern_method pat = m \<or> pattern_method pat = ''GET'' \<and> m = ''HEAD''"

fun mux_find :: "(string \<times> 'h) list \<Rightarrow> string \<Rightarrow> string \<Rightarrow> ('h \<times> string list) option" where
  "mux_find [] m path = None"
| "mux_find ((pat, h) # rest) m path =
    (case match_path pat path of
       Some vs \<Rightarrow> if method_matches pat m then Some (h, vs) else mux_find rest m path
     | None \<Rightarrow> mux_find rest m path)"

definition allowed_methods :: "(string \<times> 'h) list \<Rightarrow> string \<Rightarrow> string list" where
  "allowed_methods mux path =
    sort (remdups (concat (map
      (\<lambda>(pat, h). if pattern_method pat = ''GET'' then [''GET'', ''HEAD''] else [pattern_method pat])
      (filter (\<lambda>(pat, h). match_path pat path \<noteq> None) mux))))"

definition http_Error :: "string \<Rightarrow> int \<Rightarrow> response" where
  "http_Error msg code =
    \<lparr>rs_status = code,
     rs_headers = [(''Content-Type'', ''text/plain; charset=utf-8''), (''X-Content-Type-Options'', ''nosniff'')],
     rs_body = msg @ [CHR 0x0A]\<rparr>"

definition method_not_allowed :: "string list \<Rightarrow> response" where
  "method_not_allowed ms =
    (let e = http_Error ''Method Not Allowed'' 405
     in e\<lparr>rs_headers := (''Allow'', join '', '' ms) # rs_headers e\<rparr>)"

text \<open>The dispatcher's choice: a redirect of an unclean path, a handler, 405 or 404.\<close>

datatype 'h dispatch = Redirect | Found 'h "string list" | NoMethod "string list" | NoPath

definition mux_dispatch :: "(string \<times> 'h) list \<Rightarrow> request \<Rightarrow> 'h dispatch" where
  "mux_dispatch mux r =
    (if rq_method r \<noteq> ''CONNECT'' \<and> \<not> clean_path (rq_path r) then Redirect
     else case mux_find mux (rq_method r) (rq_path r) of
       Some (h, vs) \<Rightarrow> Found h vs
     | None \<Rightarrow>
         let ms = allowed_methods mux (rq_path r)
         in if ms \<noteq> [] then NoMethod ms else NoPath)"

section \<open>Text that contains no separator\<close>

lemma match_path_literal:
  "match_segments ps ss = Some vs \<Longrightarrow> list_all (\<lambda>p. take 1 p \<noteq> ''{'') ps \<Longrightarrow> ss = ps \<and> vs = []"
  by (induction ps ss arbitrary: vs rule: match_segments.induct) (auto split: if_splits)

lemma match_segments_length: "match_segments ps ss = Some vs \<Longrightarrow> length ps = length ss"
  by (induction ps ss arbitrary: vs rule: match_segments.induct) (auto split: if_splits)

end
