(* ===== verification/Query.thy ===== *)
theory Query imports Reject Json begin

text \<open>
  \<open>internal/query/query.go\<close>: the blinded lookup. A query is the first \<open>Bits\<close> bits of a
  lookup identifier; \<open>Cap\<close> bounds how many a client may reveal, \<open>Parse\<close> reads the two
  URL parameters, \<open>Range\<close> is the interval of the 32-bit prefix column a query selects, and
  \<open>Matches\<close> is the filter over whole identifiers. \<open>internal/store/prefix.go\<close>, which fills the
  column, is modelled here too. The specification of a match is \<open>agree_on\<close>: the first
  \<open>Bits\<close> bits, most significant first, are equal.
\<close>

unbundle bit_operations_syntax

section \<open>Constants and the query\<close>

definition KMin :: int where "KMin = 20"
definition PrefixColumnBits :: nat where "PrefixColumnBits = 32"
definition LookupIDBits :: nat where "LookupIDBits = 256"

record query =
  q_Bits :: nat
  q_Prefix :: "32 word"
  q_Full :: bytes

section \<open>The cap\<close>

text \<open>\<open>bits.Len64\<close>: the number of bits needed to write a number.\<close>

fun bits_Len :: "nat \<Rightarrow> nat" where
  "bits_Len n = (if n = 0 then 0 else Suc (bits_Len (n div 2)))"

declare bits_Len.simps [simp del]

definition capFor :: "int \<Rightarrow> int \<Rightarrow> nat" where
  "capFor recordCount k =
    (if k \<le> 0 \<or> recordCount < k then 0 else bits_Len (nat (recordCount div k)) - 1)"

definition query_Cap :: "int \<Rightarrow> nat" where
  "query_Cap recordCount = capFor recordCount KMin"

section \<open>Parsing\<close>

definition nibble :: "char \<Rightarrow> byte option" where
  "nibble c =
    (let n = of_char c :: nat in
     if 48 \<le> n \<and> n \<le> 57 then Some (byte_of (n - 48))
     else if 97 \<le> n \<and> n \<le> 102 then Some (byte_of (n - 97 + 10))
     else if 65 \<le> n \<and> n \<le> 70 then Some (byte_of (n - 65 + 10))
     else None)"

text \<open>\<open>strconv.ParseUint(s, 10, 32)\<close>: one or more decimal digits, at most 32 bits of value.\<close>

definition ParseUint32 :: "string \<Rightarrow> nat option" where
  "ParseUint32 s =
    (if s \<noteq> [] \<and> list_all is_digit s \<and> digits_value s < 2 ^ 32
     then Some (digits_value s) else None)"

text \<open>The loop that packs the hex characters into \<open>full\<close>, from index \<open>i\<close> on.\<close>

fun pack_nibbles :: "nat \<Rightarrow> string \<Rightarrow> bytes \<Rightarrow> bytes option" where
  "pack_nibbles i [] full = Some full"
| "pack_nibbles i (c # cs) full =
    (case nibble c of
       None \<Rightarrow> None
     | Some v \<Rightarrow>
         pack_nibbles (Suc i) cs
           (full[i div 2 := full ! (i div 2) OR (if even i then push_bit 4 v else v)]))"

text \<open>\<open>newQuery\<close> clears the spare low bits of the last byte and zero-extends to the column.\<close>

definition clear_spare :: "bytes \<Rightarrow> nat \<Rightarrow> bytes" where
  "clear_spare full nbits =
    (let spare = length full * 8 - nbits in
     if spare > 0
     then full[length full - 1 := full ! (length full - 1) AND NOT (push_bit spare 1 - 1)]
     else full)"

definition be_Uint32 :: "bytes \<Rightarrow> 32 word" where
  "be_Uint32 b = of_nat (be_value (take 4 b))"

definition newQuery :: "bytes \<Rightarrow> nat \<Rightarrow> query" where
  "newQuery full nbits =
    (let full' = clear_spare full nbits in
     \<lparr>q_Bits = nbits,
      q_Prefix = be_Uint32 (take 4 (full' @ replicate 4 0)),
      q_Full = full'\<rparr>)"

definition query_Parse ::
  "string \<Rightarrow> bool \<Rightarrow> string \<Rightarrow> bool \<Rightarrow> nat \<Rightarrow> QueryReason + query" where
  "query_Parse prefixParam prefixPresent bitsParam bitsPresent maxBits =
    (if \<not> bitsPresent then Inl ReasonBitsMissing
     else if bitsParam = [] \<or> (length bitsParam > 1 \<and> hd bitsParam = CHR ''0'')
     then Inl ReasonBitsMalformed
     else case ParseUint32 bitsParam of
       None \<Rightarrow> Inl ReasonBitsMalformed
     | Some nbits \<Rightarrow>
         if nbits > maxBits then Inl ReasonBitsTooPrecise
         else if nbits > LookupIDBits then Inl ReasonBitsTooPrecise
         else if \<not> prefixPresent \<and> nbits > 0 then Inl ReasonPrefixMissing
         else
           let prefixParam' = (if prefixPresent then prefixParam else []) in
           if length prefixParam' \<noteq> (nbits + 3) div 4 then Inl ReasonPrefixLength
           else case pack_nibbles 0 prefixParam' (replicate ((nbits + 7) div 8) 0) of
             None \<Rightarrow> Inl ReasonPrefixNotHex
           | Some full \<Rightarrow> Inr (newQuery full nbits))"

definition query_FromBits :: "bytes \<Rightarrow> nat \<Rightarrow> QueryReason + query" where
  "query_FromBits prefix nbits =
    (if nbits > LookupIDBits then Inl ReasonBitsTooPrecise
     else let need = (nbits + 7) div 8 in
       if length prefix < need then Inl ReasonPrefixLength
       else Inr (newQuery (take need prefix) nbits))"

section \<open>Selecting\<close>

definition query_Range :: "query \<Rightarrow> int \<times> int" where
  "query_Range q =
    (let eb = (if q_Bits q > PrefixColumnBits then PrefixColumnBits else q_Bits q);
         span = push_bit (PrefixColumnBits - eb) (1 :: 64 word) - 1
     in (uint (q_Prefix q), uint ((ucast (q_Prefix q) :: 64 word) OR span)))"

definition query_NeedsPostFilter :: "query \<Rightarrow> bool" where
  "query_NeedsPostFilter q \<longleftrightarrow> q_Bits q > PrefixColumnBits"

definition query_Matches :: "query \<Rightarrow> bytes \<Rightarrow> bool" where
  "query_Matches q lookupID =
    (if length lookupID * 8 < q_Bits q then False
     else let whole = q_Bits q div 8 in
       if take whole (q_Full q) \<noteq> take whole lookupID then False
       else let r = q_Bits q mod 8 in
         if r \<noteq> 0
         then let m = push_bit (8 - r) (0xFF :: byte) in
           q_Full q ! whole AND m = lookupID ! whole AND m
         else True)"

text \<open>\<open>internal/store/prefix.go\<close>\<close>

definition prefix32 :: "bytes \<Rightarrow> int" where
  "prefix32 lookupID = uint (be_Uint32 lookupID)"

section \<open>The cap is the floored logarithm\<close>

lemma bits_Len_0 [simp]: "bits_Len 0 = 0"
  by (subst bits_Len.simps) simp

lemma bits_Len_bounds: "0 < n \<Longrightarrow> 0 < bits_Len n \<and> 2 ^ (bits_Len n - 1) \<le> n \<and> n < 2 ^ bits_Len n"
proof (induction n rule: bits_Len.induct)
  case (1 n)
  have unfold: "bits_Len n = Suc (bits_Len (n div 2))"
    using "1.prems" by (subst bits_Len.simps) simp
  show ?case
  proof (cases "n div 2 = 0")
    case True
    with "1.prems" have "n = 1" by auto
    with unfold show ?thesis by simp
  next
    case False
    then obtain m where m: "bits_Len (n div 2) = Suc m"
      using 1 by (metis gr0_implies_Suc gr_zeroI)
    with 1 False have "2 ^ m \<le> n div 2" and "n div 2 < 2 ^ Suc m" by auto
    then have "2 * 2 ^ m \<le> n" and "n < 2 * 2 ^ Suc m" by linarith+
    with unfold m show ?thesis by simp
  qed
qed

lemma capFor_bounds:
  assumes "0 < k" and "k \<le> c"
  shows "k * 2 ^ capFor c k \<le> c \<and> c < k * 2 ^ (capFor c k + 1)"
proof -
  let ?n = "nat (c div k)"
  have "1 \<le> c div k" using assms by (simp add: pos_imp_zdiv_pos_iff int_one_le_iff_zero_less)
  then have n: "0 < ?n" "int ?n = c div k" by auto
  note b = bits_Len_bounds [OF n(1)]
  have cap: "capFor c k = bits_Len ?n - 1" using assms by (simp add: capFor_def)
  from b have "int (2 ^ (bits_Len ?n - 1)) \<le> int ?n" and "int ?n < int (2 ^ bits_Len ?n)"
    by (simp_all only: of_nat_le_iff of_nat_less_iff)
  with n(2) have lo: "2 ^ capFor c k \<le> c div k" and hi: "c div k + 1 \<le> 2 ^ (capFor c k + 1)"
    using b by (simp_all add: cap)
  have "k * 2 ^ capFor c k \<le> k * (c div k)" using lo assms by simp
  also have "\<dots> \<le> c" using assms pos_mod_sign [of k c] mult_div_mod_eq [of k c] by linarith
  finally have 1: "k * 2 ^ capFor c k \<le> c" .
  have "c < k * (c div k + 1)"
    using mult_div_mod_eq [of k c] pos_mod_bound [OF assms(1), of c]
    by (simp only: distrib_left)
  also have "\<dots> \<le> k * 2 ^ (capFor c k + 1)" using hi assms by (intro mult_left_mono) auto
  finally show ?thesis using 1 by simp
qed

section \<open>A match is agreement on the first bits\<close>

definition bit_of :: "bytes \<Rightarrow> nat \<Rightarrow> bool" where
  "bit_of b i = bit (b ! (i div 8)) (7 - i mod 8)"

definition agree_on :: "nat \<Rightarrow> bytes \<Rightarrow> bytes \<Rightarrow> bool" where
  "agree_on n a b \<longleftrightarrow> (\<forall>i < n. bit_of a i = bit_of b i)"

lemma agree_on_refl [simp]: "agree_on n a a"
  by (simp add: agree_on_def)

lemma agree_on_sym: "agree_on n a b \<Longrightarrow> agree_on n b a"
  by (simp add: agree_on_def)

lemma agree_on_trans: "agree_on n a b \<Longrightarrow> agree_on n b c \<Longrightarrow> agree_on n a c"
  by (simp add: agree_on_def)

lemma agree_on_mono: "agree_on n a b \<Longrightarrow> m \<le> n \<Longrightarrow> agree_on m a b"
  by (simp add: agree_on_def)

lemma byte_bits_eq: "(a :: byte) = b \<longleftrightarrow> (\<forall>j < 8. bit a (7 - j) = bit b (7 - j))"
proof
  assume bits: "\<forall>j < 8. bit a (7 - j) = bit b (7 - j)"
  show "a = b"
  proof (rule bit_word_eqI)
    fix n assume "n < LENGTH(8)"
    with bits [rule_format, of "7 - n"] show "bit a n = bit b n" by simp
  qed
qed simp

lemma masked_byte_eq:
  assumes "0 < r" and "r < 8"
  shows "a AND push_bit (8 - r) (0xFF :: byte) = b AND push_bit (8 - r) 0xFF \<longleftrightarrow>
    (\<forall>j < r. bit a (7 - j) = bit b (7 - j))"
proof -
  have ff: "(0xFF :: byte) = mask 8" by (simp add: mask_eq_exp_minus_1)
  have bits: "bit (x AND push_bit (8 - r) (0xFF :: byte)) n \<longleftrightarrow> bit x n \<and> 8 - r \<le> n \<and> n < 8"
    for x n by (auto simp: bit_simps ff dest: bit_imp_le_length)
  show ?thesis
  proof
    assume eq: "a AND push_bit (8 - r) (0xFF :: byte) = b AND push_bit (8 - r) 0xFF"
    show "\<forall>j < r. bit a (7 - j) = bit b (7 - j)"
    proof (intro allI impI)
      fix j assume "j < r"
      with assms have "8 - r \<le> 7 - j" "7 - j < 8" by auto
      then show "bit a (7 - j) = bit b (7 - j)" using bits eq by metis
    qed
  next
    assume all: "\<forall>j < r. bit a (7 - j) = bit b (7 - j)"
    show "a AND push_bit (8 - r) (0xFF :: byte) = b AND push_bit (8 - r) 0xFF"
    proof (rule bit_word_eqI)
      fix n assume "n < LENGTH(8)"
      then have "8 - r \<le> n \<Longrightarrow> bit a n = bit b n"
        using all [rule_format, of "7 - n"] assms by simp
      then show "bit (a AND push_bit (8 - r) (0xFF :: byte)) n =
          bit (b AND push_bit (8 - r) 0xFF) n"
        using bits by blast
    qed
  qed
qed

lemma nth_eq_bits:
  "a ! w = b ! w \<longleftrightarrow> (\<forall>j < 8. bit_of a (8 * w + j) = bit_of b (8 * w + j))" for a b :: bytes
  by (subst byte_bits_eq) (simp add: bit_of_def)

lemma take_eq_agree:
  assumes "w \<le> length a" and "w \<le> length b"
  shows "take w a = take w b \<longleftrightarrow> agree_on (8 * w) a b"
  using assms
proof (induction w)
  case 0
  then show ?case by (simp add: agree_on_def)
next
  case (Suc w)
  then have "take (Suc w) a = take (Suc w) b \<longleftrightarrow> take w a = take w b \<and> a ! w = b ! w"
    by (auto simp: take_Suc_conv_app_nth)
  also have "\<dots> \<longleftrightarrow> agree_on (8 * w) a b \<and> (\<forall>j < 8. bit_of a (8 * w + j) = bit_of b (8 * w + j))"
    using Suc by (simp add: nth_eq_bits)
  also have "\<dots> \<longleftrightarrow> agree_on (8 * Suc w) a b"
  proof -
    have "i < 8 * w \<or> (\<exists>j < 8. i = 8 * w + j)" if "i < 8 * Suc w" for i
      using that by presburger
    then show ?thesis unfolding agree_on_def by fastforce
  qed
  finally show ?case .
qed

lemma agree_on_split:
  "agree_on n a b \<longleftrightarrow> agree_on (8 * (n div 8)) a b \<and>
    (\<forall>j < n mod 8. bit (a ! (n div 8)) (7 - j) = bit (b ! (n div 8)) (7 - j))"
proof -
  let ?w = "n div 8" and ?r = "n mod 8"
  have n: "n = 8 * ?w + ?r" by simp
  have "i < 8 * ?w \<or> (\<exists>j < ?r. i = 8 * ?w + j)" if "i < n" for i
    using that n by presburger
  moreover have "bit_of x (8 * ?w + j) = bit (x ! ?w) (7 - j)" if "j < ?r" for x :: bytes and j
  proof -
    have "j < 8" using that by (meson less_trans mod_less_divisor zero_less_numeral)
    then show ?thesis by (simp add: bit_of_def)
  qed
  ultimately show ?thesis unfolding agree_on_def
    by (smt (verit) n add_less_cancel_left trans_less_add1)
qed

lemma query_Matches_agree:
  assumes "length (q_Full q) = (q_Bits q + 7) div 8"
  shows "query_Matches q lookupID \<longleftrightarrow>
    q_Bits q \<le> 8 * length lookupID \<and> agree_on (q_Bits q) (q_Full q) lookupID"
proof (cases "length lookupID * 8 < q_Bits q")
  case True
  then show ?thesis by (simp add: query_Matches_def)
next
  case False
  let ?n = "q_Bits q" and ?w = "q_Bits q div 8" and ?r = "q_Bits q mod 8"
  have "?w \<le> length (q_Full q)" "?w \<le> length lookupID" using assms False by linarith+
  note whole = take_eq_agree [OF this]
  have r8: "?r < 8" by simp
  show ?thesis
  proof (cases "?r = 0")
    case True
    with False whole show ?thesis
      by (simp add: query_Matches_def Let_def agree_on_split [of ?n])
  next
    case r: False
    with False whole show ?thesis
      using masked_byte_eq [of ?r "q_Full q ! ?w" "lookupID ! ?w"]
      by (simp add: query_Matches_def Let_def agree_on_split [of ?n])
  qed
qed

section \<open>Clearing the spare bits\<close>

lemma length_clear_spare [simp]: "length (clear_spare full n) = length full"
  by (simp add: clear_spare_def Let_def)

lemma bit_clear_low:
  "bit (x AND NOT (2 ^ s - 1) :: byte) k \<longleftrightarrow> bit x k \<and> s \<le> k"
proof -
  have "2 ^ s - 1 = (mask s :: byte)" by (simp add: mask_eq_exp_minus_1)
  then show ?thesis by (auto simp: bit_simps dest: bit_imp_le_length)
qed

lemma bit_of_clear_spare:
  assumes "length full = (n + 7) div 8" and "i < 8 * length full"
  shows "bit_of (clear_spare full n) i \<longleftrightarrow> bit_of full i \<and> i < n"
proof -
  let ?s = "length full * 8 - n"
  have s8: "?s < 8" and n: "n + ?s = 8 * length full" using assms(1) by linarith+
  show ?thesis
  proof (cases "?s = 0")
    case True
    with assms n show ?thesis by (simp add: clear_spare_def)
  next
    case False
    show ?thesis
    proof (cases "i div 8 = length full - 1")
      case True
      have "i = 8 * (length full - 1) + i mod 8" using True by (metis mult_div_mod_eq)
      moreover have "i mod 8 < 8" "0 < length full" using assms(2) by auto
      ultimately have "?s \<le> 7 - i mod 8 \<longleftrightarrow> i < n" using n s8 by linarith
      with True False assms s8 show ?thesis
        by (simp add: clear_spare_def Let_def bit_of_def bit_clear_low)
    next
      case other: False
      with assms(2) have "i div 8 < length full - 1" by linarith
      then have "i < n" using n s8 by linarith
      with other False show ?thesis by (simp add: clear_spare_def Let_def bit_of_def)
    qed
  qed
qed

lemma newQuery_fields:
  "q_Bits (newQuery full n) = n" "q_Full (newQuery full n) = clear_spare full n"
  by (simp_all add: newQuery_def Let_def)

lemma newQuery_agree:
  assumes "length full = (n + 7) div 8"
  shows "agree_on n (q_Full (newQuery full n)) full"
proof -
  have "n \<le> 8 * length full" using assms by linarith
  with assms show ?thesis
    by (simp add: agree_on_def newQuery_fields bit_of_clear_spare)
qed

lemma newQuery_Matches:
  assumes "length full = (n + 7) div 8"
  shows "query_Matches (newQuery full n) lookupID \<longleftrightarrow>
    n \<le> 8 * length lookupID \<and> agree_on n full lookupID"
proof -
  have "query_Matches (newQuery full n) lookupID \<longleftrightarrow>
    n \<le> 8 * length lookupID \<and> agree_on n (q_Full (newQuery full n)) lookupID"
    using assms by (simp add: query_Matches_agree newQuery_fields)
  also have "agree_on n (q_Full (newQuery full n)) lookupID \<longleftrightarrow> agree_on n full lookupID"
    using newQuery_agree [OF assms] by (blast intro: agree_on_trans agree_on_sym)
  finally show ?thesis .
qed

section \<open>The prefix column\<close>

lemma bit_nat_concat:
  fixes x y :: nat
  assumes "y < 256"
  shows "bit (x * 256 + y) k \<longleftrightarrow> (if k < 8 then bit y k else bit x (k - 8))"
proof (cases "k < 8")
  case True
  then obtain j where j: "8 = k + Suc j" by (metis less_imp_Suc_add add_Suc_right)
  have "x * 256 + y = y + (x * 2 * 2 ^ j) * 2 ^ k"
    using arg_cong [OF j, of "\<lambda>n. (2 :: nat) ^ n"] by (simp add: power_add)
  then have "(x * 256 + y) div 2 ^ k = x * 2 * 2 ^ j + y div 2 ^ k"
    by (simp only: div_mult_self1 power_not_zero zero_neq_numeral [symmetric] not_False_eq_True)
  with True show ?thesis by (simp add: bit_iff_odd)
next
  case False
  then obtain j where "k = 8 + j" by (metis le_add_diff_inverse linorder_not_less)
  then have "(x * 256 + y) div 2 ^ k = (x * 256 + y) div 256 div 2 ^ (k - 8)"
    by (simp add: power_add div_mult2_eq)
  also have "(x * 256 + y) div 256 = x" using assms by simp
  finally show ?thesis using False by (simp add: bit_iff_odd)
qed

lemma bit_be_value:
  "k < 8 * length b \<Longrightarrow> bit (be_value b) k \<longleftrightarrow> bit (b ! (length b - 1 - k div 8)) (k mod 8)"
proof (induction b arbitrary: k rule: rev_induct)
  case Nil
  then show ?case by simp
next
  case (snoc w b)
  have w: "bit (unat w) k = bit w k" for k by (simp add: bit_unsigned_iff)
  show ?case
  proof (cases "k < 8")
    case True
    then show ?thesis by (simp add: bit_nat_concat w nth_append)
  next
    case False
    then obtain j where j: "k = 8 + j" by (metis le_add_diff_inverse linorder_not_less)
    with snoc.prems have "j < 8 * length b" by simp
    have "length (b @ [w]) - 1 - k div 8 = length b - 1 - j div 8" and "length b - 1 - j div 8 < length b"
      and "k mod 8 = j mod 8"
      using j \<open>j < 8 * length b\<close> by auto
    then have "(b @ [w]) ! (length (b @ [w]) - 1 - k div 8) = b ! (length b - 1 - j div 8)"
      by (simp only: nth_append if_True)
    with snoc.IH [OF \<open>j < 8 * length b\<close>] j show ?thesis
      by (simp add: bit_nat_concat)
  qed
qed

text \<open>Bit \<open>31 - i\<close> of the column is bit \<open>i\<close> of the identifier, counted from the front.\<close>

lemma bit_be_Uint32:
  assumes "4 \<le> length b" and "i < 32"
  shows "bit (be_Uint32 b) (31 - i) \<longleftrightarrow> bit_of b i"
proof -
  have len: "length (take 4 b) = 4" using assms by simp
  have "31 - i < 32" by linarith
  then have "bit (be_Uint32 b) (31 - i) \<longleftrightarrow> bit (be_value (take 4 b)) (31 - i)"
    by (simp add: be_Uint32_def bit_simps)
  also have "\<dots> \<longleftrightarrow> bit (take 4 b ! (4 - 1 - (31 - i) div 8)) ((31 - i) mod 8)"
    using bit_be_value [of "31 - i" "take 4 b"] assms len by simp
  moreover have "4 - 1 - (31 - i) div 8 = i div 8" and "(31 - i) mod 8 = 7 - i mod 8"
  proof -
    define w j where "w = i div 8" and "j = i mod 8"
    have "i = 8 * w + j" "j < 8" by (simp_all add: w_def j_def)
    moreover from this assms(2) have "w < 4" by linarith
    ultimately have "31 - i = (7 - j) + 8 * (3 - w)" by linarith
    then have "(31 - i) div 8 = 3 - w" and "(31 - i) mod 8 = 7 - j" by simp_all
    with \<open>w < 4\<close> show "4 - 1 - (31 - i) div 8 = i div 8" "(31 - i) mod 8 = 7 - i mod 8"
      by (simp_all add: w_def j_def)
  qed
  ultimately show ?thesis using assms(2) by (simp add: bit_of_def)
qed

lemma newQuery_prefix_bit:
  assumes "length full = (n + 7) div 8" and "i < 32"
  shows "bit (q_Prefix (newQuery full n)) (31 - i) \<longleftrightarrow> i < n \<and> bit_of full i"
proof -
  let ?f = "clear_spare full n" and ?w = "take 4 (clear_spare full n @ replicate 4 0)"
  have "bit (q_Prefix (newQuery full n)) (31 - i) \<longleftrightarrow> bit_of ?w i"
    using bit_be_Uint32 [of ?w i] assms(2) by (simp add: newQuery_def Let_def)
  also have "\<dots> \<longleftrightarrow> i < n \<and> bit_of full i"
  proof (cases "i < 8 * length full")
    case True
    then have "i div 8 < length full" "i div 8 < 4" using assms(2) by auto
    then have "bit_of ?w i = bit_of ?f i" by (simp add: bit_of_def nth_append)
    with bit_of_clear_spare [OF assms(1) True] show ?thesis by blast
  next
    case False
    then have "length full \<le> i div 8" "i div 8 < 4" "n \<le> i" using assms by auto
    then show ?thesis by (simp add: bit_of_def nth_append)
  qed
  finally show ?thesis .
qed

text \<open>
  An interval whose lower end has its low \<open>s\<close> bits clear and whose upper end has them set
  holds exactly the words that agree with it above bit \<open>s\<close>.
\<close>

lemma aligned_interval:
  fixes p v :: nat
  assumes "p mod 2 ^ s = 0"
  shows "p \<le> v \<and> v \<le> p + (2 ^ s - 1) \<longleftrightarrow> v div 2 ^ s = p div 2 ^ s"
proof -
  have p: "p = 2 ^ s * (p div 2 ^ s)" using assms by (metis add.right_neutral mult_div_mod_eq)
  have v: "v = 2 ^ s * (v div 2 ^ s) + v mod 2 ^ s" and r: "v mod 2 ^ s < (2 :: nat) ^ s" by simp_all
  show ?thesis
  proof
    assume "p \<le> v \<and> v \<le> p + (2 ^ s - 1)"
    moreover have "0 < (2 :: nat) ^ s" by simp
    ultimately have "2 ^ s * (p div 2 ^ s) \<le> v" and "v < 2 ^ s * (p div 2 ^ s) + 2 ^ s"
      using p by linarith+
    then show "v div 2 ^ s = p div 2 ^ s"
      by (intro div_nat_eqI) (simp_all add: mult.commute algebra_simps)
  next
    assume "v div 2 ^ s = p div 2 ^ s"
    with p v have "v = p + v mod 2 ^ s" by metis
    with r show "p \<le> v \<and> v \<le> p + (2 ^ s - 1)" by (intro conjI) linarith+
  qed
qed

lemma word_low_clear:
  "(\<forall>k < s. \<not> bit p k) \<longleftrightarrow> unat p mod 2 ^ s = 0" for p :: "'a :: len word"
proof -
  have "unat p mod 2 ^ s = 0 \<longleftrightarrow> take_bit s (unat p) = 0" by (simp add: take_bit_eq_mod)
  also have "\<dots> \<longleftrightarrow> (\<forall>k. \<not> bit (take_bit s (unat p)) k)"
    by (auto simp: bit_eq_iff)
  also have "\<dots> \<longleftrightarrow> (\<forall>k < s. \<not> bit p k)"
    by (auto simp: bit_simps dest: bit_imp_le_length)
  finally show ?thesis by simp
qed

lemma word_div_eq_bits:
  fixes v p :: "32 word"
  assumes "m \<le> 32"
  shows "unat v div 2 ^ (32 - m) = unat p div 2 ^ (32 - m) \<longleftrightarrow>
    (\<forall>i < m. bit v (31 - i) = bit p (31 - i))"
proof -
  have "unat v div 2 ^ (32 - m) = unat p div 2 ^ (32 - m) \<longleftrightarrow>
      (\<forall>k. bit v (32 - m + k) = bit p (32 - m + k))"
    by (auto simp: drop_bit_eq_div [symmetric] bit_eq_iff bit_simps dest: bit_imp_le_length)
  also have "\<dots> \<longleftrightarrow> (\<forall>i < m. bit v (31 - i) = bit p (31 - i))"
  proof (rule iffI; intro allI impI)
    fix i assume all: "\<forall>k. bit v (32 - m + k) = bit p (32 - m + k)" and "i < m"
    then have "32 - m + (m - 1 - i) = 31 - i" using assms by linarith
    with all show "bit v (31 - i) = bit p (31 - i)" by metis
  next
    fix k assume all: "\<forall>i < m. bit v (31 - i) = bit p (31 - i)"
    show "bit v (32 - m + k) = bit p (32 - m + k)"
    proof (cases "k < m")
      case True
      then have "m - 1 - k < m" and "31 - (m - 1 - k) = 32 - m + k" using assms by linarith+
      with all show ?thesis by metis
    next
      case False
      then have "\<not> 32 - m + k < 32" using assms by linarith
      then show ?thesis by (auto dest!: bit_imp_le_length)
    qed
  qed
  finally show ?thesis .
qed

lemma unat_mask_min: "unat (mask n :: 'a :: len word) = 2 ^ min LENGTH('a) n - 1"
proof -
  have "unat (mask n :: 'a word) = mask (min LENGTH('a) n)"
    by (rule bit_eqI) (auto simp: bit_simps)
  then show ?thesis by (simp add: mask_eq_exp_minus_1)
qed

lemma query_Range_interval:
  assumes "\<forall>k < 32 - min (q_Bits q) 32. \<not> bit (q_Prefix q) k"
  shows "query_Range q = (int (unat (q_Prefix q)),
    int (unat (q_Prefix q) + (2 ^ (32 - min (q_Bits q) 32) - 1)))"
proof -
  let ?s = "32 - min (q_Bits q) 32" and ?p = "q_Prefix q"
  let ?P = "ucast ?p :: 64 word"
  have eb: "(if q_Bits q > 32 then 32 else q_Bits q) = min (q_Bits q) 32"
    by simp
  have span: "push_bit ?s (1 :: 64 word) - 1 = mask ?s"
    by (simp add: mask_eq_exp_minus_1 push_bit_eq_mult)
  have "?P OR mask ?s = ?P + mask ?s"
    using assms by (intro disjunctive_add [symmetric]) (auto simp: bit_simps)
  moreover have "unat ?P = unat ?p" by (simp add: unsigned_ucast_eq take_bit_nat_eq_self_iff
      order.strict_trans [OF unsigned_less])
  moreover have "unat (mask ?s :: 64 word) = 2 ^ ?s - 1"
    by (simp add: unat_mask_min)
  moreover have "unat ?p < 2 ^ 32" using unsigned_less [of ?p] by simp
  moreover have "(2 :: nat) ^ ?s \<le> 2 ^ 32" by (intro power_increasing) auto
  moreover from calculation(4,5) have "(unat ?p + (2 ^ ?s - 1)) mod 2 ^ 64 = unat ?p + (2 ^ ?s - 1)"
    by (intro mod_less) simp
  ultimately have "unat (?P OR mask ?s) = unat ?p + (2 ^ ?s - 1)"
    by (simp add: unat_word_ariths)
  then show ?thesis
    by (simp only: query_Range_def Let_def eb span PrefixColumnBits_def uint_nat)
qed

text \<open>
  What a stored row must satisfy: the range query selects exactly the identifiers that agree
  with the prefix on its first \<open>min bits 32\<close> bits, so the column never misses a match, and
  up to 32 bits it needs no post-filter.
\<close>

lemma newQuery_low_clear:
  assumes "length full = (n + 7) div 8"
  shows "\<forall>k < 32 - min n 32. \<not> bit (q_Prefix (newQuery full n)) k"
proof (intro allI impI)
  fix k assume "k < 32 - min n 32"
  then have "31 - k < 32" "31 - (31 - k) = k" "\<not> 31 - k < n" by linarith+
  with newQuery_prefix_bit [OF assms, of "31 - k"]
  show "\<not> bit (q_Prefix (newQuery full n)) k" by simp
qed

lemma newQuery_Range_agree:
  assumes "length full = (n + 7) div 8" and "4 \<le> length lookupID"
  shows "(case query_Range (newQuery full n) of (lo, hi) \<Rightarrow>
      lo \<le> prefix32 lookupID \<and> prefix32 lookupID \<le> hi) \<longleftrightarrow> agree_on (min n 32) full lookupID"
proof -
  let ?q = "newQuery full n" and ?m = "min n 32"
  let ?p = "q_Prefix ?q" and ?v = "be_Uint32 lookupID"
  have low: "\<forall>k < 32 - min (q_Bits ?q) 32. \<not> bit ?p k"
    using newQuery_low_clear [OF assms(1)] by (simp add: newQuery_fields)
  then have p: "unat ?p mod 2 ^ (32 - ?m) = 0"
    by (subst word_low_clear [symmetric]) (simp add: newQuery_fields)
  have "(case query_Range ?q of (lo, hi) \<Rightarrow> lo \<le> prefix32 lookupID \<and> prefix32 lookupID \<le> hi)
      \<longleftrightarrow> unat ?p \<le> unat ?v \<and> unat ?v \<le> unat ?p + (2 ^ (32 - ?m) - 1)"
    unfolding query_Range_interval [OF low]
    by (simp only: prefix32_def uint_nat of_nat_le_iff prod.case newQuery_fields)
  also have "\<dots> \<longleftrightarrow> unat ?v div 2 ^ (32 - ?m) = unat ?p div 2 ^ (32 - ?m)"
    by (rule aligned_interval [OF p])
  also have "\<dots> \<longleftrightarrow> (\<forall>i < ?m. bit ?v (31 - i) = bit ?p (31 - i))"
    by (rule word_div_eq_bits) simp
  also have "\<dots> \<longleftrightarrow> agree_on ?m full lookupID"
    using assms by (auto simp: agree_on_def bit_be_Uint32 newQuery_prefix_bit)
  finally show ?thesis .
qed

section \<open>What Parse returns\<close>

lemma nibble_bits: "nibble c = Some v \<Longrightarrow> bit v k \<Longrightarrow> k < 4"
proof -
  assume c: "nibble c = Some v" and k: "bit v k"
  have "unat v < 16" using c by (auto simp: nibble_def Let_def split: if_splits)
  moreover have "bit (unat v) k" using k by (simp add: bit_unsigned_iff)
  moreover have "(16 :: nat) \<le> 2 ^ k" if "4 \<le> k"
    using power_increasing [OF that, of "2 :: nat"] by simp
  ultimately show "k < 4" by (metis bit_iff_odd div_less even_zero linorder_not_less order.strict_trans2)
qed

lemma length_pack_nibbles: "pack_nibbles i cs full = Some full' \<Longrightarrow> length full' = length full"
  by (induction i cs full rule: pack_nibbles.induct) (auto split: option.splits)

lemma div_4_unique: "k = m + 4 * q \<Longrightarrow> m < 4 \<Longrightarrow> k div 4 = q \<and> k mod 4 = m" for k m q :: nat
  by simp

text \<open>One character sets the four bits it stands for and no others.\<close>

lemma bit_of_pack_step:
  assumes "nibble c = Some v" and "k < 8 * length full" and "i div 2 < length full"
  shows "bit_of (full[i div 2 := full ! (i div 2) OR (if even i then push_bit 4 v else v)]) k \<longleftrightarrow>
    bit_of full k \<or> (k div 4 = i \<and> bit v (3 - k mod 4))"
proof (cases "k div 8 = i div 2")
  case False
  then have "k div 4 \<noteq> i" by (metis div_mult2_eq mult_2_right numeral_Bit0)
  with False show ?thesis by (simp add: bit_of_def)
next
  case True
  define m where "m = k mod 8"
  have k: "k = 8 * (i div 2) + m" "m < 8" using True by (simp_all add: m_def) (metis mult_div_mod_eq)
  have "bit (if even i then push_bit 4 v else v) (7 - m) \<longleftrightarrow> k div 4 = i \<and> bit v (3 - k mod 4)"
  proof (cases "m < 4")
    case True
    have "k = m + 4 * (2 * (i div 2))" using k by simp
    with True have "k div 4 = 2 * (i div 2)" "k mod 4 = m" using div_4_unique by blast+
    moreover have "\<not> bit v (7 - m)" using nibble_bits [OF assms(1)] True by fastforce
    moreover have "7 - m - 4 = 3 - m" by simp
    ultimately show ?thesis using True by (auto simp: bit_simps elim!: evenE oddE)
  next
    case False
    then obtain j where j: "m = 4 + j" "j < 4" using k by (metis add_less_cancel_left le_Suc_ex
        linorder_not_less numeral_Bit0)
    have "k = j + 4 * (2 * (i div 2) + 1)" using k j by simp
    with j have "k div 4 = 2 * (i div 2) + 1" "k mod 4 = j" using div_4_unique by blast+
    with j show ?thesis by (auto simp: bit_simps elim!: evenE oddE)
  qed
  with True assms show ?thesis by (simp add: bit_of_def bit_or_iff m_def)
qed

text \<open>
  Hexadecimal digits, said without the code's \<open>nibble\<close>: the value of a character is its place
  among the sixteen digits, in lower case or in upper case.
\<close>

definition hex_place :: "char \<Rightarrow> nat \<Rightarrow> bool" where
  "hex_place c v \<longleftrightarrow> v < 16 \<and> c \<in> {''0123456789abcdef'' ! v, ''0123456789ABCDEF'' ! v}"

lemma below_16: "v < 16 \<Longrightarrow> v \<in> {0, 1, 2, 3, 4, 5, 6, 7, 8, 9, 10, 11, 12, 13, 14, 15 :: nat}"
  by (simp only: insert_iff empty_iff) presburger

lemma hex_place_nibble: "hex_place c v \<Longrightarrow> nibble c = Some (of_nat v)"
  unfolding hex_place_def by (elim conjE, drule below_16) (auto simp: nibble_def byte_of_def)

lemma char_of_eq: "n < 256 \<Longrightarrow> char_of n = c \<longleftrightarrow> of_char c = (n :: nat)"
  by auto

lemma hex_place_codes: "v < 10 \<Longrightarrow> hex_place (char_of (48 + v)) v"
  "10 \<le> v \<Longrightarrow> v < 16 \<Longrightarrow> hex_place (char_of (87 + v)) v \<and> hex_place (char_of (55 + v)) v"
proof -
  assume "v < 10"
  then have "v < 16" by simp
  from below_16 [OF this] \<open>v < 10\<close> show "hex_place (char_of (48 + v)) v" by (auto simp: hex_place_def char_of_eq)
next
  assume "10 \<le> v" "v < 16"
  from below_16 [OF this(2)] this(1) show "hex_place (char_of (87 + v)) v \<and> hex_place (char_of (55 + v)) v"
    by (auto simp: hex_place_def char_of_eq)
qed

lemma nibble_hex_place:
  assumes "nibble c \<noteq> None"
  shows "\<exists>v. hex_place c v"
proof -
  define n where "n = (of_char c :: nat)"
  then have c: "c = char_of n" by simp
  consider "48 \<le> n" "n \<le> 57" | "97 \<le> n" "n \<le> 102" | "65 \<le> n" "n \<le> 70"
    using assms by (auto simp: nibble_def n_def Let_def split: if_splits)
  then show ?thesis
  proof cases
    case 1
    then show ?thesis using hex_place_codes(1) [of "n - 48"] unfolding c by (intro exI [of _ "n - 48"]) simp
  next
    case 2
    then show ?thesis using hex_place_codes(2) [of "n - 87"] unfolding c by (intro exI [of _ "n - 87"]) simp
  next
    case 3
    then show ?thesis using hex_place_codes(2) [of "n - 55"] unfolding c by (intro exI [of _ "n - 55"]) simp
  qed
qed

lemma nibble_hex_digit: "nibble c \<noteq> None \<longleftrightarrow> c \<in> set ''0123456789abcdefABCDEF''"
proof
  assume "nibble c \<noteq> None"
  then obtain v where "hex_place c v" using nibble_hex_place by blast
  then show "c \<in> set ''0123456789abcdefABCDEF''" using below_16 [of v] by (auto simp: hex_place_def)
qed (auto simp: nibble_def)

lemma nibble_bit:
  "(case nibble c of None \<Rightarrow> False | Some x \<Rightarrow> bit x k) \<longleftrightarrow> (\<exists>v < 16. hex_place c v \<and> bit v k)"
proof (cases "nibble c")
  case None
  then show ?thesis using hex_place_nibble by fastforce
next
  case (Some x)
  then obtain v where v: "hex_place c v" using nibble_hex_place [of c] by auto
  have val: "w < 16 \<and> bit (of_nat w :: byte) k = bit w k" if "hex_place c w" for w
  proof -
    have "w < 16" using that by (simp add: hex_place_def)
    moreover from this have "bit w k \<longleftrightarrow> k < 4 \<and> bit w k"
      using bit_take_bit_iff [of 4 w k] by (simp add: take_bit_nat_eq_self)
    ultimately show ?thesis by (auto simp: bit_of_nat_iff possible_bit_word)
  qed
  have "w < 16 \<and> bit x k = bit w k" if "hex_place c w" for w
    using hex_place_nibble [OF that] Some val [OF that] by simp
  with v Some show ?thesis by auto
qed

text \<open>Bit \<open>k\<close> of what the characters spell, four bits a character, the highest first.\<close>

definition hex_bit :: "string \<Rightarrow> nat \<Rightarrow> bool" where
  "hex_bit cs k \<longleftrightarrow> (\<exists>v < 16. hex_place (cs ! (k div 4)) v \<and> bit v (3 - k mod 4))"

lemma hex_bit_nibble:
  "hex_bit cs k = (case nibble (cs ! (k div 4)) of None \<Rightarrow> False | Some v \<Rightarrow> bit v (3 - k mod 4))"
  by (simp only: hex_bit_def nibble_bit)

lemma hex_bit_Cons: "hex_bit (c # cs) (4 + j) = hex_bit cs j"
proof -
  have "(4 + j) div 4 = Suc (j div 4)" and m: "(4 + j) mod 4 = j mod 4" by simp_all
  then have "(c # cs) ! ((4 + j) div 4) = cs ! (j div 4)" by (simp only: nth_Cons_Suc)
  with m show ?thesis by (simp only: hex_bit_def)
qed

lemma pack_nibbles_bits:
  assumes "pack_nibbles i cs full = Some full'" and "4 * (i + length cs) \<le> 8 * length full"
    and "k < 8 * length full"
  shows "bit_of full' k \<longleftrightarrow> bit_of full k \<or>
    (4 * i \<le> k \<and> k < 4 * (i + length cs) \<and> hex_bit cs (k - 4 * i))"
  using assms
proof (induction i cs full rule: pack_nibbles.induct)
  case (1 i full)
  then show ?case by auto
next
  case (2 i c cs full)
  from "2.prems"(1) obtain v where v: "nibble c = Some v" by (auto split: option.splits)
  let ?f = "full[i div 2 := full ! (i div 2) OR (if even i then push_bit 4 v else v)]"
  have i: "i div 2 < length full" using "2.prems"(2) by auto
  have step: "pack_nibbles (Suc i) cs ?f = Some full'" using "2.prems"(1) v by simp
  have "bit_of full' k \<longleftrightarrow> bit_of ?f k \<or>
      (4 * Suc i \<le> k \<and> k < 4 * (Suc i + length cs) \<and> hex_bit cs (k - 4 * Suc i))"
    using "2.prems"(2,3) by (intro "2.IH" [OF v step]) auto
  also have "bit_of ?f k \<longleftrightarrow> bit_of full k \<or> (k div 4 = i \<and> bit v (3 - k mod 4))"
    by (rule bit_of_pack_step [OF v "2.prems"(3) i])
  finally have *: "bit_of full' k \<longleftrightarrow> (bit_of full k \<or> (k div 4 = i \<and> bit v (3 - k mod 4))) \<or>
      (4 * Suc i \<le> k \<and> k < 4 * (Suc i + length cs) \<and> hex_bit cs (k - 4 * Suc i))" .
  show ?case
  proof (cases "k div 4 = i")
    case True
    then have "k = 4 * i + k mod 4" by (metis mult_div_mod_eq)
    moreover have "k mod 4 < 4" by simp
    ultimately obtain r where r: "k = 4 * i + r" "r < 4" by blast
    with True v show ?thesis unfolding * by (simp add: hex_bit_nibble)
  next
    case False
    then have "k < 4 * i \<or> 4 * Suc i \<le> k" by presburger
    moreover have "hex_bit (c # cs) (k - 4 * i) = hex_bit cs (k - 4 * Suc i)" if ge: "4 * Suc i \<le> k"
    proof -
      obtain j where "k = 4 * Suc i + j" using le_Suc_ex [OF ge] by blast
      then have "k - 4 * i = 4 + j" and "k - 4 * Suc i = j" by simp_all
      then show ?thesis by (simp only: hex_bit_Cons)
    qed
    ultimately show ?thesis unfolding * using False by auto
  qed
qed

lemma query_Parse_Inr:
  assumes "query_Parse p pp b bp maxBits = Inr q"
  shows "\<exists>full n. q = newQuery full n \<and> length full = (n + 7) div 8 \<and> bp \<and> ParseUint32 b = Some n \<and>
    n \<le> maxBits \<and> n \<le> LookupIDBits \<and> (pp \<or> n = 0) \<and> (pp \<longrightarrow> length p = (n + 3) div 4) \<and>
    pack_nibbles 0 (if pp then p else []) (replicate ((n + 7) div 8) 0) = Some full"
  using assms by (auto simp: query_Parse_def Let_def dest: length_pack_nibbles
      split: if_splits option.splits)

lemma agree_hex:
  assumes "pack_nibbles 0 p (replicate ((n + 7) div 8) 0) = Some full" and "length p = (n + 3) div 4"
  shows "agree_on n full lookupID \<longleftrightarrow> (\<forall>i < n. bit_of lookupID i = hex_bit p i)"
proof -
  let ?z = "replicate ((n + 7) div 8) (0 :: byte)"
  have z: "\<not> bit_of ?z k" if "k < 8 * length ?z" for k
    using that by (simp add: bit_of_def less_mult_imp_div_less mult.commute)
  have "bit_of full k = hex_bit p k" if "k < n" for k
  proof -
    have "k < 8 * length ?z" and "4 * (0 + length p) \<le> 8 * length ?z" and "k < 4 * length p"
      using that assms(2) by auto
    with pack_nibbles_bits [OF assms(1), of k] z show ?thesis by simp
  qed
  then show ?thesis by (auto simp: agree_on_def)
qed

section \<open>What \<open>Parse\<close> accepts\<close>

lemma show_nat_snoc: "0 < m \<Longrightarrow> x < 10 \<Longrightarrow> show_nat (m * 10 + x) = show_nat m @ [digit_char x]"
  by (subst show_nat.simps) simp

lemma show_nat_value:
  "ds \<noteq> [] \<Longrightarrow> list_all is_digit ds \<Longrightarrow> \<not> (length ds > 1 \<and> hd ds = CHR ''0'') \<Longrightarrow> show_nat (digits_value ds) = ds"
proof (induction ds rule: rev_induct)
  case (snoc c ds)
  have c: "digit_char (of_char c - 48) = c" "(of_char c :: nat) - 48 < 10"
    using snoc.prems(2) by (auto simp: digit_char_def is_digit_def)
  show ?case
  proof (cases ds)
    case Nil
    with c show ?thesis by (simp add: show_nat.simps digits_value_def)
  next
    case (Cons d ds')
    with snoc have ih: "show_nat (digits_value ds) = ds" by auto
    have "digits_value ds \<noteq> 0"
    proof
      assume "digits_value ds = 0"
      with ih show_nat_0 have "ds = ''0''" by simp
      with snoc.prems(3) show False by simp
    qed
    with c ih show ?thesis by (simp add: digits_value_snoc show_nat_snoc)
  qed
qed simp

text \<open>The decimal text of a number, as the query string has it.\<close>

lemma show_nat_query:
  assumes "n < 2 ^ 32"
  shows "show_nat n \<noteq> [] \<and> \<not> (length (show_nat n) > 1 \<and> hd (show_nat n) = CHR ''0'') \<and>
    ParseUint32 (show_nat n) = Some n"
proof (cases "n = 0")
  case True
  then show ?thesis by (simp add: ParseUint32_def digits_value_def)
next
  case False
  then obtain c ds where "show_nat n = c # ds" "c \<noteq> CHR ''0''" using show_nat_first by blast
  moreover have "ParseUint32 (show_nat n) = Some n" using show_nat_digits [of n] assms by (simp add: ParseUint32_def)
  ultimately show ?thesis by simp
qed

lemma bits_text:
  "n < 2 ^ 32 \<Longrightarrow> b = Itoa (int n) \<longleftrightarrow> b \<noteq> [] \<and> \<not> (length b > 1 \<and> hd b = CHR ''0'') \<and> ParseUint32 b = Some n"
  using show_nat_query [of n] show_nat_value [of b] by (auto simp: Itoa_def ParseUint32_def split: if_splits)

lemma pack_nibbles_None: "pack_nibbles i cs full = None \<longleftrightarrow> None \<in> nibble ` set cs"
  by (induction i cs full rule: pack_nibbles.induct) (auto split: option.splits)

lemma query_Parse_Inr_iff:
  "(\<exists>q. query_Parse p pp b bp maxBits = Inr q \<and> q_Bits q = n) \<longleftrightarrow>
    bp \<and> (b \<noteq> [] \<and> \<not> (length b > 1 \<and> hd b = CHR ''0'') \<and> ParseUint32 b = Some n) \<and> n \<le> maxBits \<and> n \<le> 256 \<and>
    (if pp then length p = (n + 3) div 4 \<and> None \<notin> nibble ` set p else n = 0)"
    (is "?l \<longleftrightarrow> ?r")
proof
  assume ?l
  then obtain q where q: "query_Parse p pp b bp maxBits = Inr q" "q_Bits q = n" by blast
  from query_Parse_Inr [OF q(1)] q(2) obtain full where "bp" "ParseUint32 b = Some n" "n \<le> maxBits" "n \<le> 256"
    "pp \<or> n = 0" "pp \<longrightarrow> length p = (n + 3) div 4"
    "pack_nibbles 0 (if pp then p else []) (replicate ((n + 7) div 8) 0) = Some full"
    by (auto simp: newQuery_fields LookupIDBits_def)
  moreover have "b \<noteq> [] \<and> \<not> (length b > 1 \<and> hd b = CHR ''0'')"
    using q(1) by (simp add: query_Parse_def split: if_splits)
  moreover from calculation have "None \<notin> nibble ` set (if pp then p else [])"
    using pack_nibbles_None [of 0 "if pp then p else []"] by (metis option.distinct(1))
  ultimately show ?r by auto
next
  assume r: ?r
  then have "pack_nibbles 0 (if pp then p else []) (replicate ((n + 7) div 8) 0) \<noteq> None"
    by (auto simp: pack_nibbles_None)
  then obtain full where full: "pack_nibbles 0 (if pp then p else []) (replicate ((n + 7) div 8) 0) = Some full" by blast
  from r have "(pp \<or> n = 0) \<and> length (if pp then p else []) = (n + 3) div 4" by auto
  with r full have "query_Parse p pp b bp maxBits = Inr (newQuery full n)"
    by (simp add: query_Parse_def LookupIDBits_def Let_def)
  then show ?l by (simp add: newQuery_fields)
qed

section \<open>Properties\<close>

text \<open>
  The server-side cap is the floored base-2 logarithm of \<open>record_count / k_min\<close>: the widest
  query the directory accepts still expects at least \<open>k_min\<close> records, one more bit would
  not, and an instance with fewer than \<open>k_min\<close> records accepts no bits at all.
\<close>

theorem query_Cap_floor_log:
  "(if recordCount < KMin then query_Cap recordCount = 0
    else KMin * 2 ^ query_Cap recordCount \<le> recordCount \<and>
         recordCount < KMin * 2 ^ (query_Cap recordCount + 1))"
  using capFor_bounds [of KMin recordCount] by (simp add: query_Cap_def KMin_def capFor_def)

text \<open>
  C9. A lookup that \<open>Parse\<close> accepts selects exactly the identifiers whose first \<open>bits\<close> bits are
  the bits the hex characters spell, whatever the unused low bits of the last character are.
\<close>

theorem query_Parse_Matches:
  assumes "query_Parse p True b True maxBits = Inr q"
  shows "query_Matches q lookupID \<longleftrightarrow>
    q_Bits q \<le> 8 * length lookupID \<and> (\<forall>i < q_Bits q. bit_of lookupID i = hex_bit p i)"
proof -
  obtain full n where q: "q = newQuery full n" and "length full = (n + 7) div 8"
    and "length p = (n + 3) div 4"
    and "pack_nibbles 0 p (replicate ((n + 7) div 8) 0) = Some full"
    using query_Parse_Inr [OF assms] by auto
  then show ?thesis by (simp add: newQuery_Matches newQuery_fields agree_hex)
qed

lemma Parse_example: "query_Parse ''8'' True ''1'' True 1 = Inr (newQuery [0x80] 1)"
  by (simp add: query_Parse_def ParseUint32_def is_digit_def digits_value_def nibble_def
      byte_of_def LookupIDBits_def)

theorem query_Parse_Matches_witness:
  "\<exists>q. query_Parse ''8'' True ''1'' True 1 = Inr q \<and> query_Matches q (replicate 32 0xC3) \<and>
    (\<forall>i < q_Bits q. bit_of (replicate 32 0xC3) i = hex_bit ''8'' i)"
proof -
  have "query_Matches (newQuery [0x80] 1) (replicate 32 0xC3)"
    by (simp add: newQuery_Matches agree_on_def bit_of_def)
  with query_Parse_Matches [OF Parse_example] Parse_example show ?thesis by blast
qed

text \<open>
  The prefix-column range the store is asked for never misses a record: for every accepted
  query and every identifier of at least four bytes, a match lies in the range, and for
  queries that need no post-filter the range holds nothing but matches.
\<close>

theorem query_Range_complete:
  assumes "query_Parse p pp b bp maxBits = Inr q" and "4 \<le> length lookupID"
  shows "(query_Matches q lookupID \<longrightarrow>
      fst (query_Range q) \<le> prefix32 lookupID \<and> prefix32 lookupID \<le> snd (query_Range q)) \<and>
    (\<not> query_NeedsPostFilter q \<longrightarrow>
      query_Matches q lookupID = (fst (query_Range q) \<le> prefix32 lookupID \<and>
        prefix32 lookupID \<le> snd (query_Range q)))"
proof -
  obtain full n where q: "q = newQuery full n" and len: "length full = (n + 7) div 8"
    using query_Parse_Inr [OF assms(1)] by auto
  have range: "fst (query_Range q) \<le> prefix32 lookupID \<and> prefix32 lookupID \<le> snd (query_Range q)
      \<longleftrightarrow> agree_on (min n 32) full lookupID"
    using newQuery_Range_agree [OF len assms(2)] by (simp add: q split_beta)
  have "n \<le> 8 * length lookupID" if "n \<le> 32" using that assms(2) by linarith
  then show ?thesis unfolding range
    by (auto simp: q newQuery_Matches [OF len] query_NeedsPostFilter_def newQuery_fields
        PrefixColumnBits_def min_def elim: agree_on_mono)
qed

theorem query_Range_complete_witness:
  "\<exists>q. query_Parse ''8'' True ''1'' True 1 = Inr q \<and> query_Matches q (replicate 32 0xC3) \<and>
    fst (query_Range q) \<le> prefix32 (replicate 32 0xC3)"
proof -
  have "query_Matches (newQuery [0x80] 1) (replicate 32 0xC3)"
    by (simp add: newQuery_Matches agree_on_def bit_of_def)
  with query_Range_complete [OF Parse_example, of "replicate 32 0xC3"] Parse_example
  show ?thesis by auto
qed

text \<open>
  C21. \<open>Parse\<close> accepts exactly the queries the specification allows, and reads their width: \<open>bits\<close>
  is present and the decimal text of a number as \<open>Itoa\<close> writes it, so without sign or leading
  zero, within the cap and 256; the prefix is present unless \<open>bits\<close> is zero, of exactly
  \<open>ceil(bits / 4)\<close> characters, all of them hex digits of either case.
\<close>

theorem query_Parse_accepts_iff:
  "(\<exists>q. query_Parse p pp b bp maxBits = Inr q \<and> q_Bits q = n) \<longleftrightarrow>
    bp \<and> b = Itoa (int n) \<and> n \<le> maxBits \<and> n \<le> 256 \<and>
    (if pp then length p = (n + 3) div 4 \<and> set p \<subseteq> set ''0123456789abcdefABCDEF'' else n = 0)"
proof -
  have hex: "set p \<subseteq> set ''0123456789abcdefABCDEF'' \<longleftrightarrow> None \<notin> nibble ` set p"
  proof -
    have "None \<notin> nibble ` set p \<longleftrightarrow> (\<forall>c \<in> set p. nibble c \<noteq> None)" by (metis image_iff)
    then show ?thesis by (simp only: nibble_hex_digit subset_eq)
  qed
  show ?thesis
  proof (cases "n \<le> 256")
    case True
    then have "n < 2 ^ 32" by simp
    then show ?thesis by (simp only: query_Parse_Inr_iff hex bits_text)
  next
    case False
    then show ?thesis by (simp only: query_Parse_Inr_iff simp_thms)
  qed
qed

end
