(* ===== verification/Store.thy ===== *)
theory Store imports Query Records "HOL-Library.List_Lexorder" "HOL-Library.Multiset" begin

text \<open>
  \<open>internal/store\<close>: the table of records. The database is the list of its rows; each SQL
  statement of the package is a function on that list, with the semantics SQLite documents for
  it (a statement is atomic, \<open>ON CONFLICT DO UPDATE ... WHERE\<close> updates at most the conflicting
  row, BLOBs are ordered bytewise). The driver's failure to execute a statement is the argument
  \<open>fault\<close>: the statement then has no effect and the call returns an error. \<open>Open\<close> and \<open>Close\<close>
  are on the handle, with the driver's answers as arguments.
\<close>

section \<open>The table\<close>

record row =
  r_lookup :: bytes
  r_prefix :: int
  r_wk_pub :: bytes
  r_expires :: int
  r_envelope :: string

type_synonym table = "row list"

record store_record =
  sr_LookupID :: bytes
  sr_WKPub :: bytes
  sr_ExpiresAt :: int
  sr_Envelope :: string

datatype store_error = ErrLookupIDLen | ErrEmptyEnvelope | ErrDatabase

section \<open>The statements\<close>

text \<open>
  \<open>putSQL\<close>: the rows affected and the table. The update is admitted when the stored row has
  lapsed or the new expiry is strictly later.
\<close>

fun exec_put :: "row \<Rightarrow> int \<Rightarrow> table \<Rightarrow> nat \<times> table" where
  "exec_put x now [] = (1, [x])"
| "exec_put x now (r # rs) =
    (if r_lookup r = r_lookup x then
       (if r_expires r \<le> now \<or> r_expires x > r_expires r then (1, x # rs) else (0, r # rs))
     else (let (n, rs') = exec_put x now rs in (n, r # rs')))"

definition exec_by_prefix :: "int \<Rightarrow> int \<Rightarrow> int \<Rightarrow> table \<Rightarrow> row list" where
  "exec_by_prefix lo hi now db =
    sort_key r_lookup [r \<leftarrow> db. lo \<le> r_prefix r \<and> r_prefix r \<le> hi \<and> r_expires r > now]"

definition exec_sweep :: "int \<Rightarrow> table \<Rightarrow> nat \<times> table" where
  "exec_sweep now db =
    (length [r \<leftarrow> db. r_expires r \<le> now], [r \<leftarrow> db. \<not> r_expires r \<le> now])"

definition exec_count :: "int \<Rightarrow> table \<Rightarrow> nat" where
  "exec_count now db = length [r \<leftarrow> db. r_expires r > now]"

section \<open>The operations\<close>

definition store_Put ::
  "bool \<Rightarrow> store_record \<Rightarrow> int \<Rightarrow> table \<Rightarrow> RecordReason \<times> store_error option \<times> table" where
  "store_Put fault rec now db =
    (if length (sr_LookupID rec) \<noteq> LookupIDLen then (RecordMalformed, Some ErrLookupIDLen, db)
     else if sr_Envelope rec = [] then (RecordMalformed, Some ErrEmptyEnvelope, db)
     else if fault then (RecordMalformed, Some ErrDatabase, db)
     else
       let (n, db') = exec_put
             \<lparr>r_lookup = sr_LookupID rec, r_prefix = prefix32 (sr_LookupID rec),
              r_wk_pub = sr_WKPub rec, r_expires = sr_ExpiresAt rec,
              r_envelope = sr_Envelope rec\<rparr> now db
       in if n = 0 then (RecordNotNewer, None, db') else (RecordAccepted, None, db'))"

definition store_ByPrefix :: "bool \<Rightarrow> query \<Rightarrow> int \<Rightarrow> table \<Rightarrow> store_error + string list" where
  "store_ByPrefix fault q now db =
    (if fault then Inl ErrDatabase
     else let (lo, hi) = query_Range q
       in Inr (map r_envelope (filter (\<lambda>r. query_Matches q (r_lookup r)) (exec_by_prefix lo hi now db))))"

definition store_Sweep :: "bool \<Rightarrow> int \<Rightarrow> table \<Rightarrow> (store_error + nat) \<times> table" where
  "store_Sweep fault now db =
    (if fault then (Inl ErrDatabase, db) else let (n, db') = exec_sweep now db in (Inr n, db'))"

definition store_Count :: "bool \<Rightarrow> int \<Rightarrow> table \<Rightarrow> store_error + nat" where
  "store_Count fault now db = (if fault then Inl ErrDatabase else Inr (exec_count now db))"

section \<open>The data source name\<close>

fun contains :: "string \<Rightarrow> string \<Rightarrow> bool" where
  "contains [] pat = (pat = [])"
| "contains (c # s) pat = (take (length pat) (c # s) = pat \<or> contains s pat)"

definition inMemory :: "string \<Rightarrow> bool" where
  "inMemory path \<longleftrightarrow> path = '':memory:'' \<or> contains path ''mode=memory''"

definition uri_char :: "char \<Rightarrow> string" where
  "uri_char c =
    (if c = CHR 0x5C then ''/''
     else if c = CHR ''%'' then ''%25''
     else if c = CHR ''?'' then ''%3f''
     else if c = CHR ''#'' then ''%23''
     else [c])"

definition uriPath :: "string \<Rightarrow> string" where
  "uriPath path = concat (map uri_char path)"

definition dataSourceName :: "string \<Rightarrow> string" where
  "dataSourceName path =
    (if inMemory path then path
     else ''file:'' @ uriPath path @ ''?_pragma=busy_timeout(5000)&_pragma=journal_mode(WAL)'')"

section \<open>The handle\<close>

text \<open>
  \<open>Open\<close> and \<open>Close\<close>. What \<open>database/sql\<close> answers is a parameter: whether it opens the data
  source and whether it executes the schema on the handle. A handle is its data source with the
  bound on its connections, if there is one; the second result are the handles closed again.
\<close>

record handle =
  h_source :: string
  h_maxConns :: "nat option"

datatype handle_error = OpenFails | SchemaFails | CloseFails

definition store_Open ::
  "(string \<Rightarrow> bool) \<Rightarrow> (handle \<Rightarrow> bool) \<Rightarrow> string \<Rightarrow> (handle_error + handle) \<times> handle list" where
  "store_Open opens executes path =
    (if \<not> opens (dataSourceName path) then (Inl OpenFails, [])
     else
       let db = \<lparr>h_source = dataSourceName path, h_maxConns = None\<rparr>;
           db = (if inMemory path then db\<lparr>h_maxConns := Some 1\<rparr> else db) in
       if \<not> executes db then (Inl SchemaFails, [db]) else (Inr db, []))"

definition store_Close :: "(handle \<Rightarrow> bool) \<Rightarrow> handle \<Rightarrow> handle_error option" where
  "store_Close closes s = (if \<not> closes s then Some CloseFails else None)"

text \<open>
  A store in memory has one connection, so that every statement sees the same table; and a handle
  that is not returned does not stay open.
\<close>

lemma store_Open_result:
  assumes "store_Open opens executes path = (res, closed)"
  shows "case res of
      Inr db \<Rightarrow> executes db \<and> closed = [] \<and> h_source db = dataSourceName path \<and> (h_maxConns db = Some 1 \<longleftrightarrow> inMemory path)
    | Inl e \<Rightarrow> e = OpenFails \<and> closed = [] \<or> e = SchemaFails \<and> (\<exists>db. closed = [db] \<and> \<not> executes db)"
  using assms by (auto simp: store_Open_def Let_def split: if_splits)

section \<open>The table's invariant\<close>

text \<open>\<open>PRIMARY KEY\<close>, and columns that agree with the identifier they are derived from.\<close>

definition row_ok :: "row \<Rightarrow> bool" where
  "row_ok r \<longleftrightarrow> length (r_lookup r) = 32 \<and> r_prefix r = prefix32 (r_lookup r) \<and> r_envelope r \<noteq> []"

definition table_ok :: "table \<Rightarrow> bool" where
  "table_ok db \<longleftrightarrow> distinct (map r_lookup db) \<and> list_all row_ok db"

text \<open>The stored row of an identifier, and what the table shows at a given time.\<close>

definition row_of :: "table \<Rightarrow> bytes \<Rightarrow> row option" where
  "row_of db i = find (\<lambda>r. r_lookup r = i) db"

definition live_row :: "int \<Rightarrow> table \<Rightarrow> bytes \<Rightarrow> row option" where
  "live_row now db i =
    (case row_of db i of None \<Rightarrow> None | Some r \<Rightarrow> if r_expires r > now then Some r else None)"

lemma row_of_lookup: "row_of db i = Some r \<Longrightarrow> r_lookup r = i \<and> r \<in> set db"
  by (auto simp: row_of_def find_Some_iff)

lemma row_of_iff: "table_ok db \<Longrightarrow> row_of db i = Some r \<longleftrightarrow> r \<in> set db \<and> r_lookup r = i"
proof -
  assume "table_ok db"
  then have "distinct (map r_lookup db)" by (simp add: table_ok_def)
  then show ?thesis
    by (induction db) (auto simp: row_of_def)
qed

lemma row_of_None: "row_of db i = None \<longleftrightarrow> i \<notin> r_lookup ` set db"
  by (auto simp: row_of_def find_None_iff)

lemma row_of_Cons: "row_of (r # db) i = (if r_lookup r = i then Some r else row_of db i)"
  by (simp add: row_of_def)

text \<open>The statement on the view: one identifier's row changes, exactly when the rule admits it.\<close>

lemma exec_put_row_of:
  "row_of (snd (exec_put x now db)) i =
    (if i = r_lookup x \<and> fst (exec_put x now db) = 1 then Some x else row_of db i)"
  by (induction db) (auto simp: row_of_Cons row_of_def [of "[]"] split: prod.splits)

lemma exec_put_admits:
  "fst (exec_put x now db) =
    (case row_of db (r_lookup x) of None \<Rightarrow> 1
     | Some r \<Rightarrow> if r_expires r \<le> now \<or> r_expires x > r_expires r then 1 else 0)"
  by (induction db) (auto simp: row_of_Cons row_of_def [of "[]"] split: prod.splits)

lemma exec_put_lookups:
  "r_lookup ` set (snd (exec_put x now db)) = insert (r_lookup x) (r_lookup ` set db)"
  by (induction db) (auto split: prod.splits)

lemma exec_put_set: "set (snd (exec_put x now db)) \<subseteq> insert x (set db)"
  by (induction db) (auto split: prod.splits)

lemma exec_put_ok:
  assumes "table_ok db" and "row_ok x"
  shows "table_ok (snd (exec_put x now db))"
proof -
  have "distinct (map r_lookup (snd (exec_put x now db)))" if "distinct (map r_lookup db)"
    using that
  proof (induction db)
    case (Cons r db)
    then show ?case using exec_put_lookups [of x now db] by (auto split: prod.splits)
  qed simp
  with assms exec_put_set [of x now db] show ?thesis
    by (auto simp: table_ok_def list_all_iff)
qed

text \<open>The row \<open>Put\<close> writes, and what \<open>Put\<close> answers and shows.\<close>

definition row_of_record :: "store_record \<Rightarrow> row" where
  "row_of_record rec =
    \<lparr>r_lookup = sr_LookupID rec, r_prefix = prefix32 (sr_LookupID rec), r_wk_pub = sr_WKPub rec,
     r_expires = sr_ExpiresAt rec, r_envelope = sr_Envelope rec\<rparr>"

definition storable :: "store_record \<Rightarrow> bool" where
  "storable rec \<longleftrightarrow> length (sr_LookupID rec) = 32 \<and> sr_Envelope rec \<noteq> []"

lemma row_of_record_ok: "storable rec \<Longrightarrow> row_ok (row_of_record rec)"
  by (simp add: row_ok_def row_of_record_def storable_def)

lemma store_Put_exec:
  "store_Put False rec now db =
    (if length (sr_LookupID rec) \<noteq> 32 then (RecordMalformed, Some ErrLookupIDLen, db)
     else if sr_Envelope rec = [] then (RecordMalformed, Some ErrEmptyEnvelope, db)
     else (if fst (exec_put (row_of_record rec) now db) = 0 then RecordNotNewer else RecordAccepted,
       None, snd (exec_put (row_of_record rec) now db)))"
  by (simp add: store_Put_def row_of_record_def LookupIDLen_def Let_def split: prod.split)

lemma exec_put_live:
  "fst (exec_put x now db) =
    (case live_row now db (r_lookup x) of None \<Rightarrow> 1
     | Some r \<Rightarrow> if r_expires x > r_expires r then 1 else 0)"
  by (auto simp: exec_put_admits live_row_def split: option.splits)

definition put_reason :: "store_record \<Rightarrow> int \<Rightarrow> table \<Rightarrow> RecordReason" where
  "put_reason rec now db = fst (store_Put False rec now db)"

definition put_table :: "store_record \<Rightarrow> int \<Rightarrow> table \<Rightarrow> table" where
  "put_table rec now db = snd (snd (store_Put False rec now db))"

lemma put_table_ok: "table_ok db \<Longrightarrow> table_ok (put_table rec now db)"
  using exec_put_ok row_of_record_ok
  by (auto simp: put_table_def store_Put_exec storable_def)

lemma put_reason_live:
  "put_reason rec now db =
    (if \<not> storable rec then RecordMalformed
     else case live_row now db (sr_LookupID rec) of
       None \<Rightarrow> RecordAccepted
     | Some r \<Rightarrow> if sr_ExpiresAt rec > r_expires r then RecordAccepted else RecordNotNewer)"
  by (auto simp: put_reason_def store_Put_exec exec_put_live storable_def row_of_record_def
    split: option.splits)

lemma put_row_of:
  "row_of (put_table rec now db) i =
    (if i = sr_LookupID rec \<and> put_reason rec now db = RecordAccepted then Some (row_of_record rec)
     else row_of db i)"
  by (auto simp: put_table_def put_reason_def store_Put_exec exec_put_row_of exec_put_live
    row_of_record_def split: option.splits)

lemma put_live_row:
  "live_row t (put_table rec now db) i =
    (if i = sr_LookupID rec \<and> put_reason rec now db = RecordAccepted
     then (if sr_ExpiresAt rec > t then Some (row_of_record rec) else None)
     else live_row t db i)"
  by (simp add: live_row_def put_row_of row_of_record_def)

lemma sweep_ok: "table_ok db \<Longrightarrow> table_ok (snd (exec_sweep now db))"
  by (auto simp: table_ok_def exec_sweep_def list_all_iff distinct_map inj_on_def)

lemma sweep_live_row:
  assumes "table_ok db" and "now \<le> t"
  shows "live_row t (snd (exec_sweep now db)) i = live_row t db i"
proof -
  note ok = row_of_iff [OF assms(1)] row_of_iff [OF sweep_ok [OF assms(1), of now]]
  show ?thesis
  proof (cases "row_of db i")
    case None
    then have "row_of (snd (exec_sweep now db)) i = None"
      by (auto simp: row_of_None exec_sweep_def)
    with None show ?thesis by (simp add: live_row_def)
  next
    case (Some r)
    then have r: "r \<in> set db" "r_lookup r = i" by (simp_all add: ok)
    show ?thesis
    proof (cases "r_expires r \<le> now")
      case True
      have "row_of (snd (exec_sweep now db)) i = None"
      proof (rule ccontr)
        assume "row_of (snd (exec_sweep now db)) i \<noteq> None"
        then obtain r' where "row_of (snd (exec_sweep now db)) i = Some r'" by auto
        with ok(2) have "r' \<in> set db" "r_lookup r' = i" "\<not> r_expires r' \<le> now"
          by (auto simp: exec_sweep_def)
        with ok(1) Some True show False by (metis option.inject)
      qed
      with Some True assms(2) show ?thesis by (simp add: live_row_def)
    next
      case False
      with r have "row_of (snd (exec_sweep now db)) i = Some r"
        by (simp add: ok(2)) (simp add: exec_sweep_def)
      with Some show ?thesis by (simp add: live_row_def)
    qed
  qed
qed

section \<open>Answers depend on the live rows only\<close>

definition live_rows :: "int \<Rightarrow> table \<Rightarrow> row list" where
  "live_rows now db = sort_key r_lookup [r \<leftarrow> db. r_expires r > now]"

lemma live_rows_set: "table_ok db \<Longrightarrow> r \<in> set (live_rows now db) \<longleftrightarrow> live_row now db (r_lookup r) = Some r"
  using row_of_iff [of db "r_lookup r" r]
  by (auto simp: live_rows_def live_row_def split: option.splits if_splits)

lemma sort_key_same_set:
  assumes "distinct (map f xs)" "distinct (map f ys)" "set xs = set ys"
  shows "sort_key f xs = sort_key f (ys :: 'b list)"
proof (rule sort_key_inj_key_eq)
  have "distinct xs" "distinct ys" using assms by (simp_all add: distinct_map)
  then show "mset xs = mset (sort_key f ys)"
    using assms(3) by (simp add: set_eq_iff_mset_eq_distinct)
  show "inj_on f (set xs)" using assms by (simp add: distinct_map)
qed simp

lemma live_rows_cong:
  assumes "table_ok db" "table_ok db'" "live_row now db = live_row now db'"
  shows "live_rows now db = live_rows now db'"
proof -
  have "set (live_rows now db) = set (live_rows now db')"
    using live_rows_set [OF assms(1)] live_rows_set [OF assms(2)] assms(3) by auto
  moreover have "distinct (map r_lookup [r \<leftarrow> d. r_expires r > now])" if "table_ok d" for d
    using that by (auto simp: table_ok_def distinct_map inj_on_def)
  ultimately show ?thesis
    using assms unfolding live_rows_def by (intro sort_key_same_set) auto
qed

lemma exec_by_prefix_live:
  "exec_by_prefix lo hi now db = [r \<leftarrow> live_rows now db. lo \<le> r_prefix r \<and> r_prefix r \<le> hi]"
proof -
  have "[r \<leftarrow> db. lo \<le> r_prefix r \<and> r_prefix r \<le> hi \<and> r_expires r > now] =
      [r \<leftarrow> [r \<leftarrow> db. r_expires r > now]. lo \<le> r_prefix r \<and> r_prefix r \<le> hi]"
    by (auto intro: filter_cong)
  then show ?thesis by (simp only: exec_by_prefix_def live_rows_def filter_sort)
qed

lemma exec_count_live: "exec_count now db = length (live_rows now db)"
  by (simp add: exec_count_def live_rows_def)

section \<open>Sequences of operations\<close>

datatype store_op = OpPut store_record int | OpByPrefix query int | OpCount int | OpSweep int

datatype store_reply = Reason RecordReason | Envelopes "string list" | Counted nat

fun op_time :: "store_op \<Rightarrow> int" where
  "op_time (OpPut rec t) = t"
| "op_time (OpByPrefix q t) = t"
| "op_time (OpCount t) = t"
| "op_time (OpSweep t) = t"

fun is_sweep :: "store_op \<Rightarrow> bool" where
  "is_sweep (OpSweep t) = True"
| "is_sweep _ = False"

fun store_step :: "store_op \<Rightarrow> table \<Rightarrow> table" where
  "store_step (OpPut rec t) db = snd (snd (store_Put False rec t db))"
| "store_step (OpByPrefix q t) db = db"
| "store_step (OpCount t) db = db"
| "store_step (OpSweep t) db = snd (store_Sweep False t db)"

text \<open>What an operation tells its caller; a sweep's count is not part of any answer of the service.\<close>

fun store_answer :: "store_op \<Rightarrow> table \<Rightarrow> store_reply list" where
  "store_answer (OpPut rec t) db = [Reason (fst (store_Put False rec t db))]"
| "store_answer (OpByPrefix q t) db = [Envelopes (projr (store_ByPrefix False q t db))]"
| "store_answer (OpCount t) db = [Counted (projr (store_Count False t db))]"
| "store_answer (OpSweep t) db = []"

fun store_answers :: "store_op list \<Rightarrow> table \<Rightarrow> store_reply list" where
  "store_answers [] db = []"
| "store_answers (x # xs) db = store_answer x db @ store_answers xs (store_step x db)"

lemma store_step_simps:
  "store_step (OpPut rec t) db = put_table rec t db"
  "store_step (OpSweep t) db = snd (exec_sweep t db)"
  by (simp_all add: put_table_def store_Sweep_def split: prod.split)

lemma store_step_ok: "table_ok db \<Longrightarrow> table_ok (store_step x db)"
  by (cases x) (simp_all add: store_step_simps put_table_ok sweep_ok del: store_step.simps(1,4))

lemma ByPrefix_live:
  "projr (store_ByPrefix False q t db) =
    map r_envelope [r \<leftarrow> live_rows t db. fst (query_Range q) \<le> r_prefix r \<and>
      r_prefix r \<le> snd (query_Range q) \<and> query_Matches q (r_lookup r)]"
  by (simp add: store_ByPrefix_def exec_by_prefix_live split: prod.split)

lemma store_answer_cong:
  assumes "table_ok db" "table_ok db'" "live_row (op_time x) db = live_row (op_time x) db'"
  shows "store_answer x db = store_answer x db'"
proof (cases x)
  case (OpPut rec t)
  with assms(3) show ?thesis by (simp add: put_reason_live flip: put_reason_def)
next
  case (OpByPrefix q t)
  with live_rows_cong [of db db' t] assms show ?thesis by (simp add: ByPrefix_live)
next
  case (OpCount t)
  with live_rows_cong [of db db' t] assms show ?thesis
    by (simp add: store_Count_def exec_count_live)
qed simp

text \<open>Two tables that show the same rows at some time show the same rows ever after.\<close>

lemma live_row_later:
  assumes "live_row now db = live_row now db'" and "now \<le> t"
  shows "live_row t db = live_row t db'"
proof
  fix i
  from assms(1) have "live_row now db i = live_row now db' i" by simp
  with assms(2) show "live_row t db i = live_row t db' i"
    by (auto simp: live_row_def split: option.splits if_splits)
qed

lemma store_step_cong:
  assumes "live_row (op_time x) db = live_row (op_time x) db'" and "table_ok db" "table_ok db'"
  shows "live_row (op_time x) (store_step x db) = live_row (op_time x) (store_step x db')"
proof (cases x)
  case (OpPut rec t)
  with assms(1) have "put_reason rec t db = put_reason rec t db'" by (simp add: put_reason_live)
  with OpPut assms(1) show ?thesis
    by (auto simp: store_step_simps put_live_row fun_eq_iff simp del: store_step.simps(1))
next
  case (OpSweep t)
  with assms show ?thesis
    by (auto simp: store_step_simps sweep_live_row fun_eq_iff simp del: store_step.simps(4))
qed (use assms(1) in simp_all)

lemma store_answers_cong:
  assumes "table_ok db" "table_ok db'" and "sorted (map op_time xs)"
    and "\<forall>x \<in> set xs. now \<le> op_time x" and "live_row now db = live_row now db'"
  shows "store_answers [x \<leftarrow> xs. \<not> is_sweep x] db = store_answers xs db'"
  using assms
proof (induction xs arbitrary: db db' now)
  case (Cons x xs)
  have same: "live_row (op_time x) db = live_row (op_time x) db'"
    by (rule live_row_later [OF Cons.prems(5)]) (use Cons.prems(4) in simp)
  show ?case
  proof (cases "is_sweep x")
    case True
    then obtain t where x: "x = OpSweep t" by (cases x) auto
    have "live_row t db = live_row t (store_step x db')"
      using same x sweep_live_row [OF Cons.prems(2), of t t]
      by (auto simp: store_step_simps fun_eq_iff simp del: store_step.simps(4))
    then have "store_answers [x \<leftarrow> xs. \<not> is_sweep x] db = store_answers xs (store_step x db')"
      using Cons.prems x by (intro Cons.IH [where now = t] store_step_ok) auto
    with x show ?thesis by simp
  next
    case False
    have "store_answers [x \<leftarrow> xs. \<not> is_sweep x] (store_step x db) = store_answers xs (store_step x db')"
      using Cons.prems store_step_cong [OF same Cons.prems(1,2)]
      by (intro Cons.IH [where now = "op_time x"] store_step_ok) auto
    with False store_answer_cong [OF Cons.prems(1,2) same] show ?thesis by simp
  qed
qed simp

section \<open>The interface the service relies on\<close>

text \<open>
  A store of expiring records: operations keep its invariant, and none takes a record that is
  live away or replaces it by one that does not expire later.
\<close>

locale recency_store = stepped_component step ok
  for step :: "'o \<Rightarrow> 's \<Rightarrow> 's" and ok :: "'s \<Rightarrow> bool" +
  fixes live :: "int \<Rightarrow> 's \<Rightarrow> 'i \<Rightarrow> 'r option" and expiry :: "'r \<Rightarrow> int" and time :: "'o \<Rightarrow> int"
  assumes live_expiry: "live t s i = Some r \<Longrightarrow> t < expiry r"
    and live_step: "ok s \<Longrightarrow> time x \<le> t \<Longrightarrow> live t s i = Some r \<Longrightarrow>
      \<exists>r'. live t (step x s) i = Some r' \<and> (r' = r \<or> expiry r < expiry r')"
begin

lemma no_rollback:
  assumes "ok s" and "\<forall>x \<in> set xs. time x \<le> t" and "live t s i = Some r"
  shows "\<exists>r'. live t (run_ops step xs s) i = Some r' \<and> (r' = r \<or> expiry r < expiry r')"
  using assms
proof (induction xs arbitrary: s r)
  case (Cons x xs)
  from live_step [of s x t i r] Cons.prems obtain r1 where
    r1: "live t (step x s) i = Some r1" "r1 = r \<or> expiry r < expiry r1" by auto
  have "\<exists>r'. live t (run_ops step xs (step x s)) i = Some r' \<and> (r' = r1 \<or> expiry r1 < expiry r')"
    using Cons.prems r1(1) op_inv by (intro Cons.IH) auto
  with r1(2) show ?case by auto
qed simp

end

interpretation st: recency_store store_step table_ok live_row r_expires op_time
proof unfold_locales
  fix x db
  assume "table_ok db"
  then show "table_ok (store_step x db)" by (rule store_step_ok)
next
  fix t s i r
  assume "live_row t s i = Some r"
  then show "t < r_expires r" by (auto simp: live_row_def split: option.splits if_splits)
next
  fix db x t i r
  assume a: "table_ok db" "op_time x \<le> t" "live_row t db i = Some r"
  show "\<exists>r'. live_row t (store_step x db) i = Some r' \<and> (r' = r \<or> r_expires r < r_expires r')"
  proof (cases x)
    case (OpPut rec t')
    from a have row: "row_of db i = Some r" "t < r_expires r"
      by (auto simp: live_row_def split: option.splits if_splits)
    with a(2) OpPut have "live_row t' db i = Some r" by (simp add: live_row_def)
    with a OpPut row show ?thesis
      by (auto simp: store_step_simps put_live_row put_reason_live row_of_record_def
        simp del: store_step.simps(1) split: if_splits)
  next
    case (OpSweep t')
    with a sweep_live_row [OF a(1), of t' t i] show ?thesis
      by (simp add: store_step_simps del: store_step.simps(4))
  qed (use a in simp_all)
qed

section \<open>Properties\<close>

text \<open>
  C20. Expiry is a property of the record and the clock, not of sweeping. As long as the clock
  does not run backwards, deleting every sweep from a sequence of operations changes no
  answer: publishes draw the same reasons, lookups return the same envelopes in the same order
  and counts are the same.
\<close>

theorem store_sweep_transparent:
  assumes "table_ok db" and "sorted (map op_time xs)"
  shows "store_answers [x \<leftarrow> xs. \<not> is_sweep x] db = store_answers xs db"
proof -
  let ?now = "case xs of [] \<Rightarrow> 0 | x # _ \<Rightarrow> op_time x"
  have "\<forall>x \<in> set xs. ?now \<le> op_time x" using assms(2) by (cases xs) auto
  with store_answers_cong [OF assms(1,1,2)] show ?thesis by blast
qed

definition sample_record :: "int \<Rightarrow> store_record" where
  "sample_record e = \<lparr>sr_LookupID = replicate 32 1, sr_WKPub = replicate 32 2, sr_ExpiresAt = e,
    sr_Envelope = ''{}''\<rparr>"

theorem store_sweep_transparent_witness:
  "store_answers [OpPut (sample_record 5) 1, OpPut (sample_record 4) 6] [] =
    store_answers [OpPut (sample_record 5) 1, OpSweep 6, OpPut (sample_record 4) 6] []"
  using store_sweep_transparent [of "[]" "[OpPut (sample_record 5) 1, OpSweep 6, OpPut (sample_record 4) 6]"]
  by (simp add: table_ok_def)

text \<open>
  C4. No rollback. A record that is live at time \<open>t\<close> is, after any sequence of operations made
  no later than \<open>t\<close>, still there unchanged, or replaced by one that expires strictly later. A
  replayed envelope never takes the place of a newer one.
\<close>

theorem store_no_rollback:
  assumes "table_ok db" and "\<forall>x \<in> set xs. op_time x \<le> t" and "live_row t db i = Some r"
  shows "\<exists>r'. live_row t (run_ops store_step xs db) i = Some r' \<and>
    (r' = r \<or> r_expires r < r_expires r')"
  using assms by (rule st.no_rollback)

theorem store_no_rollback_witness:
  "\<exists>r'. live_row 3 (run_ops store_step [OpPut (sample_record 4) 2] [row_of_record (sample_record 5)])
      (replicate 32 1) = Some r' \<and>
    (r' = row_of_record (sample_record 5) \<or> r_expires (row_of_record (sample_record 5)) < r_expires r')"
proof (rule store_no_rollback)
  show "table_ok [row_of_record (sample_record 5)]"
    using row_of_record_ok [of "sample_record 5"]
    by (simp add: table_ok_def storable_def sample_record_def)
qed (simp_all add: live_row_def row_of_def row_of_record_def sample_record_def)

lemma query_Parse_in_range:
  assumes "query_Parse p pp b bp maxBits = Inr q" and "4 \<le> length l" and "query_Matches q l"
  shows "fst (query_Range q) \<le> prefix32 l \<and> prefix32 l \<le> snd (query_Range q)"
proof -
  obtain full n where q: "q = newQuery full n" and len: "length full = (n + 7) div 8"
    using query_Parse_Inr [OF assms(1)] by auto
  have "agree_on (min n 32) full l"
    using assms(3) by (auto simp: q newQuery_Matches [OF len] min_def elim: agree_on_mono)
  with newQuery_Range_agree [OF len assms(2)] show ?thesis by (simp add: q split_beta)
qed

lemma ByPrefix_member:
  assumes "table_ok db" and "query_Parse p pp b bp maxBits = Inr q" and "live_row now db i = Some r"
    and "query_Matches q i" and "store_ByPrefix False q now db = Inr envelopes"
  shows "r_envelope r \<in> set envelopes \<and> r_lookup r = i"
proof -
  from assms(3) have i: "r_lookup r = i" "r \<in> set db"
    using row_of_lookup [of db i r] by (auto simp: live_row_def split: option.splits if_splits)
  with assms(1,3) have "r \<in> set (live_rows now db)" by (simp add: live_rows_set)
  moreover have "fst (query_Range q) \<le> r_prefix r \<and> r_prefix r \<le> snd (query_Range q)"
    using assms(1) i query_Parse_in_range [OF assms(2), of i] assms(4)
    by (auto simp: table_ok_def list_all_iff row_ok_def)
  moreover have "envelopes = projr (store_ByPrefix False q now db)" using assms(5) by simp
  ultimately show ?thesis using assms(4) i by (auto simp: ByPrefix_live)
qed

lemma ByPrefix_exact:
  assumes "table_ok db" and "query_Parse p pp b bp maxBits = Inr q"
  shows "store_ByPrefix False q now db =
    Inr (map r_envelope (sort_key r_lookup
      [r \<leftarrow> db. now < r_expires r \<and> query_Matches q (r_lookup r)]))"
proof -
  have range: "fst (query_Range q) \<le> r_prefix r \<and> r_prefix r \<le> snd (query_Range q)"
    if "r \<in> set (live_rows now db)" "query_Matches q (r_lookup r)" for r
    using that assms(1) query_Parse_in_range [OF assms(2), of "r_lookup r"]
    by (auto simp: table_ok_def list_all_iff row_ok_def live_rows_def)
  then have "[r \<leftarrow> live_rows now db. fst (query_Range q) \<le> r_prefix r \<and>
      r_prefix r \<le> snd (query_Range q) \<and> query_Matches q (r_lookup r)] =
      [r \<leftarrow> live_rows now db. query_Matches q (r_lookup r)]"
    by (intro filter_cong) auto
  then have "projr (store_ByPrefix False q now db) =
      map r_envelope [r \<leftarrow> live_rows now db. query_Matches q (r_lookup r)]"
    by (simp only: ByPrefix_live)
  also have "[r \<leftarrow> live_rows now db. query_Matches q (r_lookup r)] =
      sort_key r_lookup [r \<leftarrow> db. now < r_expires r \<and> query_Matches q (r_lookup r)]"
    by (simp add: live_rows_def filter_sort conj_commute)
  finally show ?thesis by (cases "query_Range q") (simp add: store_ByPrefix_def)
qed

text \<open>
  C5. A lookup returns, for a query that \<open>Parse\<close> accepted, the envelopes of all and only the live
  records whose identifier matches the query, byte for byte as stored, one per record and
  ordered by identifier: the range on the indexed prefix column loses none of them.
\<close>

theorem store_ByPrefix_exact:
  assumes "table_ok db" and "query_Parse p pp b bp maxBits = Inr q"
  shows "store_ByPrefix False q now db =
    Inr (map r_envelope (sort_key r_lookup
      [r \<leftarrow> db. now < r_expires r \<and> query_Matches q (r_lookup r)]))"
  using assms by (rule ByPrefix_exact)

lemma sample_table_ok: "table_ok [row_of_record (sample_record e)]"
  using row_of_record_ok [of "sample_record e"]
  by (simp add: table_ok_def storable_def sample_record_def)

theorem store_ByPrefix_exact_witness:
  "store_ByPrefix False (newQuery [] 0) 3 [row_of_record (sample_record 5)] = Inr [''{}'']"
proof -
  have "query_Parse [] False ''0'' True 0 = Inr (newQuery [] 0)"
    by (simp add: query_Parse_def ParseUint32_def is_digit_def digits_value_def LookupIDBits_def)
  from store_ByPrefix_exact [OF sample_table_ok this, of 3 5] show ?thesis
    by (simp add: row_of_record_def sample_record_def newQuery_Matches agree_on_def)
qed

text \<open>
  C19. What \<open>Put\<close> does, on what the table shows: it answers \<open>RecordNotNewer\<close> exactly when a record
  is live under the identifier whose expiry is not before the new one, and then shows what it
  showed; otherwise the identifier shows the new record, verbatim, until it expires. A lapsed
  record sets no floor, and no other identifier is touched.
\<close>

theorem store_Put_view:
  assumes "storable rec" and "store_Put False rec now db = (reason, err, db')"
  shows "err = None \<and>
    (reason = RecordNotNewer \<longleftrightarrow>
      (\<exists>r. live_row now db (sr_LookupID rec) = Some r \<and> sr_ExpiresAt rec \<le> r_expires r)) \<and>
    (reason \<noteq> RecordNotNewer \<longrightarrow> reason = RecordAccepted) \<and>
    (\<forall>t i. live_row t db' i =
      (if i = sr_LookupID rec \<and> reason = RecordAccepted
       then (if t < sr_ExpiresAt rec then Some (row_of_record rec) else None)
       else live_row t db i))"
proof -
  have reason: "reason = put_reason rec now db" and db': "db' = put_table rec now db"
    using assms(2) by (simp_all add: put_reason_def put_table_def)
  have "err = None" using assms by (auto simp: store_Put_exec storable_def)
  with assms(1) put_live_row [of _ rec now db] show ?thesis
    by (auto simp: reason db' put_reason_live split: option.splits if_splits)
qed

theorem store_Put_view_witness:
  "store_Put False (sample_record 5) 3 [row_of_record (sample_record 5)] =
     (RecordNotNewer, None, [row_of_record (sample_record 5)]) \<and>
   (\<exists>r. live_row 3 [row_of_record (sample_record 5)] (replicate 32 1) = Some r \<and> 5 \<le> r_expires r)"
proof -
  have put: "store_Put False (sample_record 5) 3 [row_of_record (sample_record 5)] =
      (RecordNotNewer, None, [row_of_record (sample_record 5)])"
    by (simp add: store_Put_exec sample_record_def row_of_record_def)
  have "storable (sample_record 5)" by (simp add: storable_def sample_record_def)
  from store_Put_view [OF this put] put show ?thesis by (simp add: sample_record_def)
qed

text \<open>
  C5. The data source name of a file keeps the path apart from the pragmas: the escaped path has
  no character that ends the path of a URI, and unescaping it gives the path back, with forward
  slashes for backward ones.
\<close>

fun percent_decode :: "string \<Rightarrow> string" where
  "percent_decode [] = []"
| "percent_decode (c # s) =
    (if c = CHR ''%'' then
       (case s of
          a # b # r \<Rightarrow> (case (hex_val a, hex_val b) of
            (Some x, Some y) \<Rightarrow> char_of (x * 16 + y) # percent_decode r
          | _ \<Rightarrow> c # percent_decode s)
        | _ \<Rightarrow> c # percent_decode s)
     else c # percent_decode s)"

lemma percent_decode_uri_char:
  "percent_decode (uri_char c @ s) = (if c = CHR 0x5C then CHR ''/'' else c) # percent_decode s"
proof -
  have "hex_val CHR ''2'' = Some 2" "hex_val CHR ''5'' = Some 5" "hex_val CHR ''3'' = Some 3"
    "hex_val CHR ''f'' = Some 15" "char_of (37 :: nat) = CHR ''%''" "char_of (63 :: nat) = CHR ''?''"
    "char_of (35 :: nat) = CHR ''#''"
    by code_simp+
  then show ?thesis by (simp add: uri_char_def)
qed

theorem uriPath_roundtrip:
  "percent_decode (uriPath path) = map (\<lambda>c. if c = CHR 0x5C then CHR ''/'' else c) path \<and>
    CHR ''?'' \<notin> set (uriPath path) \<and> CHR ''#'' \<notin> set (uriPath path)"
proof -
  have "percent_decode (uriPath path) = map (\<lambda>c. if c = CHR 0x5C then CHR ''/'' else c) path"
    by (induction path) (simp_all add: uriPath_def percent_decode_uri_char)
  moreover have "c \<noteq> CHR ''?'' \<and> c \<noteq> CHR ''#''" if "c \<in> set (uri_char d)" for c d
    using that by (auto simp: uri_char_def split: if_splits)
  ultimately show ?thesis by (auto simp: uriPath_def)
qed

end
