(* ===== verification/Ratelimit.thy ===== *)
theory Ratelimit imports Netip begin

text \<open>
  \<open>internal/ratelimit/ratelimit.go\<close>: a fixed-window limiter over truncated addresses. Its
  state is the map from keys to counters and the time of the next sweep; the operations are
  \<open>Allow\<close>, \<open>Sweep\<close> and \<open>TrackedKeys\<close>. A limiter whose fields did not come from \<open>New\<close> (the
  zero value, whose table is nil) refuses everything, as the code does.
\<close>

unbundle bit_operations_syntax

section \<open>Configuration\<close>

text \<open>A class is an \<open>int\<close>; the three declared ones and the number of them.\<close>

definition ClassPutRecord :: int where "ClassPutRecord = 0"
definition ClassGetRecord :: int where "ClassGetRecord = 1"
definition ClassSignal :: int where "ClassSignal = 2"
definition numClasses :: int where "numClasses = 3"

definition DefaultPutRecord :: int where "DefaultPutRecord = 600"
definition DefaultGetRecord :: int where "DefaultGetRecord = 600"
definition DefaultSignal :: int where "DefaultSignal = 600"
definition DefaultWindow :: duration where "DefaultWindow = seconds 3600"
definition DefaultMaxKeys :: int where "DefaultMaxKeys = 500000"
definition sweepDivisor :: int where "sweepDivisor = 8"

lemmas class_defs = ClassPutRecord_def ClassGetRecord_def ClassSignal_def numClasses_def
lemmas limiter_defaults = DefaultPutRecord_def DefaultGetRecord_def DefaultSignal_def
  DefaultWindow_def DefaultMaxKeys_def sweepDivisor_def seconds_def

record limiter_options =
  o_PutRecord :: int
  o_GetRecord :: int
  o_Signal :: int
  o_Window :: duration
  o_MaxKeys :: int

record key =
  k_net :: bytes
  k_family :: nat
  k_class :: nat

record counter =
  c_start :: instant
  c_n :: int

record limiter_table =
  t_keys :: "(key, counter) gomap"
  t_nextSweep :: instant

record limiter =
  l_limits :: "int list"
  l_window :: duration
  l_sweepInterval :: duration
  l_maxKeys :: int
  l_state :: "limiter_table option"

definition orIntDefault :: "int \<Rightarrow> int \<Rightarrow> int" where
  "orIntDefault v def = (if v \<le> 0 then def else v)"

definition orDurationDefault :: "duration \<Rightarrow> duration \<Rightarrow> duration" where
  "orDurationDefault v def = (if v \<le> 0 then def else v)"

definition limiter_New :: "limiter_options \<Rightarrow> limiter" where
  "limiter_New opts =
    (let window = orDurationDefault (o_Window opts) DefaultWindow;
         interval = window div sweepDivisor
     in \<lparr>l_limits = [orIntDefault (o_PutRecord opts) DefaultPutRecord,
                    orIntDefault (o_GetRecord opts) DefaultGetRecord,
                    orIntDefault (o_Signal opts) DefaultSignal],
         l_window = window,
         l_sweepInterval = (if interval \<le> 0 then window else interval),
         l_maxKeys = orIntDefault (o_MaxKeys opts) DefaultMaxKeys,
         l_state = Some \<lparr>t_keys = [], t_nextSweep = zero_time\<rparr>\<rparr>)"

text \<open>\<open>var l ratelimit.Limiter\<close>\<close>

definition limiter_zero :: limiter where
  "limiter_zero = \<lparr>l_limits = [0, 0, 0], l_window = 0, l_sweepInterval = 0, l_maxKeys = 0,
    l_state = None\<rparr>"

section \<open>Keys\<close>

text \<open>\<open>As4\<close> and \<open>As16\<close> are the big-endian bytes of the address.\<close>

definition As4 :: "32 word \<Rightarrow> bytes" where
  "As4 v = be_bytes 4 (unat v)"

definition As16 :: "128 word \<Rightarrow> bytes" where
  "As16 w = be_bytes 16 (unat w)"

definition makeKey :: "Addr \<Rightarrow> int \<Rightarrow> key" where
  "makeKey addr c =
    (let a = Unmap addr; cls = nat (c mod 256) in
     case a of
       Addr4 v \<Rightarrow> \<lparr>k_net = (As4 v)[3 := 0] @ replicate 12 0, k_family = 4, k_class = cls\<rparr>
     | Addr6 w z \<Rightarrow> \<lparr>k_net = take 8 (As16 w) @ replicate 8 0, k_family = 6, k_class = cls\<rparr>
     | AddrZero \<Rightarrow> \<lparr>k_net = replicate 16 0, k_family = 0, k_class = cls\<rparr>)"

section \<open>Windows\<close>

text \<open>
  \<open>d = -d\<close> wraps at the smallest duration, which \<open>Sub\<close> returns for instants more than 292
  years apart; the wrapped value is again negative and counts as live.
\<close>

definition limiter_live :: "instant \<Rightarrow> instant \<Rightarrow> duration \<Rightarrow> bool" where
  "limiter_live start now window =
    (let d = time_Sub now start;
         d' = (if d < 0 then i64 (- d) else d)
     in d' < window)"

definition sweepLocked :: "instant \<Rightarrow> duration \<Rightarrow> duration \<Rightarrow> limiter_table \<Rightarrow> limiter_table" where
  "sweepLocked now window interval t =
    t\<lparr>t_keys := map_retain (\<lambda>k cur. limiter_live (c_start cur) now window) (t_keys t),
      t_nextSweep := now + interval\<rparr>"

section \<open>Operations\<close>

text \<open>
  The body of \<open>Allow\<close> under the mutex, on the table: the sweep that is due, the tracked and
  live key, the bound on the number of keys, and the fresh window.
\<close>

definition allow_table ::
  "limiter \<Rightarrow> int \<Rightarrow> key \<Rightarrow> instant \<Rightarrow> limiter_table \<Rightarrow> bool \<times> limiter_table" where
  "allow_table l limit k now t =
    (let swept = \<not> now < t_nextSweep t;
         t1 = (if swept then sweepLocked now (l_window l) (l_sweepInterval l) t else t);
         cur = map_of (t_keys t1) k;
         tracked = (cur \<noteq> None)
     in case cur of
       Some c \<Rightarrow>
         if limiter_live (c_start c) now (l_window l) then
           (if c_n c \<ge> limit then (False, t1)
            else (True, t1\<lparr>t_keys := map_put k (c\<lparr>c_n := c_n c + 1\<rparr>) (t_keys t1)\<rparr>))
         else (True, t1\<lparr>t_keys := map_put k \<lparr>c_start = now, c_n = 1\<rparr> (t_keys t1)\<rparr>)
     | None \<Rightarrow>
         if int (length (t_keys t1)) \<ge> l_maxKeys l then
           (let t2 = (if \<not> swept then sweepLocked now (l_window l) (l_sweepInterval l) t1 else t1)
            in if int (length (t_keys t2)) \<ge> l_maxKeys l then (False, t2)
               else (True, t2\<lparr>t_keys := map_put k \<lparr>c_start = now, c_n = 1\<rparr> (t_keys t2)\<rparr>))
         else (True, t1\<lparr>t_keys := map_put k \<lparr>c_start = now, c_n = 1\<rparr> (t_keys t1)\<rparr>))"

definition limiter_Allow :: "limiter \<Rightarrow> Addr \<Rightarrow> int \<Rightarrow> instant \<Rightarrow> bool \<times> limiter" where
  "limiter_Allow l addr c now =
    (if c < 0 \<or> c \<ge> numClasses then (False, l)
     else if \<not> IsValid addr then (False, l)
     else let limit = l_limits l ! nat c in
       if limit < 1 then (False, l)
       else case l_state l of
         None \<Rightarrow> (False, l)
       | Some t \<Rightarrow>
           (let (ok, t') = allow_table l limit (makeKey addr c) now t
            in (ok, l\<lparr>l_state := Some t'\<rparr>)))"

definition limiter_Sweep :: "limiter \<Rightarrow> instant \<Rightarrow> limiter" where
  "limiter_Sweep l now =
    (case l_state l of
       None \<Rightarrow> l
     | Some t \<Rightarrow> l\<lparr>l_state := Some (sweepLocked now (l_window l) (l_sweepInterval l) t)\<rparr>)"

definition TrackedKeys :: "limiter \<Rightarrow> int" where
  "TrackedKeys l = (case l_state l of None \<Rightarrow> 0 | Some t \<Rightarrow> int (length (t_keys t)))"

section \<open>One key at a time\<close>

text \<open>
  Seen from one key, an operation is one of four steps: the request is counted in the current
  window, it opens a new window, it is refused because the window is full, or it is refused
  because the table is. An operation on another key, or a sweep, keeps the counter or drops
  an elapsed one. \<open>allow_table\<close> refines these steps.
\<close>

definition elapsed :: "duration \<Rightarrow> instant \<Rightarrow> counter option \<Rightarrow> bool" where
  "elapsed w now o' \<longleftrightarrow> (case o' of None \<Rightarrow> True | Some c \<Rightarrow> \<not> limiter_live (c_start c) now w)"

inductive key_step ::
  "duration \<Rightarrow> int \<Rightarrow> instant \<Rightarrow> counter option \<Rightarrow> bool \<Rightarrow> counter option \<Rightarrow> bool" where
  counted: "limiter_live (c_start c) now w \<Longrightarrow> c_n c < limit \<Longrightarrow>
    key_step w limit now (Some c) True (Some (c\<lparr>c_n := c_n c + 1\<rparr>))"
| opened: "elapsed w now cur \<Longrightarrow>
    key_step w limit now cur True (Some \<lparr>c_start = now, c_n = 1\<rparr>)"
| window_full: "limiter_live (c_start c) now w \<Longrightarrow> limit \<le> c_n c \<Longrightarrow>
    key_step w limit now (Some c) False (Some c)"
| table_full: "elapsed w now cur \<Longrightarrow> key_step w limit now cur False None"

inductive key_keep :: "duration \<Rightarrow> instant \<Rightarrow> counter option \<Rightarrow> counter option \<Rightarrow> bool" where
  kept: "key_keep w now cur cur"
| dropped: "elapsed w now cur \<Longrightarrow> key_keep w now cur None"

inductive_cases key_stepE: "key_step w limit now cur ok cur'"
inductive_cases key_keepE: "key_keep w now cur cur'"

lemma lookup_sweepLocked:
  assumes "map_ok (t_keys t)"
  shows "map_of (t_keys (sweepLocked now w i t)) k =
    (if elapsed w now (map_of (t_keys t) k) then None else map_of (t_keys t) k)"
  using gm.lookup_retain [OF assms, of "\<lambda>k cur. limiter_live (c_start cur) now w"]
  by (auto simp: sweepLocked_def elapsed_def split: option.splits)

lemma sweepLocked_map_ok [simp]: "map_ok (t_keys t) \<Longrightarrow> map_ok (t_keys (sweepLocked now w i t))"
  by (simp add: sweepLocked_def)

lemma sweepLocked_keep:
  assumes "map_ok (t_keys t)"
  shows "key_keep w now (map_of (t_keys t) k) (map_of (t_keys (sweepLocked now w i t)) k)"
  unfolding lookup_sweepLocked [OF assms] by (auto intro: key_keep.intros)

text \<open>The three shapes a call of \<open>allow_table\<close> can take, over the table after the due sweeps.\<close>

definition due_sweep :: "limiter \<Rightarrow> instant \<Rightarrow> limiter_table \<Rightarrow> limiter_table" where
  "due_sweep l now t =
    (if \<not> now < t_nextSweep t then sweepLocked now (l_window l) (l_sweepInterval l) t else t)"

lemma due_sweep_map_ok [simp]: "map_ok (t_keys t) \<Longrightarrow> map_ok (t_keys (due_sweep l now t))"
  by (simp add: due_sweep_def)

lemma lookup_due_sweep:
  assumes "map_ok (t_keys t)"
  shows "map_of (t_keys (due_sweep l now t)) k = map_of (t_keys t) k \<or>
    elapsed (l_window l) now (map_of (t_keys t) k) \<and> map_of (t_keys (due_sweep l now t)) k = None"
  using lookup_sweepLocked [OF assms] by (auto simp: due_sweep_def)

lemma due_sweep_live:
  assumes "map_ok (t_keys t)" and "map_of (t_keys (due_sweep l now t)) k = Some c"
  shows "map_of (t_keys t) k = Some c"
  using lookup_due_sweep [OF assms(1), of l now k] assms(2) by auto

lemma allow_table_shape:
  assumes ok: "map_ok (t_keys t)" and res: "allow_table l limit k now t = (b, t')"
  obtains (live) c where "map_of (t_keys t) k = Some c" "limiter_live (c_start c) now (l_window l)"
      "b \<longleftrightarrow> c_n c < limit"
      "t' = (if b then (due_sweep l now t)\<lparr>t_keys :=
        map_put k (c\<lparr>c_n := c_n c + 1\<rparr>) (t_keys (due_sweep l now t))\<rparr> else due_sweep l now t)"
  | (fresh) t2 where "elapsed (l_window l) now (map_of (t_keys t) k)" "b"
      "t2 = due_sweep l now t \<or>
        t2 = sweepLocked now (l_window l) (l_sweepInterval l) t"
      "t' = t2\<lparr>t_keys := map_put k \<lparr>c_start = now, c_n = 1\<rparr> (t_keys t2)\<rparr>"
      "map_of (t_keys t2) k \<noteq> None \<or> int (length (t_keys t2)) < l_maxKeys l"
  | (full) "elapsed (l_window l) now (map_of (t_keys t) k)" "\<not> b"
      "t' = sweepLocked now (l_window l) (l_sweepInterval l) t" "map_of (t_keys t') k = None"
proof -
  let ?t1 = "due_sweep l now t"
  show thesis
  proof (cases "map_of (t_keys ?t1) k")
    case (Some c)
    with due_sweep_live [OF ok this] res live fresh [of ?t1] show thesis
      by (auto simp: allow_table_def due_sweep_def Let_def elapsed_def split: if_splits)
  next
    case None
    have el: "elapsed (l_window l) now (map_of (t_keys t) k)"
      using lookup_due_sweep [OF ok, of l now k] None by (auto simp: elapsed_def)
    then have gone: "map_of (t_keys (sweepLocked now (l_window l) (l_sweepInterval l) t)) k = None"
      by (simp add: lookup_sweepLocked [OF ok])
    note fresh_swept = fresh [of "sweepLocked now (l_window l) (l_sweepInterval l) t", OF el]
    note fresh_due = fresh [of ?t1, OF el]
    show thesis
    proof (cases "int (length (t_keys ?t1)) < l_maxKeys l")
      case True
      with None res fresh_due show thesis
        by (auto simp: allow_table_def due_sweep_def Let_def split: if_splits)
    next
      case False
      with None res fresh_swept full [OF el] gone show thesis
        by (auto simp: allow_table_def due_sweep_def Let_def split: if_splits)
    qed
  qed
qed

lemma allow_table_own:
  assumes ok: "map_ok (t_keys t)" and res: "allow_table l limit k now t = (b, t')"
  shows "key_step (l_window l) limit now (map_of (t_keys t) k) b (map_of (t_keys t') k)"
  using ok res
proof (cases rule: allow_table_shape)
  case (live c)
  have due: "map_of (t_keys (due_sweep l now t)) k = Some c"
    using lookup_due_sweep [OF ok, of l now k] live(1,2) by (auto simp: elapsed_def)
  show ?thesis
  proof (cases b)
    case True
    with live key_step.counted [OF live(2)] show ?thesis by simp
  next
    case False
    with live due key_step.window_full [OF live(2)] show ?thesis by simp
  qed
next
  case (fresh t2)
  with key_step.opened [OF fresh(1)] show ?thesis by simp
next
  case full
  with key_step.table_full [OF full(1)] show ?thesis by simp
qed

lemma due_sweep_keep:
  assumes "map_ok (t_keys t)"
  shows "key_keep (l_window l) now (map_of (t_keys t) k) (map_of (t_keys (due_sweep l now t)) k)"
  using sweepLocked_keep [OF assms] by (auto simp: due_sweep_def intro: key_keep.kept)

lemma allow_table_other:
  assumes ok: "map_ok (t_keys t)" and res: "allow_table l limit k now t = (b, t')" and "k' \<noteq> k"
  shows "key_keep (l_window l) now (map_of (t_keys t) k') (map_of (t_keys t') k')"
  using ok res
proof (cases rule: allow_table_shape)
  case (live c)
  with due_sweep_keep [OF ok, of l now k'] \<open>k' \<noteq> k\<close> show ?thesis by simp
next
  case (fresh t2)
  from fresh(3) show ?thesis
    using due_sweep_keep [OF ok, of l now k'] sweepLocked_keep [OF ok] fresh(4) \<open>k' \<noteq> k\<close>
    by auto
next
  case full
  with sweepLocked_keep [OF ok] show ?thesis by simp
qed

lemma length_sweepLocked: "length (t_keys (sweepLocked now w i t)) \<le> length (t_keys t)"
  by (simp add: sweepLocked_def length_map_retain_le)

lemma allow_table_map_ok:
  assumes ok: "map_ok (t_keys t)" and res: "allow_table l limit k now t = (b, t')"
  shows "map_ok (t_keys t')"
  using ok res
proof (cases rule: allow_table_shape)
  case (live c)
  with ok show ?thesis by simp
next
  case (fresh t2)
  from fresh(3) ok have "map_ok (t_keys t2)" by auto
  with fresh(4) show ?thesis by simp
next
  case full
  with ok show ?thesis by simp
qed

lemma allow_table_length:
  assumes ok: "map_ok (t_keys t)" and res: "allow_table l limit k now t = (b, t')"
    and bound: "int (length (t_keys t)) \<le> l_maxKeys l"
  shows "int (length (t_keys t')) \<le> l_maxKeys l"
proof -
  have due: "length (t_keys (due_sweep l now t)) \<le> length (t_keys t)"
    by (simp add: due_sweep_def length_sweepLocked)
  from ok res show ?thesis
  proof (cases rule: allow_table_shape)
    case (live c)
    have "map_of (t_keys (due_sweep l now t)) k = Some c"
      using lookup_due_sweep [OF ok, of l now k] live(1,2) by (auto simp: elapsed_def)
    with live(4) due bound show ?thesis by (simp add: gm.len_put)
  next
    case (fresh t2)
    from fresh(3) due length_sweepLocked have "length (t_keys t2) \<le> length (t_keys t)" by auto
    with fresh(4,5) bound show ?thesis by (auto simp: gm.len_put)
  next
    case full
    with bound length_sweepLocked [of now "l_window l" "l_sweepInterval l" t] show ?thesis by simp
  qed
qed

section \<open>Runs\<close>

text \<open>
  Requests and the operator's periodic sweeps, in the order the mutex serialises them; a run
  returns the verdicts together with the limiter.
\<close>

datatype limiter_event = Request Addr int instant | SweepAt instant

fun event_time :: "limiter_event \<Rightarrow> instant" where
  "event_time (Request a c t) = t"
| "event_time (SweepAt t) = t"

fun limiter_step :: "limiter \<Rightarrow> limiter_event \<Rightarrow> bool \<times> limiter" where
  "limiter_step l (Request a c t) = limiter_Allow l a c t"
| "limiter_step l (SweepAt t) = (False, limiter_Sweep l t)"

text \<open>The times at which requests of one key were admitted, oldest first.\<close>

fun admitted :: "key \<Rightarrow> limiter \<Rightarrow> limiter_event list \<Rightarrow> instant list" where
  "admitted k l [] = []"
| "admitted k l (e # es) =
    (let (ok, l') = limiter_step l e in
     (case e of
        Request a c t \<Rightarrow> if ok \<and> makeKey a c = k then [t] else []
      | SweepAt t \<Rightarrow> []) @ admitted k l' es)"

fun limiter_after :: "limiter \<Rightarrow> limiter_event list \<Rightarrow> limiter" where
  "limiter_after l [] = l"
| "limiter_after l (e # es) = limiter_after (snd (limiter_step l e)) es"

text \<open>The invariant: distinct keys, no more than \<open>maxKeys\<close> of them, and a table.\<close>

definition limiter_ok :: "limiter \<Rightarrow> bool" where
  "limiter_ok l \<longleftrightarrow>
    (\<exists>t. l_state l = Some t \<and> map_ok (t_keys t) \<and> int (length (t_keys t)) \<le> l_maxKeys l)"

definition same_config :: "limiter \<Rightarrow> limiter \<Rightarrow> bool" where
  "same_config l l' \<longleftrightarrow> l_limits l = l_limits l' \<and> l_window l = l_window l' \<and>
    l_sweepInterval l = l_sweepInterval l' \<and> l_maxKeys l = l_maxKeys l'"

definition lookup_key :: "limiter \<Rightarrow> key \<Rightarrow> counter option" where
  "lookup_key l k = (case l_state l of None \<Rightarrow> None | Some t \<Rightarrow> map_of (t_keys t) k)"

lemma limiter_New_ok [simp]: "limiter_ok (limiter_New opts)"
  by (auto simp: limiter_ok_def limiter_New_def Let_def orIntDefault_def limiter_defaults)

lemma limiter_Sweep_ok [simp]: "limiter_ok l \<Longrightarrow> limiter_ok (limiter_Sweep l now)"
proof -
  assume "limiter_ok l"
  then obtain t where t: "l_state l = Some t" "map_ok (t_keys t)"
      "int (length (t_keys t)) \<le> l_maxKeys l"
    by (auto simp: limiter_ok_def)
  have "int (length (t_keys (sweepLocked now (l_window l) (l_sweepInterval l) t)))
      \<le> l_maxKeys l"
    using length_sweepLocked [of now "l_window l" "l_sweepInterval l" t] t(3) by linarith
  with t show "limiter_ok (limiter_Sweep l now)"
    by (simp add: limiter_ok_def limiter_Sweep_def)
qed

lemma limiter_Allow_table:
  assumes "limiter_ok l" and "limiter_Allow l a c now = (b, l')"
  shows "l' = l \<and> \<not> b \<or>
    (\<exists>t t'. 0 \<le> c \<and> c < numClasses \<and> IsValid a \<and> l_state l = Some t \<and>
      map_ok (t_keys t) \<and> int (length (t_keys t)) \<le> l_maxKeys l \<and>
      allow_table l (l_limits l ! nat c) (makeKey a c) now t = (b, t') \<and> l' = l\<lparr>l_state := Some t'\<rparr>)"
  using assms by (auto simp: limiter_ok_def limiter_Allow_def Let_def split: if_splits prod.splits)

lemma limiter_step_ok: "limiter_ok l \<Longrightarrow> limiter_ok (snd (limiter_step l e))"
proof (cases e)
  case (Request a c now)
  assume l: "limiter_ok l"
  obtain b l' where r: "limiter_Allow l a c now = (b, l')" by fastforce
  from limiter_Allow_table [OF l r] show ?thesis
    using l r Request allow_table_map_ok allow_table_length by (fastforce simp: limiter_ok_def)
qed simp

lemma limiter_step_config: "same_config l (snd (limiter_step l e))"
  by (cases e) (auto simp: same_config_def limiter_Allow_def limiter_Sweep_def Let_def
    split: option.splits prod.splits)

interpretation lim: stepped_component "\<lambda>e l. snd (limiter_step l e)" limiter_ok
  by unfold_locales (rule limiter_step_ok)

lemma limiter_after_run: "limiter_after l es = run_ops (\<lambda>e l. snd (limiter_step l e)) es l"
  by (induction es arbitrary: l) simp_all

lemma limiter_after_ok: "limiter_ok l \<Longrightarrow> limiter_ok (limiter_after l es)"
  unfolding limiter_after_run by (rule lim.run_inv)

section \<open>The bound over any interval of one window's length\<close>

definition count_if :: "('a \<Rightarrow> bool) \<Rightarrow> 'a list \<Rightarrow> nat" where
  "count_if P xs = length (filter P xs)"

lemma count_if_Nil [simp]: "count_if P [] = 0"
  by (simp add: count_if_def)

lemma count_if_snoc [simp]: "count_if P (xs @ [x]) = count_if P xs + (if P x then 1 else 0)"
  by (simp add: count_if_def)

lemma count_if_mono: "(\<And>x. x \<in> set xs \<Longrightarrow> P x \<Longrightarrow> Q x) \<Longrightarrow> count_if P xs \<le> count_if Q xs"
  by (induction xs) (auto simp: count_if_def intro: le_SucI)

lemma count_if_split:
  "(\<And>x. x \<in> set xs \<Longrightarrow> P x \<Longrightarrow> Q x \<or> R x) \<Longrightarrow>
    count_if P xs \<le> count_if Q xs + count_if R xs"
  by (induction xs) (auto simp: count_if_def intro: le_SucI)

lemma count_if_less:
  "y \<in> set xs \<Longrightarrow> Q y \<Longrightarrow> \<not> P y \<Longrightarrow> (\<And>x. x \<in> set xs \<Longrightarrow> P x \<Longrightarrow> Q x) \<Longrightarrow>
    count_if P xs < count_if Q xs"
proof (induction xs)
  case (Cons x xs)
  have "count_if P xs \<le> count_if Q xs" by (rule count_if_mono) (use Cons.prems in auto)
  with Cons show ?case by (auto simp: count_if_def)
qed simp

text \<open>
  What the history \<open>h\<close> of one key's admitted requests and its counter have in common. The
  counter counts the requests since its window opened; everything older is older than the
  window's start, and of it fewer than \<open>limit\<close> requests lie within one window's length of that
  start, since the first of them opened a window that had elapsed.
\<close>

definition key_inv ::
  "duration \<Rightarrow> int \<Rightarrow> instant \<Rightarrow> instant list \<Rightarrow> counter option \<Rightarrow> bool" where
  "key_inv w limit now h cur \<longleftrightarrow>
    (\<forall>t \<in> set h. t \<le> now) \<and>
    (\<forall>a. int (count_if (\<lambda>t. a \<le> t \<and> t < a + w) h) < 2 * limit) \<and>
    (case cur of
       None \<Rightarrow> (\<forall>t \<in> set h. t < now) \<and>
         (\<forall>a. now - w < a \<longrightarrow> int (count_if (\<lambda>t. a \<le> t) h) < limit)
     | Some c \<Rightarrow> c_start c \<le> now \<and> c_start c \<in> set h \<and>
         (\<forall>t \<in> set h. t < c_start c + w) \<and>
         int (count_if (\<lambda>t. c_start c \<le> t) h) = c_n c \<and> c_n c \<le> limit \<and>
         (\<forall>a. c_start c - w < a \<longrightarrow>
           int (count_if (\<lambda>t. a \<le> t \<and> t < c_start c) h) < limit))"

lemma limiter_live_iff:
  assumes "start \<le> now" and "is_i64 w"
  shows "limiter_live start now w \<longleftrightarrow> now < start + w"
  using assms by (auto simp: limiter_live_def time_Sub_def is_i64_def Let_def)

lemma key_inv_elapsed:
  assumes inv: "key_inv w limit now h cur" and now: "now \<le> now'" and w: "is_i64 w" "0 < w"
    and el: "elapsed w now' cur"
  shows "(\<forall>t \<in> set h. t < now' \<or> h = []) \<and>
    (\<forall>a. now' - w < a \<longrightarrow> int (count_if (\<lambda>t. a \<le> t) h) < limit)"
proof (cases cur)
  case None
  with inv now show ?thesis by (force simp: key_inv_def)
next
  case (Some c)
  with inv now w el have gone: "c_start c + w \<le> now'"
    using limiter_live_iff [of "c_start c" now' w] by (auto simp: key_inv_def elapsed_def)
  have "int (count_if (\<lambda>t. a \<le> t) h) < limit" if a: "now' - w < a" for a
  proof -
    have "count_if (\<lambda>t. a \<le> t) h < count_if (\<lambda>t. c_start c \<le> t) h"
      using gone a inv Some by (intro count_if_less [of "c_start c"]) (auto simp: key_inv_def)
    with inv Some show ?thesis by (auto simp: key_inv_def)
  qed
  moreover have "\<forall>t \<in> set h. t < now'"
    using inv Some gone by (force simp: key_inv_def)
  ultimately show ?thesis by auto
qed

lemma key_inv_drop:
  assumes "key_inv w limit now h cur" and "now \<le> now'" and "is_i64 w" and "0 < w"
    and "elapsed w now' cur"
  shows "key_inv w limit now' h None"
  using key_inv_elapsed [OF assms] assms(1,2) by (force simp: key_inv_def)

lemma key_inv_later:
  assumes inv: "key_inv w limit now h cur" and now: "now \<le> now'"
  shows "key_inv w limit now' h cur"
  using assms by (cases cur) (force simp: key_inv_def)+

lemma key_inv_keep:
  assumes "key_inv w limit now h cur" and "now \<le> now'" and "is_i64 w" and "0 < w"
    and keep: "key_keep w now' cur cur'"
  shows "key_inv w limit now' h cur'"
  using keep key_inv_drop [OF assms(1-4)] key_inv_later [OF assms(1,2)]
  by (auto elim: key_keepE)

lemma key_inv_window:
  assumes inv: "key_inv w limit now h cur" and now: "now \<le> now'"
    and old: "\<And>a. s - w < a \<Longrightarrow> int (count_if (\<lambda>t. a \<le> t \<and> t < s) h) < limit"
    and cur: "int (count_if (\<lambda>t. s \<le> t) h) < limit" and s: "s \<le> now'"
  shows "int (count_if (\<lambda>t. a \<le> t \<and> t < a + w) (h @ [now'])) < 2 * limit"
proof (cases "a \<le> now' \<and> now' < a + w")
  case True
  with s have "int (count_if (\<lambda>t. a \<le> t \<and> t < s) h) < limit" by (intro old) linarith
  moreover have "count_if (\<lambda>t. a \<le> t \<and> t < a + w) h \<le>
      count_if (\<lambda>t. a \<le> t \<and> t < s) h + count_if (\<lambda>t. s \<le> t) h"
    by (rule count_if_split) linarith
  ultimately show ?thesis using True cur by simp
next
  case False
  with inv show ?thesis by (auto simp: key_inv_def)
qed

lemma key_inv_step:
  assumes inv: "key_inv w limit now h cur" and now: "now \<le> now'" and w: "is_i64 w" "0 < w"
    and limit: "1 \<le> limit" and step: "key_step w limit now' cur ok cur'"
  shows "key_inv w limit now' (if ok then h @ [now'] else h) cur'"
  using step
proof cases
  case (counted c)
  with inv now have start: "c_start c \<le> now'" by (auto simp: key_inv_def)
  have "int (count_if (\<lambda>t. a \<le> t \<and> t < a + w) (h @ [now'])) < 2 * limit" for a
    by (rule key_inv_window [OF inv now _ _ start]) (use inv counted in \<open>auto simp: key_inv_def\<close>)
  with inv counted now w start show ?thesis
    using limiter_live_iff [OF start w(1)] by (force simp: key_inv_def)
next
  case opened
  note el = key_inv_elapsed [OF inv now w opened(3)]
  have old: "int (count_if (\<lambda>t. a \<le> t \<and> t < now') h) < limit" if "now' - w < a" for a
  proof -
    have "count_if (\<lambda>t. a \<le> t \<and> t < now') h \<le> count_if (\<lambda>t. a \<le> t) h"
      by (rule count_if_mono) simp
    with el that show ?thesis by force
  qed
  have none: "count_if (\<lambda>t. now' \<le> t) h = 0"
    using el by (force simp: count_if_def filter_empty_conv)
  have "int (count_if (\<lambda>t. a \<le> t \<and> t < a + w) (h @ [now'])) < 2 * limit" for a
    by (rule key_inv_window [OF inv now old]) (use none limit in auto)
  with opened inv now w old none limit show ?thesis by (force simp: key_inv_def)
next
  case (window_full c)
  with key_inv_later [OF inv now] show ?thesis by simp
next
  case table_full
  with key_inv_drop [OF inv now w] show ?thesis by simp
qed

section \<open>From steps of one key to runs of the limiter\<close>

lemma makeKey_class: "k_class (makeKey a c) = nat (c mod 256)"
  by (auto simp: makeKey_def Let_def split: Addr.splits)

lemma class_index: "0 \<le> c \<Longrightarrow> c < numClasses \<Longrightarrow> k_class (makeKey a c) = nat c"
  by (simp add: makeKey_class numClasses_def)

lemma limiter_New_limits: "0 \<le> c \<Longrightarrow> c < numClasses \<Longrightarrow> 1 \<le> l_limits (limiter_New opts) ! nat c"
proof -
  assume "0 \<le> c" "c < numClasses"
  then have "nat c = 0 \<or> nat c = 1 \<or> nat c = 2" by (auto simp: numClasses_def)
  then show ?thesis
    by (auto simp: limiter_New_def Let_def orIntDefault_def limiter_defaults)
qed

lemma limiter_New_window:
  "is_i64 (o_Window opts) \<Longrightarrow> is_i64 (l_window (limiter_New opts)) \<and> 0 < l_window (limiter_New opts)"
  by (auto simp: limiter_New_def Let_def orDurationDefault_def limiter_defaults is_i64_def)

lemma limiter_New_interval:
  "0 < l_sweepInterval (limiter_New opts)"
  by (auto simp: limiter_New_def Let_def orDurationDefault_def limiter_defaults)

lemma limiter_step_own:
  assumes l: "limiter_ok l" and r: "limiter_Allow l a c now = (b, l')"
  shows "(lookup_key l' (makeKey a c) = lookup_key l (makeKey a c) \<and> \<not> b) \<or>
    0 \<le> c \<and> c < numClasses \<and>
    key_step (l_window l) (l_limits l ! nat c) now (lookup_key l (makeKey a c)) b
      (lookup_key l' (makeKey a c))"
  using limiter_Allow_table [OF l r] allow_table_own by (fastforce simp: lookup_key_def)

lemma limiter_step_other:
  assumes l: "limiter_ok l" and r: "limiter_Allow l a c now = (b, l')" and k: "k \<noteq> makeKey a c"
  shows "key_keep (l_window l) now (lookup_key l k) (lookup_key l' k)"
  using limiter_Allow_table [OF l r] allow_table_other [OF _ _ k] key_keep.kept
  by (fastforce simp: lookup_key_def)

lemma limiter_Sweep_keep:
  assumes "limiter_ok l"
  shows "key_keep (l_window l) now (lookup_key l k) (lookup_key (limiter_Sweep l now) k)"
  using assms sweepLocked_keep by (fastforce simp: limiter_ok_def lookup_key_def limiter_Sweep_def)

lemma same_config_trans: "same_config l l' \<Longrightarrow> same_config l' l'' \<Longrightarrow> same_config l l''"
  by (simp add: same_config_def)

lemma limiter_after_config: "same_config l (limiter_after l es)"
proof (induction es arbitrary: l)
  case Nil
  show ?case by (simp add: same_config_def)
next
  case (Cons e es)
  show ?case
    using same_config_trans [OF limiter_step_config [of l e] Cons.IH [of "snd (limiter_step l e)"]]
    by simp
qed

lemma event_key_inv:
  assumes l: "limiter_ok l" and now: "now \<le> event_time e" and w: "is_i64 (l_window l)" "0 < l_window l"
    and limit: "1 \<le> l_limits l ! k_class k"
    and inv: "key_inv (l_window l) (l_limits l ! k_class k) now h (lookup_key l k)"
  shows "key_inv (l_window l) (l_limits l ! k_class k) (event_time e)
    (h @ admitted k l [e]) (lookup_key (snd (limiter_step l e)) k)"
proof (cases e)
  case (SweepAt t)
  with limiter_Sweep_keep [OF l, of t k] key_inv_keep [OF inv now w] show ?thesis by simp
next
  case (Request a c t)
  obtain b l' where r: "limiter_Allow l a c t = (b, l')" by fastforce
  show ?thesis
  proof (cases "makeKey a c = k")
    case True
    from limiter_step_own [OF l r] show ?thesis
    proof
      assume "lookup_key l' (makeKey a c) = lookup_key l (makeKey a c) \<and> \<not> b"
      with Request r True key_inv_later [OF inv now] show ?thesis by simp
    next
      assume own: "0 \<le> c \<and> c < numClasses \<and>
        key_step (l_window l) (l_limits l ! nat c) t (lookup_key l (makeKey a c)) b
          (lookup_key l' (makeKey a c))"
      with True have "key_step (l_window l) (l_limits l ! k_class k) t (lookup_key l k) b
          (lookup_key l' k)"
        using class_index [of c a] by auto
      with Request have "key_inv (l_window l) (l_limits l ! k_class k) (event_time e)
          (if b then h @ [t] else h) (lookup_key l' k)"
        using key_inv_step [OF inv now w limit, of b "lookup_key l' k"]
        by (simp split: if_splits)
      with Request r True show ?thesis by (cases b) simp_all
    qed
  next
    case False
    with limiter_step_other [OF l r] key_inv_keep [OF inv now w] Request r show ?thesis by auto
  qed
qed

lemma admitted_Cons: "admitted k l (e # es) = admitted k l [e] @ admitted k (snd (limiter_step l e)) es"
  by (simp add: Let_def split: prod.splits)

lemma run_key_inv:
  assumes "limiter_ok l" and "\<forall>e \<in> set es. now \<le> event_time e" and "sorted (map event_time es)"
    and "is_i64 (l_window l)" "0 < l_window l" and "1 \<le> l_limits l ! k_class k"
    and "key_inv (l_window l) (l_limits l ! k_class k) now h (lookup_key l k)"
  shows "\<exists>now'. key_inv (l_window l) (l_limits l ! k_class k) now' (h @ admitted k l es)
    (lookup_key (limiter_after l es) k)"
  using assms
proof (induction es arbitrary: l now h)
  case Nil
  then show ?case by auto
next
  case (Cons e es)
  let ?l = "snd (limiter_step l e)"
  from limiter_step_config [of l e] have conf: "l_limits ?l = l_limits l" "l_window ?l = l_window l"
    by (simp_all add: same_config_def)
  from Cons.prems have "key_inv (l_window l) (l_limits l ! k_class k) (event_time e)
      (h @ admitted k l [e]) (lookup_key ?l k)"
    by (intro event_key_inv) auto
  with Cons.prems conf have "\<exists>now'. key_inv (l_window ?l) (l_limits ?l ! k_class k) now'
      ((h @ admitted k l [e]) @ admitted k ?l es) (lookup_key (limiter_after ?l es) k)"
    by (intro Cons.IH [where now = "event_time e"] limiter_step_ok) simp_all
  with conf show ?case by (simp only: admitted_Cons [of k l e es] append_assoc limiter_after.simps)
qed

text \<open>
  C6. Whatever the sequence of requests and sweeps, as long as the clock does not run
  backwards, the requests admitted for one truncated network and one class within any interval
  of one window's length are fewer than twice the limit of the class.
\<close>

theorem limiter_window_bound:
  assumes "sorted (map event_time es)" and "is_i64 (o_Window opts)"
    and "0 \<le> c" and "c < numClasses"
  shows "int (length (filter (\<lambda>t. a \<le> t \<and> t < a + l_window (limiter_New opts))
      (admitted (makeKey addr c) (limiter_New opts) es)))
    < 2 * l_limits (limiter_New opts) ! nat c"
proof -
  let ?l = "limiter_New opts"
  let ?now = "case es of [] \<Rightarrow> 0 | e # _ \<Rightarrow> event_time e"
  note limits = limiter_New_limits [OF assms(3,4), of opts]
  have "key_inv (l_window ?l) (l_limits ?l ! nat c) ?now [] (lookup_key ?l (makeKey addr c))"
    using limits by (simp add: key_inv_def lookup_key_def limiter_New_def Let_def)
  moreover have "\<forall>e \<in> set es. ?now \<le> event_time e"
    using assms(1) by (cases es) auto
  ultimately obtain now' where "key_inv (l_window ?l) (l_limits ?l ! nat c) now'
      ([] @ admitted (makeKey addr c) ?l es) (lookup_key (limiter_after ?l es) (makeKey addr c))"
    using run_key_inv [of ?l es ?now "makeKey addr c" "[]"] assms limits
      limiter_New_window [OF assms(2)] class_index [OF assms(3,4), of addr] by auto
  then show ?thesis by (simp add: key_inv_def count_if_def)
qed

theorem limiter_window_bound_witness:
  "let opts = \<lparr>o_PutRecord = 2, o_GetRecord = 0, o_Signal = 0, o_Window = 10, o_MaxKeys = 0\<rparr>;
       es = map (Request (Addr4 0x01020304) 0) [0, 9, 9, 10, 10, 11];
       inside = filter (\<lambda>t. 2 \<le> t \<and> t < 2 + l_window (limiter_New opts))
         (admitted (makeKey (Addr4 0x01020304) 0) (limiter_New opts) es)
   in int (length inside) < 2 * l_limits (limiter_New opts) ! nat 0"
proof -
  let ?opts = "\<lparr>o_PutRecord = 2, o_GetRecord = 0, o_Signal = 0, o_Window = 10, o_MaxKeys = 0\<rparr>"
  let ?es = "map (Request (Addr4 0x01020304) 0) [0, 9, 9, 10, 10, 11]"
  show ?thesis
    unfolding Let_def
    by (rule limiter_window_bound [of ?es ?opts 0 2 "Addr4 0x01020304"])
      (simp_all add: is_i64_def numClasses_def)
qed

section \<open>The truncated key\<close>

lemma As4_net: "(As4 v)[3 := 0] = be_bytes 3 (unat v div 256) @ [0]"
  proof -
  have "be_bytes 4 n = be_bytes 3 (n div 256) @ [byte_of (n mod 256)]" for n
    using be_bytes.simps(2) [of 3 n] by simp
  then show ?thesis by (simp add: As4_def list_update_append)
qed

lemma As16_net: "take 8 (As16 w) = be_bytes 8 (unat w div 256 ^ 8)"
  using take_be_bytes [of 8 8 "unat w"] by (simp add: As16_def)

lemma As4_net_eq: "(As4 v)[3 := 0] = (As4 u)[3 := 0] \<longleftrightarrow> drop_bit 8 v = drop_bit 8 u"
proof -
  have "unat (x :: 32 word) < 256 ^ 3 * 256" for x
    by (rule order.strict_trans2 [OF unsigned_less]) simp
  then have "unat (x :: 32 word) div 256 < 256 ^ 3" for x
    by (intro less_mult_imp_div_less)
  then have "(As4 v)[3 := 0] = (As4 u)[3 := 0] \<longleftrightarrow> unat v div 256 = unat u div 256"
    unfolding As4_net using be_bytes_inject [of 3] by auto
  also have "\<dots> \<longleftrightarrow> unat (drop_bit 8 v) = unat (drop_bit 8 u)"
    by (simp add: drop_bit_eq_div unat_div_distrib)
  finally show ?thesis by (simp only: unsigned_word_eqI word_unat_eq_iff)
qed

lemma As16_net_eq: "take 8 (As16 v) = take 8 (As16 u) \<longleftrightarrow> drop_bit 64 v = drop_bit 64 u"
proof -
  have "unat (x :: 128 word) < 256 ^ 8 * 256 ^ 8" for x
    by (rule order.strict_trans2 [OF unsigned_less]) simp
  then have "unat (x :: 128 word) div 256 ^ 8 < 256 ^ 8" for x
    by (intro less_mult_imp_div_less)
  then have "take 8 (As16 v) = take 8 (As16 u) \<longleftrightarrow> unat v div 256 ^ 8 = unat u div 256 ^ 8"
    unfolding As16_net using be_bytes_inject [of 8] by auto
  also have "\<dots> \<longleftrightarrow> unat (drop_bit 64 v) = unat (drop_bit 64 u)"
    by (simp add: drop_bit_eq_div unat_div_distrib)
  finally show ?thesis by (simp only: word_unat_eq_iff)
qed

text \<open>
  The key forgets exactly the host bits: two valid addresses and two classes share a
  counter if and only if the classes agree and the addresses, once an IPv4-mapped one is
  unmapped, lie in the same IPv4 /24 or the same IPv6 /64. No IPv4 network shares a key with
  an IPv6 one.
\<close>

theorem makeKey_truncates:
  assumes "IsValid a" "IsValid b" and "0 \<le> c" "c < numClasses" "0 \<le> d" "d < numClasses"
  shows "makeKey a c = makeKey b d \<longleftrightarrow> c = d \<and>
    (case (Unmap a, Unmap b) of
       (Addr4 v, Addr4 u) \<Rightarrow> drop_bit 8 v = drop_bit 8 u
     | (Addr6 w y, Addr6 x z) \<Rightarrow> drop_bit 64 w = drop_bit 64 x
     | _ \<Rightarrow> False)"
proof -
  have cls: "nat (c mod 256) = nat (d mod 256) \<longleftrightarrow> c = d"
    using assms by (auto simp: numClasses_def)
  have "IsValid (Unmap a)" "IsValid (Unmap b)" using assms by simp_all
  then show ?thesis
    using cls by (auto simp: makeKey_def Let_def IsValid_def As4_net_eq As16_net_eq
      split: Addr.splits)
qed

theorem makeKey_truncates_witness:
  "makeKey (Addr4 0x01020304) 2 = makeKey (Addr4 0x010203ff) 2 \<longleftrightarrow>
     (2 :: int) = 2 \<and> drop_bit 8 (0x01020304 :: 32 word) = drop_bit 8 0x010203ff"
  using makeKey_truncates [of "Addr4 0x01020304" "Addr4 0x010203ff" 2 2]
  by (simp add: IsValid_def numClasses_def)

section \<open>Isolation, capacity and retention\<close>

lemma lookup_key_step_other:
  assumes l: "limiter_ok l" and c: "lookup_key l k = Some cur"
    and live: "limiter_live (c_start cur) (event_time e) (l_window l)"
    and other: "case e of Request a cl t \<Rightarrow> makeKey a cl \<noteq> k | SweepAt t \<Rightarrow> True"
  shows "lookup_key (snd (limiter_step l e)) k = Some cur"
proof (cases e)
  case (SweepAt t)
  with limiter_Sweep_keep [OF l, of t k] c live show ?thesis
    by (auto simp: elapsed_def elim!: key_keepE)
next
  case (Request a cl t)
  obtain b l' where r: "limiter_Allow l a cl t = (b, l')" by fastforce
  from Request other have "k \<noteq> makeKey a cl" by auto
  from limiter_step_other [OF l r this] r Request c live show ?thesis
    by (auto simp: elapsed_def elim!: key_keepE)
qed

lemma lookup_key_run_other:
  assumes "limiter_ok l" and "lookup_key l k = Some cur"
    and "\<forall>e \<in> set es. limiter_live (c_start cur) (event_time e) (l_window l)"
    and "\<forall>e \<in> set es. case e of Request a cl t \<Rightarrow> makeKey a cl \<noteq> k | SweepAt t \<Rightarrow> True"
  shows "lookup_key (limiter_after l es) k = Some cur"
  using assms
proof (induction es arbitrary: l)
  case (Cons e es)
  let ?l = "snd (limiter_step l e)"
  have "lookup_key ?l k = Some cur" using Cons.prems by (intro lookup_key_step_other) auto
  moreover have "l_window ?l = l_window l"
    using limiter_step_config [of l e] by (simp add: same_config_def)
  ultimately show ?case using Cons.prems limiter_step_ok by (auto intro!: Cons.IH)
qed simp

text \<open>
  C23. Isolation. A network whose window is open is admitted exactly while its own counter is
  below its limit, whatever requests other networks and classes made in between, even when
  they have filled the table, and whatever sweeps ran.
\<close>

theorem limiter_isolation:
  assumes l: "limiter_ok l" and key: "lookup_key l (makeKey addr c) = Some cur"
    and others: "\<forall>e \<in> set es. case e of Request a cl t \<Rightarrow> makeKey a cl \<noteq> makeKey addr c
      | SweepAt t \<Rightarrow> True"
    and live: "\<forall>e \<in> set es. limiter_live (c_start cur) (event_time e) (l_window l)"
    and now: "limiter_live (c_start cur) now (l_window l)"
    and req: "0 \<le> c" "c < numClasses" "IsValid addr" "1 \<le> l_limits l ! nat c"
  shows "fst (limiter_Allow (limiter_after l es) addr c now) \<longleftrightarrow> c_n cur < l_limits l ! nat c"
proof -
  let ?l = "limiter_after l es"
  have k: "lookup_key ?l (makeKey addr c) = Some cur"
    using lookup_key_run_other [OF l key live others] .
  have conf: "l_limits ?l = l_limits l" "l_window ?l = l_window l"
    using limiter_after_config [of l es] by (simp_all add: same_config_def)
  from limiter_after_ok [OF l, of es] obtain t where
    t: "l_state ?l = Some t" "map_ok (t_keys t)" by (auto simp: limiter_ok_def)
  obtain b t' where r: "allow_table ?l (l_limits l ! nat c) (makeKey addr c) now t = (b, t')"
    by fastforce
  from allow_table_own [OF t(2) r] k t conf now have "b \<longleftrightarrow> c_n cur < l_limits l ! nat c"
    by (auto simp: lookup_key_def elapsed_def elim!: key_stepE)
  with r t conf req show ?thesis by (simp add: limiter_Allow_def)
qed

theorem limiter_isolation_witness:
  "let l = \<lparr>l_limits = [2, 2, 2], l_window = 10, l_sweepInterval = 1, l_maxKeys = 1,
         l_state = Some \<lparr>t_keys = [(makeKey (Addr4 0x01020304) 0, \<lparr>c_start = 0, c_n = 1\<rparr>)],
           t_nextSweep = 0\<rparr>\<rparr>
   in fst (limiter_Allow (limiter_after l [Request (Addr4 0x05060708) 0 3, SweepAt 5])
      (Addr4 0x01020304) 0 9) \<longleftrightarrow> (1 :: int) < [2, 2, 2] ! 0"
proof -
  let ?k = "makeKey (Addr4 0x01020304) 0"
  let ?l = "\<lparr>l_limits = [2, 2, 2], l_window = 10, l_sweepInterval = 1, l_maxKeys = 1,
    l_state = Some \<lparr>t_keys = [(?k, \<lparr>c_start = 0, c_n = 1\<rparr>)], t_nextSweep = 0\<rparr>\<rparr>"
  let ?es = "[Request (Addr4 0x05060708) 0 3, SweepAt 5]"
  have other: "makeKey (Addr4 0x05060708) 0 \<noteq> ?k"
    by (simp add: makeKey_def As4_net_eq)
  have "limiter_ok ?l" by (simp add: limiter_ok_def map_ok_def)
  then have "fst (limiter_Allow (limiter_after ?l ?es) (Addr4 0x01020304) 0 9) \<longleftrightarrow>
      c_n \<lparr>c_start = 0, c_n = 1\<rparr> < l_limits ?l ! nat 0"
    by (rule limiter_isolation)
      (use other in \<open>simp_all add: lookup_key_def limiter_live_def time_Sub_def numClasses_def
        IsValid_def\<close>)
  then show ?thesis by (simp add: Let_def)
qed

text \<open>
  Bounded memory. After any sequence of requests and sweeps, at any times, a limiter made
  by \<open>New\<close> tracks no more than \<open>maxKeys\<close> networks.
\<close>

theorem limiter_capacity:
  "TrackedKeys (limiter_after (limiter_New opts) es) \<le> l_maxKeys (limiter_New opts)"
proof -
  have "limiter_ok (limiter_after (limiter_New opts) es)"
    by (rule limiter_after_ok) simp
  moreover have "l_maxKeys (limiter_after (limiter_New opts) es) = l_maxKeys (limiter_New opts)"
    using limiter_after_config [of "limiter_New opts" es] by (simp add: same_config_def)
  ultimately show ?thesis by (auto simp: limiter_ok_def TrackedKeys_def)
qed

text \<open>
  Every tracked window opened before now, and its end lies after the last sweep, which is at
  \<open>t_nextSweep - l_sweepInterval\<close>.
\<close>

definition table_fresh :: "duration \<Rightarrow> duration \<Rightarrow> instant \<Rightarrow> limiter_table \<Rightarrow> bool" where
  "table_fresh w i now t \<longleftrightarrow> t_nextSweep t - i \<le> now \<and>
    (\<forall>e \<in> set (t_keys t). c_start (snd e) \<le> now \<and> t_nextSweep t - i < c_start (snd e) + w)"

lemma table_fresh_later: "table_fresh w i now t \<Longrightarrow> now \<le> now' \<Longrightarrow> table_fresh w i now' t"
  by (auto simp: table_fresh_def)

lemma table_fresh_sweep:
  assumes "table_fresh w i now t" and "now \<le> now'" and "is_i64 w"
  shows "table_fresh w i now' (sweepLocked now' w i t)"
  using assms limiter_live_iff by (fastforce simp: table_fresh_def sweepLocked_def map_retain_def)

lemma set_map_put: "set (map_put k v m) \<subseteq> insert (k, v) (set m)"
  by (induction k v m rule: map_put.induct) auto

lemma table_fresh_put:
  assumes "table_fresh w i now t" and "c_start c \<le> now" and "t_nextSweep t - i < c_start c + w"
  shows "table_fresh w i now (t\<lparr>t_keys := map_put k c (t_keys t)\<rparr>)"
  using assms set_map_put [of k c "t_keys t"] by (auto simp: table_fresh_def)

lemma allow_table_fresh:
  assumes ok: "map_ok (t_keys t)" and res: "allow_table l limit k now' t = (b, t')"
    and fresh: "table_fresh (l_window l) (l_sweepInterval l) now t" and now: "now \<le> now'"
    and w: "is_i64 (l_window l)" "0 < l_window l" and i: "0 < l_sweepInterval l"
  shows "table_fresh (l_window l) (l_sweepInterval l) now' t' \<and> now' < t_nextSweep t'"
proof -
  let ?fresh = "table_fresh (l_window l) (l_sweepInterval l) now'"
  note swept = table_fresh_sweep [OF fresh now w(1)]
  have due: "?fresh (due_sweep l now' t) \<and> now' < t_nextSweep (due_sweep l now' t)"
    using swept table_fresh_later [OF fresh now] i by (auto simp: due_sweep_def sweepLocked_def)
  from ok res show ?thesis
  proof (cases rule: allow_table_shape)
    case (live c)
    have "map_of (t_keys (due_sweep l now' t)) k = Some c"
      using lookup_due_sweep [OF ok, of l now' k] live(1,2) by (auto simp: elapsed_def)
    then have "(k, c) \<in> set (t_keys (due_sweep l now' t))" by (rule map_of_SomeD)
    with due have "c_start c \<le> now' \<and>
        t_nextSweep (due_sweep l now' t) - l_sweepInterval l < c_start c + l_window l"
      by (force simp: table_fresh_def)
    with live(4) due table_fresh_put show ?thesis by auto
  next
    case (fresh t2)
    have "?fresh t2 \<and> now' < t_nextSweep t2"
      using fresh(3) due swept i by (auto simp: sweepLocked_def)
    moreover from this have "t_nextSweep t2 - l_sweepInterval l < now' + l_window l"
      using w by (auto simp: table_fresh_def)
    ultimately show ?thesis using fresh(4) table_fresh_put [of _ _ now' t2] by auto
  next
    case full
    with swept i show ?thesis by (simp add: sweepLocked_def)
  qed
qed

definition limiter_fresh :: "instant \<Rightarrow> limiter \<Rightarrow> bool" where
  "limiter_fresh now l \<longleftrightarrow> limiter_ok l \<and> is_i64 (l_window l) \<and> 0 < l_window l \<and>
    0 < l_sweepInterval l \<and> (\<forall>c. 0 \<le> c \<and> c < numClasses \<longrightarrow> 1 \<le> l_limits l ! nat c) \<and>
    (case l_state l of None \<Rightarrow> False
     | Some t \<Rightarrow> table_fresh (l_window l) (l_sweepInterval l) now t)"

text \<open>An event that reaches the table: a sweep, or a request with an address and a class.\<close>

fun reaches_table :: "limiter_event \<Rightarrow> bool" where
  "reaches_table (Request a c t) \<longleftrightarrow> IsValid a \<and> 0 \<le> c \<and> c < numClasses"
| "reaches_table (SweepAt t) \<longleftrightarrow> True"

lemma limiter_after_snoc: "limiter_after l (es @ [e]) = snd (limiter_step (limiter_after l es) e)"
  by (induction es arbitrary: l) simp_all

lemma limiter_step_fresh:
  assumes fresh: "limiter_fresh now l" and now: "now \<le> event_time e"
  shows "limiter_fresh (event_time e) (snd (limiter_step l e)) \<and>
    (reaches_table e \<longrightarrow> (\<exists>t. l_state (snd (limiter_step l e)) = Some t \<and>
      event_time e < t_nextSweep t))"
proof (cases e)
  case (SweepAt t)
  then show ?thesis
    using fresh now limiter_step_ok [of l e] table_fresh_sweep
    by (auto simp: limiter_fresh_def limiter_Sweep_def sweepLocked_def split: option.splits)
next
  case (Request a c t)
  obtain b l' where r: "limiter_Allow l a c t = (b, l')" by fastforce
  from fresh have l: "limiter_ok l" by (simp add: limiter_fresh_def)
  show ?thesis
  proof (cases "reaches_table e")
    case True
    from fresh obtain tb where tb: "l_state l = Some tb" "map_ok (t_keys tb)"
      "table_fresh (l_window l) (l_sweepInterval l) now tb"
      by (auto simp: limiter_fresh_def limiter_ok_def)
    obtain ok tb' where at: "allow_table l (l_limits l ! nat c) (makeKey a c) t tb = (ok, tb')"
      by fastforce
    have "l' = l\<lparr>l_state := Some tb'\<rparr>"
      using r True Request tb at fresh by (auto simp: limiter_Allow_def limiter_fresh_def)
    with allow_table_fresh [OF tb(2) at tb(3)] fresh now Request r limiter_step_ok [OF l, of e]
    show ?thesis by (auto simp: limiter_fresh_def)
  next
    case False
    with Request r have "l' = l" by (auto simp: limiter_Allow_def split: if_splits)
    with False fresh now Request r table_fresh_later show ?thesis
      by (auto simp: limiter_fresh_def split: option.splits)
  qed
qed

lemma limiter_run_fresh:
  assumes "limiter_fresh now l" and "sorted (map event_time es)" and "\<forall>e \<in> set es. now \<le> event_time e"
  shows "limiter_fresh (if es = [] then now else event_time (last es)) (limiter_after l es)"
  using assms
proof (induction es arbitrary: now l)
  case (Cons e es)
  let ?l = "snd (limiter_step l e)"
  have "limiter_fresh (event_time e) ?l"
    using limiter_step_fresh [OF Cons.prems(1)] Cons.prems(3) by simp
  with Cons.IH [of "event_time e" ?l] Cons.prems(2) show ?case by (cases es) simp_all
qed simp

lemma limiter_New_fresh:
  assumes "is_i64 (o_Window opts)" and "zero_time \<le> now"
  shows "limiter_fresh now (limiter_New opts)"
proof -
  have state: "l_state (limiter_New opts) = Some \<lparr>t_keys = [], t_nextSweep = zero_time\<rparr>"
    by (simp add: limiter_New_def Let_def)
  show ?thesis
    using assms(2) limiter_New_window [OF assms(1)] limiter_New_limits [of _ opts]
      limiter_New_interval [of opts]
    by (simp add: limiter_fresh_def state table_fresh_def)
qed

text \<open>
  Retention. As long as the clock does not run backwards, once a request (with an address
  and a known class) or a sweep has been served at time \<open>now\<close>, the limiter holds no state whose
  window ended more than one sweep interval ago: every tracked window satisfies
  \<open>now < start + window + sweepInterval\<close>.
\<close>

theorem limiter_retention:
  assumes "sorted (map event_time (es @ [e]))" and "\<forall>x \<in> set (es @ [e]). zero_time \<le> event_time x"
    and "is_i64 (o_Window opts)" and "reaches_table e"
    and "lookup_key (limiter_after (limiter_New opts) (es @ [e])) k = Some cur"
  shows "event_time e <
    c_start cur + l_window (limiter_New opts) + l_sweepInterval (limiter_New opts)"
proof -
  let ?new = "limiter_New opts"
  let ?l = "limiter_after ?new es"
  let ?now = "if es = [] then zero_time else event_time (last es)"
  have before: "limiter_fresh ?now ?l"
    by (rule limiter_run_fresh [OF limiter_New_fresh]) (use assms(1-3) in \<open>auto simp: sorted_append\<close>)
  have "?now \<le> event_time e" using assms(1,2) by (auto simp: sorted_append)
  from limiter_step_fresh [OF before this] assms(4) obtain t where
    t: "l_state (snd (limiter_step ?l e)) = Some t" "event_time e < t_nextSweep t"
      "limiter_fresh (event_time e) (snd (limiter_step ?l e))" by auto
  have after: "limiter_after ?new (es @ [e]) = snd (limiter_step ?l e)"
    by (rule limiter_after_snoc)
  with assms(5) t(1) have "(k, cur) \<in> set (t_keys t)" by (auto simp: lookup_key_def dest: map_of_SomeD)
  moreover have "l_window (snd (limiter_step ?l e)) = l_window ?new"
    "l_sweepInterval (snd (limiter_step ?l e)) = l_sweepInterval ?new"
    using limiter_after_config [of ?new "es @ [e]"] after by (simp_all add: same_config_def)
  ultimately show ?thesis using t by (force simp: limiter_fresh_def table_fresh_def)
qed

theorem limiter_retention_witness:
  "5 < c_start \<lparr>c_start = 5, c_n = 1\<rparr> +
    l_window (limiter_New \<lparr>o_PutRecord = 2, o_GetRecord = 0, o_Signal = 0, o_Window = 16, o_MaxKeys = 0\<rparr>) +
    l_sweepInterval (limiter_New \<lparr>o_PutRecord = 2, o_GetRecord = 0, o_Signal = 0, o_Window = 16, o_MaxKeys = 0\<rparr>)"
  using limiter_retention [of "[]" "Request (Addr4 0x01020304) 0 5"
      "\<lparr>o_PutRecord = 2, o_GetRecord = 0, o_Signal = 0, o_Window = 16, o_MaxKeys = 0\<rparr>"
      "makeKey (Addr4 0x01020304) 0" "\<lparr>c_start = 5, c_n = 1\<rparr>"]
  by (simp add: zero_time_def is_i64_def IsValid_def class_defs lookup_key_def limiter_Allow_def
    limiter_New_def orIntDefault_def orDurationDefault_def allow_table_def sweepLocked_def
    map_retain_def limiter_defaults)

end
