(* ===== verification/Clientaddr.thy ===== *)
theory Clientaddr imports Netip begin

text \<open>
  \<open>internal/clientaddr/clientaddr.go\<close>: the address a request is counted against. An extractor
  is a list of trusted proxy prefixes (\<open>None\<close> is the nil extractor); \<open>Addr\<close> returns the peer
  unless the peer is trusted, and then walks \<open>X-Forwarded-For\<close> from the right.
\<close>

unbundle bit_operations_syntax

section \<open>Prefixes\<close>

definition normalise :: "Prefix \<Rightarrow> Prefix" where
  "normalise p =
    (if \<not> Prefix_IsValid p then PrefixZero
     else
       let a = p_ip p;
           p' = (if Is4In6 a \<and> Prefix_Bits p \<ge> 96 then PrefixFrom (Unmap a) (Prefix_Bits p - 96) else p)
       in Masked p')"

datatype proxies_error = ErrInvalidProxy | ErrZonedProxy

text \<open>One field of the list: \<open>None\<close> when it is skipped.\<close>

definition parse_proxy :: "string \<Rightarrow> proxies_error + Prefix option" where
  "parse_proxy field0 =
    (let field = TrimSpace field0 in
     if field = [] then Inr None
     else
       let parsed =
         (case ParsePrefix field of
            Some p \<Rightarrow> Inr p
          | None \<Rightarrow>
             (case ParseAddr field of
                None \<Rightarrow> Inl ErrInvalidProxy
              | Some a \<Rightarrow>
                  if Zone a \<noteq> [] then Inl ErrZonedProxy
                  else let a' = Unmap a in Inr (PrefixFrom a' (int (BitLen a')))))
       in case parsed of
            Inl x \<Rightarrow> Inl x
          | Inr p \<Rightarrow>
              let n = normalise p in if \<not> Prefix_IsValid n then Inl ErrInvalidProxy else Inr (Some n))"

fun parse_proxies :: "string list \<Rightarrow> Prefix list \<Rightarrow> proxies_error + Prefix list" where
  "parse_proxies [] out = Inr out"
| "parse_proxies (f # fs) out =
    (case parse_proxy f of
       Inl x \<Rightarrow> Inl x
     | Inr None \<Rightarrow> parse_proxies fs out
     | Inr (Some p) \<Rightarrow> parse_proxies fs (out @ [p]))"

definition ParsePrefixes :: "string \<Rightarrow> proxies_error + Prefix list" where
  "ParsePrefixes s =
    (if TrimSpace s = [] then Inr [] else parse_proxies (split_on CHR '','' s) [])"

type_synonym extractor = "Prefix list"

definition clientaddr_New :: "Prefix list \<Rightarrow> extractor" where
  "clientaddr_New trusted =
    (if trusted = [] then [] else filter Prefix_IsValid (map normalise trusted))"

section \<open>Entries of the header\<close>

definition trusts :: "extractor \<Rightarrow> Addr \<Rightarrow> bool" where
  "trusts e a = list_ex (\<lambda>p. Contains p a) e"

definition lastEntry :: "string \<Rightarrow> string \<times> string \<times> bool" where
  "lastEntry s =
    (if TrimSpace s = [] then ([], [], False)
     else case split_last CHR '','' s of
       Some (l, r) \<Rightarrow> (TrimSpace r, l, True)
     | None \<Rightarrow> (TrimSpace s, [], True))"

definition rightmostEntry :: "string \<Rightarrow> string" where
  "rightmostEntry xff =
    TrimSpace (case split_last CHR '','' xff of Some (l, r) \<Rightarrow> r | None \<Rightarrow> xff)"

definition parseEntry :: "string \<Rightarrow> Addr \<times> bool" where
  "parseEntry entry =
    (if entry = [] then (AddrZero, False)
     else case ParseAddr entry of
       Some a \<Rightarrow> (Unmap a, IsValid a)
     | None \<Rightarrow>
         if length entry > 2 \<and> hd entry = CHR ''['' \<and> last entry = CHR '']'' then
           (case ParseAddr (butlast (tl entry)) of
              Some a \<Rightarrow> (Unmap a, IsValid a)
            | None \<Rightarrow> (AddrZero, False))
         else (case ParseAddrPort entry of
              Some (a, port) \<Rightarrow> (Unmap a, IsValid (Unmap a))
            | None \<Rightarrow> (AddrZero, False)))"

section \<open>The walk\<close>

lemma lastEntry_shorter:
  "lastEntry s = (entry, rest, found) \<Longrightarrow> \<not> (entry = [] \<and> \<not> found) \<Longrightarrow> length rest < length s"
  by (cases s) (auto simp: lastEntry_def dest!: split_last_SomeD split: if_splits option.splits)

function walk :: "extractor \<Rightarrow> string \<Rightarrow> Addr \<Rightarrow> Addr" where
  "walk e rest peer =
    (case lastEntry rest of (entry, remainder, found) \<Rightarrow>
       if entry = [] \<and> \<not> found then peer
       else case parseEntry entry of (addr, ok) \<Rightarrow>
         if \<not> ok then peer
         else if \<not> trusts e addr then addr
         else walk e remainder peer)"
  by pat_completeness auto

termination
  by (relation "measure (\<lambda>(e, rest, peer). length rest)") (auto dest: lastEntry_shorter [OF sym])

declare walk.simps [simp del]

definition clientaddr_Addr :: "extractor option \<Rightarrow> Addr \<Rightarrow> string \<Rightarrow> Addr" where
  "clientaddr_Addr e peer xff =
    (let p = Unmap peer in
     case e of
       None \<Rightarrow> p
     | Some trusted \<Rightarrow>
         if trusted = [] \<or> \<not> IsValid p \<or> \<not> trusts trusted p then p else walk trusted xff p)"

section \<open>The walk over the list of entries\<close>

text \<open>
  The entries from right to left: the first that is not a trusted proxy decides, an entry that
  does not parse gives the peer, and so does a list of proxies only.
\<close>

fun walk_entries :: "extractor \<Rightarrow> Addr \<Rightarrow> string list \<Rightarrow> Addr" where
  "walk_entries e peer [] = peer"
| "walk_entries e peer (t # ts) =
    (case parseEntry t of (a, ok) \<Rightarrow>
       if \<not> ok then peer else if \<not> trusts e a then a else walk_entries e peer ts)"

definition entries :: "string \<Rightarrow> string list" where
  "entries xff = map TrimSpace (split_on CHR '','' xff)"

definition proxy_entry :: "extractor \<Rightarrow> string \<Rightarrow> bool" where
  "proxy_entry e t \<longleftrightarrow> (case parseEntry t of (a, ok) \<Rightarrow> ok \<and> trusts e a)"

lemma entries_append: "entries (l @ CHR '','' # r) = entries l @ entries r"
  by (simp add: entries_def split_on_append)

lemma entries_single: "CHR '','' \<notin> set s \<Longrightarrow> entries s = [TrimSpace s]"
  by (simp add: entries_def split_on_no_sep)

lemma parseEntry_Nil [simp]: "parseEntry [] = (AddrZero, False)"
  by (simp add: parseEntry_def)

lemma walk_eq_entries: "walk e s peer = walk_entries e peer (rev (entries s))"
proof (induction e s peer rule: walk.induct)
  case (1 e s peer)
  show ?case
  proof (cases "TrimSpace s = []")
    case True
    with TrimSpace_comma [OF True] have "rev (entries s) = [[]]" by (simp add: entries_single)
    with True show ?thesis
      by (subst walk.simps) (simp add: lastEntry_def)
  next
    case False
    show ?thesis
    proof (cases "split_last CHR '','' s")
      case None
      with False have "lastEntry s = (TrimSpace s, [], True)" "entries s = [TrimSpace s]"
        by (simp_all add: lastEntry_def entries_single flip: split_last_None_iff)
      moreover have "walk e [] peer = peer" by (subst walk.simps) (simp add: lastEntry_def)
      ultimately show ?thesis by (subst walk.simps) (auto split: prod.splits)
    next
      case (Some lr)
      then obtain l r where lr: "lr = (l, r)" by (cases lr)
      with Some have s: "s = l @ CHR '','' # r" "CHR '','' \<notin> set r" by (auto dest: split_last_SomeD)
      have last: "lastEntry s = (TrimSpace r, l, True)"
        using False Some lr by (simp add: lastEntry_def)
      have ent: "rev (entries s) = TrimSpace r # rev (entries l)"
        using s by (simp add: entries_append entries_single)
      obtain a ok where p: "parseEntry (TrimSpace r) = (a, ok)" by (cases "parseEntry (TrimSpace r)")
      have "walk e l peer = walk_entries e peer (rev (entries l))" if "ok" "trusts e a"
        by (rule "1.IH" [OF last [symmetric] refl _ p [symmetric]]) (use that in simp_all)
      then show ?thesis
        by (subst walk.simps) (simp add: last ent p)
    qed
  qed
qed

section \<open>Properties\<close>

lemma walk_entries_append:
  "(\<exists>t \<in> set ts. \<not> proxy_entry e t) \<Longrightarrow> walk_entries e peer (ts @ us) = walk_entries e peer ts"
  by (induction ts) (auto simp: proxy_entry_def split: prod.splits)

lemma walk_entries_dropWhile:
  "walk_entries e peer ts =
    (case dropWhile (proxy_entry e) ts of
       [] \<Rightarrow> peer
     | t # us \<Rightarrow> (case parseEntry t of (a, ok) \<Rightarrow> if ok then a else peer))"
  by (induction ts) (auto simp: proxy_entry_def split: prod.splits)

text \<open>
  C10. A client cannot choose its key. When the part of the header that follows what the client
  sent has an entry that is not a trusted proxy, which is what the proxy's own observation is,
  the result does not depend on what the client sent, and is what that part alone gives.
\<close>

theorem Addr_ignores_spoofed:
  assumes "\<exists>t \<in> set (entries tail). \<not> (\<exists>trusted. e = Some trusted \<and> proxy_entry trusted t)"
  shows "clientaddr_Addr e peer (spoofed @ CHR '','' # tail) = clientaddr_Addr e peer tail"
proof (cases e)
  case (Some trusted)
  with assms have "\<exists>t \<in> set (rev (entries tail)). \<not> proxy_entry trusted t" by auto
  with Some show ?thesis
    by (simp add: clientaddr_Addr_def Let_def walk_eq_entries entries_append walk_entries_append)
qed (simp add: clientaddr_Addr_def)

lemma example_entry: "parseEntry ''203.0.113.9'' = (Addr4 0xCB007109, True)"
  by (simp add: parseEntry_def ParseAddr_def parse_ipv4_def parse_ipv4_fields_def dec_digit_def
    bytes_value_def IsValid_def)

lemma example_entries: "entries ''203.0.113.9'' = [''203.0.113.9'']"
  by code_simp

theorem Addr_ignores_spoofed_witness:
  "clientaddr_Addr (Some [PrefixFrom (Addr4 0x0A000000) 8]) (Addr4 0x0A000001) (''1.2.3.4'' @ CHR '','' # ''203.0.113.9'') =
    clientaddr_Addr (Some [PrefixFrom (Addr4 0x0A000000) 8]) (Addr4 0x0A000001) ''203.0.113.9''"
proof (rule Addr_ignores_spoofed)
  show "\<exists>t \<in> set (entries ''203.0.113.9''). \<not> (\<exists>trusted. Some [PrefixFrom (Addr4 0x0A000000) 8] =
      Some trusted \<and> proxy_entry trusted t)"
    unfolding example_entries
    by (simp add: proxy_entry_def example_entry trusts_def Contains_def PrefixFrom_def IsValid_def)
qed

text \<open>
  C25. What the result is, for every extractor, peer and header. It is the peer, unmapped, whenever
  nothing is trusted, or the peer is not valid or not trusted. Otherwise the entries of the header
  between its commas are passed over from the right for as long as they are trusted proxies; the
  first that is not one is the result if it is an address, and the peer is the result if it is
  none, or if there is no such entry. In particular the walk over any header ends.
\<close>

theorem Addr_result:
  "clientaddr_Addr e peer xff =
    (case e of
       None \<Rightarrow> Unmap peer
     | Some trusted \<Rightarrow>
         if \<not> IsValid peer \<or> \<not> trusts trusted (Unmap peer) then Unmap peer
         else case dropWhile (proxy_entry trusted) (rev (map TrimSpace (split_on CHR '','' xff))) of
           [] \<Rightarrow> Unmap peer
         | t # left \<Rightarrow> (case parseEntry t of (a, ok) \<Rightarrow> if ok then a else Unmap peer))"
proof -
  have "\<not> trusts [] a" for a by (simp add: trusts_def)
  then show ?thesis
    by (simp add: clientaddr_Addr_def Let_def walk_eq_entries walk_entries_dropWhile entries_def split: option.split)
qed

text \<open>Behind two proxies of \<open>10.0.0.0/8\<close>, with an address the client made up on the left.\<close>

lemma example_parses:
  "parseEntry ''10.0.0.9'' = (Addr4 0x0A000009, True)"
  "parseEntry ''203.0.113.9:4711'' = (Addr4 0xCB007109, True)"
  by (simp_all add: parseEntry_def ParseAddr_def ParseAddrPort_def splitAddrPort_def parse_ipv4_def parse_ipv4_fields_def
    dec_digit_def bytes_value_def IsValid_def all_digits_value_def is_digit_def digits_value_def)

lemma example_list:
  "rev (map TrimSpace (split_on CHR '','' ''1.2.3.4, 203.0.113.9:4711, 10.0.0.9'')) = [''10.0.0.9'', ''203.0.113.9:4711'', ''1.2.3.4'']"
  by code_simp

theorem Addr_result_witness:
  "clientaddr_Addr (Some [PrefixFrom (Addr4 0x0A000000) 8]) (Addr4 0x0A000001) ''1.2.3.4, 203.0.113.9:4711, 10.0.0.9'' =
    Addr4 0xCB007109"
  unfolding Addr_result example_list
  by (simp add: proxy_entry_def example_parses trusts_def Contains_def PrefixFrom_def IsValid_def)

lemma masked_agree:
  "drop_bit n ((u :: 'a :: len word) XOR (v AND NOT (mask n))) = 0 \<longleftrightarrow> drop_bit n u = drop_bit n v"
  by (auto simp: bit_eq_iff bit_simps dest: bit_imp_le_length)

lemma masked6_agree:
  fixes x w :: "128 word"
  shows "b \<le> 128 \<Longrightarrow> (x XOR (w AND mask6 b)) AND mask6 b = 0 \<longleftrightarrow> drop_bit (128 - b) x = drop_bit (128 - b) w"
proof -
  assume b: "b \<le> 128"
  have "(x XOR (w AND mask6 b)) AND mask6 b = 0 \<longleftrightarrow> (\<forall>k. 128 - b \<le> k \<longrightarrow> k < 128 \<longrightarrow> bit x k = bit w k)"
    by (auto simp: mask6_def bit_eq_iff bit_simps)
  also have "\<dots> \<longleftrightarrow> (\<forall>j. bit x (128 - b + j) = bit w (128 - b + j))"
  proof
    assume *: "\<forall>k. 128 - b \<le> k \<longrightarrow> k < 128 \<longrightarrow> bit x k = bit w k"
    show "\<forall>j. bit x (128 - b + j) = bit w (128 - b + j)"
    proof
      fix j
      show "bit x (128 - b + j) = bit w (128 - b + j)"
        using * bit_imp_le_length [of x "128 - b + j"] bit_imp_le_length [of w "128 - b + j"]
        by (cases "128 - b + j < 128") auto
    qed
  next
    assume *: "\<forall>j. bit x (128 - b + j) = bit w (128 - b + j)"
    show "\<forall>k. 128 - b \<le> k \<longrightarrow> k < 128 \<longrightarrow> bit x k = bit w k"
    proof (intro allI impI)
      fix k assume "128 - b \<le> k"
      with * [rule_format, of "k - (128 - b)"] show "bit x k = bit w k" by simp
    qed
  qed
  also have "\<dots> \<longleftrightarrow> drop_bit (128 - b) x = drop_bit (128 - b) w"
  proof
    assume "\<forall>j. bit x (128 - b + j) = bit w (128 - b + j)"
    then show "drop_bit (128 - b) x = drop_bit (128 - b) w"
      by (intro bit_eqI) (simp add: bit_drop_bit_eq)
  next
    assume "drop_bit (128 - b) x = drop_bit (128 - b) w"
    then have "bit (drop_bit (128 - b) x) j = bit (drop_bit (128 - b) w) j" for j by simp
    then show "\<forall>j. bit x (128 - b + j) = bit w (128 - b + j)" by (simp add: bit_drop_bit_eq)
  qed
  finally show ?thesis .
qed

text \<open>The prefixes \<open>ParsePrefix\<close> and \<open>PrefixFrom\<close> make: no zone, and a bit count that fits.\<close>

definition prefix_ok :: "Prefix \<Rightarrow> bool" where
  "prefix_ok p \<longleftrightarrow> Zone (p_ip p) = [] \<and>
    (case p_bits p of None \<Rightarrow> True | Some b \<Rightarrow> IsValid (p_ip p) \<and> b \<le> BitLen (p_ip p))"

definition mapped_prefix :: "Prefix \<Rightarrow> bool" where
  "mapped_prefix p \<longleftrightarrow> Is4In6 (p_ip p) \<and> Prefix_Bits p \<ge> 96"

text \<open>
  Normalising a prefix keeps the set of hosts an operator wrote. A valid IPv4 prefix, or an
  IPv6 one inside the IPv4-mapped range, then contains the unmapped form of an address if and
  only if that is an IPv4 address with the same leading bits; any other IPv6 prefix, if and only
  if the unmapped address is an IPv6 address without a zone and with the same leading bits.
\<close>

theorem normalise_members:
  assumes "prefix_ok p" and "p_bits p = Some b"
  shows "Contains (normalise p) (Unmap a) \<longleftrightarrow>
    (case (p_ip p, Unmap a) of
       (Addr4 v, Addr4 u) \<Rightarrow> drop_bit (32 - b) u = drop_bit (32 - b) v
     | (Addr6 w _, Addr4 u) \<Rightarrow> mapped_prefix p \<and> drop_bit (128 - b) u = drop_bit (128 - b) (ucast w)
     | (Addr6 w _, Addr6 x z) \<Rightarrow> \<not> mapped_prefix p \<and> z = [] \<and> drop_bit (128 - b) x = drop_bit (128 - b) w
     | _ \<Rightarrow> False)"
proof (cases "p_ip p")
  case AddrZero
  with assms show ?thesis by (simp add: prefix_ok_def IsValid_def)
next
  case (Addr4 v)
  with assms have n: "normalise p = \<lparr>p_ip = Addr4 (v AND NOT (mask (32 - b))), p_bits = Some b\<rparr>"
    by (auto simp: normalise_def Prefix_IsValid_def Prefix_Bits_def Masked_def PrefixFrom_def
        prefix_ok_def IsValid_def Let_def)
  with Addr4 show ?thesis
    by (cases "Unmap a") (simp_all add: Contains_def masked_agree del: drop_bit_and drop_bit_xor)
next
  case (Addr6 w z)
  with assms have b: "b \<le> 128" and z: "z = []" by (simp_all add: prefix_ok_def)
  show ?thesis
  proof (cases "mapped_prefix p")
    case True
    with Addr6 assms(2) have m: "drop_bit 32 w = 0xFFFF" "96 \<le> b"
      by (simp_all add: mapped_prefix_def Prefix_Bits_def)
    have "normalise p = \<lparr>p_ip = Addr4 (ucast w AND NOT (mask (32 - (b - 96)))), p_bits = Some (b - 96)\<rparr>"
      using assms Addr6 m b
      by (simp add: normalise_def Prefix_IsValid_def Prefix_Bits_def Masked_def PrefixFrom_def
        IsValid_def Let_def nat_diff_distrib)
    moreover have "32 - (b - 96) = 128 - b" using m by linarith
    ultimately show ?thesis
      using True Addr6 by (cases "Unmap a") (simp_all add: Contains_def masked_agree del: drop_bit_and drop_bit_xor)
  next
    case False
    have "normalise p = \<lparr>p_ip = Addr6 (w AND mask6 b) [], p_bits = Some b\<rparr>"
      using assms Addr6 False b
      by (auto simp: normalise_def Prefix_IsValid_def Prefix_Bits_def Masked_def PrefixFrom_def
        IsValid_def Let_def mapped_prefix_def)
    with False Addr6 b show ?thesis
      by (cases "Unmap a") (simp_all add: Contains_def masked6_agree)
  qed
qed

theorem normalise_members_witness:
  "Contains (normalise (PrefixFrom (Addr6 (mapped_v4 0xAC110000) []) 112)) (Addr4 0xAC110203)"
proof -
  let ?p = "PrefixFrom (Addr6 (mapped_v4 0xAC110000) []) 112"
  have "p_bits ?p = Some 112" "prefix_ok ?p" "mapped_prefix ?p"
    by (simp_all add: PrefixFrom_def IsValid_def prefix_ok_def mapped_prefix_def mapped_v4_def
      Prefix_Bits_def)
  with normalise_members [of ?p 112 "Addr4 0xAC110203"] show ?thesis
    by (simp add: PrefixFrom_def mapped_v4_def)
qed

lemma prefix_ok_PrefixFrom [simp]: "prefix_ok (PrefixFrom a b)"
  by (cases a) (auto simp: prefix_ok_def PrefixFrom_def IsValid_def)

lemma ParsePrefix_ok: "ParsePrefix s = Some p \<Longrightarrow> prefix_ok p"
  by (auto simp: ParsePrefix_def split: option.splits if_splits prod.splits)

lemma drop_mask6: "96 \<le> b \<Longrightarrow> drop_bit 32 (w AND mask6 b) = drop_bit 32 w"
  by (rule bit_word_eqI) (auto simp: mask6_def bit_simps dest: bit_imp_le_length)

lemma mask6_twice [simp]: "(w AND mask6 b) AND mask6 b = w AND mask6 b"
  by (simp add: and.assoc)

lemma normalise_idem:
  assumes "prefix_ok p" and "Prefix_IsValid p"
  shows "normalise (normalise p) = normalise p \<and> Prefix_IsValid (normalise p)"
proof -
  obtain b where b: "p_bits p = Some b" using assms(2) by (auto simp: Prefix_IsValid_def)
  note defs = normalise_def Prefix_IsValid_def Prefix_Bits_def Masked_def PrefixFrom_def
    IsValid_def Let_def
  show ?thesis
  proof (cases "p_ip p")
    case AddrZero
    with assms b show ?thesis by (simp add: prefix_ok_def IsValid_def)
  next
    case (Addr4 v)
    with assms b have "b \<le> 32" by (simp add: prefix_ok_def)
    with Addr4 b have "normalise p = \<lparr>p_ip = Addr4 (v AND NOT (mask (32 - b))), p_bits = Some b\<rparr>"
      by (simp add: defs)
    with \<open>b \<le> 32\<close> show ?thesis by (simp add: defs and.assoc)
  next
    case (Addr6 w z)
    with assms b have le: "b \<le> 128" and z: "z = []" by (simp_all add: prefix_ok_def)
    show ?thesis
    proof (cases "drop_bit 32 w = 0xFFFF \<and> 96 \<le> b")
      case True
      with Addr6 b le have "normalise p =
          \<lparr>p_ip = Addr4 (ucast w AND NOT (mask (32 - (b - 96)))), p_bits = Some (b - 96)\<rparr>"
        by (simp add: defs nat_diff_distrib)
      with le show ?thesis by (simp add: defs and.assoc)
    next
      case False
      with Addr6 b le have n: "normalise p = \<lparr>p_ip = Addr6 (w AND mask6 b) [], p_bits = Some b\<rparr>"
        by (auto simp: defs)
      have "\<not> (drop_bit 32 (w AND mask6 b) = 0xFFFF \<and> 96 \<le> b)"
        using False drop_mask6 by auto
      with n le show ?thesis by (auto simp: defs)
    qed
  qed
qed

text \<open>What a list of proxies is made of: valid prefixes that normalising leaves alone.\<close>

definition normalised :: "Prefix \<Rightarrow> bool" where
  "normalised p \<longleftrightarrow> Prefix_IsValid p \<and> normalise p = p"

lemma parse_proxy_normalised: "parse_proxy f = Inr (Some p) \<Longrightarrow> normalised p"
proof -
  assume parsed: "parse_proxy f = Inr (Some p)"
  then have "\<exists>q. prefix_ok q \<and> p = normalise q \<and> Prefix_IsValid p"
    by (auto simp: parse_proxy_def Let_def split: if_splits option.splits
      intro: ParsePrefix_ok prefix_ok_PrefixFrom)
  then obtain q where q: "prefix_ok q" "p = normalise q" "Prefix_IsValid p" by auto
  then have "Prefix_IsValid q" by (auto simp: normalise_def PrefixZero_def Prefix_IsValid_def split: if_splits)
  with q normalise_idem [of q] show ?thesis by (simp add: normalised_def)
qed

lemma parse_proxies_normalised:
  "parse_proxies fs out = Inr ps \<Longrightarrow> list_all normalised out \<Longrightarrow> list_all normalised ps"
  by (induction fs arbitrary: out) (auto split: sum.splits option.splits dest: parse_proxy_normalised)

lemma normalised_filter: "list_all normalised ps \<Longrightarrow> filter Prefix_IsValid (map normalise ps) = ps"
  by (induction ps) (simp_all add: normalised_def)

text \<open>
  The list the flag's parser returns needs no further care: every prefix in it is valid and
  masked, none is IPv4-mapped, and \<open>New\<close> keeps all of them as they are.
\<close>

theorem ParsePrefixes_normalised:
  assumes "ParsePrefixes s = Inr ps"
  shows "(\<forall>p \<in> set ps. Prefix_IsValid p \<and> normalise p = p) \<and> clientaddr_New ps = ps"
proof -
  have "list_all normalised ps"
    using assms parse_proxies_normalised [of _ "[]" ps] by (auto simp: ParsePrefixes_def split: if_splits)
  then show ?thesis
    using normalised_filter [of ps] by (auto simp: clientaddr_New_def list_all_iff normalised_def)
qed

theorem ParsePrefixes_normalised_witness:
  "ParsePrefixes ''10.1.2.3/8, ,'' = Inr [\<lparr>p_ip = Addr4 0x0A000000, p_bits = Some 8\<rparr>] \<and>
    normalise \<lparr>p_ip = Addr4 0x0A000000, p_bits = Some 8\<rparr> = \<lparr>p_ip = Addr4 0x0A000000, p_bits = Some 8\<rparr>"
proof -
  have t: "TrimSpace ''10.1.2.3/8, ,'' = ''10.1.2.3/8, ,''" "TrimSpace ''10.1.2.3/8'' = ''10.1.2.3/8''"
    "TrimSpace '' '' = []"
    by code_simp+
  have p: "ParsePrefixes ''10.1.2.3/8, ,'' = Inr [\<lparr>p_ip = Addr4 0x0A000000, p_bits = Some 8\<rparr>]"
    by (simp add: ParsePrefixes_def t parse_proxy_def ParsePrefix_def ParseAddr_def parse_ipv4_def
      parse_ipv4_fields_def dec_digit_def bytes_value_def all_digits_value_def PrefixFrom_def IsValid_def
      normalise_def Prefix_IsValid_def Prefix_Bits_def Masked_def mask_eq_exp_minus_1)
  with ParsePrefixes_normalised [OF p] show ?thesis by simp
qed

end
