(* ===== verification/Signal.thy ===== *)
theory Signal imports B64 Reject begin

text \<open>
  \<open>internal/signal/signal.go\<close>: the in-memory rendezvous channels. Channels and waiters are Go
  objects shared by pointer, so the store carries a heap: \<open>s_chans\<close> and \<open>s_waits\<close> list the
  objects ever allocated and a pointer is an index. The map from channel keys to channel
  objects is \<open>s_channels\<close>. Each method is one critical section of the store's mutex; \<open>Get\<close> is
  two, \<open>Get_start\<close> up to the wait and \<open>Get_finish\<close> after it, and the local variables of a
  \<open>Get\<close> that waits are kept with its waiter as its frame.
\<close>

section \<open>Constants and state\<close>

definition ChannelIDBytes :: nat where "ChannelIDBytes = 32"
definition ChannelIDChars :: nat where "ChannelIDChars = 43"
definition MaxBlobBytes :: int where "MaxBlobBytes = 65536"
definition signal_MaxTTL :: duration where "signal_MaxTTL = seconds 300"
definition MaxPollWindow :: duration where "MaxPollWindow = seconds 30"
definition DefaultMaxWaiters :: int where "DefaultMaxWaiters = 10000"
definition DefaultMaxWaitersPerChannel :: int where "DefaultMaxWaitersPerChannel = 8"
definition minSweepChannels :: int where "minSweepChannels = 1024"

record signal_options =
  so_TTL :: duration
  so_PollWindow :: duration
  so_MaxBlobBytes :: int
  so_MaxWaiters :: int
  so_MaxWaitersPerChannel :: int

record waiter =
  w_c :: "bytes option"
  w_delivered :: bool
  w_active :: bool

record frame = waiter +
  f_key :: bytes
  f_ch :: nat
  f_returned :: bool

record channel =
  ch_blob :: "bytes option"
  ch_expiresAt :: instant
  ch_waiters :: "nat list"

record sstore =
  s_ttl :: duration
  s_poll :: duration
  s_maxBlob :: int
  s_maxWaiters :: int
  s_maxPerChan :: int
  s_channels :: "(bytes, nat) gomap"
  s_waiting :: int
  s_sweepAt :: int
  s_closed :: bool
  s_chans :: "channel list"
  s_waits :: "frame list"

definition clampDuration :: "duration \<Rightarrow> duration \<Rightarrow> duration" where
  "clampDuration d mx = (if d \<le> 0 \<or> d > mx then mx else d)"

definition signal_New :: "signal_options \<Rightarrow> sstore" where
  "signal_New opts =
    \<lparr>s_ttl = clampDuration (so_TTL opts) signal_MaxTTL,
     s_poll = clampDuration (so_PollWindow opts) MaxPollWindow,
     s_maxBlob = (if so_MaxBlobBytes opts \<le> 0 \<or> so_MaxBlobBytes opts > MaxBlobBytes
       then MaxBlobBytes else so_MaxBlobBytes opts),
     s_maxWaiters = (if so_MaxWaiters opts \<le> 0 then DefaultMaxWaiters else so_MaxWaiters opts),
     s_maxPerChan = (if so_MaxWaitersPerChannel opts \<le> 0 then DefaultMaxWaitersPerChannel
       else so_MaxWaitersPerChannel opts),
     s_channels = [], s_waiting = 0, s_sweepAt = minSweepChannels, s_closed = False,
     s_chans = [], s_waits = []\<rparr>"

section \<open>The heap\<close>

definition chan_at :: "sstore \<Rightarrow> nat \<Rightarrow> channel" where
  "chan_at s a = s_chans s ! a"

definition wait_at :: "sstore \<Rightarrow> nat \<Rightarrow> frame" where
  "wait_at s w = s_waits s ! w"

definition set_chan :: "nat \<Rightarrow> channel \<Rightarrow> sstore \<Rightarrow> sstore" where
  "set_chan a c s = s\<lparr>s_chans := (s_chans s)[a := c]\<rparr>"

definition set_wait :: "nat \<Rightarrow> frame \<Rightarrow> sstore \<Rightarrow> sstore" where
  "set_wait w f s = s\<lparr>s_waits := (s_waits s)[w := f]\<rparr>"

text \<open>\<open>ch = &channel{...}; s.channels[key] = ch\<close>\<close>

definition new_chan :: "bytes \<Rightarrow> sstore \<Rightarrow> nat \<times> sstore" where
  "new_chan key s =
    (length (s_chans s),
     s\<lparr>s_chans := s_chans s @ [\<lparr>ch_blob = None, ch_expiresAt = zero_time, ch_waiters = []\<rparr>],
       s_channels := map_put key (length (s_chans s)) (s_channels s)\<rparr>)"

section \<open>Helpers called under the mutex\<close>

definition held :: "channel \<Rightarrow> instant \<Rightarrow> bool" where
  "held ch now \<longleftrightarrow> ch_blob ch \<noteq> None \<and> now < ch_expiresAt ch"

definition decodeChannelID :: "string \<Rightarrow> bytes option" where
  "decodeChannelID i =
    (if length i \<noteq> ChannelIDChars \<or> CHR ''='' \<in> set i then None
     else case b64_DecodeFixed i ChannelIDBytes of Inl _ \<Rightarrow> None | Inr raw \<Rightarrow> Some raw)"

definition gcLocked :: "bytes \<Rightarrow> nat \<Rightarrow> sstore \<Rightarrow> sstore" where
  "gcLocked key a s =
    (if ch_blob (chan_at s a) = None \<and> ch_waiters (chan_at s a) = []
     then s\<lparr>s_channels := map_drop key (s_channels s)\<rparr> else s)"

text \<open>
  \<open>takeWaiterLocked\<close> takes whichever waiter the map iteration yields first: the choice is the
  argument \<open>pick\<close>.
\<close>

definition drop_waiter :: "nat \<Rightarrow> nat \<Rightarrow> sstore \<Rightarrow> sstore" where
  "drop_waiter a w s =
    set_chan a ((chan_at s a)\<lparr>ch_waiters := remove1 w (ch_waiters (chan_at s a))\<rparr>)
      (set_wait w ((wait_at s w)\<lparr>w_active := False\<rparr>) s\<lparr>s_waiting := s_waiting s - 1\<rparr>)"

definition takeWaiterLocked :: "nat \<Rightarrow> nat \<Rightarrow> sstore \<Rightarrow> nat option \<times> sstore" where
  "takeWaiterLocked pick a s =
    (let ws = ch_waiters (chan_at s a) in
     if ws = [] then (None, s)
     else let w = ws ! (pick mod length ws) in (Some w, drop_waiter a w s))"

definition releaseLocked :: "bytes \<Rightarrow> nat \<Rightarrow> nat \<Rightarrow> sstore \<Rightarrow> sstore" where
  "releaseLocked key a w s =
    (if \<not> w_active (wait_at s w) then s else gcLocked key a (drop_waiter a w s))"

definition registerLocked :: "bytes \<Rightarrow> nat option \<Rightarrow> sstore \<Rightarrow> (SignalReason + nat) \<times> sstore" where
  "registerLocked key ch s =
    (if s_waiting s \<ge> s_maxWaiters s then (Inl SignalRateLimited, s)
     else if (case ch of None \<Rightarrow> False | Some a \<Rightarrow> int (length (ch_waiters (chan_at s a))) \<ge> s_maxPerChan s)
     then (Inl SignalRateLimited, s)
     else
       let (a, s1) = (case ch of Some a \<Rightarrow> (a, s) | None \<Rightarrow> new_chan key s);
           w = length (s_waits s1);
           f = \<lparr>w_c = None, w_delivered = False, w_active = True, f_key = key, f_ch = a, f_returned = False\<rparr>;
           s2 = s1\<lparr>s_waits := s_waits s1 @ [f], s_waiting := s_waiting s1 + 1\<rparr>
       in (Inr w, set_chan a ((chan_at s2 a)\<lparr>ch_waiters := ch_waiters (chan_at s2 a) @ [w]\<rparr>) s2))"

definition sweepLocked :: "instant \<Rightarrow> sstore \<Rightarrow> sstore" where
  "sweepLocked now s =
    (let keep = map_retain (\<lambda>key a. \<not> (ch_waiters (chan_at s a) = [] \<and> \<not> held (chan_at s a) now)) (s_channels s);
         at = 2 * int (length keep)
     in s\<lparr>s_channels := keep, s_sweepAt := (if at < minSweepChannels then minSweepChannels else at)\<rparr>)"

section \<open>Methods\<close>

text \<open>\<open>Post\<close> from the copy of the blob on, for the channel at \<open>a\<close>.\<close>

definition post_into :: "nat \<Rightarrow> bytes \<Rightarrow> nat \<Rightarrow> bytes \<Rightarrow> instant \<Rightarrow> sstore \<Rightarrow> SignalReason \<times> sstore" where
  "post_into pick key a stored now s =
    (case takeWaiterLocked pick a s of
       (Some w, s') \<Rightarrow>
         (SignalStored,
          gcLocked key a (set_wait w ((wait_at s' w)\<lparr>w_delivered := True, w_c := Some stored\<rparr>) s'))
     | (None, s') \<Rightarrow>
         (SignalStored,
          set_chan a ((chan_at s' a)\<lparr>ch_blob := Some stored, ch_expiresAt := now + s_ttl s'\<rparr>) s'))"

definition signal_Post :: "nat \<Rightarrow> string \<Rightarrow> bytes \<Rightarrow> instant \<Rightarrow> sstore \<Rightarrow> SignalReason \<times> sstore" where
  "signal_Post pick i blob now s =
    (case decodeChannelID i of
       None \<Rightarrow> (SignalBadChannel, s)
     | Some key \<Rightarrow>
         if int (length blob) > s_maxBlob s then (SignalTooLarge, s)
         else if s_closed s then (SignalRateLimited, s)
         else
           let s1 = (if int (length (s_channels s)) \<ge> s_sweepAt s then sweepLocked now s else s)
           in case map_of (s_channels s1) key of
                Some a \<Rightarrow>
                  if held (chan_at s1 a) now then (SignalConflict, s1)
                  else post_into pick key a blob now (set_chan a ((chan_at s1 a)\<lparr>ch_blob := None\<rparr>) s1)
              | None \<Rightarrow> (let (a, s2) = new_chan key s1 in post_into pick key a blob now s2))"

datatype get_result = Returned "bytes option" SignalReason | Waits nat

definition register_result :: "bytes \<Rightarrow> nat option \<Rightarrow> sstore \<Rightarrow> get_result \<times> sstore" where
  "register_result key ch s =
    (case registerLocked key ch s of
       (Inl reason, s') \<Rightarrow> (Returned None reason, s')
     | (Inr w, s') \<Rightarrow> (Waits w, s'))"

definition Get_start :: "string \<Rightarrow> instant \<Rightarrow> sstore \<Rightarrow> get_result \<times> sstore" where
  "Get_start i now s =
    (case decodeChannelID i of
       None \<Rightarrow> (Returned None SignalBadChannel, s)
     | Some key \<Rightarrow>
         if s_closed s then (Returned None SignalRateLimited, s)
         else case map_of (s_channels s) key of
           None \<Rightarrow> register_result key None s
         | Some a \<Rightarrow>
             (let s1 = set_chan a ((chan_at s a)\<lparr>ch_blob := None\<rparr>) s in
              if held (chan_at s a) now
              then (Returned (ch_blob (chan_at s a)) SignalDelivered, gcLocked key a s1)
              else register_result key (Some a) s1))"

text \<open>
  What ended the wait: a blob on the waiter's channel, or one of the timer, the caller's context
  and the store's \<open>done\<close> channel. Taking the blob empties the waiter's channel.
\<close>

datatype wake = WokenByBlob | WokenByTimer | WokenByContext | WokenByDone

definition take_blob :: "nat \<Rightarrow> sstore \<Rightarrow> get_result \<times> sstore" where
  "take_blob w s =
    (Returned (w_c (wait_at s w)) SignalDelivered,
     set_wait w ((wait_at s w)\<lparr>w_c := None, f_returned := True\<rparr>) s)"

definition Get_finish :: "nat \<Rightarrow> wake \<Rightarrow> sstore \<Rightarrow> get_result \<times> sstore" where
  "Get_finish w woken s =
    (let f = wait_at s w in
     if woken = WokenByBlob \<or> w_delivered f then take_blob w s
     else
       let s1 = releaseLocked (f_key f) (f_ch f) w s;
           s2 = set_wait w ((wait_at s1 w)\<lparr>f_returned := True\<rparr>) s1
       in (Returned None (if s_closed s1 then SignalRateLimited else SignalEmpty), s2))"

text \<open>A wait can end in a given way only when its cause is there.\<close>

definition can_wake :: "sstore \<Rightarrow> nat \<Rightarrow> wake \<Rightarrow> bool" where
  "can_wake s w woken \<longleftrightarrow> w < length (s_waits s) \<and> \<not> f_returned (wait_at s w) \<and>
    (woken = WokenByBlob \<longrightarrow> w_c (wait_at s w) \<noteq> None) \<and> (woken = WokenByDone \<longrightarrow> s_closed s)"

text \<open>\<open>Shutdown\<close>: every waiter of every channel is released, and every channel dropped.\<close>

definition open_waiters :: "sstore \<Rightarrow> nat list" where
  "open_waiters s = concat (map (\<lambda>(key, a). ch_waiters (chan_at s a)) (s_channels s))"

definition signal_Shutdown :: "sstore \<Rightarrow> sstore" where
  "signal_Shutdown s =
    (if s_closed s then s
     else
       let gone = open_waiters s;
           cleared = map snd (s_channels s)
       in s\<lparr>s_closed := True,
            s_waits := map (\<lambda>w. if w \<in> set gone then (wait_at s w)\<lparr>w_active := False\<rparr> else wait_at s w)
              [0..<length (s_waits s)],
            s_chans := map (\<lambda>a. if a \<in> set cleared then (chan_at s a)\<lparr>ch_waiters := []\<rparr> else chan_at s a)
              [0..<length (s_chans s)],
            s_channels := [], s_waiting := 0\<rparr>)"

definition Waiting :: "sstore \<Rightarrow> int" where
  "Waiting s = s_waiting s"

section \<open>The invariant\<close>

definition active :: "sstore \<Rightarrow> nat set" where
  "active s = {w. w < length (s_waits s) \<and> w_active (wait_at s w)}"

text \<open>What holds of the channel object at \<open>a\<close> while some key is mapped to it.\<close>

definition chan_ok :: "sstore \<Rightarrow> nat \<Rightarrow> bool" where
  "chan_ok s a \<longleftrightarrow> a < length (s_chans s) \<and> distinct (ch_waiters (chan_at s a)) \<and>
    set (ch_waiters (chan_at s a)) = {w \<in> active s. f_ch (wait_at s w) = a} \<and>
    int (length (ch_waiters (chan_at s a))) \<le> s_maxPerChan s \<and>
    (ch_blob (chan_at s a) \<noteq> None \<longrightarrow> ch_waiters (chan_at s a) = [])"

definition wait_ok :: "sstore \<Rightarrow> nat \<Rightarrow> bool" where
  "wait_ok s w \<longleftrightarrow>
    (w_active (wait_at s w) \<longrightarrow> map_of (s_channels s) (f_key (wait_at s w)) = Some (f_ch (wait_at s w)) \<and>
      \<not> w_delivered (wait_at s w) \<and> \<not> f_returned (wait_at s w)) \<and>
    (w_delivered (wait_at s w) \<and> \<not> f_returned (wait_at s w) \<longleftrightarrow> w_c (wait_at s w) \<noteq> None) \<and>
    (\<not> w_active (wait_at s w) \<and> \<not> w_delivered (wait_at s w) \<and> \<not> f_returned (wait_at s w) \<longrightarrow> s_closed s)"

text \<open>
  Between the removal of a waiter and the marking of its outcome the waiter itself is in neither
  state: \<open>signal_inv W\<close> is the invariant for every waiter outside \<open>W\<close>.
\<close>

definition signal_inv :: "nat set \<Rightarrow> sstore \<Rightarrow> bool" where
  "signal_inv W s \<longleftrightarrow> map_ok (s_channels s) \<and>
    (\<forall>k a. map_of (s_channels s) k = Some a \<longrightarrow> chan_ok s a) \<and>
    (\<forall>k k' a. map_of (s_channels s) k = Some a \<longrightarrow> map_of (s_channels s) k' = Some a \<longrightarrow> k = k') \<and>
    (\<forall>w < length (s_waits s). w \<notin> W \<longrightarrow> wait_ok s w) \<and>
    s_waiting s = int (card (active s)) \<and> s_waiting s \<le> s_maxWaiters s \<and>
    0 < s_maxWaiters s \<and> 0 < s_maxPerChan s \<and> (s_closed s \<longrightarrow> s_channels s = [])"

definition signal_ok :: "sstore \<Rightarrow> bool" where
  "signal_ok s \<longleftrightarrow> signal_inv {} s"

lemma chan_at_set_chan [simp]:
  "chan_at (set_chan a c s) b = (if b = a \<and> a < length (s_chans s) then c else chan_at s b)"
  by (cases "a < length (s_chans s)") (simp_all add: chan_at_def set_chan_def nth_list_update list_update_beyond)

lemma wait_at_set_wait [simp]:
  "wait_at (set_wait w f s) v = (if v = w \<and> w < length (s_waits s) then f else wait_at s v)"
  by (cases "w < length (s_waits s)") (simp_all add: wait_at_def set_wait_def nth_list_update list_update_beyond)

lemma set_chan_simps [simp]:
  "s_channels (set_chan a c s) = s_channels s" "s_waits (set_chan a c s) = s_waits s"
  "s_waiting (set_chan a c s) = s_waiting s" "s_maxWaiters (set_chan a c s) = s_maxWaiters s"
  "s_maxPerChan (set_chan a c s) = s_maxPerChan s" "s_closed (set_chan a c s) = s_closed s"
  "length (s_chans (set_chan a c s)) = length (s_chans s)" "wait_at (set_chan a c s) w = wait_at s w"
  "s_ttl (set_chan a c s) = s_ttl s" "active (set_chan a c s) = active s"
  "s_maxBlob (set_chan a c s) = s_maxBlob s"
  by (simp_all add: set_chan_def wait_at_def active_def)

lemma set_wait_simps [simp]:
  "s_channels (set_wait w f s) = s_channels s" "length (s_waits (set_wait w f s)) = length (s_waits s)"
  "s_waiting (set_wait w f s) = s_waiting s" "s_maxWaiters (set_wait w f s) = s_maxWaiters s"
  "s_maxPerChan (set_wait w f s) = s_maxPerChan s" "s_closed (set_wait w f s) = s_closed s"
  "s_chans (set_wait w f s) = s_chans s" "chan_at (set_wait w f s) a = chan_at s a"
  "s_ttl (set_wait w f s) = s_ttl s" "s_maxBlob (set_wait w f s) = s_maxBlob s"
  by (simp_all add: set_wait_def chan_at_def)

lemma update_scalars [simp]:
  "chan_at (s\<lparr>s_waiting := n\<rparr>) a = chan_at s a" "wait_at (s\<lparr>s_waiting := n\<rparr>) w = wait_at s w"
  "chan_at (s\<lparr>s_channels := m\<rparr>) a = chan_at s a" "wait_at (s\<lparr>s_channels := m\<rparr>) w = wait_at s w"
  "chan_at (s\<lparr>s_sweepAt := j\<rparr>) a = chan_at s a" "wait_at (s\<lparr>s_sweepAt := j\<rparr>) w = wait_at s w"
  "active (s\<lparr>s_channels := m\<rparr>) = active s" "active (s\<lparr>s_sweepAt := j\<rparr>) = active s"
  "active (s\<lparr>s_waiting := n\<rparr>) = active s"
  by (simp_all add: chan_at_def wait_at_def active_def)

lemma active_set_wait:
  "w < length (s_waits s) \<Longrightarrow> active (set_wait w f s) =
    (if w_active f then insert w (active s) else active s - {w})"
  by (auto simp: active_def)

lemma finite_active [simp]: "finite (active s)"
  by (simp add: active_def)

lemma signal_invD:
  assumes "signal_inv W s"
  shows "map_ok (s_channels s)" and "map_of (s_channels s) k = Some a \<Longrightarrow> chan_ok s a"
    and "map_of (s_channels s) k = Some a \<Longrightarrow> map_of (s_channels s) k' = Some a \<Longrightarrow> k = k'"
    and "w < length (s_waits s) \<Longrightarrow> w \<notin> W \<Longrightarrow> wait_ok s w"
    and "s_waiting s = int (card (active s))" and "s_waiting s \<le> s_maxWaiters s"
    and "0 < s_maxWaiters s" and "0 < s_maxPerChan s" and "s_closed s \<Longrightarrow> s_channels s = []"
  using assms by (auto simp: signal_inv_def)

lemma signal_invI:
  assumes "map_ok (s_channels s)" and "\<And>k a. map_of (s_channels s) k = Some a \<Longrightarrow> chan_ok s a"
    and "\<And>k k' a. map_of (s_channels s) k = Some a \<Longrightarrow> map_of (s_channels s) k' = Some a \<Longrightarrow> k = k'"
    and "\<And>w. w < length (s_waits s) \<Longrightarrow> w \<notin> W \<Longrightarrow> wait_ok s w"
    and "s_waiting s = int (card (active s))" and "s_waiting s \<le> s_maxWaiters s"
    and "0 < s_maxWaiters s" and "0 < s_maxPerChan s" and "s_closed s \<Longrightarrow> s_channels s = []"
  shows "signal_inv W s"
  using assms unfolding signal_inv_def by blast

text \<open>Forgetting channels nobody waits on: \<open>gcLocked\<close> and \<open>sweepLocked\<close>.\<close>

lemma inv_unmap:
  assumes inv: "signal_inv W s" and m: "map_ok m"
    and sub: "\<And>k a. map_of m k = Some a \<Longrightarrow> map_of (s_channels s) k = Some a"
    and gone: "\<And>k a. map_of (s_channels s) k = Some a \<Longrightarrow> map_of m k = None \<Longrightarrow>
      ch_waiters (chan_at s a) = []"
  shows "signal_inv W (s\<lparr>s_channels := m\<rparr>)"
proof -
  have chans: "chan_ok (s\<lparr>s_channels := m\<rparr>) a" if "map_of m k = Some a" for k a
    using signal_invD(2) [OF inv sub [OF that]] by (simp add: chan_ok_def)
  have waits: "wait_ok (s\<lparr>s_channels := m\<rparr>) w" if w: "w < length (s_waits s)" "w \<notin> W" for w
  proof -
    note ok = signal_invD(4) [OF inv w]
    have "map_of m (f_key (wait_at s w)) = Some (f_ch (wait_at s w))" if act: "w_active (wait_at s w)"
    proof -
      from ok act have mapped: "map_of (s_channels s) (f_key (wait_at s w)) = Some (f_ch (wait_at s w))"
        by (simp add: wait_ok_def)
      with signal_invD(2) [OF inv mapped] act w have "w \<in> set (ch_waiters (chan_at s (f_ch (wait_at s w))))"
        by (simp add: chan_ok_def active_def)
      with gone [OF mapped] have "map_of m (f_key (wait_at s w)) \<noteq> None" by fastforce
      with sub mapped show ?thesis by fastforce
    qed
    with ok show ?thesis by (simp add: wait_ok_def)
  qed
  have closed: "m = []" if "s_closed s"
  proof (rule ccontr)
    assume "m \<noteq> []"
    then obtain k a ms where "m = (k, a) # ms" by (cases m) auto
    with sub [of k a] signal_invD(9) [OF inv that] show False by simp
  qed
  show ?thesis
    using inv m chans waits closed sub unfolding signal_inv_def
    by (auto simp del: not_None_eq)
qed

lemma inv_sweepAt: "signal_inv W (s\<lparr>s_sweepAt := j\<rparr>) = signal_inv W s"
  by (simp add: signal_inv_def chan_ok_def wait_ok_def)

lemma inv_both: "signal_inv W (s\<lparr>s_channels := m, s_sweepAt := j\<rparr>) = signal_inv W (s\<lparr>s_channels := m\<rparr>)"
  using inv_sweepAt [where s = "s\<lparr>s_channels := m\<rparr>"] by simp

lemma inv_gc:
  assumes inv: "signal_inv W s" and "map_of (s_channels s) key = Some a \<or> map_of (s_channels s) key = None"
  shows "signal_inv W (gcLocked key a s)"
proof (cases "ch_blob (chan_at s a) = None \<and> ch_waiters (chan_at s a) = []")
  case True
  have "signal_inv W (s\<lparr>s_channels := map_drop key (s_channels s)\<rparr>)"
    by (rule inv_unmap [OF inv])
      (use signal_invD(1) [OF inv] assms(2) True in \<open>auto split: if_splits\<close>)
  with True show ?thesis by (simp add: gcLocked_def)
qed (use inv in \<open>auto simp: gcLocked_def\<close>)

lemma inv_sweep:
  assumes inv: "signal_inv W s"
  shows "signal_inv W (sweepLocked now s)"
proof -
  let ?P = "\<lambda>key a. \<not> (ch_waiters (chan_at s a) = [] \<and> \<not> held (chan_at s a) now)"
  have "signal_inv W (s\<lparr>s_channels := map_retain ?P (s_channels s)\<rparr>)"
  proof (rule inv_unmap [OF inv])
    fix k a
    note look = map_of_map_retain [OF signal_invD(1) [OF inv], of ?P k]
    show "map_of (map_retain ?P (s_channels s)) k = Some a \<Longrightarrow> map_of (s_channels s) k = Some a"
      using look by (auto split: option.splits if_splits)
    show "map_of (s_channels s) k = Some a \<Longrightarrow> map_of (map_retain ?P (s_channels s)) k = None \<Longrightarrow>
        ch_waiters (chan_at s a) = []"
      using look by (auto split: if_splits)
  qed (use signal_invD(1) [OF inv] in simp)
  then show ?thesis
    unfolding sweepLocked_def Let_def by (subst inv_both) simp
qed

lemma chan_ok_mapped:
  "signal_inv W s \<Longrightarrow> map_of (s_channels s) k = Some a \<Longrightarrow> a < length (s_chans s)"
  using signal_invD(2) by (fastforce simp: chan_ok_def)

lemma active_mapped:
  assumes "signal_inv {} s" and "w \<in> active s"
  shows "map_of (s_channels s) (f_key (wait_at s w)) = Some (f_ch (wait_at s w))"
  using signal_invD(4) [OF assms(1), of w] assms(2) by (simp add: wait_ok_def active_def)

lemma inv_new_chan:
  assumes inv: "signal_inv {} s" and key: "map_of (s_channels s) key = None" and open_: "\<not> s_closed s"
  shows "signal_inv {} (snd (new_chan key s)) \<and>
    map_of (s_channels (snd (new_chan key s))) key = Some (fst (new_chan key s)) \<and>
    chan_at (snd (new_chan key s)) (fst (new_chan key s)) =
      \<lparr>ch_blob = None, ch_expiresAt = zero_time, ch_waiters = []\<rparr>"
proof -
  let ?a = "length (s_chans s)" and ?s = "snd (new_chan key s)"
  have at: "b < ?a \<Longrightarrow> chan_at ?s b = chan_at s b"
    "chan_at ?s ?a = \<lparr>ch_blob = None, ch_expiresAt = zero_time, ch_waiters = []\<rparr>" for b
    by (simp_all add: new_chan_def chan_at_def nth_append)
  have same: "wait_at ?s w = wait_at s w" "active ?s = active s" "length (s_waits ?s) = length (s_waits s)"
    "length (s_chans ?s) = Suc ?a" "s_maxPerChan ?s = s_maxPerChan s" "s_maxWaiters ?s = s_maxWaiters s"
    "s_waiting ?s = s_waiting s" "s_closed ?s = s_closed s" for w
    by (simp_all add: new_chan_def wait_at_def active_def)
  have map: "map_of (s_channels ?s) = (map_of (s_channels s))(key \<mapsto> ?a)" "map_ok (s_channels ?s)"
    using signal_invD(1) [OF inv] by (simp_all add: new_chan_def)
  note old = chan_ok_mapped [OF inv]
  have none: "f_ch (wait_at s w) \<noteq> ?a" if "w \<in> active s" for w
    using old [OF active_mapped [OF inv that]] by simp
  have new: "chan_ok ?s ?a"
    using none signal_invD(8) [OF inv] by (auto simp: chan_ok_def at same)
  have kept: "chan_ok ?s b" if "map_of (s_channels s) k = Some b" for k b
    using signal_invD(2) [OF inv that] old [OF that] by (simp add: chan_ok_def at same)
  have waits: "wait_ok ?s w" if "w < length (s_waits s)" for w
    using signal_invD(4) [OF inv that] key by (auto simp: wait_ok_def same map)
  have inj: "k = k'" if "map_of (s_channels ?s) k = Some b" "map_of (s_channels ?s) k' = Some b" for k k' b
    using that old signal_invD(3) [OF inv] by (fastforce simp: map split: if_splits)
  have "signal_inv {} ?s"
  proof (rule signal_invI)
    show "chan_ok ?s b" if "map_of (s_channels ?s) k = Some b" for k b
      using that new kept by (auto simp: map(1) split: if_splits)
  qed (use inj waits signal_invD [OF inv] open_ in \<open>simp_all add: same map(2)\<close>)
  then show ?thesis using at(2) map by (simp add: new_chan_def)
qed

lemma inv_set_blob:
  assumes inv: "signal_inv W s"
    and "x \<noteq> None \<Longrightarrow> ch_waiters (chan_at s a) = []"
  shows "signal_inv W (set_chan a ((chan_at s a)\<lparr>ch_blob := x, ch_expiresAt := e\<rparr>) s)"
    and "x = None \<Longrightarrow> signal_inv W (set_chan a ((chan_at s a)\<lparr>ch_blob := x\<rparr>) s)"
  using assms unfolding signal_inv_def
  by (auto simp: chan_ok_def wait_ok_def split: if_splits)

text \<open>A waiter is added to the mapped channel of its key.\<close>

definition add_waiter :: "bytes \<Rightarrow> nat \<Rightarrow> sstore \<Rightarrow> sstore" where
  "add_waiter key a s =
    (let w = length (s_waits s);
         f = \<lparr>w_c = None, w_delivered = False, w_active = True, f_key = key, f_ch = a, f_returned = False\<rparr>;
         s2 = s\<lparr>s_waits := s_waits s @ [f], s_waiting := s_waiting s + 1\<rparr>
     in set_chan a ((chan_at s2 a)\<lparr>ch_waiters := ch_waiters (chan_at s2 a) @ [w]\<rparr>) s2)"

lemma inv_add_waiter:
  assumes inv: "signal_inv {} s" and mapped: "map_of (s_channels s) key = Some a"
    and blob: "ch_blob (chan_at s a) = None"
    and room: "s_waiting s < s_maxWaiters s" "int (length (ch_waiters (chan_at s a))) < s_maxPerChan s"
  shows "signal_inv {} (add_waiter key a s)"
proof -
  let ?w = "length (s_waits s)" and ?s = "add_waiter key a s"
  have wait: "v < ?w \<Longrightarrow> wait_at ?s v = wait_at s v" "wait_at ?s ?w = \<lparr>w_c = None, w_delivered = False,
      w_active = True, f_key = key, f_ch = a, f_returned = False\<rparr>" for v
    by (simp_all add: add_waiter_def Let_def) (simp_all add: wait_at_def nth_append)
  have same: "length (s_waits ?s) = Suc ?w" "s_channels ?s = s_channels s" "s_waiting ?s = s_waiting s + 1"
    "s_maxWaiters ?s = s_maxWaiters s" "s_maxPerChan ?s = s_maxPerChan s" "s_closed ?s = s_closed s"
    "length (s_chans ?s) = length (s_chans s)"
    by (simp_all add: add_waiter_def Let_def)
  have chan: "chan_at ?s b = (if b = a then (chan_at s a)\<lparr>ch_waiters := ch_waiters (chan_at s a) @ [?w]\<rparr>
      else chan_at s b)" for b
    using chan_ok_mapped [OF inv mapped]
    by (auto simp: add_waiter_def Let_def) (simp_all add: chan_at_def)
  have act: "active ?s = insert ?w (active s)"
    by (auto simp: active_def same wait less_Suc_eq)
  have fresh: "?w \<notin> active s" by (simp add: active_def)
  have wait_old: "wait_at ?s v = wait_at s v" if "v \<in> active s" for v
    using that wait(1) by (simp add: active_def)
  have chans: "chan_ok ?s b" if "map_of (s_channels s) k = Some b" for k b
  proof -
    note ok = signal_invD(2) [OF inv that]
    have "{v \<in> insert ?w (active s). f_ch (wait_at ?s v) = b} =
        (if b = a then {?w} else {}) \<union> {v \<in> active s. f_ch (wait_at s v) = b}"
      using wait_old by (auto simp: wait(2))
    moreover have "?w \<notin> set (ch_waiters (chan_at s b))"
      using ok fresh by (simp add: chan_ok_def)
    ultimately show ?thesis
      using ok room(2) blob by (cases "b = a") (simp_all add: chan_ok_def chan act same)
  qed
  have waits: "wait_ok ?s v" if "v < Suc ?w" for v
    using that signal_invD(4) [OF inv, of v] mapped
    by (cases "v = ?w") (auto simp: wait_ok_def same wait)
  have "card (active ?s) = Suc (card (active s))" using fresh by (simp add: act)
  then show ?thesis
    using chans waits signal_invD(3) [OF inv] signal_invD(1,5-9) [OF inv] room(1) mapped
    by - (rule signal_invI, auto simp: same)
qed

text \<open>A waiter is taken from its channel, and then its outcome is marked.\<close>

lemma drop_waiter_simps [simp]:
  "s_channels (drop_waiter a w s) = s_channels s" "s_closed (drop_waiter a w s) = s_closed s"
  "length (s_waits (drop_waiter a w s)) = length (s_waits s)"
  "length (s_chans (drop_waiter a w s)) = length (s_chans s)"
  "s_ttl (drop_waiter a w s) = s_ttl s" "s_maxBlob (drop_waiter a w s) = s_maxBlob s"
  by (simp_all add: drop_waiter_def)

lemma inv_drop_waiter:
  assumes inv: "signal_inv {} s" and w: "w \<in> active s" "f_ch (wait_at s w) = a"
  shows "signal_inv {w} (drop_waiter a w s)"
proof -
  let ?s = "drop_waiter a w s"
  have len: "w < length (s_waits s)" using w(1) by (simp add: active_def)
  have act: "active ?s = active s - {w}"
    using len by (simp add: drop_waiter_def active_set_wait)
  have wait: "wait_at ?s v = (if v = w then (wait_at s w)\<lparr>w_active := False\<rparr> else wait_at s v)" for v
    using len by (simp add: drop_waiter_def)
  have mapped: "map_of (s_channels s) (f_key (wait_at s w)) = Some a"
    using active_mapped [OF inv w(1)] w(2) by simp
  have chan: "chan_at ?s b = (if b = a then (chan_at s a)\<lparr>ch_waiters := remove1 w (ch_waiters (chan_at s a))\<rparr>
      else chan_at s b)" for b
    using chan_ok_mapped [OF inv mapped] by (simp add: drop_waiter_def)
  have scal: "s_maxPerChan ?s = s_maxPerChan s" "s_waiting ?s = s_waiting s - 1" "s_maxWaiters ?s = s_maxWaiters s"
    by (simp_all add: drop_waiter_def)
  have chans: "chan_ok ?s b" if "map_of (s_channels s) k = Some b" for k b
  proof -
    note ok = signal_invD(2) [OF inv that]
    have "{v \<in> active s - {w}. f_ch (wait_at ?s v) = b} = {v \<in> active s. f_ch (wait_at s v) = b} - {w}"
      by (auto simp: wait)
    moreover have "length (remove1 w (ch_waiters (chan_at s b))) \<le> length (ch_waiters (chan_at s b))"
      by (simp add: length_remove1)
    moreover have "b \<noteq> a \<Longrightarrow> w \<notin> set (ch_waiters (chan_at s b))"
      using ok w(2) by (simp add: chan_ok_def)
    ultimately show ?thesis
      using ok by (cases "b = a") (simp_all add: chan_ok_def chan act scal)
  qed
  have waits: "wait_ok ?s v" if "v < length (s_waits s)" "v \<noteq> w" for v
    using signal_invD(4) [OF inv that(1)] that(2) by (simp add: wait_ok_def wait)
  have "card (active s) = Suc (card (active ?s))"
    unfolding act by (rule card.remove [OF finite_active w(1)])
  then have "int (card (active ?s)) = int (card (active s)) - 1" by simp
  then show ?thesis
    using chans waits signal_invD(3) [OF inv] signal_invD(1,5-9) [OF inv]
    by - (rule signal_invI, auto simp: scal)
qed

lemma inv_mark:
  assumes inv: "signal_inv {w} s" and w: "w < length (s_waits s)" "\<not> w_active (wait_at s w)" "\<not> w_active f"
    and f: "w_delivered f \<and> \<not> f_returned f \<longleftrightarrow> w_c f \<noteq> None" "w_delivered f \<or> f_returned f \<or> s_closed s"
  shows "signal_inv {} (set_wait w f s)"
proof -
  have act: "active (set_wait w f s) = active s"
    using w by (auto simp: active_set_wait active_def)
  have "chan_ok (set_wait w f s) a" if "chan_ok s a" for a
  proof -
    have "{v \<in> active s. f_ch (wait_at (set_wait w f s) v) = a} = {v \<in> active s. f_ch (wait_at s v) = a}"
      using w(2) by (auto simp: active_def)
    with that show ?thesis by (simp add: chan_ok_def act)
  qed
  moreover have "wait_ok (set_wait w f s) v" if "v < length (s_waits s)" for v
    using that w f signal_invD(4) [OF inv, of v] by (cases "v = w") (auto simp: wait_ok_def)
  ultimately show ?thesis
    using signal_invD [OF inv] by (intro signal_invI) (simp_all add: act)
qed

section \<open>The methods keep the invariant\<close>

lemma chan_waiter_active:
  assumes "signal_inv {} s" and "map_of (s_channels s) k = Some a" and "w \<in> set (ch_waiters (chan_at s a))"
  shows "w \<in> active s \<and> f_ch (wait_at s w) = a \<and> f_key (wait_at s w) = k \<and> w < length (s_waits s)"
proof -
  have w: "w \<in> active s" "f_ch (wait_at s w) = a"
    using signal_invD(2) [OF assms(1,2)] assms(3) by (simp_all add: chan_ok_def)
  with active_mapped [OF assms(1) w(1)] signal_invD(3) [OF assms(1)] assms(2)
  show ?thesis by (auto simp: active_def)
qed

text \<open>What \<open>post_into\<close> does: it hands the blob to a waiter of the channel, or stores it.\<close>

lemma post_into_cases:
  assumes "post_into pick key a b now s = (r, s')"
  obtains (stored) "ch_waiters (chan_at s a) = []" "r = SignalStored"
      "s' = set_chan a ((chan_at s a)\<lparr>ch_blob := Some b, ch_expiresAt := now + s_ttl s\<rparr>) s"
  | (handed) w where "w \<in> set (ch_waiters (chan_at s a))" "r = SignalStored"
      "s' = gcLocked key a (set_wait w
        ((wait_at (drop_waiter a w s) w)\<lparr>w_delivered := True, w_c := Some b\<rparr>) (drop_waiter a w s))"
proof (cases "ch_waiters (chan_at s a) = []")
  case True
  with assms stored show thesis by (simp add: post_into_def takeWaiterLocked_def)
next
  case False
  let ?ws = "ch_waiters (chan_at s a)"
  have "?ws ! (pick mod length ?ws) \<in> set ?ws" using False by simp
  from handed [OF this] False assms show thesis
    by (simp add: post_into_def takeWaiterLocked_def Let_def)
qed

lemma wait_at_drop [simp]:
  "w < length (s_waits s) \<Longrightarrow> wait_at (drop_waiter a w s) v =
    (if v = w then (wait_at s w)\<lparr>w_active := False\<rparr> else wait_at s v)"
  by (simp add: drop_waiter_def)

lemma inv_deliver:
  assumes inv: "signal_inv {} s" and mapped: "map_of (s_channels s) key = Some a"
    and w: "w \<in> set (ch_waiters (chan_at s a))"
  shows "signal_inv {} (set_wait w
    ((wait_at (drop_waiter a w s) w)\<lparr>w_delivered := True, w_c := Some b\<rparr>) (drop_waiter a w s))"
proof -
  note act = chan_waiter_active [OF inv mapped w]
  have "\<not> f_returned (wait_at s w)"
    using signal_invD(4) [OF inv, of w] act by (simp add: wait_ok_def active_def)
  with act show ?thesis by (intro inv_mark inv_drop_waiter [OF inv]) simp_all
qed

lemma inv_post_into:
  assumes inv: "signal_inv {} s" and mapped: "map_of (s_channels s) key = Some a"
    and post: "post_into pick key a b now s = (r, s')"
  shows "signal_inv {} s'"
  using post
proof (cases rule: post_into_cases)
  case stored
  then show ?thesis using inv_set_blob(1) [OF inv] by simp
next
  case (handed w)
  have "signal_inv {} (gcLocked key a (set_wait w
      ((wait_at (drop_waiter a w s) w)\<lparr>w_delivered := True, w_c := Some b\<rparr>) (drop_waiter a w s)))"
    by (rule inv_gc [OF inv_deliver [OF inv mapped handed(1)]]) (simp add: mapped)
  with handed(3) show ?thesis by simp
qed

lemma Post_ok:
  assumes "signal_ok s" and post: "signal_Post pick i b now s = (r, s')"
  shows "signal_ok s'"
proof -
  from assms(1) have inv: "signal_inv {} s" by (simp add: signal_ok_def)
  show ?thesis
  proof (cases "decodeChannelID i = None \<or> int (length b) > s_maxBlob s \<or> s_closed s")
    case True
    with post have "s' = s" by (auto simp: signal_Post_def split: option.splits if_splits)
    with assms(1) show ?thesis by simp
  next
    case False
    then obtain key where key: "decodeChannelID i = Some key" by auto
    define s1 where "s1 = (if int (length (s_channels s)) \<ge> s_sweepAt s then sweepLocked now s else s)"
    have inv1: "signal_inv {} s1" and open1: "\<not> s_closed s1"
      using inv inv_sweep [OF inv] False by (auto simp: s1_def sweepLocked_def Let_def)
    have post1: "(case map_of (s_channels s1) key of
        Some a \<Rightarrow>
          if held (chan_at s1 a) now then (SignalConflict, s1)
          else post_into pick key a b now (set_chan a ((chan_at s1 a)\<lparr>ch_blob := None\<rparr>) s1)
      | None \<Rightarrow> (let (a, s2) = new_chan key s1 in post_into pick key a b now s2)) = (r, s')"
      using post key False by (simp add: signal_Post_def Let_def flip: s1_def)
    have "signal_inv {} s'"
    proof (cases "map_of (s_channels s1) key")
      case None
      obtain a s2 where new: "new_chan key s1 = (a, s2)" by fastforce
      with inv_new_chan [OF inv1 None open1] post1 None show ?thesis
        by (auto intro: inv_post_into)
    next
      case (Some a)
      with post1 inv1 inv_set_blob(2) [OF inv1, of None a] show ?thesis
        by (auto split: if_splits intro: inv_post_into)
    qed
    then show ?thesis by (simp add: signal_ok_def)
  qed
qed

lemma registerLocked_cases:
  assumes "registerLocked key ch s = (res, s')"
  obtains (refused) "res = Inl SignalRateLimited" "s' = s"
  | (added) "res = Inr (length (s_waits s))" "s_waiting s < s_maxWaiters s"
      "case ch of Some a \<Rightarrow> int (length (ch_waiters (chan_at s a))) < s_maxPerChan s \<and> s' = add_waiter key a s
        | None \<Rightarrow> s' = add_waiter key (fst (new_chan key s)) (snd (new_chan key s))"
  using assms
  by (auto simp: registerLocked_def add_waiter_def Let_def new_chan_def split: if_splits option.splits)

lemma inv_register:
  assumes inv: "signal_inv {} s" and open_: "\<not> s_closed s" and reg: "registerLocked key ch s = (res, s')"
    and ch: "case ch of Some a \<Rightarrow> map_of (s_channels s) key = Some a \<and> ch_blob (chan_at s a) = None
      | None \<Rightarrow> map_of (s_channels s) key = None"
  shows "signal_inv {} s'"
  using reg
proof (cases rule: registerLocked_cases)
  case refused
  with inv show ?thesis by simp
next
  case added
  show ?thesis
  proof (cases ch)
    case (Some a)
    with added ch inv_add_waiter [OF inv] show ?thesis by simp
  next
    case None
    with ch have unmapped: "map_of (s_channels s) key = None" by simp
    note new = inv_new_chan [OF inv unmapped open_]
    have "s_waiting (snd (new_chan key s)) = s_waiting s" "s_maxWaiters (snd (new_chan key s)) = s_maxWaiters s"
      "s_maxPerChan (snd (new_chan key s)) = s_maxPerChan s"
      by (simp_all add: new_chan_def)
    with None added new signal_invD(8) [OF inv] show ?thesis
      by (auto intro!: inv_add_waiter)
  qed
qed

lemma Get_start_ok:
  assumes "signal_ok s" and get: "Get_start i now s = (r, s')"
  shows "signal_ok s'"
proof -
  from assms(1) have inv: "signal_inv {} s" by (simp add: signal_ok_def)
  show ?thesis
  proof (cases "decodeChannelID i = None \<or> s_closed s")
    case True
    with get have "s' = s" by (auto simp: Get_start_def split: option.splits)
    with assms(1) show ?thesis by simp
  next
    case False
    then obtain key where key: "decodeChannelID i = Some key" by auto
    have "signal_inv {} s'"
    proof (cases "map_of (s_channels s) key")
      case None
      obtain res where "registerLocked key None s = (res, s')"
        using get key None False
        by (auto simp: Get_start_def register_result_def split: prod.splits sum.splits)
      with inv_register [OF inv] False None show ?thesis by simp
    next
      case (Some a)
      let ?s1 = "set_chan a ((chan_at s a)\<lparr>ch_blob := None\<rparr>) s"
      have inv1: "signal_inv {} ?s1" by (rule inv_set_blob(2) [OF inv]) simp_all
      show ?thesis
      proof (cases "held (chan_at s a) now")
        case True
        with get key Some False inv_gc [OF inv1] show ?thesis by (auto simp: Get_start_def Let_def)
      next
        case not_held: False
        obtain res where "registerLocked key (Some a) ?s1 = (res, s')"
          using get key Some False not_held
          by (auto simp: Get_start_def Let_def register_result_def split: prod.splits sum.splits)
        with inv_register [OF inv1] False Some chan_ok_mapped [OF inv Some] show ?thesis by simp
      qed
    qed
    then show ?thesis by (simp add: signal_ok_def)
  qed
qed

text \<open>The end of a wait, for a waiter whose \<open>Get\<close> has not returned.\<close>

lemma gcLocked_simps [simp]:
  "wait_at (gcLocked key a s) w = wait_at s w" "s_closed (gcLocked key a s) = s_closed s"
  "s_waits (gcLocked key a s) = s_waits s" "chan_at (gcLocked key a s) b = chan_at s b"
  "active (gcLocked key a s) = active s"
  by (simp_all add: gcLocked_def)

lemma Get_finish_cases:
  assumes "Get_finish w woken s = (r, s')" and "can_wake s w woken" and "signal_ok s"
  obtains (delivered) b where "w_c (wait_at s w) = Some b" "r = Returned (Some b) SignalDelivered"
      "\<not> w_active (wait_at s w)" "s' = set_wait w ((wait_at s w)\<lparr>w_c := None, f_returned := True\<rparr>) s"
  | (released) "w \<in> active s" "r = Returned None SignalEmpty" "\<not> s_closed s"
      "s' = set_wait w ((wait_at (drop_waiter (f_ch (wait_at s w)) w s) w)\<lparr>f_returned := True\<rparr>)
        (gcLocked (f_key (wait_at s w)) (f_ch (wait_at s w)) (drop_waiter (f_ch (wait_at s w)) w s))"
  | (drained) "\<not> w_active (wait_at s w)" "\<not> w_delivered (wait_at s w)" "s_closed s"
      "r = Returned None SignalRateLimited" "s' = set_wait w ((wait_at s w)\<lparr>f_returned := True\<rparr>) s"
proof -
  from assms(2) have w: "w < length (s_waits s)" "\<not> f_returned (wait_at s w)"
    and blob: "woken = WokenByBlob \<Longrightarrow> w_c (wait_at s w) \<noteq> None"
    by (auto simp: can_wake_def)
  from assms(3) have inv: "signal_inv {} s" by (simp add: signal_ok_def)
  note ok = signal_invD(4) [OF inv w(1), simplified]
  show thesis
  proof (cases "w_delivered (wait_at s w)")
    case True
    with ok w obtain b where "w_c (wait_at s w) = Some b" "\<not> w_active (wait_at s w)"
      by (auto simp: wait_ok_def)
    with True assms(1) show thesis
      by (intro delivered [of b]) (auto simp: Get_finish_def take_blob_def Let_def)
  next
    case False
    with ok w blob have timer: "woken \<noteq> WokenByBlob" by (auto simp: wait_ok_def)
    show thesis
    proof (cases "w_active (wait_at s w)")
      case True
      with w have act: "w \<in> active s" by (simp add: active_def)
      have "\<not> s_closed s"
        using active_mapped [OF inv act] signal_invD(9) [OF inv] by auto
      with True False timer assms(1) act show thesis
        by (intro released) (auto simp: Get_finish_def releaseLocked_def Let_def)
    next
      case inactive: False
      with False ok w have "s_closed s" by (simp add: wait_ok_def)
      with inactive False timer assms(1) show thesis
        by (intro drained) (auto simp: Get_finish_def releaseLocked_def Let_def)
    qed
  qed
qed

lemma inv_returned:
  assumes inv: "signal_inv {} s" and w: "w < length (s_waits s)" "\<not> w_active (wait_at s w)"
  shows "signal_inv {} (set_wait w ((wait_at s w)\<lparr>w_c := None, f_returned := True\<rparr>) s)"
proof (rule inv_mark)
  show "signal_inv {w} s" using inv by (simp add: signal_inv_def)
qed (use w in simp_all)

lemma Get_finish_ok:
  assumes ok: "signal_ok s" and get: "Get_finish w woken s = (r, s')" and wake: "can_wake s w woken"
  shows "signal_ok s'"
proof -
  from ok have inv: "signal_inv {} s" by (simp add: signal_ok_def)
  from wake have len: "w < length (s_waits s)" by (simp add: can_wake_def)
  have "signal_inv {} s'"
    using get wake ok
  proof (cases rule: Get_finish_cases)
    case (delivered b)
    with inv_returned [OF inv len] show ?thesis by simp
  next
    case released
    let ?a = "f_ch (wait_at s w)"
    have drop: "signal_inv {w} (drop_waiter ?a w s)"
      by (rule inv_drop_waiter [OF inv released(1) refl])
    have "signal_inv {w} (gcLocked (f_key (wait_at s w)) ?a (drop_waiter ?a w s))"
      by (rule inv_gc [OF drop]) (simp add: active_mapped [OF inv released(1)])
    moreover have "w_c (wait_at s w) = None" "\<not> w_delivered (wait_at s w)"
      using signal_invD(4) [OF inv len] released(1) by (auto simp: wait_ok_def active_def)
    ultimately show ?thesis
      unfolding released(4) using len by (intro inv_mark) simp_all
  next
    case drained
    have "w_c (wait_at s w) = None"
      using signal_invD(4) [OF inv len] drained by (auto simp: wait_ok_def)
    with drained inv_returned [OF inv len] show ?thesis
      by (metis (full_types) waiter.update_convs(1) waiter.surjective frame.update_convs(3))
  qed
  then show ?thesis by (simp add: signal_ok_def)
qed

lemma Shutdown_ok:
  assumes "signal_ok s"
  shows "signal_ok (signal_Shutdown s) \<and> s_closed (signal_Shutdown s) \<and> active (signal_Shutdown s) = {}"
proof -
  from assms have inv: "signal_inv {} s" by (simp add: signal_ok_def)
  show ?thesis
  proof (cases "s_closed s")
    case True
    have "active s = {}"
      using active_mapped [OF inv] signal_invD(9) [OF inv True] by auto
    with True assms show ?thesis by (simp add: signal_Shutdown_def)
  next
    case False
    let ?gone = "open_waiters s"
    let ?s = "signal_Shutdown s"
    have gone: "w \<in> set ?gone" if "w \<in> active s" for w
    proof -
      have mapped: "map_of (s_channels s) (f_key (wait_at s w)) = Some (f_ch (wait_at s w))"
        by (rule active_mapped [OF inv that])
      moreover have "w \<in> set (ch_waiters (chan_at s (f_ch (wait_at s w))))"
        using signal_invD(2) [OF inv mapped] that by (simp add: chan_ok_def)
      ultimately show ?thesis by (force simp: open_waiters_def dest: map_of_SomeD)
    qed
    have len: "length (s_waits ?s) = length (s_waits s)"
      using False by (simp add: signal_Shutdown_def Let_def)
    have wait: "wait_at ?s w = (if w \<in> set ?gone then (wait_at s w)\<lparr>w_active := False\<rparr> else wait_at s w)"
      if "w < length (s_waits s)" for w
      using that False by (simp add: signal_Shutdown_def Let_def wait_at_def)
    have inactive: "\<not> w_active (wait_at ?s w)" if "w < length (s_waits s)" for w
      using that gone [of w] by (auto simp: wait active_def)
    have act: "active ?s = {}" using inactive by (auto simp: active_def len)
    have scal: "s_channels ?s = []" "s_waiting ?s = 0" "s_closed ?s" "s_maxWaiters ?s = s_maxWaiters s"
      "s_maxPerChan ?s = s_maxPerChan s"
      using False by (simp_all add: signal_Shutdown_def Let_def)
    have "wait_ok ?s w" if w: "w < length (s_waits s)" for w
    proof -
      have "w_delivered (wait_at ?s w) = w_delivered (wait_at s w)" "w_c (wait_at ?s w) = w_c (wait_at s w)"
        "f_returned (wait_at ?s w) = f_returned (wait_at s w)"
        by (simp_all add: wait [OF w])
      with inactive [OF w] signal_invD(4) [OF inv w] show ?thesis
        by (simp add: wait_ok_def scal)
    qed
    then have "signal_inv {} ?s"
      using signal_invD(7,8) [OF inv] by - (rule signal_invI, simp_all add: len act scal)
    with act scal(3) show ?thesis by (simp add: signal_ok_def)
  qed
qed

lemma New_ok: "signal_ok (signal_New opts)"
  by (simp add: signal_ok_def signal_inv_def signal_New_def active_def DefaultMaxWaiters_def
    DefaultMaxWaitersPerChannel_def)

section \<open>Runs\<close>

text \<open>
  The critical sections of all requests in the order the mutex serialises them, with what the
  outside sees: a blob accepted on a channel, or a blob handed to a reader.
\<close>

datatype signal_event = EPost nat string bytes instant | EGet string instant | EWake nat wake | EShutdown

datatype signal_outcome = Accepted bytes bytes | Handed bytes bytes

fun handed_by :: "bytes \<Rightarrow> get_result \<Rightarrow> signal_outcome list" where
  "handed_by k (Returned (Some b) r) = [Handed k b]"
| "handed_by k _ = []"

fun signal_step :: "signal_event \<Rightarrow> sstore \<Rightarrow> signal_outcome list \<times> sstore" where
  "signal_step (EPost pick i b now) s =
    (let (r, s') = signal_Post pick i b now s
     in (if r = SignalStored then [Accepted (the (decodeChannelID i)) b] else [], s'))"
| "signal_step (EGet i now) s =
    (let (r, s') = Get_start i now s in (handed_by (the (decodeChannelID i)) r, s'))"
| "signal_step (EWake w woken) s =
    (if can_wake s w woken
     then let (r, s') = Get_finish w woken s in (handed_by (f_key (wait_at s w)) r, s') else ([], s))"
| "signal_step EShutdown s = ([], signal_Shutdown s)"

fun signal_run :: "signal_event list \<Rightarrow> sstore \<Rightarrow> signal_outcome list \<times> sstore" where
  "signal_run [] s = ([], s)"
| "signal_run (e # es) s =
    (let (out, s') = signal_step e s; (outs, s'') = signal_run es s' in (out @ outs, s''))"

lemma signal_step_ok: "signal_ok s \<Longrightarrow> signal_ok (snd (signal_step e s))"
  by (cases e) (auto split: prod.splits dest: Post_ok Get_start_ok Get_finish_ok Shutdown_ok)

interpretation sig: stepped_component "\<lambda>e s. snd (signal_step e s)" signal_ok
  by unfold_locales (rule signal_step_ok)

lemma signal_run_state: "snd (signal_run es s) = run_ops (\<lambda>e s. snd (signal_step e s)) es s"
  by (induction es arbitrary: s) (simp_all add: split_beta)

lemma signal_run_ok: "signal_ok s \<Longrightarrow> signal_ok (snd (signal_run es s))"
  unfolding signal_run_state by (rule sig.run_inv)

section \<open>Where a blob is\<close>

text \<open>
  An accepted blob is stored on its channel or in the hands of a waiter that has not returned.
  \<open>in_flight s k b\<close> counts the places that hold blob \<open>b\<close> for channel \<open>k\<close>.
\<close>

definition stored :: "sstore \<Rightarrow> bytes \<Rightarrow> bytes option" where
  "stored s k = (case map_of (s_channels s) k of None \<Rightarrow> None | Some a \<Rightarrow> ch_blob (chan_at s a))"

definition handing :: "sstore \<Rightarrow> bytes \<Rightarrow> bytes \<Rightarrow> nat set" where
  "handing s k b = {w. w < length (s_waits s) \<and> f_key (wait_at s w) = k \<and> w_c (wait_at s w) = Some b}"

definition in_flight :: "sstore \<Rightarrow> bytes \<Rightarrow> bytes \<Rightarrow> nat" where
  "in_flight s k b = (if stored s k = Some b then 1 else 0) + card (handing s k b)"

lemma finite_handing [simp]: "finite (handing s k b)"
  by (simp add: handing_def)

lemma handing_simps [simp]:
  "handing (set_chan a c s) k b = handing s k b" "handing (gcLocked key a s) k b = handing s k b"
  "handing (sweepLocked now s) k b = handing s k b" "handing (snd (new_chan key s)) k b = handing s k b"
  by (simp_all add: handing_def sweepLocked_def Let_def new_chan_def) (simp_all add: wait_at_def)

lemma handing_set_wait:
  "w < length (s_waits s) \<Longrightarrow> handing (set_wait w f s) k b =
    (if f_key f = k \<and> w_c f = Some b then insert w (handing s k b) else handing s k b - {w})"
  by (auto simp: handing_def)

lemma handing_drop [simp]:
  "w < length (s_waits s) \<Longrightarrow> handing (drop_waiter a w s) k b = handing s k b"
  by (auto simp: handing_def split: if_splits)

lemma handing_add [simp]: "handing (add_waiter key a s) k b = handing s k b"
proof -
  have "v < length (s_waits s) \<Longrightarrow> wait_at (add_waiter key a s) v = wait_at s v"
    "w_c (wait_at (add_waiter key a s) (length (s_waits s))) = None" for v
    by (simp_all add: add_waiter_def Let_def) (simp_all add: wait_at_def nth_append)
  moreover have "length (s_waits (add_waiter key a s)) = Suc (length (s_waits s))"
    by (simp add: add_waiter_def Let_def)
  ultimately show ?thesis by (auto simp: handing_def less_Suc_eq)
qed

lemma stored_set_wait [simp]: "stored (set_wait w f s) k = stored s k"
  by (simp add: stored_def split: option.split)

lemma stored_mapped: "map_of (s_channels s) k = Some a \<Longrightarrow> stored s k = ch_blob (chan_at s a)"
  by (simp add: stored_def)

lemma stored_set_chan:
  assumes inv: "signal_inv {} s" and key: "map_of (s_channels s) key = Some a"
  shows "stored (set_chan a c s) k = (if k = key then ch_blob c else stored s k)"
proof (cases "map_of (s_channels s) k")
  case None
  with key show ?thesis by (auto simp: stored_def)
next
  case (Some b)
  have "b = a \<Longrightarrow> k = key" using signal_invD(3) [OF inv Some, of key] key by simp
  then have "b = a \<longleftrightarrow> k = key" using Some key by auto
  with Some chan_ok_mapped [OF inv key] show ?thesis by (simp add: stored_def)
qed

lemma stored_gc:
  "map_of (s_channels s) key = Some a \<Longrightarrow> stored (gcLocked key a s) k = stored s k"
  by (auto simp: gcLocked_def stored_def split: option.split)

lemma blob_drop [simp]: "ch_blob (chan_at (drop_waiter a w s) b) = ch_blob (chan_at s b)"
  by (simp add: drop_waiter_def)

lemma stored_drop [simp]: "stored (drop_waiter a w s) k = stored s k"
  by (simp add: stored_def split: option.split)

lemma stored_sweep:
  assumes "map_ok (s_channels s)"
  shows "stored (sweepLocked now s) k = stored s k \<or> stored (sweepLocked now s) k = None"
  using map_of_map_retain [OF assms]
  by (auto simp: stored_def sweepLocked_def Let_def split: option.splits if_splits)

lemma stored_new:
  assumes "map_of (s_channels s) key = None" "signal_inv {} s"
  shows "stored (snd (new_chan key s)) k = stored s k"
proof (cases "k = key")
  case True
  with assms show ?thesis by (simp add: stored_def new_chan_def chan_at_def)
next
  case False
  with chan_ok_mapped [OF assms(2), of k] show ?thesis
    by (auto simp: stored_def new_chan_def chan_at_def nth_append split: option.splits)
qed

text \<open>What each method does to the places of a blob.\<close>

definition accepted_count :: "signal_outcome list \<Rightarrow> bytes \<Rightarrow> bytes \<Rightarrow> nat" where
  "accepted_count out k b = count_list out (Accepted k b)"

definition handed_count :: "signal_outcome list \<Rightarrow> bytes \<Rightarrow> bytes \<Rightarrow> nat" where
  "handed_count out k b = count_list out (Handed k b)"

definition accounts :: "signal_outcome list \<Rightarrow> sstore \<Rightarrow> sstore \<Rightarrow> bool" where
  "accounts out s s' \<longleftrightarrow> (\<forall>k b. handed_count out k b + in_flight s' k b \<le>
    in_flight s k b + accepted_count out k b)"

lemma accounts_same:
  assumes "\<And>k. stored s' k = stored s k \<or> stored s' k = None"
    and "\<And>k b. handing s' k b = handing s k b"
  shows "accounts [] s s'"
proof -
  have "(if stored s' k = Some b then 1 else 0) \<le> (if stored s k = Some b then 1 else (0 :: nat))" for k b
    using assms(1) [of k] by auto
  with assms(2) show ?thesis
    by (simp add: accounts_def handed_count_def accepted_count_def in_flight_def)
qed

lemma accounts_refl: "accounts [] s s"
  by (rule accounts_same) simp_all

lemma accounts_post_into:
  assumes inv: "signal_inv {} s" and mapped: "map_of (s_channels s) key = Some a"
    and empty: "ch_blob (chan_at s a) = None" and post: "post_into pick key a b now s = (r, s')"
  shows "accounts [Accepted key b] s s' \<and> r = SignalStored"
  using post
proof (cases rule: post_into_cases)
  case stored
  have "stored s key = None" using empty mapped by (simp add: stored_mapped)
  then have "accounts [Accepted key b] s s'"
    by (auto simp: accounts_def stored(3) in_flight_def stored_set_chan [OF inv mapped]
      handed_count_def accepted_count_def)
  with stored(2) show ?thesis by simp
next
  case (handed w)
  note act = chan_waiter_active [OF inv mapped handed(1)]
  let ?f = "(wait_at (drop_waiter a w s) w)\<lparr>w_delivered := True, w_c := Some b\<rparr>"
  let ?s = "set_wait w ?f (drop_waiter a w s)"
  have none: "w_c (wait_at s w) = None"
    using signal_invD(4) [OF inv, of w] act by (auto simp: wait_ok_def active_def)
  have "stored s' k = stored s k" for k
    using mapped stored_gc [of ?s key a k] by (simp add: handed(3))
  moreover have "handing s' k b' = (if k = key \<and> b' = b then insert w (handing s k b') else handing s k b')" for k b'
    using act none by (auto simp: handed(3) handing_set_wait) (auto simp: handing_def)
  moreover have "w \<notin> handing s key b" using none by (simp add: handing_def)
  ultimately have "accounts [Accepted key b] s s'"
    by (auto simp: accounts_def in_flight_def handed_count_def accepted_count_def)
  with handed(2) show ?thesis by simp
qed

lemma accounts_trans:
  "accounts out s s' \<Longrightarrow> accounts out' s' s'' \<Longrightarrow> accounts (out @ out') s s''"
proof -
  assume one: "accounts out s s'" and two: "accounts out' s' s''"
  have "handed_count (out @ out') k b + in_flight s'' k b \<le>
      in_flight s k b + accepted_count (out @ out') k b" for k b
  proof -
    have "handed_count out k b + in_flight s' k b \<le> in_flight s k b + accepted_count out k b"
      using one by (simp add: accounts_def)
    moreover have "handed_count out' k b + in_flight s'' k b \<le> in_flight s' k b + accepted_count out' k b"
      using two by (simp add: accounts_def)
    ultimately show ?thesis by (simp add: handed_count_def accepted_count_def)
  qed
  then show "accounts (out @ out') s s''" by (simp add: accounts_def)
qed

lemma accounts_before:
  assumes "\<And>k. stored s1 k = stored s k \<or> stored s1 k = None" and "\<And>k b. handing s1 k b = handing s k b"
    and "accounts out s1 s'"
  shows "accounts out s s'"
  using accounts_trans [OF accounts_same [OF assms(1,2)] assms(3)] by simp

text \<open>\<open>Post\<close> up to the choice between storing and handing over.\<close>

lemma Post_cases:
  assumes ok: "signal_ok s" and post: "signal_Post pick i b now s = (r, s')"
  obtains (refused) "s' = s" "r \<noteq> SignalStored" "r = SignalBadChannel \<and> decodeChannelID i = None \<or>
      r = SignalTooLarge \<and> int (length b) > s_maxBlob s \<or> r = SignalRateLimited \<and> s_closed s"
  | (conflict) key s1 a where "decodeChannelID i = Some key" "s1 = s \<or> s1 = sweepLocked now s"
      "map_of (s_channels s1) key = Some a" "held (chan_at s1 a) now" "r = SignalConflict" "s' = s1"
  | (proceeds) key s1 a s2 where "decodeChannelID i = Some key" "s1 = s \<or> s1 = sweepLocked now s"
      "map_of (s_channels s1) key = None \<and> (a, s2) = new_chan key s1 \<or>
        map_of (s_channels s1) key = Some a \<and> \<not> held (chan_at s1 a) now \<and>
        s2 = set_chan a ((chan_at s1 a)\<lparr>ch_blob := None\<rparr>) s1"
      "signal_inv {} s1" "signal_inv {} s2" "map_of (s_channels s2) key = Some a" "ch_blob (chan_at s2 a) = None"
      "post_into pick key a b now s2 = (r, s')" "\<not> s_closed s" "int (length b) \<le> s_maxBlob s"
proof (cases "decodeChannelID i = None \<or> int (length b) > s_maxBlob s \<or> s_closed s")
  case True
  with post show thesis
    by (intro refused) (auto simp: signal_Post_def split: option.splits if_splits)
next
  case False
  then obtain key where key: "decodeChannelID i = Some key" by auto
  from ok have inv: "signal_inv {} s" by (simp add: signal_ok_def)
  define s1 where "s1 = (if int (length (s_channels s)) \<ge> s_sweepAt s then sweepLocked now s else s)"
  have s1: "s1 = s \<or> s1 = sweepLocked now s" by (simp add: s1_def)
  have inv1: "signal_inv {} s1" and open1: "\<not> s_closed s1"
    using inv inv_sweep [OF inv] False by (auto simp: s1_def sweepLocked_def Let_def)
  show thesis
  proof (cases "map_of (s_channels s1) key")
    case None
    obtain a s2 where new: "(a, s2) = new_chan key s1" by (metis surj_pair)
    note props = inv_new_chan [OF inv1 None open1, folded new, simplified]
    have "post_into pick key a b now s2 = (r, s')"
      using post key False None by (simp add: signal_Post_def Let_def flip: s1_def new)
    with key s1 None new inv1 props False show thesis by (intro proceeds) auto
  next
    case (Some a)
    show thesis
    proof (cases "held (chan_at s1 a) now")
      case True
      with post key False Some have "r = SignalConflict" "s' = s1"
        by (simp_all add: signal_Post_def Let_def flip: s1_def)
      with key s1 Some True show thesis by (intro conflict)
    next
      case not_held: False
      let ?s2 = "set_chan a ((chan_at s1 a)\<lparr>ch_blob := None\<rparr>) s1"
      have "post_into pick key a b now ?s2 = (r, s')"
        using post key False Some not_held by (simp add: signal_Post_def Let_def flip: s1_def)
      with key s1 Some not_held inv1 inv_set_blob(2) [OF inv1] chan_ok_mapped [OF inv1 Some] False
      show thesis by (intro proceeds) auto
    qed
  qed
qed

lemma stored_blob_none:
  assumes "signal_inv {} s" and "map_of (s_channels s) key = Some a"
  shows "stored (set_chan a ((chan_at s a)\<lparr>ch_blob := None\<rparr>) s) k = (if k = key then None else stored s k)"
  by (simp add: stored_set_chan [OF assms])

lemma sweep_or_same:
  assumes "signal_inv {} s" and "s1 = s \<or> s1 = sweepLocked now s"
  shows "stored s1 k = stored s k \<or> stored s1 k = None" and "handing s1 k b = handing s k b"
  using assms(2) stored_sweep [OF signal_invD(1) [OF assms(1)], of now k] by (elim disjE, simp_all)+

lemma Post_accounts:
  assumes ok: "signal_ok s" and post: "signal_Post pick i b now s = (r, s')"
  shows "accounts (if r = SignalStored then [Accepted (the (decodeChannelID i)) b] else []) s s'"
  using ok post
proof (cases rule: Post_cases)
  case refused
  then show ?thesis by (auto simp: accounts_refl)
next
  case (conflict key s1 a)
  from ok have inv: "signal_inv {} s" by (simp add: signal_ok_def)
  have "accounts [] s s1" by (rule accounts_same) (rule sweep_or_same [OF inv conflict(2)])+
  with conflict show ?thesis by simp
next
  case (proceeds key s1 a s2)
  from ok have inv: "signal_inv {} s" by (simp add: signal_ok_def)
  note acc = accounts_post_into [OF proceeds(5-8)]
  have st: "stored s2 k = stored s1 k \<or> stored s2 k = None" for k
    using proceeds(3) stored_new [of s1 key k] stored_blob_none [of s1 key a k] proceeds(4)
    by (metis snd_conv)
  have hd: "handing s2 k b' = handing s1 k b'" for k b'
    using proceeds(3) handing_simps(4) [of key s1 k b'] by (metis handing_simps(1) snd_conv)
  have "accounts [Accepted key b] s1 s'" by (rule accounts_before [OF st hd]) (use acc in simp)
  then have "accounts [Accepted key b] s s'"
    by (rule accounts_before [OF sweep_or_same [OF inv proceeds(2)], rotated -1])
  with acc proceeds(1) show ?thesis by simp
qed

text \<open>\<open>Get\<close> up to the wait.\<close>

lemma Get_start_cases:
  assumes ok: "signal_ok s" and get: "Get_start i now s = (r, s')"
  obtains (refused) "s' = s" "r = Returned None SignalBadChannel \<and> decodeChannelID i = None \<or>
      r = Returned None SignalRateLimited \<and> s_closed s"
  | (delivers) key a where "decodeChannelID i = Some key" "map_of (s_channels s) key = Some a"
      "held (chan_at s a) now" "r = Returned (ch_blob (chan_at s a)) SignalDelivered" "\<not> s_closed s"
      "s' = gcLocked key a (set_chan a ((chan_at s a)\<lparr>ch_blob := None\<rparr>) s)"
  | (waits) key ch s1 res where "decodeChannelID i = Some key" "\<not> s_closed s"
      "ch = None \<and> map_of (s_channels s) key = None \<and> s1 = s \<or>
        (\<exists>a. ch = Some a \<and> map_of (s_channels s) key = Some a \<and> \<not> held (chan_at s a) now \<and>
          s1 = set_chan a ((chan_at s a)\<lparr>ch_blob := None\<rparr>) s \<and> ch_blob (chan_at s1 a) = None)"
      "signal_inv {} s1" "registerLocked key ch s1 = (res, s')"
      "r = (case res of Inl reason \<Rightarrow> Returned None reason | Inr w \<Rightarrow> Waits w)"
proof (cases "decodeChannelID i = None \<or> s_closed s")
  case True
  with get show thesis by (intro refused) (auto simp: Get_start_def split: option.splits)
next
  case False
  then obtain key where key: "decodeChannelID i = Some key" by auto
  from ok have inv: "signal_inv {} s" by (simp add: signal_ok_def)
  show thesis
  proof (cases "map_of (s_channels s) key")
    case None
    obtain res where reg: "registerLocked key None s = (res, s')"
      "r = (case res of Inl reason \<Rightarrow> Returned None reason | Inr w \<Rightarrow> Waits w)"
      using get key None False
      by (auto simp: Get_start_def register_result_def split: prod.splits sum.splits)
    with key False None inv show thesis by (intro waits) auto
  next
    case (Some a)
    let ?s1 = "set_chan a ((chan_at s a)\<lparr>ch_blob := None\<rparr>) s"
    have inv1: "signal_inv {} ?s1" by (rule inv_set_blob(2) [OF inv]) simp_all
    show thesis
    proof (cases "held (chan_at s a) now")
      case True
      with get key Some False show thesis by (intro delivers) (auto simp: Get_start_def Let_def)
    next
      case not_held: False
      obtain res where "registerLocked key (Some a) ?s1 = (res, s')"
        "r = (case res of Inl reason \<Rightarrow> Returned None reason | Inr w \<Rightarrow> Waits w)"
        using get key Some False not_held
        by (auto simp: Get_start_def Let_def register_result_def split: prod.splits sum.splits)
      with key False Some not_held inv1 chan_ok_mapped [OF inv Some] show thesis
        by (intro waits [of key "Some a" ?s1 res]) auto
    qed
  qed
qed

lemma stored_add [simp]:
  assumes "map_of (s_channels s) key = Some a" and "a < length (s_chans s)"
  shows "stored (add_waiter key a s) k = stored s k"
proof -
  have "ch_blob (chan_at (add_waiter key a s) c) = ch_blob (chan_at s c)" for c
    using assms(2) by (simp add: add_waiter_def Let_def) (simp add: chan_at_def)
  moreover have "s_channels (add_waiter key a s) = s_channels s" by (simp add: add_waiter_def Let_def)
  ultimately show ?thesis by (simp add: stored_def split: option.split)
qed

lemma register_places:
  assumes inv: "signal_inv {} s" and reg: "registerLocked key ch s = (res, s')" and open_: "\<not> s_closed s"
    and ch: "case ch of None \<Rightarrow> map_of (s_channels s) key = None | Some a \<Rightarrow> map_of (s_channels s) key = Some a"
  shows "stored s' k = stored s k \<and> handing s' k b = handing s k b"
  using reg
proof (cases rule: registerLocked_cases)
  case refused
  then show ?thesis by simp
next
  case added
  show ?thesis
  proof (cases ch)
    case None
    note new = inv_new_chan [OF inv _ open_, of key]
    have un: "map_of (s_channels s) key = None" using ch None by simp
    with new chan_ok_mapped [of "{}" "snd (new_chan key s)" key] stored_new [OF un inv] None added
    show ?thesis by simp
  next
    case (Some a)
    with ch chan_ok_mapped [OF inv, of key a] added show ?thesis by simp
  qed
qed

lemma Get_start_accounts:
  assumes ok: "signal_ok s" and get: "Get_start i now s = (r, s')"
  shows "accounts (handed_by (the (decodeChannelID i)) r) s s'"
proof -
  from ok have inv: "signal_inv {} s" by (simp add: signal_ok_def)
  from ok get show ?thesis
  proof (cases rule: Get_start_cases)
    case refused
    then show ?thesis by (auto simp: accounts_refl)
  next
    case (delivers key a)
    from delivers(3) obtain b where b: "ch_blob (chan_at s a) = Some b" by (auto simp: held_def)
    let ?s1 = "set_chan a ((chan_at s a)\<lparr>ch_blob := None\<rparr>) s"
    have "stored s' k = (if k = key then None else stored s k)" for k
      using delivers stored_gc [of ?s1 key a k] stored_blob_none [OF inv delivers(2)] by simp
    moreover have "handing s' k c = handing s k c" for k c using delivers by simp
    moreover have "stored s key = Some b" using b delivers(2) by (simp add: stored_mapped)
    ultimately show ?thesis
      using delivers b by (auto simp: accounts_def in_flight_def handed_count_def accepted_count_def)
  next
    case (waits key ch s1 res)
    have open1: "\<not> s_closed s1" using waits(2,3) by auto
    have ch: "case ch of None \<Rightarrow> map_of (s_channels s1) key = None | Some a \<Rightarrow> map_of (s_channels s1) key = Some a"
      using waits(3) by auto
    have "stored s1 k = stored s k \<or> stored s1 k = None" "handing s1 k c = handing s k c" for k c
      using waits(3) stored_blob_none [OF inv, of key _ k] by (auto split: if_splits)
    then have "accounts [] s s'"
      using register_places [OF waits(4,5) open1 ch] by (intro accounts_same) simp_all
    with waits(6) show ?thesis by (cases res) simp_all
  qed
qed

lemma Get_finish_accounts:
  assumes ok: "signal_ok s" and get: "Get_finish w woken s = (r, s')" and wake: "can_wake s w woken"
  shows "accounts (handed_by (f_key (wait_at s w)) r) s s'"
proof -
  from ok have inv: "signal_inv {} s" by (simp add: signal_ok_def)
  from wake have len: "w < length (s_waits s)" by (simp add: can_wake_def)
  from get wake ok show ?thesis
  proof (cases rule: Get_finish_cases)
    case (delivered b)
    let ?k = "f_key (wait_at s w)"
    have "handing s' k c = handing s k c - (if k = ?k \<and> c = b then {w} else {})" for k c
      using len delivered by (auto simp: handing_set_wait) (auto simp: handing_def)
    moreover have "w \<in> handing s ?k b" using len delivered by (simp add: handing_def)
    then have "Suc (card (handing s ?k b - {w})) = card (handing s ?k b)"
      by (intro card.remove [symmetric]) simp_all
    moreover have "stored s' k = stored s k" for k using delivered by simp
    ultimately show ?thesis
      using delivered by (auto simp: accounts_def in_flight_def handed_count_def accepted_count_def)
  next
    case released
    have none: "w_c (wait_at s w) = None"
      using signal_invD(4) [OF inv len] released(1) by (auto simp: wait_ok_def active_def)
    have "stored s' k = stored s k" for k
      using stored_gc [of "drop_waiter (f_ch (wait_at s w)) w s"] active_mapped [OF inv released(1)]
      by (simp add: released(4))
    moreover have "handing s' k c = handing s k c" for k c
      using len none by (simp add: released(4) handing_set_wait) (auto simp: handing_def)
    ultimately have "accounts [] s s'" by (intro accounts_same) simp_all
    with released(2) show ?thesis by simp
  next
    case drained
    have none: "w_c (wait_at s w) = None"
      using signal_invD(4) [OF inv len] drained by (auto simp: wait_ok_def)
    have "handing s' k c = handing s k c" for k c
      using len none by (simp add: drained(5) handing_set_wait) (auto simp: handing_def)
    then have "accounts [] s s'" by (intro accounts_same) (simp_all add: drained(5))
    with drained(4) show ?thesis by simp
  qed
qed

lemma Shutdown_accounts: "accounts [] s (signal_Shutdown s)"
proof (cases "s_closed s")
  case True
  then show ?thesis by (simp add: signal_Shutdown_def accounts_refl)
next
  case False
  let ?s = "signal_Shutdown s"
  have "stored ?s k = None" for k using False by (simp add: stored_def signal_Shutdown_def Let_def)
  moreover have "length (s_waits ?s) = length (s_waits s)"
    using False by (simp add: signal_Shutdown_def Let_def)
  moreover have "wait_at ?s w = (if w \<in> set (open_waiters s) then (wait_at s w)\<lparr>w_active := False\<rparr>
      else wait_at s w)" if "w < length (s_waits s)" for w
    using that False by (simp add: signal_Shutdown_def Let_def wait_at_def)
  ultimately show ?thesis by (intro accounts_same) (auto simp: handing_def split: if_splits)
qed

lemma signal_step_accounts: "signal_ok s \<Longrightarrow> accounts (fst (signal_step e s)) s (snd (signal_step e s))"
  by (cases e) (auto simp: accounts_refl Shutdown_accounts split: prod.splits
    dest: Post_accounts Get_start_accounts Get_finish_accounts)

lemma signal_run_accounts: "signal_ok s \<Longrightarrow> accounts (fst (signal_run es s)) s (snd (signal_run es s))"
proof (induction es arbitrary: s)
  case Nil
  then show ?case by (simp add: accounts_refl)
next
  case (Cons e es)
  have "accounts (fst (signal_step e s) @ fst (signal_run es (snd (signal_step e s)))) s
      (snd (signal_run es (snd (signal_step e s))))"
    by (rule accounts_trans [OF signal_step_accounts [OF Cons.prems]
      Cons.IH [OF signal_step_ok [OF Cons.prems]]])
  then show ?case by (simp add: split_beta)
qed

section \<open>Properties\<close>

text \<open>
  C1. Exactly one reader. In any sequence of posts, polls, wake-ups and shutdowns, in any order
  the mutex allows, a blob is handed over on a channel at most as often as a post of it was
  accepted on that channel, whatever the number of concurrent readers; the difference bounds
  the copies still held.
\<close>

theorem signal_at_most_once:
  "handed_count (fst (signal_run es (signal_New opts))) k b +
     in_flight (snd (signal_run es (signal_New opts))) k b
   \<le> accepted_count (fst (signal_run es (signal_New opts))) k b"
proof -
  have "in_flight (signal_New opts) k b = 0"
    by (simp add: in_flight_def stored_def handing_def signal_New_def)
  with signal_run_accounts [OF New_ok, of es opts] show ?thesis
    unfolding accounts_def by (metis add_0)
qed

text \<open>A run keeps the configuration it was made with.\<close>

definition same_caps :: "sstore \<Rightarrow> sstore \<Rightarrow> bool" where
  "same_caps s s' \<longleftrightarrow> s_maxWaiters s' = s_maxWaiters s \<and> s_maxPerChan s' = s_maxPerChan s \<and>
    s_maxBlob s' = s_maxBlob s \<and> s_ttl s' = s_ttl s \<and> s_poll s' = s_poll s"

lemma caps_primitives [simp]:
  "same_caps s (set_chan a c s') = same_caps s s'" "same_caps s (set_wait w f s') = same_caps s s'"
  "same_caps s (gcLocked k a s') = same_caps s s'" "same_caps s (sweepLocked now s') = same_caps s s'"
  "same_caps s (snd (new_chan k s')) = same_caps s s'" "same_caps s (drop_waiter a w s') = same_caps s s'"
  "same_caps s (s'\<lparr>s_waits := ws, s_waiting := n\<rparr>) = same_caps s s'"
  "same_caps s (signal_Shutdown s') = same_caps s s'" "same_caps s s"
  by (simp_all add: same_caps_def set_chan_def set_wait_def gcLocked_def sweepLocked_def new_chan_def
    drop_waiter_def signal_Shutdown_def Let_def)

lemma caps_step: "same_caps s (snd (signal_step e s))"
proof (cases e)
  case (EPost pick i b now)
  then show ?thesis
    by (auto simp: signal_Post_def post_into_def takeWaiterLocked_def Let_def new_chan_def
      simp del: caps_primitives(5) split: option.splits prod.splits if_splits)
      (simp_all add: same_caps_def sweepLocked_def Let_def)
next
  case (EGet i now)
  then show ?thesis
    by (auto simp: Get_start_def register_result_def registerLocked_def Let_def new_chan_def
      simp del: caps_primitives(5) split: option.splits prod.splits if_splits sum.splits)
      (simp_all add: same_caps_def sweepLocked_def Let_def)
next
  case (EWake w woken)
  then show ?thesis
    by (auto simp: Get_finish_def take_blob_def releaseLocked_def Let_def)
qed simp

lemma caps_run: "same_caps s (snd (signal_run es s))"
proof (induction es arbitrary: s)
  case (Cons e es)
  from caps_step [of s e] Cons [of "snd (signal_step e s)"] show ?case
    by (simp add: split_beta same_caps_def)
qed simp

text \<open>The polls that are open on a channel.\<close>

definition waiting_on :: "sstore \<Rightarrow> bytes \<Rightarrow> nat set" where
  "waiting_on s k = {w \<in> active s. f_key (wait_at s w) = k}"

lemma waiting_on_mapped:
  assumes "signal_inv {} s"
  shows "waiting_on s k = (case map_of (s_channels s) k of None \<Rightarrow> {} | Some a \<Rightarrow> set (ch_waiters (chan_at s a)))"
proof (cases "map_of (s_channels s) k")
  case None
  with active_mapped [OF assms] show ?thesis by (auto simp: waiting_on_def)
next
  case (Some a)
  have "w \<in> set (ch_waiters (chan_at s a))" if "w \<in> active s" "f_key (wait_at s w) = k" for w
    using active_mapped [OF assms that(1)] that Some signal_invD(2) [OF assms Some]
    by (simp add: chan_ok_def)
  with Some chan_waiter_active [OF assms Some] show ?thesis by (auto simp: waiting_on_def)
qed

text \<open>
  C8. The caps hold at every moment: after any sequence of operations the counter is the number
  of open polls and is within \<open>MaxWaiters\<close>, and no channel has more open polls than
  \<open>MaxWaitersPerChannel\<close>; a channel on which somebody waits holds no blob.
\<close>

theorem signal_caps:
  fixes es opts
  defines "s \<equiv> snd (signal_run es (signal_New opts))"
  shows "Waiting s = int (card (active s)) \<and> Waiting s \<le> s_maxWaiters (signal_New opts) \<and>
    int (card (waiting_on s k)) \<le> s_maxPerChan (signal_New opts) \<and>
    (waiting_on s k = {} \<or> stored s k = None)"
proof -
  have inv: "signal_inv {} s"
    using signal_run_ok [OF New_ok, of es opts] by (simp add: s_def signal_ok_def)
  have caps: "s_maxWaiters s = s_maxWaiters (signal_New opts)" "s_maxPerChan s = s_maxPerChan (signal_New opts)"
    using caps_run [of "signal_New opts" es] by (simp_all add: s_def same_caps_def)
  note w = waiting_on_mapped [OF inv, of k]
  have "int (card (waiting_on s k)) \<le> s_maxPerChan s \<and> (waiting_on s k = {} \<or> stored s k = None)"
  proof (cases "map_of (s_channels s) k")
    case None
    with w signal_invD(8) [OF inv] show ?thesis by simp
  next
    case (Some a)
    define ws where "ws = ch_waiters (chan_at s a)"
    have c: "waiting_on s k = set ws" using w Some by (simp add: ws_def)
    from signal_invD(2) [OF inv Some] have "distinct ws" "int (length ws) \<le> s_maxPerChan s"
      "ws \<noteq> [] \<longrightarrow> ch_blob (chan_at s a) = None"
      by (auto simp: chan_ok_def ws_def)
    with Some show ?thesis by (auto simp: c stored_def distinct_card)
  qed
  with signal_invD(5,6) [OF inv] caps show ?thesis by (simp add: Waiting_def)
qed

lemma decodeChannelID_Encode: "length key = 32 \<Longrightarrow> decodeChannelID (b64_Encode key) = Some key"
proof -
  assume key: "length key = 32"
  have "CHR ''='' \<notin> set (b64_Encode key)"
    using b64_Decode_padding [of "b64_Encode key"] by auto
  with key show ?thesis by (simp add: decodeChannelID_def ChannelIDChars_def ChannelIDBytes_def)
qed

text \<open>
  A channel identifier has one spelling: an identifier is accepted exactly when it is the
  canonical encoding of the 32 bytes that are its key, so no two identifiers name one channel.
\<close>

theorem decodeChannelID_unique:
  "decodeChannelID i = Some key \<longleftrightarrow> length key = 32 \<and> i = b64_Encode key"
proof
  assume "decodeChannelID i = Some key"
  then have len: "length i = 43" and key: "b64_Decode i = Some key" "length key = 32"
    by (auto simp: decodeChannelID_def ChannelIDChars_def ChannelIDBytes_def b64_DecodeFixed_Inr
      split: sum.splits if_splits)
  with b64_Decode_unique_length [OF key(1)] show "length key = 32 \<and> i = b64_Encode key" by simp
qed (simp add: decodeChannelID_Encode)

text \<open>What a reader would find on a channel at a given time.\<close>

definition available :: "sstore \<Rightarrow> instant \<Rightarrow> bytes \<Rightarrow> bytes option" where
  "available s t k = (case map_of (s_channels s) k of None \<Rightarrow> None
    | Some a \<Rightarrow> if held (chan_at s a) t then ch_blob (chan_at s a) else None)"

lemma available_sweep:
  assumes "map_ok (s_channels s)" and "now \<le> t"
  shows "available (sweepLocked now s) t k = available s t k"
  using map_of_map_retain [OF assms(1), of "\<lambda>key a. \<not> (ch_waiters (chan_at s a) = [] \<and>
      \<not> held (chan_at s a) now)" k] assms(2)
  by (auto simp: available_def sweepLocked_def Let_def held_def split: option.splits if_splits)

text \<open>
  First write wins. Posting to a channel on which a blob is available is refused, with the
  conflict unless the request is malformed, too large or the instance is shutting down, and
  from then on every channel offers exactly the blobs it offered before.
\<close>

theorem signal_first_write_wins:
  assumes "signal_ok s" and "decodeChannelID i = Some key" and "available s now key \<noteq> None"
    and "signal_Post pick i b now s = (r, s')"
  shows "(r = SignalConflict \<or> r = SignalTooLarge \<and> int (length b) > s_maxBlob s \<or>
      r = SignalRateLimited \<and> s_closed s) \<and> (\<forall>t k. now \<le> t \<longrightarrow> available s' t k = available s t k)"
  using assms(1,4)
proof (cases rule: Post_cases)
  case refused
  with assms(2) show ?thesis by auto
next
  case (conflict key' s1 a)
  have "map_ok (s_channels s)" using assms(1) by (simp add: signal_ok_def signal_inv_def)
  with conflict available_sweep [of s now] show ?thesis by auto
next
  case (proceeds key' s1 a s2)
  have "map_ok (s_channels s)" using assms(1) by (simp add: signal_ok_def signal_inv_def)
  with proceeds(2) available_sweep [of s now now key] assms(3) have "available s1 now key \<noteq> None" by auto
  with proceeds(1,3) assms(2) show ?thesis by (auto simp: available_def split: if_splits)
qed

text \<open>What a poll already has in hand, and the poll that is let go empty-handed.\<close>

lemma waiting_on_simps [simp]:
  "waiting_on (set_chan a c s) k = waiting_on s k" "waiting_on (sweepLocked now s) k = waiting_on s k"
  "waiting_on (snd (new_chan key s)) k = waiting_on s k"
  by (simp_all add: waiting_on_def sweepLocked_def Let_def new_chan_def) (simp_all add: wait_at_def active_def)

lemma available_stored: "stored s k = None \<Longrightarrow> available s t k = None"
  by (auto simp: available_def stored_def held_def split: option.splits)

lemma Get_finish_delivered:
  assumes "w_delivered (wait_at s w)"
  shows "fst (Get_finish w woken s) = Returned (w_c (wait_at s w)) SignalDelivered"
  using assms by (simp add: Get_finish_def take_blob_def Let_def)

lemma new_chan_map [simp]: "map_of (s_channels (snd (new_chan key s))) key = Some (length (s_chans s))"
  by (simp add: new_chan_def)

lemma not_waiting_proceeds:
  assumes "signal_inv {} s1" and "s1 = s \<or> s1 = sweepLocked now s"
    and "map_of (s_channels s1) key = None \<and> (a, s2) = new_chan key s1 \<or>
        map_of (s_channels s1) key = Some a \<and> \<not> held (chan_at s1 a) now \<and>
        s2 = set_chan a ((chan_at s1 a)\<lparr>ch_blob := None\<rparr>) s1"
    and "signal_inv {} s2" and "map_of (s_channels s2) key = Some a"
  shows "set (ch_waiters (chan_at s2 a)) = waiting_on s key"
proof -
  have "waiting_on s2 key = waiting_on s key"
    using assms(2,3) by (metis snd_conv waiting_on_simps)
  with waiting_on_mapped [OF assms(4)] assms(5) show ?thesis by simp
qed

text \<open>
  C11. A post wakes a poll. When somebody is waiting on the channel, a post that is well formed,
  within the size limit and before shutdown is accepted and one of the waiting polls, whatever
  ends its wait, even its deadline or its client leaving, returns exactly the posted bytes; the
  blob is never stored, so no later request finds it.
\<close>

theorem signal_Post_wakes:
  assumes "signal_ok s" and "decodeChannelID i = Some key" and "waiting_on s key \<noteq> {}"
    and "int (length b) \<le> s_maxBlob s" and "\<not> s_closed s" and "signal_Post pick i b now s = (r, s')"
  shows "r = SignalStored \<and> available s' t key = None \<and>
    (\<exists>w \<in> waiting_on s key. can_wake s' w WokenByBlob \<and>
      (\<forall>woken. fst (Get_finish w woken s') = Returned (Some b) SignalDelivered))"
  using assms(1,6)
proof (cases rule: Post_cases)
  case refused
  with assms show ?thesis by auto
next
  case (conflict key' s1 a)
  from assms(1) have inv: "signal_inv {} s" by (simp add: signal_ok_def)
  with conflict(2) inv_sweep have inv1: "signal_inv {} s1" by auto
  have "waiting_on s1 key = waiting_on s key" using conflict(2) by (elim disjE) simp_all
  with waiting_on_mapped [OF inv1] conflict assms(2,3) have "ch_waiters (chan_at s1 a) \<noteq> []" by auto
  with signal_invD(2) [OF inv1 conflict(3)] conflict(4) show ?thesis
    by (simp add: chan_ok_def held_def)
next
  case (proceeds key' s1 a s2)
  then have key: "key' = key" using assms(2) by simp
  note ws = not_waiting_proceeds [OF proceeds(4,2,3,5,6), unfolded key]
  from proceeds(8) show ?thesis
  proof (cases rule: post_into_cases)
    case stored
    with ws assms(3) show ?thesis by simp
  next
    case (handed w)
    note w = chan_waiter_active [OF proceeds(5) proceeds(6) handed(1)]
    have idle: "\<not> f_returned (wait_at s2 w)"
      using signal_invD(4) [OF proceeds(5), of w] w by (simp add: wait_ok_def active_def)
    have "map_of (s_channels (set_wait w f (drop_waiter a w s2))) key = Some a" for f
      using proceeds(6) key by simp
    note gc = stored_gc [OF this]
    have "stored s2 key = None" using proceeds(6,7) key by (simp add: stored_def)
    then have "stored s' key = None" unfolding handed(3) key gc by simp
    moreover have "w_delivered (wait_at s' w)" "w_c (wait_at s' w) = Some b"
        "\<not> f_returned (wait_at s' w)" "w < length (s_waits s')"
      using w idle by (simp_all add: handed(3))
    ultimately show ?thesis
      using handed(1,2) ws Get_finish_delivered [of s' w] available_stored [of s' key t]
      by (auto simp: can_wake_def)
  qed
qed

text \<open>
  C12. Post, then poll. With nobody waiting and nothing available on the channel, a well-formed
  post is accepted; a poll of the same identifier before the blob's expiry gets exactly the posted
  bytes at once and leaves the channel empty for everybody after it, and from the expiry on
  the blob is gone.
\<close>

theorem signal_roundtrip:
  assumes "signal_ok s" and "decodeChannelID i = Some key" and "waiting_on s key = {}"
    and "available s now key = None" and "int (length b) \<le> s_maxBlob s" and "\<not> s_closed s"
    and "signal_Post pick i b now s = (r, s')"
  shows "r = SignalStored \<and>
    available s' t key = (if t < now + s_ttl s' then Some b else None) \<and>
    (t < now + s_ttl s' \<longrightarrow> fst (Get_start i t s') = Returned (Some b) SignalDelivered \<and>
      available (snd (Get_start i t s')) u key = None)"
  using assms(1,7)
proof (cases rule: Post_cases)
  case refused
  with assms show ?thesis by auto
next
  case (conflict key' s1 a)
  have "map_ok (s_channels s)" using assms(1) by (simp add: signal_ok_def signal_inv_def)
  with conflict(2) available_sweep [of s now now key] have "available s1 now key = None"
    using assms(4) by auto
  with conflict assms(2) show ?thesis by (simp add: available_def held_def)
next
  case (proceeds key' s1 a s2)
  then have key: "key' = key" using assms(2) by simp
  note ws = not_waiting_proceeds [OF proceeds(4,2,3,5,6), unfolded key]
  from proceeds(8) show ?thesis
  proof (cases rule: post_into_cases)
    case stored
    have closed: "\<not> s_closed s'"
      using proceeds(3,2,9) by (auto simp: stored new_chan_def sweepLocked_def Let_def)
    have chan: "map_of (s_channels s') key = Some a" "chan_at s' a = (chan_at s2 a)\<lparr>ch_blob := Some b, ch_expiresAt := now + s_ttl s2\<rparr>"
      "s_ttl s' = s_ttl s2" "ch_waiters (chan_at s' a) = []" "a < length (s_chans s')"
      using proceeds(6) chan_ok_mapped [OF proceeds(5,6)] stored(1) by (simp_all add: stored(3) key)
    have "available s' t key = (if t < now + s_ttl s' then Some b else None)" for t
      using chan by (simp add: available_def held_def)
    moreover have "fst (Get_start i t s') = Returned (Some b) SignalDelivered"
        "available (snd (Get_start i t s')) u key = None" if "t < now + s_ttl s'"
      using that chan closed assms(2) by (simp_all add: Get_start_def held_def Let_def gcLocked_def available_def)
    ultimately show ?thesis using stored(2) by simp
  next
    case (handed w)
    with ws assms(3) show ?thesis by simp
  qed
qed

text \<open>
  C22. Shutdown drains. After \<open>Shutdown\<close> no poll is open and nothing is available on any channel;
  every poll that was waiting returns at once with the rate-limit answer, except the ones a blob
  was already handed to, which return it; later posts and polls are refused.
\<close>

theorem signal_Shutdown_drains:
  fixes s
  defines "s' \<equiv> signal_Shutdown s"
  assumes "signal_ok s"
  shows "signal_ok s' \<and> Waiting s' = 0 \<and> available s' t key = None \<and>
    (\<forall>w < length (s_waits s). \<not> f_returned (wait_at s w) \<longrightarrow> can_wake s' w WokenByDone \<and>
      fst (Get_finish w WokenByDone s') = (case w_c (wait_at s w) of
        Some b \<Rightarrow> Returned (Some b) SignalDelivered | None \<Rightarrow> Returned None SignalRateLimited)) \<and>
    fst (signal_Post pick i b now s') \<in> {SignalBadChannel, SignalTooLarge, SignalRateLimited} \<and>
    Get_start i now s' =
      (Returned None (if decodeChannelID i = None then SignalBadChannel else SignalRateLimited), s')"
proof -
  note down = Shutdown_ok [OF assms(2), folded s'_def]
  then have inv: "signal_inv {} s'" by (simp add: signal_ok_def)
  have waits: "length (s_waits s') = length (s_waits s)"
      "w < length (s_waits s) \<Longrightarrow> w_c (wait_at s' w) = w_c (wait_at s w) \<and>
        f_returned (wait_at s' w) = f_returned (wait_at s w)" for w
    by (simp_all add: s'_def signal_Shutdown_def Let_def) (simp add: wait_at_def)
  have polls: "can_wake s' w WokenByDone \<and> fst (Get_finish w WokenByDone s') = (case w_c (wait_at s w) of
        Some b \<Rightarrow> Returned (Some b) SignalDelivered | None \<Rightarrow> Returned None SignalRateLimited)"
    if w: "w < length (s_waits s)" "\<not> f_returned (wait_at s w)" for w
  proof -
    have wake: "can_wake s' w WokenByDone" using w waits down by (simp add: can_wake_def)
    obtain r s'' where get: "Get_finish w WokenByDone s' = (r, s'')" by fastforce
    have "\<not> w_delivered (wait_at s' w) \<Longrightarrow> w_c (wait_at s' w) = None"
      using signal_invD(4) [OF inv, of w] waits w by (auto simp: wait_ok_def)
    with get wake down show ?thesis
      by (cases rule: Get_finish_cases [OF get wake]) (use waits w in auto)
  qed
  have "Waiting s' = 0" "s_channels s' = []"
    using signal_invD(5,9) [OF inv] down by (simp_all add: Waiting_def)
  with down polls show ?thesis
    by (auto simp: available_def signal_Post_def Get_start_def split: option.split)
qed

section \<open>Concrete runs\<close>

definition demo_key :: bytes where "demo_key = replicate 32 7"
definition demo_id :: string where "demo_id = b64_Encode demo_key"

definition demo_new :: sstore where
  "demo_new = signal_New \<lparr>so_TTL = 0, so_PollWindow = 0, so_MaxBlobBytes = 0, so_MaxWaiters = 0,
    so_MaxWaitersPerChannel = 0\<rparr>"

definition demo_posted :: sstore where
  "demo_posted = snd (signal_Post 0 demo_id [1, 2] 0 demo_new)"

definition demo_polled :: sstore where
  "demo_polled = snd (Get_start demo_id 0 demo_new)"

lemma demo_decode [simp]: "decodeChannelID demo_id = Some demo_key"
  by (simp add: demo_id_def decodeChannelID_Encode demo_key_def)

lemmas demo_run = demo_new_def signal_New_def clampDuration_def signal_MaxTTL_def MaxPollWindow_def
  MaxBlobBytes_def DefaultMaxWaiters_def DefaultMaxWaitersPerChannel_def minSweepChannels_def seconds_def

lemma demo_ok: "signal_ok demo_new" "signal_ok demo_posted" "signal_ok demo_polled"
proof -
  show new: "signal_ok demo_new" by (simp add: demo_new_def New_ok)
  show "signal_ok demo_posted"
    unfolding demo_posted_def using Post_ok [OF new] by (metis surj_pair snd_conv)
  show "signal_ok demo_polled"
    unfolding demo_polled_def using Get_start_ok [OF new] by (metis surj_pair snd_conv)
qed

lemma demo_posted_available: "available demo_posted 1 demo_key = Some [1, 2]"
  by (simp add: demo_posted_def signal_Post_def demo_run new_chan_def post_into_def takeWaiterLocked_def
    set_chan_def chan_at_def available_def held_def Let_def)

lemma demo_polled_waits: "waiting_on demo_polled demo_key = {0}" "s_closed demo_polled = False"
  "s_maxBlob demo_polled = 65536"
  by (auto simp: demo_polled_def Get_start_def register_result_def registerLocked_def demo_run new_chan_def
    set_chan_def chan_at_def waiting_on_def active_def wait_at_def Let_def)

lemma demo_new_simps: "waiting_on demo_new k = {}" "available demo_new t k = None" "s_closed demo_new = False"
  "s_maxBlob demo_new = 65536"
  by (simp_all add: demo_run waiting_on_def active_def available_def)

lemma signal_first_write_wins_witness:
  "available demo_posted 1 demo_key \<noteq> None \<and>
    (let (r, s') = signal_Post 0 demo_id [3] 1 demo_posted in
      (r = SignalConflict \<or> r = SignalTooLarge \<and> int (length [3 :: byte]) > s_maxBlob demo_posted \<or>
        r = SignalRateLimited \<and> s_closed demo_posted) \<and>
      (\<forall>t k. 1 \<le> t \<longrightarrow> available s' t k = available demo_posted t k))"
  using signal_first_write_wins [OF demo_ok(2) demo_decode, of 1 0 "[3]"]
  by (auto simp: demo_posted_available split: prod.split)

lemma signal_Post_wakes_witness:
  "let (r, s') = signal_Post 5 demo_id [3, 4] 1 demo_polled in
    r = SignalStored \<and> available s' 2 demo_key = None \<and>
      (\<exists>w \<in> {0}. can_wake s' w WokenByBlob \<and>
        (\<forall>woken. fst (Get_finish w woken s') = Returned (Some [3, 4]) SignalDelivered))"
  using signal_Post_wakes [OF demo_ok(3) demo_decode, of "[3, 4]" 5 1 _ _ 2]
  unfolding demo_polled_waits by (simp split: prod.split)

lemma signal_roundtrip_witness:
  "let (r, s') = signal_Post 0 demo_id [3, 4] 1 demo_new in
    r = SignalStored \<and> available s' 2 demo_key = (if 2 < 1 + s_ttl s' then Some [3, 4] else None) \<and>
    (2 < 1 + s_ttl s' \<longrightarrow> fst (Get_start demo_id 2 s') = Returned (Some [3, 4]) SignalDelivered \<and>
      available (snd (Get_start demo_id 2 s')) 3 demo_key = None)"
  using signal_roundtrip [OF demo_ok(1) demo_decode, of 1 "[3, 4]" 0 _ _ 2 3]
  unfolding demo_new_simps by (simp split: prod.split)

lemma signal_Shutdown_drains_witness:
  "Waiting (signal_Shutdown demo_posted) = 0 \<and> available (signal_Shutdown demo_posted) 1 demo_key = None"
  using signal_Shutdown_drains [OF demo_ok(2), of 1 demo_key] by simp

end
