(* ===== verification/Api.thy ===== *)
theory Api imports Http Accept Store Ratelimit Clientaddr Signal begin

text \<open>
  \<open>internal/api\<close>: the HTTP surface. A \<open>server\<close> holds the states of the components underneath;
  a handler is a function from the request, the server and a \<open>world\<close> (the one reading of the
  clock, whether the database fails, which waiter the runtime picks) to the response and the
  server after it. A poll that waits is the outcome \<open>Polling\<close>, answered later by \<open>resume\<close>. The
  panic recovery of \<open>ServeHTTP\<close> answers 500 where a handler would dereference nil; \<open>recovered\<close> says
  what it writes after any sequence of calls on the response writer.
\<close>

section \<open>Configuration\<close>

definition DefaultSourceURL :: string where
  "DefaultSourceURL = ''https://github.com/trigstation/trigstationd''"

datatype api_error = ErrNoStore | ErrNoLimiter | ErrNoClientAddr | ErrNoSourceURL

record config =
  cfg_Store :: "table option"
  cfg_Signal :: "sstore option"
  cfg_Limiter :: "limiter option"
  cfg_ClientAddr :: "extractor option"
  cfg_Limits :: Limits
  cfg_SourceURL :: string

datatype handler = HandleMeta | HandlePutRecord | HandleGetRecord | HandlePostSignal | HandleGetSignal
  | Preflight string

record server =
  sv_store :: table
  sv_signal :: "sstore option"
  sv_limiter :: limiter
  sv_client :: extractor
  sv_limits :: Limits
  sv_sourceURL :: string
  sv_mux :: "(string \<times> handler) list"

definition zero_limits :: Limits where
  "zero_limits = \<lparr>MaxRecordBytes = 0, MaxTTL = 0, PoWBits = 0, SkewGrace = 0\<rparr>"

definition handle :: "string \<Rightarrow> handler \<Rightarrow> server \<Rightarrow> server" where
  "handle pattern h s = s\<lparr>sv_mux := sv_mux s @ [(pattern, h)]\<rparr>"

definition route :: "server \<Rightarrow> server" where
  "route s =
    handle ''OPTIONS /v1/signal/{channel_id}'' (Preflight ''GET, POST, OPTIONS'')
     (handle ''GET /v1/signal/{channel_id}'' HandleGetSignal
     (handle ''POST /v1/signal/{channel_id}'' HandlePostSignal
     (handle ''OPTIONS /v1/record'' (Preflight ''GET, PUT, OPTIONS'')
     (handle ''GET /v1/record'' HandleGetRecord
     (handle ''PUT /v1/record'' HandlePutRecord
     (handle ''GET /v1/meta'' HandleMeta s))))))"

definition api_New :: "config \<Rightarrow> api_error + server" where
  "api_New cfg =
    (case cfg_Store cfg of None \<Rightarrow> Inl ErrNoStore | Some store \<Rightarrow>
     (case cfg_Limiter cfg of None \<Rightarrow> Inl ErrNoLimiter | Some limiter \<Rightarrow>
     (case cfg_ClientAddr cfg of None \<Rightarrow> Inl ErrNoClientAddr | Some client \<Rightarrow>
        if TrimSpace (cfg_SourceURL cfg) = [] then Inl ErrNoSourceURL
        else Inr (route \<lparr>sv_store = store, sv_signal = cfg_Signal cfg, sv_limiter = limiter,
          sv_client = client,
          sv_limits = (if cfg_Limits cfg = zero_limits then DefaultLimits else cfg_Limits cfg),
          sv_sourceURL = cfg_SourceURL cfg, sv_mux = []\<rparr>))))"

definition Routes :: "server \<Rightarrow> string list" where
  "Routes s = map fst (sv_mux s)"

section \<open>What every handler uses\<close>

record world =
  wd_now :: instant
  wd_count_fails :: bool
  wd_query_fails :: bool
  wd_put_fails :: bool
  wd_pick :: nat

definition status_only :: "int \<Rightarrow> response" where
  "status_only code = \<lparr>rs_status = code, rs_headers = [], rs_body = []\<rparr>"

definition peerAddr :: "request \<Rightarrow> Addr" where
  "peerAddr r =
    (case ParseAddrPort (rq_remote r) of
       Some (a, port) \<Rightarrow> a
     | None \<Rightarrow> (case ParseAddr (rq_remote r) of Some a \<Rightarrow> a | None \<Rightarrow> AddrZero))"

definition client_of :: "request \<Rightarrow> server \<Rightarrow> Addr" where
  "client_of r s = clientaddr_Addr (Some (sv_client s)) (peerAddr r) (join '','' (rq_forwarded r))"

definition api_allow :: "request \<Rightarrow> int \<Rightarrow> instant \<Rightarrow> server \<Rightarrow> bool \<times> server" where
  "api_allow r c now s =
    (let (ok, l) = limiter_Allow (sv_limiter s) (client_of r s) c now in (ok, s\<lparr>sv_limiter := l\<rparr>))"

text \<open>\<open>io.ReadAll\<close> of a limited reader: the stream's error is seen only if the limit is not reached.\<close>

definition readLimited :: "request \<Rightarrow> int \<Rightarrow> string option" where
  "readLimited r limit =
    (if nat limit \<le> length (rq_body r) then Some (take (nat limit) (rq_body r))
     else if rq_body_fails r then None
     else Some (rq_body r))"

definition repeated :: "(string, string list) gomap \<Rightarrow> string \<Rightarrow> bool" where
  "repeated values name = (case map_of values name of None \<Rightarrow> False | Some vs \<Rightarrow> length vs > 1)"

definition single :: "(string, string list) gomap \<Rightarrow> string \<Rightarrow> string \<times> bool" where
  "single values name =
    (case map_of values name of
       None \<Rightarrow> ([], False)
     | Some vs \<Rightarrow> if length vs = 0 then ([], False) else (vs ! 0, True))"

section \<open>Meta\<close>

function scale_up :: "int \<Rightarrow> int \<Rightarrow> int" where
  "scale_up n scale = (if 0 < scale \<and> n div scale \<ge> 100 then scale_up n (scale * 10) else scale)"
  by pat_completeness auto
termination
  by (relation "measure (\<lambda>(n, scale). nat (n div scale))") (auto simp: zdiv_zmult2_eq)

declare scale_up.simps [simp del]

definition understate :: "int \<Rightarrow> int" where
  "understate n = (if n < 100 then n else let scale = scale_up n 1 in n div scale * scale)"

definition meta_members :: "int \<Rightarrow> server \<Rightarrow> (string \<times> string) list" where
  "meta_members cnt s =
    [(''v'', Itoa 1), (''record_count'', Itoa (understate cnt)), (''max_ttl'', Itoa (MaxTTL (sv_limits s))),
     (''max_record_bytes'', Itoa (MaxRecordBytes (sv_limits s))), (''pow_bits'', Itoa (PoWBits (sv_limits s))),
     (''signal'', if sv_signal s \<noteq> None then ''true'' else ''false''),
     (''source_url'', json_quote (sv_sourceURL s))]"

definition handleMeta :: "world \<Rightarrow> server \<Rightarrow> response" where
  "handleMeta wd s =
    (case store_Count (wd_count_fails wd) (time_Unix (wd_now wd)) (sv_store s) of
       Inl _ \<Rightarrow> status_only StatusInternalServerError
     | Inr cnt \<Rightarrow> \<lparr>rs_status = StatusOK, rs_headers = [(''Content-Type'', ''application/json'')],
         rs_body = object_text (meta_members (int cnt) s)\<rparr>)"

section \<open>Records\<close>

definition handlePutRecord :: "crypto \<Rightarrow> world \<Rightarrow> request \<Rightarrow> server \<Rightarrow> response \<times> server" where
  "handlePutRecord C wd r s =
    (let now = wd_now wd; (ok, s1) = api_allow r ClassPutRecord now s in
     if \<not> ok then (status_only (RecordReason_HTTPStatus RecordRateLimited), s1)
     else case readLimited r (i64 (MaxRecordBytes (sv_limits s1) + 1)) of
       None \<Rightarrow> (status_only (RecordReason_HTTPStatus RecordMalformed), s1)
     | Some body \<Rightarrow>
         (case accept_Check C body (time_Unix now) (sv_limits s1) False of (reason, decoded) \<Rightarrow>
            if reason = RecordAccepted then
              (case decoded of
                 None \<Rightarrow> (status_only StatusInternalServerError, s1)
               | Some d \<Rightarrow>
                   (case store_Put (wd_put_fails wd)
                      \<lparr>sr_LookupID = d_LookupID d, sr_WKPub = d_WKPub d, sr_ExpiresAt = d_ExpiresAt d,
                       sr_Envelope = body\<rparr> (time_Unix now) (sv_store s1) of (reason', err, db) \<Rightarrow>
                    if err \<noteq> None then (status_only StatusInternalServerError, s1\<lparr>sv_store := db\<rparr>)
                    else (status_only (RecordReason_HTTPStatus reason'), s1\<lparr>sv_store := db\<rparr>)))
            else (status_only (RecordReason_HTTPStatus reason), s1)))"

definition records_text :: "string list \<Rightarrow> string" where
  "records_text envelopes = ''{\"records\":['' @ join '','' envelopes @ '']}''"

text \<open>The parsing of the two parameters, with the cap for the true count.\<close>

definition request_query :: "request \<Rightarrow> int \<Rightarrow> QueryReason + query" where
  "request_query r cnt =
    (let values = url_Query (rq_rawquery r);
         (prefix, prefixPresent) = single values ''prefix'';
         (bits, bitsPresent) = single values ''bits''
     in query_Parse prefix prefixPresent bits bitsPresent (query_Cap cnt))"

definition handleGetRecord :: "world \<Rightarrow> request \<Rightarrow> server \<Rightarrow> response \<times> server" where
  "handleGetRecord wd r s =
    (let now = wd_now wd; (ok, s1) = api_allow r ClassGetRecord now s;
         values = url_Query (rq_rawquery r)
     in if \<not> ok then (status_only (RecordReason_HTTPStatus RecordRateLimited), s1)
        else if repeated values ''prefix'' \<or> repeated values ''bits''
          then (status_only (QueryReason_HTTPStatus ReasonRepeatedParameter), s1)
        else case store_Count (wd_count_fails wd) (time_Unix now) (sv_store s1) of
          Inl _ \<Rightarrow> (status_only StatusInternalServerError, s1)
        | Inr cnt \<Rightarrow>
            (case request_query r (int cnt) of
                 Inl reason \<Rightarrow> (status_only (QueryReason_HTTPStatus reason), s1)
               | Inr q \<Rightarrow>
                   (case store_ByPrefix (wd_query_fails wd) q (time_Unix now) (sv_store s1) of
                      Inl _ \<Rightarrow> (status_only StatusInternalServerError, s1)
                    | Inr envelopes \<Rightarrow>
                        (\<lparr>rs_status = StatusOK, rs_headers = [(''Content-Type'', ''application/json'')],
                          rs_body = records_text envelopes\<rparr>, s1))))"

section \<open>Signal channels\<close>

datatype outcome = Answered response | Polling nat

definition handlePostSignal :: "world \<Rightarrow> request \<Rightarrow> string \<Rightarrow> server \<Rightarrow> response \<times> server" where
  "handlePostSignal wd r channel s =
    (case sv_signal s of
       None \<Rightarrow> (status_only (SignalReason_HTTPStatus SignalDisabled), s)
     | Some st \<Rightarrow>
         let now = wd_now wd; (ok, s1) = api_allow r ClassSignal now s in
         if \<not> ok then (status_only (SignalReason_HTTPStatus SignalRateLimited), s1)
         else case readLimited r (MaxBlobBytes + 1) of
           None \<Rightarrow> (status_only (SignalReason_HTTPStatus SignalRateLimited), s1)
         | Some blob \<Rightarrow>
             (case signal_Post (wd_pick wd) channel (bytes_of_string blob) now st of (reason, st') \<Rightarrow>
                (status_only (SignalReason_HTTPStatus reason), s1\<lparr>sv_signal := Some st'\<rparr>)))"

definition signal_reply :: "bytes option \<Rightarrow> SignalReason \<Rightarrow> response" where
  "signal_reply blob reason =
    (if reason = SignalDelivered
     then \<lparr>rs_status = SignalReason_HTTPStatus reason,
           rs_headers = [(''Content-Type'', ''application/octet-stream'')],
           rs_body = (case blob of None \<Rightarrow> [] | Some b \<Rightarrow> string_of_bytes b)\<rparr>
     else status_only (SignalReason_HTTPStatus reason))"

definition get_outcome :: "get_result \<Rightarrow> outcome" where
  "get_outcome g = (case g of Returned blob reason \<Rightarrow> Answered (signal_reply blob reason) | Waits w \<Rightarrow> Polling w)"

definition handleGetSignal :: "world \<Rightarrow> request \<Rightarrow> string \<Rightarrow> server \<Rightarrow> outcome \<times> server" where
  "handleGetSignal wd r channel s =
    (case sv_signal s of
       None \<Rightarrow> (Answered (status_only (SignalReason_HTTPStatus SignalDisabled)), s)
     | Some st \<Rightarrow>
         let now = wd_now wd; (ok, s1) = api_allow r ClassSignal now s in
         if \<not> ok then (Answered (status_only (SignalReason_HTTPStatus SignalRateLimited)), s1)
         else (case Get_start channel now st of (g, st') \<Rightarrow>
            (get_outcome g, s1\<lparr>sv_signal := Some st'\<rparr>)))"

section \<open>Every response\<close>

definition preflight :: "string \<Rightarrow> response" where
  "preflight methods =
    \<lparr>rs_status = StatusNoContent,
     rs_headers = [(''Access-Control-Allow-Methods'', methods),
       (''Access-Control-Allow-Headers'', ''Content-Type''), (''Access-Control-Max-Age'', ''86400'')],
     rs_body = []\<rparr>"

definition run_handler ::
  "crypto \<Rightarrow> world \<Rightarrow> request \<Rightarrow> handler \<Rightarrow> string list \<Rightarrow> server \<Rightarrow> outcome \<times> server" where
  "run_handler C wd r h vs s =
    (case h of
       HandleMeta \<Rightarrow> (Answered (handleMeta wd s), s)
     | HandlePutRecord \<Rightarrow> apfst Answered (handlePutRecord C wd r s)
     | HandleGetRecord \<Rightarrow> apfst Answered (handleGetRecord wd r s)
     | HandlePostSignal \<Rightarrow> apfst Answered (handlePostSignal wd r (hd vs) s)
     | HandleGetSignal \<Rightarrow> handleGetSignal wd r (hd vs) s
     | Preflight methods \<Rightarrow> (Answered (preflight methods), s))"

definition url_path :: "request \<Rightarrow> string" where
  "url_path r = segment_value (rq_path r)"

definition cors :: "request \<Rightarrow> (string, string) gomap" where
  "cors r = (if take 4 (url_path r) = ''/v1/'' then [(''Access-Control-Allow-Origin'', ''*'')] else [])"

definition with_headers :: "(string, string) gomap \<Rightarrow> response \<Rightarrow> response" where
  "with_headers hs resp = resp\<lparr>rs_headers := hs @ rs_headers resp\<rparr>"

fun finish_outcome :: "(string, string) gomap \<Rightarrow> outcome \<Rightarrow> outcome" where
  "finish_outcome hs (Answered resp) = Answered (with_headers hs resp)"
| "finish_outcome hs (Polling w) = Polling w"

definition ServeHTTP :: "crypto \<Rightarrow> world \<Rightarrow> request \<Rightarrow> server \<Rightarrow> outcome \<times> server" where
  "ServeHTTP C wd r s =
    apfst (finish_outcome (cors r))
     (case mux_dispatch (sv_mux s) r of
        Redirect \<Rightarrow> (Answered (status_only 301), s)
      | NoMethod ms \<Rightarrow> (Answered (method_not_allowed ms), s)
      | NoPath \<Rightarrow> (Answered (http_Error ''404 page not found'' StatusNotFound), s)
      | Found h vs \<Rightarrow> run_handler C wd r h vs s)"

text \<open>
  The recovery from a panic. A handler's run is the calls it makes of its writer, which the
  tracking writer passes on, and the value it panics with, if it does. What is reported is that
  value, and the stack, which is left out. Where the code would dereference nil the handlers of
  this model answer with the status the recovery gives; here is the recovery itself.
\<close>

datatype writer_call = HeaderWritten int | BodyWritten string

record trackingWriter =
  tw_passed :: "writer_call list"
  tw_wrote :: bool

definition tw_WriteHeader :: "int \<Rightarrow> trackingWriter \<Rightarrow> trackingWriter" where
  "tw_WriteHeader code w = (w\<lparr>tw_wrote := True\<rparr>)\<lparr>tw_passed := tw_passed w @ [HeaderWritten code]\<rparr>"

definition tw_Write :: "string \<Rightarrow> trackingWriter \<Rightarrow> trackingWriter" where
  "tw_Write b w = (w\<lparr>tw_wrote := True\<rparr>)\<lparr>tw_passed := tw_passed w @ [BodyWritten b]\<rparr>"

fun tw_call :: "writer_call \<Rightarrow> trackingWriter \<Rightarrow> trackingWriter" where
  "tw_call (HeaderWritten code) w = tw_WriteHeader code w"
| "tw_call (BodyWritten b) w = tw_Write b w"

definition reportPanic :: "string \<Rightarrow> string" where
  "reportPanic v = ''trigstationd: panic in a handler: '' @ v @ [CHR 0x0A]"

definition recovered :: "writer_call list \<Rightarrow> string option \<Rightarrow> writer_call list \<times> string option" where
  "recovered calls panic =
    (let tracked = fold tw_call calls \<lparr>tw_passed = [], tw_wrote = False\<rparr> in
     case panic of
       None \<Rightarrow> (tw_passed tracked, None)
     | Some v \<Rightarrow> (tw_passed (if \<not> tw_wrote tracked then tw_WriteHeader StatusInternalServerError tracked else tracked),
         Some (reportPanic v)))"

lemma recovered_writes:
  "recovered calls panic =
    (if panic \<noteq> None \<and> calls = [] then [HeaderWritten StatusInternalServerError] else calls, map_option reportPanic panic)"
proof -
  have "fold tw_call calls \<lparr>tw_passed = [], tw_wrote = False\<rparr> = \<lparr>tw_passed = calls, tw_wrote = (calls \<noteq> [])\<rparr>"
  proof (induction calls rule: rev_induct)
    case (snoc c calls)
    then show ?case by (cases c) (simp_all add: tw_WriteHeader_def tw_Write_def)
  qed simp
  then show ?thesis by (cases panic) (simp_all add: recovered_def tw_WriteHeader_def Let_def)
qed

text \<open>The rest of a poll that waited, for the request \<open>r\<close> it belongs to.\<close>

definition resume :: "request \<Rightarrow> nat \<Rightarrow> wake \<Rightarrow> server \<Rightarrow> outcome \<times> server" where
  "resume r w woken s =
    apfst (finish_outcome (cors r))
     (case sv_signal s of
        None \<Rightarrow> (Answered (status_only StatusInternalServerError), s)
      | Some st \<Rightarrow> (case Get_finish w woken st of (g, st') \<Rightarrow> (get_outcome g, s\<lparr>sv_signal := Some st'\<rparr>)))"

section \<open>Maintenance\<close>

definition Drain :: "server \<Rightarrow> server" where
  "Drain s = (case sv_signal s of None \<Rightarrow> s | Some st \<Rightarrow> s\<lparr>sv_signal := Some (signal_Shutdown st)\<rparr>)"

definition SweepRecords :: "bool \<Rightarrow> instant \<Rightarrow> server \<Rightarrow> store_error option \<times> server" where
  "SweepRecords fault now s =
    (case store_Sweep fault (time_Unix now) (sv_store s) of (res, db) \<Rightarrow>
       ((case res of Inl e \<Rightarrow> Some e | Inr n \<Rightarrow> None), s\<lparr>sv_store := db\<rparr>))"

definition SweepLimiter :: "instant \<Rightarrow> server \<Rightarrow> server" where
  "SweepLimiter now s = s\<lparr>sv_limiter := limiter_Sweep (sv_limiter s) now\<rparr>"

section \<open>Understating\<close>

lemma scale_up_spec:
  "0 < scale \<Longrightarrow> 10 \<le> n div scale \<Longrightarrow> (\<exists>j. scale_up n scale = scale * 10 ^ j) \<and>
    10 \<le> n div scale_up n scale \<and> n div scale_up n scale < 100"
proof (induction n scale rule: scale_up.induct)
  case (1 n scale)
  show ?case
  proof (cases "n div scale \<ge> 100")
    case True
    with "1.prems"(1) have "10 \<le> n div (scale * 10)" by (simp add: zdiv_zmult2_eq)
    with "1.IH" "1.prems" True obtain j where j: "scale_up n (scale * 10) = scale * 10 * 10 ^ j"
      "10 \<le> n div scale_up n (scale * 10)" "n div scale_up n (scale * 10) < 100" by auto
    from j(1) have "\<exists>j. scale_up n (scale * 10) = scale * 10 ^ j" by (intro exI [of _ "Suc j"]) simp
    with j True "1.prems"(1) show ?thesis by (subst (1 2 3) scale_up.simps) simp
  next
    case False
    have "\<exists>j. scale = scale * 10 ^ j" by (intro exI [of _ 0]) simp
    with False "1.prems" show ?thesis by (subst (1 2 3) scale_up.simps) simp
  qed
qed

lemma understate_bounds: "0 \<le> n \<Longrightarrow> understate n \<le> n \<and> 10 * (n - understate n) \<le> n \<and> 0 \<le> understate n"
proof (cases "n < 100")
  case False
  assume "0 \<le> n"
  let ?t = "scale_up n 1"
  obtain j where t: "?t = 10 ^ j" "10 \<le> n div ?t" using scale_up_spec [of 1 n] False by auto
  have pos: "0 < ?t" by (simp add: t)
  define q r where "q = n div ?t * ?t" and "r = n mod ?t"
  have "n = q + r" unfolding q_def r_def by (rule div_mult_mod_eq [symmetric])
  moreover have "10 * ?t \<le> q" unfolding q_def using t(2) pos by (intro mult_right_mono) simp_all
  moreover have "0 \<le> r" "r < ?t" using pos by (simp_all add: r_def)
  ultimately have "q \<le> n" "10 * (n - q) \<le> n" "0 \<le> q" using pos by simp_all
  moreover have "understate n = q" using False by (simp add: understate_def Let_def q_def)
  ultimately show ?thesis by simp
qed (simp add: understate_def)

text \<open>
  The advertised count is a reduction to two significant figures: it never exceeds the true
  count, loses at most a tenth of it, has two significant digits followed by zeros, and the
  scale the loop finds stays within 64 bits.
\<close>

theorem understate_two_figures:
  assumes "0 \<le> n" and "is_i64 n"
  shows "understate n \<le> n \<and> 10 * (n - understate n) \<le> n \<and>
    (\<exists>d j. understate n = d * 10 ^ j \<and> 0 \<le> d \<and> d < 100 \<and> is_i64 (10 ^ j))"
proof (cases "n < 100")
  case True
  then have "understate n = n * 10 ^ 0" by (simp add: understate_def)
  with True assms(1) show ?thesis
    by (intro conjI exI [of _ n] exI [of _ 0]) (simp_all add: is_i64_def)
next
  case False
  let ?t = "scale_up n 1"
  obtain j where t: "?t = 10 ^ j" "10 \<le> n div ?t" "n div ?t < 100" using scale_up_spec [of 1 n] False by auto
  have pos: "0 < ?t" by (simp add: t)
  have "?t * 1 \<le> ?t * (n div ?t)" using pos t(2) by (intro mult_left_mono) simp_all
  also have "\<dots> \<le> n" using pos by (metis mult_div_mod_eq le_add_same_cancel1 pos_mod_sign)
  finally have "is_i64 ?t" using assms(2) pos by (simp add: is_i64_def)
  with False t have "\<exists>d j. understate n = d * 10 ^ j \<and> 0 \<le> d \<and> d < 100 \<and> is_i64 (10 ^ j)"
    by (intro exI [of _ "n div ?t"] exI [of _ j]) (simp add: understate_def Let_def)
  with understate_bounds [OF assms(1)] show ?thesis by simp
qed

theorem understate_two_figures_witness:
  "understate 104233 \<le> 104233 \<and> 10 * (104233 - understate 104233) \<le> 104233 \<and>
    (\<exists>d j. understate 104233 = d * 10 ^ j \<and> 0 \<le> d \<and> d < 100 \<and> is_i64 (10 ^ j))"
  by (rule understate_two_figures) (simp_all add: is_i64_def)

lemma query_Cap_mono: "m \<le> n \<Longrightarrow> query_Cap m \<le> query_Cap n"
proof (cases "m < KMin")
  case True
  then show ?thesis by (simp add: query_Cap_def capFor_def)
next
  case False
  assume "m \<le> n"
  with False capFor_bounds [of KMin m] capFor_bounds [of KMin n]
  have "KMin * 2 ^ query_Cap m < KMin * 2 ^ (query_Cap n + 1)"
    by (simp add: query_Cap_def KMin_def)
  then have "(2 :: int) ^ query_Cap m < 2 ^ (query_Cap n + 1)" by (simp add: KMin_def)
  then show ?thesis by (simp only: power_strict_increasing_iff)
qed

lemma query_Cap_i64: "is_i64 n \<Longrightarrow> query_Cap n < 63"
proof (cases "n < KMin")
  case False
  assume "is_i64 n"
  with False capFor_bounds [of KMin n] have "KMin * 2 ^ query_Cap n < 2 ^ 63"
    by (simp add: query_Cap_def KMin_def is_i64_def)
  then have "(2 :: int) ^ query_Cap n < 2 ^ 63" by (simp add: KMin_def)
  then show ?thesis by (simp only: power_strict_increasing_iff)
qed (simp add: query_Cap_def capFor_def)

text \<open>
  C34. A client that sizes its prefix from the advertised count is never refused as over-precise:
  whatever prefix length it chooses up to the cap for the figure \<open>GET /v1/meta\<close> gives, the cap
  for the true count admits it.
\<close>

theorem advertised_count_admits:
  assumes "0 \<le> cnt" and "is_i64 cnt" and "ParseUint32 bits = Some n" and "n \<le> query_Cap (understate cnt)"
  shows "query_Parse prefix prefixPresent bits bitsPresent (query_Cap cnt) \<noteq> Inl ReasonBitsTooPrecise"
proof -
  have "n \<le> query_Cap cnt"
    using query_Cap_mono [of "understate cnt" cnt] understate_bounds [OF assms(1)] assms(4) by simp
  with query_Cap_i64 [OF assms(2)] assms(3) show ?thesis
    by (auto simp: query_Parse_def LookupIDBits_def Let_def split: option.splits)
qed

theorem advertised_count_admits_witness:
  "query_Parse ''abc'' True ''12'' True (query_Cap 104233) \<noteq> Inl ReasonBitsTooPrecise"
proof (rule advertised_count_admits)
  have "12 \<le> query_Cap 100000"
    using capFor_bounds [of KMin 100000]
    by (cases "12 \<le> query_Cap 100000")
      (use power_increasing [of "query_Cap 100000 + 1" 12 "2 :: int"] in \<open>simp_all add: query_Cap_def KMin_def\<close>)
  moreover have "understate 104233 = 100000"
    by (simp add: understate_def Let_def scale_up.simps)
  ultimately show "12 \<le> query_Cap (understate 104233)" by simp
  show "ParseUint32 ''12'' = Some 12"
    by (simp add: ParseUint32_def is_digit_def digits_value_def)
qed (simp_all add: is_i64_def)

end
