(* ===== verification/Service.thy ===== *)
theory Service imports Api begin

text \<open>
  The service as one state machine: requests, the ends of waiting polls, the sweeps on their
  timers and the shutdown, in the order in which they take effect. The invariants of the
  components hold together, the composed service is a \<open>recency_store\<close>, and the properties here
  relate what one request wrote to what another is served.
\<close>

section \<open>Publishing\<close>

lemma exec_put_refused: "fst (exec_put x now db) = 0 \<Longrightarrow> snd (exec_put x now db) = db"
  by (induction db) (auto split: prod.splits if_splits)

lemma put_table_refused: "put_reason rec now db \<noteq> RecordAccepted \<Longrightarrow> put_table rec now db = db"
  by (auto simp: put_reason_def put_table_def store_Put_exec exec_put_refused split: if_splits)

lemma store_Put_fault: "store_Put True rec now db = (RecordMalformed, e, db') \<Longrightarrow> db' = db"
  by (auto simp: store_Put_def split: if_splits)

lemma api_allow_keeps:
  "api_allow r c now s = (ok, s1) \<Longrightarrow> \<exists>l. s1 = s\<lparr>sv_limiter := l\<rparr> \<and>
    limiter_Allow (sv_limiter s) (client_of r s) c now = (ok, l)"
  by (auto simp: api_allow_def split: prod.splits)

text \<open>The record a decoded envelope is stored as.\<close>

definition stored_record :: "Decoded \<Rightarrow> string \<Rightarrow> store_record" where
  "stored_record d body = \<lparr>sr_LookupID = d_LookupID d, sr_WKPub = d_WKPub d,
    sr_ExpiresAt = d_ExpiresAt d, sr_Envelope = body\<rparr>"

lemma accepted_storable:
  assumes "accept_Check C body now lim rl = (RecordAccepted, Some d)"
  shows "storable (stored_record d body)"
proof -
  from assms obtain env where env: "accept_parse body = Some env" "Envelope_Decode env = Inr d"
    by (auto simp: accept_Check_iff)
  have "accept_parse [] = None" by (simp add: accept_parse_def unmarshal_members_def json_parse_def)
  with env have "body \<noteq> []" by auto
  with Envelope_Decode_InrD [OF env(2)] show ?thesis
    by (simp add: storable_def stored_record_def decoded_widths_def)
qed

lemma accept_Check_decoded:
  "accept_Check C body now lim rl = (RecordAccepted, x) \<Longrightarrow> x \<noteq> None"
  by (auto simp: accept_Check_def split: option.splits sum.splits if_splits)

lemma accept_Check_not_204:
  "reason \<noteq> RecordAccepted \<Longrightarrow> RecordReason_HTTPStatus reason \<noteq> StatusNoContent"
  by (simp add: record_status_success_iff)

lemma handlePutRecord_cases:
  assumes "handlePutRecord C wd r s = (resp, s')"
  obtains (refused) l where "rs_status resp \<noteq> StatusNoContent" "s' = s\<lparr>sv_limiter := l\<rparr>"
      "\<exists>ok. limiter_Allow (sv_limiter s) (client_of r s) ClassPutRecord (wd_now wd) = (ok, l)"
  | (stored) l body d where "rs_status resp = StatusNoContent"
      "limiter_Allow (sv_limiter s) (client_of r s) ClassPutRecord (wd_now wd) = (True, l)"
      "readLimited r (i64 (MaxRecordBytes (sv_limits s) + 1)) = Some body"
      "accept_Check C body (time_Unix (wd_now wd)) (sv_limits s) False = (RecordAccepted, Some d)"
      "put_reason (stored_record d body) (time_Unix (wd_now wd)) (sv_store s) = RecordAccepted"
      "\<not> wd_put_fails wd"
      "s' = s\<lparr>sv_limiter := l, sv_store := put_table (stored_record d body) (time_Unix (wd_now wd)) (sv_store s)\<rparr>"
proof -
  let ?t = "time_Unix (wd_now wd)"
  obtain ok s1 where a: "api_allow r ClassPutRecord (wd_now wd) s = (ok, s1)" by fastforce
  then obtain l where l: "s1 = s\<lparr>sv_limiter := l\<rparr>"
    "limiter_Allow (sv_limiter s) (client_of r s) ClassPutRecord (wd_now wd) = (ok, l)"
    using api_allow_keeps by blast
  show thesis
  proof (cases "ok \<and> readLimited r (i64 (MaxRecordBytes (sv_limits s) + 1)) \<noteq> None")
    case False
    with assms a l show thesis
      by (intro refused [of l])
        (auto simp: handlePutRecord_def status_only_def status_defs Let_def split: option.splits if_splits)
  next
    case True
    then obtain body where body: "readLimited r (i64 (MaxRecordBytes (sv_limits s) + 1)) = Some body" by auto
    obtain reason x where chk: "accept_Check C body ?t (sv_limits s) False = (reason, x)" by fastforce
    show thesis
    proof (cases "reason = RecordAccepted")
      case rejected: False
      with assms a l True body chk show thesis
        by (intro refused [of l])
          (auto simp: handlePutRecord_def status_only_def Let_def accept_Check_not_204)
    next
      case acc: True
      with chk accept_Check_decoded obtain d where d: "x = Some d" by blast
      let ?rec = "stored_record d body"
      from chk acc d have chk': "accept_Check C body ?t (sv_limits s) False = (RecordAccepted, Some d)" by simp
      note st = accepted_storable [OF chk']
      obtain reason' err db where put: "store_Put (wd_put_fails wd) ?rec ?t (sv_store s) = (reason', err, db)"
        by (metis prod_cases3)
      have res: "(resp, s') = (if err \<noteq> None then (status_only StatusInternalServerError, s1\<lparr>sv_store := db\<rparr>)
          else (status_only (RecordReason_HTTPStatus reason'), s1\<lparr>sv_store := db\<rparr>))"
        using assms a l True body chk' put
        by (simp add: handlePutRecord_def Let_def flip: stored_record_def) (auto split: if_splits)
      show thesis
      proof (cases "wd_put_fails wd")
        case True
        with put st have "err \<noteq> None" "db = sv_store s"
          by (auto simp: store_Put_def storable_def LookupIDLen_def)
        with res l show thesis
          by (intro refused [of l]) (simp_all add: status_only_def status_defs)
      next
        case False
        with put st have p: "err = None" "reason' = put_reason ?rec ?t (sv_store s)"
          "db = put_table ?rec ?t (sv_store s)"
          by (auto simp: put_reason_def put_table_def store_Put_exec storable_def)
        show thesis
        proof (cases "reason' = RecordAccepted")
          case True
          with res p l body chk' False \<open>ok \<and> _\<close> show thesis
            by (intro stored [of l body d]) (simp_all add: status_only_def)
        next
          case not_newer: False
          with res p l put_table_refused [of ?rec ?t "sv_store s"] show thesis
            by (intro refused [of l]) (simp_all add: status_only_def accept_Check_not_204)
        qed
      qed
    qed
  qed
qed

section \<open>The other handlers\<close>

lemma handleGetRecord_cases:
  assumes "handleGetRecord wd r s = (resp, s')"
  shows "\<exists>l ok. s' = s\<lparr>sv_limiter := l\<rparr> \<and>
    limiter_Allow (sv_limiter s) (client_of r s) ClassGetRecord (wd_now wd) = (ok, l) \<and>
    (rs_status resp = StatusOK \<longrightarrow> ok \<and> (\<exists>q envs cnt.
      store_Count False (time_Unix (wd_now wd)) (sv_store s) = Inr cnt \<and>
      request_query r (int cnt) = Inr q \<and>
      store_ByPrefix False q (time_Unix (wd_now wd)) (sv_store s) = Inr envs \<and>
      rs_body resp = records_text envs))"
proof -
  obtain ok s1 where a: "api_allow r ClassGetRecord (wd_now wd) s = (ok, s1)" by fastforce
  then obtain l where l: "s1 = s\<lparr>sv_limiter := l\<rparr>"
    "limiter_Allow (sv_limiter s) (client_of r s) ClassGetRecord (wd_now wd) = (ok, l)"
    using api_allow_keeps by blast
  have not_ok: "QueryReason_HTTPStatus e \<noteq> 200" for e by (cases e) (simp_all add: status_defs)
  have fault: "store_Count True t db = Inl ErrDatabase" "store_ByPrefix True q t db = Inl ErrDatabase" for t db q
    by (simp_all add: store_Count_def store_ByPrefix_def)
  with assms a l not_ok show ?thesis
    by (cases "wd_count_fails wd"; cases "wd_query_fails wd")
      (auto simp: handleGetRecord_def status_only_def status_defs Let_def fault
        split: if_splits sum.splits prod.splits)
qed

lemma handlePostSignal_keeps:
  assumes "handlePostSignal wd r ch s = (resp, s')"
  shows "sv_store s' = sv_store s \<and> sv_mux s' = sv_mux s \<and> sv_limits s' = sv_limits s \<and>
    (limiter_ok (sv_limiter s) \<longrightarrow> limiter_ok (sv_limiter s')) \<and>
    (\<forall>st'. sv_signal s' = Some st' \<longrightarrow> (\<exists>st. sv_signal s = Some st \<and>
      (st' = st \<or> (\<exists>pick i b. st' = snd (signal_Post pick i b (wd_now wd) st)))))"
proof (cases "sv_signal s")
  case (Some st)
  obtain ok s1 where a: "api_allow r ClassSignal (wd_now wd) s = (ok, s1)" by fastforce
  then obtain l where l: "s1 = s\<lparr>sv_limiter := l\<rparr>"
    "limiter_Allow (sv_limiter s) (client_of r s) ClassSignal (wd_now wd) = (ok, l)"
    using api_allow_keeps by blast
  have "limiter_ok (sv_limiter s) \<Longrightarrow> limiter_ok l"
    using limiter_step_ok [of "sv_limiter s" "Request (client_of r s) ClassSignal (wd_now wd)"] l(2) by simp
  with assms Some a l show ?thesis
    by (auto simp: handlePostSignal_def Let_def split: if_splits option.splits prod.splits)
      (metis snd_conv)
qed (use assms in \<open>auto simp: handlePostSignal_def\<close>)

lemma handleGetSignal_keeps:
  assumes "handleGetSignal wd r ch s = (out, s')"
  shows "sv_store s' = sv_store s \<and> sv_mux s' = sv_mux s \<and> sv_limits s' = sv_limits s \<and>
    (limiter_ok (sv_limiter s) \<longrightarrow> limiter_ok (sv_limiter s')) \<and>
    (\<forall>st'. sv_signal s' = Some st' \<longrightarrow> (\<exists>st. sv_signal s = Some st \<and>
      (st' = st \<or> (\<exists>i. st' = snd (Get_start i (wd_now wd) st)))))"
proof (cases "sv_signal s")
  case (Some st)
  obtain ok s1 where a: "api_allow r ClassSignal (wd_now wd) s = (ok, s1)" by fastforce
  then obtain l where l: "s1 = s\<lparr>sv_limiter := l\<rparr>"
    "limiter_Allow (sv_limiter s) (client_of r s) ClassSignal (wd_now wd) = (ok, l)"
    using api_allow_keeps by blast
  have "limiter_ok (sv_limiter s) \<Longrightarrow> limiter_ok l"
    using limiter_step_ok [of "sv_limiter s" "Request (client_of r s) ClassSignal (wd_now wd)"] l(2) by simp
  with assms Some a l show ?thesis
    by (auto simp: handleGetSignal_def Let_def split: if_splits prod.splits) (metis snd_conv)
qed (use assms in \<open>auto simp: handleGetSignal_def\<close>)

section \<open>Events\<close>

datatype service_event =
    ERequest world request | EResume instant request nat wake | EDrain instant
  | ESweepRecords bool instant | ESweepLimiter instant

fun service_time :: "service_event \<Rightarrow> int" where
  "service_time (ERequest wd r) = time_Unix (wd_now wd)"
| "service_time (EResume t r w woken) = time_Unix t"
| "service_time (EDrain t) = time_Unix t"
| "service_time (ESweepRecords fault t) = time_Unix t"
| "service_time (ESweepLimiter t) = time_Unix t"

fun service_step :: "crypto \<Rightarrow> service_event \<Rightarrow> server \<Rightarrow> server" where
  "service_step C (ERequest wd r) s = snd (ServeHTTP C wd r s)"
| "service_step C (EResume t r w woken) s =
    (case sv_signal s of
       None \<Rightarrow> s
     | Some st \<Rightarrow> if can_wake st w woken then snd (resume r w woken s) else s)"
| "service_step C (EDrain t) s = Drain s"
| "service_step C (ESweepRecords fault t) s = snd (SweepRecords fault t s)"
| "service_step C (ESweepLimiter t) s = SweepLimiter t s"

definition api_mux :: "(string \<times> handler) list" where
  "api_mux =
    [(''GET /v1/meta'', HandleMeta), (''PUT /v1/record'', HandlePutRecord),
     (''GET /v1/record'', HandleGetRecord),
     (''OPTIONS /v1/record'', Preflight ''GET, PUT, OPTIONS''),
     (''POST /v1/signal/{channel_id}'', HandlePostSignal),
     (''GET /v1/signal/{channel_id}'', HandleGetSignal),
     (''OPTIONS /v1/signal/{channel_id}'', Preflight ''GET, POST, OPTIONS'')]"

definition service_ok :: "server \<Rightarrow> bool" where
  "service_ok s \<longleftrightarrow> table_ok (sv_store s) \<and> (\<forall>st. sv_signal s = Some st \<longrightarrow> signal_ok st) \<and>
    limiter_ok (sv_limiter s) \<and> sv_mux s = api_mux"

lemma route_mux: "sv_mux s = [] \<Longrightarrow> sv_mux (route s) = api_mux"
  by (simp add: route_def handle_def api_mux_def)

lemma signal_steps_ok:
  "signal_ok st \<Longrightarrow> signal_ok (snd (signal_Post pick i b now st))"
  "signal_ok st \<Longrightarrow> signal_ok (snd (Get_start i now st))"
  by (rule Post_ok [OF _ prod.collapse [symmetric]], assumption)
    (rule Get_start_ok [OF _ prod.collapse [symmetric]], assumption)

text \<open>What an event does to the store is an operation of the store, or nothing.\<close>

lemma request_store:
  assumes "run_handler C wd r h vs s = (out, s')"
  shows "(\<exists>x. op_time x = time_Unix (wd_now wd) \<and> sv_store s' = store_step x (sv_store s)) \<and>
    sv_mux s' = sv_mux s \<and> (limiter_ok (sv_limiter s) \<longrightarrow> limiter_ok (sv_limiter s')) \<and>
    (\<forall>st'. sv_signal s' = Some st' \<longrightarrow> (\<exists>st. sv_signal s = Some st \<and> (signal_ok st \<longrightarrow> signal_ok st')))"
proof -
  have none: "\<exists>x. op_time x = time_Unix (wd_now wd) \<and> db = store_step x db" for db
    by (rule exI [of _ "OpCount (time_Unix (wd_now wd))"]) simp
  have lim: "limiter_Allow l a c t = (ok, l') \<Longrightarrow> limiter_ok l \<Longrightarrow> limiter_ok l'" for l a c t ok l'
    using limiter_step_ok [of l "Request a c t"] by simp
  show ?thesis
  proof (cases h)
    case HandlePutRecord
    with assms obtain resp where put: "handlePutRecord C wd r s = (resp, s')"
      by (auto simp: run_handler_def apfst_def map_prod_def split: prod.splits)
    show ?thesis
      using put
    proof (cases rule: handlePutRecord_cases)
      case (refused l)
      with none lim show ?thesis by auto
    next
      case (stored l body d)
      then show ?thesis using lim
        by (auto intro!: exI [of _ "OpPut (stored_record d body) (time_Unix (wd_now wd))"]
          simp: store_step_simps simp del: store_step.simps(1))
    qed
  next
    case HandleGetRecord
    with assms obtain resp where get: "handleGetRecord wd r s = (resp, s')"
      by (auto simp: run_handler_def apfst_def map_prod_def split: prod.splits)
    from handleGetRecord_cases [OF get] none lim show ?thesis by auto
  next
    case HandlePostSignal
    with assms obtain resp where post: "handlePostSignal wd r (hd vs) s = (resp, s')"
      by (auto simp: run_handler_def apfst_def map_prod_def split: prod.splits)
    from handlePostSignal_keeps [OF this] none show ?thesis by (auto simp: signal_steps_ok)
  next
    case HandleGetSignal
    with assms have "handleGetSignal wd r (hd vs) s = (out, s')" by (simp add: run_handler_def)
    from handleGetSignal_keeps [OF this] none show ?thesis by (auto simp: signal_steps_ok)
  qed (use assms none in \<open>auto simp: run_handler_def\<close>)
qed

lemma service_store:
  assumes "service_ok s"
  shows "\<exists>x. op_time x = service_time e \<and> sv_store (service_step C e s) = store_step x (sv_store s)"
proof -
  have none: "\<exists>x. op_time x = t \<and> db = store_step x db" for t db
    by (rule exI [of _ "OpCount t"]) simp
  show ?thesis
  proof (cases e)
    case (ERequest wd r)
    show ?thesis
    proof (cases "mux_dispatch (sv_mux s) r")
      case (Found h vs)
      obtain out s' where "run_handler C wd r h vs s = (out, s')" by fastforce
      with request_store [OF this] Found ERequest show ?thesis by (simp add: ServeHTTP_def)
    qed (use none ERequest in \<open>simp_all add: ServeHTTP_def\<close>)
  next
    case (ESweepRecords fault t)
    show ?thesis
    proof (cases fault)
      case True
      with ESweepRecords none show ?thesis by (simp add: SweepRecords_def store_Sweep_def)
    next
      case False
      with ESweepRecords show ?thesis
        by (intro exI [of _ "OpSweep (time_Unix t)"]) (simp add: SweepRecords_def split_beta)
    qed
  qed (use none in \<open>auto simp: resume_def Drain_def SweepLimiter_def split: option.splits prod.splits\<close>)
qed

lemma Get_finish_steps_ok: "signal_ok st \<Longrightarrow> can_wake st w woken \<Longrightarrow> signal_ok (snd (Get_finish w woken st))"
  by (rule Get_finish_ok [OF _ prod.collapse [symmetric]])

lemma service_step_ok:
  assumes "service_ok s"
  shows "service_ok (service_step C e s)"
proof -
  obtain x where x: "sv_store (service_step C e s) = store_step x (sv_store s)"
    using service_store [OF assms] by blast
  have table: "table_ok (sv_store (service_step C e s))"
    unfolding x using assms by (intro store_step_ok) (simp add: service_ok_def)
  have rest: "sv_mux (service_step C e s) = sv_mux s \<and> limiter_ok (sv_limiter (service_step C e s)) \<and>
      (\<forall>st'. sv_signal (service_step C e s) = Some st' \<longrightarrow> signal_ok st')"
  proof (cases e)
    case (ERequest wd r)
    show ?thesis
    proof (cases "mux_dispatch (sv_mux s) r")
      case (Found h vs)
      obtain out s' where "run_handler C wd r h vs s = (out, s')" by fastforce
      with request_store [OF this] Found ERequest assms show ?thesis
        by (auto simp: ServeHTTP_def service_ok_def)
    qed (use assms ERequest in \<open>simp_all add: ServeHTTP_def service_ok_def\<close>)
  next
    case (EDrain t)
    with assms Shutdown_ok show ?thesis by (auto simp: Drain_def service_ok_def split: option.splits)
  next
    case (EResume t r w woken)
    with assms Get_finish_steps_ok show ?thesis
      by (auto simp: resume_def service_ok_def split: option.splits prod.splits) (metis snd_conv)
  next
    case (ESweepRecords fault t)
    with assms show ?thesis by (auto simp: SweepRecords_def service_ok_def split: prod.splits)
  next
    case (ESweepLimiter t)
    with assms show ?thesis by (auto simp: SweepLimiter_def service_ok_def)
  qed
  with table assms show ?thesis by (simp add: service_ok_def)
qed

interpretation svc: recency_store "service_step C" service_ok "\<lambda>t s. live_row t (sv_store s)"
  r_expires service_time
proof unfold_locales
  fix x s
  assume "service_ok s"
  then show "service_ok (service_step C x s)" by (rule service_step_ok)
next
  fix t s i r
  assume "live_row t (sv_store s) i = Some r"
  then show "t < r_expires r" by (rule st.live_expiry)
next
  fix s x t i r
  assume s: "service_ok s" "service_time x \<le> t" "live_row t (sv_store s) i = Some r"
  obtain y where y: "op_time y = service_time x" "sv_store (service_step C x s) = store_step y (sv_store s)"
    using service_store [OF s(1)] by blast
  from s y st.live_step [of "sv_store s" y t i r]
  show "\<exists>r'. live_row t (sv_store (service_step C x s)) i = Some r' \<and> (r' = r \<or> r_expires r < r_expires r')"
    by (simp add: service_ok_def)
qed

text \<open>The server \<open>New\<close> builds satisfies the invariant, and every event keeps it.\<close>

lemma api_New_ok:
  assumes "api_New cfg = Inr s" and "\<And>db. cfg_Store cfg = Some db \<Longrightarrow> table_ok db"
    and "\<And>st. cfg_Signal cfg = Some st \<Longrightarrow> signal_ok st" and "\<And>l. cfg_Limiter cfg = Some l \<Longrightarrow> limiter_ok l"
  shows "service_ok s"
proof -
  have "sv_store (route t) = sv_store t" "sv_signal (route t) = sv_signal t"
    "sv_limiter (route t) = sv_limiter t" for t
    by (simp_all add: route_def handle_def)
  with assms show ?thesis
    by (auto simp: api_New_def service_ok_def route_mux split: option.splits if_splits)
qed

section \<open>The surface\<close>

text \<open>The operations of the specification, by method and path segments.\<close>

definition operation :: "string \<Rightarrow> string list \<Rightarrow> (handler \<times> string list) option" where
  "operation m segs =
    (case segs of
       [a, b] \<Rightarrow>
         if a = ''v1'' \<and> b = ''meta'' then
           (if m = ''GET'' \<or> m = ''HEAD'' then Some (HandleMeta, []) else None)
         else if a = ''v1'' \<and> b = ''record'' then
           (if m = ''PUT'' then Some (HandlePutRecord, [])
            else if m = ''GET'' \<or> m = ''HEAD'' then Some (HandleGetRecord, [])
            else if m = ''OPTIONS'' then Some (Preflight ''GET, PUT, OPTIONS'', []) else None)
         else None
     | [a, b, c] \<Rightarrow>
         if a = ''v1'' \<and> b = ''signal'' \<and> c \<noteq> [] \<and> c \<noteq> ''/'' then
           (if m = ''POST'' then Some (HandlePostSignal, [c])
            else if m = ''GET'' \<or> m = ''HEAD'' then Some (HandleGetSignal, [c])
            else if m = ''OPTIONS'' then Some (Preflight ''GET, POST, OPTIONS'', [c]) else None)
         else None
     | _ \<Rightarrow> None)"

lemma pattern_paths:
  "segments (pattern_path ''GET /v1/meta'') = [''v1'', ''meta'']"
  "segments (pattern_path ''PUT /v1/record'') = [''v1'', ''record'']"
  "segments (pattern_path ''GET /v1/record'') = [''v1'', ''record'']"
  "segments (pattern_path ''OPTIONS /v1/record'') = [''v1'', ''record'']"
  "segments (pattern_path ''POST /v1/signal/{channel_id}'') = [''v1'', ''signal'', ''{channel_id}'']"
  "segments (pattern_path ''GET /v1/signal/{channel_id}'') = [''v1'', ''signal'', ''{channel_id}'']"
  "segments (pattern_path ''OPTIONS /v1/signal/{channel_id}'') = [''v1'', ''signal'', ''{channel_id}'']"
  by code_simp+

lemma pattern_methods:
  "pattern_method ''GET /v1/meta'' = ''GET''" "pattern_method ''PUT /v1/record'' = ''PUT''"
  "pattern_method ''GET /v1/record'' = ''GET''" "pattern_method ''OPTIONS /v1/record'' = ''OPTIONS''"
  "pattern_method ''POST /v1/signal/{channel_id}'' = ''POST''"
  "pattern_method ''GET /v1/signal/{channel_id}'' = ''GET''"
  "pattern_method ''OPTIONS /v1/signal/{channel_id}'' = ''OPTIONS''"
  by code_simp+

lemma match_two:
  "take 1 p \<noteq> ''{'' \<Longrightarrow> take 1 q \<noteq> ''{'' \<Longrightarrow> match_segments [p, q] ss = (if ss = [p, q] then Some [] else None)"
  by (cases ss; cases "tl ss"; cases "tl (tl ss)") auto

lemma match_three:
  "take 1 p \<noteq> ''{'' \<Longrightarrow> take 1 q \<noteq> ''{'' \<Longrightarrow> take 1 w = ''{'' \<Longrightarrow> match_segments [p, q, w] ss =
    (case ss of [a, b, c] \<Rightarrow> if a = p \<and> b = q \<and> c \<noteq> [] \<and> c \<noteq> ''/'' then Some [c] else None | _ \<Rightarrow> None)"
  by (cases ss; cases "tl ss"; cases "tl (tl ss)"; cases "tl (tl (tl ss))") auto

lemma mux_find_operation:
  "mux_find api_mux m path = operation m (map segment_value (segments path))"
proof -
  define ss where "ss = map segment_value (segments path)"
  have lit: "take 1 ''v1'' \<noteq> ''{''" "take 1 ''meta'' \<noteq> ''{''" "take 1 ''record'' \<noteq> ''{''"
    "take 1 ''signal'' \<noteq> ''{''" "take 1 ''{channel_id}'' = ''{''" by simp_all
  note m2 = match_two [OF lit(1,2)] match_two [OF lit(1,3)] and m3 = match_three [OF lit(1,4,5)]
  consider (two) a b where "ss = [a, b]" | (three) a b c where "ss = [a, b, c]"
    | (other) "\<forall>a b. ss \<noteq> [a, b]" "\<forall>a b c. ss \<noteq> [a, b, c]" by blast
  then have "mux_find api_mux m path = operation m ss"
  proof cases
    case two
    then show ?thesis
      by (simp add: api_mux_def match_path_def ss_def [symmetric] pattern_paths method_matches_def pattern_methods
        m2 m3 operation_def del: match_segments.simps)
  next
    case three
    then show ?thesis
      by (simp add: api_mux_def match_path_def ss_def [symmetric] pattern_paths method_matches_def pattern_methods
        m2 m3 operation_def del: match_segments.simps)
  next
    case other
    then have "operation m ss = None" "ss \<noteq> [''v1'', ''meta'']" "ss \<noteq> [''v1'', ''record'']"
      "match_segments [''v1'', ''signal'', ''{channel_id}''] ss = None"
      by (auto simp: operation_def m3 split: list.splits)
    then show ?thesis
      by (simp add: api_mux_def match_path_def ss_def [symmetric] pattern_paths m2 del: match_segments.simps)
  qed
  then show ?thesis by (simp add: ss_def)
qed

text \<open>
  C32. The surface is the four operations and their preflights: whatever the method and the path,
  a request is either one of them, by the table above, or leaves the server as it was and draws
  the dispatcher's own 301, 404 or 405.
\<close>

theorem surface_is_the_table:
  assumes "service_ok s" and "ServeHTTP C wd r s = (out, s')"
  shows "operation (rq_method r) (map segment_value (segments (rq_path r))) \<noteq> None \<or>
    s' = s \<and> (\<exists>resp. out = Answered resp \<and> rs_status resp \<in> {301, 404, 405})"
proof -
  have mux: "sv_mux s = api_mux" using assms(1) by (simp add: service_ok_def)
  show ?thesis
  proof (cases "mux_dispatch api_mux r")
    case (Found h vs)
    then show ?thesis
      by (auto simp: mux_dispatch_def mux_find_operation Let_def split: if_splits option.splits)
  qed (use assms(2) mux in \<open>auto simp: ServeHTTP_def status_only_def method_not_allowed_def
    http_Error_def with_headers_def Let_def status_defs\<close>)
qed

section \<open>Where the stored records come from\<close>

text \<open>The row an event publishes: that of a request to the publish route whose body the pipeline accepts.\<close>

fun publishes :: "crypto \<Rightarrow> Limits \<Rightarrow> service_event \<Rightarrow> row \<Rightarrow> bool" where
  "publishes C lim (ERequest wd r) row \<longleftrightarrow>
    mux_dispatch api_mux r = Found HandlePutRecord [] \<and>
    (case accept_Check C (rq_body r) (time_Unix (wd_now wd)) lim False of
       (reason, Some d) \<Rightarrow> reason = RecordAccepted \<and> row = row_of_record (stored_record d (rq_body r))
     | _ \<Rightarrow> False)"
| "publishes C lim _ row = False"

text \<open>
  At most one byte over the limit is read, and what is accepted is nevertheless the whole body:
  a body that was cut is too large.
\<close>

lemma accepted_body_whole:
  assumes "readLimited r (i64 (m + 1)) = Some body" and "is_i64 m" and "int (length body) \<le> m"
    and "body \<noteq> []"
  shows "body = rq_body r"
proof (cases "nat (i64 (m + 1)) \<le> length (rq_body r)")
  case True
  with assms(1) have len: "length body = nat (i64 (m + 1))" by (auto simp: readLimited_def)
  have "m \<noteq> 2 ^ 63 - 1" using len assms(4) by (auto simp: i64_def)
  with assms(2) have "i64 (m + 1) = m + 1" by (intro i64_id) (auto simp: is_i64_def)
  with len assms(3,4) show ?thesis by (cases "0 \<le> m + 1") simp_all
next
  case False
  with assms(1) show ?thesis by (auto simp: readLimited_def split: if_splits)
qed

lemma stored_body:
  assumes "readLimited r (i64 (MaxRecordBytes lim + 1)) = Some body" and "is_i64 (MaxRecordBytes lim)"
    and "accept_Check C body t lim False = (RecordAccepted, Some d)"
  shows "body = rq_body r"
proof -
  have "body \<noteq> []" "int (length body) \<le> MaxRecordBytes lim"
    using accepted_storable [OF assms(3)] assms(3) by (auto simp: storable_def stored_record_def accept_Check_iff)
  then show ?thesis using accepted_body_whole [OF assms(1,2)] by simp
qed

lemma exec_put_rows: "set (snd (exec_put x now db)) \<subseteq> insert x (set db)"
  by (induction db) (auto split: prod.splits if_splits)

lemma put_table_rows: "set (put_table rec now db) \<subseteq> insert (row_of_record rec) (set db)"
  using exec_put_rows by (auto simp: put_table_def store_Put_exec)

lemma sweep_rows: "set (sv_store (snd (SweepRecords fault t s))) \<subseteq> set (sv_store s)"
  by (auto simp: SweepRecords_def store_Sweep_def exec_sweep_def split: prod.splits if_splits)

text \<open>No route has a value for the publish handler.\<close>

lemma put_values: "mux_dispatch api_mux r = Found HandlePutRecord vs \<Longrightarrow> vs = []"
  by (auto simp: mux_dispatch_def mux_find_operation operation_def Let_def split: if_splits option.splits list.splits)

lemma run_handler_keeps:
  assumes "run_handler C wd r h vs s = (out, s')"
  shows "sv_limits s' = sv_limits s \<and> (h \<noteq> HandlePutRecord \<longrightarrow> sv_store s' = sv_store s)"
proof (cases h)
  case HandlePutRecord
  with assms obtain resp where "handlePutRecord C wd r s = (resp, s')"
    by (auto simp: run_handler_def apfst_def map_prod_def split: prod.splits)
  then show ?thesis using HandlePutRecord by (cases rule: handlePutRecord_cases) simp_all
next
  case HandleGetRecord
  with assms obtain resp where "handleGetRecord wd r s = (resp, s')"
    by (auto simp: run_handler_def apfst_def map_prod_def split: prod.splits)
  from handleGetRecord_cases [OF this] show ?thesis by auto
next
  case HandlePostSignal
  with assms obtain resp where "handlePostSignal wd r (hd vs) s = (resp, s')"
    by (auto simp: run_handler_def apfst_def map_prod_def split: prod.splits)
  from handlePostSignal_keeps [OF this] show ?thesis by simp
next
  case HandleGetSignal
  with assms have "handleGetSignal wd r (hd vs) s = (out, s')" by (simp add: run_handler_def)
  from handleGetSignal_keeps [OF this] show ?thesis by simp
qed (use assms in \<open>auto simp: run_handler_def\<close>)

lemma service_step_limits: "sv_limits (service_step C e s) = sv_limits s"
proof (cases e)
  case (ERequest wd r)
  show ?thesis
  proof (cases "mux_dispatch (sv_mux s) r")
    case (Found h vs)
    obtain out s' where "run_handler C wd r h vs s = (out, s')" by fastforce
    with run_handler_keeps [OF this] Found ERequest show ?thesis by (simp add: ServeHTTP_def)
  qed (simp_all add: ERequest ServeHTTP_def)
qed (auto simp: resume_def Drain_def SweepRecords_def SweepLimiter_def split: option.splits prod.splits)

lemma step_rows:
  assumes "service_ok s" and "is_i64 (MaxRecordBytes (sv_limits s))" and "row \<in> set (sv_store (service_step C e s))"
  shows "row \<in> set (sv_store s) \<or> publishes C (sv_limits s) e row"
proof (cases e)
  case (ERequest wd r)
  have mux: "sv_mux s = api_mux" using assms(1) by (simp add: service_ok_def)
  show ?thesis
  proof (cases "mux_dispatch api_mux r")
    case (Found h vs)
    obtain out s' where run: "run_handler C wd r h vs s = (out, s')" by fastforce
    with Found ERequest mux assms(3) have row: "row \<in> set (sv_store s')" by (simp add: ServeHTTP_def)
    show ?thesis
    proof (cases "h = HandlePutRecord")
      case True
      with run obtain resp where "handlePutRecord C wd r s = (resp, s')"
        by (auto simp: run_handler_def apfst_def map_prod_def split: prod.splits)
      then show ?thesis
      proof (cases rule: handlePutRecord_cases)
        case (refused l)
        with row show ?thesis by simp
      next
        case (stored l body d)
        have "body = rq_body r" by (rule stored_body [OF stored(3) assms(2) stored(4)])
        with row stored(4,7) put_table_rows [of "stored_record d body" "time_Unix (wd_now wd)" "sv_store s"]
        show ?thesis using Found True put_values [of r vs] ERequest by auto
      qed
    next
      case False
      with run_handler_keeps [OF run] row show ?thesis by simp
    qed
  qed (use assms(3) ERequest mux in \<open>simp_all add: ServeHTTP_def\<close>)
next
  case (ESweepRecords fault t)
  with assms(3) sweep_rows [of fault t s] show ?thesis by auto
qed (use assms(3) in \<open>auto simp: resume_def Drain_def SweepLimiter_def split: option.splits prod.splits if_splits\<close>)

lemma run_rows:
  assumes "service_ok s" and "is_i64 (MaxRecordBytes (sv_limits s))"
    and "row \<in> set (sv_store (run_ops (service_step C) es s))"
  shows "row \<in> set (sv_store s) \<or> (\<exists>e \<in> set es. publishes C (sv_limits s) e row)"
  using assms
proof (induction es arbitrary: s)
  case (Cons e es)
  have "row \<in> set (sv_store (service_step C e s)) \<or> (\<exists>e \<in> set es. publishes C (sv_limits s) e row)"
    using Cons.IH [of "service_step C e s"] Cons.prems service_step_ok by (simp add: service_step_limits)
  with step_rows [OF Cons.prems(1,2)] show ?case by auto
qed simp

section \<open>From a publish to a lookup\<close>

lemma request_query_parse:
  "request_query r cnt = Inr q \<Longrightarrow> \<exists>p pp b bp. query_Parse p pp b bp (query_Cap cnt) = Inr q"
  by (auto simp: request_query_def Let_def split: prod.splits)

lemma query_Parse_cap:
  "query_Parse p pp b bp m = Inr q \<Longrightarrow> query_Parse p pp b bp n = Inr q' \<Longrightarrow> q = q'"
  by (auto simp: query_Parse_def Let_def split: if_splits option.splits)

lemma request_query_cap: "request_query r m = Inr q \<Longrightarrow> request_query r n = Inr q' \<Longrightarrow> q = q'"
  by (auto simp: request_query_def Let_def split: prod.splits dest: query_Parse_cap)

lemma ServeHTTP_put:
  assumes "service_ok s" and "mux_dispatch api_mux r = Found HandlePutRecord []"
    and "ServeHTTP C wd r s = (Answered resp, s')"
  shows "\<exists>resp0. handlePutRecord C wd r s = (resp0, s') \<and> resp = with_headers (cors r) resp0"
  using assms
  by (cases "handlePutRecord C wd r s") (auto simp: ServeHTTP_def run_handler_def service_ok_def)

lemma ServeHTTP_get:
  assumes "service_ok s" and "mux_dispatch api_mux r = Found HandleGetRecord []"
    and "ServeHTTP C wd r s = (Answered resp, s')"
  shows "\<exists>resp0. handleGetRecord wd r s = (resp0, s') \<and> resp = with_headers (cors r) resp0"
  using assms
  by (cases "handleGetRecord wd r s") (auto simp: ServeHTTP_def run_handler_def service_ok_def)

lemma with_headers_simps [simp]:
  "rs_status (with_headers hs resp) = rs_status resp" "rs_body (with_headers hs resp) = rs_body resp"
  "rs_headers (with_headers hs resp) = hs @ rs_headers resp"
  by (simp_all add: with_headers_def)

lemma live_row_iff:
  assumes "table_ok db"
  shows "live_row t db i = Some row \<longleftrightarrow> row \<in> set db \<and> r_lookup row = i \<and> t < r_expires row"
proof -
  have "live_row t db i = Some row \<longleftrightarrow> row_of db i = Some row \<and> t < r_expires row"
    by (auto simp: live_row_def split: option.splits)
  then show ?thesis by (simp add: row_of_iff [OF assms])
qed

lemma put_accepted_live:
  assumes "put_reason rec now db = RecordAccepted" and "t < sr_ExpiresAt rec"
  shows "live_row t (put_table rec now db) (sr_LookupID rec) = Some (row_of_record rec)"
  using assms by (simp add: put_live_row)

text \<open>The rows a lookup is to answer with, by identifier.\<close>

definition answer_rows :: "int \<Rightarrow> query \<Rightarrow> table \<Rightarrow> row list" where
  "answer_rows now q db = sort_key r_lookup [r \<leftarrow> db. now < r_expires r \<and> query_Matches q (r_lookup r)]"

lemma lookup_answers:
  assumes "table_ok db" "request_query r n = Inr q" "store_ByPrefix False q t db = Inr envs"
  shows "envs = map r_envelope (answer_rows t q db)"
proof -
  obtain p pp b bp c where "query_Parse p pp b bp c = Inr q" using request_query_parse [OF assms(2)] by blast
  from ByPrefix_exact [OF assms(1) this, of t] assms(3) show ?thesis by (simp add: answer_rows_def)
qed

text \<open>
  What the store holds of an identifier after a publish that was accepted, and after any events
  that follow it: the record, or one that a later event published and that expires later.
\<close>

lemma stored_survives:
  assumes "service_ok s1" "is_i64 (MaxRecordBytes (sv_limits s1))" "sv_store s1 = put_table rec now db"
    "put_reason rec now db = RecordAccepted" "t < sr_ExpiresAt rec" "\<forall>e \<in> set es. service_time e \<le> t"
  shows "\<exists>row \<in> set (sv_store (run_ops (service_step C) es s1)). r_lookup row = sr_LookupID rec \<and> t < r_expires row \<and>
    (row = row_of_record rec \<or> (\<exists>e \<in> set es. publishes C (sv_limits s1) e row) \<and> sr_ExpiresAt rec < r_expires row)"
proof -
  have first: "live_row t (sv_store s1) (sr_LookupID rec) = Some (row_of_record rec)"
    unfolding assms(3) by (rule put_accepted_live [OF assms(4,5)])
  then obtain row where row: "live_row t (sv_store (run_ops (service_step C) es s1)) (sr_LookupID rec) = Some row"
    "row = row_of_record rec \<or> r_expires (row_of_record rec) < r_expires row"
    using svc.no_rollback [OF assms(1,6)] by blast
  moreover have "table_ok (sv_store (run_ops (service_step C) es s1))"
    using svc.run_inv [OF assms(1)] by (simp add: service_ok_def)
  ultimately have mem: "row \<in> set (sv_store (run_ops (service_step C) es s1))" "r_lookup row = sr_LookupID rec" "t < r_expires row"
    by (simp_all add: live_row_iff)
  have "row = row_of_record rec" if "row \<in> set (sv_store s1)"
    using that first mem(2,3) assms(1) live_row_iff [of "sv_store s1" t "sr_LookupID rec" row] by (simp add: service_ok_def)
  with run_rows [OF assms(1,2) mem(1)] row(2) mem show ?thesis by (auto simp: row_of_record_def)
qed

text \<open>
  C29. What was published is served. Take a publish answered with 204, any other requests, polls,
  sweeps and failures after it, and then a lookup answered with 200 before the record expires,
  whose prefix matches the record's identifier. The lookup answers with the envelopes of exactly
  the records that are stored, live and match, in order; among them is one of the published
  identifier, and it is the body of the publish byte for byte, unless one of the requests in
  between published another envelope for that identifier which expires later, and it is that one.
\<close>

theorem published_is_served:
  assumes "service_ok s" and "is_i64 (MaxRecordBytes (sv_limits s))"
    and "mux_dispatch api_mux r = Found HandlePutRecord []"
    and "ServeHTTP C wd r s = (Answered resp, s1)" and "rs_status resp = StatusNoContent"
    and "\<forall>e \<in> set es. service_time e \<le> time_Unix (wd_now wd')"
    and "mux_dispatch api_mux r' = Found HandleGetRecord []"
    and "ServeHTTP C wd' r' (run_ops (service_step C) es s1) = (Answered resp', s2)"
    and "rs_status resp' = StatusOK"
  shows "\<exists>d. accept_Check C (rq_body r) (time_Unix (wd_now wd)) (sv_limits s) False = (RecordAccepted, Some d) \<and>
    (\<forall>q cnt. time_Unix (wd_now wd') < d_ExpiresAt d \<and> request_query r' cnt = Inr q \<and>
        query_Matches q (d_LookupID d) \<longrightarrow>
      (let rows = answer_rows (time_Unix (wd_now wd')) q (sv_store (run_ops (service_step C) es s1)) in
       rs_body resp' = records_text (map r_envelope rows) \<and>
       (\<exists>row \<in> set rows. r_lookup row = d_LookupID d \<and>
         (r_envelope row = rq_body r \<or>
          d_ExpiresAt d < r_expires row \<and> (\<exists>e \<in> set es. publishes C (sv_limits s) e row)))))"
proof -
  let ?now = "time_Unix (wd_now wd)" and ?t = "time_Unix (wd_now wd')"
  let ?mid = "run_ops (service_step C) es s1"
  obtain resp0 where put: "handlePutRecord C wd r s = (resp0, s1)" "rs_status resp0 = StatusNoContent"
    using ServeHTTP_put [OF assms(1,3,4)] assms(5) by auto
  have s1: "s1 = service_step C (ERequest wd r) s" using assms(4) by simp
  have ok1: "service_ok s1" unfolding s1 by (rule service_step_ok [OF assms(1)])
  have lim1: "sv_limits s1 = sv_limits s" unfolding s1 by (rule service_step_limits)
  have mid: "service_ok ?mid" by (rule svc.run_inv [OF ok1])
  obtain respG where get: "handleGetRecord wd' r' ?mid = (respG, s2)" "rs_status respG = StatusOK"
    "rs_body resp' = rs_body respG"
    using ServeHTTP_get [OF mid assms(7,8)] assms(9) by auto
  from handleGetRecord_cases [OF get(1)] get(2) obtain q0 envs n where
    q0: "request_query r' n = Inr q0" "store_ByPrefix False q0 ?t (sv_store ?mid) = Inr envs"
    "rs_body respG = records_text envs" by auto
  from put(1) show ?thesis
  proof (cases rule: handlePutRecord_cases)
    case (refused l)
    with put(2) show ?thesis by simp
  next
    case (stored l body d)
    let ?rec = "stored_record d (rq_body r)"
    have body: "body = rq_body r" by (rule stored_body [OF stored(3) assms(2) stored(4)])
    note stored = stored [unfolded body]
    have answered: "rs_body resp' = records_text (map r_envelope (answer_rows ?t q0 (sv_store ?mid)))"
      using lookup_answers [OF _ q0(1,2)] mid q0(3) get(3) by (simp add: service_ok_def)
    have "\<exists>row \<in> set (answer_rows ?t q0 (sv_store ?mid)). r_lookup row = d_LookupID d \<and>
        (r_envelope row = rq_body r \<or> d_ExpiresAt d < r_expires row \<and> (\<exists>e \<in> set es. publishes C (sv_limits s) e row))"
      if "?t < d_ExpiresAt d" "query_Matches q0 (d_LookupID d)"
    proof -
      have "sv_store s1 = put_table ?rec ?now (sv_store s)" using stored(7) by simp
      from stored_survives [OF ok1 assms(2) [folded lim1] this stored(5) _ assms(6)] that show ?thesis
        by (fastforce simp: answer_rows_def row_of_record_def stored_record_def lim1)
    qed
    moreover have "q = q0" if "request_query r' m = Inr q" for q m using request_query_cap that q0(1) by blast
    ultimately show ?thesis using stored(4) answered unfolding Let_def by blast
  qed
qed

text \<open>What is read of a body, and what storing an accepted envelope comes to.\<close>

lemma readLimited_next:
  assumes "0 \<le> m" "m < 2 ^ 63 - 1"
  shows "readLimited r (i64 (m + 1)) =
    (if m < int (length (rq_body r)) then Some (take (nat (m + 1)) (rq_body r))
     else if rq_body_fails r then None else Some (rq_body r))"
proof -
  have "i64 (m + 1) = m + 1" using assms by (intro i64_id) (simp add: is_i64_def)
  with assms(1) show ?thesis by (auto simp: readLimited_def)
qed

lemma store_Put_storable:
  assumes "storable rec"
  shows "store_Put False rec t db = (put_reason rec t db, None, put_table rec t db)"
    and "put_reason rec t db \<in> {RecordAccepted, RecordNotNewer}"
    and "\<exists>e. store_Put True rec t db = (RecordMalformed, Some e, db)"
  using assms by (auto simp: put_reason_def put_table_def store_Put_exec store_Put_def storable_def LookupIDLen_def Let_def
    split: prod.split)

text \<open>
  C31. How a publish is answered: the first condition that holds, in the order of the table, among
  the exhausted allowance, a body within the limit that could not be read, the rows of the
  pipeline on the body as transmitted, a failing database and a stored record that is at least
  as new; 204 when none does. The table of records changes only then, and nothing but the
  limiter changes otherwise.
\<close>

theorem publish_table:
  fixes s r wd C
  defines "t \<equiv> time_Unix (wd_now wd)" and "lim \<equiv> sv_limits s"
    and "sz \<equiv> int (length (rq_body r))"
  defines "chk \<equiv> accept_Check C (rq_body r) t lim False"
  assumes "0 \<le> MaxRecordBytes lim" and "MaxRecordBytes lim < 2 ^ 63 - 1"
    and "handlePutRecord C wd r s = (resp, s')"
  shows "rs_status resp = first_failing
      [(\<not> fst (limiter_Allow (sv_limiter s) (client_of r s) ClassPutRecord (wd_now wd)), 429),
       (rq_body_fails r \<and> sz \<le> MaxRecordBytes lim, 400),
       (fst chk \<noteq> RecordAccepted, RecordReason_HTTPStatus (fst chk)),
       (wd_put_fails wd, 500),
       (put_reason (stored_record (the (snd chk)) (rq_body r)) t (sv_store s) \<noteq> RecordAccepted, 409)] 204 \<and>
    (\<exists>l. s' = s\<lparr>sv_limiter := l, sv_store :=
      if rs_status resp = 204 then put_table (stored_record (the (snd chk)) (rq_body r)) t (sv_store s)
      else sv_store s\<rparr>)"
proof -
  define n where "n = nat (MaxRecordBytes lim + 1)"
  note read = readLimited_next [OF assms(5,6), of r, folded n_def sz_def]
  have cut: "accept_Check C (take n (rq_body r)) t lim False = (RecordTooLarge, None)"
    "chk = (RecordTooLarge, None)" if "MaxRecordBytes lim < sz"
    using that assms(5) by (simp_all add: accept_Check_def chk_def sz_def n_def)
  obtain ok s1 where a: "api_allow r ClassPutRecord (wd_now wd) s = (ok, s1)" by fastforce
  then obtain l where l: "s1 = s\<lparr>sv_limiter := l\<rparr>"
    "limiter_Allow (sv_limiter s) (client_of r s) ClassPutRecord (wd_now wd) = (ok, l)"
    using api_allow_keeps by blast
  note put = assms(7) [unfolded handlePutRecord_def Let_def a prod.case]
  have lim_l: "sv_limits s1 = lim" by (simp add: l lim_def)
  have not_204: "RecordReason_HTTPStatus x = 204 \<longleftrightarrow> x = RecordAccepted" for x
    using record_status_success_iff by (simp add: status_defs)
  show ?thesis
  proof (cases "ok \<and> fst chk = RecordAccepted \<and> sz \<le> MaxRecordBytes lim \<and> \<not> rq_body_fails r")
    case False
    with put a l read cut lim_l show ?thesis
      by (auto simp: not_204 status_only_def status_defs chk_def t_def [symmetric] split: if_splits prod.splits
        intro!: exI [of _ l])
  next
    case True
    then obtain d where d: "chk = (RecordAccepted, Some d)"
      using accept_Check_decoded [of C "rq_body r" t lim False "snd chk"] by (cases chk) (auto simp: chk_def)
    note st = accepted_storable [OF d [unfolded chk_def]]
    have body: "readLimited r (i64 (MaxRecordBytes lim + 1)) = Some (rq_body r)" using read True by simp
    note store = store_Put_storable [OF st, of t "sv_store s"]
    from put True d body lim_l l store put_table_refused [of "stored_record d (rq_body r)" t "sv_store s"] show ?thesis
      by (cases "wd_put_fails wd") (auto simp: status_only_def status_defs chk_def [symmetric] t_def [symmetric]
        stored_record_def [symmetric] intro!: exI [of _ l])
  qed
qed

section \<open>Every response, every state\<close>

lemma no_cors_headers:
  assumes "run_handler C wd r h vs s = (Answered resp, s')"
  shows "map_of (rs_headers resp) ''Access-Control-Allow-Origin'' = None \<and>
    map_of (rs_headers resp) ''Access-Control-Allow-Credentials'' = None"
  using assms
  by (cases h)
    (auto simp: run_handler_def apfst_def map_prod_def handleMeta_def handlePutRecord_def handleGetRecord_def
      handlePostSignal_def handleGetSignal_def preflight_def status_only_def get_outcome_def
      signal_reply_def Let_def split: sum.splits prod.splits option.splits if_splits get_result.splits)

lemma ServeHTTP_adds_cors:
  assumes "ServeHTTP C wd r s = (Answered resp, s')"
  shows "\<exists>resp0. resp = with_headers (cors r) resp0 \<and>
    map_of (rs_headers resp0) ''Access-Control-Allow-Origin'' = None \<and>
    map_of (rs_headers resp0) ''Access-Control-Allow-Credentials'' = None"
proof (cases "mux_dispatch (sv_mux s) r")
  case (Found h vs)
  obtain out s1 where run: "run_handler C wd r h vs s = (out, s1)" by fastforce
  with Found assms obtain resp0 where "out = Answered resp0" "resp = with_headers (cors r) resp0"
    by (cases out) (auto simp: ServeHTTP_def)
  with no_cors_headers [of C wd r h vs s] run show ?thesis by auto
qed (use assms in \<open>auto simp: ServeHTTP_def status_only_def method_not_allowed_def http_Error_def Let_def\<close>)

lemma resume_adds_cors:
  "\<exists>resp0 s'. resume r w woken s = (Answered (with_headers (cors r) resp0), s') \<and>
    map_of (rs_headers resp0) ''Access-Control-Allow-Origin'' = None \<and>
    map_of (rs_headers resp0) ''Access-Control-Allow-Credentials'' = None"
  by (auto simp: resume_def Get_finish_def take_blob_def get_outcome_def signal_reply_def status_only_def Let_def
    split: option.split)

text \<open>
  C33. Cross-origin access. Every answer to a path under \<open>/v1/\<close>, whether a handler or the
  dispatcher itself gives it at once or a long poll gets it when its wait ends, for whatever
  reason, carries \<open>Access-Control-Allow-Origin: *\<close>; no other answer does, and none ever allows
  credentials. A poll whose wait has ended is answered.
\<close>

theorem ServeHTTP_cors:
  assumes "ServeHTTP C wd r s = (Answered resp, s') \<or> resume r w woken s = (Answered resp, s')"
  shows "map_of (rs_headers resp) ''Access-Control-Allow-Origin'' =
      (if take 4 (url_path r) = ''/v1/'' then Some ''*'' else None) \<and>
    map_of (rs_headers resp) ''Access-Control-Allow-Credentials'' = None \<and>
    (\<exists>resp' s''. resume r w woken s = (Answered resp', s''))"
proof -
  obtain resp1 s1 where res: "resume r w woken s = (Answered (with_headers (cors r) resp1), s1)"
    "map_of (rs_headers resp1) ''Access-Control-Allow-Origin'' = None"
    "map_of (rs_headers resp1) ''Access-Control-Allow-Credentials'' = None"
    using resume_adds_cors by blast
  with assms ServeHTTP_adds_cors [of C wd r s resp s'] obtain resp0 where "resp = with_headers (cors r) resp0"
    "map_of (rs_headers resp0) ''Access-Control-Allow-Origin'' = None"
    "map_of (rs_headers resp0) ''Access-Control-Allow-Credentials'' = None" by auto
  with res(1) show ?thesis by (auto simp: cors_def)
qed

text \<open>
  C30. The invariants hold together. Starting from an empty database, a fresh limiter and fresh
  or absent signal channels, after any sequence of requests, wake-ups, sweeps and shutdowns the
  table of records has one well-formed row per identifier, the signal store's counters and
  channels are consistent, the limiter's table is within its bound, and the routes are the seven
  patterns \<open>New\<close> registered.
\<close>

theorem service_invariant:
  assumes "api_New cfg = Inr s" and "cfg_Store cfg = Some []"
    and "cfg_Limiter cfg = Some (limiter_New lopts)"
    and "cfg_Signal cfg \<in> {None, Some (signal_New sopts)}"
  shows "service_ok (run_ops (service_step C) es s)"
proof (rule svc.run_inv)
  show "service_ok s"
    by (rule api_New_ok [OF assms(1)]) (use assms New_ok in \<open>auto simp: table_ok_def\<close>)
qed

section \<open>A concrete service\<close>

definition demo_limiter :: limiter where
  "demo_limiter = limiter_New \<lparr>o_PutRecord = 0, o_GetRecord = 0, o_Signal = 0, o_Window = 0, o_MaxKeys = 0\<rparr>"

definition demo_config :: config where
  "demo_config = \<lparr>cfg_Store = Some [], cfg_Signal = Some demo_new, cfg_Limiter = Some demo_limiter,
    cfg_ClientAddr = Some [], cfg_Limits = sample_limits, cfg_SourceURL = DefaultSourceURL\<rparr>"

definition demo_server :: server where
  "demo_server = \<lparr>sv_store = [], sv_signal = Some demo_new, sv_limiter = demo_limiter, sv_client = [],
    sv_limits = sample_limits, sv_sourceURL = DefaultSourceURL, sv_mux = api_mux\<rparr>"

definition demo_world :: "int \<Rightarrow> world" where
  "demo_world t = \<lparr>wd_now = seconds t, wd_count_fails = False, wd_query_fails = False,
    wd_put_fails = False, wd_pick = 0\<rparr>"

definition demo_put :: request where
  "demo_put = \<lparr>rq_method = ''PUT'', rq_path = ''/v1/record'', rq_rawquery = [], rq_remote = ''192.0.2.7'',
    rq_forwarded = [], rq_body = envelope_text sample_published, rq_body_fails = False\<rparr>"

definition demo_get :: request where
  "demo_get = \<lparr>rq_method = ''GET'', rq_path = ''/v1/record'', rq_rawquery = ''bits=0'',
    rq_remote = ''192.0.2.7'', rq_forwarded = [], rq_body = [], rq_body_fails = False\<rparr>"

lemma demo_New: "api_New demo_config = Inr demo_server"
proof -
  have "TrimSpace DefaultSourceURL \<noteq> []" by code_simp
  then show ?thesis
    by (simp add: api_New_def demo_config_def demo_server_def sample_limits_def zero_limits_def
      route_def handle_def api_mux_def)
qed

lemma demo_server_ok: "service_ok demo_server"
  by (rule api_New_ok [OF demo_New])
    (simp_all add: demo_config_def table_ok_def demo_ok demo_limiter_def)

lemma demo_dispatch:
  "mux_dispatch api_mux demo_put = Found HandlePutRecord []"
  "mux_dispatch api_mux demo_get = Found HandleGetRecord []"
  by code_simp+

lemma demo_client: "peerAddr demo_put = Addr4 0xC0000207" "peerAddr demo_get = Addr4 0xC0000207"
  by (simp_all add: peerAddr_def demo_put_def demo_get_def ParseAddrPort_def splitAddrPort_def
    ParseAddr_def parse_ipv4_def parse_ipv4_fields_def dec_digit_def bytes_value_def)

lemma demo_client_of: "sv_client s = [] \<Longrightarrow> client_of r s = Unmap (peerAddr r)"
  by (simp add: client_of_def clientaddr_Addr_def)

definition demo_key :: "int \<Rightarrow> key" where
  "demo_key c = makeKey (Addr4 0xC0000207) c"

definition demo_limiter1 :: limiter where
  "demo_limiter1 = snd (limiter_Allow demo_limiter (Addr4 0xC0000207) ClassPutRecord (seconds 50))"

lemma demo_keys: "demo_key ClassPutRecord \<noteq> demo_key ClassGetRecord"
  by (simp add: demo_key_def makeKey_def Let_def class_defs)

lemma demo_allow1:
  "limiter_Allow demo_limiter (Addr4 0xC0000207) ClassPutRecord (seconds 50) = (True, demo_limiter1)"
  "fst (limiter_Allow demo_limiter1 (Addr4 0xC0000207) ClassGetRecord (seconds 60)) = True"
proof -
  have l1: "limiter_Allow demo_limiter (Addr4 0xC0000207) ClassPutRecord (seconds 50) =
      (True, demo_limiter\<lparr>l_state := Some \<lparr>t_keys = [(demo_key ClassPutRecord, \<lparr>c_start = seconds 50, c_n = 1\<rparr>)],
        t_nextSweep = seconds 500\<rparr>\<rparr>)"
    by (simp add: limiter_Allow_def demo_limiter_def limiter_New_def allow_table_def Ratelimit.sweepLocked_def
      map_retain_def limiter_defaults class_defs IsValid_def orIntDefault_def orDurationDefault_def
      zero_time_def Let_def demo_key_def)
  then show "limiter_Allow demo_limiter (Addr4 0xC0000207) ClassPutRecord (seconds 50) = (True, demo_limiter1)"
    by (simp add: demo_limiter1_def)
  show "fst (limiter_Allow demo_limiter1 (Addr4 0xC0000207) ClassGetRecord (seconds 60)) = True"
    unfolding demo_limiter1_def l1 snd_conv
    using demo_keys
    by (simp add: limiter_Allow_def demo_limiter_def limiter_New_def allow_table_def Ratelimit.sweepLocked_def
      limiter_defaults class_defs IsValid_def orIntDefault_def orDurationDefault_def
      Let_def flip: demo_key_def)
qed

text \<open>The publish is accepted and stored, and the lookup that follows is answered.\<close>

definition demo_published :: server where
  "demo_published = demo_server\<lparr>sv_limiter := demo_limiter1,
    sv_store := [row_of_record (stored_record sample_published (envelope_text sample_published))]\<rparr>"

lemma demo_size: "length (envelope_text sample_published) \<le> 4096"
  by (simp add: envelope_text_def text_of_members_def envelope_members_def object_text_def
    quoted_def sample_lengths Itoa_values)

lemma demo_accepted:
  "accept_Check toy_crypto (envelope_text sample_published) 50 sample_limits False =
    (RecordAccepted, Some sample_published)"
proof -
  have "is_i64 (d_ExpiresAt sample_published)" by (simp add: sample_lengths is_i64_def)
  from published_accepted [OF toy_sha256_ok toy_ed25519_ok sample_publishable
      accept_parse_envelope_text [OF this, unfolded sample_published_def]] demo_size
  show ?thesis by (simp add: sample_limits_def sample_published_def)
qed

lemma demo_put_run: "handlePutRecord toy_crypto (demo_world 50) demo_put demo_server = (status_only 204, demo_published)"
proof -
  have "api_allow demo_put ClassPutRecord (seconds 50) demo_server =
      (True, demo_server\<lparr>sv_limiter := demo_limiter1\<rparr>)"
    using demo_allow1(1) by (simp add: api_allow_def demo_client_of demo_client demo_server_def)
  moreover have "readLimited demo_put (i64 (MaxRecordBytes sample_limits + 1)) = Some (envelope_text sample_published)"
    using demo_size by (simp add: readLimited_def demo_put_def sample_limits_def i64_def)
  moreover have "store_Put False (stored_record sample_published (envelope_text sample_published)) 50 [] =
      (RecordAccepted, None, [row_of_record (stored_record sample_published (envelope_text sample_published))])"
    using accepted_storable [OF demo_accepted] by (simp add: store_Put_exec storable_def)
  ultimately show ?thesis
    using demo_accepted
    by (simp add: handlePutRecord_def demo_world_def time_Unix_def seconds_def demo_published_def
      demo_server_def status_defs flip: stored_record_def)
qed

lemma demo_put_served:
  "ServeHTTP toy_crypto (demo_world 50) demo_put demo_server =
    (Answered (with_headers (cors demo_put) (status_only 204)), demo_published)"
  by (simp add: ServeHTTP_def run_handler_def demo_dispatch demo_put_run)
    (simp add: demo_server_def demo_dispatch run_handler_def demo_put_run [unfolded demo_server_def])

lemma demo_query: "request_query demo_get cnt = Inr (newQuery [] 0)"
proof -
  have "url_Query ''bits=0'' = [(''bits'', [''0''])]" by code_simp
  then show ?thesis
    by (simp add: request_query_def single_def demo_get_def query_Parse_def ParseUint32_def
      is_digit_def digits_value_def LookupIDBits_def)
qed

lemma demo_get_served:
  "\<exists>resp s2. ServeHTTP toy_crypto (demo_world 60) demo_get demo_published = (Answered resp, s2) \<and>
    rs_status resp = StatusOK"
proof -
  obtain l where "api_allow demo_get ClassGetRecord (seconds 60) demo_published =
      (True, demo_published\<lparr>sv_limiter := l\<rparr>)"
    using demo_allow1(2)
    by (cases "limiter_Allow demo_limiter1 (Addr4 0xC0000207) ClassGetRecord (seconds 60)")
      (auto simp: api_allow_def demo_client_of demo_client demo_published_def demo_server_def)
  moreover have "\<not> repeated (url_Query (rq_rawquery demo_get)) k" for k
  proof -
    have "url_Query ''bits=0'' = [(''bits'', [''0''])]" by code_simp
    then show ?thesis by (simp add: repeated_def demo_get_def)
  qed
  ultimately have "rs_status (fst (handleGetRecord (demo_world 60) demo_get demo_published)) = StatusOK"
    by (simp add: handleGetRecord_def demo_world_def demo_query store_Count_def store_ByPrefix_def
      split: prod.split)
  moreover have "sv_mux demo_published = api_mux" by (simp add: demo_published_def demo_server_def)
  ultimately show ?thesis
    by (cases "handleGetRecord (demo_world 60) demo_get demo_published")
      (simp add: ServeHTTP_def run_handler_def demo_dispatch)
qed

lemma demo_unix: "time_Unix (wd_now (demo_world t)) = t"
  by (simp add: demo_world_def time_Unix_def seconds_def)

lemma demo_rows:
  "answer_rows 60 (newQuery [] 0) (sv_store demo_published) =
    [row_of_record (stored_record sample_published (envelope_text sample_published))]"
  by (simp add: answer_rows_def demo_published_def row_of_record_def stored_record_def sample_lengths newQuery_Matches agree_on_def)

theorem published_is_served_witness:
  "\<exists>resp s2. ServeHTTP toy_crypto (demo_world 60) demo_get demo_published = (Answered resp, s2) \<and>
    rs_body resp = records_text [envelope_text sample_published]"
proof -
  obtain resp s2 where get: "ServeHTTP toy_crypto (demo_world 60) demo_get demo_published = (Answered resp, s2)"
    "rs_status resp = StatusOK"
    using demo_get_served by blast
  have sv: "is_i64 (MaxRecordBytes (sv_limits demo_server))" "sv_limits demo_server = sample_limits"
    "rq_body demo_put = envelope_text sample_published"
    by (simp_all add: demo_server_def sample_limits_def is_i64_def demo_put_def)
  have "query_Matches (newQuery [] 0) (d_LookupID sample_published)"
    by (simp add: newQuery_Matches agree_on_def)
  with published_is_served [OF demo_server_ok sv(1) demo_dispatch(1) demo_put_served _ _ demo_dispatch(2),
      of "[]" "demo_world 60" resp s2] get sv demo_accepted demo_query
  show ?thesis by (auto simp: demo_unix sample_lengths status_only_def status_defs demo_rows Let_def
      row_of_record_def stored_record_def)
qed

theorem publish_table_witness:
  "\<exists>l. demo_published = demo_server\<lparr>sv_limiter := l,
    sv_store := put_table (stored_record sample_published (envelope_text sample_published)) 50 []\<rparr>"
proof -
  have sv: "sv_limits demo_server = sample_limits" "sv_store demo_server = []"
    "rq_body demo_put = envelope_text sample_published"
    by (simp_all add: demo_server_def demo_put_def)
  have "0 \<le> MaxRecordBytes (sv_limits demo_server)" "MaxRecordBytes (sv_limits demo_server) < 2 ^ 63 - 1"
    by (simp_all add: demo_server_def sample_limits_def)
  from conjunct2 [OF publish_table [OF this demo_put_run]] show ?thesis
    by (simp add: status_only_def demo_unix sv demo_accepted)
qed

definition demo_health :: request where
  "demo_health = demo_get\<lparr>rq_path := ''/healthz''\<rparr>"

theorem surface_is_the_table_witness:
  "\<exists>resp. ServeHTTP toy_crypto (demo_world 1) demo_health demo_server = (Answered resp, demo_server) \<and>
    rs_status resp \<in> {301, 404, 405}"
proof -
  obtain out s' where run: "ServeHTTP toy_crypto (demo_world 1) demo_health demo_server = (out, s')" by fastforce
  have "operation (rq_method demo_health) (map segment_value (segments (rq_path demo_health))) = None"
    by code_simp
  with surface_is_the_table [OF demo_server_ok run] run show ?thesis by auto
qed

text \<open>A poll, and the server on which it waits, as number 0.\<close>

definition demo_poll :: request where
  "demo_poll = demo_get\<lparr>rq_path := ''/v1/signal/'' @ demo_id, rq_rawquery := []\<rparr>"

definition demo_waiting :: server where
  "demo_waiting = demo_server\<lparr>sv_signal := Some demo_polled\<rparr>"

theorem ServeHTTP_cors_witness:
  "map_of (rs_headers (with_headers (cors demo_put) (status_only 204))) ''Access-Control-Allow-Origin'' = Some ''*'' \<and>
    (\<exists>resp s'. resume demo_poll 0 WokenByTimer demo_waiting = (Answered resp, s') \<and>
      map_of (rs_headers resp) ''Access-Control-Allow-Origin'' = Some ''*'')"
proof -
  have path: "take 4 (url_path demo_put) = ''/v1/''" "take 4 (url_path demo_poll) = ''/v1/''" by code_simp+
  note now = ServeHTTP_cors [OF disjI1 [OF demo_put_served]]
  obtain resp s' where later: "resume demo_poll 0 WokenByTimer demo_waiting = (Answered resp, s')"
    using resume_adds_cors by blast
  from now path(1) later ServeHTTP_cors [OF disjI2 [OF later]] path(2) show ?thesis by simp
qed

theorem service_invariant_witness:
  "service_ok (run_ops (service_step toy_crypto) [ERequest (demo_world 50) demo_put, EDrain (seconds 51)] demo_server)"
proof -
  have "\<exists>sopts. demo_new = signal_New sopts" by (simp add: demo_new_def) blast
  then obtain sopts where "demo_new = signal_New sopts" by blast
  then show ?thesis
    by (intro service_invariant [OF demo_New, where sopts = sopts])
      (simp_all add: demo_config_def demo_limiter_def)
qed

end
