(* ===== verification/Payload.thy ===== *)
theory Payload imports Accept begin

text \<open>
  The JSON of a record as a publisher writes it and a client reads it: the body of the payload
  (\<open>record/plaintext.go\<close>) and the envelope, as \<open>json.Marshal\<close> prints them, and \<open>json.Unmarshal\<close> into
  a body. Composite values are printed without white space; \<open>reads\<close> states that the parser of
  theory \<open>Json\<close> returns what was printed.
\<close>

section \<open>The body\<close>

definition EndpointLAN :: string where "EndpointLAN = ''lan''"
definition EndpointWAN4 :: string where "EndpointWAN4 = ''wan4''"
definition EndpointWAN6 :: string where "EndpointWAN6 = ''wan6''"
definition EndpointDNS :: string where "EndpointDNS = ''dns''"
definition TLSModePKI :: string where "TLSModePKI = ''pki''"
definition TLSModePinned :: string where "TLSModePinned = ''pinned''"

lemmas endpoint_types = EndpointLAN_def EndpointWAN4_def EndpointWAN6_def EndpointDNS_def

record Endpoint =
  ep_Type :: string
  ep_Host :: string
  ep_Port :: int

record TLSInfo =
  tls_Mode :: string
  tls_Fingerprint :: string

text \<open>
  A slice is nil or has its elements and, behind them, what an earlier and longer decode left in
  the same memory: \<open>encoding/json\<close> decodes into the elements it finds there.
\<close>

datatype 'a slice = NilSlice | Slice "'a list" "'a list"

fun elems :: "'a slice \<Rightarrow> 'a list" where
  "elems NilSlice = []"
| "elems (Slice xs stale) = xs"

fun memory :: "'a slice \<Rightarrow> 'a list" where
  "memory NilSlice = []"
| "memory (Slice xs stale) = xs @ stale"

record Body =
  b_V :: int
  b_TS :: int
  b_Endpoints :: "Endpoint slice"
  b_TLS :: TLSInfo
  b_Caps :: "string slice"

section \<open>Printing\<close>

definition array_text :: "string list \<Rightarrow> string" where
  "array_text ts = CHR ''['' # join '','' ts @ '']''"

definition slice_text :: "('a \<Rightarrow> string) \<Rightarrow> 'a slice \<Rightarrow> string" where
  "slice_text f s = (case s of NilSlice \<Rightarrow> ''null'' | Slice xs stale \<Rightarrow> array_text (map f xs))"

definition endpoint_text :: "Endpoint \<Rightarrow> string" where
  "endpoint_text e = object_text
    [(''type'', json_quote (ep_Type e)), (''host'', json_quote (ep_Host e)), (''port'', Itoa (ep_Port e))]"

definition tls_text :: "TLSInfo \<Rightarrow> string" where
  "tls_text t = object_text ((''mode'', json_quote (tls_Mode t)) #
    (if tls_Fingerprint t = [] then [] else [(''fingerprint'', json_quote (tls_Fingerprint t))]))"

definition marshal_body :: "Body \<Rightarrow> string" where
  "marshal_body b = object_text
    [(''v'', Itoa (b_V b)), (''ts'', Itoa (b_TS b)),
     (''endpoints'', slice_text endpoint_text (b_Endpoints b)),
     (''tls'', tls_text (b_TLS b)), (''caps'', slice_text json_quote (b_Caps b))]"

definition marshal_envelope :: "Envelope \<Rightarrow> string" where
  "marshal_envelope e = object_text
    [(''v'', Itoa (e_V e)), (''lookup_id'', json_quote (e_LookupID e)),
     (''wk_pub'', json_quote (e_WKPub e)), (''expires_at'', Itoa (e_ExpiresAt e)),
     (''ct'', json_quote (e_CT e)), (''nonce'', json_quote (e_Nonce e)),
     (''pow'', json_quote (e_PoW e)), (''sig'', json_quote (e_Sig e))]"

section \<open>Reading\<close>

text \<open>Members into the fields of a struct, in order; \<open>null\<close> leaves the struct as it is.\<close>

fun store_fields :: "(string \<times> json \<Rightarrow> 'a \<Rightarrow> 'a option) \<Rightarrow> (string \<times> json) list \<Rightarrow> 'a \<Rightarrow> 'a option" where
  "store_fields f [] x = Some x"
| "store_fields f (m # ms) x = (case f m x of None \<Rightarrow> None | Some y \<Rightarrow> store_fields f ms y)"

definition store_struct :: "(string \<times> json \<Rightarrow> 'a \<Rightarrow> 'a option) \<Rightarrow> json \<Rightarrow> 'a \<Rightarrow> 'a option" where
  "store_struct f v old =
    (case v of JObj ms \<Rightarrow> store_fields f ms old | JNull \<Rightarrow> Some old | _ \<Rightarrow> None)"

definition store_slice :: "(json \<Rightarrow> 'a \<Rightarrow> 'a option) \<Rightarrow> 'a \<Rightarrow> json \<Rightarrow> 'a slice \<Rightarrow> 'a slice option" where
  "store_slice f zero v old =
    (case v of
       JNull \<Rightarrow> Some NilSlice
     | JArr [] \<Rightarrow> Some (Slice [] [])
     | JArr (w # ws) \<Rightarrow>
         let n = length (w # ws); mem = memory old;
             into = take n mem @ replicate (n - length mem) zero
         in map_option (\<lambda>xs. Slice xs (drop n mem)) (those (map2 f (w # ws) into))
     | _ \<Rightarrow> None)"

definition endpoint_zero :: Endpoint where
  "endpoint_zero = \<lparr>ep_Type = [], ep_Host = [], ep_Port = 0\<rparr>"

definition endpoint_member :: "string \<times> json \<Rightarrow> Endpoint \<Rightarrow> Endpoint option" where
  "endpoint_member m e =
    (let v = snd m in
     case field_for [''type'', ''host'', ''port''] (fst m) of
       None \<Rightarrow> Some e
     | Some f \<Rightarrow>
         if f = ''type'' then map_option (\<lambda>x. e\<lparr>ep_Type := x\<rparr>) (store_string v (ep_Type e))
         else if f = ''host'' then map_option (\<lambda>x. e\<lparr>ep_Host := x\<rparr>) (store_string v (ep_Host e))
         else map_option (\<lambda>x. e\<lparr>ep_Port := x\<rparr>) (store_int64 v (ep_Port e)))"

definition tls_member :: "string \<times> json \<Rightarrow> TLSInfo \<Rightarrow> TLSInfo option" where
  "tls_member m t =
    (let v = snd m in
     case field_for [''mode'', ''fingerprint''] (fst m) of
       None \<Rightarrow> Some t
     | Some f \<Rightarrow>
         if f = ''mode'' then map_option (\<lambda>x. t\<lparr>tls_Mode := x\<rparr>) (store_string v (tls_Mode t))
         else map_option (\<lambda>x. t\<lparr>tls_Fingerprint := x\<rparr>) (store_string v (tls_Fingerprint t)))"

definition body_zero :: Body where
  "body_zero = \<lparr>b_V = 0, b_TS = 0, b_Endpoints = NilSlice,
    b_TLS = \<lparr>tls_Mode = [], tls_Fingerprint = []\<rparr>, b_Caps = NilSlice\<rparr>"

definition body_member :: "string \<times> json \<Rightarrow> Body \<Rightarrow> Body option" where
  "body_member m b =
    (let v = snd m in
     case field_for [''v'', ''ts'', ''endpoints'', ''tls'', ''caps''] (fst m) of
       None \<Rightarrow> Some b
     | Some f \<Rightarrow>
         if f = ''v'' then map_option (\<lambda>x. b\<lparr>b_V := x\<rparr>) (store_int64 v (b_V b))
         else if f = ''ts'' then map_option (\<lambda>x. b\<lparr>b_TS := x\<rparr>) (store_int64 v (b_TS b))
         else if f = ''endpoints'' then map_option (\<lambda>x. b\<lparr>b_Endpoints := x\<rparr>)
           (store_slice (store_struct endpoint_member) endpoint_zero v (b_Endpoints b))
         else if f = ''tls'' then map_option (\<lambda>x. b\<lparr>b_TLS := x\<rparr>) (store_struct tls_member v (b_TLS b))
         else map_option (\<lambda>x. b\<lparr>b_Caps := x\<rparr>) (store_slice store_string [] v (b_Caps b)))"

definition unmarshal_body :: "string \<Rightarrow> Body option" where
  "unmarshal_body s =
    (case json_parse s of None \<Rightarrow> None | Some v \<Rightarrow> store_struct body_member v body_zero)"

section \<open>Quoted strings\<close>

definition ascii :: "string \<Rightarrow> bool" where
  "ascii s \<longleftrightarrow> list_all (\<lambda>c. (of_char c :: nat) < 128) s"

lemma of_hex_char: "m < 16 \<Longrightarrow> (of_char (hex_char m) :: nat) = (if m < 10 then 48 + m else 87 + m)"
  by (simp add: hex_char_def)

lemma hex_val_char [simp]: "m < 16 \<Longrightarrow> hex_val (hex_char m) = Some m"
  by (simp add: hex_val_def of_hex_char)

lemma hex_val_0 [simp]: "hex_val CHR ''0'' = Some 0"
  by (simp add: hex_val_def)

lemma hex4_ascii: "n < 256 \<Longrightarrow>
    hex4 (CHR ''0'' # CHR ''0'' # hex_char (n div 16) # hex_char (n mod 16) # s) = Some n"
  by simp

lemma utf8_encode_ascii: "n < 128 \<Longrightarrow> utf8_encode n = [char_of n]"
  by (simp add: utf8_encode_def)

lemma char_codes:
  "c = CHR 0x08 \<longleftrightarrow> (of_char c :: nat) = 8" "c = CHR 0x09 \<longleftrightarrow> (of_char c :: nat) = 9"
  "c = CHR 0x0A \<longleftrightarrow> (of_char c :: nat) = 10" "c = CHR 0x0C \<longleftrightarrow> (of_char c :: nat) = 12"
  "c = CHR 0x0D \<longleftrightarrow> (of_char c :: nat) = 13"
  by (subst of_char_eq_iff [symmetric, where ?'a = nat], simp)+

text \<open>An escape is the character itself, a letter after a backslash, or four hexadecimal digits.\<close>

lemma escape_ascii_cases:
  assumes "(of_char c :: nat) < 128"
  obtains (same) "escape_ascii c = [c]" "c \<noteq> CHR 0x22" "c \<noteq> CHR 0x5C" "32 \<le> (of_char c :: nat)"
  | (letter) e where "escape_ascii c = [CHR 0x5C, e]" "simple_escape e = c" "e \<noteq> CHR ''u''"
      "e \<in> {CHR 0x22, CHR 0x5C, CHR ''/'', CHR ''b'', CHR ''f'', CHR ''n'', CHR ''r'', CHR ''t''}"
  | (code) "escape_ascii c = CHR 0x5C # CHR ''u'' # CHR ''0'' # CHR ''0'' #
      [hex_char (of_char c div 16), hex_char (of_char c mod 16)]"
proof -
  let ?n = "of_char c :: nat"
  consider "c = CHR 0x22 \<or> c = CHR 0x5C" | "?n \<in> {8, 9, 10, 12, 13}"
    | "c \<noteq> CHR 0x22" "c \<noteq> CHR 0x5C" "?n \<notin> {8, 9, 10, 12, 13}"
        "?n < 32 \<or> c = CHR ''<'' \<or> c = CHR ''>'' \<or> c = CHR ''&''"
    | "c \<noteq> CHR 0x22" "c \<noteq> CHR 0x5C" "?n \<notin> {8, 9, 10, 12, 13}" "32 \<le> ?n"
        "c \<noteq> CHR ''<''" "c \<noteq> CHR ''>''" "c \<noteq> CHR ''&''"
    by fastforce
  then show ?thesis
  proof cases
    case 1
    then show ?thesis by (intro letter [of c]) (auto simp: escape_ascii_def simple_escape_def)
  next
    case 2
    then have "c = CHR 0x08 \<or> c = CHR 0x09 \<or> c = CHR 0x0A \<or> c = CHR 0x0C \<or> c = CHR 0x0D"
      by (simp add: char_codes)
    then show ?thesis
      using letter [of "CHR ''b''"] letter [of "CHR ''t''"] letter [of "CHR ''n''"]
        letter [of "CHR ''f''"] letter [of "CHR ''r''"]
      by (auto simp: escape_ascii_def simple_escape_def)
  next
    case 3
    then show ?thesis by (intro code) (simp add: escape_ascii_def Let_def)
  next
    case 4
    then show ?thesis by (intro same) (simp_all add: escape_ascii_def Let_def)
  qed
qed

lemma string_body_plain_char:
  "plain_char c \<Longrightarrow> string_body (c # r) = map_option (apfst (Cons c)) (string_body r)"
  by (auto simp: plain_char_def)

lemma plain_hex_char: "m < 16 \<Longrightarrow> plain_char (hex_char m)"
  by (simp add: plain_char_code of_hex_char)

lemma string_body_unicode:
  "hex4 s \<noteq> None \<Longrightarrow> string_body (CHR 0x5C # CHR ''u'' # s) =
    map_option (apfst (\<lambda>r. CHR 0x5C # CHR ''u'' # r)) (string_body s)"
  by (simp del: hex4.simps)

lemma string_body_escape:
  assumes "(of_char c :: nat) < 128"
  shows "string_body (escape_ascii c @ r) = map_option (apfst ((@) (escape_ascii c))) (string_body r)"
  using assms
proof (cases rule: escape_ascii_cases)
  case code
  let ?h = "hex_char (of_char c div 16)" and ?l = "hex_char (of_char c mod 16)"
  have "plain_char CHR ''0''" "plain_char ?h" "plain_char ?l"
    using assms plain_hex_char by (simp_all add: plain_char_code)
  moreover have "hex4 (CHR ''0'' # CHR ''0'' # ?h # ?l # r) \<noteq> None"
    using hex4_ascii [of "of_char c" r] assms by (simp del: hex4.simps)
  ultimately show ?thesis
    unfolding code by (cases "string_body r") (simp_all add: string_body_unicode string_body_plain_char
      apfst_def map_prod_def split_beta del: hex4.simps string_body.simps)
qed (cases "string_body r"; auto)+

lemma unquote_escape:
  assumes "(of_char c :: nat) < 128"
  shows "unquote (escape_ascii c @ s) = c # unquote s"
  using assms
proof (cases rule: escape_ascii_cases)
  case code
  with hex4_ascii [of "of_char c" s] assms show ?thesis
    by (simp add: utf8_encode_ascii del: hex4.simps)
qed (use assms in auto)

lemma json_escape_ascii:
  "ascii s \<Longrightarrow> string_body (json_escape s @ CHR 0x22 # r) = Some (json_escape s, r) \<and> unquote (json_escape s) = s"
  by (induction s) (simp_all add: ascii_def string_body_escape unquote_escape)

section \<open>The parser reads what was printed\<close>

text \<open>At depth \<open>d\<close>, with enough fuel and before anything that may follow a value.\<close>

definition reads :: "nat \<Rightarrow> string \<Rightarrow> json \<Rightarrow> bool" where
  "reads d t v \<longleftrightarrow> (\<exists>n. \<forall>r. ends_value r \<longrightarrow> pval n d (t @ r) = Some (v, r))"

text \<open>For a text that ends itself, what follows does not matter.\<close>

definition reads_whole :: "nat \<Rightarrow> string \<Rightarrow> json \<Rightarrow> bool" where
  "reads_whole d t v \<longleftrightarrow> (\<exists>n. \<forall>r. pval n d (t @ r) = Some (v, r))"

lemma reads_wholeD: "reads_whole d t v \<Longrightarrow> reads d t v"
  by (auto simp: reads_def reads_whole_def)

lemma renders_reads: "renders t v \<Longrightarrow> reads d t v"
  unfolding renders_def reads_def by blast

lemma reads_mono: "reads d t v \<Longrightarrow> d \<le> e \<Longrightarrow> reads e t v"
  using pval_mono(1) unfolding reads_def by blast

lemma json_parse_reads_whole:
  assumes "reads_whole d t v" and "d \<le> maxNestingDepth"
  shows "json_parse t = Some v"
proof -
  from assms(1) obtain n where "pval n d (t @ []) = Some (v, [])" unfolding reads_whole_def by blast
  from pval_enough [OF this assms(2)] show ?thesis by (simp add: json_parse_def)
qed

lemma reads_quote: "ascii s \<Longrightarrow> reads d (json_quote s) (JStr s)"
proof -
  assume "ascii s"
  then have "pval (Suc 0) d (json_quote s @ r) = Some (JStr s, r)" for r
    using json_escape_ascii [of s r] by (simp add: json_quote_def)
  then show ?thesis unfolding reads_def by blast
qed

lemma reads_null: "reads d ''null'' JNull"
proof -
  have "pval (Suc 0) d (''null'' @ r) = Some (JNull, r)" for r
    by (simp add: strip_prefix_def is_ws_def skip_ws_def)
  then show ?thesis unfolding reads_def by blast
qed

lemma reads_Itoa: "reads d (Itoa x) (JNum (Itoa x))"
  by (rule renders_reads [OF renders_int])

text \<open>Two readings with the fuel of both.\<close>

lemma reads_bounded: "reads d t v \<longleftrightarrow> (\<exists>n. \<forall>m \<ge> n. \<forall>r. ends_value r \<longrightarrow> pval m d (t @ r) = Some (v, r))"
  using pval_mono(1) unfolding reads_def by (meson order_refl)

lemma elements_read:
  assumes "list_all2 (reads d) ts vs" and "ts \<noteq> []"
  shows "\<exists>n. \<forall>m \<ge> n. \<forall>r. pelems m d (join '','' ts @ CHR '']'' # r) = Some (vs, r)"
  using assms
proof (induction ts vs rule: list_all2_induct)
  case (Cons t ts v vs)
  obtain n where n: "pval m d (t @ r) = Some (v, r)" if "m \<ge> n" "ends_value r" for m r
    using Cons.hyps(1) unfolding reads_bounded by blast
  show ?case
  proof (cases ts)
    case Nil
    with Cons.hyps have "vs = []" by simp
    have "pelems m d (join '','' (t # ts) @ CHR '']'' # r) = Some (v # vs, r)" if "m \<ge> Suc n" for m r
      using that n [of "m - 1" "CHR '']'' # r"] Nil \<open>vs = []\<close>
      by (cases m) (simp_all add: ends_value_def del: pval.simps)
    then show ?thesis by blast
  next
    case (Cons t' ts')
    with Cons.IH obtain k where k: "pelems m d (join '','' ts @ CHR '']'' # r) = Some (vs, r)" if "m \<ge> k" for m r
      by blast
    have "pelems m d (join '','' (t # ts) @ CHR '']'' # r) = Some (v # vs, r)" if "m \<ge> Suc (max n k)" for m r
      using that n [of "m - 1" "CHR '','' # join '','' ts @ CHR '']'' # r"] k [of "m - 1" r] Cons
      by (cases m) (simp_all add: ends_value_def del: pval.simps)
    then show ?thesis by blast
  qed
qed simp

lemma reads_array:
  assumes "list_all2 (reads d) ts vs"
  shows "reads_whole (Suc d) (array_text ts) (JArr vs)"
proof (cases ts)
  case Nil
  with assms have "pval (Suc 0) (Suc d) (array_text ts @ r) = Some (JArr vs, r)" for r
    by (simp add: array_text_def)
  then show ?thesis unfolding reads_whole_def by blast
next
  case (Cons t ts')
  with assms obtain n where n: "pelems n d (join '','' ts @ CHR '']'' # r) = Some (vs, r)" for r
    using elements_read [OF assms] by blast
  obtain v where t: "reads d t v" using assms Cons by (cases vs) auto
  have "pval (Suc n) (Suc d) (array_text ts @ r) = Some (JArr vs, r)" for r
  proof -
    have "\<exists>c s. skip_ws (join '','' ts @ CHR '']'' # r) = c # s \<and> c \<noteq> CHR '']''"
    proof (rule ccontr)
      assume bad: "\<nexists>c s. skip_ws (join '','' ts @ CHR '']'' # r) = c # s \<and> c \<noteq> CHR '']''"
      obtain m where "n = Suc m" using n [of r] by (cases n) auto
      then have "pval m d (join '','' ts @ CHR '']'' # r) \<noteq> None" using n [of r] by (auto split: option.splits)
      with bad show False
        by (cases m; cases "skip_ws (join '','' ts @ CHR '']'' # r)")
          (auto simp: lex_number_def lex_int_def digits_def is_digit_def)
    qed
    with n [of r] show ?thesis by (auto simp: array_text_def simp del: pelems.simps)
  qed
  then show ?thesis unfolding reads_whole_def by blast
qed

lemma members_read:
  assumes "list_all2 (\<lambda>(k, t) (k', v). k = k' \<and> list_all plain_char k \<and> reads d t v) kts kvs" and "kts \<noteq> []"
  shows "\<exists>n. \<forall>m \<ge> n. \<forall>r. pmems m d (members_text kts @ r) = Some (kvs, r)"
  using assms
proof (induction kts kvs rule: list_all2_induct)
  case (Cons kt kts kv kvs)
  obtain k t v where kv: "kt = (k, t)" "kv = (k, v)" and plain: "list_all plain_char k" and t: "reads d t v"
    using Cons.hyps(1) by (cases kt; cases kv) auto
  obtain n where n: "pval m d (t @ r) = Some (v, r)" if "m \<ge> n" "ends_value r" for m r
    using t unfolding reads_bounded by blast
  show ?case
  proof (cases kts)
    case Nil
    with Cons.hyps have "kvs = []" by simp
    have "pmems m d (members_text (kt # kts) @ r) = Some (kv # kvs, r)" if "m \<ge> Suc n" for m r
      using that n [of "m - 1" "CHR 0x7D # r"] Nil \<open>kvs = []\<close> plain kv
      by (cases m) (simp_all add: ends_value_def quoted_def string_body_plain unquote_plain del: pval.simps)
    then show ?thesis by blast
  next
    case (Cons kt' kts')
    with Cons.IH obtain l where l: "pmems m d (members_text kts @ r) = Some (kvs, r)" if "m \<ge> l" for m r
      by blast
    have whole: "members_text (kt # kts) = quoted k @ CHR '':'' # t @ CHR '','' # members_text kts"
      using Cons kv by (cases kt') simp
    have "pmems m d (members_text (kt # kts) @ r) = Some (kv # kvs, r)" if "m \<ge> Suc (max n l)" for m r
      using that n [of "m - 1" "CHR '','' # members_text kts @ r"] l [of "m - 1" r] plain kv(2)
      unfolding whole
      by (cases m) (simp_all add: ends_value_def quoted_def string_body_plain unquote_plain del: pval.simps members_text.simps)
    then show ?thesis by blast
  qed
qed simp

lemma reads_object:
  assumes "list_all2 (\<lambda>(k, t) (k', v). k = k' \<and> list_all plain_char k \<and> reads d t v) kts kvs" and "kts \<noteq> []"
  shows "reads_whole (Suc d) (object_text kts) (JObj kvs)"
proof -
  obtain n where n: "pmems n d (members_text kts @ r) = Some (kvs, r)" for r
    using members_read [OF assms] by blast
  obtain s where "members_text kts = CHR 0x22 # s" using members_text_quote [OF assms(2)] by blast
  with n have "pval (Suc n) (Suc d) (object_text kts @ r) = Some (JObj kvs, r)" for r
    by (simp add: object_text_def del: pmems.simps)
  then show ?thesis unfolding reads_whole_def by blast
qed

section \<open>A body survives printing and reading\<close>

definition body_printable :: "Body \<Rightarrow> bool" where
  "body_printable b \<longleftrightarrow> is_i64 (b_V b) \<and> is_i64 (b_TS b) \<and>
    list_all (\<lambda>e. ascii (ep_Type e) \<and> ascii (ep_Host e) \<and> is_i64 (ep_Port e)) (elems (b_Endpoints b)) \<and>
    ascii (tls_Mode (b_TLS b)) \<and> ascii (tls_Fingerprint (b_TLS b)) \<and> list_all ascii (elems (b_Caps b)) \<and>
    memory (b_Endpoints b) = elems (b_Endpoints b) \<and> memory (b_Caps b) = elems (b_Caps b)"

definition endpoint_json :: "Endpoint \<Rightarrow> json" where
  "endpoint_json e = JObj [(''type'', JStr (ep_Type e)), (''host'', JStr (ep_Host e)), (''port'', JNum (Itoa (ep_Port e)))]"

definition tls_json :: "TLSInfo \<Rightarrow> json" where
  "tls_json t = JObj ((''mode'', JStr (tls_Mode t)) #
    (if tls_Fingerprint t = [] then [] else [(''fingerprint'', JStr (tls_Fingerprint t))]))"

definition slice_json :: "('a \<Rightarrow> json) \<Rightarrow> 'a slice \<Rightarrow> json" where
  "slice_json f s = (case s of NilSlice \<Rightarrow> JNull | Slice xs stale \<Rightarrow> JArr (map f xs))"

definition body_json :: "Body \<Rightarrow> json" where
  "body_json b = JObj [(''v'', JNum (Itoa (b_V b))), (''ts'', JNum (Itoa (b_TS b))),
     (''endpoints'', slice_json endpoint_json (b_Endpoints b)), (''tls'', tls_json (b_TLS b)),
     (''caps'', slice_json JStr (b_Caps b))]"

lemma reads_endpoint:
  assumes "ascii (ep_Type e)" and "ascii (ep_Host e)"
  shows "reads 1 (endpoint_text e) (endpoint_json e)"
  unfolding endpoint_text_def endpoint_json_def One_nat_def
  by (intro reads_wholeD reads_object) (use assms in \<open>simp_all add: reads_quote reads_Itoa plain_char_def\<close>)

lemma reads_tls:
  assumes "ascii (tls_Mode t)" and "ascii (tls_Fingerprint t)"
  shows "reads 1 (tls_text t) (tls_json t)"
  unfolding tls_text_def tls_json_def One_nat_def
  by (intro reads_wholeD reads_object) (use assms in \<open>simp_all add: reads_quote plain_char_def\<close>)

lemma reads_slice:
  assumes "\<And>x. x \<in> set (elems s) \<Longrightarrow> reads d (f x) (g x)"
  shows "reads (Suc d) (slice_text f s) (slice_json g s)"
proof (cases s)
  case NilSlice
  with reads_null show ?thesis by (simp add: slice_text_def slice_json_def)
next
  case (Slice xs stale)
  have "list_all2 (reads d) (map f xs) (map g xs)"
    using assms Slice by (simp add: list_all2_conv_all_nth)
  from reads_wholeD [OF reads_array [OF this]] Slice show ?thesis by (simp add: slice_text_def slice_json_def)
qed

lemma json_parse_body:
  assumes "body_printable b"
  shows "json_parse (marshal_body b) = Some (body_json b)"
proof (rule json_parse_reads_whole)
  have two: "Suc 1 = 2" by simp
  have "reads (Suc 1) (slice_text endpoint_text (b_Endpoints b)) (slice_json endpoint_json (b_Endpoints b))"
    by (rule reads_slice, rule reads_endpoint) (use assms in \<open>auto simp: body_printable_def list_all_iff\<close>)
  moreover have "reads (Suc 1) (slice_text json_quote (b_Caps b)) (slice_json JStr (b_Caps b))"
    by (rule reads_slice, rule reads_quote) (use assms in \<open>auto simp: body_printable_def list_all_iff\<close>)
  moreover have "reads (Suc 1) (tls_text (b_TLS b)) (tls_json (b_TLS b))"
    by (rule reads_mono [OF reads_tls]) (use assms in \<open>auto simp: body_printable_def\<close>)
  ultimately show "reads_whole (Suc (Suc 1)) (marshal_body b) (body_json b)"
    unfolding marshal_body_def body_json_def
    by (intro reads_object) (simp_all add: reads_Itoa plain_char_def)
qed (simp add: maxNestingDepth_def)

lemma payload_field_names [simp]:
  "field_for [''type'', ''host'', ''port''] ''type'' = Some ''type''"
  "field_for [''type'', ''host'', ''port''] ''host'' = Some ''host''"
  "field_for [''type'', ''host'', ''port''] ''port'' = Some ''port''"
  "field_for [''mode'', ''fingerprint''] ''mode'' = Some ''mode''"
  "field_for [''mode'', ''fingerprint''] ''fingerprint'' = Some ''fingerprint''"
  "field_for [''v'', ''ts'', ''endpoints'', ''tls'', ''caps''] ''v'' = Some ''v''"
  "field_for [''v'', ''ts'', ''endpoints'', ''tls'', ''caps''] ''ts'' = Some ''ts''"
  "field_for [''v'', ''ts'', ''endpoints'', ''tls'', ''caps''] ''endpoints'' = Some ''endpoints''"
  "field_for [''v'', ''ts'', ''endpoints'', ''tls'', ''caps''] ''tls'' = Some ''tls''"
  "field_for [''v'', ''ts'', ''endpoints'', ''tls'', ''caps''] ''caps'' = Some ''caps''"
  by (rule field_for_exact, simp)+

lemma store_endpoint:
  "is_i64 (ep_Port e) \<Longrightarrow> store_struct endpoint_member (endpoint_json e) endpoint_zero = Some e"
  by (simp add: store_struct_def endpoint_json_def endpoint_member_def Let_def store_string_def
    store_int64_def endpoint_zero_def)

lemma store_tls:
  "store_struct tls_member (tls_json t) \<lparr>tls_Mode = [], tls_Fingerprint = []\<rparr> = Some t"
  by (cases "tls_Fingerprint t = []") (simp_all add: store_struct_def tls_json_def tls_member_def Let_def store_string_def)

lemma store_slice_zero:
  assumes "\<And>x. x \<in> set (elems s) \<Longrightarrow> f (g x) zero = Some x" and "memory s = elems s"
  shows "store_slice f zero (slice_json g s) NilSlice = Some s"
proof (cases s)
  case (Slice xs stale)
  have "those (map2 f (map g xs) (replicate (length xs) zero)) = Some xs"
    using assms(1) unfolding Slice by (induction xs) auto
  with assms(2) Slice show ?thesis
    by (cases xs) (auto simp: store_slice_def slice_json_def Let_def split: option.splits)
qed (simp add: store_slice_def slice_json_def)

text \<open>
  A body whose strings are ASCII and whose numbers are 64-bit is read back as it was, nil and
  empty lists kept apart.
\<close>

lemma unmarshal_marshal_body:
  assumes "body_printable b"
  shows "unmarshal_body (marshal_body b) = Some b"
proof -
  have "store_slice (store_struct endpoint_member) endpoint_zero (slice_json endpoint_json (b_Endpoints b)) NilSlice = Some (b_Endpoints b)"
    using assms store_endpoint by (intro store_slice_zero) (simp_all add: body_printable_def list_all_iff)
  moreover have "store_slice store_string [] (slice_json JStr (b_Caps b)) NilSlice = Some (b_Caps b)"
    using assms by (intro store_slice_zero) (simp_all add: body_printable_def store_string_def)
  ultimately show ?thesis
    using assms by (simp add: unmarshal_body_def json_parse_body body_json_def store_struct_def [of body_member]
      body_member_def Let_def store_int64_def store_tls body_zero_def body_printable_def)
qed

section \<open>The envelope\<close>

lemma json_quote_b64 [simp]: "json_quote (b64_Encode b) = quoted (b64_Encode b)"
proof -
  have same: "b64_char n \<noteq> CHR ''<'' \<and> b64_char n \<noteq> CHR ''>'' \<and> b64_char n \<noteq> CHR ''&''" if "n < 64" for n
  proof -
    have "(of_char (b64_char n) :: nat) \<notin> {60, 62, 38}" using that by (auto simp: b64_char_def)
    then show ?thesis by auto
  qed
  have "json_escape cs = cs" if "\<forall>c \<in> set cs. plain_char c \<and> c \<noteq> CHR ''<'' \<and> c \<noteq> CHR ''>'' \<and> c \<noteq> CHR ''&''" for cs
    using that by (induction cs) (auto simp: escape_ascii_def Let_def plain_char_def)
  with same plain_b64_char sextets_of_less [of b] show ?thesis
    by (simp add: json_quote_def quoted_def b64_Encode_def)
qed

lemma marshal_transmitted: "marshal_envelope (transmitted d) = envelope_text d"
  by (simp add: marshal_envelope_def transmitted_def envelope_text_def text_of_members_def envelope_members_def)

end
