(* ===== verification/Material.thy ===== *)
theory Material imports Service Payload "HOL-Library.Multiset" begin

text \<open>
  \<open>internal/apivectors/material.go\<close>: what the API fixtures are built from. A \<open>publisher\<close> is a
  key pair drawn from a counting seed with the identifier, ciphertext and nonce that go with it;
  envelopes are rendered member by member, so that a fixture may leave one out, repeat one or
  spell one wrongly; the expected answer of a lookup is computed by a masking of its own. What
  searches without a bound (\<open>highPublishers\<close>, \<open>insufficientPoW\<close>) is a partial function whose
  value \<open>None\<close> means that it does not return.
\<close>

unbundle bit_operations_syntax

section \<open>The instance the fixtures describe\<close>

definition Now :: int where "Now = 1753488000"
definition fx_PoWBits :: int where "fx_PoWBits = 8"
definition fx_MaxTTL :: int where "fx_MaxTTL = record_MaxTTL"
definition fx_MaxRecordBytes :: int where "fx_MaxRecordBytes = MaxEnvelopeBytes"
definition fx_SkewGrace :: int where "fx_SkewGrace = DefaultSkewGrace"
definition RecordExpiresAt :: int where "RecordExpiresAt = Now + 3600"
definition InitialRecordCount :: int where "InitialRecordCount = 2 * KMin"
definition SignalTTL :: int where "SignalTTL = signal_MaxTTL div 1000000000"
definition SignalPollWindowMaximum :: int where "SignalPollWindowMaximum = MaxPollWindow div 1000000000"
definition SourceURL :: string where "SourceURL = ''https://github.com/trigstation/trigstationd''"

definition generousLimit :: int where "generousLimit = 600"
definition limitWindowSecs :: int where "limitWindowSecs = 3600"
definition exhaustibleLimit :: int where "exhaustibleLimit = 1"

definition publisherDomain :: string where "publisherDomain = ''trigstation/api-vectors/publisher/v1''"
definition channelDomain :: string where "channelDomain = ''trigstation/api-vectors/channel/v1''"

lemmas fx_consts = Now_def fx_PoWBits_def fx_MaxTTL_def fx_MaxRecordBytes_def fx_SkewGrace_def
  RecordExpiresAt_def record_MaxTTL_def MaxEnvelopeBytes_def DefaultSkewGrace_def

text \<open>
  The errors of the generator, in the order of the sources. \<open>NeverReturns\<close> stands for a search
  that does not end and \<open>SignPanics\<close> for a key of the wrong length.
\<close>

datatype fx_error =
    NeverReturns | SolveFailed pow_error | SignPanics record_error
  | NotDecodable | EmptyValue | NotBase64 | AlreadyNonCanonical
  | PrefixChars | PrefixHex | CannotPad | PaddedOtherwise
  | MatchedNotAll | MatchedSome | NotAdversarial string | AdversarialTooLarge
  | SharedIdentifier | FirstBitZero | IdentifierWidth | NotCovered string
  | ByteRange | NegativeLength | UnknownEncoding | NilRecency

definition returns :: "'a option \<Rightarrow> fx_error + 'a" where
  "returns r = (case r of None \<Rightarrow> Inl NeverReturns | Some x \<Rightarrow> Inr x)"

text \<open>The \<open>if err != nil { return err }\<close> after a call.\<close>

definition andThen :: "'e + 'a \<Rightarrow> ('a \<Rightarrow> 'e + 'b) \<Rightarrow> 'e + 'b" where
  "andThen r f = (case r of Inl e \<Rightarrow> Inl e | Inr x \<Rightarrow> f x)"

lemma andThen_simps [simp]: "andThen (Inl e) f = Inl e" "andThen (Inr x) f = f x"
  by (simp_all add: andThen_def)

lemma andThen_Inr: "andThen r f = Inr y \<longleftrightarrow> (\<exists>x. r = Inr x \<and> f x = Inr y)"
  by (cases r) simp_all

lemma returns_Inr [simp]: "returns r = Inr x \<longleftrightarrow> r = Some x"
  by (cases r) (simp_all add: returns_def)

section \<open>Publishers\<close>

record publisher =
  p_index :: nat
  p_priv :: bytes
  p_pub :: bytes
  p_lookupID :: bytes
  p_ct :: bytes
  p_nonce :: bytes

definition newPublisher :: "crypto \<Rightarrow> nat \<Rightarrow> publisher" where
  "newPublisher C index =
    (let seed = sha256 C (bytes_of_string publisherDomain @ be_bytes 4 index);
         priv = NewKeyFromSeed C seed;
         pub = drop 32 priv
     in \<lparr>p_index = index, p_priv = priv, p_pub = pub, p_lookupID = sha256 C pub,
         p_ct = take TagLen (sha256 C (bytes_of_string ''ct:'' @ pub)),
         p_nonce = take NonceLen (sha256 C (bytes_of_string ''nonce:'' @ pub))\<rparr>)"

definition high_bit :: "bytes \<Rightarrow> bool" where
  "high_bit lookupID \<longleftrightarrow> hd lookupID AND 0x80 \<noteq> 0"

text \<open>The scan, with the 32-bit index of the next candidate.\<close>

partial_function (option) scan_high ::
  "crypto \<Rightarrow> nat \<Rightarrow> nat \<Rightarrow> publisher list \<Rightarrow> (publisher list \<times> nat) option" where
  "scan_high C n i out =
    (if length out \<ge> n then Some (out, i)
     else let p = newPublisher C i; i' = (i + 1) mod 2 ^ 32 in
       if high_bit (p_lookupID p) then scan_high C n i' (out @ [p]) else scan_high C n i' out)"

declare scan_high.simps [code]

definition highPublishers :: "crypto \<Rightarrow> nat \<Rightarrow> nat \<Rightarrow> (publisher list \<times> nat) option" where
  "highPublishers C start n = scan_high C n start []"

definition pub_solve :: "crypto \<Rightarrow> (nat \<Rightarrow> bool) \<Rightarrow> publisher \<Rightarrow> int \<Rightarrow> fx_error + bytes" where
  "pub_solve C ctx p expiresAt =
    (case pow_Solve C ctx (p_lookupID p) expiresAt fx_PoWBits of
       Inl e \<Rightarrow> Inl (SolveFailed e) | Inr v \<Rightarrow> Inr v)"

definition signs :: "record_error + bytes \<Rightarrow> fx_error + bytes" where
  "signs r = (case r of Inl e \<Rightarrow> Inl (SignPanics e) | Inr s \<Rightarrow> Inr s)"

definition pub_envelope :: "crypto \<Rightarrow> (nat \<Rightarrow> bool) \<Rightarrow> publisher \<Rightarrow> int \<Rightarrow> fx_error + Envelope" where
  "pub_envelope C ctx p expiresAt =
    andThen (pub_solve C ctx p expiresAt) (\<lambda>solved.
    andThen (signs (record_Sign C (p_priv p) (byte_of (nat Version)) (p_lookupID p) (p_pub p) expiresAt
      (p_nonce p) (p_ct p))) (\<lambda>sig.
    Inr \<lparr>e_V = Version, e_LookupID = b64_Encode (p_lookupID p), e_WKPub = b64_Encode (p_pub p),
      e_ExpiresAt = expiresAt, e_CT = b64_Encode (p_ct p), e_Nonce = b64_Encode (p_nonce p),
      e_PoW = b64_Encode solved, e_Sig = b64_Encode sig\<rparr>))"

section \<open>Rendering\<close>

text \<open>
  \<open>jsonString\<close>: a string as \<open>encoding/json\<close> writes it with \<open>SetEscapeHTML(false)\<close>, which leaves
  the three characters HTML treats specially as they are.
\<close>

definition escape_plain :: "char \<Rightarrow> string" where
  "escape_plain c = (if c = CHR ''<'' \<or> c = CHR ''>'' \<or> c = CHR ''&'' then [c] else escape_ascii c)"

function escape_no_html :: "string \<Rightarrow> string" where
  "escape_no_html [] = []"
| "escape_no_html (c # cs) =
    (if (of_char c :: nat) < 128 then escape_plain c @ escape_no_html cs
     else let (r, n) = utf8_decode c cs in
       if r = 0xFFFD \<and> n = 1
         then [CHR 0x5C, CHR ''u'', CHR ''f'', CHR ''f'', CHR ''f'', CHR ''d''] @ escape_no_html cs
       else if r = 0x2028 \<or> r = 0x2029
         then [CHR 0x5C, CHR ''u'', CHR ''2'', CHR ''0'', CHR ''2'', hex_char (r mod 16)] @
           escape_no_html (drop (n - 1) cs)
       else c # take (n - 1) cs @ escape_no_html (drop (n - 1) cs))"
  by pat_completeness auto
termination
  by (relation "measure length") auto

definition jsonString :: "string \<Rightarrow> string" where
  "jsonString s = CHR 0x22 # escape_no_html s @ [CHR 0x22]"

text \<open>A member: its name and its value, already rendered.\<close>

type_synonym member = "string \<times> string"

definition envelopeMembers :: "Envelope \<Rightarrow> member list" where
  "envelopeMembers e =
    [(''v'', Itoa (e_V e)), (''lookup_id'', jsonString (e_LookupID e)),
     (''wk_pub'', jsonString (e_WKPub e)), (''expires_at'', Itoa (e_ExpiresAt e)),
     (''ct'', jsonString (e_CT e)), (''nonce'', jsonString (e_Nonce e)),
     (''pow'', jsonString (e_PoW e)), (''sig'', jsonString (e_Sig e))]"

definition render :: "member list \<Rightarrow> string" where
  "render ms = ''{'' @ join '','' (map (\<lambda>(name, raw). jsonString name @ '':'' @ raw) ms) @ [CHR 0x7D]"

fun set_member :: "member list \<Rightarrow> string \<Rightarrow> string \<Rightarrow> member list" where
  "set_member [] name raw = [(name, raw)]"
| "set_member ((k, t) # ms) name raw =
    (if k = name then (k, raw) # ms else (k, t) # set_member ms name raw)"

definition remove_member :: "member list \<Rightarrow> string \<Rightarrow> member list" where
  "remove_member ms name = filter (\<lambda>m. fst m \<noteq> name) ms"

section \<open>Spellings of a value\<close>

text \<open>\<open>base64.URLEncoding\<close> is the padded alphabet.\<close>

definition padded :: "string \<Rightarrow> fx_error + string" where
  "padded unpadded =
    (case b64_Decode unpadded of
       None \<Rightarrow> Inl NotDecodable
     | Some raw \<Rightarrow> Inr (b64_Encode raw @ replicate ((3 - length raw mod 3) mod 3) CHR ''=''))"

definition nc_alphabet :: string where
  "nc_alphabet = ''ABCDEFGHIJKLMNOPQRSTUVWXYZabcdefghijklmnopqrstuvwxyz0123456789-_''"

text \<open>\<open>strings.IndexByte\<close>.\<close>

fun index_byte :: "string \<Rightarrow> char \<Rightarrow> nat option" where
  "index_byte [] c = None"
| "index_byte (x # s) c = (if x = c then Some 0 else map_option Suc (index_byte s c))"

definition nonCanonical :: "string \<Rightarrow> fx_error + string" where
  "nonCanonical canonical =
    (if canonical = [] then Inl EmptyValue
     else case index_byte nc_alphabet (last canonical) of
       None \<Rightarrow> Inl NotBase64
     | Some idx \<Rightarrow>
         if idx AND 3 \<noteq> 0 then Inl AlreadyNonCanonical
         else Inr (butlast canonical @ [nc_alphabet ! (idx OR 1)]))"

text \<open>The search for a counter that does not satisfy the difficulty wraps in 64 bits.\<close>

partial_function (option) weak_from :: "crypto \<Rightarrow> bytes \<Rightarrow> int \<Rightarrow> nat \<Rightarrow> bytes option" where
  "weak_from C lookupID expiresAt i =
    (if \<not> pow_Verify C lookupID expiresAt (be_bytes 8 i) fx_PoWBits then Some (be_bytes 8 i)
     else weak_from C lookupID expiresAt ((i + 1) mod 2 ^ 64))"

declare weak_from.simps [code]

definition insufficientPoW :: "crypto \<Rightarrow> bytes \<Rightarrow> int \<Rightarrow> bytes option" where
  "insufficientPoW C lookupID expiresAt = weak_from C lookupID expiresAt 0"

section \<open>The records of the initial state\<close>

record storedRecord =
  fr_id :: string
  fr_note :: string
  fr_publisher :: publisher
  fr_expiresAt :: int
  fr_body :: string

definition fr_lookup :: "storedRecord \<Rightarrow> bytes" where
  "fr_lookup r = p_lookupID (fr_publisher r)"

definition sortStored :: "storedRecord list \<Rightarrow> storedRecord list" where
  "sortStored recs = sort_key fr_lookup recs"

definition recordsBody :: "storedRecord list \<Rightarrow> string" where
  "recordsBody recs = ''{\"records\":['' @ join '','' (map fr_body recs) @ '']}''"

definition hexNibble :: "char \<Rightarrow> byte option" where
  "hexNibble c =
    (let n = of_char c :: nat in
     if 48 \<le> n \<and> n \<le> 57 then Some (byte_of (n - 48))
     else if 97 \<le> n \<and> n \<le> 102 then Some (byte_of (n - 97 + 10))
     else if 65 \<le> n \<and> n \<le> 70 then Some (byte_of (n - 65 + 10))
     else None)"

definition matchesPrefix :: "bytes \<Rightarrow> bytes \<Rightarrow> nat \<Rightarrow> bool" where
  "matchesPrefix lookupID full nbits =
    (let whole = nbits div 8 in
     if take whole full \<noteq> take whole lookupID then False
     else let r = nbits mod 8 in
       if r \<noteq> 0
       then let m = push_bit (8 - r) (0xFF :: byte) in full ! whole AND m = lookupID ! whole AND m
       else True)"

text \<open>The loop over the characters of the prefix, from index \<open>i\<close> on.\<close>

fun fill_prefix :: "nat \<Rightarrow> string \<Rightarrow> bytes \<Rightarrow> bytes option" where
  "fill_prefix i [] full = Some full"
| "fill_prefix i (c # cs) full =
    (case hexNibble c of
       None \<Rightarrow> None
     | Some v \<Rightarrow>
         fill_prefix (i + 1) cs
           (if i mod 2 = 0 then full[i div 2 := full ! (i div 2) OR push_bit 4 v]
            else full[i div 2 := full ! (i div 2) OR v]))"

definition matchingRecords ::
  "storedRecord list \<Rightarrow> string \<Rightarrow> nat \<Rightarrow> fx_error + storedRecord list" where
  "matchingRecords recs prefixHex nbits =
    (if length prefixHex \<noteq> (nbits + 3) div 4 then Inl PrefixChars
     else case fill_prefix 0 prefixHex (replicate ((nbits + 7) div 8) 0) of
       None \<Rightarrow> Inl PrefixHex
     | Some full \<Rightarrow>
         let spare = length full * 8 - nbits;
             full' = (if spare > 0
               then full[length full - 1 := full ! (length full - 1) AND NOT (push_bit spare 1 - 1)]
               else full)
         in Inr (filter (\<lambda>r. matchesPrefix (fr_lookup r) full' nbits) recs))"

definition channelID :: "crypto \<Rightarrow> nat \<Rightarrow> string" where
  "channelID C n = b64_Encode (sha256 C (bytes_of_string channelDomain @ be_bytes 4 n))"

section \<open>What is rendered is what a publisher would send\<close>

lemma escape_plain_char: "plain_char c \<Longrightarrow> escape_plain c = [c]"
  by (auto simp: escape_plain_def escape_ascii_def plain_char_def Let_def)

lemma jsonString_plain: "list_all plain_char s \<Longrightarrow> jsonString s = quoted s"
proof -
  assume "list_all plain_char s"
  then have "escape_no_html s = s"
    by (induction s) (simp_all add: escape_plain_char, simp add: plain_char_def)
  then show ?thesis by (simp add: jsonString_def quoted_def)
qed

lemma jsonString_b64 [simp]: "jsonString (b64_Encode b) = quoted (b64_Encode b)"
  by (rule jsonString_plain [OF plain_b64_Encode])

definition plain_names :: "member list \<Rightarrow> bool" where
  "plain_names ms \<longleftrightarrow> ms \<noteq> [] \<and> list_all (\<lambda>m. list_all plain_char (fst m)) ms"

lemma render_object_text:
  assumes "plain_names ms"
  shows "render ms = object_text ms"
proof -
  have "ms \<noteq> []" "list_all (\<lambda>m. list_all plain_char (fst m)) ms" using assms by (simp_all add: plain_names_def)
  then have "join '','' (map (\<lambda>(name, raw). jsonString name @ '':'' @ raw) ms) @ [CHR 0x7D] = members_text ms"
    by (induction ms rule: members_text.induct) (simp_all add: jsonString_plain)
  then show ?thesis by (simp add: render_def object_text_def)
qed


text \<open>
  The members of a decoded envelope with any version, as name, text and value: an envelope
  whose fields are spelled canonically is parsed back as it was, whatever unknown members follow.
\<close>

definition valued_members :: "int \<Rightarrow> Decoded \<Rightarrow> (string \<times> string \<times> json) list" where
  "valued_members v d = (''v'', Itoa v, JNum (Itoa v)) # tl (envelope_members d)"

definition untyped :: "(string \<times> string \<times> json) list \<Rightarrow> member list" where
  "untyped ms = map (\<lambda>(k, t, v). (k, t)) ms"

lemma untyped_simps [simp]: "untyped [] = []" "untyped ((k, t, v) # ms) = (k, t) # untyped ms"
  "untyped (ms @ ns) = untyped ms @ untyped ns"
  by (simp_all add: untyped_def)

lemma envelopeMembers_valued: "envelopeMembers ((transmitted d)\<lparr>e_V := v\<rparr>) = untyped (valued_members v d)"
  by (simp add: envelopeMembers_def transmitted_def valued_members_def envelope_members_def)

lemma transmitted_V: "(transmitted d)\<lparr>e_V := 1\<rparr> = transmitted d" "e_V (transmitted d) = 1"
  by (simp_all add: transmitted_def)

definition well_rendered :: "(string \<times> string \<times> json) list \<Rightarrow> bool" where
  "well_rendered ms \<longleftrightarrow> list_all (\<lambda>(k, t, v). list_all plain_char k \<and> renders t v) ms"

lemma well_rendered_simps [simp]: "well_rendered []"
  "well_rendered ((k, t, v) # ms) \<longleftrightarrow> list_all plain_char k \<and> renders t v \<and> well_rendered ms"
  "well_rendered (ms @ ns) \<longleftrightarrow> well_rendered ms \<and> well_rendered ns"
  by (auto simp: well_rendered_def)

lemma well_rendered_valued: "well_rendered (valued_members v d)"
  by (simp add: valued_members_def envelope_members_def renders_int renders_string plain_b64_Encode plain_char_def)

lemma render_well:
  assumes "well_rendered ms" and "ms \<noteq> []"
  shows "render (untyped ms) = text_of_members ms"
proof -
  from assms have "plain_names (untyped ms)"
    by (auto simp: plain_names_def untyped_def well_rendered_def list_all_iff)
  then show ?thesis by (simp add: render_object_text text_of_members_def untyped_def)
qed

lemma parse_render:
  assumes "well_rendered ms" and "ms \<noteq> []"
  shows "json_parse (render (untyped ms)) = Some (JObj (map (\<lambda>(k, t, v). (k, v)) ms))"
  unfolding render_well [OF assms] text_of_members_def
  by (rule json_parse_object_text) (use assms in \<open>auto simp: well_rendered_def list_all_iff\<close>)

lemma accept_parse_render:
  assumes "well_rendered ms" and "ms \<noteq> []"
  shows "accept_parse (render (untyped ms)) =
    (if \<not> distinct (map fst ms) \<or> list_ex (member_missing (map (\<lambda>(k, t, v). (k, v)) ms)) requiredMembers then None
     else store_members envelope_zero (map (\<lambda>(k, t, v). (k, v)) ms))"
proof -
  have names: "map fst (map (\<lambda>(k, t, v). (k, v)) ms) = map fst ms" by (simp add: comp_def split_def)
  show ?thesis
    using parse_render [OF assms] hasDuplicateMembers_object [OF parse_render [OF assms], unfolded names]
    by (simp add: accept_parse_def unmarshal_members_def unmarshal_envelope_def)
qed

lemma store_members_append:
  "store_members e (xs @ ys) = (case store_members e xs of None \<Rightarrow> None | Some e' \<Rightarrow> store_members e' ys)"
  by (induction e xs rule: store_members.induct) (auto split: option.splits)

lemma store_valued_members:
  "is_i64 (d_ExpiresAt d) \<Longrightarrow> is_i64 v \<Longrightarrow>
    store_members envelope_zero (map (\<lambda>(k, t, w). (k, w)) (valued_members v d)) = Some ((transmitted d)\<lparr>e_V := v\<rparr>)"
  by (simp add: valued_members_def envelope_members_def store_member_def Let_def
    store_int64_def store_string_def envelope_zero_def transmitted_def)

definition unknown_members :: "(string \<times> string \<times> json) list \<Rightarrow> bool" where
  "unknown_members ms \<longleftrightarrow> well_rendered ms \<and> distinct (map fst ms) \<and> list_all (\<lambda>m. field_for envelope_fields (fst m) = None) ms"

lemma store_unknown_members:
  "list_all (\<lambda>m. field_for envelope_fields (fst m) = None) ms \<Longrightarrow>
    store_members e (map (\<lambda>(k, t, w). (k, w)) ms) = Some e"
  by (induction ms) (auto simp: store_member_def Let_def)

lemma accept_parse_valued:
  assumes "is_i64 (d_ExpiresAt d)" "is_i64 v" "unknown_members extra"
  shows "accept_parse (render (untyped (valued_members v d @ extra))) = Some ((transmitted d)\<lparr>e_V := v\<rparr>)"
proof -
  have names: "map fst (valued_members v d) = envelope_fields"
    by (simp add: valued_members_def envelope_members_def envelope_fields_def)
  have "set (map fst extra) \<inter> set envelope_fields = {}"
    using assms(3) by (auto simp: unknown_members_def list_all_iff field_for_def)
  then have "distinct (map fst (valued_members v d @ extra))"
    using assms(3) unfolding map_append names
    by (auto simp: unknown_members_def envelope_fields_def)
  moreover have "\<not> member_missing (map (\<lambda>(k, t, w). (k, w)) (valued_members v d @ extra)) k"
    if k: "k \<in> set requiredMembers" for k
  proof -
    have "k \<notin> set (map fst extra)"
      using k \<open>set (map fst extra) \<inter> set envelope_fields = {}\<close>
      unfolding requiredMembers_def envelope_fields_def by blast
    then have "k \<notin> fst ` set (rev (map (\<lambda>(k, t, w). (k, w)) extra))"
      by (auto simp: split_beta image_iff)
    then have "map_of (rev (map (\<lambda>(k, t, w). (k, w)) extra)) k = None"
      by (simp only: map_of_eq_None_iff not_False_eq_True)
    then show ?thesis using k
      by (auto simp: member_missing_def requiredMembers_def valued_members_def envelope_members_def map_add_def)
  qed
  ultimately have ok: "\<not> (\<not> distinct (map fst (valued_members v d @ extra)) \<or>
      list_ex (member_missing (map (\<lambda>(k, t, w). (k, w)) (valued_members v d @ extra))) requiredMembers)"
    by (simp add: list_ex_iff del: map_append)
  have rendered: "well_rendered (valued_members v d @ extra)" "valued_members v d @ extra \<noteq> []"
    using assms(3) well_rendered_valued [of v d] by (simp_all add: unknown_members_def valued_members_def)
  have stored: "store_members envelope_zero (map (\<lambda>(k, t, w). (k, w)) (valued_members v d @ extra)) =
      Some ((transmitted d)\<lparr>e_V := v\<rparr>)"
    using store_valued_members [OF assms(1,2)] store_unknown_members [of extra] assms(3)
    by (simp add: store_members_append unknown_members_def)
  show ?thesis by (simp only: accept_parse_render [OF rendered] if_not_P [OF ok] stored)
qed

section \<open>Publishers and their envelopes\<close>

text \<open>What the fixtures rely on of a publisher.\<close>

definition publisher_ok :: "crypto \<Rightarrow> publisher \<Rightarrow> bool" where
  "publisher_ok C p \<longleftrightarrow> (\<exists>seed. length seed = 32 \<and> p_priv p = NewKeyFromSeed C seed \<and>
    p_pub p = ed_public C seed \<and> p_lookupID p = sha256 C (p_pub p) \<and>
    length (p_ct p) = 16 \<and> length (p_nonce p) = 12)"

lemma newPublisher_ok: "sha256_ok C \<Longrightarrow> publisher_ok C (newPublisher C i)"
  unfolding publisher_ok_def
  by (intro exI [of _ "sha256 C (bytes_of_string publisherDomain @ be_bytes 4 i)"])
    (simp add: newPublisher_def Let_def sha256_ok_def NewKeyFromSeed_def record_lens)

lemma publisher_lengths:
  assumes "publisher_ok C p" "sha256_ok C" "ed25519_ok C"
  shows "length (p_priv p) = 64" "length (p_pub p) = 32" "length (p_lookupID p) = 32"
    "length (p_ct p) = 16" "length (p_nonce p) = 12"
  using assms by (auto simp: publisher_ok_def sha256_ok_def ed25519_ok_def NewKeyFromSeed_def)

text \<open>The decoded form of an envelope put together by hand, signed with the key of \<open>signer\<close>.\<close>

definition crafted :: "crypto \<Rightarrow> publisher \<Rightarrow> bytes \<Rightarrow> publisher \<Rightarrow> int \<Rightarrow> bytes \<Rightarrow> Decoded" where
  "crafted C p lookup signer expiresAt pow =
    \<lparr>d_V = 1, d_LookupID = lookup, d_WKPub = p_pub p, d_ExpiresAt = expiresAt, d_CT = p_ct p,
     d_Nonce = p_nonce p, d_PoW = pow,
     d_Sig = ed_sign C (p_priv signer) (CanonicalEnvelope 1 lookup (p_pub p) expiresAt (p_nonce p) (p_ct p))\<rparr>"

lemma crafted_fields [simp]:
  "d_V (crafted C p l s e w) = 1" "d_LookupID (crafted C p l s e w) = l" "d_WKPub (crafted C p l s e w) = p_pub p"
  "d_ExpiresAt (crafted C p l s e w) = e" "d_PoW (crafted C p l s e w) = w" "d_CT (crafted C p l s e w) = p_ct p"
  "d_Nonce (crafted C p l s e w) = p_nonce p"
  by (simp_all add: crafted_def)

lemma crafted_widths:
  assumes "publisher_ok C p" "publisher_ok C signer" "sha256_ok C" "ed25519_ok C" "length l = 32" "length w = 8"
  shows "decoded_widths (crafted C p l signer e w)"
  using assms publisher_lengths [OF assms(1,3,4)]
  by (auto simp: decoded_widths_def crafted_def publisher_ok_def ed25519_ok_def)

lemma crafted_signed:
  assumes "publisher_ok C p" "ed25519_ok C"
  shows "ed_verify C (p_pub p) (SigningBytes (crafted C p l p e w)) (d_Sig (crafted C p l p e w))"
  using assms by (auto simp: publisher_ok_def ed25519_ok_def SigningBytes_def) (simp add: crafted_def)

lemma pub_envelope_crafted:
  assumes "pub_envelope C ctx p e = Inr env"
  obtains w where "env = transmitted (crafted C p (p_lookupID p) p e w)" "length w = 8"
    "pow_Verify C (p_lookupID p) e w fx_PoWBits"
proof -
  from assms obtain w where w: "pow_Solve C ctx (p_lookupID p) e fx_PoWBits = Inr w"
    by (auto simp: pub_envelope_def andThen_Inr pub_solve_def split: sum.splits)
  with assms have "env = transmitted (crafted C p (p_lookupID p) p e w)"
    by (auto simp: pub_envelope_def andThen_Inr pub_solve_def signs_def record_Sign_def transmitted_def
      crafted_def Version_def byte_of_def split: sum.splits if_splits)
  with w that pow_Solve_verifies show thesis by blast
qed

text \<open>
  Whatever envelope a publisher makes, with an expiry after the directory's clock and within
  its bound, is accepted by an instance with the fixtures' limits, also when unknown members of
  any size up to the limit follow.
\<close>

definition fx_Limits :: Limits where
  "fx_Limits = \<lparr>MaxRecordBytes = fx_MaxRecordBytes, MaxTTL = fx_MaxTTL, PoWBits = fx_PoWBits, SkewGrace = fx_SkewGrace\<rparr>"

lemma fx_Limits_simps [simp]:
  "MaxRecordBytes fx_Limits = 4096" "MaxTTL fx_Limits = 172800" "PoWBits fx_Limits = fx_PoWBits" "SkewGrace fx_Limits = 300"
  by (simp_all add: fx_Limits_def fx_consts)

lemma fx_bound: "i64 (i64 (Now + 172800) + 300) = Now + 173100"
  by (simp add: i64_id is_i64_def Now_def)

text \<open>\<open>Check\<close> on a body whose fields decode, condition by condition.\<close>

lemma Check_decodable:
  assumes "accept_parse body = Some ((transmitted d)\<lparr>e_V := v\<rparr>)" and "decoded_widths d"
    and "int (length body) \<le> 4096"
  shows "accept_Check C body Now fx_Limits False =
    (let r = first_failing
        [(v \<noteq> 1, RecordBadVersion), (d_ExpiresAt d > Now + 173100, RecordTTLTooLong),
         (sha256 C (d_WKPub d) \<noteq> d_LookupID d, RecordLookupMismatch),
         (\<not> pow_Verify C (d_LookupID d) (d_ExpiresAt d) (d_PoW d) fx_PoWBits, RecordPoWInsufficient),
         (\<not> ed_verify C (d_WKPub d) (SigningBytes d) (d_Sig d), RecordSigInvalid),
         (d_ExpiresAt d \<le> Now, RecordExpired)] RecordAccepted
     in (r, if r = RecordAccepted then Some d else None))"
proof -
  have "(transmitted d)\<lparr>e_V := v, e_V := Version\<rparr> = transmitted d" by (simp add: transmitted_def Version_def)
  then have dec: "Envelope_Decode ((transmitted d)\<lparr>e_V := v, e_V := Version\<rparr>) = Inr d"
    using Envelope_Decode_transmitted [OF assms(2)] by simp
  have "VerifySignature C d = None \<longleftrightarrow> ed_verify C (d_WKPub d) (SigningBytes d) (d_Sig d)"
    by (rule VerifySignature_decoded [OF Envelope_Decode_transmitted [OF assms(2)]])
  with assms dec show ?thesis by (simp add: accept_Check_def fx_bound Version_def Let_def)
qed

section \<open>The searches\<close>

text \<open>
  While enough candidates with a high identifier remain below \<open>N\<close>, the scan returns the first
  \<open>n\<close> of them, in order, and stops behind the last one it took.
\<close>

definition high_in :: "crypto \<Rightarrow> nat \<Rightarrow> nat \<Rightarrow> nat list" where
  "high_in C i j = filter (\<lambda>k. high_bit (p_lookupID (newPublisher C k))) [i..<j]"

lemma high_in_step:
  "i < N \<Longrightarrow> high_in C i N = (if high_bit (p_lookupID (newPublisher C i)) then i # high_in C (Suc i) N else high_in C (Suc i) N)"
  by (simp add: high_in_def upt_conv_Cons)

lemma high_in_empty [simp]: "high_in C i i = []"
  by (simp add: high_in_def)

lemma high_in_split: "i \<le> j \<Longrightarrow> j \<le> N \<Longrightarrow> high_in C i N = high_in C i j @ high_in C j N"
  unfolding high_in_def by (metis filter_append upt_add_eq_append le_add_diff_inverse)

lemma scan_high_returns:
  assumes "N < 2 ^ 32" and "i \<le> N" and "n \<le> length out + length (high_in C i N)"
  shows "\<exists>j. i \<le> j \<and> j \<le> N \<and> scan_high C n i out = Some (out @ map (newPublisher C) (high_in C i j), j) \<and>
    (length out \<le> n \<longrightarrow> length out + length (high_in C i j) = n)"
  using assms(2,3)
proof (induction "N - i" arbitrary: i out rule: less_induct)
  case less
  show ?case
  proof (cases "length out \<ge> n")
    case True
    then show ?thesis by (intro exI [of _ i]) (simp add: scan_high.simps less.prems)
  next
    case False
    with less.prems have "i \<noteq> N" by auto
    with less.prems have i: "i < N" by simp
    then have next_i: "(i + 1) mod 2 ^ 32 = Suc i" using assms(1) by simp
    let ?out = "if high_bit (p_lookupID (newPublisher C i)) then out @ [newPublisher C i] else out"
    have rec: "scan_high C n i out = scan_high C n (Suc i) ?out"
      using False next_i by (subst scan_high.simps) (simp add: Let_def)
    have "n \<le> length ?out + length (high_in C (Suc i) N)"
      using less.prems(2) high_in_step [OF i] by (simp split: if_splits)
    moreover have "length ?out \<le> n" using False by simp
    ultimately obtain j where j: "Suc i \<le> j" "j \<le> N"
      "scan_high C n (Suc i) ?out = Some (?out @ map (newPublisher C) (high_in C (Suc i) j), j)"
      "length ?out + length (high_in C (Suc i) j) = n"
      using less.hyps [of "Suc i" ?out] diff_less_mono2 [OF lessI i] i by (metis Suc_leI)
    with rec False high_in_step [of i j C] show ?thesis
      by (intro exI [of _ j]) (auto split: if_splits)
  qed
qed

lemma highPublishers_returns:
  assumes "N < 2 ^ 32" and "i \<le> N" and "n \<le> length (high_in C i N)"
  shows "\<exists>j. i \<le> j \<and> j \<le> N \<and> highPublishers C i n = Some (map (newPublisher C) (high_in C i j), j) \<and>
    length (high_in C i j) = n \<and> length (high_in C j N) = length (high_in C i N) - n"
proof -
  obtain j where "i \<le> j" "j \<le> N" "highPublishers C i n = Some (map (newPublisher C) (high_in C i j), j)"
    "length (high_in C i j) = n"
    using scan_high_returns [OF assms(1,2), of n "[]" C] assms(3) by (auto simp: highPublishers_def)
  with high_in_split [of i j N C] show ?thesis by auto
qed

text \<open>The counter the weak search returns fails, and it returns as soon as some counter fails.\<close>

lemma weak_from_fails:
  "weak_from C l e i = Some w \<Longrightarrow> length w = 8 \<and> \<not> pow_Verify C l e w fx_PoWBits"
  by (rule weak_from.raw_induct [where P = "\<lambda>C l e i w. length w = 8 \<and> \<not> pow_Verify C l e w fx_PoWBits"])
    (auto split: if_splits)

lemma insufficientPoW_fails:
  "insufficientPoW C l e = Some w \<Longrightarrow> length w = 8 \<and> \<not> pow_Verify C l e w fx_PoWBits"
  unfolding insufficientPoW_def by (rule weak_from_fails)

lemma weak_from_returns:
  assumes "i \<le> j" "j < 2 ^ 64" "\<not> pow_Verify C l e (be_bytes 8 j) fx_PoWBits"
  shows "\<exists>w. weak_from C l e i = Some w"
  using assms
proof (induction "j - i" arbitrary: i rule: less_induct)
  case less
  show ?case
  proof (cases "pow_Verify C l e (be_bytes 8 i) fx_PoWBits")
    case True
    with less.prems have "i \<noteq> j" by auto
    with less.prems have "i < j" by simp
    moreover from this less.prems have "(i + 1) mod 2 ^ 64 = Suc i" by simp
    ultimately show ?thesis using less.hyps [of "Suc i"] less.prems True
      by (subst weak_from.simps) simp
  qed (subst weak_from.simps, simp)
qed

section \<open>Spellings that are refused\<close>

lemma b64_Decode_sextets: "\<forall>s \<in> set ss. s < 64 \<Longrightarrow> b64_Decode (map b64_char ss) = bytes_of_sextets ss"
proof -
  assume ss: "\<forall>s \<in> set ss. s < 64"
  then have "filter (\<lambda>c. \<not> is_newline c) (map b64_char ss) = map b64_char ss"
    by (auto simp: filter_id_conv b64_char_not_newline)
  moreover have "those (map b64_sextet (map b64_char ss)) = Some ss"
    using ss those_map_Some [of ss "b64_sextet \<circ> b64_char" id] by simp
  ultimately show ?thesis by (simp add: b64_Decode_def)
qed

lemma sextets_of_empty: "sextets_of b = [] \<longleftrightarrow> b = []"
  by (cases b rule: sextets_of.cases) auto

lemma last_sextet: "length b mod 3 = 2 \<Longrightarrow> last (sextets_of b) mod 4 = 0"
  by (induction b rule: sextets_of.induct) (auto simp: mod_Suc sextets_of_empty split: if_splits)

lemma length_sextets_mod: "length (sextets_of b) mod 4 = 3 \<longleftrightarrow> length b mod 3 = 2"
  by (induction b rule: sextets_of.induct) (simp_all add: mod_Suc split: if_splits)

lemma index_byte_map:
  assumes "inj_on f {..<n}" and "i < n"
  shows "index_byte (map f [0..<n]) (f i) = Some i"
proof -
  have "index_byte (map f [a..<n]) (f i) = Some (i - a)" if "a \<le> i" for a
    using that
  proof (induction "i - a" arbitrary: a)
    case 0
    with assms(2) show ?case by (simp add: upt_conv_Cons)
  next
    case (Suc k)
    with assms(2) have "a < i" "a < n" "k = i - Suc a" by auto
    moreover have "f a \<noteq> f i"
      using inj_onD [OF assms(1), of a i] \<open>a < i\<close> \<open>a < n\<close> assms(2) by auto
    ultimately show ?case using Suc.hyps(1) [of "Suc a"] by (simp add: upt_conv_Cons)
  qed
  from this [of 0] show ?thesis by simp
qed

lemma nc_alphabet_map: "nc_alphabet = map b64_char [0..<64]"
  by code_simp

lemma b64_char_inj: "inj_on b64_char {..<64}"
  by (rule inj_onI) (metis b64_sextet_char lessThan_iff option.inject)

lemma nonCanonical_refused:
  assumes "length b mod 3 = 2"
  shows "\<exists>s. nonCanonical (b64_Encode b) = Inr s \<and> b64_Decode s = None \<and> length s = length (b64_Encode b)"
proof -
  have ne: "sextets_of b \<noteq> []" using assms by (cases b rule: sextets_of.cases) auto
  obtain ss x where ss: "sextets_of b = ss @ [x]" using ne by (metis append_butlast_last_id)
  have x: "x < 64" "\<forall>s \<in> set ss. s < 64" using sextets_of_less [of b] by (auto simp: ss)
  have x4: "x mod 4 = 0" using last_sextet [OF assms] by (simp add: ss)
  have "x AND 3 = 0" using x4 and_exp_eq_0_iff_not_bit take_bit_eq_mask [of 2 x]
    by (simp add: take_bit_eq_mod mask_eq_exp_minus_1)
  moreover have "even x" using x4 by presburger
  then have "x OR 1 = x + 1" using or_one_eq [of x] by simp
  moreover have "x + 1 < 64" using x x4 by presburger
  moreover have "index_byte nc_alphabet (b64_char x) = Some x"
    unfolding nc_alphabet_map by (rule index_byte_map [OF b64_char_inj x(1)])
  ultimately have nc: "nonCanonical (b64_Encode b) = Inr (map b64_char (ss @ [x + 1]))"
    by (simp add: nonCanonical_def b64_Encode_def ss) (simp add: nc_alphabet_map)
  have "bytes_of_sextets (ss @ [x + 1]) = None"
  proof (rule ccontr)
    assume "bytes_of_sextets (ss @ [x + 1]) \<noteq> None"
    then obtain b' where b': "bytes_of_sextets (ss @ [x + 1]) = Some b'" by blast
    from sextets_of_bytes [OF this] x \<open>x + 1 < 64\<close> have "sextets_of b' = ss @ [x + 1]" by auto
    moreover from this have "length b' mod 3 = 2"
      using assms length_sextets_mod [of b] length_sextets_mod [of b'] by (simp add: ss)
    ultimately have "(x + 1) mod 4 = 0" using last_sextet [of b'] by simp
    with x4 show False by presburger
  qed
  with nc b64_Decode_sextets [of "ss @ [x + 1]"] x \<open>x + 1 < 64\<close> show ?thesis
    by (intro exI [of _ "map b64_char (ss @ [x + 1])"]) (auto simp: b64_Encode_def ss)
qed

lemma padded_refused:
  assumes "length b mod 3 \<noteq> 0"
  shows "\<exists>s. padded (b64_Encode b) = Inr s \<and> b64_Decode s = None"
proof -
  have "length b mod 3 = 1 \<or> length b mod 3 = 2"
    using assms mod_less_divisor [of 3 "length b"] by linarith
  then have "(3 - length b mod 3) mod 3 \<noteq> 0" by auto
  then have "CHR ''='' \<in> set (b64_Encode b @ replicate ((3 - length b mod 3) mod 3) CHR ''='')" by simp
  with b64_Decode_padding show ?thesis by (simp add: padded_def)
qed

section \<open>The expected answer of a lookup\<close>

lemma hexNibble_nibble: "hexNibble = nibble"
  by (rule ext) (simp add: hexNibble_def nibble_def)

lemma fill_prefix_pack: "fill_prefix i cs full = pack_nibbles i cs full"
  by (induction i cs full rule: pack_nibbles.induct)
    (auto simp: hexNibble_nibble even_iff_mod_2_eq_zero split: option.splits)

lemma matchesPrefix_Matches:
  "n \<le> 8 * length l \<Longrightarrow> matchesPrefix l (clear_spare full n) n = query_Matches (newQuery full n) l"
  by (simp add: matchesPrefix_def query_Matches_def newQuery_fields Let_def)

lemma ParseUint32_show: "n < 2 ^ 32 \<Longrightarrow> ParseUint32 (show_nat n) = Some n"
  using show_nat_digits [of n] by (simp add: ParseUint32_def)

lemma show_nat_canonical: "show_nat n \<noteq> [] \<and> \<not> (length (show_nat n) > 1 \<and> hd (show_nat n) = CHR ''0'')"
proof (cases "n = 0")
  case False
  then obtain c ds where "show_nat n = c # ds" "c \<noteq> CHR ''0''" using show_nat_first [of n] by auto
  then show ?thesis by simp
qed simp

lemma matchingRecords_pack:
  "matchingRecords recs p n =
    (if length p \<noteq> (n + 3) div 4 then Inl PrefixChars
     else case pack_nibbles 0 p (replicate ((n + 7) div 8) 0) of
       None \<Rightarrow> Inl PrefixHex
     | Some full \<Rightarrow> Inr (filter (\<lambda>r. matchesPrefix (fr_lookup r) (clear_spare full n) n) recs))"
  by (simp only: matchingRecords_def clear_spare_def Let_def fill_prefix_pack)

lemma matchingRecords_Parse:
  assumes "n \<le> 256" "n \<le> maxBits" "\<forall>r \<in> set recs. length (fr_lookup r) = 32"
  shows "matchingRecords recs p n =
    (case query_Parse p True (show_nat n) True maxBits of
       Inl e \<Rightarrow> Inl (if e = ReasonPrefixLength then PrefixChars else PrefixHex)
     | Inr q \<Rightarrow> Inr (filter (\<lambda>r. query_Matches q (fr_lookup r)) recs))"
proof -
  have parse: "query_Parse p True (show_nat n) True maxBits =
      (if length p \<noteq> (n + 3) div 4 then Inl ReasonPrefixLength
       else case pack_nibbles 0 p (replicate ((n + 7) div 8) 0) of
         None \<Rightarrow> Inl ReasonPrefixNotHex | Some full \<Rightarrow> Inr (newQuery full n))"
    using assms(1,2) ParseUint32_show [of n] show_nat_canonical [of n]
    by (auto simp: query_Parse_def LookupIDBits_def)
  show ?thesis
  proof (cases "length p = (n + 3) div 4 \<and> pack_nibbles 0 p (replicate ((n + 7) div 8) 0) \<noteq> None")
    case False
    then show ?thesis by (auto simp: matchingRecords_pack parse)
  next
    case True
    then obtain full where full: "pack_nibbles 0 p (replicate ((n + 7) div 8) 0) = Some full" by auto
    have "(\<lambda>r. matchesPrefix (fr_lookup r) (clear_spare full n) n) r \<longleftrightarrow> query_Matches (newQuery full n) (fr_lookup r)"
      if "r \<in> set recs" for r
      using assms(1,3) that by (intro matchesPrefix_Matches) auto
    with True full show ?thesis by (simp add: matchingRecords_pack parse cong: filter_cong)
  qed
qed

text \<open>A table that shows, at a given time, exactly the given records.\<close>

definition shows_records :: "int \<Rightarrow> table \<Rightarrow> storedRecord list \<Rightarrow> bool" where
  "shows_records now db recs \<longleftrightarrow> table_ok db \<and>
    map (\<lambda>r. (r_lookup r, r_expires r, r_envelope r)) (live_rows now db) =
    map (\<lambda>r. (fr_lookup r, fr_expiresAt r, fr_body r)) (sortStored recs)"

lemma filter_map_pair:
  assumes "map (\<lambda>r. (f r, h r, g r)) xs = map (\<lambda>r. (f' r, h' r, g' r)) ys"
  shows "map g (filter (\<lambda>r. P (f r)) xs) = map g' (filter (\<lambda>r. P (f' r)) ys)"
  using assms
proof (induction xs arbitrary: ys)
  case (Cons x xs)
  then obtain y ys' where "ys = y # ys'" by (cases ys) auto
  with Cons show ?case by auto
qed simp

lemma shows_records_ByPrefix:
  assumes "shows_records now db recs" and "query_Parse p pp b bp maxBits = Inr q"
  shows "store_ByPrefix False q now db =
    Inr (map fr_body (filter (\<lambda>r. query_Matches q (fr_lookup r)) (sortStored recs)))"
proof -
  have "sort_key r_lookup [r \<leftarrow> db. now < r_expires r \<and> query_Matches q (r_lookup r)] =
      [r \<leftarrow> live_rows now db. query_Matches q (r_lookup r)]"
    by (simp add: live_rows_def filter_sort conj_commute)
  moreover have "map r_envelope [r \<leftarrow> live_rows now db. query_Matches q (r_lookup r)] =
      map fr_body (filter (\<lambda>r. query_Matches q (fr_lookup r)) (sortStored recs))"
    using assms(1) unfolding shows_records_def by (blast intro: filter_map_pair)
  moreover have "table_ok db" using assms(1) by (simp add: shows_records_def)
  ultimately show ?thesis by (simp only: ByPrefix_exact [OF _ assms(2)])
qed

lemma shows_records_count:
  assumes "shows_records now db recs"
  shows "exec_count now db = length recs"
proof -
  have "length (live_rows now db) = length (sortStored recs)"
    using assms map_eq_imp_length_eq unfolding shows_records_def by blast
  then show ?thesis by (simp add: exec_count_live sortStored_def)
qed

text \<open>A record and the table that holds it, for the witness.\<close>

definition sample_held :: storedRecord where
  "sample_held = \<lparr>fr_id = ''sample'', fr_note = [], fr_publisher = \<lparr>p_index = 0, p_priv = [], p_pub = [], p_lookupID = 0x80 # replicate 31 7,
    p_ct = [], p_nonce = []\<rparr>, fr_expiresAt = 100, fr_body = ''{}''\<rparr>"

definition sample_table :: table where
  "sample_table = [\<lparr>r_lookup = 0x80 # replicate 31 7, r_prefix = prefix32 (0x80 # replicate 31 7), r_wk_pub = replicate 32 1, r_expires = 100,
    r_envelope = ''{}''\<rparr>]"

lemma sample_shown: "shows_records 50 sample_table [sample_held]"
  by (simp add: shows_records_def sample_table_def sample_held_def table_ok_def row_ok_def live_rows_def sortStored_def fr_lookup_def)

lemma sample_query: "\<exists>q. query_Parse ''8'' True (show_nat 1) True 1 = Inr q"
proof -
  have "pack_nibbles 0 ''8'' [0] = Some [0x80]" by code_simp
  moreover have "show_nat 1 \<noteq> []" "length (show_nat 1) = 1" by code_simp+
  ultimately show ?thesis using ParseUint32_show [of 1] by (simp add: query_Parse_def LookupIDBits_def)
qed

text \<open>
  C14. The generator's own masking and the directory agree. On an instance that shows the records,
  the query with the given prefix and width is refused for the length or for a character of the
  prefix exactly when the generator refuses it, and is answered otherwise with the bodies of the
  records the generator selects, in its order.
\<close>

theorem matchingRecords_is_the_lookup:
  assumes "shows_records now db recs" and "\<forall>r \<in> set recs. length (fr_lookup r) = 32"
    and "n \<le> 256" and "n \<le> maxBits"
  shows "case query_Parse p True (show_nat n) True maxBits of
      Inl e \<Rightarrow> (e = ReasonPrefixLength \<and> matchingRecords (sortStored recs) p n = Inl PrefixChars) \<or>
        (e = ReasonPrefixNotHex \<and> matchingRecords (sortStored recs) p n = Inl PrefixHex)
    | Inr q \<Rightarrow> \<exists>out. matchingRecords (sortStored recs) p n = Inr out \<and>
        store_ByPrefix False q now db = Inr (map fr_body out)"
proof -
  have "\<forall>r \<in> set (sortStored recs). length (fr_lookup r) = 32" using assms(2) by (simp add: sortStored_def)
  note m = matchingRecords_Parse [OF assms(3,4) this, of p]
  have "e = ReasonPrefixLength \<or> e = ReasonPrefixNotHex"
    if "query_Parse p True (show_nat n) True maxBits = Inl e" for e
    using that assms(3,4) ParseUint32_show [of n] show_nat_canonical [of n]
    by (auto simp: query_Parse_def LookupIDBits_def split: if_splits option.splits)
  with m shows_records_ByPrefix [OF assms(1), of p True "show_nat n" True maxBits] show ?thesis
    by (auto split: sum.splits)
qed

theorem matchingRecords_is_the_lookup_witness:
  "\<exists>q out. query_Parse ''8'' True (show_nat 1) True 1 = Inr q \<and> matchingRecords [sample_held] ''8'' 1 = Inr out \<and>
    store_ByPrefix False q 50 sample_table = Inr (map fr_body out)"
proof -
  have "sortStored [sample_held] = [sample_held]" by (simp add: sortStored_def)
  with matchingRecords_is_the_lookup [OF sample_shown, of 1 1 "''8''"] sample_query show ?thesis
    by (auto simp: sample_held_def fr_lookup_def)
qed

end
