(* ===== verification/Fixtures.thy ===== *)
theory Fixtures imports Material begin

text \<open>
  \<open>internal/apivectors\<close>: the file of API fixtures (\<open>apivectors.go\<close>), the generator's state and
  the constructors of requests and expectations, the initial state an instance holds before a
  fixture runs, and the checks on it (\<open>fixtures.go\<close>). A
  fixture is a request in transport terms with everything expected of the response.
\<close>

section \<open>The file\<close>

definition BodyEmpty :: string where "BodyEmpty = ''empty''"
definition BodyUTF8 :: string where "BodyUTF8 = ''utf8''"
definition BodyBase64URL :: string where "BodyBase64URL = ''base64url''"
definition BodyRepeatedByte :: string where "BodyRepeatedByte = ''repeated_byte''"

definition CompareEmpty :: string where "CompareEmpty = ''empty''"
definition CompareExactBytes :: string where "CompareExactBytes = ''exact_bytes''"
definition CompareJSONObject :: string where "CompareJSONObject = ''json_object''"
definition CompareRecordsArray :: string where "CompareRecordsArray = ''records_array''"

definition InstanceDefault :: string where "InstanceDefault = ''default''"
definition InstanceSignalDisabled :: string where "InstanceSignalDisabled = ''signal-disabled''"
definition InstanceDraining :: string where "InstanceDraining = ''draining''"
definition InstanceLimitsOfOne :: string where "InstanceLimitsOfOne = ''limits-of-one''"
definition InstanceDisabledAndLimited :: string where "InstanceDisabledAndLimited = ''signal-disabled-limits-of-one''"

lemmas encoding_names = BodyEmpty_def BodyUTF8_def BodyBase64URL_def BodyRepeatedByte_def
lemmas comparison_names = CompareEmpty_def CompareExactBytes_def CompareJSONObject_def CompareRecordsArray_def
lemmas instance_names = InstanceDefault_def InstanceSignalDisabled_def InstanceDraining_def
  InstanceLimitsOfOne_def InstanceDisabledAndLimited_def

record wire_body =
  wb_Encoding :: string
  wb_Value :: string
  wb_Byte :: int
  wb_Length :: int

definition empty_body :: wire_body where
  "empty_body = \<lparr>wb_Encoding = BodyEmpty, wb_Value = [], wb_Byte = 0, wb_Length = 0\<rparr>"

definition text_body :: "string \<Rightarrow> wire_body" where
  "text_body s = \<lparr>wb_Encoding = BodyUTF8, wb_Value = s, wb_Byte = 0, wb_Length = 0\<rparr>"

definition binary_body :: "bytes \<Rightarrow> wire_body" where
  "binary_body b = \<lparr>wb_Encoding = BodyBase64URL, wb_Value = b64_Encode b, wb_Byte = 0, wb_Length = 0\<rparr>"

definition repeated_body :: "int \<Rightarrow> int \<Rightarrow> wire_body" where
  "repeated_body b n = \<lparr>wb_Encoding = BodyRepeatedByte, wb_Value = [], wb_Byte = b, wb_Length = n\<rparr>"

definition Body_Bytes :: "wire_body \<Rightarrow> fx_error + bytes" where
  "Body_Bytes b =
    (if wb_Encoding b = BodyEmpty \<or> wb_Encoding b = [] then Inr []
     else if wb_Encoding b = BodyUTF8 then Inr (bytes_of_string (wb_Value b))
     else if wb_Encoding b = BodyBase64URL then
       (case b64_Decode (wb_Value b) of None \<Rightarrow> Inl NotDecodable | Some raw \<Rightarrow> Inr raw)
     else if wb_Encoding b = BodyRepeatedByte then
       (if wb_Byte b < 0 \<or> wb_Byte b > 255 then Inl ByteRange
        else if wb_Length b < 0 then Inl NegativeLength
        else Inr (replicate (nat (wb_Length b)) (byte_of (nat (wb_Byte b)))))
     else Inl UnknownEncoding)"

record wire_request =
  wq_Method :: string
  wq_Path :: string
  wq_Query :: string
  wq_Headers :: "(string, string) gomap"
  wq_Body :: wire_body

record prior_request =
  pr_Note :: string
  pr_Repeat :: int
  pr_ExpectStatus :: int
  pr_Request :: wire_request

record expectation =
  ex_Status :: int
  ex_Body :: wire_body
  ex_Comparison :: string
  ex_Headers :: "(string, string) gomap"
  ex_HeaderTokens :: "(string, string list) gomap"
  ex_HeadersAbsent :: "string list"

record fixture =
  f_ID :: string
  f_Spec :: string
  f_Row :: string
  f_Note :: "string list"
  f_Instance :: string
  f_Conditions :: "string list"
  f_ExpectFirst :: string
  f_OrderIsNormative :: bool
  f_Discriminating :: bool
  f_MutatesState :: bool
  f_PriorRequests :: "prior_request list"
  f_Request :: wire_request
  f_Expect :: expectation

record rate_limits =
  rl_PutRecord :: int
  rl_GetRecord :: int
  rl_Signal :: int
  rl_WindowSeconds :: int

record fx_instance =
  in_Name :: string
  in_Note :: "string list"
  in_MaxTTL :: int
  in_MaxRecordBytes :: int
  in_PoWBits :: int
  in_SkewGrace :: int
  in_Signal :: bool
  in_Draining :: bool
  in_MaxSignalBlobBytes :: int
  in_SignalTTL :: int
  in_SignalPollWindowMaximum :: int
  in_KMin :: int
  in_SourceURL :: string
  in_RateLimits :: rate_limits
  in_LoadInitialRecords :: bool
  in_LoadInitialChannels :: bool

record initial_record =
  ir_ID :: string
  ir_Note :: string
  ir_LookupID :: string
  ir_LoadedAt :: int
  ir_ExpiresAt :: int
  ir_LoadExpectStatus :: int
  ir_Envelope :: wire_body

record initial_channel =
  ic_ID :: string
  ic_Note :: string
  ic_ChannelID :: string
  ic_PostedAt :: int
  ic_ExpiresAt :: int
  ic_Held :: bool
  ic_LoadExpectStatus :: int
  ic_Blob :: wire_body

record coverage_row =
  cr_Table :: string
  cr_Row :: string
  cr_Status :: int
  cr_Fixtures :: "string list"

record response_invariants =
  ri_Note :: "string list"
  ri_AppliesTo :: string
  ri_Headers :: "(string, string) gomap"
  ri_HeadersAbsent :: "string list"

record table_order =
  to_Table :: string
  to_Normative :: bool
  to_Note :: string
  to_Conditions :: "string list"

type_synonym named_note = "string \<times> string"

record encoding_notes =
  en_Note :: string
  en_BinaryValues :: string
  en_Bodies :: string
  en_BodyEncodings :: "named_note list"
  en_Comparisons :: "named_note list"
  en_Headers :: string
  en_Query :: string
  en_Conditions :: "named_note list"
  en_Tables :: "table_order list"

record fx_harness =
  ha_Note :: "string list"
  ha_ResetBetweenFixtures :: bool
  ha_OrderIndependent :: bool

record initial_state =
  is_Note :: "string list"
  is_Records :: "initial_record list"
  is_SignalChannels :: "initial_channel list"

record fx_file =
  fl_Comment :: string
  fl_Warning :: "string list"
  fl_Spec :: string
  fl_GeneratedBy :: string
  fl_Now :: int
  fl_Encoding :: encoding_notes
  fl_Harness :: fx_harness
  fl_Instances :: "fx_instance list"
  fl_InitialState :: initial_state
  fl_ResponseInvariants :: response_invariants
  fl_Coverage :: "coverage_row list"
  fl_Fixtures :: "fixture list"

section \<open>Conditions\<close>

definition condAccepted :: string where "condAccepted = ''accepted''"
definition condRateLimited :: string where "condRateLimited = ''rate_limited''"
definition condTooLarge :: string where "condTooLarge = ''too_large''"
definition condMalformed :: string where "condMalformed = ''malformed''"
definition condBadVersion :: string where "condBadVersion = ''bad_version''"
definition condTTLTooLong :: string where "condTTLTooLong = ''ttl_too_long''"
definition condLookupMismatch :: string where "condLookupMismatch = ''lookup_mismatch''"
definition condPoWInsufficient :: string where "condPoWInsufficient = ''pow_insufficient''"
definition condSigInvalid :: string where "condSigInvalid = ''sig_invalid''"
definition condExpired :: string where "condExpired = ''expired''"
definition condNotNewer :: string where "condNotNewer = ''not_newer''"

definition condStored :: string where "condStored = ''stored''"
definition condDelivered :: string where "condDelivered = ''delivered''"
definition condEmpty :: string where "condEmpty = ''empty''"
definition condBadChannel :: string where "condBadChannel = ''bad_channel''"
definition condConflict :: string where "condConflict = ''conflict''"
definition condSignalLarge :: string where "condSignalLarge = ''signal_too_large''"
definition condDisabled :: string where "condDisabled = ''signal_disabled''"

lemmas record_conds = condAccepted_def condRateLimited_def condTooLarge_def condMalformed_def
  condBadVersion_def condTTLTooLong_def condLookupMismatch_def condPoWInsufficient_def
  condSigInvalid_def condExpired_def condNotNewer_def
lemmas signal_conds = condStored_def condDelivered_def condEmpty_def condBadChannel_def
  condConflict_def condSignalLarge_def condDisabled_def

definition queryConditionOrder :: "string list" where
  "queryConditionOrder = [condRateLimited, condMalformed]"

definition signalConditionOrder :: "string list" where
  "signalConditionOrder = [condDisabled, condRateLimited, condBadChannel, condSignalLarge, condConflict]"

definition recordConditionOrder :: "string list" where
  "recordConditionOrder =
    [condRateLimited, condTooLarge, condMalformed, condBadVersion, condTTLTooLong, condLookupMismatch,
     condPoWInsufficient, condSigInvalid, condExpired, condNotNewer]"

text \<open>Every row of every normative table: its key, table, text and status.\<close>

definition coverageRows :: "(string \<times> string \<times> string \<times> int) list" where
  "coverageRows =
    [(''5.1/meta'', (sect @ ''5.1''), ''GET /v1/meta returns all seven REQUIRED members, source_url non-empty'', 200),
     (''5.1/signal-false'', (sect @ ''5.1''), ''An instance that does not broker signal channels advertises \"signal\": false'', 200),
     (''5.2/accepted'', (sect @ ''5.2''), ''Accepted and stored'', 204),
     (''5.2/rate-limited'', (sect @ ''5.2''), ''Rate limited'', 429),
     (''5.2/too-large'', (sect @ ''5.2''), ''Received body exceeds max_record_bytes'', 413),
     (''5.2/malformed'', (sect @ ''5.2''), ''Body is not well-formed JSON, a required member is absent, a value is not valid unpadded base64url, or a fixed-width field decodes to the wrong length'', 400),
     (''5.2/bad-version'', (sect @ ''5.2''), ''v is not 1'', 400),
     (''5.2/ttl-too-long'', (sect @ ''5.2''), ''expires_at exceeds now + max_ttl'', 400),
     (''5.2/lookup-mismatch'', (sect @ ''5.2''), ''lookup_id is not SHA-256(wk_pub)'', 403),
     (''5.2/pow'', (sect @ ''5.2''), ''pow does not satisfy pow_bits'', 403),
     (''5.2/sig'', (sect @ ''5.2''), ''sig does not verify under wk_pub'', 403),
     (''5.2/expired'', (sect @ ''5.2''), ''expires_at is not strictly greater than the directory's current time'', 409),
     (''5.2/not-newer'', (sect @ ''5.2''), ''expires_at is not strictly greater than that of an unexpired stored record under the same lookup_id'', 409),
     (''5.2/order'', (sect @ ''5.2''), ''The conditions MUST be evaluated in the order of that table, and the directory MUST return the code of the first condition that fails'', 0),
     (''5.2/content-type'', (sect @ ''5.2''), ''A directory MUST NOT reject a request on the basis of its Content-Type'', 204),
     (''5.2/verbatim'', (sect @ ''5.2''), ''Envelopes are stored and returned verbatim; the returned bytes are the received bytes'', 200),
     (''5.3/match'', (sect @ ''5.3''), ''Returns every non-expired envelope whose lookup_id begins with the given bit prefix'', 200),
     (''5.3/empty-result'', (sect @ ''5.3''), ''A directory with no matching records returns 200 with an empty records array, never 404'', 200),
     (''5.3/mask-padding-bits'', (sect @ ''5.3''), ''Where bits is not a multiple of four a directory MUST mask and ignore the trailing bits, and MUST NOT reject the query because they are non-zero'', 200),
     (''5.3/uppercase'', (sect @ ''5.3''), ''prefix is hex, case-insensitive: both a3f and A3F MUST be accepted'', 200),
     (''5.3/bits-zero'', (sect @ ''5.3''), ''A directory MUST accept both ?prefix=&bits=0 and ?bits=0 with prefix absent'', 200),
     (''5.3/over-precise'', (sect @ ''5.3''), ''Directories MUST enforce a maximum bits and reject over-precise queries with 400'', 400),
     (''5.3/bits-required'', (sect @ ''5.3''), ''bits is REQUIRED; a directory MUST NOT infer it from the length of prefix'', 400),
     (''5.3/bits-lexical'', (sect @ ''5.3''), ''bits is one or more ASCII digits: no sign, no leading zeros, no whitespace, no other notation'', 400),
     (''5.3/bits-max-256'', (sect @ ''5.3''), ''bits MUST NOT exceed 256, the width of a lookup_id'', 400),
     (''5.3/prefix-hex'', (sect @ ''5.3''), ''A directory MUST reject any character outside [0-9a-fA-F] with 400'', 400),
     (''5.3/prefix-length'', (sect @ ''5.3''), ''prefix MUST contain exactly ceil(bits / 4) hex characters'', 400),
     (''5.3/repeated-parameter'', (sect @ ''5.3''), ''A query supplying prefix or bits more than once MUST be rejected rather than resolved'', 400),
     (''5.3/content-type'', (sect @ ''5.3''), ''GET /v1/record responds with Content-Type: application/json'', 200),
     (''5.3/order'', (sect @ ''5.3''), ''Rate limiting is evaluated before parameter validity, so a shed source is refused before the directory parses on its behalf'', 0),
     (''5.3/rate-limited'', (sect @ ''5.3''), (''Rate limited. '' @ sect @ ''6.2 requires a per-source limit on GET as well as PUT, and '' @ sect @ ''6.4 counts it as its own class; '' @ sect @ ''5.3 states no code for it, and 429 is what '' @ sect @ ''5.2 and '' @ sect @ ''5.4 bind rate limiting to''), 429),
     (''5.4/post-stored'', (sect @ ''5.4''), (''POST '' @ emdash @ '' Stored''), 204),
     (''5.4/post-bad-channel'', (sect @ ''5.4''), (''POST '' @ emdash @ '' channel_id is not exactly 32 bytes of unpadded base64url''), 400),
     (''5.4/post-too-large'', (sect @ ''5.4''), (''POST '' @ emdash @ '' body exceeds the '' @ sect @ ''4.3 signal channel payload limit''), 413),
     (''5.4/post-conflict'', (sect @ ''5.4''), (''POST '' @ emdash @ '' channel already holds an unexpired blob''), 409),
     (''5.4/get-delivered'', (sect @ ''5.4''), (''GET '' @ emdash @ '' blob present, or one arrived within the long-poll window''), 200),
     (''5.4/get-empty'', (sect @ ''5.4''), (''GET '' @ emdash @ '' long-poll window elapsed with no blob''), 204),
     (''5.4/get-bad-channel'', (sect @ ''5.4''), (''GET '' @ emdash @ '' channel_id is not exactly 32 bytes of unpadded base64url''), 400),
     (''5.4/rate-limited'', (sect @ ''5.4''), (''either '' @ emdash @ '' rate limited''), 429),
     (''5.4/draining'', (sect @ ''5.4''), (''either '' @ emdash @ '' instance at capacity, or shutting down''), 429),
     (''5.4/disabled'', (sect @ ''5.4''), (''either '' @ emdash @ '' instance advertises \"signal\": false''), 404),
     (''5.4/octet-stream'', (sect @ ''5.4''), ''A 200 response carries Content-Type: application/octet-stream'', 200),
     (''5.4/order'', (sect @ ''5.4''), (''The conditions MUST be evaluated in the order of that table. Unlike '' @ sect @ ''5.2's cheapest-first ordering, '' @ sect @ ''5.4 orders by durability: the client is told the answer that says the most about what to do next''), 0),
     (''5.5/preflight'', (sect @ ''5.5''), ''OPTIONS preflight for PUT /v1/record and POST /v1/signal/{channel_id}'', 204),
     (''5.5/allow-origin'', (sect @ ''5.5''), ''Access-Control-Allow-Origin: * on every /v1/ response. Asserted on every fixture in this file through response_invariants, not only on the ones listed here'', 0),
     (''5.5/no-credentials'', (sect @ ''5.5''), ''Access-Control-Allow-Credentials MUST NOT be sent. Asserted on every fixture in this file through response_invariants, not only on the ones listed here'', 0)]"

section \<open>The generator\<close>

record generator =
  g_next :: nat
  g_initial :: "storedRecord list"
  g_channels :: "initial_channel list"
  g_recency :: "publisher option"
  g_recencyExpires :: int
  g_heldChannel :: string
  g_expiredChannel :: string
  g_freeChannel :: string
  g_sizeChannel :: string
  g_heldBlob :: bytes
  g_fixtures :: "fixture list"
  g_coverage :: "(string, string list) gomap"

definition generator_start :: generator where
  "generator_start = \<lparr>g_next = 0, g_initial = [], g_channels = [], g_recency = None, g_recencyExpires = 0,
    g_heldChannel = [], g_expiredChannel = [], g_freeChannel = [], g_sizeChannel = [], g_heldBlob = [],
    g_fixtures = [], g_coverage = []\<rparr>"

record fixtureCase =
  fc_id :: string
  fc_spec :: string
  fc_row :: string
  fc_note :: "string list"
  fc_instance :: string
  fc_conditions :: "string list"
  fc_first :: string
  fc_ordered :: bool
  fc_blunt :: bool
  fc_mutates :: bool
  fc_prior :: "prior_request list"
  fc_request :: wire_request
  fc_expect :: expectation
  fc_rows :: "string list"

text \<open>A composite literal leaves the fields it does not name at their zero values.\<close>

definition zero_case :: fixtureCase where
  "zero_case = \<lparr>fc_id = [], fc_spec = [], fc_row = [], fc_note = [], fc_instance = [], fc_conditions = [], fc_first = [],
    fc_ordered = False, fc_blunt = False, fc_mutates = False, fc_prior = [],
    fc_request = \<lparr>wq_Method = [], wq_Path = [], wq_Query = [], wq_Headers = [],
      wq_Body = \<lparr>wb_Encoding = [], wb_Value = [], wb_Byte = 0, wb_Length = 0\<rparr>\<rparr>,
    fc_expect = \<lparr>ex_Status = 0, ex_Body = \<lparr>wb_Encoding = [], wb_Value = [], wb_Byte = 0, wb_Length = 0\<rparr>,
      ex_Comparison = [], ex_Headers = [], ex_HeaderTokens = [], ex_HeadersAbsent = []\<rparr>,
    fc_rows = []\<rparr>"

definition fixture_of :: "fixtureCase \<Rightarrow> fixture" where
  "fixture_of c = \<lparr>f_ID = fc_id c, f_Spec = fc_spec c, f_Row = fc_row c, f_Note = fc_note c,
    f_Instance = (if fc_instance c = [] then InstanceDefault else fc_instance c),
    f_Conditions = fc_conditions c, f_ExpectFirst = fc_first c, f_OrderIsNormative = fc_ordered c,
    f_Discriminating = (\<not> fc_blunt c), f_MutatesState = fc_mutates c, f_PriorRequests = fc_prior c,
    f_Request = fc_request c, f_Expect = fc_expect c\<rparr>"

fun cover :: "string list \<Rightarrow> string \<Rightarrow> (string, string list) gomap \<Rightarrow> (string, string list) gomap" where
  "cover [] fid m = m"
| "cover (row # rows) fid m =
    cover rows fid (map_put row ((case map_of m row of None \<Rightarrow> [] | Some fids \<Rightarrow> fids) @ [fid]) m)"

definition add :: "fixtureCase \<Rightarrow> generator \<Rightarrow> generator" where
  "add c g = g\<lparr>g_fixtures := g_fixtures g @ [fixture_of c],
    g_coverage := cover (fc_rows c) (fc_id c) (g_coverage g)\<rparr>"

text \<open>A loop that adds one case per entry of a table.\<close>

fun add_all :: "fixtureCase list \<Rightarrow> generator \<Rightarrow> generator" where
  "add_all [] g = g"
| "add_all (c # cs) g = add_all cs (add c g)"

section \<open>Requests and expectations\<close>

definition putRecord :: "string \<Rightarrow> (string, string) gomap \<Rightarrow> wire_request" where
  "putRecord body headers = \<lparr>wq_Method = ''PUT'', wq_Path = ''/v1/record'', wq_Query = [],
    wq_Headers = headers, wq_Body = text_body body\<rparr>"

definition vendorMediaType :: string where
  "vendorMediaType = ''application/vnd.trigstation.record+json''"

definition vendorType :: "(string, string) gomap" where
  "vendorType = [(''Content-Type'', vendorMediaType)]"

definition getRecord :: "string \<Rightarrow> wire_request" where
  "getRecord rawQuery = \<lparr>wq_Method = ''GET'', wq_Path = ''/v1/record'', wq_Query = rawQuery,
    wq_Headers = [], wq_Body = empty_body\<rparr>"

definition postSignal :: "string \<Rightarrow> wire_body \<Rightarrow> wire_request" where
  "postSignal ch body = \<lparr>wq_Method = ''POST'', wq_Path = ''/v1/signal/'' @ ch, wq_Query = [],
    wq_Headers = [], wq_Body = body\<rparr>"

definition getSignal :: "string \<Rightarrow> wire_request" where
  "getSignal ch = \<lparr>wq_Method = ''GET'', wq_Path = ''/v1/signal/'' @ ch, wq_Query = [],
    wq_Headers = [], wq_Body = empty_body\<rparr>"

definition expectStatus :: "int \<Rightarrow> expectation" where
  "expectStatus status = \<lparr>ex_Status = status, ex_Body = empty_body, ex_Comparison = CompareEmpty,
    ex_Headers = [], ex_HeaderTokens = [], ex_HeadersAbsent = []\<rparr>"

definition expectRecords :: "string \<Rightarrow> expectation" where
  "expectRecords body = (expectStatus 200)\<lparr>ex_Body := text_body body, ex_Comparison := CompareRecordsArray,
    ex_Headers := [(''Content-Type'', ''application/json'')]\<rparr>"

definition expectMeta :: "string \<Rightarrow> expectation" where
  "expectMeta body = (expectStatus 200)\<lparr>ex_Body := text_body body, ex_Comparison := CompareJSONObject,
    ex_Headers := [(''Content-Type'', ''application/json'')]\<rparr>"

definition expectBlob :: "bytes \<Rightarrow> expectation" where
  "expectBlob blob = (expectStatus 200)\<lparr>ex_Body := binary_body blob, ex_Comparison := CompareExactBytes,
    ex_Headers := [(''Content-Type'', ''application/octet-stream'')]\<rparr>"

section \<open>The initial state\<close>

definition adversarialEnvelope :: "Envelope \<Rightarrow> string" where
  "adversarialEnvelope e =
    (''{'' @ [CHR 0x0A]) @
    ''  \"sig\":  '' @ jsonString (e_Sig e) @ ('','' @ [CHR 0x0A]) @
    [CHR 0x0A] @
    ''  \"expires_at\" :   '' @ Itoa (e_ExpiresAt e) @ ('','' @ [CHR 0x0A]) @
    (''  \"wk_pub\"'' @ [CHR 0x09] @ '': '') @ jsonString (e_WKPub e) @ ('','' @ [CHR 0x0A]) @
    (''  \"_extension\": {'' @ [CHR 0x0A]) @
    (''      \"introduced_after_this_directory_was_written\": true,'' @ [CHR 0x0A]) @
    (''      \"html\": \"a <b> tag & an > angle\",'' @ [CHR 0x0A]) @
    (''      \"nested\": { \"deep\": [ 1, 2, 3 ] }'' @ [CHR 0x0A]) @
    (''  },'' @ [CHR 0x0A]) @
    ''  \"lookup_id\": '' @ jsonString (e_LookupID e) @ ('','' @ [CHR 0x0A]) @
    ''  \"nonce\":'' @ jsonString (e_Nonce e) @ ('','' @ [CHR 0x0A]) @
    ''  \"pow\"   : '' @ jsonString (e_PoW e) @ ('','' @ [CHR 0x0A]) @
    ''  \"ct\": '' @ jsonString (e_CT e) @ ('','' @ [CHR 0x0A]) @
    (''  \"v\": 1'' @ [CHR 0x0A]) @
    ''}''"

definition record_id :: "nat \<Rightarrow> string" where
  "record_id i = ''record-'' @ (if i < 10 then ''0'' else []) @ show_nat i"

definition note_ordinary :: string where
  "note_ordinary = ''An ordinary record. Its identifier begins with a 1 bit, like every record in this table.''"

definition note_adversarial :: string where
  "note_adversarial = (''Stored with formatting a re-serialising directory would destroy: non-minimal whitespace, member order differing from the '' @ sect @ ''4.1 example, an unknown nested member, and a string value containing '<', '>' and '&'. '' @ sect @ ''5.2 requires the bytes returned by '' @ sect @ ''5.3 to be the bytes received, so every response containing this record is byte-exact or the directory is re-encoding.'')"

definition note_recency :: string where
  "note_recency = (''The record the '' @ sect @ ''5.2 recency fixtures republish under. Its expires_at is the floor a later publish must strictly exceed.'')"

definition initial_record_of :: "nat \<Rightarrow> publisher \<Rightarrow> Envelope \<Rightarrow> storedRecord" where
  "initial_record_of i p env =
    \<lparr>fr_id = (if i = 1 then ''record-adversarial-formatting'' else if i = 2 then ''record-recency-target''
       else record_id i),
     fr_note = (if i = 1 then note_adversarial else if i = 2 then note_recency else note_ordinary),
     fr_publisher = p, fr_expiresAt = RecordExpiresAt,
     fr_body = (if i = 1 then adversarialEnvelope env else render (envelopeMembers env))\<rparr>"

fun initial_records :: "crypto \<Rightarrow> (nat \<Rightarrow> bool) \<Rightarrow> nat \<Rightarrow> publisher list \<Rightarrow> generator \<Rightarrow> fx_error + generator" where
  "initial_records C ctx i [] g = Inr g"
| "initial_records C ctx i (p # ps) g =
    andThen (pub_envelope C ctx p RecordExpiresAt) (\<lambda>env.
      let g' = (if i = 2 then g\<lparr>g_recency := Some p, g_recencyExpires := RecordExpiresAt\<rparr> else g)
      in initial_records C ctx (i + 1) ps (g'\<lparr>g_initial := g_initial g' @ [initial_record_of i p env]\<rparr>))"

definition heldBlob :: bytes where
  "heldBlob = [0x00, 0x01, 0xff, 0xfe] @ bytes_of_string ''<offer> & \"answer\"'' @ [0x00]"

definition note_held :: string where
  "note_held = (''Holds an unexpired blob at now. This is the channel '' @ sect @ ''5.4's first-write-wins rule applies to, and the one a GET delivers.'')"

definition note_expired :: string where
  "note_expired = (''Loaded far enough in the past that its blob has expired at now. '' @ sect @ ''5.4 rejects a second write only where the channel holds an *unexpired* blob, so a POST here is stored. Load it with the instance's clock reading posted_at, then return the clock to now.'')"

definition initial_channels :: "generator \<Rightarrow> initial_channel list" where
  "initial_channels g =
    [\<lparr>ic_ID = ''channel-held'', ic_Note = note_held, ic_ChannelID = g_heldChannel g, ic_PostedAt = Now, ic_ExpiresAt = Now + SignalTTL,
      ic_Held = True, ic_LoadExpectStatus = 204, ic_Blob = binary_body (g_heldBlob g)\<rparr>,
     \<lparr>ic_ID = ''channel-expired'', ic_Note = note_expired, ic_ChannelID = g_expiredChannel g, ic_PostedAt = Now - SignalTTL - 100,
      ic_ExpiresAt = Now - 100, ic_Held = False, ic_LoadExpectStatus = 204,
      ic_Blob = text_body ''a blob that has outlived its TTL''\<rparr>]"

definition buildInitialState :: "crypto \<Rightarrow> (nat \<Rightarrow> bool) \<Rightarrow> generator \<Rightarrow> fx_error + generator" where
  "buildInitialState C ctx g =
    andThen (returns (highPublishers C 0 (nat InitialRecordCount))) (\<lambda>(pubs, nxt).
    andThen (initial_records C ctx 0 pubs (g\<lparr>g_next := nxt\<rparr>)) (\<lambda>g1.
      let g2 = g1\<lparr>g_initial := sortStored (g_initial g1), g_heldBlob := heldBlob,
            g_heldChannel := channelID C 1, g_expiredChannel := channelID C 2,
            g_freeChannel := channelID C 3, g_sizeChannel := channelID C 4\<rparr>
      in Inr (g2\<lparr>g_channels := initial_channels g2\<rparr>)))"

section \<open>The checks on it\<close>

text \<open>\<open>strings.Index\<close>: the position of the first occurrence, or -1.\<close>

fun index_of :: "string \<Rightarrow> string \<Rightarrow> int" where
  "index_of [] pat = (if pat = [] then 0 else -1)"
| "index_of (c # s) pat =
    (if take (length pat) (c # s) = pat then 0
     else let i = index_of s pat in if i < 0 then -1 else i + 1)"

definition adversarial_checks :: "string \<Rightarrow> (string \<times> bool) list" where
  "adversarial_checks body =
    [(''non-minimal whitespace'', contains body [CHR 0x0A] \<and> contains body ''  ''),
     (''a '<' character'', contains body ''<''),
     (''a '>' character'', contains body ''>''),
     (''an '&' character'', contains body ''&''),
     (''an unknown nested member'', contains body ''\"_extension\"'' \<and> contains body ''\"nested\"''),
     ((''a member order differing from '' @ sect @ ''4.1''), index_of body ''\"sig\"'' < index_of body ''\"v\"'')]"

definition checkAdversarialRecord :: "string \<Rightarrow> fx_error option" where
  "checkAdversarialRecord body =
    (case find (\<lambda>(name, ok). \<not> ok) (adversarial_checks body) of
       Some (name, ok) \<Rightarrow> Some (NotAdversarial name)
     | None \<Rightarrow> if int (length body) > fx_MaxRecordBytes then Some AdversarialTooLarge else None)"

fun check_identifiers :: "bytes list \<Rightarrow> storedRecord list \<Rightarrow> fx_error option" where
  "check_identifiers seen [] = None"
| "check_identifiers seen (r # rs) =
    (if fr_lookup r \<in> set seen then Some SharedIdentifier
     else if \<not> high_bit (fr_lookup r) then Some FirstBitZero
     else if length (fr_lookup r) \<noteq> 32 then Some IdentifierWidth
     else check_identifiers (fr_lookup r # seen) rs)"

definition checkDistinctIdentifiers :: "storedRecord list \<Rightarrow> fx_error option" where
  "checkDistinctIdentifiers recs = check_identifiers [] recs"

definition check_adversarial :: "storedRecord list \<Rightarrow> fx_error option" where
  "check_adversarial recs =
    (case filter (\<lambda>e. e \<noteq> None) (map (\<lambda>r. checkAdversarialRecord (fr_body r))
       (filter (\<lambda>r. fr_id r = ''record-adversarial-formatting'') recs)) of
       [] \<Rightarrow> None | e # es \<Rightarrow> e)"

end
