(* ===== verification/Fixture_Notes.thy ===== *)
theory Fixture_Notes imports Fixtures begin

text \<open>
  The notes of the fixtures: for each fixture of \<open>internal/apivectors/fixtures.go\<close> the texts of
  its member \<open>note\<close>, for each prior request its \<open>Note\<close>.
\<close>

section \<open>Meta\<close>

definition note_meta_200_all_seven_members :: "string list" where
  "note_meta_200_all_seven_members =
    [(''record_count is the true count of unexpired records here because '' @ sect @ ''5.1's RECOMMENDED reduction '' @ emdash @ '' round down to two significant figures '' @ emdash @ '' leaves a count below 100 unchanged.''),
     (sect @ ''5.1 permits record_count to be understated and forbids it from ever exceeding the true count, so a harness whose instance rounds differently should assert record_count <= 40 rather than equality.''),
     ''source_url MUST point at the source of the running instance. Configure the instance with the value declared under instances[] to compare exactly; only its non-emptiness is normative.'']"

definition note_meta_200_signal_disabled :: "string list" where
  "note_meta_200_signal_disabled =
    [''The member is emitted, not omitted. An instance with signal channels off is exactly the instance a client most needs to be told about, and a client that saw no member would discover the answer as a 404 it is entitled to read as \"try another directory\".'']"

section \<open>Publishing\<close>

definition note_record_put_204_accepted :: "string list" where
  "note_record_put_204_accepted =
    [''Every condition passes: the body is inside max_record_bytes, v is 1, expires_at is in the future and inside max_ttl, lookup_id is SHA-256(wk_pub), the proof of work meets pow_bits, the signature verifies under wk_pub, and no record is stored under this lookup_id.'',
     (''There is no response body for any '' @ sect @ ''5.2 outcome. The code is the whole answer.'')]"

definition note_record_put_204_content_type_vendor :: "string" where
  "note_record_put_204_content_type_vendor =
    (''The RECOMMENDED type. A browser publishing with it is forced into a CORS preflight, which is why '' @ sect @ ''5.5 requires one.'')"

definition note_record_put_204_content_type_json :: "string" where
  "note_record_put_204_content_type_json =
    ''application/json is acceptable.''"

definition note_record_put_204_content_type_unrecognised :: "string" where
  "note_record_put_204_content_type_unrecognised =
    ''An unrecognised type is acceptable.''"

definition note_record_put_204_content_type_absent :: "string" where
  "note_record_put_204_content_type_absent =
    ''An absent header is acceptable. The body is validated in full either way.''"

definition note_record_put_429_rate_limited :: "string list" where
  "note_record_put_429_rate_limited =
    [(''Rate limiting is the first row of the '' @ sect @ ''5.2 order, and it is first so that a flood costs the directory as little as possible: the limit is applied before the body is read, let alone parsed or measured.''),
     ''A fixture cannot express \"already rate limited\" in one request. It is expressed here as an instance whose per-class allowance is 1 and a prior request of the same class that spends it. The prior request is deliberately one that changes no state.'',
     (sect @ ''6.4 counts PUT /v1/record, GET /v1/record and signal channel access independently, so spending this allowance must not affect the other two.'')]"

definition note_record_put_429_rate_limited_prior :: "string" where
  "note_record_put_429_rate_limited_prior =
    ''Spends this source's single PUT allowance. Its own outcome is 400 and it stores nothing.''"

definition note_record_put_204_at_size_limit :: "string list" where
  "note_record_put_204_at_size_limit =
    [''The body is exactly max_record_bytes ('' @ Itoa fx_MaxRecordBytes @ '') as transmitted. The limit is a maximum, not a bound to stay under.'',
     (''The padding is an unknown member, which '' @ sect @ ''10 requires a directory to ignore rather than reject.'')]"

definition note_record_put_413_over_size_limit :: "string list" where
  "note_record_put_413_over_size_limit =
    [''The body is max_record_bytes + 1 ('' @ Itoa (fx_MaxRecordBytes + 1) @ '') as transmitted. One byte is the whole difference between this fixture and the one before it.'',
     ''Measured before any parsing, so a directory never has to buffer an oversized body to answer.'']"

definition note_record_put_400_not_json :: "string list" where
  "note_record_put_400_not_json =
    [''The body is not JSON at all.'']"

definition note_record_put_400_empty_body :: "string list" where
  "note_record_put_400_empty_body =
    [''An empty body is not a well-formed envelope. It is worth stating because an empty body is what a client library produces when a serialisation step silently fails.'']"

definition note_record_put_400_not_an_object :: "string list" where
  "note_record_put_400_not_an_object =
    [(''Well-formed JSON, but not an object. An envelope is an object ('' @ sect @ ''4.1).'')]"

definition note_record_put_400_required_member_absent :: "string list" where
  "note_record_put_400_required_member_absent =
    [(''pow is absent. Every one of the eight members of '' @ sect @ ''4.1 is needed to evaluate '' @ sect @ ''5.2, so an envelope missing any of them is malformed rather than merely unusual.'')]"

definition note_record_put_400_explicit_null :: "string list" where
  "note_record_put_400_explicit_null =
    [(''pow is present with the value null. '' @ sect @ ''5.2: an explicit null is not a value '' @ emdash @ '' a required member present with the value null MUST be treated exactly as an absent member.'')]"

definition note_record_put_400_padded_base64url :: "string list" where
  "note_record_put_400_padded_base64url =
    [(''lookup_id is the padded spelling of the same 32 bytes. '' @ sect @ ''4.4 requires padded input to be rejected as malformed rather than stripped, because a directory stores and returns envelopes verbatim: anything it tolerates it hands unchanged to every client that queries. Tolerance here does not contain a malformed encoding, it distributes one.''),
     ''Java's Base64.getUrlEncoder and Python's urlsafe_b64encode pad by default, so this is among the first things an implementer on those platforms gets wrong.'']"

definition note_record_put_400_non_canonical_base64url :: "string list" where
  "note_record_put_400_non_canonical_base64url =
    [(''lookup_id decodes to the right 32 bytes but its final character carries non-zero unused bits. A 32-byte value occupies 43 characters carrying 258 bits, so without '' @ sect @ ''4.4's canonical-encoding rule there are four spellings of every such value '' @ emdash @ '' all of which verify, and all of which would be served.'')]"

definition note_record_put_400_wrong_decoded_length :: "string list" where
  "note_record_put_400_wrong_decoded_length =
    [(''nonce decodes to 11 bytes where '' @ sect @ ''4.1 fixes 12. A fixed-width field that decodes to the wrong length is malformed, not merely unusual: the signing input of '' @ sect @ ''4.1 is a bare concatenation, and its injectivity depends on every field before ct having its declared width.'')]"

definition note_record_put_400_duplicate_member :: "string list" where
  "note_record_put_400_duplicate_member =
    [(''expires_at appears twice. '' @ sect @ ''5.2 requires this to be rejected rather than resolved: parsers disagree about which occurrence wins '' @ emdash @ '' Go takes the last, many others the first '' @ emdash @ '' and because a directory verifies a signature over the fields it parsed and then stores the bytes verbatim, a first-wins directory and a last-wins client can end up disagreeing about an expires_at the directory never validated.''),
     ''That is a signature bypass wearing a parser disagreement as a costume.'']"

definition note_record_put_400_bad_version :: "string list" where
  "note_record_put_400_bad_version =
    [(''v is 2 on a /v1/ path. '' @ sect @ ''4.1 is explicit that this is a rejection rather than an application of the unknown-field rule: v pins the format, so it is not an unknown field.''),
     (''Every other unrecognised member is ignored ('' @ sect @ ''10), which is what makes an additive change to v1 deployable at all.'')]"

definition note_record_put_204_at_ttl_skew_grace :: "string list" where
  "note_record_put_204_at_ttl_skew_grace =
    [''expires_at is now + max_ttl + '' @ Itoa fx_SkewGrace @ ('', exactly the grace '' @ sect @ ''5.2 asks a directory to allow above max_ttl before rejecting.''),
     (''The grace exists because expires_at is computed from the publisher's clock and evaluated against the directory's, and neither party can observe the other's. Servers SHOULD leave headroom and directories SHOULD allow grace '' @ emdash @ '' both, not either: one alone still permits the failure, which presents as a directory rejecting every publish for no visible reason.'')]"

definition note_record_put_400_ttl_too_long :: "string list" where
  "note_record_put_400_ttl_too_long =
    [''One second beyond the grace. Everything else about this envelope is valid.'',
     ''An over-long TTL is 400 despite also concerning expires_at, because its remedy differs from the 409 rows: reduce the configured TTL and re-solve the proof of work, rather than republish with a later expiry.'']"

definition note_record_put_403_lookup_mismatch :: "string list" where
  "note_record_put_403_lookup_mismatch =
    [''lookup_id is a valid 32-byte identifier belonging to a different key. The proof of work is solved over the identifier as stated and the signature verifies under wk_pub, so this fixture violates the binding and nothing else.'',
     (''One SHA-256 settles it, which is why '' @ sect @ ''5.2 puts it ahead of the Ed25519 verification: a flooding client is rejected on the cheap check.'')]"

definition note_record_put_403_pow_insufficient :: "string list" where
  "note_record_put_403_pow_insufficient =
    [''SHA-256(\"trig-pow-v1\" || lookup_id || expires_at || pow) has fewer than '' @ Itoa fx_PoWBits @ ('' leading zero bits, with expires_at and pow each 8 bytes big-endian per '' @ sect @ ''0.1.''),
     (''pow is not part of the envelope signing input ('' @ sect @ ''4.1), so the signature on this envelope is valid: this fixture violates the proof of work and nothing else.'')]"

definition note_record_put_403_sig_invalid :: "string list" where
  "note_record_put_403_sig_invalid =
    [''A syntactically valid 64-byte Ed25519 signature made with a different key, over the correct canonical bytes. The signature is the authorisation: there is no header to check and no account to consult.'',
     (''It is the most expensive check in the pipeline by roughly two orders of magnitude, which is why '' @ sect @ ''5.2 puts it last of the cryptographic three.'')]"

definition note_record_put_409_expires_at_equals_now :: "string list" where
  "note_record_put_409_expires_at_equals_now =
    [(''expires_at is exactly now. '' @ sect @ ''5.2: a record is live if and only if expires_at is strictly greater than the directory's current time; at equality it is absent.''),
     (''Equality is not a corner worth leaving open '' @ emdash @ '' '' @ sect @ ''5.2's requirement that two conforming directories return identical results is not a guarantee if it has a one-second hole in it.'')]"

definition note_record_put_409_expires_at_in_the_past :: "string list" where
  "note_record_put_409_expires_at_in_the_past =
    [''One second before now. 409 rather than 400 because the remedy is the publisher's to apply and is the same as the recency rule's: republish with a later expiry, one branch in the publisher rather than two.'']"

definition note_record_put_409_not_newer_equal :: "string list" where
  "note_record_put_409_not_newer_equal =
    [(''A byte-for-byte replay of the record already stored under this lookup_id. Within an epoch the write key is stable, so a captured earlier envelope still verifies '' @ emdash @ '' the recency rule is what stops a replay silently rolling the server's published address back until the next republish, where the rollback would present as a stale address rather than an error.''),
     ''Strictly greater: equal is rejected.'']"

definition note_record_put_409_not_newer_older :: "string list" where
  "note_record_put_409_not_newer_older =
    [(''An expiry one second below the stored record's, and still comfortably in the future '' @ emdash @ '' so this fixture fails the recency rule and not the future-expiry check above it.'')]"

definition note_record_put_204_newer_replaces :: "string list" where
  "note_record_put_204_newer_replaces =
    [(''One second above the stored record's expiry is enough. On success the record replaces the existing one under the same lookup_id '' @ emdash @ '' there is one record per lookup_id ('' @ sect @ ''4.3).''),
     ''This fixture mutates state: after it, the record served under this identifier is this one.'']"

section \<open>The evaluation order\<close>

definition note_record_put_order_413_before_400_malformed :: "string list" where
  "note_record_put_order_413_before_400_malformed =
    [''The body is max_record_bytes + 1 bytes and is not well-formed JSON. Size is row 3 and malformation row 4, so the answer is 413.'',
     ''An implementation that parses before measuring answers 400 here, and it is right about the body and wrong about the protocol: the size check exists so that an oversized body is never parsed.'']"

definition note_record_put_order_403_lookup_before_409_expired :: "string list" where
  "note_record_put_order_403_lookup_before_409_expired =
    [''lookup_id is not SHA-256(wk_pub) (row 7) and expires_at equals now (row 10). The answer is 403.'',
     (''The two codes carry different remedies '' @ emdash @ '' 403 means the envelope is wrong, 409 means republish with a later expiry '' @ emdash @ '' so a directory that answered 409 would send a conforming publisher into a retry loop it can never escape.'')]"

definition note_record_put_order_403_sig_before_409_not_newer :: "string list" where
  "note_record_put_order_403_sig_before_409_not_newer =
    [''The signature does not verify (row 9) and the expiry does not exceed the stored record's (row 11). The answer is 403.'',
     ''The recency rule is last in the order because it is the only condition requiring a storage read. A rejected publish never touches the database, which is also why this fixture leaves the stored record untouched.'']"

definition note_record_put_order_400_ttl_before_403_pow_and_sig :: "string list" where
  "note_record_put_order_400_ttl_before_403_pow_and_sig =
    [''expires_at is beyond max_ttl plus the skew grace (row 6), the proof of work is insufficient (row 8) and the signature does not verify (row 9). The answer is 400.'',
     ''This is the case where an implementation ordering by cost alone diverges: both 403 conditions are cheaper to reach than they look, and neither may be evaluated first.'']"

definition note_record_put_order_400_version_before_three_403s :: "string list" where
  "note_record_put_order_400_version_before_three_403s =
    [''v is 2 (row 5), lookup_id is not SHA-256(wk_pub) (row 7), the proof of work is insufficient (row 8) and the signature does not verify (row 9). The answer is 400.'',
     ''Three of the four violations draw 403, so an implementation that evaluated the cryptographic conditions first would answer 403 consistently and look entirely reasonable doing it.'']"

definition note_record_put_order_429_before_everything :: "string list" where
  "note_record_put_order_429_before_everything =
    [''The source's allowance is spent (row 2), the body is over max_record_bytes (row 3), v is 2 (row 5) and expires_at equals now (row 10). The answer is 429.'',
     ''Rate limiting is first in the order precisely so that none of the work below it is done. An implementation that answered 413 here has read and measured a body it was entitled to drop, which is the cost the ordering exists to avoid.'']"

definition note_record_put_order_429_before_everything_prior :: "string" where
  "note_record_put_order_429_before_everything_prior =
    ''Spends this source's single PUT allowance without storing anything.''"

definition note_record_put_order_403_pow_and_sig_are_indistinguishable :: "string list" where
  "note_record_put_order_403_pow_and_sig_are_indistinguishable =
    [(''The proof of work is insufficient (row 8) and the signature does not verify (row 9). Both draw 403, so this fixture cannot detect an implementation that evaluates them in the wrong order '' @ emdash @ '' and it says so rather than implying a check it does not perform.''),
     (''It is here because '' @ sect @ ''5.2's ordering argument rests on this pair: the SHA-256 precedes the Ed25519 verification, which costs roughly two orders of magnitude more. The order is unobservable on the wire and load-bearing under flood.'')]"

definition note_record_put_order_409_expired_and_not_newer :: "string list" where
  "note_record_put_order_409_expired_and_not_newer =
    [(''expires_at equals now (row 10) and does not exceed the stored record's expiry (row 11). Both draw 409, deliberately: '' @ sect @ ''5.2 groups codes by the publisher's remedy, and the remedy for both is the same '' @ emdash @ '' republish with a later expiry, one branch in the publisher rather than two.''),
     ''So this fixture also cannot discriminate, and is not intended to.'']"

section \<open>Lookups\<close>

text \<open>The two notes several lookups share; the first says how many records there are.\<close>

definition capNote :: "nat \<Rightarrow> string" where
  "capNote n =
    ''This instance holds '' @ Itoa (int n) @ ('' records, so '' @ sect @ ''5.3's cap is max(0, floor(log2('') @ Itoa (int n) @ '' / k_min))) = '' @ Itoa (int (query_Cap (int n))) @ '' with the normative k_min of '' @ Itoa KMin @ ''. bits = 0 and bits = 1 are accepted and anything wider is 400.''"

definition verbatimNote :: "string" where
  "verbatimNote =
    (''The response contains the adversarially formatted record, so it is byte-exact only if the directory reproduced the stored bytes rather than re-serialising them ('' @ sect @ ''5.2).'')"

definition note_record_get_200_bits_zero_empty_prefix :: "string list" where
  "note_record_get_200_bits_zero_empty_prefix =
    [''bits = 0 with prefix supplied empty. This is the query every conforming client sends to an instance too small to provide an anonymity set, and it returns the whole table.'',
     verbatimNote,
     (''The order of records is not significant and clients MUST NOT depend on it. The expected body is written in the RECOMMENDED order '' @ emdash @ '' ascending lookup_id '' @ emdash @ '' because a byte comparison needs one; compare the elements as a multiset if your instance orders differently.'')]"

definition note_record_get_200_bits_zero_prefix_absent :: "string list" where
  "note_record_get_200_bits_zero_prefix_absent =
    [(''The other spelling. An absent prefix and an empty prefix are the same query at bits = 0, and a directory must accept both '' @ emdash @ '' a distinction url.Values-style APIs cannot express in the value alone, which is why it is stated.'')]"

definition note_record_get_200_prefix_matches :: "string \<Rightarrow> string list" where
  "note_record_get_200_prefix_matches cap =
    [''prefix=8 at bits=1 selects identifiers whose first bit is 1, which is every record in this instance. The padding bits of the character are zero here, so this is the plain case.'',
     cap,
     verbatimNote]"

definition note_record_get_200_padding_bits_masked :: "string list" where
  "note_record_get_200_padding_bits_masked =
    [(''prefix=f at bits=1 carries one significant bit '' @ emdash @ '' 1 '' @ emdash @ '' and three padding bits that are all set. Masked, it is the same query as prefix=8, and it returns the same records.''),
     ''A directory that rejected non-zero padding bits answers 400 here, and a directory that compared the character rather than the masked bits answers with an empty array. Both are wrong on the ordinary path rather than on an edge case: at 100,000 records the RECOMMENDED bits is 10, which occupies three hex characters and leaves two bits unused.'']"

definition note_record_get_200_uppercase_prefix :: "string list" where
  "note_record_get_200_uppercase_prefix =
    [''The same query as the one before it, spelled in upper case. Directories MUST accept both a3f and A3F.'']"

definition note_record_get_200_empty_result :: "string list" where
  "note_record_get_200_empty_result =
    [''prefix=0 at bits=1 selects identifiers whose first bit is 0, and this instance holds none.'',
     ''200 with an empty array, never 404. A 404 would tell a client the directory has nothing to say about anything, when what it has is nothing in this bucket.'']"

definition note_record_get_200_empty_result_padding_bits_masked :: "string list" where
  "note_record_get_200_empty_result_padding_bits_masked =
    [''prefix=7 at bits=1 masks to the same query as prefix=0: one significant bit of 0, three padding bits that are set. The empty array is the correct answer, and a 400 is not.'']"

definition note_record_get_400_over_precise :: "string \<Rightarrow> string list" where
  "note_record_get_400_over_precise cap =
    [''bits = 2 exceeds this instance's cap of 1. '' @ cap,
     ''A client asking for a 32-bit prefix has defeated the entire privacy design; the server-side cap is what makes the anonymity set a protocol guarantee rather than a client courtesy.'',
     (''The cap is computed against the true record count, not the figure '' @ sect @ ''5.1 permits an instance to understate '' @ emdash @ '' which is what makes '' @ sect @ ''5.1's promise unconditional that a client following the advertised count can never be rejected here.'')]"

definition note_record_get_400_bits_absent :: "string list" where
  "note_record_get_400_bits_absent =
    [''bits is REQUIRED and a directory MUST NOT infer it from the length of prefix. Inference is the tempting shortcut and the one that breaks interoperability silently: it makes a3f mean 12 bits everywhere, so a client that meant 10 gets a narrower bucket and a smaller anonymity set than it asked for, with nothing reporting an error.'']"

definition note_record_get_400_bits_leading_zero :: "string list" where
  "note_record_get_400_bits_leading_zero =
    [(''A leading zero is two spellings of one value, which is the defect '' @ sect @ ''4.4's canonical-encoding rule closes for base64url. It is rejected here rather than normalised.'')]"

definition note_record_get_400_bits_not_a_number :: "string list" where
  "note_record_get_400_bits_not_a_number =
    [''No other notation.'']"

definition note_record_get_400_bits_signed :: "string list" where
  "note_record_get_400_bits_signed =
    [''No sign. A directory that parsed this as a signed integer and then sized a buffer from it has a worse problem than a 400.'']"

definition note_record_get_400_bits_above_256 :: "string list" where
  "note_record_get_400_bits_above_256 =
    [''257 bits with a correctly sized prefix of 65 hex characters, so the only thing wrong with the query is its width.'',
     (''On this instance the cap of 1 rejects it first, and both bind to 400, so the code cannot say which rule applied. The 256 bound is stated in '' @ sect @ ''5.3 so that an implementation sizing a buffer from the parameter has something to size it against.'')]"

definition note_record_get_400_prefix_not_hex :: "string list" where
  "note_record_get_400_prefix_not_hex =
    ['''g' is outside the hex alphabet. Every character is validated, including one whose bits the mask would discard entirely.'']"

definition note_record_get_400_prefix_too_long :: "string list" where
  "note_record_get_400_prefix_too_long =
    [''Two characters where one is required. Too many carries bits the client did not declare.'']"

definition note_record_get_400_prefix_empty_with_bits :: "string list" where
  "note_record_get_400_prefix_empty_with_bits =
    [''An empty prefix is only meaningful at bits = 0.'']"

definition note_record_get_400_prefix_absent_with_bits :: "string list" where
  "note_record_get_400_prefix_absent_with_bits =
    [''An absent prefix with bits above zero. The pair of this and the bits = 0 fixtures is what pins the one place absence and emptiness differ.'']"

definition note_record_get_400_repeated_prefix :: "string list" where
  "note_record_get_400_repeated_prefix =
    [(''Both occurrences agree, and it is still rejected. HTTP stacks disagree about which occurrence wins, so resolving one means two directories reading the same query differently '' @ emdash @ '' the failure mode of duplicate JSON members in '' @ sect @ ''5.2. Failing closed on the ambiguity costs nothing, because no honest client emits one.'')]"

definition note_record_get_400_repeated_bits :: "string list" where
  "note_record_get_400_repeated_bits =
    [''Here the two occurrences disagree, which is the case where resolving it silently changes the anonymity set the client asked for.'']"

definition note_record_get_429_rate_limited :: "string list" where
  "note_record_get_429_rate_limited =
    [(sect @ ''6.2 gives GET /v1/record its own allowance, counted independently of publishes and of signal channel access.''),
     (sect @ ''5.3 has no status table of its own and states no code for a rate-limited lookup. 429 is what '' @ sect @ ''5.2 and '' @ sect @ ''5.4 bind rate limiting to, and it is the only code whose remedy '' @ emdash @ '' back off or move on '' @ emdash @ '' is the right one here.''),
     ''This instance holds no records, so the prior request returns an empty array; the allowance is spent either way.'']"

definition note_record_get_429_rate_limited_prior :: "string" where
  "note_record_get_429_rate_limited_prior =
    ''Spends this source's single GET /v1/record allowance.''"

section \<open>Signal channels\<close>

definition note_signal_post_204_stored :: "string list" where
  "note_signal_post_204_stored =
    [''A channel holding nothing accepts the write. The directory treats the body as bytes and MUST NOT attempt to parse, validate or interpret it.'']"

definition note_signal_post_204_expired_blob_replaced :: "string list" where
  "note_signal_post_204_expired_blob_replaced =
    [(''This channel holds a blob that expired before now. '' @ sect @ ''5.4 rejects a second write only where the channel already holds an *unexpired* blob, so this is a first write.''),
     (''Expiry is a property of the blob and the clock, not of sweep scheduling '' @ emdash @ '' the same rule '' @ sect @ ''5.2 states for records.'')]"

definition note_signal_post_204_at_size_limit :: "string list" where
  "note_signal_post_204_at_size_limit =
    [(''A body of exactly the '' @ sect @ ''4.3 signal channel payload limit, '') @ Itoa MaxBlobBytes @ '' bytes. The body is the single byte 0x61 repeated; see encoding.body_encodings.'']"

definition note_signal_post_413_too_large :: "string list" where
  "note_signal_post_413_too_large =
    [''One byte over the limit: '' @ Itoa (MaxBlobBytes + 1) @ '' bytes.'']"

definition note_signal_post_409_first_write_wins :: "string list" where
  "note_signal_post_409_first_write_wins =
    [''The channel holds an unexpired blob, and the stored blob is left untouched.'',
     ''This is a security property rather than an error case. Under overwrite semantics anyone who guessed or observed a channel identifier could replace a legitimate blob with their own, turning the rendezvous into an injection point; failing closed reduces that to a denial of service the participants detect immediately.'']"

definition note_signal_post_400_channel_too_short :: "string list" where
  "note_signal_post_400_channel_too_short =
    [''A channel_id is 32 bytes, base64url: exactly 43 unpadded characters.'']"

definition note_signal_post_400_channel_padded :: "string list" where
  "note_signal_post_400_channel_padded =
    [(''The padded spelling of the same 32 bytes. '' @ sect @ ''4.4 forbids emitting padding and requires padded input to be rejected rather than stripped.'')]"

definition note_signal_post_400_channel_non_canonical :: "string list" where
  "note_signal_post_400_channel_non_canonical =
    [(''43 characters decoding to the right 32 bytes, but with non-zero unused bits in the final character. '' @ sect @ ''5.4 identifies a channel by its decoded bytes, not by the text that spelled them: an implementation keying on the text would treat two spellings as two channels and accept a second write where a conforming directory returns 409. The canonical-encoding rule of '' @ sect @ ''4.4 closes the same gap from the other side, and both apply.'')]"

definition note_signal_get_200_delivered :: "string list" where
  "note_signal_get_200_delivered =
    [''The blob is returned exactly as posted, including its NUL bytes, its 0xff and the three characters a JSON encoder would rewrite. The directory MUST NOT interpret the body.'',
     ''Content-Type is application/octet-stream: a directory forbidden to interpret the body must not claim a type for it.'',
     (''Delivery is destructive '' @ emdash @ '' this fixture mutates state, and a second GET on this channel would long-poll.'')]"

definition note_signal_get_204_empty :: "string list" where
  "note_signal_get_204_empty =
    [(''204, deliberately not 404. A client's correct response to 204 is to poll again; to 404, to try a different directory. Conflating them means a client either hammers an instance that will never answer or abandons one that would have, and PAIRING-SPEC.md '' @ sect @ ''6.3 has both devices polling as its normal path.''),
     (''The response arrives after the instance's long-poll window elapses, which '' @ sect @ ''5.4 caps at 30 seconds. A conformance harness MAY shorten the window: this fixture asserts the status, not the duration.'')]"

definition note_signal_get_400_bad_channel :: "string list" where
  "note_signal_get_400_bad_channel =
    [''42 characters: one short of the 43 an unpadded 32-byte value occupies. The identifier is checked before the channel is looked up, so no channel is created by a malformed request.'']"

definition note_record_get_order_rate_limited_before_bad_bits :: "string list" where
  "note_record_get_order_rate_limited_before_bad_bits =
    [(''Both conditions hold: the allowance is spent AND bits is not a decimal number. '' @ sect @ ''5.3 requires 429.''),
     (''This is the only observable ordering in '' @ sect @ ''5.3, because every parameter rejection draws 400 and two of those cannot be told apart on the wire. It is still worth pinning: a directory that validated first would parse and reject on behalf of a source it had already decided to shed.'')]"

definition note_record_get_order_rate_limited_before_bad_bits_prior :: "string" where
  "note_record_get_order_rate_limited_before_bad_bits_prior =
    ''Spends this source's single GET /v1/record allowance.''"

definition note_signal_order_disabled_before_rate_limited :: "string list" where
  "note_signal_order_disabled_before_rate_limited =
    [(''Both conditions hold: the instance advertises \"signal\": false AND this source has spent its allowance. '' @ sect @ ''5.4 requires 404.''),
     (''This is the fixture that shows why '' @ sect @ ''5.4 orders by durability rather than by cost. The instance will never broker a rendezvous for this client, so telling it 404 '' @ emdash @ '' stop asking '' @ emdash @ '' is more useful than telling it 429, which invites it to retry indefinitely against something that can never work. PAIRING-SPEC.md '' @ sect @ ''6.3 makes polling the normal path, so that retry loop is the common case rather than a corner.''),
     ''404 is reachable only on an instance genuinely advertising \"signal\": false. It can never be returned to a client of a working instance, under this order or any other.'']"

definition note_signal_order_disabled_before_rate_limited_prior :: "string" where
  "note_signal_order_disabled_before_rate_limited_prior =
    ''Spends this source's single signal allowance. Already 404, because the instance is disabled.''"

definition note_signal_order_disabled_before_bad_channel :: "string list" where
  "note_signal_order_disabled_before_bad_channel =
    [(''Both conditions hold: the instance is disabled AND the channel_id is too short to be 32 bytes. '' @ sect @ ''5.4 requires 404 '' @ emdash @ '' instance configuration is settled before the request is parsed at all.'')]"

definition note_signal_order_disabled_before_too_large :: "string list" where
  "note_signal_order_disabled_before_too_large =
    [(''Both conditions hold: the instance is disabled AND the body exceeds the '' @ sect @ ''4.3 payload limit. '' @ sect @ ''5.4 requires 404.''),
     ''A directory that measured the body first would answer 413 and invite the client to retry with a smaller blob against an instance that will never accept one.'']"

definition note_signal_order_rate_limited_before_too_large :: "string list" where
  "note_signal_order_rate_limited_before_too_large =
    [(''Both conditions hold: the allowance is spent AND the body exceeds the payload limit. '' @ sect @ ''5.4 requires 429.''),
     (''Rate limiting precedes parsing so that a flooding client is shed before the directory does work on its behalf '' @ emdash @ '' the same reasoning '' @ sect @ ''5.2 gives for putting it first there. A directory that measured the body first would still reject, but would have read 64 KiB from a source it had already decided to refuse.'')]"

definition note_signal_order_rate_limited_before_too_large_prior :: "string" where
  "note_signal_order_rate_limited_before_too_large_prior =
    ''Spends this source's single signal allowance.''"

definition note_signal_post_429_rate_limited :: "string list" where
  "note_signal_post_429_rate_limited =
    [(''POST and GET on a signal channel share one allowance ('' @ sect @ ''6.4), so the prior request here is a GET and it is the POST that is refused.''),
     ''The prior request is a GET with a malformed channel_id, which spends the allowance without long-polling and without creating a channel.'']"

definition note_signal_post_429_rate_limited_prior :: "string" where
  "note_signal_post_429_rate_limited_prior =
    ''Spends this source's single signal allowance.''"

definition note_signal_get_429_rate_limited :: "string list" where
  "note_signal_get_429_rate_limited =
    [''The same allowance from the other side: a POST spends it and the GET is refused.'']"

definition note_signal_get_429_rate_limited_prior :: "string" where
  "note_signal_get_429_rate_limited_prior =
    ''Spends this source's single signal allowance.''"

definition note_signal_post_429_draining :: "string list" where
  "note_signal_post_429_draining =
    [(''An instance that is full or draining answers 429, not 204 and not 404. 204 would tell the client to poll again immediately, hot-looping against an instance that has just declined it; 404 would tell the client this directory does not broker signal channels at all '' @ emdash @ '' which is wrong, and sticky, because a client that believes it will stop asking.''),
     ''A harness with no way to drive its instance into this state cannot run this fixture. That is a property of the harness rather than of the directory, and the row is normative either way.'']"

definition note_signal_get_429_draining :: "string list" where
  "note_signal_get_429_draining =
    [''The same on the read side, and it returns promptly rather than holding the poll open: a graceful shutdown must not wait 30 seconds on an idle poller.'']"

definition note_signal_post_404_disabled :: "string list" where
  "note_signal_post_404_disabled =
    [(''404 is the one outcome in the '' @ sect @ ''5.4 table that means \"this directory does not broker signal channels\", and it is reserved for the instance that advertises so in GET /v1/meta.'')]"

definition note_signal_get_404_disabled :: "string list" where
  "note_signal_get_404_disabled =
    [''The same on the read side. Pairing the advertised capability with the behaviour of the route matters: a client that believes a directory brokers signal channels and finds 404 will stop trying it altogether.'']"

section \<open>Preflights\<close>

definition note_cors_options_record_preflight :: "string" where
  "note_cors_options_record_preflight =
    (sect @ ''5.2 RECOMMENDS publishers send the vendor media type, which is precisely what forces a browser to preflight every publish.'')"

definition note_cors_options_signal_preflight :: "string" where
  "note_cors_options_signal_preflight =
    (''The preflight is per route, and '' @ sect @ ''5.5 names this one explicitly.'')"

end
