(* ===== verification/Fixture_Records.thy ===== *)
theory Fixture_Records imports Fixture_Notes begin

text \<open>
  The fixtures of \<open>GET /v1/meta\<close> and \<open>PUT /v1/record\<close> (\<open>internal/apivectors/fixtures.go\<close>,
  \<open>buildMetaFixtures\<close>, \<open>buildRecordFixtures\<close> and \<open>buildOrderFixtures\<close>), one definition per group
  of fixtures, in the order the generator emits them.
\<close>

section \<open>What the builders share\<close>

text \<open>\<open>pubs, next := highPublishers(g.next, n); g.next = next\<close>.\<close>

definition take_publishers :: "crypto \<Rightarrow> nat \<Rightarrow> generator \<Rightarrow> fx_error + (publisher list \<times> generator)" where
  "take_publishers C n g =
    andThen (returns (highPublishers C (g_next g) n)) (\<lambda>(pubs, nxt). Inr (pubs, g\<lparr>g_next := nxt\<rparr>))"

text \<open>The recency target; a method called on the nil pointer would panic.\<close>

definition recency_target :: "generator \<Rightarrow> fx_error + publisher" where
  "recency_target g = (case g_recency g of None \<Rightarrow> Inl NilRecency | Some p \<Rightarrow> Inr p)"

definition pubSolve :: "crypto \<Rightarrow> (nat \<Rightarrow> bool) \<Rightarrow> bytes \<Rightarrow> int \<Rightarrow> fx_error + bytes" where
  "pubSolve C ctx lookupID expiresAt =
    pub_solve C ctx \<lparr>p_index = 0, p_priv = [], p_pub = [], p_lookupID = lookupID, p_ct = [], p_nonce = []\<rparr> expiresAt"

text \<open>
  An envelope put together by hand: it states the identifier \<open>stated\<close>, carries the key,
  ciphertext and nonce of \<open>p\<close>, and is signed by \<open>signer\<close>.
\<close>

definition hand_signature :: "crypto \<Rightarrow> publisher \<Rightarrow> bytes \<Rightarrow> publisher \<Rightarrow> int \<Rightarrow> fx_error + bytes" where
  "hand_signature C signer stated p expiresAt =
    signs (record_Sign C (p_priv signer) (byte_of (nat Version)) stated (p_pub p) expiresAt (p_nonce p) (p_ct p))"

definition hand_envelope :: "int \<Rightarrow> bytes \<Rightarrow> publisher \<Rightarrow> int \<Rightarrow> bytes \<Rightarrow> bytes \<Rightarrow> Envelope" where
  "hand_envelope v stated p expiresAt pow sig =
    \<lparr>e_V = v, e_LookupID = b64_Encode stated, e_WKPub = b64_Encode (p_pub p), e_ExpiresAt = expiresAt,
     e_CT = b64_Encode (p_ct p), e_Nonce = b64_Encode (p_nonce p), e_PoW = b64_Encode pow,
     e_Sig = b64_Encode sig\<rparr>"

definition pad_name :: string where
  "pad_name = ''_pad''"

definition padTo :: "member list \<Rightarrow> int \<Rightarrow> fx_error + string" where
  "padTo ms len =
    (let base = length (render (ms @ [(pad_name, [CHR 0x22, CHR 0x22])])) in
     if int base > len then Inl CannotPad
     else let out = render (ms @ [(pad_name, jsonString (replicate (nat (len - int base)) CHR ''p''))]) in
       if int (length out) \<noteq> len then Inl PaddedOtherwise else Inr out)"

section \<open>Meta\<close>

definition meta_body :: "generator \<Rightarrow> bool \<Rightarrow> string" where
  "meta_body g signalOn =
    ''{\"v\":1,\"record_count\":'' @ Itoa (int (length (g_initial g))) @ '',\"max_ttl\":'' @ Itoa fx_MaxTTL @
    '',\"max_record_bytes\":'' @ Itoa fx_MaxRecordBytes @ '',\"pow_bits\":'' @ Itoa fx_PoWBits @
    '',\"signal\":'' @ (if signalOn then ''true'' else ''false'') @ '',\"source_url\":'' @ jsonString SourceURL @ ''}''"

definition get_meta :: wire_request where
  "get_meta = \<lparr>wq_Method = ''GET'', wq_Path = ''/v1/meta'', wq_Query = [], wq_Headers = [], wq_Body = empty_body\<rparr>"

definition buildMetaFixtures :: "generator \<Rightarrow> generator" where
  "buildMetaFixtures g =
    add (zero_case\<lparr>fc_id := ''meta-200-signal-disabled'',
          fc_note := note_meta_200_signal_disabled, fc_spec := (sect @ ''5.1''),
      fc_row := ''An instance that does not broker signal channels advertises \"signal\": false'',
      fc_instance := InstanceSignalDisabled, fc_first := condAccepted, fc_request := get_meta,
      fc_expect := expectMeta (meta_body g False), fc_rows := [''5.1/signal-false'']\<rparr>)
    (add (zero_case\<lparr>fc_id := ''meta-200-all-seven-members'',
          fc_note := note_meta_200_all_seven_members, fc_spec := (sect @ ''5.1''),
      fc_row := ''All seven members are REQUIRED'', fc_first := condAccepted, fc_request := get_meta,
      fc_expect := expectMeta (meta_body g True), fc_rows := [''5.1/meta'']\<rparr>) g)"

section \<open>Publishing: accepted, and whatever the media type\<close>

definition put_accepted :: "crypto \<Rightarrow> (nat \<Rightarrow> bool) \<Rightarrow> generator \<Rightarrow> fx_error + (string \<times> generator)" where
  "put_accepted C ctx g =
    andThen (take_publishers C 1 g) (\<lambda>(fresh, g1).
    andThen (pub_envelope C ctx (fresh ! 0) RecordExpiresAt) (\<lambda>accepted.
      let acceptedBody = render (envelopeMembers accepted) in
      Inr (acceptedBody,
        add (zero_case\<lparr>fc_id := ''record-put-204-accepted'',
          fc_note := note_record_put_204_accepted, fc_spec := (sect @ ''5.2''), fc_row := ''Accepted and stored'',
          fc_first := condAccepted, fc_mutates := True, fc_request := putRecord acceptedBody vendorType,
          fc_expect := expectStatus 204, fc_rows := [''5.2/accepted'']\<rparr>) g1)))"

definition contentTypes :: "(string \<times> string \<times> (string, string) gomap) list" where
  "contentTypes =
    [(''record-put-204-content-type-vendor'', note_record_put_204_content_type_vendor, vendorType),
     (''record-put-204-content-type-json'', note_record_put_204_content_type_json, [(''Content-Type'', ''application/json'')]),
     (''record-put-204-content-type-unrecognised'', note_record_put_204_content_type_unrecognised, [(''Content-Type'', ''text/plain;charset=utf-8'')]),
     (''record-put-204-content-type-absent'', note_record_put_204_content_type_absent, [])]"

definition content_type_note :: "string list" where
  "content_type_note = [''Rejecting on the header gains nothing, because the body is validated in full regardless, and costs interoperability with constrained clients.'']"

definition put_content_types :: "string \<Rightarrow> generator \<Rightarrow> generator" where
  "put_content_types acceptedBody g =
    add_all (map (\<lambda>(cid, note, headers). zero_case\<lparr>fc_id := cid, fc_note := note # content_type_note, fc_spec := (sect @ ''5.2''),
      fc_row := ''A directory MUST NOT reject a request on the basis of its Content-Type'',
      fc_first := condAccepted, fc_mutates := True, fc_request := putRecord acceptedBody headers,
      fc_expect := expectStatus 204, fc_rows := [''5.2/content-type'']\<rparr>) contentTypes) g"

definition put_limited :: "string \<Rightarrow> generator \<Rightarrow> generator" where
  "put_limited acceptedBody g =
    add (zero_case\<lparr>fc_id := ''record-put-429-rate-limited'',
          fc_note := note_record_put_429_rate_limited, fc_spec := (sect @ ''5.2''), fc_row := ''Rate limited'',
      fc_instance := InstanceLimitsOfOne, fc_conditions := [condRateLimited], fc_first := condRateLimited,
      fc_ordered := True,
      fc_prior := [\<lparr>pr_Note = note_record_put_429_rate_limited_prior, pr_Repeat = 1, pr_ExpectStatus = 400, pr_Request = putRecord ''{}'' vendorType\<rparr>],
      fc_request := putRecord acceptedBody vendorType, fc_expect := expectStatus 429,
      fc_rows := [''5.2/rate-limited'']\<rparr>) g"

section \<open>Publishing: the size\<close>

definition put_sizes :: "crypto \<Rightarrow> (nat \<Rightarrow> bool) \<Rightarrow> generator \<Rightarrow> fx_error + (string \<times> generator)" where
  "put_sizes C ctx g =
    andThen (take_publishers C 1 g) (\<lambda>(sizePubs, g1).
    andThen (pub_envelope C ctx (sizePubs ! 0) RecordExpiresAt) (\<lambda>sizeEnv.
    andThen (padTo (envelopeMembers sizeEnv) fx_MaxRecordBytes) (\<lambda>atLimit.
    andThen (padTo (envelopeMembers sizeEnv) (fx_MaxRecordBytes + 1)) (\<lambda>overLimit.
      Inr (overLimit,
        add (zero_case\<lparr>fc_id := ''record-put-413-over-size-limit'',
          fc_note := note_record_put_413_over_size_limit, fc_spec := (sect @ ''5.2''),
          fc_row := ''Received body exceeds max_record_bytes'', fc_conditions := [condTooLarge],
          fc_first := condTooLarge, fc_ordered := True, fc_request := putRecord overLimit vendorType,
          fc_expect := expectStatus 413, fc_rows := [''5.2/too-large'']\<rparr>)
        (add (zero_case\<lparr>fc_id := ''record-put-204-at-size-limit'',
          fc_note := note_record_put_204_at_size_limit, fc_spec := (sect @ ''5.2''),
          fc_row := ''Accepted and stored'', fc_first := condAccepted, fc_mutates := True,
          fc_request := putRecord atLimit vendorType, fc_expect := expectStatus 204,
          fc_rows := [''5.2/accepted'']\<rparr>) g1))))))"

section \<open>Publishing: malformed\<close>

definition malformed_bodies :: "member list \<Rightarrow> string \<Rightarrow> string \<Rightarrow> string \<Rightarrow> (string \<times> string list \<times> string) list" where
  "malformed_bodies mm paddedLookup nonCanonicalLookup shortNonce =
    [(''record-put-400-not-json'', note_record_put_400_not_json,
      ''this is not an envelope''),
     (''record-put-400-empty-body'', note_record_put_400_empty_body,
      []),
     (''record-put-400-not-an-object'', note_record_put_400_not_an_object,
      ''[1,2,3]''),
     (''record-put-400-required-member-absent'', note_record_put_400_required_member_absent,
      render (remove_member mm ''pow'')),
     (''record-put-400-explicit-null'', note_record_put_400_explicit_null,
      render (set_member mm ''pow'' ''null'')),
     (''record-put-400-padded-base64url'', note_record_put_400_padded_base64url,
      render (set_member mm ''lookup_id'' (jsonString paddedLookup))),
     (''record-put-400-non-canonical-base64url'', note_record_put_400_non_canonical_base64url,
      render (set_member mm ''lookup_id'' (jsonString nonCanonicalLookup))),
     (''record-put-400-wrong-decoded-length'', note_record_put_400_wrong_decoded_length,
      render (set_member mm ''nonce'' (jsonString shortNonce))),
     (''record-put-400-duplicate-member'', note_record_put_400_duplicate_member,
      render (mm @ [(''expires_at'', Itoa (Now + 60))]))]"

definition malformed_case :: "string \<times> string list \<times> string \<Rightarrow> fixtureCase" where
  "malformed_case m = zero_case\<lparr>fc_id := fst m, fc_note := fst (snd m), fc_spec := (sect @ ''5.2''),
    fc_row := ''Body is not well-formed JSON, a required member is absent, a value is not valid unpadded base64url, or a fixed-width field decodes to the wrong length'',
    fc_conditions := [condMalformed], fc_first := condMalformed, fc_ordered := True,
    fc_request := putRecord (snd (snd m)) vendorType, fc_expect := expectStatus 400, fc_rows := [''5.2/malformed'']\<rparr>"

definition put_malformed :: "crypto \<Rightarrow> (nat \<Rightarrow> bool) \<Rightarrow> generator \<Rightarrow> fx_error + (member list \<times> generator)" where
  "put_malformed C ctx g =
    andThen (take_publishers C 1 g) (\<lambda>(malPubs, g1).
    andThen (pub_envelope C ctx (malPubs ! 0) RecordExpiresAt) (\<lambda>malEnv.
      let mm = envelopeMembers malEnv in
    andThen (padded (e_LookupID malEnv)) (\<lambda>paddedLookup.
    andThen (nonCanonical (e_LookupID malEnv)) (\<lambda>nonCanonicalLookup.
      let shortNonce = b64_Encode (take (NonceLen - 1) (p_nonce (malPubs ! 0))) in
      Inr (mm, add_all (map malformed_case (malformed_bodies mm paddedLookup nonCanonicalLookup shortNonce)) g1)))))"

definition put_bad_version :: "member list \<Rightarrow> generator \<Rightarrow> generator" where
  "put_bad_version mm g =
    add (zero_case\<lparr>fc_id := ''record-put-400-bad-version'',
          fc_note := note_record_put_400_bad_version, fc_spec := (sect @ ''5.2''), fc_row := ''v is not 1'',
      fc_conditions := [condBadVersion], fc_first := condBadVersion, fc_ordered := True,
      fc_request := putRecord (render (set_member mm ''v'' ''2'')) vendorType,
      fc_expect := expectStatus 400, fc_rows := [''5.2/bad-version'']\<rparr>) g"

section \<open>Publishing: the expiry bound\<close>

definition atGrace :: int where "atGrace = Now + fx_MaxTTL + fx_SkewGrace"
definition overGrace :: int where "overGrace = Now + fx_MaxTTL + fx_SkewGrace + 1"

definition put_ttl :: "crypto \<Rightarrow> (nat \<Rightarrow> bool) \<Rightarrow> generator \<Rightarrow> fx_error + generator" where
  "put_ttl C ctx g =
    andThen (take_publishers C 2 g) (\<lambda>(ttlPubs, g1).
    andThen (pub_envelope C ctx (ttlPubs ! 0) atGrace) (\<lambda>graceEnv.
      let g2 = add (zero_case\<lparr>fc_id := ''record-put-204-at-ttl-skew-grace'',
          fc_note := note_record_put_204_at_ttl_skew_grace, fc_spec := (sect @ ''5.2''),
        fc_row := ''Accepted and stored'', fc_first := condAccepted, fc_mutates := True,
        fc_request := putRecord (render (envelopeMembers graceEnv)) vendorType,
        fc_expect := expectStatus 204, fc_rows := [''5.2/accepted'']\<rparr>) g1 in
    andThen (pub_envelope C ctx (ttlPubs ! 1) overGrace) (\<lambda>overEnv.
      Inr (add (zero_case\<lparr>fc_id := ''record-put-400-ttl-too-long'',
          fc_note := note_record_put_400_ttl_too_long, fc_spec := (sect @ ''5.2''),
        fc_row := ''expires_at exceeds now + max_ttl'', fc_conditions := [condTTLTooLong],
        fc_first := condTTLTooLong, fc_ordered := True,
        fc_request := putRecord (render (envelopeMembers overEnv)) vendorType,
        fc_expect := expectStatus 400, fc_rows := [''5.2/ttl-too-long'']\<rparr>) g2))))"

section \<open>Publishing: identifier, proof of work and signature\<close>

definition put_mismatch :: "crypto \<Rightarrow> (nat \<Rightarrow> bool) \<Rightarrow> generator \<Rightarrow> fx_error + generator" where
  "put_mismatch C ctx g =
    andThen (take_publishers C 2 g) (\<lambda>(mismatchPubs, g1).
      let stated = p_lookupID (mismatchPubs ! 1); signer = mismatchPubs ! 0 in
    andThen (pubSolve C ctx stated RecordExpiresAt) (\<lambda>mismatchPoW.
    andThen (hand_signature C signer stated signer RecordExpiresAt) (\<lambda>sig.
      Inr (add (zero_case\<lparr>fc_id := ''record-put-403-lookup-mismatch'',
          fc_note := note_record_put_403_lookup_mismatch, fc_spec := (sect @ ''5.2''),
        fc_row := ''lookup_id is not SHA-256(wk_pub)'', fc_conditions := [condLookupMismatch],
        fc_first := condLookupMismatch, fc_ordered := True,
        fc_request := putRecord (render (envelopeMembers
          (hand_envelope Version stated signer RecordExpiresAt mismatchPoW sig))) vendorType,
        fc_expect := expectStatus 403, fc_rows := [''5.2/lookup-mismatch'']\<rparr>) g1))))"

definition put_pow :: "crypto \<Rightarrow> (nat \<Rightarrow> bool) \<Rightarrow> generator \<Rightarrow> fx_error + generator" where
  "put_pow C ctx g =
    andThen (take_publishers C 1 g) (\<lambda>(powPubs, g1).
    andThen (pub_envelope C ctx (powPubs ! 0) RecordExpiresAt) (\<lambda>powEnv.
    andThen (returns (insufficientPoW C (p_lookupID (powPubs ! 0)) RecordExpiresAt)) (\<lambda>weak.
      Inr (add (zero_case\<lparr>fc_id := ''record-put-403-pow-insufficient'',
          fc_note := note_record_put_403_pow_insufficient, fc_spec := (sect @ ''5.2''),
        fc_row := ''pow does not satisfy pow_bits'', fc_conditions := [condPoWInsufficient],
        fc_first := condPoWInsufficient, fc_ordered := True,
        fc_request := putRecord (render (set_member (envelopeMembers powEnv) ''pow'' (jsonString (b64_Encode weak)))) vendorType,
        fc_expect := expectStatus 403, fc_rows := [''5.2/pow'']\<rparr>) g1))))"

definition put_signature :: "crypto \<Rightarrow> (nat \<Rightarrow> bool) \<Rightarrow> generator \<Rightarrow> fx_error + generator" where
  "put_signature C ctx g =
    andThen (take_publishers C 2 g) (\<lambda>(sigPubs, g1).
    andThen (pub_envelope C ctx (sigPubs ! 0) RecordExpiresAt) (\<lambda>sigEnv.
    andThen (hand_signature C (sigPubs ! 1) (p_lookupID (sigPubs ! 0)) (sigPubs ! 0) RecordExpiresAt) (\<lambda>wrongSig.
      Inr (add (zero_case\<lparr>fc_id := ''record-put-403-sig-invalid'',
          fc_note := note_record_put_403_sig_invalid, fc_spec := (sect @ ''5.2''),
        fc_row := ''sig does not verify under wk_pub'', fc_conditions := [condSigInvalid],
        fc_first := condSigInvalid, fc_ordered := True,
        fc_request := putRecord (render (set_member (envelopeMembers sigEnv) ''sig'' (jsonString (b64_Encode wrongSig)))) vendorType,
        fc_expect := expectStatus 403, fc_rows := [''5.2/sig'']\<rparr>) g1))))"

section \<open>Publishing: the clock and the stored record\<close>

definition put_expired :: "crypto \<Rightarrow> (nat \<Rightarrow> bool) \<Rightarrow> generator \<Rightarrow> fx_error + generator" where
  "put_expired C ctx g =
    andThen (take_publishers C 2 g) (\<lambda>(expiredPubs, g1).
    andThen (pub_envelope C ctx (expiredPubs ! 0) Now) (\<lambda>atNow.
      let g2 = add (zero_case\<lparr>fc_id := ''record-put-409-expires-at-equals-now'',
          fc_note := note_record_put_409_expires_at_equals_now, fc_spec := (sect @ ''5.2''),
        fc_row := ''expires_at is not strictly greater than the directory's current time'',
        fc_conditions := [condExpired], fc_first := condExpired, fc_ordered := True,
        fc_request := putRecord (render (envelopeMembers atNow)) vendorType,
        fc_expect := expectStatus 409, fc_rows := [''5.2/expired'']\<rparr>) g1 in
    andThen (pub_envelope C ctx (expiredPubs ! 1) (Now - 1)) (\<lambda>beforeNow.
      Inr (add (zero_case\<lparr>fc_id := ''record-put-409-expires-at-in-the-past'',
          fc_note := note_record_put_409_expires_at_in_the_past, fc_spec := (sect @ ''5.2''),
        fc_row := ''expires_at is not strictly greater than the directory's current time'',
        fc_conditions := [condExpired], fc_first := condExpired, fc_ordered := True,
        fc_request := putRecord (render (envelopeMembers beforeNow)) vendorType,
        fc_expect := expectStatus 409, fc_rows := [''5.2/expired'']\<rparr>) g2))))"

definition not_newer_row :: string where
  "not_newer_row = ''expires_at is not strictly greater than that of an unexpired stored record under the same lookup_id''"

definition put_recency :: "crypto \<Rightarrow> (nat \<Rightarrow> bool) \<Rightarrow> generator \<Rightarrow> fx_error + generator" where
  "put_recency C ctx g =
    andThen (recency_target g) (\<lambda>p.
    andThen (pub_envelope C ctx p (g_recencyExpires g)) (\<lambda>equalEnv.
      let g1 = add (zero_case\<lparr>fc_id := ''record-put-409-not-newer-equal'',
          fc_note := note_record_put_409_not_newer_equal, fc_spec := (sect @ ''5.2''),
        fc_row := not_newer_row, fc_conditions := [condNotNewer], fc_first := condNotNewer,
        fc_ordered := True, fc_request := putRecord (render (envelopeMembers equalEnv)) vendorType,
        fc_expect := expectStatus 409, fc_rows := [''5.2/not-newer'']\<rparr>) g in
    andThen (pub_envelope C ctx p (g_recencyExpires g - 1)) (\<lambda>olderEnv.
      let g2 = add (zero_case\<lparr>fc_id := ''record-put-409-not-newer-older'',
          fc_note := note_record_put_409_not_newer_older, fc_spec := (sect @ ''5.2''),
        fc_row := not_newer_row, fc_conditions := [condNotNewer], fc_first := condNotNewer,
        fc_ordered := True, fc_request := putRecord (render (envelopeMembers olderEnv)) vendorType,
        fc_expect := expectStatus 409, fc_rows := [''5.2/not-newer'']\<rparr>) g1 in
    andThen (pub_envelope C ctx p (g_recencyExpires g + 1)) (\<lambda>newerEnv.
      Inr (add (zero_case\<lparr>fc_id := ''record-put-204-newer-replaces'',
          fc_note := note_record_put_204_newer_replaces, fc_spec := (sect @ ''5.2''),
        fc_row := ''Accepted and stored'', fc_first := condAccepted, fc_mutates := True,
        fc_request := putRecord (render (envelopeMembers newerEnv)) vendorType,
        fc_expect := expectStatus 204, fc_rows := [''5.2/accepted'']\<rparr>) g2)))))"

section \<open>The evaluation order\<close>

definition order_size :: "string \<Rightarrow> generator \<Rightarrow> generator" where
  "order_size overLimit g =
    (let brokenOverLimit = butlast overLimit @ '','' in
     add (zero_case\<lparr>fc_id := ''record-put-order-413-before-400-malformed'',
          fc_note := note_record_put_order_413_before_400_malformed, fc_spec := (sect @ ''5.2''),
       fc_row := ''Evaluation order: two conditions violated'',
       fc_conditions := [condTooLarge, condMalformed], fc_first := condTooLarge, fc_ordered := True,
       fc_request := putRecord brokenOverLimit vendorType, fc_expect := expectStatus 413,
       fc_rows := [''5.2/order'', ''5.2/too-large'']\<rparr>) g)"

definition order_lookup :: "crypto \<Rightarrow> (nat \<Rightarrow> bool) \<Rightarrow> generator \<Rightarrow> fx_error + generator" where
  "order_lookup C ctx g =
    andThen (take_publishers C 2 g) (\<lambda>(pubs, g1).
      let stated = p_lookupID (pubs ! 1); signer = pubs ! 0 in
    andThen (pubSolve C ctx stated Now) (\<lambda>solved.
    andThen (hand_signature C signer stated signer Now) (\<lambda>sig.
      Inr (add (zero_case\<lparr>fc_id := ''record-put-order-403-lookup-before-409-expired'',
          fc_note := note_record_put_order_403_lookup_before_409_expired, fc_spec := (sect @ ''5.2''),
        fc_row := ''Evaluation order: two conditions violated'',
        fc_conditions := [condLookupMismatch, condExpired], fc_first := condLookupMismatch, fc_ordered := True,
        fc_request := putRecord (render (envelopeMembers (hand_envelope Version stated signer Now solved sig))) vendorType,
        fc_expect := expectStatus 403, fc_rows := [''5.2/order'']\<rparr>) g1))))"

definition order_signature :: "crypto \<Rightarrow> (nat \<Rightarrow> bool) \<Rightarrow> generator \<Rightarrow> fx_error + generator" where
  "order_signature C ctx g =
    andThen (recency_target g) (\<lambda>p.
    andThen (pubSolve C ctx (p_lookupID p) (g_recencyExpires g)) (\<lambda>replayPoW.
    andThen (take_publishers C 1 g) (\<lambda>(otherKey, g1).
    andThen (hand_signature C (otherKey ! 0) (p_lookupID p) p (g_recencyExpires g)) (\<lambda>sig.
      Inr (add (zero_case\<lparr>fc_id := ''record-put-order-403-sig-before-409-not-newer'',
          fc_note := note_record_put_order_403_sig_before_409_not_newer, fc_spec := (sect @ ''5.2''),
        fc_row := ''Evaluation order: two conditions violated'',
        fc_conditions := [condSigInvalid, condNotNewer], fc_first := condSigInvalid, fc_ordered := True,
        fc_request := putRecord (render (envelopeMembers
          (hand_envelope Version (p_lookupID p) p (g_recencyExpires g) replayPoW sig))) vendorType,
        fc_expect := expectStatus 403, fc_rows := [''5.2/order'']\<rparr>) g1)))))"

definition order_three :: "crypto \<Rightarrow> generator \<Rightarrow> fx_error + generator" where
  "order_three C g =
    andThen (take_publishers C 2 g) (\<lambda>(threePubs, g1).
      let p = threePubs ! 0 in
    andThen (returns (insufficientPoW C (p_lookupID p) overGrace)) (\<lambda>weak.
    andThen (hand_signature C (threePubs ! 1) (p_lookupID p) p overGrace) (\<lambda>sig.
      Inr (add (zero_case\<lparr>fc_id := ''record-put-order-400-ttl-before-403-pow-and-sig'',
          fc_note := note_record_put_order_400_ttl_before_403_pow_and_sig, fc_spec := (sect @ ''5.2''),
        fc_row := ''Evaluation order: three conditions violated'',
        fc_conditions := [condTTLTooLong, condPoWInsufficient, condSigInvalid], fc_first := condTTLTooLong,
        fc_ordered := True,
        fc_request := putRecord (render (envelopeMembers
          (hand_envelope Version (p_lookupID p) p overGrace weak sig))) vendorType,
        fc_expect := expectStatus 400, fc_rows := [''5.2/order'']\<rparr>) g1))))"

definition order_four :: "crypto \<Rightarrow> generator \<Rightarrow> fx_error + generator" where
  "order_four C g =
    andThen (take_publishers C 3 g) (\<lambda>(fourPubs, g1).
      let stated = p_lookupID (fourPubs ! 1) in
    andThen (returns (insufficientPoW C stated RecordExpiresAt)) (\<lambda>weak.
    andThen (hand_signature C (fourPubs ! 2) stated (fourPubs ! 0) RecordExpiresAt) (\<lambda>sig.
      Inr (add (zero_case\<lparr>fc_id := ''record-put-order-400-version-before-three-403s'',
          fc_note := note_record_put_order_400_version_before_three_403s, fc_spec := (sect @ ''5.2''),
        fc_row := ''Evaluation order: four conditions violated'',
        fc_conditions := [condBadVersion, condLookupMismatch, condPoWInsufficient, condSigInvalid],
        fc_first := condBadVersion, fc_ordered := True,
        fc_request := putRecord (render (envelopeMembers
          (hand_envelope 2 stated (fourPubs ! 0) RecordExpiresAt weak sig))) vendorType,
        fc_expect := expectStatus 400, fc_rows := [''5.2/order'']\<rparr>) g1))))"

definition order_limiter :: "crypto \<Rightarrow> generator \<Rightarrow> fx_error + generator" where
  "order_limiter C g =
    andThen (take_publishers C 1 g) (\<lambda>(limitPubs, g1).
      let p = limitPubs ! 0 in
    andThen (returns (insufficientPoW C (p_lookupID p) Now)) (\<lambda>weak.
    andThen (hand_signature C p (p_lookupID p) p Now) (\<lambda>sig.
    andThen (padTo (envelopeMembers (hand_envelope 2 (p_lookupID p) p Now weak sig)) (fx_MaxRecordBytes + 1)) (\<lambda>oversizedBadVersion.
      Inr (add (zero_case\<lparr>fc_id := ''record-put-order-429-before-everything'',
          fc_note := note_record_put_order_429_before_everything, fc_spec := (sect @ ''5.2''),
        fc_row := ''Evaluation order: four conditions violated'', fc_instance := InstanceLimitsOfOne,
        fc_conditions := [condRateLimited, condTooLarge, condBadVersion, condExpired],
        fc_first := condRateLimited, fc_ordered := True,
        fc_prior := [\<lparr>pr_Note = note_record_put_order_429_before_everything_prior, pr_Repeat = 1, pr_ExpectStatus = 400, pr_Request = putRecord ''{}'' vendorType\<rparr>],
        fc_request := putRecord oversizedBadVersion vendorType, fc_expect := expectStatus 429,
        fc_rows := [''5.2/order'', ''5.2/rate-limited'']\<rparr>) g1)))))"

definition order_blunt :: "crypto \<Rightarrow> (nat \<Rightarrow> bool) \<Rightarrow> generator \<Rightarrow> fx_error + generator" where
  "order_blunt C ctx g =
    andThen (take_publishers C 2 g) (\<lambda>(bluntPubs, g1).
      let p = bluntPubs ! 0 in
    andThen (returns (insufficientPoW C (p_lookupID p) RecordExpiresAt)) (\<lambda>weak.
    andThen (hand_signature C (bluntPubs ! 1) (p_lookupID p) p RecordExpiresAt) (\<lambda>sig.
      Inr (add (zero_case\<lparr>fc_id := ''record-put-order-403-pow-and-sig-are-indistinguishable'',
          fc_note := note_record_put_order_403_pow_and_sig_are_indistinguishable, fc_spec := (sect @ ''5.2''),
        fc_row := ''Evaluation order: two conditions violated, same code'',
        fc_conditions := [condPoWInsufficient, condSigInvalid], fc_first := condPoWInsufficient,
        fc_ordered := True, fc_blunt := True,
        fc_request := putRecord (render (envelopeMembers
          (hand_envelope Version (p_lookupID p) p RecordExpiresAt weak sig))) vendorType,
        fc_expect := expectStatus 403, fc_rows := [''5.2/order'']\<rparr>) g1))))"

definition order_expired_replay :: "crypto \<Rightarrow> (nat \<Rightarrow> bool) \<Rightarrow> generator \<Rightarrow> fx_error + generator" where
  "order_expired_replay C ctx g =
    andThen (recency_target g) (\<lambda>p.
    andThen (pubSolve C ctx (p_lookupID p) Now) (\<lambda>expiredReplayPoW.
    andThen (hand_signature C p (p_lookupID p) p Now) (\<lambda>sig.
      Inr (add (zero_case\<lparr>fc_id := ''record-put-order-409-expired-and-not-newer'',
          fc_note := note_record_put_order_409_expired_and_not_newer, fc_spec := (sect @ ''5.2''),
        fc_row := ''Evaluation order: two conditions violated, same code'',
        fc_conditions := [condExpired, condNotNewer], fc_first := condExpired,
        fc_ordered := True, fc_blunt := True,
        fc_request := putRecord (render (envelopeMembers
          (hand_envelope Version (p_lookupID p) p Now expiredReplayPoW sig))) vendorType,
        fc_expect := expectStatus 409, fc_rows := [''5.2/order'']\<rparr>) g))))"

definition buildOrderFixtures :: "crypto \<Rightarrow> (nat \<Rightarrow> bool) \<Rightarrow> string \<Rightarrow> generator \<Rightarrow> fx_error + generator" where
  "buildOrderFixtures C ctx overLimit g =
    andThen (order_lookup C ctx (order_size overLimit g)) (\<lambda>g.
    andThen (order_signature C ctx g) (\<lambda>g.
    andThen (order_three C g) (\<lambda>g.
    andThen (order_four C g) (\<lambda>g.
    andThen (order_limiter C g) (\<lambda>g.
    andThen (order_blunt C ctx g) (\<lambda>g.
      order_expired_replay C ctx g))))))"

definition buildRecordFixtures :: "crypto \<Rightarrow> (nat \<Rightarrow> bool) \<Rightarrow> generator \<Rightarrow> fx_error + generator" where
  "buildRecordFixtures C ctx g =
    andThen (put_accepted C ctx g) (\<lambda>(acceptedBody, g).
    andThen (put_sizes C ctx (put_limited acceptedBody (put_content_types acceptedBody g))) (\<lambda>(overLimit, g).
    andThen (put_malformed C ctx g) (\<lambda>(mm, g).
    andThen (put_ttl C ctx (put_bad_version mm g)) (\<lambda>g.
    andThen (put_mismatch C ctx g) (\<lambda>g.
    andThen (put_pow C ctx g) (\<lambda>g.
    andThen (put_signature C ctx g) (\<lambda>g.
    andThen (put_expired C ctx g) (\<lambda>g.
    andThen (put_recency C ctx g) (\<lambda>g.
      buildOrderFixtures C ctx overLimit g)))))))))"

end
