(* ===== verification/Fixture_Channels.thy ===== *)
theory Fixture_Channels imports Fixture_Notes begin

text \<open>
  The fixtures of \<open>GET /v1/record\<close>, of the signal channels and of the preflights
  (\<open>internal/apivectors/fixtures.go\<close>, \<open>buildLookupFixtures\<close>, \<open>buildSignalFixtures\<close> and
  \<open>buildCORSFixtures\<close>), one definition per group, in the order the generator emits them.
\<close>

section \<open>Lookups\<close>

definition get_bits_zero :: "string \<Rightarrow> generator \<Rightarrow> generator" where
  "get_bits_zero all g =
    add (zero_case\<lparr>fc_id := ''record-get-200-bits-zero-prefix-absent'',
      fc_note := note_record_get_200_bits_zero_prefix_absent, fc_spec := (sect @ ''5.3''),
      fc_row := ''A directory MUST accept both ?prefix=&bits=0 and ?bits=0 with prefix absent'',
      fc_first := condAccepted, fc_request := getRecord ''bits=0'', fc_expect := expectRecords all,
      fc_rows := [''5.3/bits-zero'', ''5.3/match'', ''5.2/verbatim'']\<rparr>)
    (add (zero_case\<lparr>fc_id := ''record-get-200-bits-zero-empty-prefix'',
      fc_note := note_record_get_200_bits_zero_empty_prefix, fc_spec := (sect @ ''5.3''),
      fc_row := ''A directory MUST accept both ?prefix=&bits=0 and ?bits=0 with prefix absent'',
      fc_first := condAccepted, fc_request := getRecord ''prefix=&bits=0'', fc_expect := expectRecords all,
      fc_rows := [''5.3/bits-zero'', ''5.3/match'', ''5.3/content-type'', ''5.2/verbatim'']\<rparr>) g)"

definition get_prefixes :: "string \<Rightarrow> string \<Rightarrow> generator \<Rightarrow> generator" where
  "get_prefixes cap all g =
    add (zero_case\<lparr>fc_id := ''record-get-200-uppercase-prefix'',
      fc_note := note_record_get_200_uppercase_prefix, fc_spec := (sect @ ''5.3''),
      fc_row := ''prefix is hex, case-insensitive'', fc_first := condAccepted,
      fc_request := getRecord ''prefix=F&bits=1'', fc_expect := expectRecords all,
      fc_rows := [''5.3/uppercase'', ''5.3/mask-padding-bits'', ''5.2/verbatim'']\<rparr>)
    (add (zero_case\<lparr>fc_id := ''record-get-200-padding-bits-masked'',
      fc_note := note_record_get_200_padding_bits_masked, fc_spec := (sect @ ''5.3''),
      fc_row := ''Where bits is not a multiple of four a directory MUST mask and ignore the trailing bits'',
      fc_first := condAccepted, fc_request := getRecord ''prefix=f&bits=1'', fc_expect := expectRecords all,
      fc_rows := [''5.3/mask-padding-bits'', ''5.3/match'', ''5.2/verbatim'']\<rparr>)
    (add (zero_case\<lparr>fc_id := ''record-get-200-prefix-matches'',
      fc_note := note_record_get_200_prefix_matches cap, fc_spec := (sect @ ''5.3''),
      fc_row := ''Returns every non-expired envelope whose lookup_id begins with the given bit prefix'',
      fc_first := condAccepted, fc_request := getRecord ''prefix=8&bits=1'', fc_expect := expectRecords all,
      fc_rows := [''5.3/match'', ''5.2/verbatim'']\<rparr>) g))"

definition get_empty :: "string \<Rightarrow> generator \<Rightarrow> generator" where
  "get_empty empty_text g =
    add (zero_case\<lparr>fc_id := ''record-get-200-empty-result-padding-bits-masked'',
      fc_note := note_record_get_200_empty_result_padding_bits_masked, fc_spec := (sect @ ''5.3''),
      fc_row := ''Where bits is not a multiple of four a directory MUST mask and ignore the trailing bits'',
      fc_first := condAccepted, fc_request := getRecord ''prefix=7&bits=1'', fc_expect := expectRecords empty_text,
      fc_rows := [''5.3/mask-padding-bits'', ''5.3/empty-result'']\<rparr>)
    (add (zero_case\<lparr>fc_id := ''record-get-200-empty-result'',
      fc_note := note_record_get_200_empty_result, fc_spec := (sect @ ''5.3''),
      fc_row := ''A directory with no matching records returns 200 with an empty records array, never 404'',
      fc_first := condAccepted, fc_request := getRecord ''prefix=0&bits=1'', fc_expect := expectRecords empty_text,
      fc_rows := [''5.3/empty-result'']\<rparr>) g)"

text \<open>What is refused: the identifier, the row, the query and the row covered.\<close>

definition rejections :: "string \<Rightarrow> (string \<times> string \<times> string \<times> string list \<times> string list) list" where
  "rejections cap =
    [(''record-get-400-over-precise'', ''Directories MUST enforce a maximum bits and reject over-precise queries with 400'',
      ''prefix=80&bits=2'',
      note_record_get_400_over_precise cap, [''5.3/over-precise'']),
     (''record-get-400-bits-absent'', ''bits is REQUIRED'', ''prefix=8'',
      note_record_get_400_bits_absent, [''5.3/bits-required'']),
     (''record-get-400-bits-leading-zero'', ''bits is one or more ASCII digits: no sign, no leading zeros'',
      ''prefix=8&bits=01'',
      note_record_get_400_bits_leading_zero, [''5.3/bits-lexical'']),
     (''record-get-400-bits-not-a-number'', ''bits is one or more ASCII digits'', ''prefix=8&bits=one'',
      note_record_get_400_bits_not_a_number, [''5.3/bits-lexical'']),
     (''record-get-400-bits-signed'', ''bits is one or more ASCII digits: no sign'', ''prefix=8&bits=-1'',
      note_record_get_400_bits_signed, [''5.3/bits-lexical'']),
     (''record-get-400-bits-above-256'', ''bits MUST NOT exceed 256, the width of a lookup_id'',
      ''prefix='' @ replicate 65 CHR ''8'' @ ''&bits=257'',
      note_record_get_400_bits_above_256, [''5.3/bits-max-256'']),
     (''record-get-400-prefix-not-hex'', ''A directory MUST reject any character outside [0-9a-fA-F] with 400'',
      ''prefix=g&bits=1'',
      note_record_get_400_prefix_not_hex, [''5.3/prefix-hex'']),
     (''record-get-400-prefix-too-long'', ''prefix MUST contain exactly ceil(bits / 4) hex characters'',
      ''prefix=88&bits=1'',
      note_record_get_400_prefix_too_long, [''5.3/prefix-length'']),
     (''record-get-400-prefix-empty-with-bits'', ''prefix MUST contain exactly ceil(bits / 4) hex characters'',
      ''prefix=&bits=1'',
      note_record_get_400_prefix_empty_with_bits, [''5.3/prefix-length'']),
     (''record-get-400-prefix-absent-with-bits'', ''prefix MUST contain exactly ceil(bits / 4) hex characters'',
      ''bits=1'',
      note_record_get_400_prefix_absent_with_bits, [''5.3/prefix-length'']),
     (''record-get-400-repeated-prefix'', ''A query supplying prefix or bits more than once MUST be rejected rather than resolved'',
      ''prefix=8&prefix=8&bits=1'',
      note_record_get_400_repeated_prefix, [''5.3/repeated-parameter'']),
     (''record-get-400-repeated-bits'', ''A query supplying prefix or bits more than once MUST be rejected rather than resolved'',
      ''prefix=8&bits=1&bits=0'',
      note_record_get_400_repeated_bits, [''5.3/repeated-parameter''])]"

definition rejection_case :: "string \<times> string \<times> string \<times> string list \<times> string list \<Rightarrow> fixtureCase" where
  "rejection_case r = (case r of (cid, row, qry, note, rows) \<Rightarrow>
    zero_case\<lparr>fc_id := cid,
      fc_note := note, fc_spec := (sect @ ''5.3''), fc_row := row, fc_first := [], fc_request := getRecord qry,
      fc_expect := expectStatus 400, fc_rows := rows\<rparr>)"

definition get_limited :: "generator \<Rightarrow> generator" where
  "get_limited g =
    add (zero_case\<lparr>fc_id := ''record-get-429-rate-limited'',
      fc_note := note_record_get_429_rate_limited, fc_spec := (sect @ ''5.3''), fc_row := ''Rate limited'',
      fc_instance := InstanceLimitsOfOne, fc_conditions := [condRateLimited], fc_first := condRateLimited,
      fc_prior := [\<lparr>pr_Note = note_record_get_429_rate_limited_prior, pr_Repeat = 1, pr_ExpectStatus = 200, pr_Request = getRecord ''bits=0''\<rparr>],
      fc_request := getRecord ''bits=0'', fc_expect := expectStatus 429, fc_rows := [''5.3/rate-limited'']\<rparr>) g"

definition buildLookupFixtures :: "generator \<Rightarrow> fx_error + generator" where
  "buildLookupFixtures g =
    (let all = recordsBody (g_initial g); empty_text = recordsBody []; cap = capNote (length (g_initial g)) in
     andThen (matchingRecords (g_initial g) ''8'' 1) (\<lambda>matched.
       if length matched \<noteq> length (g_initial g) then Inl MatchedNotAll
       else andThen (matchingRecords (g_initial g) ''0'' 1) (\<lambda>missed.
         if length missed \<noteq> 0 then Inl MatchedSome
         else Inr (get_limited (add_all (map rejection_case (rejections cap))
           (get_empty empty_text (get_prefixes cap all (get_bits_zero all g))))))))"

section \<open>Signal channels\<close>

text \<open>
  The two malformed spellings of a channel's identifier; the text used instead of an error is
  one the encoder's own output never leads to.
\<close>

definition paddedChannel :: "generator \<Rightarrow> string" where
  "paddedChannel g = (case padded (g_freeChannel g) of Inl e \<Rightarrow> g_freeChannel g @ ''='' | Inr out \<Rightarrow> out)"

definition nonCanonicalChannel :: "generator \<Rightarrow> string" where
  "nonCanonicalChannel g = (case nonCanonical (g_freeChannel g) of Inl e \<Rightarrow> g_freeChannel g | Inr out \<Rightarrow> out)"

definition signal_blob :: wire_body where
  "signal_blob = binary_body [0x00, 0x10, 0x20, 0xff]"

definition signal_post :: "generator \<Rightarrow> generator" where
  "signal_post g =
    add (zero_case\<lparr>fc_id := ''signal-post-409-first-write-wins'',
      fc_note := note_signal_post_409_first_write_wins, fc_spec := (sect @ ''5.4''),
      fc_row := (''POST '' @ emdash @ '' channel already holds an unexpired blob''), fc_conditions := [condConflict],
      fc_first := condConflict, fc_request := postSignal (g_heldChannel g) signal_blob,
      fc_expect := expectStatus 409, fc_rows := [''5.4/post-conflict'']\<rparr>)
    (add (zero_case\<lparr>fc_id := ''signal-post-413-too-large'',
      fc_note := note_signal_post_413_too_large, fc_spec := (sect @ ''5.4''),
      fc_row := (''POST '' @ emdash @ '' body exceeds the '' @ sect @ ''4.3 signal channel payload limit''), fc_conditions := [condSignalLarge],
      fc_first := condSignalLarge,
      fc_request := postSignal (g_freeChannel g) (repeated_body 0x61 (MaxBlobBytes + 1)),
      fc_expect := expectStatus 413, fc_rows := [''5.4/post-too-large'']\<rparr>)
    (add (zero_case\<lparr>fc_id := ''signal-post-204-at-size-limit'',
      fc_note := note_signal_post_204_at_size_limit, fc_spec := (sect @ ''5.4''), fc_row := (''POST '' @ emdash @ '' Stored''),
      fc_first := condStored, fc_mutates := True,
      fc_request := postSignal (g_sizeChannel g) (repeated_body 0x61 MaxBlobBytes),
      fc_expect := expectStatus 204, fc_rows := [''5.4/post-stored'']\<rparr>)
    (add (zero_case\<lparr>fc_id := ''signal-post-204-expired-blob-replaced'',
      fc_note := note_signal_post_204_expired_blob_replaced, fc_spec := (sect @ ''5.4''),
      fc_row := (''POST '' @ emdash @ '' Stored''), fc_first := condStored, fc_mutates := True,
      fc_request := postSignal (g_expiredChannel g) signal_blob, fc_expect := expectStatus 204,
      fc_rows := [''5.4/post-stored'']\<rparr>)
    (add (zero_case\<lparr>fc_id := ''signal-post-204-stored'',
      fc_note := note_signal_post_204_stored, fc_spec := (sect @ ''5.4''), fc_row := (''POST '' @ emdash @ '' Stored''),
      fc_first := condStored, fc_mutates := True, fc_request := postSignal (g_freeChannel g) signal_blob,
      fc_expect := expectStatus 204, fc_rows := [''5.4/post-stored'']\<rparr>) g))))"

definition badChannels :: "generator \<Rightarrow> (string \<times> string list \<times> string) list" where
  "badChannels g =
    [(''signal-post-400-channel-too-short'', note_signal_post_400_channel_too_short, ''short''),
     (''signal-post-400-channel-padded'', note_signal_post_400_channel_padded, paddedChannel g),
     (''signal-post-400-channel-non-canonical'', note_signal_post_400_channel_non_canonical, nonCanonicalChannel g)]"

definition bad_channel_case :: "string \<times> string list \<times> string \<Rightarrow> fixtureCase" where
  "bad_channel_case c = zero_case\<lparr>fc_id := fst c, fc_note := fst (snd c), fc_spec := (sect @ ''5.4''),
    fc_row := (''POST '' @ emdash @ '' channel_id is not exactly 32 bytes of unpadded base64url''),
    fc_conditions := [condBadChannel], fc_first := condBadChannel, fc_request := postSignal (snd (snd c)) signal_blob,
    fc_expect := expectStatus 400, fc_rows := [''5.4/post-bad-channel'']\<rparr>"

definition signal_get :: "generator \<Rightarrow> generator" where
  "signal_get g =
    add (zero_case\<lparr>fc_id := ''signal-get-400-bad-channel'',
      fc_note := note_signal_get_400_bad_channel, fc_spec := (sect @ ''5.4''),
      fc_row := (''GET '' @ emdash @ '' channel_id is not exactly 32 bytes of unpadded base64url''), fc_conditions := [condBadChannel],
      fc_first := condBadChannel, fc_request := getSignal (butlast (g_freeChannel g)),
      fc_expect := expectStatus 400, fc_rows := [''5.4/get-bad-channel'']\<rparr>)
    (add (zero_case\<lparr>fc_id := ''signal-get-204-empty'',
      fc_note := note_signal_get_204_empty, fc_spec := (sect @ ''5.4''),
      fc_row := (''GET '' @ emdash @ '' long-poll window elapsed with no blob''), fc_first := condEmpty,
      fc_request := getSignal (g_freeChannel g), fc_expect := expectStatus 204, fc_rows := [''5.4/get-empty'']\<rparr>)
    (add (zero_case\<lparr>fc_id := ''signal-get-200-delivered'',
      fc_note := note_signal_get_200_delivered, fc_spec := (sect @ ''5.4''), fc_row := (''GET '' @ emdash @ '' blob present''),
      fc_first := condDelivered, fc_mutates := True, fc_request := getSignal (g_heldChannel g),
      fc_expect := expectBlob (g_heldBlob g), fc_rows := [''5.4/get-delivered'', ''5.4/octet-stream'']\<rparr>) g))"

definition get_order :: "generator \<Rightarrow> generator" where
  "get_order g =
    add (zero_case\<lparr>fc_id := ''record-get-order-rate-limited-before-bad-bits'',
      fc_note := note_record_get_order_rate_limited_before_bad_bits, fc_spec := (sect @ ''5.3''),
      fc_row := (''order '' @ emdash @ '' rate limited (429) precedes a malformed parameter (400)''),
      fc_instance := InstanceLimitsOfOne, fc_conditions := [condRateLimited, condMalformed],
      fc_first := condRateLimited, fc_ordered := True,
      fc_prior := [\<lparr>pr_Note = note_record_get_order_rate_limited_before_bad_bits_prior, pr_Repeat = 1, pr_ExpectStatus = 200, pr_Request = getRecord ''bits=0''\<rparr>],
      fc_request := getRecord ''bits=notanumber'', fc_expect := expectStatus 429, fc_rows := [''5.3/order'']\<rparr>) g"

text \<open>The order of the signal conditions.\<close>

definition spends_signal :: "string \<Rightarrow> int \<Rightarrow> wire_request \<Rightarrow> prior_request" where
  "spends_signal note status q = \<lparr>pr_Note = note, pr_Repeat = 1, pr_ExpectStatus = status, pr_Request = q\<rparr>"

definition signal_order :: "generator \<Rightarrow> generator" where
  "signal_order g =
    add (zero_case\<lparr>fc_id := ''signal-order-rate-limited-before-too-large'',
      fc_note := note_signal_order_rate_limited_before_too_large, fc_spec := (sect @ ''5.4''),
      fc_row := (''order '' @ emdash @ '' rate limited (429) precedes an over-size body (413)''),
      fc_instance := InstanceLimitsOfOne, fc_conditions := [condRateLimited, condSignalLarge],
      fc_first := condRateLimited, fc_ordered := True, fc_prior := [spends_signal note_signal_order_rate_limited_before_too_large_prior 400 (getSignal ''short'')],
      fc_request := postSignal (g_freeChannel g) (repeated_body 0x61 (MaxBlobBytes + 1)),
      fc_expect := expectStatus 429, fc_rows := [''5.4/order'']\<rparr>)
    (add (zero_case\<lparr>fc_id := ''signal-order-disabled-before-too-large'',
      fc_note := note_signal_order_disabled_before_too_large, fc_spec := (sect @ ''5.4''),
      fc_row := (''order '' @ emdash @ '' disabled (404) precedes an over-size body (413)''),
      fc_instance := InstanceSignalDisabled, fc_conditions := [condDisabled, condSignalLarge],
      fc_first := condDisabled, fc_ordered := True,
      fc_request := postSignal (g_freeChannel g) (repeated_body 0x61 (MaxBlobBytes + 1)),
      fc_expect := expectStatus 404, fc_rows := [''5.4/order'']\<rparr>)
    (add (zero_case\<lparr>fc_id := ''signal-order-disabled-before-bad-channel'',
      fc_note := note_signal_order_disabled_before_bad_channel, fc_spec := (sect @ ''5.4''),
      fc_row := (''order '' @ emdash @ '' disabled (404) precedes a malformed channel_id (400)''),
      fc_instance := InstanceSignalDisabled, fc_conditions := [condDisabled, condBadChannel],
      fc_first := condDisabled, fc_ordered := True, fc_request := getSignal ''short'',
      fc_expect := expectStatus 404, fc_rows := [''5.4/order'']\<rparr>)
    (add (zero_case\<lparr>fc_id := ''signal-order-disabled-before-rate-limited'',
      fc_note := note_signal_order_disabled_before_rate_limited, fc_spec := (sect @ ''5.4''),
      fc_row := (''order '' @ emdash @ '' disabled (404) precedes rate limited (429)''),
      fc_instance := InstanceDisabledAndLimited, fc_conditions := [condDisabled, condRateLimited],
      fc_first := condDisabled, fc_ordered := True, fc_prior := [spends_signal note_signal_order_disabled_before_rate_limited_prior 404 (getSignal ''short'')],
      fc_request := getSignal (g_freeChannel g), fc_expect := expectStatus 404, fc_rows := [''5.4/order'']\<rparr>) g)))"

definition signal_limited :: "generator \<Rightarrow> generator" where
  "signal_limited g =
    add (zero_case\<lparr>fc_id := ''signal-get-429-rate-limited'',
      fc_note := note_signal_get_429_rate_limited, fc_spec := (sect @ ''5.4''), fc_row := (''either '' @ emdash @ '' rate limited''),
      fc_instance := InstanceLimitsOfOne, fc_conditions := [condRateLimited], fc_first := condRateLimited,
      fc_prior := [spends_signal note_signal_get_429_rate_limited_prior 400 (postSignal ''short'' signal_blob)],
      fc_request := getSignal (g_freeChannel g), fc_expect := expectStatus 429, fc_rows := [''5.4/rate-limited'']\<rparr>)
    (add (zero_case\<lparr>fc_id := ''signal-post-429-rate-limited'',
      fc_note := note_signal_post_429_rate_limited, fc_spec := (sect @ ''5.4''), fc_row := (''either '' @ emdash @ '' rate limited''),
      fc_instance := InstanceLimitsOfOne, fc_conditions := [condRateLimited], fc_first := condRateLimited,
      fc_prior := [spends_signal note_signal_post_429_rate_limited_prior 400 (getSignal ''short'')],
      fc_request := postSignal (g_freeChannel g) signal_blob, fc_expect := expectStatus 429,
      fc_rows := [''5.4/rate-limited'']\<rparr>) g)"

definition signal_draining :: "generator \<Rightarrow> generator" where
  "signal_draining g =
    add (zero_case\<lparr>fc_id := ''signal-get-429-draining'',
      fc_note := note_signal_get_429_draining, fc_spec := (sect @ ''5.4''),
      fc_row := (''either '' @ emdash @ '' instance at capacity, or shutting down''), fc_instance := InstanceDraining,
      fc_conditions := [condRateLimited], fc_first := condRateLimited,
      fc_request := getSignal (g_heldChannel g), fc_expect := expectStatus 429, fc_rows := [''5.4/draining'']\<rparr>)
    (add (zero_case\<lparr>fc_id := ''signal-post-429-draining'',
      fc_note := note_signal_post_429_draining, fc_spec := (sect @ ''5.4''),
      fc_row := (''either '' @ emdash @ '' instance at capacity, or shutting down''), fc_instance := InstanceDraining,
      fc_conditions := [condRateLimited], fc_first := condRateLimited,
      fc_request := postSignal (g_freeChannel g) signal_blob, fc_expect := expectStatus 429,
      fc_rows := [''5.4/draining'']\<rparr>) g)"

definition signal_disabled :: "generator \<Rightarrow> generator" where
  "signal_disabled g =
    add (zero_case\<lparr>fc_id := ''signal-get-404-disabled'',
      fc_note := note_signal_get_404_disabled, fc_spec := (sect @ ''5.4''),
      fc_row := (''either '' @ emdash @ '' instance advertises \"signal\": false''), fc_instance := InstanceSignalDisabled,
      fc_conditions := [condDisabled], fc_first := condDisabled,
      fc_request := getSignal (g_heldChannel g), fc_expect := expectStatus 404, fc_rows := [''5.4/disabled'']\<rparr>)
    (add (zero_case\<lparr>fc_id := ''signal-post-404-disabled'',
      fc_note := note_signal_post_404_disabled, fc_spec := (sect @ ''5.4''),
      fc_row := (''either '' @ emdash @ '' instance advertises \"signal\": false''), fc_instance := InstanceSignalDisabled,
      fc_conditions := [condDisabled], fc_first := condDisabled,
      fc_request := postSignal (g_freeChannel g) signal_blob, fc_expect := expectStatus 404,
      fc_rows := [''5.4/disabled'']\<rparr>) g)"

definition buildSignalFixtures :: "generator \<Rightarrow> generator" where
  "buildSignalFixtures g =
    signal_disabled (signal_draining (signal_limited (signal_order (get_order (signal_get
      (add_all (map bad_channel_case (badChannels g)) (signal_post g)))))))"

section \<open>Preflights\<close>

definition preflights :: "generator \<Rightarrow> (string \<times> string \<times> string list \<times> string) list" where
  "preflights g =
    [(''cors-options-record-preflight'', ''/v1/record'', [''GET'', ''PUT'', ''OPTIONS''],
      note_cors_options_record_preflight),
     (''cors-options-signal-preflight'', ''/v1/signal/'' @ g_freeChannel g, [''GET'', ''POST'', ''OPTIONS''],
      note_cors_options_signal_preflight)]"

definition preflight_note :: "string list" where
  "preflight_note =
    [(''OPTIONS is HTTP transport mechanics for the four operations of '' @ sect @ ''5. It is not a fifth operation and does not bear on the constraint in '' @ sect @ ''10.''),
     ''Access-Control-Allow-Methods is compared as a token set: the header must list every method given, and order and spacing are not significant.'']"

definition preflight_case :: "string \<times> string \<times> string list \<times> string \<Rightarrow> fixtureCase" where
  "preflight_case p = (case p of (cid, path, methods, note) \<Rightarrow>
    zero_case\<lparr>fc_id := cid, fc_note := note # preflight_note, fc_spec := (sect @ ''5.5''), fc_row := ''OPTIONS preflight'', fc_first := condAccepted,
      fc_request := \<lparr>wq_Method = ''OPTIONS'', wq_Path = path, wq_Query = [],
        wq_Headers = [(''Origin'', ''https://client.example.net''), (''Access-Control-Request-Method'', ''PUT''),
          (''Access-Control-Request-Headers'', ''Content-Type'')],
        wq_Body = empty_body\<rparr>,
      fc_expect := (expectStatus 204)\<lparr>ex_Headers := [(''Access-Control-Allow-Headers'', ''Content-Type'')],
        ex_HeaderTokens := [(''Access-Control-Allow-Methods'', methods)]\<rparr>,
      fc_rows := [''5.5/preflight'', ''5.5/allow-origin'', ''5.5/no-credentials'']\<rparr>)"

definition buildCORSFixtures :: "generator \<Rightarrow> generator" where
  "buildCORSFixtures g = add_all (map preflight_case (preflights g)) g"

end
