(* ===== verification/Fixture_File.thy ===== *)
theory Fixture_File imports Fixture_Records Fixture_Channels begin

text \<open>
  \<open>internal/apivectors/generate.go\<close>: the file put together. \<open>Generate\<close> builds the initial state,
  checks it, adds every group of fixtures and then looks up, for each row of the tables, the
  fixtures that cover it; a row that none covers is an error. \<open>Marshal\<close>, the indented rendering
  of the result, is left out.
\<close>

definition endash :: string where "endash = [CHR 0xE2, CHR 0x80, CHR 0x93]"

section \<open>The instances\<close>

definition base_instance :: fx_instance where
  "base_instance = \<lparr>in_Name = [], in_Note = [], in_MaxTTL = fx_MaxTTL, in_MaxRecordBytes = fx_MaxRecordBytes,
    in_PoWBits = fx_PoWBits, in_SkewGrace = fx_SkewGrace, in_Signal = True, in_Draining = False,
    in_MaxSignalBlobBytes = MaxBlobBytes, in_SignalTTL = SignalTTL,
    in_SignalPollWindowMaximum = SignalPollWindowMaximum, in_KMin = KMin, in_SourceURL = SourceURL,
    in_RateLimits = \<lparr>rl_PutRecord = generousLimit, rl_GetRecord = generousLimit, rl_Signal = generousLimit,
      rl_WindowSeconds = limitWindowSecs\<rparr>,
    in_LoadInitialRecords = True, in_LoadInitialChannels = True\<rparr>"

definition exhaustible_limits :: rate_limits where
  "exhaustible_limits = \<lparr>rl_PutRecord = exhaustibleLimit, rl_GetRecord = exhaustibleLimit,
    rl_Signal = exhaustibleLimit, rl_WindowSeconds = limitWindowSecs\<rparr>"

definition note_instance_default :: "string list" where
  "note_instance_default =
    [''A conforming instance holding the declared initial state, with allowances high enough that no fixture reaches them.'',
     (''signal_poll_window_maximum is the '' @ sect @ ''5.4 ceiling, not a setting: a directory MUST NOT hold a long-poll open for longer, and SHOULD hold it for the full 30 seconds for real clients. A conformance harness MAY shorten it, because the GET-with-no-blob fixture asserts the status and not the duration.'')]"

definition instance_default :: fx_instance where
  "instance_default = base_instance\<lparr>in_Name := InstanceDefault, in_Note := note_instance_default\<rparr>"

definition note_instance_disabled :: "string list" where
  "note_instance_disabled =
    [(''The same instance with signal channels off, which is the only configuration in which '' @ sect @ ''5.4 answers 404. It holds the same records, so its GET /v1/meta reports the same record_count.'')]"

definition instance_disabled :: fx_instance where
  "instance_disabled = base_instance\<lparr>in_Name := InstanceSignalDisabled, in_Note := note_instance_disabled, in_Signal := False,
    in_LoadInitialChannels := False\<rparr>"

definition note_instance_draining :: "string list" where
  "note_instance_draining =
    [(''The same instance after it has begun a graceful shutdown: still listening, no longer able to broker a rendezvous. '' @ sect @ ''5.4 binds this to 429 for either method '' @ emdash @ '' the same code as at capacity, because the client's correct response is the same.''),
     ''Draining releases every in-flight long-poll and drops every stored blob, so the pre-loaded channels are gone by the time a fixture runs against this instance.'']"

definition instance_draining :: fx_instance where
  "instance_draining = base_instance\<lparr>in_Name := InstanceDraining, in_Note := note_instance_draining, in_Draining := True\<rparr>"

definition note_instance_disabled_limited :: "string list" where
  "note_instance_disabled_limited =
    [(''Signal channels off AND an allowance of one, which is the only configuration in which the 404 and 429 rows of '' @ sect @ ''5.4 can both apply to one request.''),
     (''It exists solely for the evaluation-order fixture. '' @ sect @ ''5.4 requires the durable answer first, so a rate-limited client of a permanently disabled instance is told 404 and stops asking, rather than 429 and retrying indefinitely against something that can never serve it.'')]"

definition instance_disabled_limited :: fx_instance where
  "instance_disabled_limited = base_instance\<lparr>in_Name := InstanceDisabledAndLimited, in_Note := note_instance_disabled_limited, in_Signal := False,
    in_LoadInitialRecords := False, in_LoadInitialChannels := False, in_RateLimits := exhaustible_limits\<rparr>"

definition note_instance_limited :: "string list" where
  "note_instance_limited =
    [(''An instance whose per-class allowance is one request per window, and which holds no initial state '' @ emdash @ '' loading it would spend the allowance the fixtures exist to spend deliberately.''),
     (''The rate-limit rows of '' @ sect @ ''5.2 and '' @ sect @ ''5.4 cannot be expressed by a single request, so they are expressed as this instance plus a prior request that spends the class's allowance.''),
     (sect @ ''6.4 counts the three classes independently, and the fixtures rely on it: a prior GET spends nothing a POST needs.'')]"

definition instance_limited :: fx_instance where
  "instance_limited = base_instance\<lparr>in_Name := InstanceLimitsOfOne, in_Note := note_instance_limited, in_RateLimits := exhaustible_limits,
    in_LoadInitialRecords := False, in_LoadInitialChannels := False\<rparr>"

definition fx_instances :: "fx_instance list" where
  "fx_instances = [instance_default, instance_disabled, instance_draining, instance_limited,
    instance_disabled_limited]"

lemmas instance_defs = instance_default_def instance_disabled_def instance_draining_def
  instance_disabled_limited_def instance_limited_def base_instance_def exhaustible_limits_def

section \<open>The notes of the file\<close>

text \<open>The multiplication sign and the dash of a range, as UTF-8.\<close>

definition times_sign :: string where "times_sign = [CHR 0xC3, CHR 0x97]"

definition initialStateNotes :: "string list" where
  "initialStateNotes =
    [Itoa InitialRecordCount @ '' records and '' @ Itoa 2 @ ('' signal channels. The record count is exactly 2 '' @ times_sign @ '' k_min, which is the smallest instance on which '' @ sect @ ''5.3's cap '' @ emdash @ '' max(0, floor(log2(record_count / k_min))) '' @ emdash @ '' is greater than zero, and therefore the smallest on which a masked prefix query can be shown to work at all.''),
     (''Every identifier here begins with a 1 bit. That is deliberate: at a cap of 1 bit the only queries available are bits = 0 and bits = 1, and a table whose identifiers all share their first bit answers the two halves of that query with the whole table and with nothing '' @ emdash @ '' which is what makes both the matching case and '' @ sect @ ''5.3's empty-result shape observable on an instance small enough to ship as a fixture.''),
     ''One record is stored with formatting a re-serialising directory would destroy. Every response that contains it is byte-exact only if the directory reproduced the bytes it received.'',
     (''Records are given as the exact bytes a publisher sent, and '' @ sect @ ''5.2 requires those bytes to be what '' @ sect @ ''5.3 returns.'')]"

definition body_encoding_notes :: "named_note list" where
  "body_encoding_notes =
    [(BodyEmpty, ''No body at all. Send nothing; expect zero bytes.''),
     (BodyUTF8, ''`value` is the body, character for character, encoded as UTF-8. Used for JSON bodies so that whitespace and member order are visible to a reader.''),
     (BodyBase64URL, ''`value` decodes as unpadded base64url to the body bytes. Used where the body is binary or contains bytes no text encoding should be trusted with.''),
     (BodyRepeatedByte, (''The single byte `byte` (0'' @ endash @ ''255, absent means 0) repeated `length` times. Used for the payload-limit fixtures, where writing 64 KiB of literal data into this file would obscure everything around it.''))]"

definition comparison_notes :: "named_note list" where
  "comparison_notes =
    [(CompareEmpty, ''The response must carry no body bytes.''),
     (CompareExactBytes, ''The response body must equal the expected bytes exactly.''),
     (CompareJSONObject, ''The response must be a JSON object equal to the expected one. Member order is not significant in JSON and is not compared.''),
     (CompareRecordsArray, (''The response must be a JSON object whose only member is `records`, an array whose elements are the expected elements as a multiset '' @ emdash @ '' each compared as **bytes**, not as parsed values. '' @ sect @ ''5.2 requires the bytes returned to be the bytes received, and a comparison of parsed values is exactly the comparison that passes with a re-serialising directory. The order of `records` is not significant ('' @ sect @ ''5.3); the expected body is written in the RECOMMENDED order, ascending lookup_id.''))]"

definition condition_notes :: "named_note list" where
  "condition_notes =
    [(condAccepted, (sect @ ''5.2 '' @ emdash @ '' the publish was accepted and stored.'')),
     (condRateLimited, (sect @ ''5.2 and '' @ sect @ ''5.4 '' @ emdash @ '' the source's allowance for this class is spent.'')),
     (condTooLarge, (sect @ ''5.2 '' @ emdash @ '' the received body exceeds max_record_bytes, measured as transmitted.'')),
     (condMalformed, (sect @ ''5.2 '' @ emdash @ '' not well-formed JSON, a required member absent or null, a duplicate member, a value that is not valid unpadded canonical base64url, or a fixed-width field of the wrong decoded length.'')),
     (condBadVersion, (sect @ ''5.2 '' @ emdash @ '' v is not 1.'')),
     (condTTLTooLong, (sect @ ''5.2 '' @ emdash @ '' expires_at exceeds now + max_ttl, after the skew grace.'')),
     (condLookupMismatch, (sect @ ''5.2 '' @ emdash @ '' lookup_id is not SHA-256(wk_pub).'')),
     (condPoWInsufficient, (sect @ ''5.2 '' @ emdash @ '' pow does not satisfy pow_bits.'')),
     (condSigInvalid, (sect @ ''5.2 '' @ emdash @ '' sig does not verify under wk_pub.'')),
     (condExpired, (sect @ ''5.2 '' @ emdash @ '' expires_at is not strictly greater than the directory's current time.'')),
     (condNotNewer, (sect @ ''5.2 '' @ emdash @ '' expires_at is not strictly greater than that of an unexpired stored record under the same lookup_id.'')),
     (condStored, (sect @ ''5.4 '' @ emdash @ '' the blob was stored.'')),
     (condDelivered, (sect @ ''5.4 '' @ emdash @ '' a blob was delivered.'')),
     (condEmpty, (sect @ ''5.4 '' @ emdash @ '' the long-poll window elapsed with no blob.'')),
     (condBadChannel, (sect @ ''5.4 '' @ emdash @ '' channel_id is not exactly 32 bytes of unpadded base64url.'')),
     (condConflict, (sect @ ''5.4 '' @ emdash @ '' the channel already holds an unexpired blob.'')),
     (condSignalLarge, (sect @ ''5.4 '' @ emdash @ '' the body exceeds the '' @ sect @ ''4.3 signal channel payload limit.'')),
     (condDisabled, (sect @ ''5.4 '' @ emdash @ '' the instance advertises \"signal\": false.''))]"

definition table_orders :: "table_order list" where
  "table_orders =
    [\<lparr>to_Table = (sect @ ''5.2''), to_Normative = True,
      to_Note = (''The conditions MUST be evaluated in this order and the directory MUST return the code of the first that fails. Without a fixed order a request violating two conditions receives a different code from different directories, and a publisher's retry logic '' @ emdash @ '' driven entirely by the code '' @ emdash @ '' diverges accordingly. The order is also cheapest-first: the two SHA-256 checks precede the Ed25519 verification, which costs roughly two orders of magnitude more.''),
      to_Conditions = recordConditionOrder\<rparr>,
     \<lparr>to_Table = (sect @ ''5.3''), to_Normative = True,
      to_Note = (''Rate limiting first, then parameter validity, then the instance cap. '' @ sect @ ''5.3 binds every parameter rejection to 400, so the choice between two of those can never be observed on the wire '' @ emdash @ '' but rate limiting is 429, so its position relative to them can be, and is fixed here.''),
      to_Conditions = queryConditionOrder\<rparr>,
     \<lparr>to_Table = (sect @ ''5.4''), to_Normative = True,
      to_Note = (''The conditions MUST be evaluated in this order. They are not disjoint: rate limiting co-occurs with \"signal\": false and with an over-size body, and a malformed channel_id co-occurs with \"signal\": false. The ordering principle differs from '' @ sect @ ''5.2's deliberately '' @ emdash @ '' '' @ sect @ ''5.2 is cheapest-first, '' @ sect @ ''5.4 is by durability. When several conditions hold, the client is told the one that says the most about what to do next: an instance advertising \"signal\": false will never serve it, whereas a rate limit lapses within the hour. Static instance configuration, then load shedding, then request validity, then stored state.''),
      to_Conditions = signalConditionOrder\<rparr>]"

definition encodingNotes :: encoding_notes where
  "encodingNotes =
    \<lparr>en_Note = ''How a value in this file becomes bytes on the wire. Nothing here assumes a language, a routing library or a JSON implementation.'',
     en_BinaryValues = (''Binary values outside request and response bodies '' @ emdash @ '' channel identifiers, lookup identifiers '' @ emdash @ '' are unpadded base64url, RFC 4648 '' @ sect @ ''5, canonically encoded per '' @ sect @ ''4.4. No '=' is ever emitted.''),
     en_Bodies = ''Every request and response body is an object carrying its own encoding, so that a binary body and a JSON body are read the same way. A body that is meant to be absent says so explicitly rather than being omitted.'',
     en_BodyEncodings = body_encoding_notes, en_Comparisons = comparison_notes,
     en_Headers = (''Request headers are sent as given. Header names are case-insensitive per RFC 9110. `expect.headers` must match exactly, `expect.header_tokens` names headers whose comma-separated value must contain every token listed '' @ emdash @ '' order, spacing and additional tokens are not significant '' @ emdash @ '' and `expect.headers_absent` must not appear at all.''),
     en_Query = (''`query` is the raw query string without a leading '?', to be appended to `path` unmodified. It is raw rather than a map because '' @ sect @ ''5.3 requires a repeated parameter to be rejected rather than resolved, and a map cannot express one.''),
     en_Conditions = condition_notes, en_Tables = table_orders\<rparr>"

definition file_comment :: string where
  "file_comment = (''Trigstation directory service '' @ emdash @ '' protocol v1 API conformance vectors for DIRECTORY-SPEC.md '' @ sect @ ''5. Generated by cmd/gen-api-vectors; regenerating must reproduce this file byte for byte.'')"

definition file_warning :: "string list" where
  "file_warning =
    [''TEST ONLY. Every key here is derived from a counting sequence hashed with a published domain string. They are reproducible by anyone and secret to nobody.'',
     ''Every expectation is evaluated against the fixed clock in `now`, never against wall time. A harness that uses its own clock will see records expire and fixtures fail for reasons that have nothing to do with conformance.'',
     ''Each fixture is driven against a freshly built instance holding the declared initial state. Fixtures whose `mutates_state` is true change what the instance holds, so a harness that cannot reset between fixtures must run those last and cannot claim order independence.'',
     (''pow_bits is 8 here, not the default 20. '' @ sect @ ''6.1 makes it an instance parameter, and verification costs one SHA-256 at any difficulty '' @ emdash @ '' only solving is exponential. The shipped default is exercised by testdata/vectors.json.'')]"

definition harness_notes :: fx_harness where
  "harness_notes =
    \<lparr>ha_Note = [''Build an instance from the named entry in `instances`, load `initial_state` into it, run any `prior_requests`, then issue `request` and compare the response against `expect`.'',
     ''Load the records by issuing the PUT given in each initial_state.records[] entry, with the instance's clock reading `loaded_at`; each returns 204. A directory that loads its state some other way MUST store the envelope bytes verbatim.'',
     ''Load the signal channels by issuing a POST of each blob to its channel_id with the instance's clock reading `posted_at`; each returns 204. One channel is loaded in the past so that its blob has expired by `now`.'',
     ''Reset the instance between fixtures. Every fixture is then order-independent: none depends on a state another leaves behind.''],
     ha_ResetBetweenFixtures = True, ha_OrderIndependent = True\<rparr>"

definition invariant_notes :: response_invariants where
  "invariant_notes =
    \<lparr>ri_Note = [(sect @ ''5.5 requires Access-Control-Allow-Origin: * on every /v1/ response '' @ emdash @ '' including the ones no handler produces, such as a 404 for an unregistered path under /v1/ and a 405 for a method that is not one of the four. A browser cannot read an error it is not allowed to see.''),
     ''A wildcard origin is safe here in a way it is not for most services, because the API carries no ambient authority: no cookies, no credentials, no session, and every write is authorised by a signature in the body.'',
     ''Access-Control-Allow-Credentials MUST NOT be sent, from anywhere, on any response.'',
     ''These are asserted on every fixture in this file rather than restated on each.''],
     ri_AppliesTo = ''every response to a request whose path begins with /v1/'',
     ri_Headers = [(''Access-Control-Allow-Origin'', ''*'')],
     ri_HeadersAbsent = [''Access-Control-Allow-Credentials'']\<rparr>"

section \<open>The file put together\<close>

definition encodeLookupID :: "bytes \<Rightarrow> string" where
  "encodeLookupID lookupID = b64_Encode lookupID"

definition lookupIDOf :: "storedRecord \<Rightarrow> string" where
  "lookupIDOf r = encodeLookupID (fr_lookup r)"

text \<open>The loop over the rows of the tables.\<close>

fun coverage_of :: "(string \<times> string \<times> string \<times> int) list \<Rightarrow> (string, string list) gomap \<Rightarrow> fx_error + coverage_row list" where
  "coverage_of [] m = Inr []"
| "coverage_of ((key, table, row, status) # rows) m =
    (let fids = (case map_of m key of None \<Rightarrow> [] | Some xs \<Rightarrow> xs) in
     if length fids = 0 then Inl (NotCovered key)
     else andThen (coverage_of rows m) (\<lambda>out.
       Inr (\<lparr>cr_Table = table, cr_Row = row, cr_Status = status, cr_Fixtures = fids\<rparr> # out)))"

definition initial_record_entry :: "storedRecord \<Rightarrow> initial_record" where
  "initial_record_entry r = \<lparr>ir_ID = fr_id r, ir_Note = fr_note r, ir_LookupID = lookupIDOf r, ir_LoadedAt = Now,
    ir_ExpiresAt = fr_expiresAt r, ir_LoadExpectStatus = 204, ir_Envelope = text_body (fr_body r)\<rparr>"

definition generator_file :: "generator \<Rightarrow> fx_error + fx_file" where
  "generator_file g =
    andThen (coverage_of coverageRows (g_coverage g)) (\<lambda>coverage.
      Inr \<lparr>fl_Comment = file_comment, fl_Warning = file_warning,
        fl_Spec = (''DIRECTORY-SPEC.md protocol version 1 (draft), '' @ sect @ ''5.1'' @ endash @ sect @ ''5.5''),
        fl_GeneratedBy = ''cmd/gen-api-vectors'', fl_Now = Now, fl_Encoding = encodingNotes,
        fl_Harness = harness_notes, fl_Instances = fx_instances,
        fl_InitialState = \<lparr>is_Note = initialStateNotes, is_Records = map initial_record_entry (g_initial g),
          is_SignalChannels = g_channels g\<rparr>,
        fl_ResponseInvariants = invariant_notes, fl_Coverage = coverage, fl_Fixtures = g_fixtures g\<rparr>)"

definition fails :: "fx_error option \<Rightarrow> fx_error + unit" where
  "fails r = (case r of Some e \<Rightarrow> Inl e | None \<Rightarrow> Inr ())"

text \<open>The generator's state once every group of fixtures is added, and the file.\<close>

definition Generate_fixtures :: "crypto \<Rightarrow> (nat \<Rightarrow> bool) \<Rightarrow> fx_error + generator" where
  "Generate_fixtures C ctx =
    andThen (buildInitialState C ctx generator_start) (\<lambda>g.
    andThen (fails (checkDistinctIdentifiers (g_initial g))) (\<lambda>_.
    andThen (fails (check_adversarial (g_initial g))) (\<lambda>_.
    andThen (buildRecordFixtures C ctx (buildMetaFixtures g)) (\<lambda>g.
    andThen (buildLookupFixtures g) (\<lambda>g.
      Inr (buildCORSFixtures (buildSignalFixtures g)))))))"

definition fx_Generate :: "crypto \<Rightarrow> (nat \<Rightarrow> bool) \<Rightarrow> fx_error + fx_file" where
  "fx_Generate C ctx = andThen (Generate_fixtures C ctx) generator_file"

end
