(* ===== verification/Harness.thy ===== *)
theory Harness imports Fixture_File begin

text \<open>
  What it means that a directory passes a fixture, as the file's \<open>harness\<close> notes describe it: an
  instance is built from the named entry, the initial state is loaded into it by requests whose
  answers have the stated status, the prior requests are run, and the response to the fixture's
  own request is compared with what it expects. The directory driven here is the model of
  \<open>internal/api\<close>; a poll that waits is answered when its window has elapsed.
\<close>

section \<open>One exchange\<close>

definition harness_world :: "int \<Rightarrow> world" where
  "harness_world t = \<lparr>wd_now = seconds t, wd_count_fails = False, wd_query_fails = False,
    wd_put_fails = False, wd_pick = 0\<rparr>"

definition harness_peer :: string where "harness_peer = ''192.0.2.7''"

definition harness_request :: "wire_request \<Rightarrow> fx_error + request" where
  "harness_request q =
    andThen (Body_Bytes (wq_Body q)) (\<lambda>b.
      Inr \<lparr>rq_method = wq_Method q, rq_path = wq_Path q, rq_rawquery = wq_Query q, rq_remote = harness_peer,
        rq_forwarded = [], rq_body = string_of_bytes b, rq_body_fails = False\<rparr>)"

fun elapse :: "request \<Rightarrow> outcome \<times> server \<Rightarrow> (response \<times> server) option" where
  "elapse r (Answered resp, s) = Some (resp, s)"
| "elapse r (Polling w, s) =
    (case resume r w WokenByTimer s of
       (Answered resp, s') \<Rightarrow> Some (resp, s')
     | (Polling w', s') \<Rightarrow> None)"

definition exchange :: "crypto \<Rightarrow> int \<Rightarrow> wire_request \<Rightarrow> server \<Rightarrow> (response \<times> server) option" where
  "exchange C t q s =
    (case harness_request q of
       Inl e \<Rightarrow> None
     | Inr r \<Rightarrow> elapse r (ServeHTTP C (harness_world t) r s))"

text \<open>Requests with the status each must draw, at the time given with it.\<close>

fun exchanges :: "crypto \<Rightarrow> (int \<times> wire_request \<times> int) list \<Rightarrow> server \<Rightarrow> server option" where
  "exchanges C [] s = Some s"
| "exchanges C ((t, q, status) # qs) s =
    (case exchange C t q s of
       None \<Rightarrow> None
     | Some (resp, s') \<Rightarrow> if rs_status resp = status then exchanges C qs s' else None)"

section \<open>Building an instance\<close>

definition instance_config :: "fx_instance \<Rightarrow> config" where
  "instance_config i =
    \<lparr>cfg_Store = Some [],
     cfg_Signal = (if in_Signal i then Some (signal_New \<lparr>so_TTL = seconds (in_SignalTTL i),
       so_PollWindow = seconds (in_SignalPollWindowMaximum i), so_MaxBlobBytes = in_MaxSignalBlobBytes i,
       so_MaxWaiters = 0, so_MaxWaitersPerChannel = 0\<rparr>) else None),
     cfg_Limiter = Some (limiter_New \<lparr>o_PutRecord = rl_PutRecord (in_RateLimits i),
       o_GetRecord = rl_GetRecord (in_RateLimits i), o_Signal = rl_Signal (in_RateLimits i),
       o_Window = seconds (rl_WindowSeconds (in_RateLimits i)), o_MaxKeys = 0\<rparr>),
     cfg_ClientAddr = Some [],
     cfg_Limits = \<lparr>MaxRecordBytes = in_MaxRecordBytes i, MaxTTL = in_MaxTTL i, PoWBits = in_PoWBits i,
       SkewGrace = in_SkewGrace i\<rparr>,
     cfg_SourceURL = in_SourceURL i\<rparr>"

definition load_record :: "initial_record \<Rightarrow> int \<times> wire_request \<times> int" where
  "load_record r = (ir_LoadedAt r, (putRecord [] vendorType)\<lparr>wq_Body := ir_Envelope r\<rparr>, ir_LoadExpectStatus r)"

definition load_channel :: "initial_channel \<Rightarrow> int \<times> wire_request \<times> int" where
  "load_channel c = (ic_PostedAt c, postSignal (ic_ChannelID c) (ic_Blob c), ic_LoadExpectStatus c)"

definition build_instance :: "crypto \<Rightarrow> initial_state \<Rightarrow> fx_instance \<Rightarrow> server option" where
  "build_instance C st i =
    (case api_New (instance_config i) of
       Inl e \<Rightarrow> None
     | Inr s \<Rightarrow>
         map_option (\<lambda>s. if in_Draining i then Drain s else s)
           (exchanges C
             ((if in_LoadInitialRecords i then map load_record (is_Records st) else []) @
              (if in_LoadInitialChannels i then map load_channel (is_SignalChannels st) else [])) s))"

section \<open>The comparison\<close>

definition header_is :: "response \<Rightarrow> string \<times> string \<Rightarrow> bool" where
  "header_is resp h \<longleftrightarrow> map_of (rs_headers resp) (fst h) = Some (snd h)"

definition header_lists :: "response \<Rightarrow> string \<times> string list \<Rightarrow> bool" where
  "header_lists resp h \<longleftrightarrow>
    (case map_of (rs_headers resp) (fst h) of
       None \<Rightarrow> False
     | Some v \<Rightarrow> list_all (\<lambda>t. t \<in> set (map TrimSpace (split_on CHR '','' v))) (snd h))"

definition header_absent :: "response \<Rightarrow> string \<Rightarrow> bool" where
  "header_absent resp h \<longleftrightarrow> map_of (rs_headers resp) h = None"

text \<open>Bodies are compared byte for byte, which is stricter than each of the file's comparisons.\<close>

definition meets :: "response_invariants \<Rightarrow> expectation \<Rightarrow> response \<Rightarrow> bool" where
  "meets ri e resp \<longleftrightarrow>
    rs_status resp = ex_Status e \<and>
    Body_Bytes (ex_Body e) = Inr (bytes_of_string (rs_body resp)) \<and>
    list_all (header_is resp) (ex_Headers e) \<and> list_all (header_lists resp) (ex_HeaderTokens e) \<and>
    list_all (header_absent resp) (ex_HeadersAbsent e) \<and>
    list_all (header_is resp) (ri_Headers ri) \<and> list_all (header_absent resp) (ri_HeadersAbsent ri)"

definition prior_exchanges :: "prior_request \<Rightarrow> (int \<times> wire_request \<times> int) list" where
  "prior_exchanges p = replicate (nat (pr_Repeat p)) (Now, pr_Request p, pr_ExpectStatus p)"

definition passes_on :: "crypto \<Rightarrow> response_invariants \<Rightarrow> server \<Rightarrow> fixture \<Rightarrow> bool" where
  "passes_on C ri s f =
    (case exchanges C (concat (map prior_exchanges (f_PriorRequests f))) s of
       None \<Rightarrow> False
     | Some s' \<Rightarrow>
         (case exchange C Now (f_Request f) s' of
            None \<Rightarrow> False
          | Some (resp, s'') \<Rightarrow> meets ri (f_Expect f) resp))"

definition passes_in :: "crypto \<Rightarrow> fx_instance list \<Rightarrow> initial_state \<Rightarrow> response_invariants \<Rightarrow> fixture \<Rightarrow> bool" where
  "passes_in C insts st ri f =
    (case find (\<lambda>i. in_Name i = f_Instance f) insts of
       None \<Rightarrow> False
     | Some i \<Rightarrow> (case build_instance C st i of None \<Rightarrow> False | Some s \<Rightarrow> passes_on C ri s f))"

definition passes :: "crypto \<Rightarrow> fx_file \<Rightarrow> fixture \<Rightarrow> bool" where
  "passes C file f =
    passes_in C (fl_Instances file) (fl_InitialState file) (fl_ResponseInvariants file) f"

end
