(* ===== verification/Conformance.thy ===== *)
theory Conformance imports Harness begin

text \<open>
  The model of the directory passes the fixtures: what the harness's instances do with the
  requests the fixtures are made of.
\<close>

section \<open>The limiter\<close>

text \<open>After at most \<open>n\<close> requests no counter and not the number of keys exceeds \<open>n\<close>.\<close>

definition roomy :: "nat \<Rightarrow> int \<Rightarrow> limiter \<Rightarrow> bool" where
  "roomy n cap l \<longleftrightarrow> l_limits l = [cap, cap, cap] \<and> l_maxKeys l = 500000 \<and> l_window l = seconds 3600 \<and>
    (\<exists>t. l_state l = Some t \<and> map_ok (t_keys t) \<and> length (t_keys t) \<le> n \<and>
      (\<forall>k c. map_of (t_keys t) k = Some c \<longrightarrow> c_n c \<le> int n))"

definition harness_limiter :: "int \<Rightarrow> limiter" where
  "harness_limiter cap = limiter_New \<lparr>o_PutRecord = cap, o_GetRecord = cap, o_Signal = cap,
    o_Window = seconds 3600, o_MaxKeys = 0\<rparr>"

lemma roomy_New: "0 < cap \<Longrightarrow> roomy 0 cap (harness_limiter cap)"
  by (simp add: roomy_def harness_limiter_def limiter_New_def orIntDefault_def orDurationDefault_def
    limiter_defaults seconds_def)

lemma length_due_sweep: "length (t_keys (due_sweep l now t)) \<le> length (t_keys t)"
  using length_sweepLocked by (simp add: due_sweep_def)

lemma roomy_Allow:
  assumes "roomy n cap l" and "int n < cap" and "cap \<le> 600" and "0 \<le> c" "c < 3" and "IsValid a"
  shows "\<exists>l'. limiter_Allow l a c now = (True, l') \<and> roomy (Suc n) cap l'"
proof -
  obtain t where t: "l_limits l = [cap, cap, cap]" "l_maxKeys l = 500000" "l_window l = seconds 3600"
    "l_state l = Some t" "map_ok (t_keys t)" "length (t_keys t) \<le> n"
    "\<forall>k c. map_of (t_keys t) k = Some c \<longrightarrow> c_n c \<le> int n"
    using assms(1) by (auto simp: roomy_def)
  have limit: "l_limits l ! nat c = cap" using assms(4,5) t(1)
    by (cases "c = 0"; cases "c = 1"; cases "c = 2") auto
  obtain b t' where r: "allow_table l cap (makeKey a c) now t = (b, t')" by fastforce
  let ?swept = "Ratelimit.sweepLocked now (l_window l) (l_sweepInterval l) t"
  have swept: "length (t_keys ?swept) \<le> n" "map_of (t_keys ?swept) k = Some x \<Longrightarrow> c_n x \<le> int n" for k x
    using length_sweepLocked [of now "l_window l" "l_sweepInterval l" t] t(6,7)
      lookup_sweepLocked [OF t(5), of now "l_window l" "l_sweepInterval l" k] by (auto split: if_splits)
  have due: "length (t_keys (due_sweep l now t)) \<le> n"
    "map_of (t_keys (due_sweep l now t)) k = Some x \<Longrightarrow> c_n x \<le> int n" for k x
    using swept t(6,7) by (auto simp: due_sweep_def split: if_splits)
  have grown: "length (map_put k v m) \<le> Suc n" if "length m \<le> n" for k and v :: counter and m
    using that by (simp add: length_map_put)
  have "b \<and> length (t_keys t') \<le> Suc n \<and> (\<forall>k x. map_of (t_keys t') k = Some x \<longrightarrow> c_n x \<le> int (Suc n))"
    using t(5) r
  proof (cases rule: allow_table_shape)
    case (live x)
    moreover have "c_n x \<le> int n" using live(1) t(7) by blast
    moreover have "b" using live(3) \<open>c_n x \<le> int n\<close> assms(2) by simp
    ultimately show ?thesis using due grown by (fastforce split: if_splits)
  next
    case (fresh t2)
    then have "length (t_keys t2) \<le> n" "map_of (t_keys t2) k = Some x \<Longrightarrow> c_n x \<le> int n" for k x
      using swept due by blast+
    with fresh grown show ?thesis by (fastforce split: if_splits)
  next
    case full
    then have "int (length (t_keys ?swept)) < l_maxKeys l" "int (length (t_keys (due_sweep l now t))) < l_maxKeys l"
      using swept(1) due(1) assms(2,3) t(2) by linarith+
    with r full show ?thesis
      by (auto simp: allow_table_def Let_def due_sweep_def split: if_splits option.splits)
  qed
  with r limit t assms allow_table_map_ok [OF t(5) r] show ?thesis
    by (intro exI [of _ "l\<lparr>l_state := Some t'\<rparr>"]) (simp add: limiter_Allow_def numClasses_def roomy_def)
qed

text \<open>With an allowance of one the second request of a class at the same time is refused.\<close>

lemma second_refused:
  assumes "0 \<le> c" "c < 3" and "IsValid a" and "limiter_Allow (harness_limiter 1) a c now = (b, l)"
  shows "b \<and> fst (limiter_Allow l a c now) = False"
proof -
  have l0: "limiter_ok (harness_limiter 1)" by (simp add: harness_limiter_def)
  have b: b using roomy_Allow [OF roomy_New, of 1 c a now] assms by simp
  have limits: "l_limits (harness_limiter 1) = [1, 1, 1]" "l_window (harness_limiter 1) = seconds 3600"
    using roomy_New [of 1] by (simp_all add: roomy_def)
  then have limit: "l_limits (harness_limiter 1) ! nat c = 1" using assms(1,2)
    by (cases "c = 0"; cases "c = 1"; cases "c = 2") auto
  from limiter_Allow_table [OF l0 assms(4)] b limit obtain t t' where
    t: "l_state (harness_limiter 1) = Some t" "map_ok (t_keys t)"
    "allow_table (harness_limiter 1) 1 (makeKey a c) now t = (True, t')" "l = (harness_limiter 1)\<lparr>l_state := Some t'\<rparr>"
    by auto
  have "map_of (t_keys t) k = None" for k
    using t(1) by (auto simp: harness_limiter_def limiter_New_def Let_def)
  with allow_table_own [OF t(2,3)] have "map_of (t_keys t') (makeKey a c) = Some \<lparr>c_start = now, c_n = 1\<rparr>"
    by (auto elim: key_stepE)
  moreover have l': "limiter_ok l" using limiter_step_ok [OF l0, of "Request a c now"] assms(4) by simp
  obtain b2 l2 where r2: "limiter_Allow l a c now = (b2, l2)" by fastforce
  ultimately have "\<not> b2"
    using limiter_Allow_table [OF l' r2] limit limits t(4)
    by (auto dest!: allow_table_own elim!: key_stepE simp: elapsed_def limiter_live_def time_Sub_def seconds_def)
  with b r2 show ?thesis by simp
qed

section \<open>The servers of the harness\<close>

definition harness_server :: "server \<Rightarrow> bool" where
  "harness_server s \<longleftrightarrow> sv_mux s = api_mux \<and> sv_client s = [] \<and> sv_limits s = fx_Limits \<and> sv_sourceURL s = SourceURL"

definition fresh_server :: "fx_instance \<Rightarrow> server" where
  "fresh_server i = \<lparr>sv_store = [], sv_signal = cfg_Signal (instance_config i),
    sv_limiter = harness_limiter (rl_PutRecord (in_RateLimits i)), sv_client = [], sv_limits = fx_Limits,
    sv_sourceURL = SourceURL, sv_mux = api_mux\<rparr>"

lemma New_instance: "i \<in> set fx_instances \<Longrightarrow> api_New (instance_config i) = Inr (fresh_server i)"
proof -
  assume i: "i \<in> set fx_instances"
  have "TrimSpace SourceURL \<noteq> []" by code_simp
  moreover have "fx_Limits \<noteq> zero_limits" by (simp add: fx_Limits_def zero_limits_def fx_consts)
  moreover have "cfg_Limits (instance_config i) = fx_Limits" "cfg_SourceURL (instance_config i) = SourceURL"
    "cfg_Limiter (instance_config i) = Some (harness_limiter (rl_PutRecord (in_RateLimits i)))"
    using i by (auto simp: fx_instances_def instance_defs instance_config_def fx_Limits_def harness_limiter_def
      limitWindowSecs_def exhaustibleLimit_def)
  ultimately show ?thesis
    by (simp add: api_New_def route_def handle_def api_mux_def fresh_server_def)
      (simp add: instance_config_def route_def handle_def)
qed

lemma harness_fresh: "harness_server (fresh_server i)"
  by (simp add: harness_server_def fresh_server_def)

lemma harness_unix [simp]: "time_Unix (seconds t) = t"
  by (simp add: time_Unix_def seconds_def)

lemma harness_world_simps [simp]:
  "wd_now (harness_world t) = seconds t" "wd_count_fails (harness_world t) = False"
  "wd_query_fails (harness_world t) = False" "wd_put_fails (harness_world t) = False" "wd_pick (harness_world t) = 0"
  by (simp_all add: harness_world_def)

text \<open>The address requests are counted under.\<close>

definition harness_addr :: Addr where "harness_addr = Addr4 0xC0000207"

lemma harness_client:
  assumes "harness_server s" and "rq_remote r = harness_peer"
  shows "client_of r s = harness_addr" "IsValid harness_addr"
proof -
  have "peerAddr r = harness_addr" using assms(2)
    by (simp add: peerAddr_def harness_peer_def ParseAddrPort_def splitAddrPort_def ParseAddr_def
      parse_ipv4_def parse_ipv4_fields_def dec_digit_def bytes_value_def harness_addr_def)
  with assms(1) show "client_of r s = harness_addr"
    by (simp add: harness_server_def demo_client_of harness_addr_def)
  show "IsValid harness_addr" by (simp add: harness_addr_def IsValid_def)
qed

text \<open>A request of a class is admitted while there is room, and spends one of its allowance.\<close>

definition spends :: "server \<Rightarrow> int \<Rightarrow> int \<Rightarrow> limiter \<Rightarrow> bool" where
  "spends s c t l \<longleftrightarrow> limiter_Allow (sv_limiter s) harness_addr c (seconds t) = (True, l)"

lemma harness_allow:
  assumes "harness_server s" "roomy n cap (sv_limiter s)" "int n < cap" "cap \<le> 600" "0 \<le> c" "c < 3"
    and "rq_remote r = harness_peer"
  shows "\<exists>l. api_allow r c now s = (True, s\<lparr>sv_limiter := l\<rparr>) \<and> roomy (Suc n) cap l \<and>
    limiter_Allow (sv_limiter s) harness_addr c now = (True, l)"
  using roomy_Allow [OF assms(2-6) harness_client(2) [OF assms(1,7)], of now]
  by (auto simp: api_allow_def harness_client(1) [OF assms(1,7)])

section \<open>Publishing\<close>

text \<open>The reason a publish is answered with, as the table of records stands.\<close>

definition put_verdict :: "crypto \<Rightarrow> string \<Rightarrow> int \<Rightarrow> table \<Rightarrow> RecordReason" where
  "put_verdict C body now db =
    (case accept_Check C body now fx_Limits False of (reason, d) \<Rightarrow>
       if reason \<noteq> RecordAccepted then reason else put_reason (stored_record (the d) body) now db)"

definition put_stores :: "crypto \<Rightarrow> string \<Rightarrow> int \<Rightarrow> table \<Rightarrow> table" where
  "put_stores C body now db =
    (case accept_Check C body now fx_Limits False of (reason, d) \<Rightarrow>
       if reason \<noteq> RecordAccepted then db else put_table (stored_record (the d) body) now db)"

definition bare_answer :: "int \<Rightarrow> response" where
  "bare_answer st = with_headers [(''Access-Control-Allow-Origin'', ''*'')] (status_only st)"

lemma Check_too_large: "4096 < length body \<Longrightarrow> accept_Check C body now fx_Limits False = (RecordTooLarge, None)"
  by (simp add: accept_Check_def)

lemma handlePutRecord_verdict:
  assumes "api_allow r ClassPutRecord (seconds t) s = (True, s\<lparr>sv_limiter := l\<rparr>)"
    and "sv_limits s = fx_Limits" and "\<not> rq_body_fails r"
  shows "handlePutRecord C (harness_world t) r s =
    (status_only (RecordReason_HTTPStatus (put_verdict C (rq_body r) t (sv_store s))),
     s\<lparr>sv_limiter := l, sv_store := put_stores C (rq_body r) t (sv_store s)\<rparr>)"
proof -
  have read: "readLimited r (i64 (MaxRecordBytes fx_Limits + 1)) =
      Some (if 4096 < length (rq_body r) then take 4097 (rq_body r) else rq_body r)"
    using assms(3) by (auto simp: readLimited_def i64_def)
  show ?thesis
  proof (cases "4096 < length (rq_body r)")
    case True
    then have "4096 < length (take 4097 (rq_body r))" by simp
    with True assms read show ?thesis
      by (simp add: handlePutRecord_def put_verdict_def put_stores_def Check_too_large Let_def)
  next
    case False
    obtain reason d where chk: "accept_Check C (rq_body r) t fx_Limits False = (reason, d)" by fastforce
    show ?thesis
    proof (cases "reason = RecordAccepted")
      case True
      with chk accept_Check_decoded obtain dd where d: "d = Some dd" by blast
      with chk True accepted_storable have st: "storable (stored_record dd (rq_body r))" by blast
      then have put: "store_Put False (stored_record dd (rq_body r)) t (sv_store s) =
          (put_reason (stored_record dd (rq_body r)) t (sv_store s), None,
           put_table (stored_record dd (rq_body r)) t (sv_store s))"
        by (simp add: put_reason_def put_table_def store_Put_exec storable_def)
      show ?thesis
        using False True assms read chk d put
        by (simp add: handlePutRecord_def put_verdict_def put_stores_def stored_record_def Let_def)
    next
      case rejected: False
      with False assms read chk show ?thesis
        by (simp add: handlePutRecord_def put_verdict_def put_stores_def Let_def)
    qed
  qed
qed

section \<open>Dispatching\<close>

definition plain_path :: "string \<Rightarrow> bool" where
  "plain_path ch \<longleftrightarrow> ch \<noteq> [] \<and> list_all (\<lambda>c. c \<noteq> CHR ''/'' \<and> c \<noteq> CHR ''%'' \<and> c \<noteq> CHR ''.'') ch"

lemma segment_value_plain: "CHR ''%'' \<notin> set s \<Longrightarrow> segment_value s = s"
proof -
  assume "CHR ''%'' \<notin> set s"
  then have "unescape False s = Some s" by (induction s) auto
  then show ?thesis by (simp add: segment_value_def)
qed

lemma signal_segments:
  assumes "plain_path ch"
  shows "segments (''/v1/signal/'' @ ch) = [''v1'', ''signal'', ch]"
    "clean_path (''/v1/signal/'' @ ch)" "segment_value ch = ch"
    "segment_value (''/v1/signal/'' @ ch) = ''/v1/signal/'' @ ch"
proof -
  have no: "CHR ''/'' \<notin> set ch" "CHR ''%'' \<notin> set ch" "CHR ''.'' \<notin> set ch" "ch \<noteq> []"
    using assms by (auto simp: plain_path_def list_all_iff)
  then show segs: "segments (''/v1/signal/'' @ ch) = [''v1'', ''signal'', ch]"
    by (simp add: segments_def split_on_no_sep)
  from no have "ch \<noteq> ''.''" "ch \<noteq> ''..''" by auto
  with segs show "clean_path (''/v1/signal/'' @ ch)"
    by (simp add: clean_path_def)
  show "segment_value ch = ch" "segment_value (''/v1/signal/'' @ ch) = ''/v1/signal/'' @ ch"
    using no by (auto intro!: segment_value_plain)
qed

lemma dispatch_signal:
  assumes "plain_path ch" and "rq_path r = ''/v1/signal/'' @ ch"
  shows "rq_method r = ''POST'' \<Longrightarrow> mux_dispatch api_mux r = Found HandlePostSignal [ch]"
    "rq_method r = ''GET'' \<Longrightarrow> mux_dispatch api_mux r = Found HandleGetSignal [ch]"
    "rq_method r = ''OPTIONS'' \<Longrightarrow> mux_dispatch api_mux r = Found (Preflight ''GET, POST, OPTIONS'') [ch]"
    "cors r = [(''Access-Control-Allow-Origin'', ''*'')]"
proof -
  have "ch \<noteq> []" "ch \<noteq> ''/''" using assms(1) by (auto simp: plain_path_def)
  moreover have "segment_value ''v1'' = ''v1''" "segment_value ''signal'' = ''signal''" by code_simp+
  ultimately show "rq_method r = ''POST'' \<Longrightarrow> mux_dispatch api_mux r = Found HandlePostSignal [ch]"
    "rq_method r = ''GET'' \<Longrightarrow> mux_dispatch api_mux r = Found HandleGetSignal [ch]"
    "rq_method r = ''OPTIONS'' \<Longrightarrow> mux_dispatch api_mux r = Found (Preflight ''GET, POST, OPTIONS'') [ch]"
    using signal_segments [OF assms(1)] assms(2)
    by (simp_all add: mux_dispatch_def mux_find_operation operation_def)
  show "cors r = [(''Access-Control-Allow-Origin'', ''*'')]"
    using signal_segments(4) [OF assms(1)] assms(2) by (simp add: cors_def url_path_def)
qed

lemma closed_paths:
  "clean_path ''/v1/record''" "clean_path ''/v1/meta''"
  "mux_find api_mux ''PUT'' ''/v1/record'' = Some (HandlePutRecord, [])"
  "mux_find api_mux ''GET'' ''/v1/record'' = Some (HandleGetRecord, [])"
  "mux_find api_mux ''OPTIONS'' ''/v1/record'' = Some (Preflight ''GET, PUT, OPTIONS'', [])"
  "mux_find api_mux ''GET'' ''/v1/meta'' = Some (HandleMeta, [])"
  "segment_value ''/v1/record'' = ''/v1/record''" "segment_value ''/v1/meta'' = ''/v1/meta''"
  by code_simp+

lemma dispatch_closed:
  "rq_method r = ''PUT'' \<Longrightarrow> rq_path r = ''/v1/record'' \<Longrightarrow> mux_dispatch api_mux r = Found HandlePutRecord []"
  "rq_method r = ''GET'' \<Longrightarrow> rq_path r = ''/v1/record'' \<Longrightarrow> mux_dispatch api_mux r = Found HandleGetRecord []"
  "rq_method r = ''OPTIONS'' \<Longrightarrow> rq_path r = ''/v1/record'' \<Longrightarrow>
    mux_dispatch api_mux r = Found (Preflight ''GET, PUT, OPTIONS'') []"
  "rq_method r = ''GET'' \<Longrightarrow> rq_path r = ''/v1/meta'' \<Longrightarrow> mux_dispatch api_mux r = Found HandleMeta []"
  "rq_path r = ''/v1/record'' \<Longrightarrow> cors r = [(''Access-Control-Allow-Origin'', ''*'')]"
  "rq_path r = ''/v1/meta'' \<Longrightarrow> cors r = [(''Access-Control-Allow-Origin'', ''*'')]"
  by (simp_all add: mux_dispatch_def closed_paths cors_def url_path_def)

text \<open>The request a wire request becomes.\<close>

definition request_of :: "wire_request \<Rightarrow> bytes \<Rightarrow> request" where
  "request_of q b = \<lparr>rq_method = wq_Method q, rq_path = wq_Path q, rq_rawquery = wq_Query q,
    rq_remote = harness_peer, rq_forwarded = [], rq_body = string_of_bytes b, rq_body_fails = False\<rparr>"

lemma request_of_simps [simp]:
  "rq_method (request_of q b) = wq_Method q" "rq_path (request_of q b) = wq_Path q"
  "rq_rawquery (request_of q b) = wq_Query q" "rq_remote (request_of q b) = harness_peer"
  "rq_body (request_of q b) = string_of_bytes b" "rq_body_fails (request_of q b) = False"
  by (simp_all add: request_of_def)

lemma harness_request_Inr: "Body_Bytes (wq_Body q) = Inr b \<Longrightarrow> harness_request q = Inr (request_of q b)"
  by (simp add: harness_request_def request_of_def)

lemma Body_Bytes_simps [simp]:
  "Body_Bytes (text_body s) = Inr (bytes_of_string s)" "Body_Bytes empty_body = Inr []"
  "Body_Bytes (binary_body b) = Inr b"
  "0 \<le> n \<Longrightarrow> Body_Bytes (repeated_body 0x61 n) = Inr (replicate (nat n) 0x61)"
  by (simp_all add: Body_Bytes_def text_body_def empty_body_def binary_body_def repeated_body_def encoding_names
    byte_of_def)

lemma bytes_of_string_simps [simp]: "string_of_bytes [] = []" "bytes_of_string [] = []"
  by (simp_all add: string_of_bytes_def bytes_of_string_def)

section \<open>Exchanges\<close>

definition put_like :: "wire_request \<Rightarrow> string \<Rightarrow> bool" where
  "put_like q body \<longleftrightarrow> wq_Method q = ''PUT'' \<and> wq_Path q = ''/v1/record'' \<and>
    Body_Bytes (wq_Body q) = Inr (bytes_of_string body)"

lemma put_like_putRecord [simp]: "put_like (putRecord body headers) body"
  by (simp add: put_like_def putRecord_def)

lemma exchange_put:
  assumes "harness_server s" "roomy n cap (sv_limiter s)" "int n < cap" "cap \<le> 600" and "put_like q body"
  shows "\<exists>l. exchange C t q s = Some (bare_answer (RecordReason_HTTPStatus (put_verdict C body t (sv_store s))),
      s\<lparr>sv_limiter := l, sv_store := put_stores C body t (sv_store s)\<rparr>) \<and> roomy (Suc n) cap l \<and> spends s ClassPutRecord t l"
proof -
  let ?r = "request_of q (bytes_of_string body)"
  have r: "harness_request q = Inr ?r" "rq_method ?r = ''PUT''" "rq_path ?r = ''/v1/record''"
    "rq_remote ?r = harness_peer" "rq_body ?r = body" "\<not> rq_body_fails ?r"
    using assms(5) harness_request_Inr by (simp_all add: put_like_def)
  obtain l where l: "api_allow ?r ClassPutRecord (seconds t) s = (True, s\<lparr>sv_limiter := l\<rparr>)" "roomy (Suc n) cap l" "spends s ClassPutRecord t l"
    using harness_allow [OF assms(1-4) _ _ r(4), of ClassPutRecord "seconds t"] by (auto simp: class_defs spends_def)
  have "handlePutRecord C (harness_world t) ?r s =
      (status_only (RecordReason_HTTPStatus (put_verdict C body t (sv_store s))),
       s\<lparr>sv_limiter := l, sv_store := put_stores C body t (sv_store s)\<rparr>)"
    using handlePutRecord_verdict [OF l(1) _ r(6), of C] assms(1) r(5) by (simp add: harness_server_def)
  moreover have "sv_mux s = api_mux" using assms(1) by (simp add: harness_server_def)
  ultimately show ?thesis
    using r l(2,3) by (intro exI [of _ l]) (simp add: exchange_def ServeHTTP_def dispatch_closed run_handler_def bare_answer_def)
qed

text \<open>A lookup: the answer depends on the query and the table.\<close>

definition get_answer :: "string \<Rightarrow> int \<Rightarrow> table \<Rightarrow> response" where
  "get_answer raw now db =
    (let values = url_Query raw in
     if repeated values ''prefix'' \<or> repeated values ''bits'' then status_only 400
     else case request_query (request_of (getRecord raw) []) (int (exec_count now db)) of
       Inl reason \<Rightarrow> status_only (QueryReason_HTTPStatus reason)
     | Inr q \<Rightarrow>
         (case store_ByPrefix False q now db of
            Inl _ \<Rightarrow> status_only 500
          | Inr envelopes \<Rightarrow> \<lparr>rs_status = 200, rs_headers = [(''Content-Type'', ''application/json'')],
              rs_body = records_text envelopes\<rparr>))"

definition answered :: "response \<Rightarrow> response" where
  "answered resp = with_headers [(''Access-Control-Allow-Origin'', ''*'')] resp"

lemma answered_status: "bare_answer st = answered (status_only st)"
  by (simp add: answered_def bare_answer_def)

lemma getRecord_simps [simp]:
  "wq_Method (getRecord raw) = ''GET''" "wq_Path (getRecord raw) = ''/v1/record''" "wq_Query (getRecord raw) = raw"
  "wq_Body (getRecord raw) = empty_body"
  by (simp_all add: getRecord_def)

lemma exchange_get:
  assumes "harness_server s" "roomy n cap (sv_limiter s)" "int n < cap" "cap \<le> 600"
  shows "\<exists>l. exchange C t (getRecord raw) s = Some (answered (get_answer raw t (sv_store s)), s\<lparr>sv_limiter := l\<rparr>) \<and>
    roomy (Suc n) cap l \<and> spends s ClassGetRecord t l"
proof -
  let ?r = "request_of (getRecord raw) []"
  obtain l where l: "api_allow ?r ClassGetRecord (seconds t) s = (True, s\<lparr>sv_limiter := l\<rparr>)" "roomy (Suc n) cap l" "spends s ClassGetRecord t l"
    using harness_allow [OF assms(1-4), of ClassGetRecord ?r "seconds t"] by (auto simp: class_defs spends_def)
  have "handleGetRecord (harness_world t) ?r s = (get_answer raw t (sv_store s), s\<lparr>sv_limiter := l\<rparr>)"
    using l(1) by (simp add: handleGetRecord_def get_answer_def Let_def store_Count_def status_defs split: sum.split)
  moreover have "sv_mux s = api_mux" using assms(1) by (simp add: harness_server_def)
  ultimately show ?thesis using l(2,3)
    by (intro exI [of _ l])
      (simp add: exchange_def harness_request_Inr ServeHTTP_def dispatch_closed run_handler_def answered_def)
qed

text \<open>Signal channels, while the allowance lasts.\<close>

definition signal_like :: "string \<Rightarrow> wire_request \<Rightarrow> string \<Rightarrow> bytes \<Rightarrow> bool" where
  "signal_like m q ch b \<longleftrightarrow> wq_Method q = m \<and> wq_Path q = ''/v1/signal/'' @ ch \<and> plain_path ch \<and>
    Body_Bytes (wq_Body q) = Inr b \<and> length b \<le> 65537"

lemma exchange_post:
  assumes "harness_server s" "roomy n cap (sv_limiter s)" "int n < cap" "cap \<le> 600" "signal_like ''POST'' q ch b"
    and "sv_signal s = Some st" "signal_Post 0 ch b (seconds t) st = (reason, st')"
  shows "\<exists>l. exchange C t q s =
      Some (bare_answer (SignalReason_HTTPStatus reason), s\<lparr>sv_limiter := l, sv_signal := Some st'\<rparr>) \<and> roomy (Suc n) cap l \<and> spends s ClassSignal t l"
proof -
  let ?r = "request_of q b"
  obtain l where l: "api_allow ?r ClassSignal (seconds t) s = (True, s\<lparr>sv_limiter := l\<rparr>)" "roomy (Suc n) cap l" "spends s ClassSignal t l"
    using harness_allow [OF assms(1-4), of ClassSignal ?r "seconds t"] by (auto simp: class_defs spends_def)
  have q: "wq_Method q = ''POST''" "wq_Path q = ''/v1/signal/'' @ ch" "plain_path ch"
    "Body_Bytes (wq_Body q) = Inr b" "length b \<le> 65537"
    using assms(5) by (simp_all add: signal_like_def)
  have "readLimited ?r (MaxBlobBytes + 1) = Some (string_of_bytes b)"
    using q(5) by (simp add: readLimited_def MaxBlobBytes_def)
  then have "handlePostSignal (harness_world t) ?r ch s =
      (status_only (SignalReason_HTTPStatus reason), s\<lparr>sv_limiter := l, sv_signal := Some st'\<rparr>)"
    using l(1) assms(6,7) by (simp add: handlePostSignal_def Let_def bytes_of_string_of_bytes)
  moreover have "sv_mux s = api_mux" using assms(1) by (simp add: harness_server_def)
  ultimately show ?thesis using l(2,3) q dispatch_signal(1,4) [OF q(3), of ?r]
    by (intro exI [of _ l])
      (simp add: exchange_def harness_request_Inr ServeHTTP_def run_handler_def bare_answer_def)
qed

lemma exchange_poll:
  assumes "harness_server s" "roomy n cap (sv_limiter s)" "int n < cap" "cap \<le> 600" "signal_like ''GET'' q ch b"
    and "sv_signal s = Some st" "Get_start ch (seconds t) st = (g, st')"
    and "(case g of Returned blob reason \<Rightarrow> resp = signal_reply blob reason \<and> st'' = st'
      | Waits w \<Rightarrow> \<exists>blob reason. Get_finish w WokenByTimer st' = (Returned blob reason, st'') \<and>
          resp = signal_reply blob reason)"
  shows "\<exists>l. exchange C t q s = Some (answered resp, s\<lparr>sv_limiter := l, sv_signal := Some st''\<rparr>) \<and> roomy (Suc n) cap l \<and> spends s ClassSignal t l"
proof -
  let ?r = "request_of q b"
  obtain l where l: "api_allow ?r ClassSignal (seconds t) s = (True, s\<lparr>sv_limiter := l\<rparr>)" "roomy (Suc n) cap l" "spends s ClassSignal t l"
    using harness_allow [OF assms(1-4), of ClassSignal ?r "seconds t"] by (auto simp: class_defs spends_def)
  have q: "wq_Method q = ''GET''" "wq_Path q = ''/v1/signal/'' @ ch" "plain_path ch"
    "Body_Bytes (wq_Body q) = Inr b"
    using assms(5) by (simp_all add: signal_like_def)
  have "handleGetSignal (harness_world t) ?r ch s = (get_outcome g, s\<lparr>sv_limiter := l, sv_signal := Some st'\<rparr>)"
    using l(1) assms(6,7) by (simp add: handleGetSignal_def Let_def)
  moreover have "sv_mux s = api_mux" using assms(1) by (simp add: harness_server_def)
  ultimately show ?thesis using l(2,3) q dispatch_signal(2,4) [OF q(3), of ?r] assms(8)
    by (intro exI [of _ l])
      (auto simp: exchange_def harness_request_Inr ServeHTTP_def run_handler_def answered_def get_outcome_def
        resume_def split: get_result.splits)
qed

text \<open>A request whose class has no allowance left, and channels that are turned off.\<close>

definition exhausted :: "int \<Rightarrow> server \<Rightarrow> bool" where
  "exhausted c s \<longleftrightarrow> \<not> fst (limiter_Allow (sv_limiter s) harness_addr c (seconds Now))"

lemma exhausted_allow:
  "harness_server s \<Longrightarrow> exhausted c s \<Longrightarrow> rq_remote r = harness_peer \<Longrightarrow>
    \<exists>s'. api_allow r c (seconds Now) s = (False, s') \<and> sv_signal s' = sv_signal s"
  by (auto simp: exhausted_def api_allow_def harness_client(1) split: prod.split)

lemma exchange_refused:
  assumes "harness_server s"
  shows "exhausted ClassPutRecord s \<Longrightarrow> put_like q body \<Longrightarrow> \<exists>s'. exchange C Now q s = Some (bare_answer 429, s')"
    "exhausted ClassGetRecord s \<Longrightarrow> \<exists>s'. exchange C Now (getRecord raw) s = Some (bare_answer 429, s')"
    "exhausted ClassSignal s \<Longrightarrow> sv_signal s \<noteq> None \<Longrightarrow> signal_like ''POST'' q ch b \<Longrightarrow>
      \<exists>s'. exchange C Now q s = Some (bare_answer 429, s')"
    "exhausted ClassSignal s \<Longrightarrow> sv_signal s \<noteq> None \<Longrightarrow> signal_like ''GET'' q ch b \<Longrightarrow>
      \<exists>s'. exchange C Now q s = Some (bare_answer 429, s')"
proof -
  have mux: "sv_mux s = api_mux" using assms by (simp add: harness_server_def)
  note allow = exhausted_allow [OF assms]
  show "\<exists>s'. exchange C Now q s = Some (bare_answer 429, s')" if "exhausted ClassPutRecord s" "put_like q body"
    using allow [OF that(1), of "request_of q (bytes_of_string body)"] that(2) mux
    by (auto simp: put_like_def exchange_def harness_request_Inr ServeHTTP_def dispatch_closed run_handler_def
      handlePutRecord_def bare_answer_def status_defs)
  show "\<exists>s'. exchange C Now (getRecord raw) s = Some (bare_answer 429, s')" if "exhausted ClassGetRecord s"
    using allow [OF that, of "request_of (getRecord raw) []"] mux
    by (auto simp: exchange_def harness_request_Inr ServeHTTP_def dispatch_closed run_handler_def
      handleGetRecord_def bare_answer_def status_defs)
  show "\<exists>s'. exchange C Now q s = Some (bare_answer 429, s')"
    if "exhausted ClassSignal s" "sv_signal s \<noteq> None" "signal_like ''POST'' q ch b"
    using allow [OF that(1), of "request_of q b"] that(2,3) mux dispatch_signal(1,4) [of ch "request_of q b"]
    by (auto simp: signal_like_def exchange_def harness_request_Inr ServeHTTP_def run_handler_def
      handlePostSignal_def bare_answer_def status_defs)
  show "\<exists>s'. exchange C Now q s = Some (bare_answer 429, s')"
    if "exhausted ClassSignal s" "sv_signal s \<noteq> None" "signal_like ''GET'' q ch b"
    using allow [OF that(1), of "request_of q b"] that(2,3) mux dispatch_signal(2,4) [of ch "request_of q b"]
    by (auto simp: signal_like_def exchange_def harness_request_Inr ServeHTTP_def run_handler_def
      handleGetSignal_def bare_answer_def status_defs)
qed

lemma exchange_disabled:
  assumes "harness_server s" "sv_signal s = None"
  shows "signal_like ''POST'' q ch b \<Longrightarrow> exchange C t q s = Some (bare_answer 404, s)"
    "signal_like ''GET'' q ch b \<Longrightarrow> exchange C t q s = Some (bare_answer 404, s)"
  using assms dispatch_signal(1,2,4) [of ch "request_of q b"]
  by (auto simp: harness_server_def signal_like_def exchange_def harness_request_Inr ServeHTTP_def run_handler_def
    handlePostSignal_def handleGetSignal_def bare_answer_def status_defs)

text \<open>Preflights and the advertisement use no allowance.\<close>

lemma exchange_options:
  assumes "harness_server s" and "Body_Bytes (wq_Body q) = Inr b" and "wq_Method q = ''OPTIONS''"
  shows "wq_Path q = ''/v1/record'' \<Longrightarrow> exchange C t q s = Some (answered (preflight ''GET, PUT, OPTIONS''), s)"
    "plain_path ch \<Longrightarrow> wq_Path q = ''/v1/signal/'' @ ch \<Longrightarrow>
      exchange C t q s = Some (answered (preflight ''GET, POST, OPTIONS''), s)"
  using assms dispatch_signal(3,4) [of ch "request_of q b"]
  by (simp_all add: harness_server_def exchange_def harness_request_Inr ServeHTTP_def run_handler_def
    dispatch_closed answered_def)

lemma exchange_meta:
  assumes "harness_server s" and "Body_Bytes (wq_Body q) = Inr b" and "wq_Method q = ''GET''" "wq_Path q = ''/v1/meta''"
  shows "exchange C t q s = Some (answered (handleMeta (harness_world t) s), s)"
  using assms
  by (simp add: harness_server_def exchange_def harness_request_Inr ServeHTTP_def run_handler_def
    dispatch_closed answered_def)

end
