(* ===== verification/Conform_Bodies.thy ===== *)
theory Conform_Bodies imports Conformance begin

text \<open>
  The verdicts of \<open>Check\<close> and of the store on the bodies the fixtures of \<open>PUT /v1/record\<close> carry:
  envelopes put together by hand, with any version, padding or field spelled wrongly, and the
  bodies that are no envelope.
\<close>

section \<open>Sizes\<close>

lemma length_show_nat: "n < 10 ^ k \<Longrightarrow> 0 < k \<Longrightarrow> length (show_nat n) \<le> k"
proof (induction n arbitrary: k rule: show_nat.induct)
  case (1 n)
  show ?case
  proof (cases "n < 10")
    case True
    with "1.prems" show ?thesis by (subst show_nat.simps) simp
  next
    case False
    with "1.prems" have k: "1 < k" by (cases "k = 1") auto
    then have "n div 10 < 10 ^ (k - 1)"
      using "1.prems" by (simp add: div_less_iff_less_mult flip: power_Suc2)
    with "1.IH" [of "k - 1"] k False show ?thesis by (subst show_nat.simps) simp
  qed
qed

lemma length_Itoa: "0 \<le> x \<Longrightarrow> x < 10 ^ 10 \<Longrightarrow> length (Itoa x) \<le> 10"
  using length_show_nat [of "nat x" 10] by (simp add: Itoa_def nat_less_iff)

lemma length_render:
  "plain_names ms \<Longrightarrow> length (render ms) = 1 + length ms + (\<Sum>m\<leftarrow>ms. length (fst m) + length (snd m) + 3)"
proof -
  assume "plain_names ms"
  then have "ms \<noteq> []" "render ms = object_text ms" by (simp_all add: plain_names_def render_object_text)
  moreover from \<open>ms \<noteq> []\<close> have "length (members_text ms) = length ms + (\<Sum>m\<leftarrow>ms. length (fst m) + length (snd m) + 3)"
    by (induction ms rule: members_text.induct) (simp_all add: quoted_def)
  ultimately show ?thesis by (simp add: object_text_def)
qed

section \<open>Envelopes put together by hand\<close>

definition craft_members :: "crypto \<Rightarrow> int \<Rightarrow> publisher \<Rightarrow> bytes \<Rightarrow> publisher \<Rightarrow> int \<Rightarrow> bytes \<Rightarrow> member list" where
  "craft_members C v p l signer e w = envelopeMembers ((transmitted (crafted C p l signer e w))\<lparr>e_V := v\<rparr>)"

lemma craft_members_valued:
  "craft_members C v p l signer e w = untyped (valued_members v (crafted C p l signer e w))"
  by (simp add: craft_members_def envelopeMembers_valued)

lemma plain_names_valued: "plain_names (untyped (valued_members v d) @ [(name, t)]) \<longleftrightarrow> list_all plain_char name"
  "plain_names (untyped (valued_members v d))"
  by (auto simp: plain_names_def valued_members_def envelope_members_def plain_char_def)

definition fx_time :: "int \<Rightarrow> bool" where
  "fx_time e \<longleftrightarrow> Now - 1 \<le> e \<and> e \<le> Now + 173101"

lemma fx_time_i64: "fx_time e \<Longrightarrow> is_i64 e"
  by (simp add: fx_time_def Now_def is_i64_def)

lemma fx_times [simp]: "fx_time Now" "fx_time (Now - 1)" "fx_time RecordExpiresAt" "fx_time (RecordExpiresAt - 1)"
  "fx_time (RecordExpiresAt + 1)" "fx_time atGrace" "fx_time overGrace"
  by (simp_all add: fx_time_def RecordExpiresAt_def atGrace_def overGrace_def fx_consts)

lemma length_Itoa_time: "fx_time e \<Longrightarrow> length (Itoa e) \<le> 10"
  by (rule length_Itoa) (simp_all add: fx_time_def Now_def)

lemma length_small: "0 \<le> v \<Longrightarrow> v < 10 \<Longrightarrow> length (Itoa v) = 1"
  using length_show_nat [of "nat v" 1] show_nat_digits [of "nat v"]
  by (cases "show_nat (nat v)") (simp_all add: Itoa_def nat_less_iff)

lemma length_craft:
  assumes "decoded_widths d" "length (d_CT d) = 16" "fx_time (d_ExpiresAt d)" "0 \<le> v" "v < 10"
  shows "length (render (untyped (valued_members v d))) \<le> 400"
  using length_Itoa_time [OF assms(3)] length_small [OF assms(4,5)] assms(1,2)
  by (simp add: length_render plain_names_valued)
    (simp add: valued_members_def envelope_members_def quoted_def decoded_widths_def)

text \<open>Every party of the fixtures and every identifier they state.\<close>

definition crypto_laws :: "crypto \<Rightarrow> bool" where
  "crypto_laws C \<longleftrightarrow> sha256_ok C \<and> ed25519_ok C"

definition parties :: "crypto \<Rightarrow> publisher \<Rightarrow> bytes \<Rightarrow> publisher \<Rightarrow> bytes \<Rightarrow> bool" where
  "parties C p l signer w \<longleftrightarrow> crypto_laws C \<and> publisher_ok C p \<and> publisher_ok C signer \<and> length l = 32 \<and> length w = 8"

lemma parties_widths: "parties C p l signer w \<Longrightarrow> decoded_widths (crafted C p l signer e w)"
  by (simp add: parties_def crypto_laws_def crafted_widths)

lemma parties_ct: "parties C p l signer w \<Longrightarrow> length (p_ct p) = 16"
  by (auto simp: parties_def publisher_ok_def)

text \<open>The whole table of the specification, recency rule included, on a body that decodes.\<close>

definition stale :: "int \<Rightarrow> table \<Rightarrow> bytes \<Rightarrow> int \<Rightarrow> bool" where
  "stale now db l e \<longleftrightarrow> (\<exists>r. live_row now db l = Some r \<and> e \<le> r_expires r)"

lemma verdict_decodable:
  assumes parse: "accept_parse body = Some ((transmitted d)\<lparr>e_V := v\<rparr>)" and "decoded_widths d"
    and "length body \<le> 4096"
  shows "put_verdict C body Now db = first_failing
    [(v \<noteq> 1, RecordBadVersion), (d_ExpiresAt d > Now + 173100, RecordTTLTooLong),
     (sha256 C (d_WKPub d) \<noteq> d_LookupID d, RecordLookupMismatch),
     (\<not> pow_Verify C (d_LookupID d) (d_ExpiresAt d) (d_PoW d) fx_PoWBits, RecordPoWInsufficient),
     (\<not> ed_verify C (d_WKPub d) (SigningBytes d) (d_Sig d), RecordSigInvalid),
     (d_ExpiresAt d \<le> Now, RecordExpired), (stale Now db (d_LookupID d) (d_ExpiresAt d), RecordNotNewer)] RecordAccepted"
proof -
  have chk: "accept_Check C body Now fx_Limits False =
    (let r = first_failing
        [(v \<noteq> 1, RecordBadVersion), (d_ExpiresAt d > Now + 173100, RecordTTLTooLong),
         (sha256 C (d_WKPub d) \<noteq> d_LookupID d, RecordLookupMismatch),
         (\<not> pow_Verify C (d_LookupID d) (d_ExpiresAt d) (d_PoW d) fx_PoWBits, RecordPoWInsufficient),
         (\<not> ed_verify C (d_WKPub d) (SigningBytes d) (d_Sig d), RecordSigInvalid),
         (d_ExpiresAt d \<le> Now, RecordExpired)] RecordAccepted
     in (r, if r = RecordAccepted then Some d else None))"
    by (rule Check_decodable [OF assms(1,2)]) (use assms(3) in simp)
  have put: "put_reason (stored_record d body) Now db =
      (if stale Now db (d_LookupID d) (d_ExpiresAt d) then RecordNotNewer else RecordAccepted)"
    if "accept_Check C body Now fx_Limits False = (RecordAccepted, Some d)"
    using accepted_storable [OF that]
    by (auto simp: put_reason_live stale_def stored_record_def split: option.splits)
  show ?thesis using put by (simp add: put_verdict_def chk Let_def split: if_splits)
qed

lemma verdict_crafted:
  assumes "parties C p l signer w" "fx_time e" "0 \<le> v" "v < 10" "unknown_members extra"
    and "body = render (craft_members C v p l signer e w @ untyped extra)" and "length body \<le> 4096"
  shows "put_verdict C body Now db = first_failing
    [(v \<noteq> 1, RecordBadVersion), (e > Now + 173100, RecordTTLTooLong),
     (p_lookupID p \<noteq> l, RecordLookupMismatch), (\<not> pow_Verify C l e w fx_PoWBits, RecordPoWInsufficient),
     (\<not> ed_verify C (p_pub p) (SigningBytes (crafted C p l signer e w)) (d_Sig (crafted C p l signer e w)), RecordSigInvalid),
     (e \<le> Now, RecordExpired), (stale Now db l e, RecordNotNewer)] RecordAccepted"
proof -
  let ?d = "crafted C p l signer e w"
  have "accept_parse body = Some ((transmitted ?d)\<lparr>e_V := v\<rparr>)"
    unfolding assms(6) craft_members_valued untyped_simps(3) [symmetric]
    by (rule accept_parse_valued) (use assms fx_time_i64 in \<open>auto simp: is_i64_def\<close>)
  from verdict_decodable [OF this parties_widths [OF assms(1)] assms(7)]
  show ?thesis using assms(1) by (auto simp: parties_def publisher_ok_def)
qed

lemma unknown_members_Nil [simp]: "unknown_members []"
  by (simp add: unknown_members_def)

lemma length_craft_members:
  assumes "parties C p l signer w" "fx_time e" "0 \<le> v" "v < 10"
  shows "length (render (craft_members C v p l signer e w)) \<le> 400"
  unfolding craft_members_valued
  by (rule length_craft) (use assms parties_widths parties_ct in auto)

lemma verdict_craft:
  assumes "parties C p l signer w" "fx_time e" "0 \<le> v" "v < 10"
  shows "put_verdict C (render (craft_members C v p l signer e w)) Now db = first_failing
    [(v \<noteq> 1, RecordBadVersion), (e > Now + 173100, RecordTTLTooLong),
     (p_lookupID p \<noteq> l, RecordLookupMismatch), (\<not> pow_Verify C l e w fx_PoWBits, RecordPoWInsufficient),
     (\<not> ed_verify C (p_pub p) (SigningBytes (crafted C p l signer e w)) (d_Sig (crafted C p l signer e w)), RecordSigInvalid),
     (e \<le> Now, RecordExpired), (stale Now db l e, RecordNotNewer)] RecordAccepted"
  using length_craft_members [OF assms]
  by (intro verdict_crafted [OF assms unknown_members_Nil]) simp_all

text \<open>The envelopes of the builders are of this form.\<close>

lemma pub_envelope_craft:
  assumes "pub_envelope C ctx p e = Inr env" and "publisher_ok C p" "crypto_laws C"
  obtains w where "envelopeMembers env = craft_members C 1 p (p_lookupID p) p e w" "env = transmitted (crafted C p (p_lookupID p) p e w)"
    "parties C p (p_lookupID p) p w" "pow_Verify C (p_lookupID p) e w fx_PoWBits"
proof -
  obtain w where "env = transmitted (crafted C p (p_lookupID p) p e w)" "length w = 8"
    "pow_Verify C (p_lookupID p) e w fx_PoWBits"
    using pub_envelope_crafted [OF assms(1)] by blast
  with assms(2,3) publisher_lengths [of C p] that [of w] show thesis
    by (simp add: craft_members_def transmitted_V parties_def crypto_laws_def)
qed

lemma hand_signature_Inr:
  assumes "hand_signature C signer stated p e = Inr sig"
  shows "sig = d_Sig (crafted C p stated signer e w)"
  using assms
  by (simp add: hand_signature_def signs_def record_Sign_def crafted_def Version_def byte_of_def split: sum.splits if_splits)

lemma hand_envelope_craft:
  assumes "hand_signature C signer stated p e = Inr sig"
  shows "envelopeMembers (hand_envelope v stated p e w sig) = craft_members C v p stated signer e w"
  using hand_signature_Inr [OF assms, of w]
  by (simp add: hand_envelope_def craft_members_def transmitted_def)

lemma pubSolve_Inr: "pubSolve C ctx l e = Inr w \<Longrightarrow> length w = 8 \<and> pow_Verify C l e w fx_PoWBits"
  using pow_Solve_verifies by (auto simp: pubSolve_def pub_solve_def split: sum.splits)

lemma set_members:
  "set_member (envelopeMembers env) ''pow'' (jsonString (b64_Encode b)) = envelopeMembers (env\<lparr>e_PoW := b64_Encode b\<rparr>)"
  "set_member (envelopeMembers env) ''sig'' (jsonString (b64_Encode b)) = envelopeMembers (env\<lparr>e_Sig := b64_Encode b\<rparr>)"
  "set_member (envelopeMembers env) ''v'' ''2'' = envelopeMembers (env\<lparr>e_V := 2\<rparr>)"
  "set_member (envelopeMembers env) ''lookup_id'' (jsonString s) = envelopeMembers (env\<lparr>e_LookupID := s\<rparr>)"
  "set_member (envelopeMembers env) ''nonce'' (jsonString s) = envelopeMembers (env\<lparr>e_Nonce := s\<rparr>)"
proof -
  have "Itoa 2 = ''2''" by code_simp
  then show "set_member (envelopeMembers env) ''v'' ''2'' = envelopeMembers (env\<lparr>e_V := 2\<rparr>)"
    by (simp add: envelopeMembers_def)
qed (simp_all add: envelopeMembers_def)

lemma set_crafted:
  "(transmitted (crafted C p l s e w))\<lparr>e_PoW := b64_Encode w'\<rparr> = transmitted (crafted C p l s e w')"
  "(transmitted (crafted C p l s e w))\<lparr>e_Sig := b64_Encode (d_Sig (crafted C p l s' e w))\<rparr> = transmitted (crafted C p l s' e w)"
  "envelopeMembers (transmitted (crafted C p l s e w)) = craft_members C 1 p l s e w"
  "envelopeMembers ((transmitted (crafted C p l s e w))\<lparr>e_V := 2\<rparr>) = craft_members C 2 p l s e w"
  by (simp_all add: transmitted_def crafted_def craft_members_def)

section \<open>Padding\<close>

lemma pad_member:
  "unknown_members [(pad_name, quoted (replicate k CHR ''p''), JStr (replicate k CHR ''p''))]"
  "jsonString (replicate k CHR ''p'') = quoted (replicate k CHR ''p'')"
proof -
  have p: "list_all plain_char (replicate k CHR ''p'')" "list_all plain_char pad_name"
    by (simp_all add: list_all_iff plain_char_def pad_name_def)
  moreover have "field_for envelope_fields pad_name = None" by code_simp
  ultimately show "unknown_members [(pad_name, quoted (replicate k CHR ''p''), JStr (replicate k CHR ''p''))]"
    by (simp add: unknown_members_def renders_string)
  show "jsonString (replicate k CHR ''p'') = quoted (replicate k CHR ''p'')"
    using p by (simp add: jsonString_plain)
qed

text \<open>Padding reaches any length the envelope does not exceed, and only adds an unknown member.\<close>

lemma padTo_craft:
  assumes "ms = craft_members C v p l signer e w"
  shows "padTo ms len = Inr body \<Longrightarrow> int (length body) = len \<and>
      (\<exists>extra. unknown_members extra \<and> body = render (ms @ untyped extra))"
    "int (length (render ms)) + 20 \<le> len \<Longrightarrow> \<exists>body. padTo ms len = Inr body"
proof -
  let ?pad = "\<lambda>k. render (ms @ [(pad_name, quoted (replicate k CHR ''p''))])"
  have names: "plain_names (ms @ [(pad_name, t)])" "plain_names ms" for t
    unfolding assms craft_members_valued by (simp_all add: plain_names_valued) (simp add: pad_name_def plain_char_def)
  have len: "length (?pad k) = length (render ms) + k + 10" for k
    by (simp add: length_render names) (simp add: quoted_def pad_name_def)
  have base: "length (render (ms @ [(pad_name, [CHR 0x22, CHR 0x22])])) = length (render ms) + 10"
    by (simp add: length_render names) (simp add: pad_name_def)
  have padTo: "padTo ms len = (if int (length (render ms)) + 10 > len then Inl CannotPad
      else let out = ?pad (nat (len - (int (length (render ms)) + 10))) in
        if int (length out) \<noteq> len then Inl PaddedOtherwise else Inr out)"
    by (simp add: padTo_def base pad_member(2) Let_def)
  show "\<exists>body. padTo ms len = Inr body" if "int (length (render ms)) + 20 \<le> len"
    using that by (simp add: padTo len Let_def)
  show "int (length body) = len \<and> (\<exists>extra. unknown_members extra \<and> body = render (ms @ untyped extra))"
    if "padTo ms len = Inr body"
  proof -
    let ?k = "nat (len - (int (length (render ms)) + 10))"
    have "body = ?pad ?k" "int (length body) = len" using that by (auto simp: padTo Let_def split: if_splits)
    with pad_member(1) [of ?k] show ?thesis
      by (intro conjI exI [of _ "[(pad_name, quoted (replicate ?k CHR ''p''), JStr (replicate ?k CHR ''p''))]"]) simp_all
  qed
qed

section \<open>Bodies that are no envelope\<close>

lemma verdict_unparsed: "accept_parse body = None \<Longrightarrow> length body \<le> 4096 \<Longrightarrow> put_verdict C body now db = RecordMalformed"
  by (simp add: put_verdict_def accept_Check_def)

lemma verdict_undecodable:
  "accept_parse body = Some env \<Longrightarrow> Envelope_Decode (env\<lparr>e_V := Version\<rparr>) = Inl x \<Longrightarrow> length body \<le> 4096 \<Longrightarrow>
    put_verdict C body now db = RecordMalformed"
  by (simp add: put_verdict_def accept_Check_def)

lemma verdict_too_large: "4096 < length body \<Longrightarrow> put_verdict C body now db = RecordTooLarge"
  by (simp add: put_verdict_def Check_too_large)

text \<open>An envelope whose strings need no escape is parsed back as it was, whatever it says.\<close>

definition plain_envelope :: "Envelope \<Rightarrow> bool" where
  "plain_envelope env \<longleftrightarrow> is_i64 (e_V env) \<and> is_i64 (e_ExpiresAt env) \<and>
    list_all (list_all plain_char) [e_LookupID env, e_WKPub env, e_CT env, e_Nonce env, e_PoW env, e_Sig env]"

definition typed_members :: "Envelope \<Rightarrow> (string \<times> string \<times> json) list" where
  "typed_members env =
    [(''v'', Itoa (e_V env), JNum (Itoa (e_V env))), (''lookup_id'', quoted (e_LookupID env), JStr (e_LookupID env)),
     (''wk_pub'', quoted (e_WKPub env), JStr (e_WKPub env)),
     (''expires_at'', Itoa (e_ExpiresAt env), JNum (Itoa (e_ExpiresAt env))), (''ct'', quoted (e_CT env), JStr (e_CT env)),
     (''nonce'', quoted (e_Nonce env), JStr (e_Nonce env)), (''pow'', quoted (e_PoW env), JStr (e_PoW env)),
     (''sig'', quoted (e_Sig env), JStr (e_Sig env))]"

lemma typed_members_untyped: "plain_envelope env \<Longrightarrow> envelopeMembers env = untyped (typed_members env)"
  by (simp add: plain_envelope_def envelopeMembers_def typed_members_def jsonString_plain)

lemma typed_well: "plain_envelope env \<Longrightarrow> well_rendered (typed_members env)"
  by (simp add: plain_envelope_def typed_members_def renders_int renders_string plain_char_def)

lemma typed_names: "map fst (typed_members env) = envelope_fields"
  by (simp add: typed_members_def envelope_fields_def)

lemma store_typed:
  "plain_envelope env \<Longrightarrow> store_members envelope_zero (map (\<lambda>(k, t, w). (k, w)) (typed_members env)) = Some env"
  by (simp add: plain_envelope_def typed_members_def store_member_def field_for_exact envelope_fields_def Let_def
    store_int64_def store_string_def envelope_zero_def)

lemma accept_parse_envelope:
  assumes "plain_envelope env"
  shows "accept_parse (render (envelopeMembers env)) = Some env"
proof -
  have "\<not> list_ex (member_missing (map (\<lambda>(k, t, w). (k, w)) (typed_members env))) requiredMembers"
    by (simp add: member_missing_def requiredMembers_def typed_members_def)
  moreover have "distinct envelope_fields" by (simp add: envelope_fields_def)
  moreover have "typed_members env \<noteq> []" by (simp add: typed_members_def)
  ultimately show ?thesis
    using typed_well [OF assms] store_typed [OF assms]
    by (simp add: typed_members_untyped [OF assms] accept_parse_render typed_names)
qed

lemma plain_transmitted: "is_i64 (d_ExpiresAt d) \<Longrightarrow> plain_envelope (transmitted d)"
  by (simp add: plain_envelope_def transmitted_def plain_b64_Encode is_i64_def)

lemma no_envelopes:
  "accept_parse ''this is not an envelope'' = None" "accept_parse [] = None" "accept_parse ''[1,2,3]'' = None"
  "accept_parse ''{}'' = None"
proof -
  have "json_parse ''this is not an envelope'' = None" "json_parse [] = None"
    "json_parse ''{}'' = Some (JObj [])" "json_parse ''[1,2,3]'' = Some (JArr [JNum ''1'', JNum ''2'', JNum ''3''])"
    by code_simp+
  then show "accept_parse ''this is not an envelope'' = None" "accept_parse [] = None" "accept_parse ''[1,2,3]'' = None"
    "accept_parse ''{}'' = None"
    by (auto simp: accept_parse_def unmarshal_members_def hasDuplicateMembers_def skip_ws_def requiredMembers_def
      member_missing_def)
qed

lemma remove_pow:
  assumes "plain_envelope env"
  shows "accept_parse (render (remove_member (envelopeMembers env) ''pow'')) = None"
proof -
  let ?ms = "filter (\<lambda>(k, t, v). k \<noteq> ''pow'') (typed_members env)"
  have "remove_member (envelopeMembers env) ''pow'' = untyped ?ms"
    by (simp add: typed_members_untyped [OF assms] remove_member_def) (simp add: typed_members_def)
  moreover have "well_rendered ?ms" using typed_well [OF assms] by (auto simp: well_rendered_def list_all_iff)
  moreover have "?ms \<noteq> []" "list_ex (member_missing (map (\<lambda>(k, t, v). (k, v)) ?ms)) requiredMembers"
    by (simp_all add: typed_members_def member_missing_def requiredMembers_def)
  ultimately show ?thesis by (simp add: accept_parse_render)
qed

lemma renders_null: "renders ''null'' JNull"
  by (simp add: renders_def strip_prefix_def skip_ws_def is_ws_def)

lemma null_pow:
  assumes "plain_envelope env"
  shows "accept_parse (render (set_member (envelopeMembers env) ''pow'' ''null'')) = None"
proof -
  let ?ms = "(typed_members env)[6 := (''pow'', ''null'', JNull)]"
  have "set_member (envelopeMembers env) ''pow'' ''null'' = untyped ?ms"
    by (simp add: typed_members_untyped [OF assms]) (simp add: typed_members_def)
  moreover have "well_rendered ?ms" using typed_well [OF assms] renders_null
    by (simp add: typed_members_def plain_char_def)
  moreover have "?ms \<noteq> []" "list_ex (member_missing (map (\<lambda>(k, t, v). (k, v)) ?ms)) requiredMembers"
    by (simp_all add: typed_members_def member_missing_def requiredMembers_def)
  ultimately show ?thesis by (simp add: accept_parse_render)
qed

lemma duplicate_expiry:
  assumes "plain_envelope env"
  shows "accept_parse (render (envelopeMembers env @ [(''expires_at'', Itoa e)])) = None"
proof -
  let ?ms = "typed_members env @ [(''expires_at'', Itoa e, JNum (Itoa e))]"
  have ms: "envelopeMembers env @ [(''expires_at'', Itoa e)] = untyped ?ms"
    by (simp add: typed_members_untyped [OF assms])
  have "well_rendered ?ms" "?ms \<noteq> []" using typed_well [OF assms] renders_int by (simp_all add: plain_char_def)
  note parse = accept_parse_render [OF this]
  have "\<not> distinct (map fst ?ms)" by (simp add: typed_members_def)
  then show ?thesis unfolding ms parse by (simp only: not_False_eq_True simp_thms if_True)
qed

lemma undecodable_field:
  assumes "plain_envelope env" and "fixed_field (e_LookupID env) 32 = Inl x \<or> fixed_field (e_Nonce env) 12 = Inl x"
  shows "\<exists>y. Envelope_Decode (env\<lparr>e_V := Version\<rparr>) = Inl y"
proof (cases "Envelope_Decode (env\<lparr>e_V := Version\<rparr>)")
  case (Inr d)
  from Envelope_Decode_InrD [OF this] have "fixed_field (e_LookupID env) 32 = Inr (d_LookupID d)"
    "fixed_field (e_Nonce env) 12 = Inr (d_Nonce d)"
    by (simp_all add: fixed_field_Inr decoded_widths_def)
  with assms(2) show ?thesis by simp
qed simp

text \<open>Every malformed body of the fixtures, for the envelope of any publisher.\<close>

lemma nc_alphabet_plain: "list_all plain_char nc_alphabet" "length nc_alphabet = 64"
  by (simp_all add: nc_alphabet_def plain_char_def)

lemma padded_plain: "padded (b64_Encode b) = Inr s \<Longrightarrow> list_all plain_char s \<and> length s \<le> length (b64_Encode b) + 2"
proof -
  have "list_all plain_char (replicate n CHR ''='')" for n by (simp add: list_all_iff plain_char_def)
  moreover have "(3 - length b mod 3) mod 3 \<le> 2" by simp
  ultimately show "padded (b64_Encode b) = Inr s \<Longrightarrow> list_all plain_char s \<and> length s \<le> length (b64_Encode b) + 2"
    by (auto simp: padded_def plain_b64_Encode)
qed

lemma nonCanonical_last:
  assumes "nonCanonical v = Inr s"
  shows "\<exists>c. s = butlast v @ [c] \<and> c \<in> set nc_alphabet"
proof -
  from assms obtain idx where idx: "index_byte nc_alphabet (last v) = Some idx" "idx AND 3 = 0"
    "s = butlast v @ [nc_alphabet ! (idx OR 1)]"
    by (auto simp: nonCanonical_def split: if_splits option.splits)
  have "index_byte t c = Some i \<Longrightarrow> i < length t" for t c i
    by (induction t arbitrary: i) (auto split: if_splits)
  with idx(1) have "idx < 64" by (simp add: nc_alphabet_plain flip: nc_alphabet_plain(2))
  moreover have "idx mod 4 = 0" using idx(2) take_bit_eq_mask [of 2 idx] by (simp add: take_bit_eq_mod mask_eq_exp_minus_1)
  then have "even idx" by presburger
  moreover from this have "idx OR 1 = idx + 1" using or_one_eq [of idx] by simp
  ultimately have "idx OR 1 < length nc_alphabet" unfolding nc_alphabet_plain by presburger
  with idx(3) show ?thesis by (intro exI [of _ "nc_alphabet ! (idx OR 1)"]) simp
qed

lemma list_all_butlast: "list_all P xs \<Longrightarrow> list_all P (butlast xs)"
  by (auto simp: list_all_iff dest: in_set_butlastD)

lemma nonCanonical_plain:
  assumes "nonCanonical (b64_Encode b) = Inr s"
  shows "list_all plain_char s"
proof -
  from nonCanonical_last [OF assms] obtain c where "s = butlast (b64_Encode b) @ [c]" "c \<in> set nc_alphabet" by blast
  with nc_alphabet_plain(1) list_all_butlast [OF plain_b64_Encode [of b]] show ?thesis by (simp add: list_all_iff)
qed

lemma fixed_field_bad: "b64_Decode s = None \<or> (\<exists>b. b64_Decode s = Some b \<and> length b \<noteq> n) \<Longrightarrow> \<exists>x. fixed_field s n = Inl x"
proof (cases "fixed_field s n")
  case (Inr b)
  then have "b64_Decode s = Some b" "length b = n" by (simp_all add: fixed_field_Inr)
  then show "b64_Decode s = None \<or> (\<exists>b. b64_Decode s = Some b \<and> length b \<noteq> n) \<Longrightarrow> ?thesis" by simp
qed simp

lemma plain_names_members:
  "plain_names (envelopeMembers env)" "plain_names (envelopeMembers env @ [(''expires_at'', t)])"
  "plain_names (set_member (envelopeMembers env) ''pow'' t)" "plain_names (remove_member (envelopeMembers env) ''pow'')"
  by (simp_all add: plain_names_def envelopeMembers_def remove_member_def plain_char_def)

lemma length_plain_envelope:
  assumes "plain_envelope env" and "length (Itoa (e_V env)) \<le> 1" "length (Itoa (e_ExpiresAt env)) \<le> 10"
    and "list_all (\<lambda>s. length s \<le> 90) [e_LookupID env, e_WKPub env, e_CT env, e_Nonce env, e_PoW env, e_Sig env]"
  shows "length (render (envelopeMembers env)) \<le> 1000"
    "length t \<le> 10 \<Longrightarrow> length (render (envelopeMembers env @ [(''expires_at'', t)])) \<le> 1000"
    "length t \<le> 10 \<Longrightarrow> length (render (set_member (envelopeMembers env) ''pow'' t)) \<le> 1000"
    "length (render (remove_member (envelopeMembers env) ''pow'')) \<le> 1000"
  using assms
  by (simp_all add: length_render plain_names_members)
    (simp_all add: envelopeMembers_def remove_member_def plain_envelope_def jsonString_plain quoted_def)

lemma malformed_verdicts:
  assumes "parties C p l p w" "fx_time e" "env = transmitted (crafted C p l p e w)"
    and "padded (e_LookupID env) = Inr pl" "nonCanonical (e_LookupID env) = Inr nl"
    and "sn = b64_Encode (take (NonceLen - 1) (p_nonce p))"
    and "(i, note, body) \<in> set (malformed_bodies (envelopeMembers env) pl nl sn)"
  shows "put_verdict C body Now db = RecordMalformed"
proof -
  have w: "length l = 32" "length (p_nonce p) = 12" "length (p_ct p) = 16" "length (p_pub p) = 32" "length w = 8"
    "length (d_Sig (crafted C p l p e w)) = 64"
    using assms(1) publisher_lengths [of C p] parties_widths [OF assms(1), of e]
    by (auto simp: parties_def crypto_laws_def decoded_widths_def)
  have lid: "e_LookupID env = b64_Encode l" by (simp add: assms(3) transmitted_def)
  have plain: "plain_envelope env" unfolding assms(3)
    by (rule plain_transmitted) (simp add: fx_time_i64 assms(2))
  have strings: "list_all plain_char pl" "length pl \<le> 45" "list_all plain_char nl" "length nl = 43" "list_all plain_char sn"
    "length sn = 15"
    using padded_plain [of l pl] nonCanonical_plain [of l nl] nonCanonical_refused [of l] assms(4,5) w
    by (auto simp: lid plain_b64_Encode record_lens assms(6))
  have bad: "b64_Decode pl = None" "b64_Decode nl = None"
    using padded_refused [of l] nonCanonical_refused [of l] assms(4,5) w by (auto simp: lid)
  have fields: "\<exists>x. fixed_field pl 32 = Inl x" "\<exists>x. fixed_field nl 32 = Inl x" "\<exists>x. fixed_field sn 12 = Inl x"
    by (rule fixed_field_bad, use bad w in \<open>simp add: record_lens assms(6)\<close>)+
  have sizes: "length (Itoa (e_V env)) \<le> 1" "length (Itoa (e_ExpiresAt env)) \<le> 10"
    "list_all (\<lambda>s. length s \<le> 90) [e_LookupID env, e_WKPub env, e_CT env, e_Nonce env, e_PoW env, e_Sig env]"
    using length_small [of 1] length_Itoa_time [OF assms(2)] w by (simp_all add: assms(3) transmitted_def)
  have plains: "plain_envelope (env\<lparr>e_LookupID := pl\<rparr>)" "plain_envelope (env\<lparr>e_LookupID := nl\<rparr>)"
    "plain_envelope (env\<lparr>e_Nonce := sn\<rparr>)"
    using plain strings by (simp_all add: plain_envelope_def)
  have other: "put_verdict C (render (envelopeMembers env')) Now db = RecordMalformed"
    if "plain_envelope env'" "\<exists>x. fixed_field (e_LookupID env') 32 = Inl x \<or> fixed_field (e_Nonce env') 12 = Inl x"
      "length (render (envelopeMembers env')) \<le> 1000" for env'
    using that(2) undecodable_field [OF that(1)] verdict_undecodable [OF accept_parse_envelope [OF that(1)], of _ C Now db] that(3)
    by fastforce
  have replaced: "put_verdict C (render (envelopeMembers (env\<lparr>e_LookupID := pl\<rparr>))) Now db = RecordMalformed"
    "put_verdict C (render (envelopeMembers (env\<lparr>e_LookupID := nl\<rparr>))) Now db = RecordMalformed"
    "put_verdict C (render (envelopeMembers (env\<lparr>e_Nonce := sn\<rparr>))) Now db = RecordMalformed"
    by (rule other, rule plains, use fields in fastforce, rule length_plain_envelope(1), rule plains,
      use sizes strings in \<open>simp_all\<close>)+
  have "length (Itoa (Now + 60)) \<le> 10" by (rule length_Itoa) (simp_all add: Now_def)
  note small = length_plain_envelope(2) [OF plain sizes this] length_plain_envelope(3) [OF plain sizes, of "''null''"]
    length_plain_envelope(4) [OF plain sizes]
  have none: "accept_parse b = None \<Longrightarrow> length b \<le> 1000 \<Longrightarrow> put_verdict C b Now db = RecordMalformed" for b
    by (simp add: verdict_unparsed)
  show ?thesis
    using assms(7) replaced none [OF no_envelopes(1)] none [OF no_envelopes(2)] none [OF no_envelopes(3)]
      none [OF remove_pow [OF plain] small(3)] none [OF null_pow [OF plain] small(2)] none [OF duplicate_expiry [OF plain] small(1)]
    by (auto simp: malformed_bodies_def set_members)
qed

end
