(* ===== verification/Conform_Adversarial.thy ===== *)
theory Conform_Adversarial imports Conform_Bodies begin

text \<open>
  The record of the initial state whose text a directory that re-serialises would destroy: its
  spacing, its member order and its unknown member do not keep it from being parsed as the
  envelope it states, and it passes the generator's own check.
\<close>

section \<open>Its text is parsed\<close>

definition extension_text :: string where
  "extension_text = ''{'' @ [CHR 0x0A] @ ''      \"introduced_after_this_directory_was_written\": true,'' @ [CHR 0x0A] @
    ''      \"html\": \"a <b> tag & an > angle\",'' @ [CHR 0x0A] @
    ''      \"nested\": { \"deep\": [ 1, 2, 3 ] }'' @ [CHR 0x0A] @ ''  }''"

definition extension_json :: json where
  "extension_json = JObj [(''introduced_after_this_directory_was_written'', JBool True),
    (''html'', JStr ''a <b> tag & an > angle''), (''nested'', JObj [(''deep'', JArr [JNum ''1'', JNum ''2'', JNum ''3''])])]"

lemma extension_value: "pval (Suc (Suc (Suc (Suc (Suc (Suc (Suc (Suc (Suc (Suc (Suc (Suc (Suc (n)))))))))))))) 9999 (extension_text @ r) = Some (extension_json, r)"
  by (simp add: extension_text_def extension_json_def skip_ws_def is_ws_def strip_prefix_def lex_number_def lex_int_def
    digits_def is_digit_def)

text \<open>A member with white space around its name and before its value, and a comma behind it.\<close>

lemma skip_ws_app: "list_all is_ws w \<Longrightarrow> skip_ws (w @ s) = skip_ws s"
  by (induction w) (auto simp: skip_ws_def)

lemma pval_ws: "list_all is_ws w \<Longrightarrow> pval (Suc n) d (w @ s) = pval (Suc n) d s"
  by (simp add: skip_ws_app)

lemma pmems_spaced:
  assumes "list_all is_ws a" "list_all is_ws b" "list_all is_ws c" "list_all plain_char k"
    and "pval (Suc n) d (t @ CHR '','' # r) = Some (v, CHR '','' # r)"
  shows "pmems (Suc (Suc n)) d (a @ quoted k @ b @ CHR '':'' # c @ t @ CHR '','' # r) =
    map_option (apfst (Cons (k, v))) (pmems (Suc n) d r)"
  using assms
  by (simp add: skip_ws_app quoted_def string_body_plain unquote_plain pval_ws del: pval.simps pmems.simps(2)
      add: pmems.simps(2) [of "Suc n" d "a @ s" for s] cong: option.case_cong)

lemma pmems_spaced_last:
  assumes "list_all is_ws a" "list_all is_ws c" "list_all plain_char k"
  shows "pmems (Suc (Suc n)) d (a @ quoted k @ CHR '':'' # c @ [CHR ''1'', CHR 0x0A, CHR 0x7D]) = Some ([(k, JNum ''1'')], [])"
  using assms
  by (simp add: skip_ws_app quoted_def string_body_plain unquote_plain pval_ws del: pval.simps)
    (simp add: lex_number_def lex_int_def digits_def is_digit_def skip_ws_def is_ws_def unquote_plain)

definition adversarial_members :: "Envelope \<Rightarrow> (string \<times> json) list" where
  "adversarial_members e =
    [(''sig'', JStr (e_Sig e)), (''expires_at'', JNum (Itoa (e_ExpiresAt e))), (''wk_pub'', JStr (e_WKPub e)),
     (''_extension'', extension_json), (''lookup_id'', JStr (e_LookupID e)), (''nonce'', JStr (e_Nonce e)),
     (''pow'', JStr (e_PoW e)), (''ct'', JStr (e_CT e)), (''v'', JNum ''1'')]"

definition spaced :: "string \<Rightarrow> string \<Rightarrow> string \<Rightarrow> string \<Rightarrow> string \<Rightarrow> string \<Rightarrow> string" where
  "spaced a k b c t r = a @ quoted k @ b @ CHR '':'' # c @ t @ CHR '','' # r"

definition adversarial_tail :: "Envelope \<Rightarrow> string" where
  "adversarial_tail e =
    spaced (CHR 0x0A # ''  '') ''sig'' [] ''  '' (quoted (e_Sig e))
    (spaced (CHR 0x0A # CHR 0x0A # ''  '') ''expires_at'' '' '' ''   '' (Itoa (e_ExpiresAt e))
    (spaced (CHR 0x0A # ''  '') ''wk_pub'' [CHR 0x09] '' '' (quoted (e_WKPub e))
    (spaced (CHR 0x0A # ''  '') ''_extension'' [] '' '' extension_text
    (spaced (CHR 0x0A # ''  '') ''lookup_id'' [] '' '' (quoted (e_LookupID e))
    (spaced (CHR 0x0A # ''  '') ''nonce'' [] [] (quoted (e_Nonce e))
    (spaced (CHR 0x0A # ''  '') ''pow'' ''   '' '' '' (quoted (e_PoW e))
    (spaced (CHR 0x0A # ''  '') ''ct'' [] '' '' (quoted (e_CT e))
    ((CHR 0x0A # ''  '') @ quoted ''v'' @ CHR '':'' # '' '' @ [CHR ''1'', CHR 0x0A, CHR 0x7D]))))))))"

lemma adversarial_text:
  assumes "plain_envelope e"
  shows "adversarialEnvelope e = CHR 0x7B # adversarial_tail e"
  using assms
  by (simp add: adversarialEnvelope_def adversarial_tail_def spaced_def extension_text_def quoted_def plain_envelope_def jsonString_plain)

lemma spaced_value:
  assumes "list_all is_ws a" "list_all is_ws b" "list_all is_ws c" "list_all plain_char k" and "renders t v"
    and "pmems (Suc n) d r = Some (ms, z)"
  shows "pmems (Suc (Suc n)) d (spaced a k b c t r) = Some ((k, v) # ms, z)"
proof -
  have "pval (Suc n) d (t @ CHR '','' # r) = Some (v, CHR '','' # r)"
    using assms(5) by (simp add: renders_def ends_value_def del: pval.simps)
  from pmems_spaced [OF assms(1-4) this] assms(6) show ?thesis by (simp add: spaced_def)
qed

lemma spaced_extension:
  assumes "pmems (Suc (Suc (Suc (Suc (Suc (Suc (Suc (Suc (Suc (Suc (Suc (Suc (Suc (n)))))))))))))) 9999 r = Some (ms, z)"
  shows "pmems (Suc (Suc (Suc (Suc (Suc (Suc (Suc (Suc (Suc (Suc (Suc (Suc (Suc (Suc (n))))))))))))))) 9999 (spaced (CHR 0x0A # ''  '') ''_extension'' [] '' '' extension_text r) =
    Some ((''_extension'', extension_json) # ms, z)"
  using pmems_spaced [OF _ _ _ _ extension_value [of n "CHR '','' # r"], of "CHR 0x0A # ''  ''" "[]" "'' ''" "''_extension''"]
    assms by (simp add: spaced_def is_ws_def plain_char_def del: pmems.simps pval.simps)

lemma adversarial_parse:
  assumes "plain_envelope e"
  shows "json_parse (adversarialEnvelope e) = Some (JObj (adversarial_members e))"
proof -
  have ws: "is_ws CHR 0x0A" "is_ws CHR '' ''" "is_ws CHR 0x09" by (simp_all add: is_ws_def)
  have strings: "list_all plain_char (e_Sig e)" "list_all plain_char (e_WKPub e)" "list_all plain_char (e_LookupID e)"
    "list_all plain_char (e_Nonce e)" "list_all plain_char (e_PoW e)" "list_all plain_char (e_CT e)"
    using assms by (simp_all add: plain_envelope_def)
  note str = renders_string [OF strings(1)] renders_string [OF strings(2)] renders_string [OF strings(3)]
    renders_string [OF strings(4)] renders_string [OF strings(5)] renders_string [OF strings(6)]
  let ?T = "adversarial_tail e"
  have members: "pmems (Suc (Suc (Suc (Suc (Suc (Suc (Suc (Suc (Suc (Suc (Suc (Suc (Suc (Suc (Suc (Suc (Suc (n)))))))))))))))))) 9999 ?T = Some (adversarial_members e, [])" for n
    unfolding adversarial_tail_def adversarial_members_def
    by (intro spaced_value spaced_extension str renders_int pmems_spaced_last; simp add: ws plain_char_def)
  have first: "\<exists>s. skip_ws ?T = CHR 0x22 # s"
    by (simp add: adversarial_tail_def spaced_def quoted_def skip_ws_def is_ws_def)
  have "20 \<le> length ?T" by (simp add: adversarial_tail_def spaced_def extension_text_def)
  then have "2 * length ?T + 3 = 17 + (2 * length ?T - 14)" by simp
  then obtain n where n: "2 * length ?T + 3 = Suc (Suc (Suc (Suc (Suc (Suc (Suc (Suc (Suc (Suc (Suc (Suc (Suc (Suc (Suc (Suc (Suc (n)))))))))))))))))"
    by (auto simp: numeral_eq_Suc)
  have "pval (Suc (2 * length ?T + 3)) 10000 (CHR 0x7B # ?T) = Some (JObj (adversarial_members e), [])"
    unfolding n using first members [of n] by (auto simp del: pmems.simps)
  moreover have "2 * length (CHR 0x7B # ?T) + 2 = Suc (2 * length ?T + 3)" by simp
  ultimately show ?thesis
    by (simp only: json_parse_def maxNestingDepth_def adversarial_text [OF assms]) simp
qed

lemma adversarial_accept_parse:
  assumes "plain_envelope e" and "e_V e = 1"
  shows "accept_parse (adversarialEnvelope e) = Some e"
proof -
  note parse = adversarial_parse [OF assms(1)]
  have "distinct (map fst (adversarial_members e))" by (simp add: adversarial_members_def)
  moreover have "\<not> list_ex (member_missing (adversarial_members e)) requiredMembers"
    by (simp add: member_missing_def requiredMembers_def adversarial_members_def)
  moreover have "store_members envelope_zero (adversarial_members e) = Some e"
  proof -
    have "field_for envelope_fields ''_extension'' = None" "parse_int64 ''1'' = Some 1" by code_simp+
    then show ?thesis using assms
      by (simp add: plain_envelope_def adversarial_members_def store_member_def field_for_exact envelope_fields_def Let_def
        store_int64_def store_string_def envelope_zero_def)
  qed
  ultimately show ?thesis
    using hasDuplicateMembers_object [OF parse]
    by (simp add: accept_parse_def unmarshal_members_def unmarshal_envelope_def parse)
qed

lemma adversarial_length:
  assumes "plain_envelope e"
  shows "length (adversarialEnvelope e) \<le> 450 + length (Itoa (e_ExpiresAt e)) + length (e_Sig e) + length (e_WKPub e) +
    length (e_LookupID e) + length (e_Nonce e) + length (e_PoW e) + length (e_CT e)"
  by (simp add: adversarial_text [OF assms] adversarial_tail_def spaced_def extension_text_def quoted_def)

section \<open>The generator's own check of it\<close>

lemma contains_app: "contains t pat \<Longrightarrow> contains (s @ t) pat"
  by (induction s) simp_all

lemma contains_prefix: "contains (pat @ t) pat"
proof (cases "pat @ t")
  case (Cons c s)
  have "take (length pat) (pat @ t) = pat" by simp
  then show ?thesis unfolding Cons by simp
qed simp

lemma contains_within: "contains (s @ pat @ t) pat"
  by (rule contains_app) (rule contains_prefix)

lemma contains_part: "contains s p \<Longrightarrow> contains (s @ t) p"
proof (induction s)
  case Nil
  then show ?case using contains_prefix [of "[]" t] by simp
next
  case (Cons a s)
  have "take (length p) ((a # s) @ t) = p" if p: "take (length p) (a # s) = p"
  proof -
    have "min (length (a # s)) (length p) = length p" using arg_cong [OF p, of length] by (simp only: length_take)
    then have "length p \<le> length (a # s)" by simp
    then show ?thesis using take_append [of "length p" "a # s" t] p by simp
  qed
  with Cons show ?case by auto
qed

lemma index_of_contains: "0 \<le> index_of s pat \<longleftrightarrow> contains s pat"
  by (induction s) (auto simp: Let_def)

lemma contains_inside: "contains x p \<Longrightarrow> contains (s @ x @ t) p"
  by (intro contains_app contains_part)

lemma adversarial_check:
  assumes "plain_envelope e" and "length (adversarialEnvelope e) \<le> 4096"
  shows "checkAdversarialRecord (adversarialEnvelope e) = None"
proof -
  let ?ext = "quoted ''_extension'' @ '': '' @ extension_text"
  let ?head = "CHR 0x7B # CHR 0x0A # ''  '' @ quoted ''sig''"
  obtain pre post where body: "adversarialEnvelope e = pre @ ?ext @ post"
    by (rule that [of "''{'' @ [CHR 0x0A] @ ''  \"sig\":  '' @ jsonString (e_Sig e) @ '','' @ [CHR 0x0A, CHR 0x0A] @
      ''  \"expires_at\" :   '' @ Itoa (e_ExpiresAt e) @ '','' @ [CHR 0x0A] @ ''  \"wk_pub\"'' @ [CHR 0x09] @ '': '' @
      jsonString (e_WKPub e) @ '','' @ [CHR 0x0A] @ ''  ''"])
      (simp add: adversarialEnvelope_def extension_text_def quoted_def)
  obtain rest where rest: "adversarialEnvelope e = ?head @ rest" "contains rest (quoted ''v'')"
  proof (rule that [of "('':  '' @ jsonString (e_Sig e) @ '','' @ [CHR 0x0A, CHR 0x0A] @
      ''  \"expires_at\" :   '' @ Itoa (e_ExpiresAt e) @ '','' @ [CHR 0x0A] @ ''  \"wk_pub\"'' @ [CHR 0x09] @ '': '' @
      jsonString (e_WKPub e) @ '','' @ [CHR 0x0A] @ ''  '' @ ?ext @ '','' @ [CHR 0x0A] @
      ''  \"lookup_id\": '' @ jsonString (e_LookupID e) @ ('','' @ [CHR 0x0A]) @
      ''  \"nonce\":'' @ jsonString (e_Nonce e) @ ('','' @ [CHR 0x0A]) @
      ''  \"pow\"   : '' @ jsonString (e_PoW e) @ ('','' @ [CHR 0x0A]) @
      ''  \"ct\": '' @ jsonString (e_CT e) @ ('','' @ [CHR 0x0A]) @ ''  '') @ quoted ''v'' @ '': 1'' @ [CHR 0x0A, CHR 0x7D]"])
  qed (simp add: adversarialEnvelope_def extension_text_def quoted_def, rule contains_within)
  have ext: "contains ?ext [CHR 0x0A]" "contains ?ext ''  ''" "contains ?ext ''<''" "contains ?ext ''>''" "contains ?ext ''&''"
    "contains ?ext (quoted ''_extension'')" "contains ?ext (quoted ''nested'')"
    by code_simp+
  have "0 \<le> index_of rest (quoted ''v'')" using rest(2) by (simp add: index_of_contains)
  then have "index_of (adversarialEnvelope e) (quoted ''sig'') < index_of (adversarialEnvelope e) (quoted ''v'')"
    unfolding rest(1) by (simp add: quoted_def Let_def)
  moreover have "contains (adversarialEnvelope e) p" if "contains ?ext p" for p
    unfolding body by (rule contains_inside [OF that])
  note this [OF ext(1)] this [OF ext(2)] this [OF ext(3)] this [OF ext(4)] this [OF ext(5)] this [OF ext(6)] this [OF ext(7)]
  ultimately show ?thesis using assms(2)
    by (simp add: checkAdversarialRecord_def adversarial_checks_def quoted_def fx_consts)
qed

end
