(* ===== verification/Conform_State.thy ===== *)
theory Conform_State imports Conform_Adversarial begin

text \<open>
  The state an instance of the harness is in once the initial state is loaded into it: its table
  shows exactly the records of the file, and its signal store holds the two channels posted.
\<close>

section \<open>The records\<close>

text \<open>What a table shows of an identifier at \<open>now\<close>.\<close>

definition shown :: "table \<Rightarrow> bytes \<Rightarrow> (int \<times> string) option" where
  "shown db i = map_option (\<lambda>r. (r_expires r, r_envelope r)) (live_row Now db i)"

definition record_view :: "storedRecord \<Rightarrow> bytes \<times> int \<times> string" where
  "record_view r = (fr_lookup r, fr_expiresAt r, fr_body r)"

definition loadable :: "crypto \<Rightarrow> storedRecord \<Rightarrow> bool" where
  "loadable C r \<longleftrightarrow> Now < fr_expiresAt r \<and>
    (\<exists>d. accept_Check C (fr_body r) Now fx_Limits False = (RecordAccepted, Some d) \<and>
      d_LookupID d = fr_lookup r \<and> d_ExpiresAt d = fr_expiresAt r)"

lemma loadable_put:
  assumes "loadable C r" and "shown db (fr_lookup r) = None"
  shows "put_verdict C (fr_body r) Now db = RecordAccepted"
    "shown (put_stores C (fr_body r) Now db) = (shown db)(fr_lookup r \<mapsto> (fr_expiresAt r, fr_body r))"
    "table_ok db \<Longrightarrow> table_ok (put_stores C (fr_body r) Now db)"
proof -
  obtain d where d: "accept_Check C (fr_body r) Now fx_Limits False = (RecordAccepted, Some d)"
    "d_LookupID d = fr_lookup r" "d_ExpiresAt d = fr_expiresAt r" "Now < fr_expiresAt r"
    using assms(1) by (auto simp: loadable_def)
  have fields: "sr_LookupID (stored_record d (fr_body r)) = fr_lookup r"
    "sr_ExpiresAt (stored_record d (fr_body r)) = fr_expiresAt r" "sr_Envelope (stored_record d (fr_body r)) = fr_body r"
    using d by (simp_all add: stored_record_def)
  have "live_row Now db (fr_lookup r) = None" using assms(2) by (simp add: shown_def)
  then have reason: "put_reason (stored_record d (fr_body r)) Now db = RecordAccepted"
    using accepted_storable [OF d(1)] by (simp add: put_reason_live fields)
  with d show "put_verdict C (fr_body r) Now db = RecordAccepted" by (simp add: put_verdict_def)
  have stores: "put_stores C (fr_body r) Now db = put_table (stored_record d (fr_body r)) Now db"
    using d by (simp add: put_stores_def)
  show "shown (put_stores C (fr_body r) Now db) = (shown db)(fr_lookup r \<mapsto> (fr_expiresAt r, fr_body r))"
    using reason d(4)
    by (auto simp: fun_eq_iff shown_def stores put_live_row fields row_of_record_def)
  show "table_ok db \<Longrightarrow> table_ok (put_stores C (fr_body r) Now db)"
    by (simp add: stores put_table_ok)
qed

lemma load_record_entry:
  "load_record (initial_record_entry r) = (Now, (putRecord [] vendorType)\<lparr>wq_Body := text_body (fr_body r)\<rparr>, 204)"
  by (simp add: load_record_def initial_record_entry_def)

lemma live_row_lookup: "live_row now db i = Some r \<Longrightarrow> r_lookup r = i"
  using row_of_lookup [of db i] by (auto simp: live_row_def split: option.splits if_splits)

lemma load_records:
  assumes "harness_server s" "roomy n cap (sv_limiter s)" "int (n + length recs) \<le> cap" "cap \<le> 600" "table_ok (sv_store s)"
    and "list_all (loadable C) recs" "distinct (map fr_lookup recs)" "\<forall>r \<in> set recs. shown (sv_store s) (fr_lookup r) = None"
  shows "\<exists>l db. exchanges C (map load_record (map initial_record_entry recs)) s = Some (s\<lparr>sv_limiter := l, sv_store := db\<rparr>) \<and>
    roomy (n + length recs) cap l \<and> table_ok db \<and> shown db = shown (sv_store s) ++ map_of (map record_view recs)"
  using assms
proof (induction recs arbitrary: s n)
  case Nil
  then show ?case by (intro exI [of _ "sv_limiter s"] exI [of _ "sv_store s"]) simp
next
  case (Cons r recs)
  let ?q = "(putRecord [] vendorType)\<lparr>wq_Body := text_body (fr_body r)\<rparr>"
  have "put_like ?q (fr_body r)" by (simp add: put_like_def putRecord_def)
  from exchange_put [OF Cons.prems(1,2) _ Cons.prems(4) this, of C Now] Cons.prems(3)
  obtain l where l: "exchange C Now ?q s = Some (bare_answer (RecordReason_HTTPStatus (put_verdict C (fr_body r) Now (sv_store s))),
      s\<lparr>sv_limiter := l, sv_store := put_stores C (fr_body r) Now (sv_store s)\<rparr>)" "roomy (Suc n) cap l"
    by auto
  let ?db = "put_stores C (fr_body r) Now (sv_store s)"
  let ?s = "s\<lparr>sv_limiter := l, sv_store := ?db\<rparr>"
  have ready: "loadable C r" "shown (sv_store s) (fr_lookup r) = None" using Cons.prems by simp_all
  note put = loadable_put [OF ready]
  have "\<forall>x \<in> set recs. shown ?db (fr_lookup x) = None"
    using Cons.prems(7,8) by (auto simp: put(2)) (metis imageI)
  moreover have "harness_server ?s" using Cons.prems(1) by (simp add: harness_server_def)
  ultimately obtain l' db where rest: "exchanges C (map load_record (map initial_record_entry recs)) ?s =
      Some (?s\<lparr>sv_limiter := l', sv_store := db\<rparr>)" "roomy (Suc n + length recs) cap l'" "table_ok db"
    "shown db = shown ?db ++ map_of (map record_view recs)"
    using Cons.IH [of ?s "Suc n"] Cons.prems l(2) put(3) by auto
  have "fr_lookup r \<notin> dom (map_of (map record_view recs))"
    using Cons.prems(7) by (auto simp: dom_map_of_conv_image_fst record_view_def image_image comp_def)
  then have shown: "shown db = shown (sv_store s) ++ map_of (map record_view (r # recs))"
    unfolding rest(4) put(2) by (simp add: record_view_def map_add_upd_left)
  have "rs_status (bare_answer (RecordReason_HTTPStatus RecordAccepted)) = 204"
    by (simp add: bare_answer_def with_headers_def status_only_def status_defs)
  then have "exchanges C (map load_record (map initial_record_entry (r # recs))) s = Some (s\<lparr>sv_limiter := l', sv_store := db\<rparr>)"
    using l(1) put(1) rest(1) by (simp add: load_record_entry)
  moreover have "roomy (n + length (r # recs)) cap l'" using rest(2) by simp
  ultimately show ?case using shown rest(3) by blast
qed

text \<open>A table that shows the records, as the lookups see it, and the recency rule on it.\<close>

lemma sorted_views_eq:
  assumes "distinct (map fst xs)" "sorted (map fst xs)" "distinct (map fst ys)" "sorted (map fst ys)" "set xs = set ys"
  shows "xs = (ys :: (bytes \<times> 'b) list)"
  using sort_key_same_set [OF assms(1,3,5)] assms(2,4) by (simp add: sort_key_id_if_sorted)

lemma shown_shows_records:
  assumes "table_ok db" and "shown db = map_of (map record_view recs)" and "distinct (map fr_lookup recs)"
  shows "shows_records Now db recs"
proof -
  let ?view = "\<lambda>r. (r_lookup r, r_expires r, r_envelope r)"
  have fsts: "map fst (map ?view rs) = map r_lookup rs" "map fst (map record_view fs) = map fr_lookup fs" for rs fs
    by (simp_all add: record_view_def comp_def)
  have sorted: "sorted (map r_lookup (live_rows Now db))" "sorted (map fr_lookup (sortStored recs))"
    by (simp_all add: live_rows_def sortStored_def)
  have distinct: "distinct (map r_lookup (live_rows Now db))" "distinct (map fr_lookup (sortStored recs))"
    using assms(1,3) by (auto simp: live_rows_def sortStored_def table_ok_def distinct_map inj_on_def)
  have "set (map ?view (live_rows Now db)) = set (map record_view (sortStored recs))"
  proof -
    have "(i, e, b) \<in> set (map ?view (live_rows Now db)) \<longleftrightarrow> shown db i = Some (e, b)" for i e b
    proof
      assume "(i, e, b) \<in> set (map ?view (live_rows Now db))"
      then obtain r where r: "r \<in> set (live_rows Now db)" "i = r_lookup r" "e = r_expires r" "b = r_envelope r" by auto
      from r(1) have "live_row Now db (r_lookup r) = Some r" by (simp only: live_rows_set [OF assms(1)])
      with r show "shown db i = Some (e, b)" by (simp add: shown_def)
    next
      assume "shown db i = Some (e, b)"
      then obtain r where r: "live_row Now db i = Some r" "e = r_expires r" "b = r_envelope r" by (auto simp: shown_def)
      moreover from r(1) have "r_lookup r = i" by (rule live_row_lookup)
      moreover from r(1) have "r \<in> set (live_rows Now db)"
        by (simp only: live_rows_set [OF assms(1)] \<open>r_lookup r = i\<close>)
      ultimately show "(i, e, b) \<in> set (map ?view (live_rows Now db))" by force
    qed
    moreover have "(i, e, b) \<in> set (map record_view (sortStored recs)) \<longleftrightarrow> map_of (map record_view recs) i = Some (e, b)" for i e b
      using assms(3) map_of_eq_Some_iff [of "map record_view recs" i "(e, b)"] unfolding fsts
      by (simp add: sortStored_def)
    ultimately have "v \<in> set (map ?view (live_rows Now db)) \<longleftrightarrow> v \<in> set (map record_view (sortStored recs))" for v
      using assms(2) by (cases v) (simp only:)
    then show ?thesis by (rule set_eqI)
  qed
  then have "map ?view (live_rows Now db) = map record_view (sortStored recs)"
    using sorted distinct by (intro sorted_views_eq) (simp_all only: fsts)
  then show ?thesis using assms(1) by (simp add: shows_records_def record_view_def)
qed

lemma stale_shown: "stale Now db l e \<longleftrightarrow> (\<exists>x b. shown db l = Some (x, b) \<and> e \<le> x)"
  by (auto simp: stale_def shown_def)

section \<open>The records the generator makes\<close>

lemma loadable_envelope:
  assumes "pub_envelope C ctx p RecordExpiresAt = Inr env" "publisher_ok C p" "crypto_laws C"
    and "fr_publisher r = p" "fr_expiresAt r = RecordExpiresAt" "length (fr_body r) \<le> 4096"
    and "accept_parse (fr_body r) = Some env"
  shows "loadable C r"
proof -
  obtain w where w: "env = transmitted (crafted C p (p_lookupID p) p RecordExpiresAt w)"
    "parties C p (p_lookupID p) p w" "pow_Verify C (p_lookupID p) RecordExpiresAt w fx_PoWBits"
    using pub_envelope_craft [OF assms(1-3)] by metis
  let ?d = "crafted C p (p_lookupID p) p RecordExpiresAt w"
  have "accept_parse (fr_body r) = Some ((transmitted ?d)\<lparr>e_V := 1\<rparr>)"
    using assms(7) w(1) by (simp add: transmitted_V)
  from Check_decodable [OF this parties_widths [OF w(2)]] assms(6) w(3) assms(2,3)
  have "accept_Check C (fr_body r) Now fx_Limits False = (RecordAccepted, Some ?d)"
    by (simp add: Let_def crafted_signed crypto_laws_def fx_consts) (auto simp: publisher_ok_def)
  with assms(4,5) show ?thesis by (simp add: loadable_def fr_lookup_def fx_consts)
qed

lemma pub_envelope_bodies:
  assumes "pub_envelope C ctx p RecordExpiresAt = Inr env" "publisher_ok C p" "crypto_laws C"
  shows "plain_envelope env" "e_V env = 1" "length (render (envelopeMembers env)) \<le> 1000" "length (adversarialEnvelope env) \<le> 4096"
proof -
  obtain w where w: "env = transmitted (crafted C p (p_lookupID p) p RecordExpiresAt w)"
    "parties C p (p_lookupID p) p w"
    using pub_envelope_craft [OF assms] by metis
  show plain: "plain_envelope env" unfolding w(1)
    by (rule plain_transmitted) (simp add: fx_time_i64)
  show "e_V env = 1" by (simp add: w(1) transmitted_def)
  have sizes: "length (Itoa (e_V env)) \<le> 1" "length (Itoa (e_ExpiresAt env)) \<le> 10"
    "list_all (\<lambda>s. length s \<le> 90) [e_LookupID env, e_WKPub env, e_CT env, e_Nonce env, e_PoW env, e_Sig env]"
    using length_small [of 1] length_Itoa_time [of RecordExpiresAt] parties_widths [OF w(2), of RecordExpiresAt] parties_ct [OF w(2)]
    by (simp_all add: w(1) transmitted_def decoded_widths_def)
  show "length (render (envelopeMembers env)) \<le> 1000" by (rule length_plain_envelope(1) [OF plain sizes])
  show "length (adversarialEnvelope env) \<le> 4096" using adversarial_length [OF plain] sizes by simp
qed

lemma loadable_initial:
  assumes "pub_envelope C ctx p RecordExpiresAt = Inr env" "publisher_ok C p" "crypto_laws C"
  shows "loadable C (initial_record_of i p env)"
  using pub_envelope_bodies [OF assms] accept_parse_envelope adversarial_accept_parse
  by (intro loadable_envelope [OF assms]) (simp_all add: initial_record_of_def)

lemma initial_record_of_simps [simp]:
  "fr_lookup (initial_record_of i p env) = p_lookupID p" "fr_expiresAt (initial_record_of i p env) = RecordExpiresAt"
  by (simp_all add: initial_record_of_def fr_lookup_def)

lemma initial_records_Inr:
  assumes "initial_records C ctx i ps g = Inr g'" "\<forall>p \<in> set ps. publisher_ok C p" "crypto_laws C"
  shows "\<exists>recs. g' = g\<lparr>g_initial := g_initial g @ recs, g_recency := g_recency g', g_recencyExpires := g_recencyExpires g'\<rparr> \<and>
    map fr_lookup recs = map p_lookupID ps \<and> list_all (loadable C) recs \<and>
    list_all (\<lambda>r. fr_expiresAt r = RecordExpiresAt) recs \<and>
    (if i \<le> 2 \<and> 2 < i + length ps then g_recency g' = Some (ps ! (2 - i)) \<and> g_recencyExpires g' = RecordExpiresAt
     else g_recency g' = g_recency g \<and> g_recencyExpires g' = g_recencyExpires g)"
  using assms(1,2)
proof (induction ps arbitrary: i g)
  case Nil
  then show ?case by (intro exI [of _ "[]"]) auto
next
  case (Cons p ps)
  then obtain env where env: "pub_envelope C ctx p RecordExpiresAt = Inr env" by (auto simp: andThen_Inr)
  let ?r = "initial_record_of i p env"
  let ?g = "if i = 2 then g\<lparr>g_recency := Some p, g_recencyExpires := RecordExpiresAt\<rparr> else g"
  let ?h = "?g\<lparr>g_initial := g_initial ?g @ [?r]\<rparr>"
  have "initial_records C ctx (i + 1) ps ?h = Inr g'" using Cons.prems(1) env by (simp add: Let_def)
  from Cons.IH [OF this] Cons.prems(2) obtain recs where
    recs: "g' = ?h\<lparr>g_initial := g_initial ?h @ recs, g_recency := g_recency g', g_recencyExpires := g_recencyExpires g'\<rparr>"
    "map fr_lookup recs = map p_lookupID ps" "list_all (loadable C) recs" "list_all (\<lambda>r. fr_expiresAt r = RecordExpiresAt) recs"
    and recency: "if i + 1 \<le> 2 \<and> 2 < i + 1 + length ps then g_recency g' = Some (ps ! (2 - (i + 1))) \<and> g_recencyExpires g' = RecordExpiresAt
     else g_recency g' = g_recency ?h \<and> g_recencyExpires g' = g_recencyExpires ?h" by auto
  have "loadable C ?r" using loadable_initial [OF env] Cons.prems(2) assms(3) by simp
  moreover have "g' = g\<lparr>g_initial := g_initial g @ ?r # recs, g_recency := g_recency g', g_recencyExpires := g_recencyExpires g'\<rparr>"
    using recs(1) by (cases "i = 2") simp_all
  moreover have "if i \<le> 2 \<and> 2 < i + length (p # ps) then g_recency g' = Some ((p # ps) ! (2 - i)) \<and> g_recencyExpires g' = RecordExpiresAt
     else g_recency g' = g_recency g \<and> g_recencyExpires g' = g_recencyExpires g"
    using recency by (cases "i = 2"; cases "i < 2") (auto simp: nth_Cons' split: if_splits)
  ultimately show ?case using recs(2-4) by (intro exI [of _ "?r # recs"]) simp
qed

section \<open>What the fixtures rely on\<close>

text \<open>
  The candidates below \<open>N\<close> have identifiers of their own, no key verifies a signature of
  another's, and the four channels of the fixtures have different identifiers.
\<close>

definition ident :: "crypto \<Rightarrow> nat \<Rightarrow> bytes" where
  "ident C i = p_lookupID (newPublisher C i)"

definition channel_key :: "crypto \<Rightarrow> nat \<Rightarrow> bytes" where
  "channel_key C n = sha256 C (bytes_of_string channelDomain @ be_bytes 4 n)"

definition keys_apart :: "crypto \<Rightarrow> nat \<Rightarrow> bool" where
  "keys_apart C N \<longleftrightarrow>
    (\<forall>i < N. \<forall>j < N. i \<noteq> j \<longrightarrow>
      (\<forall>m. \<not> ed_verify C (p_pub (newPublisher C i)) m (ed_sign C (p_priv (newPublisher C j)) m)))"

definition apart :: "crypto \<Rightarrow> nat \<Rightarrow> bool" where
  "apart C N \<longleftrightarrow> crypto_laws C \<and> N < 2 ^ 32 \<and> inj_on (ident C) {..<N} \<and> keys_apart C N \<and>
    distinct (map (channel_key C) [1, 2, 3, 4])"

text \<open>The records of the initial state, and the identifiers below \<open>j\<close> they have.\<close>

definition initial_ok :: "crypto \<Rightarrow> storedRecord list \<Rightarrow> bool" where
  "initial_ok C recs \<longleftrightarrow> length recs = 40 \<and> sortStored recs = recs \<and> distinct (map fr_lookup recs) \<and>
    list_all (\<lambda>r. loadable C r \<and> fr_expiresAt r = RecordExpiresAt \<and> high_bit (fr_lookup r) \<and> length (fr_lookup r) = 32) recs"

definition channels_of :: "crypto \<Rightarrow> initial_channel list" where
  "channels_of C = initial_channels (generator_start\<lparr>g_heldChannel := channelID C 1, g_expiredChannel := channelID C 2,
    g_heldBlob := heldBlob\<rparr>)"

definition loaded_state :: "crypto \<Rightarrow> storedRecord list \<Rightarrow> initial_state" where
  "loaded_state C recs = \<lparr>is_Note = initialStateNotes, is_Records = map initial_record_entry recs,
    is_SignalChannels = channels_of C\<rparr>"

definition suits :: "crypto \<Rightarrow> storedRecord list \<Rightarrow> fixture \<Rightarrow> bool" where
  "suits C recs f \<longleftrightarrow> passes_in C fx_instances (loaded_state C recs) invariant_notes f"

text \<open>The generator between two groups of fixtures, with \<open>n\<close> candidates it may still take.\<close>

definition ready :: "crypto \<Rightarrow> nat \<Rightarrow> storedRecord list \<Rightarrow> nat \<Rightarrow> generator \<Rightarrow> bool" where
  "ready C N recs n g \<longleftrightarrow> apart C N \<and> initial_ok C recs \<and> g_initial g = recs \<and> g_channels g = channels_of C \<and>
    g_next g \<le> N \<and> n \<le> length (high_in C (g_next g) N) \<and> fr_lookup ` set recs \<subseteq> ident C ` {..<g_next g} \<and>
    (\<exists>k < g_next g. g_recency g = Some (newPublisher C k) \<and> ident C k \<in> fr_lookup ` set recs) \<and>
    g_recencyExpires g = RecordExpiresAt \<and>
    g_heldChannel g = channelID C 1 \<and> g_expiredChannel g = channelID C 2 \<and> g_freeChannel g = channelID C 3 \<and>
    g_sizeChannel g = channelID C 4 \<and> g_heldBlob g = heldBlob \<and> list_all (suits C recs) (g_fixtures g)"

lemma ready_add: "ready C N recs n g \<Longrightarrow> suits C recs (fixture_of c) \<Longrightarrow> ready C N recs n (add c g)"
  by (auto simp: ready_def add_def)

lemma ready_add_all: "ready C N recs n g \<Longrightarrow> \<forall>c \<in> set cs. suits C recs (fixture_of c) \<Longrightarrow> ready C N recs n (add_all cs g)"
  by (induction cs g rule: add_all.induct) (simp_all add: ready_add)

lemma ident_length: "crypto_laws C \<Longrightarrow> length (ident C i) = 32"
  by (simp add: ident_def newPublisher_def Let_def crypto_laws_def sha256_ok_def)

lemma apart_publisher: "apart C N \<Longrightarrow> publisher_ok C (newPublisher C i)"
  by (simp add: apart_def crypto_laws_def newPublisher_ok)

lemma high_in_set: "i \<in> set (high_in C a b) \<longleftrightarrow> a \<le> i \<and> i < b \<and> high_bit (ident C i)"
  by (auto simp: high_in_def ident_def)

lemma buildInitialState_ready:
  assumes "buildInitialState C ctx generator_start = Inr g" "apart C N" "40 + n \<le> length (high_in C 0 N)"
  shows "ready C N (g_initial g) n g"
proof -
  have count: "nat InitialRecordCount = 40" by (simp add: InitialRecordCount_def KMin_def)
  have "N < 2 ^ 32" "40 \<le> length (high_in C 0 N)" using assms(2,3) by (simp_all add: apart_def)
  from highPublishers_returns [OF this(1) _ this(2)] obtain j where
    j: "j \<le> N" "highPublishers C 0 40 = Some (map (newPublisher C) (high_in C 0 j), j)"
      "length (high_in C 0 j) = 40" "length (high_in C j N) = length (high_in C 0 N) - 40" by auto
  let ?is = "high_in C 0 j"
  let ?g0 = "generator_start\<lparr>g_next := j\<rparr>"
  from assms(1) j(2) obtain g1 where g1: "initial_records C ctx 0 (map (newPublisher C) ?is) ?g0 = Inr g1"
    and g: "g = (let g2 = g1\<lparr>g_initial := sortStored (g_initial g1), g_heldBlob := heldBlob,
            g_heldChannel := channelID C 1, g_expiredChannel := channelID C 2,
            g_freeChannel := channelID C 3, g_sizeChannel := channelID C 4\<rparr> in g2\<lparr>g_channels := initial_channels g2\<rparr>)"
    by (auto simp: buildInitialState_def andThen_Inr count Let_def)
  have laws: "crypto_laws C" using assms(2) by (simp add: apart_def)
  have pubs: "\<forall>p \<in> set (map (newPublisher C) ?is). publisher_ok C p" using apart_publisher [OF assms(2)] by auto
  obtain recs where recs: "g1 = ?g0\<lparr>g_initial := recs, g_recency := g_recency g1, g_recencyExpires := g_recencyExpires g1\<rparr>"
    "map fr_lookup recs = map (ident C) ?is" "list_all (loadable C) recs" "list_all (\<lambda>r. fr_expiresAt r = RecordExpiresAt) recs"
    "g_recency g1 = Some (map (newPublisher C) ?is ! 2)" "g_recencyExpires g1 = RecordExpiresAt"
    using initial_records_Inr [OF g1 pubs laws] j(3)
    by (auto simp: ident_def [abs_def] comp_def generator_start_def)
  have fields: "g_initial g = sortStored recs" "g_next g = j" "g_recency g = Some (newPublisher C (?is ! 2))"
    "g_recencyExpires g = RecordExpiresAt" "g_channels g = channels_of C" "g_fixtures g = []"
    "g_heldChannel g = channelID C 1" "g_expiredChannel g = channelID C 2" "g_freeChannel g = channelID C 3"
    "g_sizeChannel g = channelID C 4" "g_heldBlob g = heldBlob"
    unfolding g using arg_cong [OF recs(1), of g_initial] arg_cong [OF recs(1), of g_next] arg_cong [OF recs(1), of g_fixtures] recs(5,6) j(3)
    by (simp_all add: Let_def channels_of_def initial_channels_def generator_start_def)
  have lookups: "set (map fr_lookup recs) = ident C ` set ?is" by (simp add: recs(2))
  have "inj_on (ident C) (set ?is)"
    using assms(2) j(1) by (auto simp: apart_def high_in_set intro: inj_on_subset)
  then have "distinct (map fr_lookup recs)" by (simp add: recs(2) distinct_map) (simp add: high_in_def)
  moreover have "length recs = 40" using arg_cong [OF recs(2), of length] j(3) by simp
  moreover have "high_bit (fr_lookup r) \<and> length (fr_lookup r) = 32" if "r \<in> set recs" for r
  proof -
    have "fr_lookup r \<in> ident C ` set ?is" using that lookups by force
    then show ?thesis using ident_length [OF laws] by (auto simp: high_in_set)
  qed
  ultimately have ok: "initial_ok C (sortStored recs)"
    using recs(3,4) by (simp add: initial_ok_def sortStored_def list_all_iff distinct_map sort_key_id_if_sorted)
  have subset: "fr_lookup ` set (sortStored recs) \<subseteq> ident C ` {..<j}"
    using lookups by (auto simp: sortStored_def high_in_set)
  have k: "?is ! 2 \<in> set ?is" using j(3) by simp
  then have "?is ! 2 < j" by (simp add: high_in_set)
  moreover have "ident C (?is ! 2) \<in> fr_lookup ` set (sortStored recs)"
    using k lookups by (simp add: sortStored_def)
  ultimately show ?thesis
    using assms(2,3) ok subset j(1,4) by (auto simp: ready_def fields)
qed

text \<open>Candidates drawn later are new to the table.\<close>

lemma take_publishers_ready:
  assumes "ready C N recs (n + k) g" "take_publishers C k g = Inr (ps, g')"
  obtains js where "ps = map (newPublisher C) js" "length js = k" "distinct js"
    "list_all (\<lambda>i. i < N \<and> ident C i \<notin> fr_lookup ` set recs) js" "ready C N recs n g'" "g_recency g' = g_recency g"
proof -
  have r: "apart C N" "N < 2 ^ 32" "g_next g \<le> N" "k \<le> length (high_in C (g_next g) N)"
    using assms(1) by (auto simp: ready_def apart_def)
  from highPublishers_returns [OF r(2-4)] assms(2) obtain j where
    j: "g_next g \<le> j" "j \<le> N" "ps = map (newPublisher C) (high_in C (g_next g) j)" "g' = g\<lparr>g_next := j\<rparr>"
      "length (high_in C (g_next g) j) = k" "length (high_in C j N) = length (high_in C (g_next g) N) - k"
    by (auto simp: take_publishers_def andThen_Inr)
  have inj: "inj_on (ident C) {..<N}" and sub: "fr_lookup ` set recs \<subseteq> ident C ` {..<g_next g}"
    using assms(1) by (simp_all add: ready_def apart_def)
  have "i < N \<and> ident C i \<notin> fr_lookup ` set recs" if "i \<in> set (high_in C (g_next g) j)" for i
  proof -
    from that have i: "g_next g \<le> i" "i < N" using j(2) by (simp_all add: high_in_set)
    moreover have "ident C i \<noteq> ident C m" if "m < g_next g" for m
      using inj_onD [OF inj, of i m] i that by auto
    ultimately show ?thesis using sub by auto
  qed
  then have new: "list_all (\<lambda>i. i < N \<and> ident C i \<notin> fr_lookup ` set recs) (high_in C (g_next g) j)"
    by (simp add: list_all_iff)
  have distinct: "distinct (high_in C (g_next g) j)" by (simp add: high_in_def)
  have "\<exists>m < j. g_recency g = Some (newPublisher C m) \<and> ident C m \<in> fr_lookup ` set recs"
    "fr_lookup ` set recs \<subseteq> ident C ` {..<j}"
    using assms(1) j(1) by (auto simp: ready_def intro: less_le_trans)
  moreover have "n + k \<le> length (high_in C (g_next g) N)" using assms(1) by (simp add: ready_def)
  then have "n \<le> length (high_in C j N)" using j(6) by linarith
  ultimately have "ready C N recs n g'" using assms(1) j(2,4) by (simp add: ready_def)
  moreover have "g_recency g' = g_recency g" using j(4) by simp
  ultimately show thesis using that [of "high_in C (g_next g) j"] j(3,5) new distinct by simp
qed

end
