(* ===== verification/Conform_Instances.thy ===== *)
theory Conform_Instances imports Conform_State begin

text \<open>
  The five instances of the harness, each built and loaded, and what each does with a request of
  a fixture.
\<close>

section \<open>The signal channels\<close>

definition fx_signal_New :: sstore where
  "fx_signal_New = signal_New \<lparr>so_TTL = seconds SignalTTL, so_PollWindow = seconds SignalPollWindowMaximum,
    so_MaxBlobBytes = MaxBlobBytes, so_MaxWaiters = 0, so_MaxWaitersPerChannel = 0\<rparr>"

lemma fx_signal_New_simps [simp]:
  "s_ttl fx_signal_New = seconds 300" "s_maxBlob fx_signal_New = 65536" "s_maxWaiters fx_signal_New = 10000"
  "s_maxPerChan fx_signal_New = 8" "s_channels fx_signal_New = []" "s_waiting fx_signal_New = 0"
  "s_sweepAt fx_signal_New = 1024" "\<not> s_closed fx_signal_New" "s_chans fx_signal_New = []" "s_waits fx_signal_New = []"
  by (simp_all add: fx_signal_New_def signal_New_def clampDuration_def SignalTTL_def signal_MaxTTL_def
    MaxBlobBytes_def DefaultMaxWaiters_def DefaultMaxWaitersPerChannel_def minSweepChannels_def seconds_def)

definition old_blob :: bytes where
  "old_blob = bytes_of_string ''a blob that has outlived its TTL''"

text \<open>The store once the two channels are posted: the first at \<open>Now\<close>, the second long before.\<close>

definition loaded_signal :: "crypto \<Rightarrow> sstore" where
  "loaded_signal C = fx_signal_New\<lparr>
    s_channels := [(channel_key C 1, 0), (channel_key C 2, 1)],
    s_chans := [\<lparr>ch_blob = Some heldBlob, ch_expiresAt = seconds (Now + 300), ch_waiters = []\<rparr>,
      \<lparr>ch_blob = Some old_blob, ch_expiresAt = seconds (Now - 100), ch_waiters = []\<rparr>]\<rparr>"

lemma seconds_add: "seconds a + seconds b = seconds (a + b)"
  by (simp add: seconds_def)

lemma seconds_less [simp]: "seconds a < seconds b \<longleftrightarrow> a < b"
  by (simp add: seconds_def)

lemma key_length: "apart C N \<Longrightarrow> length (channel_key C n) = 32"
  by (simp add: apart_def crypto_laws_def sha256_ok_def channel_key_def)

lemma channel_decodes: "apart C N \<Longrightarrow> decodeChannelID (channelID C n) = Some (channel_key C n)"
  using decodeChannelID_Encode [OF key_length] by (simp add: channelID_def channel_key_def)

lemma keys_distinct:
  assumes "apart C N"
  shows "channel_key C 1 \<noteq> channel_key C 2" "channel_key C 1 \<noteq> channel_key C 3" "channel_key C 1 \<noteq> channel_key C 4"
    "channel_key C 2 \<noteq> channel_key C 3" "channel_key C 2 \<noteq> channel_key C 4" "channel_key C 3 \<noteq> channel_key C 4"
  using assms by (auto simp: apart_def)

lemma post_first:
  assumes "apart C N"
  shows "signal_Post 0 (channelID C 1) heldBlob (seconds Now) fx_signal_New =
    (SignalStored, fx_signal_New\<lparr>s_channels := [(channel_key C 1, 0)],
      s_chans := [\<lparr>ch_blob = Some heldBlob, ch_expiresAt = seconds (Now + 300), ch_waiters = []\<rparr>]\<rparr>)"
  using channel_decodes [OF assms, of 1]
  by (simp add: signal_Post_def new_chan_def post_into_def takeWaiterLocked_def set_chan_def chan_at_def
    heldBlob_def bytes_of_string_def seconds_add)

lemma post_second:
  assumes "apart C N"
  shows "signal_Post 0 (channelID C 2) old_blob (seconds (Now - SignalTTL - 100))
    (fx_signal_New\<lparr>s_channels := [(channel_key C 1, 0)],
      s_chans := [\<lparr>ch_blob = Some heldBlob, ch_expiresAt = seconds (Now + 300), ch_waiters = []\<rparr>]\<rparr>) =
    (SignalStored, loaded_signal C)"
  using channel_decodes [OF assms, of 2] keys_distinct [OF assms]
  by (simp add: signal_Post_def new_chan_def post_into_def takeWaiterLocked_def set_chan_def chan_at_def
    old_blob_def bytes_of_string_def seconds_add loaded_signal_def SignalTTL_def signal_MaxTTL_def seconds_def)

section \<open>Paths\<close>

lemma b64_char_path: "n < 64 \<Longrightarrow> b64_char n \<noteq> CHR ''/'' \<and> b64_char n \<noteq> CHR ''%'' \<and> b64_char n \<noteq> CHR ''.''"
proof -
  have "\<forall>k \<in> set [0..<64]. b64_char k \<noteq> CHR ''/'' \<and> b64_char k \<noteq> CHR ''%'' \<and> b64_char k \<noteq> CHR ''.''" by code_simp
  then show "n < 64 \<Longrightarrow> ?thesis" by simp
qed

lemma b64_path: "list_all (\<lambda>c. c \<noteq> CHR ''/'' \<and> c \<noteq> CHR ''%'' \<and> c \<noteq> CHR ''.'') (b64_Encode b)"
  using b64_char_path sextets_of_less [of b] by (auto simp: b64_Encode_def list_all_iff)

lemma channelID_length: "apart C N \<Longrightarrow> length (channelID C n) = 43"
  using key_length [of C N n] by (simp add: channelID_def channel_key_def)

lemma channelID_path: "apart C N \<Longrightarrow> plain_path (channelID C n)"
proof -
  assume "apart C N"
  then have "channelID C n \<noteq> []" using channelID_length [of C N n] by (cases "channelID C n") simp_all
  with b64_path show ?thesis by (simp add: plain_path_def channelID_def)
qed

lemma signal_like_simps:
  "Body_Bytes w = Inr b \<Longrightarrow> length b \<le> 65537 \<Longrightarrow> plain_path ch \<Longrightarrow> signal_like ''POST'' (postSignal ch w) ch b"
  "plain_path ch \<Longrightarrow> signal_like ''GET'' (getSignal ch) ch []"
  by (simp_all add: signal_like_def postSignal_def getSignal_def)

section \<open>The instances, loaded\<close>

definition holds :: "storedRecord list \<Rightarrow> nat \<Rightarrow> sstore option \<Rightarrow> server \<Rightarrow> bool" where
  "holds recs n sig s \<longleftrightarrow> harness_server s \<and> roomy n 600 (sv_limiter s) \<and> table_ok (sv_store s) \<and>
    shown (sv_store s) = map_of (map record_view recs) \<and> sv_signal s = sig"

lemma exchanges_append: "exchanges C (xs @ ys) s = (case exchanges C xs s of None \<Rightarrow> None | Some s' \<Rightarrow> exchanges C ys s')"
  by (induction C xs s rule: exchanges.induct) (auto split: option.splits)

lemma loads_records:
  assumes "initial_ok C recs" "i \<in> set fx_instances" "in_RateLimits i = in_RateLimits base_instance"
  shows "\<exists>s. exchanges C (map load_record (map initial_record_entry recs)) (fresh_server i) = Some s \<and>
    holds recs 40 (cfg_Signal (instance_config i)) s"
proof -
  have cap: "rl_PutRecord (in_RateLimits i) = 600" using assms(3) by (simp add: base_instance_def generousLimit_def)
  have "shown [] = Map.empty" by (simp add: shown_def live_row_def row_of_def fun_eq_iff)
  with load_records [of "fresh_server i" 0 600 recs C] assms(1) cap roomy_New [of 600] show ?thesis
    by (fastforce simp: fresh_server_def harness_server_def initial_ok_def list_all_iff holds_def table_ok_def)
qed

lemma channel_entries:
  "map load_channel (channels_of C) =
    [(Now, postSignal (channelID C 1) (binary_body heldBlob), 204),
     (Now - SignalTTL - 100, postSignal (channelID C 2) (text_body ''a blob that has outlived its TTL''), 204)]"
  by (simp add: channels_of_def initial_channels_def load_channel_def)

lemma loads_channels:
  assumes "apart C N" "holds recs 40 (Some fx_signal_New) s"
  shows "\<exists>s'. exchanges C (map load_channel (channels_of C)) s = Some s' \<and> holds recs 42 (Some (loaded_signal C)) s'"
proof -
  have s: "harness_server s" "roomy 40 600 (sv_limiter s)" "sv_signal s = Some fx_signal_New"
    using assms(2) by (simp_all add: holds_def)
  have "signal_like ''POST'' (postSignal (channelID C 1) (binary_body heldBlob)) (channelID C 1) heldBlob"
    by (rule signal_like_simps) (simp_all add: channelID_path [OF assms(1)] heldBlob_def bytes_of_string_def)
  from exchange_post [OF s(1,2) _ _ this s(3) post_first [OF assms(1)], of C]
  obtain l s1 where first: "exchange C Now (postSignal (channelID C 1) (binary_body heldBlob)) s =
      Some (bare_answer 204, s\<lparr>sv_limiter := l, sv_signal := Some s1\<rparr>)" "roomy 41 600 l"
    "s1 = fx_signal_New\<lparr>s_channels := [(channel_key C 1, 0)],
      s_chans := [\<lparr>ch_blob = Some heldBlob, ch_expiresAt = seconds (Now + 300), ch_waiters = []\<rparr>]\<rparr>"
    by (auto simp: status_defs)
  let ?s = "s\<lparr>sv_limiter := l, sv_signal := Some s1\<rparr>"
  have "signal_like ''POST'' (postSignal (channelID C 2) (text_body ''a blob that has outlived its TTL'')) (channelID C 2) old_blob"
    by (rule signal_like_simps) (simp_all add: channelID_path [OF assms(1)] old_blob_def bytes_of_string_def)
  from exchange_post [of ?s 41 600, OF _ _ _ _ this _ post_second [OF assms(1), folded first(3)], of C] s(1) first(2)
  obtain l' where second: "exchange C (Now - SignalTTL - 100) (postSignal (channelID C 2) (text_body ''a blob that has outlived its TTL'')) ?s =
      Some (bare_answer 204, ?s\<lparr>sv_limiter := l', sv_signal := Some (loaded_signal C)\<rparr>)" "roomy 42 600 l'"
    by (auto simp: status_defs harness_server_def)
  have "rs_status (bare_answer 204) = 204" by (simp add: bare_answer_def with_headers_def status_only_def)
  with first second have "exchanges C (map load_channel (channels_of C)) s = Some (?s\<lparr>sv_limiter := l', sv_signal := Some (loaded_signal C)\<rparr>)"
    by (simp add: channel_entries)
  moreover have "holds recs 42 (Some (loaded_signal C)) (?s\<lparr>sv_limiter := l', sv_signal := Some (loaded_signal C)\<rparr>)"
    using assms(2) second(2) by (simp add: holds_def harness_server_def)
  ultimately show ?thesis by blast
qed

lemma built:
  assumes "apart C N" "initial_ok C recs"
  shows "\<exists>s. build_instance C (loaded_state C recs) instance_default = Some s \<and> holds recs 42 (Some (loaded_signal C)) s"
    "\<exists>s. build_instance C (loaded_state C recs) instance_disabled = Some s \<and> holds recs 40 None s"
    "\<exists>s. build_instance C (loaded_state C recs) instance_draining = Some s \<and> holds recs 42 (Some (signal_Shutdown (loaded_signal C))) s"
    "build_instance C (loaded_state C recs) instance_limited = Some (fresh_server instance_limited)"
    "build_instance C (loaded_state C recs) instance_disabled_limited = Some (fresh_server instance_disabled_limited)"
proof -
  have signal: "cfg_Signal (instance_config instance_default) = Some fx_signal_New" "cfg_Signal (instance_config instance_disabled) = None"
    "cfg_Signal (instance_config instance_draining) = Some fx_signal_New"
    by (simp_all add: instance_config_def instance_defs fx_signal_New_def)
  have mem: "instance_default \<in> set fx_instances" "instance_disabled \<in> set fx_instances" "instance_draining \<in> set fx_instances"
    "instance_limited \<in> set fx_instances" "instance_disabled_limited \<in> set fx_instances" by (simp_all add: fx_instances_def)
  note new = mem [THEN New_instance]
  have flags: "in_LoadInitialRecords instance_default" "in_LoadInitialChannels instance_default" "\<not> in_Draining instance_default"
    "in_LoadInitialRecords instance_disabled" "\<not> in_LoadInitialChannels instance_disabled" "\<not> in_Draining instance_disabled"
    "in_LoadInitialRecords instance_draining" "in_LoadInitialChannels instance_draining" "in_Draining instance_draining"
    "\<not> in_LoadInitialRecords instance_limited" "\<not> in_LoadInitialChannels instance_limited" "\<not> in_Draining instance_limited"
    "\<not> in_LoadInitialRecords instance_disabled_limited" "\<not> in_LoadInitialChannels instance_disabled_limited"
    "\<not> in_Draining instance_disabled_limited"
    by (simp_all add: instance_defs)
  have limits: "in_RateLimits instance_default = in_RateLimits base_instance" "in_RateLimits instance_disabled = in_RateLimits base_instance"
    "in_RateLimits instance_draining = in_RateLimits base_instance" by (simp_all add: instance_defs)
  note recs = loads_records [OF assms(2) mem(1) limits(1)] loads_records [OF assms(2) mem(2) limits(2)]
    loads_records [OF assms(2) mem(3) limits(3)]
  note recs = recs [unfolded signal]
  have state: "is_Records (loaded_state C recs) = map initial_record_entry recs" "is_SignalChannels (loaded_state C recs) = channels_of C"
    by (simp_all add: loaded_state_def)
  show "\<exists>s. build_instance C (loaded_state C recs) instance_default = Some s \<and> holds recs 42 (Some (loaded_signal C)) s"
    using recs(1) loads_channels [OF assms(1)] by (fastforce simp: build_instance_def new flags state exchanges_append)
  show "\<exists>s. build_instance C (loaded_state C recs) instance_disabled = Some s \<and> holds recs 40 None s"
    using recs(2) by (auto simp: build_instance_def new flags state)
  obtain s where s: "exchanges C (map load_record (map initial_record_entry recs) @ map load_channel (channels_of C))
      (fresh_server instance_draining) = Some s" "holds recs 42 (Some (loaded_signal C)) s"
    using recs(3) loads_channels [OF assms(1)] by (fastforce simp: exchanges_append)
  then have "holds recs 42 (Some (signal_Shutdown (loaded_signal C))) (Drain s)"
    by (simp add: holds_def Drain_def harness_server_def)
  with s show "\<exists>s. build_instance C (loaded_state C recs) instance_draining = Some s \<and> holds recs 42 (Some (signal_Shutdown (loaded_signal C))) s"
    by (simp add: build_instance_def new flags state)
  show "build_instance C (loaded_state C recs) instance_limited = Some (fresh_server instance_limited)"
    "build_instance C (loaded_state C recs) instance_disabled_limited = Some (fresh_server instance_disabled_limited)"
    by (simp_all add: build_instance_def new flags)
qed

end
