(* ===== verification/Conform_Answers.thy ===== *)
theory Conform_Answers imports Conform_Instances begin

text \<open>
  When a fixture passes: for each kind of request the fixtures make and each instance they make
  it to, what the fixture has to state.
\<close>

section \<open>Finding and building the instance\<close>

lemma instance_found:
  "find (\<lambda>i. in_Name i = InstanceDefault) fx_instances = Some instance_default"
  "find (\<lambda>i. in_Name i = InstanceSignalDisabled) fx_instances = Some instance_disabled"
  "find (\<lambda>i. in_Name i = InstanceDraining) fx_instances = Some instance_draining"
  "find (\<lambda>i. in_Name i = InstanceLimitsOfOne) fx_instances = Some instance_limited"
  "find (\<lambda>i. in_Name i = InstanceDisabledAndLimited) fx_instances = Some instance_disabled_limited"
  by (simp_all add: fx_instances_def instance_defs instance_names)

text \<open>The answer to a request, on any server that holds the initial state.\<close>

definition answers :: "crypto \<Rightarrow> storedRecord list \<Rightarrow> sstore option \<Rightarrow> wire_request \<Rightarrow> expectation \<Rightarrow> bool" where
  "answers C recs sig q e \<longleftrightarrow>
    (\<forall>n s. n \<le> 42 \<longrightarrow> holds recs n sig s \<longrightarrow>
      (\<exists>resp s'. exchange C Now q s = Some (resp, s') \<and> meets invariant_notes e resp))"

lemma answersD:
  "answers C recs sig q e \<Longrightarrow> n \<le> 42 \<Longrightarrow> holds recs n sig s \<Longrightarrow>
    \<exists>resp s'. exchange C Now q s = Some (resp, s') \<and> meets invariant_notes e resp"
  by (auto simp: answers_def)

lemma suits_built:
  assumes "\<exists>s. build_instance C (loaded_state C recs) i = Some s \<and> holds recs n sig s" "n \<le> 42"
    and "find (\<lambda>i. in_Name i = f_Instance f) fx_instances = Some i" "f_PriorRequests f = []"
    and "answers C recs sig (f_Request f) (f_Expect f)"
  shows "suits C recs f"
proof -
  from assms(1) obtain s where s: "build_instance C (loaded_state C recs) i = Some s" "holds recs n sig s" by blast
  from answersD [OF assms(5,2) s(2)] s(1) assms(3,4) show ?thesis
    by (auto simp: suits_def passes_in_def passes_on_def)
qed

lemma suits_loaded:
  assumes "apart C N" "initial_ok C recs" "f_PriorRequests f = []"
  shows "f_Instance f = InstanceDefault \<Longrightarrow> answers C recs (Some (loaded_signal C)) (f_Request f) (f_Expect f) \<Longrightarrow> suits C recs f"
    "f_Instance f = InstanceSignalDisabled \<Longrightarrow> answers C recs None (f_Request f) (f_Expect f) \<Longrightarrow> suits C recs f"
    "f_Instance f = InstanceDraining \<Longrightarrow>
      answers C recs (Some (signal_Shutdown (loaded_signal C))) (f_Request f) (f_Expect f) \<Longrightarrow> suits C recs f"
  using suits_built [OF built(1) [OF assms(1,2)]] suits_built [OF built(2) [OF assms(1,2)]]
    suits_built [OF built(3) [OF assms(1,2)]] assms(3)
  by (simp_all add: instance_found)

text \<open>A request behind one that spends the allowance.\<close>

definition refused_after :: "crypto \<Rightarrow> server \<Rightarrow> wire_request \<Rightarrow> int \<Rightarrow> wire_request \<Rightarrow> expectation \<Rightarrow> bool" where
  "refused_after C s prior st q e \<longleftrightarrow>
    (\<exists>resp s' resp' s''. exchange C Now prior s = Some (resp, s') \<and> rs_status resp = st \<and>
      exchange C Now q s' = Some (resp', s'') \<and> meets invariant_notes e resp')"

lemma suits_limited:
  assumes "apart C N" "initial_ok C recs" "f_PriorRequests f = [p]" "pr_Repeat p = 1"
  shows "f_Instance f = InstanceLimitsOfOne \<Longrightarrow>
      refused_after C (fresh_server instance_limited) (pr_Request p) (pr_ExpectStatus p) (f_Request f) (f_Expect f) \<Longrightarrow> suits C recs f"
    "f_Instance f = InstanceDisabledAndLimited \<Longrightarrow>
      refused_after C (fresh_server instance_disabled_limited) (pr_Request p) (pr_ExpectStatus p) (f_Request f) (f_Expect f) \<Longrightarrow>
      suits C recs f"
  using built(4,5) [OF assms(1,2)] assms(3,4)
  by (auto simp: suits_def passes_in_def passes_on_def instance_found refused_after_def prior_exchanges_def)

section \<open>What a response has to be\<close>

lemma meets_bare [simp]: "meets invariant_notes (expectStatus st) (bare_answer st') \<longleftrightarrow> st' = st"
  by (auto simp: meets_def expectStatus_def bare_answer_def with_headers_def status_only_def invariant_notes_def
    header_is_def header_absent_def bytes_of_string_def)

lemma bare_status [simp]: "rs_status (bare_answer st) = st"
  by (simp add: bare_answer_def with_headers_def status_only_def)

section \<open>Publishing\<close>

lemma answers_put:
  assumes "\<And>db. shown db = map_of (map record_view recs) \<Longrightarrow> RecordReason_HTTPStatus (put_verdict C body Now db) = st"
  shows "answers C recs sig (putRecord body hs) (expectStatus st)"
proof -
  have "\<exists>resp s'. exchange C Now (putRecord body hs) s = Some (resp, s') \<and> meets invariant_notes (expectStatus st) resp"
    if s: "n \<le> 42" "holds recs n sig s" for n s
  proof -
    have "harness_server s" "roomy n 600 (sv_limiter s)" "shown (sv_store s) = map_of (map record_view recs)"
      using s(2) by (simp_all add: holds_def)
    with exchange_put [of s n 600 "putRecord body hs" body C Now] s(1) assms [of "sv_store s"]
    show ?thesis by auto
  qed
  then show ?thesis by (auto simp: answers_def)
qed

text \<open>What is stale on such a table.\<close>

lemma stale_initial:
  assumes "initial_ok C recs" "shown db = map_of (map record_view recs)"
  shows "stale Now db l e \<longleftrightarrow> l \<in> fr_lookup ` set recs \<and> e \<le> RecordExpiresAt"
proof -
  have "distinct (map fst (map record_view recs))"
    using assms(1) by (simp add: initial_ok_def record_view_def comp_def)
  then have "shown db l = Some (x, b) \<longleftrightarrow> (\<exists>r \<in> set recs. fr_lookup r = l \<and> fr_expiresAt r = x \<and> fr_body r = b)" for x b
    unfolding assms(2) by (auto simp: map_of_eq_Some_iff record_view_def)
  moreover have "fr_expiresAt r = RecordExpiresAt" if "r \<in> set recs" for r
    using assms(1) that by (simp add: initial_ok_def list_all_iff)
  ultimately show ?thesis by (fastforce simp: stale_shown)
qed

section \<open>The advertisement\<close>

lemma SourceURL_quoted: "json_quote SourceURL = quoted SourceURL" "jsonString SourceURL = quoted SourceURL"
  by code_simp+

lemma meta_text:
  assumes "harness_server s" "length (g_initial g) = 40"
  shows "object_text (meta_members 40 s) = meta_body g (sv_signal s \<noteq> None)"
proof -
  have "understate 40 = 40" "Itoa 1 = ''1''" by (simp add: understate_def) code_simp
  with assms show ?thesis
    by (simp add: object_text_def meta_members_def meta_body_def harness_server_def quoted_def
      SourceURL_quoted fx_consts)
qed

lemma shown_records:
  assumes "initial_ok C recs" "holds recs n sig s"
  shows "shows_records Now (sv_store s) recs" "exec_count Now (sv_store s) = 40"
proof -
  show table: "shows_records Now (sv_store s) recs"
    by (rule shown_shows_records) (use assms in \<open>simp_all add: holds_def initial_ok_def\<close>)
  show "exec_count Now (sv_store s) = 40"
    using shows_records_count [OF table] assms(1) by (simp add: initial_ok_def)
qed

lemma answers_meta:
  assumes "initial_ok C recs" "g_initial g = recs"
  shows "answers C recs sig get_meta (expectMeta (meta_body g (sig \<noteq> None)))"
proof -
  have "\<exists>resp s'. exchange C Now get_meta s = Some (resp, s') \<and> meets invariant_notes (expectMeta (meta_body g (sig \<noteq> None))) resp"
    if s: "holds recs n sig s" for n s
  proof -
    have h: "harness_server s" "sv_signal s = sig" "length (g_initial g) = 40"
      using s assms by (simp_all add: holds_def initial_ok_def)
    note count = shown_records(2) [OF assms(1) s]
    have "exchange C Now get_meta s = Some (answered (handleMeta (harness_world Now) s), s)"
      by (rule exchange_meta [OF h(1), of _ "[]"]) (simp_all add: get_meta_def)
    with count meta_text [OF h(1,3)] h(2) show ?thesis
      by (simp add: handleMeta_def store_Count_def meets_def expectMeta_def expectStatus_def answered_def with_headers_def
        status_defs invariant_notes_def header_is_def header_absent_def)
  qed
  then show ?thesis by (auto simp: answers_def)
qed

section \<open>Lookups\<close>

definition refused_query :: "string \<Rightarrow> bool" where
  "refused_query raw \<longleftrightarrow> repeated (url_Query raw) ''prefix'' \<or> repeated (url_Query raw) ''bits'' \<or>
    (case request_query (request_of (getRecord raw) []) 40 of Inl e \<Rightarrow> QueryReason_HTTPStatus e = 400 | Inr q \<Rightarrow> False)"

lemma refused_answer: "refused_query raw \<Longrightarrow> exec_count Now db = 40 \<Longrightarrow> get_answer raw Now db = status_only 400"
  by (auto simp: refused_query_def get_answer_def Let_def status_defs split: sum.splits)

lemma answers_get:
  assumes "initial_ok C recs"
    and "\<And>db. shows_records Now db recs \<Longrightarrow> exec_count Now db = 40 \<Longrightarrow> meets invariant_notes e (answered (get_answer raw Now db))"
  shows "answers C recs sig (getRecord raw) e"
proof -
  have "\<exists>resp s'. exchange C Now (getRecord raw) s = Some (resp, s') \<and> meets invariant_notes e resp"
    if s: "n \<le> 42" "holds recs n sig s" for n s
  proof -
    have "harness_server s" "roomy n 600 (sv_limiter s)" using s(2) by (simp_all add: holds_def)
    with exchange_get [of s n 600 C Now raw] s(1) assms(2) [OF shown_records [OF assms(1) s(2)]] show ?thesis by auto
  qed
  then show ?thesis by (auto simp: answers_def)
qed

definition rejected_queries :: "string list" where
  "rejected_queries = [''prefix=80&bits=2'', ''prefix=8'', ''prefix=8&bits=01'', ''prefix=8&bits=one'', ''prefix=8&bits=-1'',
    ''prefix='' @ replicate 65 CHR ''8'' @ ''&bits=257'', ''prefix=g&bits=1'', ''prefix=88&bits=1'', ''prefix=&bits=1'',
    ''bits=1'', ''prefix=8&prefix=8&bits=1'', ''prefix=8&bits=1&bits=0'']"

lemma rejections_queries: "map (\<lambda>r. fst (snd (snd r))) (rejections cap) = rejected_queries"
  by (simp add: rejections_def rejected_queries_def)

lemma cap_40: "query_Cap 40 = 1"
  by (simp add: query_Cap_def capFor_def KMin_def bits_Len.simps)

lemma rejected_values:
  "map url_Query rejected_queries =
    [[(''prefix'', [''80'']), (''bits'', [''2''])], [(''prefix'', [''8''])], [(''prefix'', [''8'']), (''bits'', [''01''])],
     [(''prefix'', [''8'']), (''bits'', [''one''])], [(''prefix'', [''8'']), (''bits'', [''-1''])],
     [(''prefix'', [replicate 65 CHR ''8'']), (''bits'', [''257''])], [(''prefix'', [''g'']), (''bits'', [''1''])],
     [(''prefix'', [''88'']), (''bits'', [''1''])], [(''prefix'', [[]]), (''bits'', [''1''])],
     [(''bits'', [''1''])], [(''prefix'', [''8'', ''8'']), (''bits'', [''1''])], [(''prefix'', [''8'']), (''bits'', [''1'', ''0''])]]"
  by code_simp

lemma rejected_refused: "list_all refused_query rejected_queries"
proof -
  have refused: "refused_query raw \<longleftrightarrow> repeated v ''prefix'' \<or> repeated v ''bits'' \<or>
      (case query_Parse (fst (single v ''prefix'')) (snd (single v ''prefix'')) (fst (single v ''bits'')) (snd (single v ''bits'')) 1 of
        Inl e \<Rightarrow> QueryReason_HTTPStatus e = 400 | Inr q \<Rightarrow> False)" if "url_Query raw = v" for raw v
    using that by (simp add: refused_query_def request_query_def cap_40 split_def Let_def)
  let ?refused = "\<lambda>v. repeated v ''prefix'' \<or> repeated v ''bits'' \<or>
      (case query_Parse (fst (single v ''prefix'')) (snd (single v ''prefix'')) (fst (single v ''bits'')) (snd (single v ''bits'')) 1 of
        Inl e \<Rightarrow> QueryReason_HTTPStatus e = 400 | Inr q \<Rightarrow> False)"
  have "list_all ?refused (map url_Query rejected_queries)"
    unfolding rejected_values
    by (simp add: repeated_def single_def query_Parse_def ParseUint32_def is_digit_def digits_value_def LookupIDBits_def
      nibble_def status_defs)
  then show ?thesis by (simp add: list_all_iff refused)
qed

lemma answers_refused:
  assumes "initial_ok C recs" "refused_query raw"
  shows "answers C recs sig (getRecord raw) (expectStatus 400)"
proof (rule answers_get [OF assms(1)])
  fix db
  assume "exec_count Now db = 40"
  then show "meets invariant_notes (expectStatus 400) (answered (get_answer raw Now db))"
    by (simp add: refused_answer [OF assms(2)] flip: answered_status)
qed

text \<open>The queries that are answered, by what they parse to.\<close>

definition first_bit :: "byte \<Rightarrow> query" where
  "first_bit b = newQuery [b] 1"

lemma and_high: "x AND 0x80 = (if bit x 7 then 0x80 else 0)" for x :: byte
proof -
  have "x AND 2 ^ k = (if bit x k then 2 ^ k else 0)" for k by (rule bit_eqI) (auto simp: bit_and_iff bit_exp_iff)
  from this [of 7] show ?thesis by simp
qed

lemma first_bit_Matches: "length l = 32 \<Longrightarrow> query_Matches (first_bit b) l \<longleftrightarrow> (b AND 0x80 = hd l AND 0x80)"
proof -
  have mask: "NOT (push_bit 7 1 - 1) AND 0x80 = (0x80 :: byte)" "(32640 :: byte) = 0x80" by simp_all
  have "(b AND NOT (push_bit 7 1 - 1)) AND 0x80 = b AND (0x80 :: byte)" unfolding and.assoc mask(1) ..
  then show "length l = 32 \<Longrightarrow> ?thesis"
    by (cases l) (simp_all add: query_Matches_def first_bit_def newQuery_def clear_spare_def Let_def mask(2))
qed

lemma all_Matches: "length l = 32 \<Longrightarrow> query_Matches (newQuery [] 0) l"
  by (simp add: query_Matches_def newQuery_def clear_spare_def Let_def)

definition asks :: "string \<Rightarrow> query \<Rightarrow> bool" where
  "asks raw q \<longleftrightarrow> \<not> repeated (url_Query raw) ''prefix'' \<and> \<not> repeated (url_Query raw) ''bits'' \<and>
    request_query (request_of (getRecord raw) []) 40 = Inr q"

lemma asks_answer:
  assumes "asks raw q" "shows_records Now db recs" "exec_count Now db = 40" "sortStored recs = recs"
  shows "get_answer raw Now db = \<lparr>rs_status = 200, rs_headers = [(''Content-Type'', ''application/json'')],
    rs_body = recordsBody (filter (\<lambda>r. query_Matches q (fr_lookup r)) recs)\<rparr>"
proof -
  have "store_ByPrefix False q Now db = Inr (map fr_body (filter (\<lambda>r. query_Matches q (fr_lookup r)) recs))"
    using assms(1) shows_records_ByPrefix [OF assms(2)] assms(4)
    by (auto simp: asks_def request_query_def Let_def split: prod.splits)
  with assms(1,3) show ?thesis
    by (simp add: asks_def get_answer_def Let_def records_text_def recordsBody_def)
qed

lemma answers_records:
  assumes "initial_ok C recs" "asks raw q" "filter (\<lambda>r. query_Matches q (fr_lookup r)) recs = out"
  shows "answers C recs sig (getRecord raw) (expectRecords (recordsBody out))"
proof (rule answers_get [OF assms(1)])
  fix db
  assume db: "shows_records Now db recs" "exec_count Now db = 40"
  have "sortStored recs = recs" using assms(1) by (simp add: initial_ok_def)
  from asks_answer [OF assms(2) db this] assms(3)
  show "meets invariant_notes (expectRecords (recordsBody out)) (answered (get_answer raw Now db))"
    by (simp add: meets_def expectRecords_def expectStatus_def answered_def with_headers_def invariant_notes_def
      header_is_def header_absent_def)
qed

lemma asked_values:
  "url_Query ''bits=0'' = [(''bits'', [''0''])]" "url_Query ''prefix=&bits=0'' = [(''prefix'', [[]]), (''bits'', [''0''])]"
  "url_Query ''prefix=8&bits=1'' = [(''prefix'', [''8'']), (''bits'', [''1''])]"
  "url_Query ''prefix=f&bits=1'' = [(''prefix'', [''f'']), (''bits'', [''1''])]"
  "url_Query ''prefix=F&bits=1'' = [(''prefix'', [''F'']), (''bits'', [''1''])]"
  "url_Query ''prefix=0&bits=1'' = [(''prefix'', [''0'']), (''bits'', [''1''])]"
  "url_Query ''prefix=7&bits=1'' = [(''prefix'', [''7'']), (''bits'', [''1''])]"
  by code_simp+

lemma asked:
  "asks ''bits=0'' (newQuery [] 0)" "asks ''prefix=&bits=0'' (newQuery [] 0)" "asks ''prefix=8&bits=1'' (first_bit 0x80)"
  "asks ''prefix=f&bits=1'' (first_bit 0xF0)" "asks ''prefix=F&bits=1'' (first_bit 0xF0)"
  "asks ''prefix=0&bits=1'' (first_bit 0)" "asks ''prefix=7&bits=1'' (first_bit 0x70)"
  by (simp_all add: asks_def request_query_def asked_values cap_40 repeated_def single_def query_Parse_def ParseUint32_def
    is_digit_def digits_value_def LookupIDBits_def nibble_def byte_of_def first_bit_def)

lemma initial_filters:
  assumes "initial_ok C recs"
  shows "filter (\<lambda>r. query_Matches (newQuery [] 0) (fr_lookup r)) recs = recs"
    "filter (\<lambda>r. query_Matches (first_bit 0x80) (fr_lookup r)) recs = recs"
    "filter (\<lambda>r. query_Matches (first_bit 0xF0) (fr_lookup r)) recs = recs"
    "filter (\<lambda>r. query_Matches (first_bit 0) (fr_lookup r)) recs = []"
    "filter (\<lambda>r. query_Matches (first_bit 0x70) (fr_lookup r)) recs = []"
proof -
  have rec: "hd (fr_lookup r) AND 0x80 = 0x80" "length (fr_lookup r) = 32" if "r \<in> set recs" for r
  proof -
    have "high_bit (fr_lookup r)" using that assms by (simp add: initial_ok_def list_all_iff)
    then show "hd (fr_lookup r) AND 0x80 = 0x80" by (simp add: high_bit_def and_high split: if_splits)
    show "length (fr_lookup r) = 32" using that assms by (simp add: initial_ok_def list_all_iff)
  qed
  show "filter (\<lambda>r. query_Matches (newQuery [] 0) (fr_lookup r)) recs = recs"
    "filter (\<lambda>r. query_Matches (first_bit 0x80) (fr_lookup r)) recs = recs"
    "filter (\<lambda>r. query_Matches (first_bit 0xF0) (fr_lookup r)) recs = recs"
    "filter (\<lambda>r. query_Matches (first_bit 0) (fr_lookup r)) recs = []"
    "filter (\<lambda>r. query_Matches (first_bit 0x70) (fr_lookup r)) recs = []"
    by (auto simp: filter_id_conv filter_empty_conv first_bit_Matches all_Matches rec)
qed

section \<open>Signal channels\<close>

lemma answers_post:
  assumes "signal_like ''POST'' q ch b" "fst (signal_Post 0 ch b (seconds Now) sg) = reason"
  shows "answers C recs (Some sg) q (expectStatus (SignalReason_HTTPStatus reason))"
proof -
  obtain sg' where post: "signal_Post 0 ch b (seconds Now) sg = (reason, sg')"
    using assms(2) by (cases "signal_Post 0 ch b (seconds Now) sg") auto
  have "\<exists>resp s'. exchange C Now q s = Some (resp, s') \<and> meets invariant_notes (expectStatus (SignalReason_HTTPStatus reason)) resp"
    if s: "n \<le> 42" "holds recs n (Some sg) s" for n s
  proof -
    have "harness_server s" "roomy n 600 (sv_limiter s)" "sv_signal s = Some sg" using s(2) by (simp_all add: holds_def)
    from exchange_post [OF this(1,2) _ _ assms(1) this(3) post, of C] s(1) show ?thesis by auto
  qed
  then show ?thesis by (auto simp: answers_def)
qed

text \<open>A poll that is answered at once, and one whose window elapses.\<close>

lemma answers_poll:
  assumes "signal_like ''GET'' q ch b" "meets invariant_notes e (answered (signal_reply blob reason))"
    and "case Get_start ch (seconds Now) sg of (Returned blob' reason', sg') \<Rightarrow> blob' = blob \<and> reason' = reason
      | (Waits w, sg') \<Rightarrow> fst (Get_finish w WokenByTimer sg') = Returned blob reason"
  shows "answers C recs (Some sg) q e"
proof -
  obtain g sg' where start: "Get_start ch (seconds Now) sg = (g, sg')" by fastforce
  have "\<exists>resp s'. exchange C Now q s = Some (resp, s') \<and> meets invariant_notes e resp"
    if s: "n \<le> 42" "holds recs n (Some sg) s" for n s
  proof -
    have h: "harness_server s" "roomy n 600 (sv_limiter s)" "int n < 600" "sv_signal s = Some sg"
      using s by (simp_all add: holds_def)
    obtain sg'' where "case g of Returned blob' reason' \<Rightarrow> signal_reply blob reason = signal_reply blob' reason' \<and> sg'' = sg'
      | Waits w \<Rightarrow> \<exists>blob' reason'. Get_finish w WokenByTimer sg' = (Returned blob' reason', sg'') \<and>
          signal_reply blob reason = signal_reply blob' reason'"
      using assms(3) start by (cases g) (auto simp: fst_def split: prod.splits)
    from exchange_poll [OF h(1-3) _ assms(1) h(4) start this, of C] assms(2) show ?thesis by auto
  qed
  then show ?thesis by (auto simp: answers_def)
qed

lemma answers_disabled:
  "signal_like ''POST'' q ch b \<Longrightarrow> answers C recs None q (expectStatus 404)"
  "signal_like ''GET'' q ch b \<Longrightarrow> answers C recs None q (expectStatus 404)"
  using exchange_disabled [of _ q ch b C Now] by (auto simp: answers_def holds_def)

text \<open>The operations on the loaded channels.\<close>

lemma loaded_signal_simps [simp]:
  "s_ttl (loaded_signal C) = seconds 300" "s_maxBlob (loaded_signal C) = 65536" "s_maxWaiters (loaded_signal C) = 10000"
  "s_maxPerChan (loaded_signal C) = 8" "s_waiting (loaded_signal C) = 0" "s_sweepAt (loaded_signal C) = 1024"
  "\<not> s_closed (loaded_signal C)" "s_channels (loaded_signal C) = [(channel_key C 1, 0), (channel_key C 2, 1)]"
  "s_chans (loaded_signal C) = [\<lparr>ch_blob = Some heldBlob, ch_expiresAt = seconds (Now + 300), ch_waiters = []\<rparr>,
      \<lparr>ch_blob = Some old_blob, ch_expiresAt = seconds (Now - 100), ch_waiters = []\<rparr>]"
  "s_waits (loaded_signal C) = []"
  by (simp_all add: loaded_signal_def)

lemma posts_loaded:
  assumes "apart C N"
  shows "fst (signal_Post 0 (channelID C 1) [0x00, 0x10, 0x20, 0xff] (seconds Now) (loaded_signal C)) = SignalConflict"
    "int (length b) \<le> 65536 \<Longrightarrow> fst (signal_Post 0 (channelID C 2) b (seconds Now) (loaded_signal C)) = SignalStored"
    "int (length b) \<le> 65536 \<Longrightarrow> fst (signal_Post 0 (channelID C 3) b (seconds Now) (loaded_signal C)) = SignalStored"
    "int (length b) \<le> 65536 \<Longrightarrow> fst (signal_Post 0 (channelID C 4) b (seconds Now) (loaded_signal C)) = SignalStored"
    "65536 < int (length b) \<Longrightarrow> fst (signal_Post 0 (channelID C 3) b (seconds Now) (loaded_signal C)) = SignalTooLarge"
    "decodeChannelID ch = None \<Longrightarrow> fst (signal_Post 0 ch b (seconds Now) sg) = SignalBadChannel"
    "int (length b) \<le> 65536 \<Longrightarrow>
      fst (signal_Post 0 (channelID C 3) b (seconds Now) (signal_Shutdown (loaded_signal C))) = SignalRateLimited"
  using keys_distinct [OF assms]
  by (simp_all add: signal_Post_def channel_decodes [OF assms] chan_at_def held_def post_into_def takeWaiterLocked_def
    new_chan_def set_chan_def signal_Shutdown_def Let_def)

lemma polls_loaded:
  assumes "apart C N"
  shows "case Get_start (channelID C 1) (seconds Now) (loaded_signal C) of (Returned blob' reason', sg') \<Rightarrow>
        blob' = Some heldBlob \<and> reason' = SignalDelivered
      | (Waits w, sg') \<Rightarrow> fst (Get_finish w WokenByTimer sg') = Returned (Some heldBlob) SignalDelivered"
    "case Get_start (channelID C 3) (seconds Now) (loaded_signal C) of (Returned blob' reason', sg') \<Rightarrow>
        blob' = None \<and> reason' = SignalEmpty
      | (Waits w, sg') \<Rightarrow> fst (Get_finish w WokenByTimer sg') = Returned None SignalEmpty"
    "decodeChannelID ch = None \<Longrightarrow> case Get_start ch (seconds Now) sg of (Returned blob' reason', sg') \<Rightarrow>
        blob' = None \<and> reason' = SignalBadChannel
      | (Waits w, sg') \<Rightarrow> fst (Get_finish w WokenByTimer sg') = Returned None SignalBadChannel"
    "case Get_start (channelID C 1) (seconds Now) (signal_Shutdown (loaded_signal C)) of (Returned blob' reason', sg') \<Rightarrow>
        blob' = None \<and> reason' = SignalRateLimited
      | (Waits w, sg') \<Rightarrow> fst (Get_finish w WokenByTimer sg') = Returned None SignalRateLimited"
  using keys_distinct [OF assms]
  by (simp_all add: Get_start_def channel_decodes [OF assms] chan_at_def held_def register_result_def registerLocked_def
    new_chan_def set_chan_def set_wait_def wait_at_def Get_finish_def releaseLocked_def drop_waiter_def gcLocked_def
    signal_Shutdown_def Let_def)

section \<open>Preflights\<close>

lemma tokens: "TrimSpace ''GET'' = ''GET''" "TrimSpace '' PUT'' = ''PUT''" "TrimSpace '' POST'' = ''POST''"
  "TrimSpace '' OPTIONS'' = ''OPTIONS''"
  by code_simp+

lemma answers_preflight:
  assumes "apart C N" "g_freeChannel g = channelID C 3" "p \<in> set (preflights g)"
  shows "answers C recs sig (fc_request (preflight_case p)) (fc_expect (preflight_case p))"
proof -
  let ?q = "fc_request (preflight_case p)"
  have q: "Body_Bytes (wq_Body ?q) = Inr []" "wq_Method ?q = ''OPTIONS''"
    using assms(3) by (auto simp: preflights_def preflight_case_def)
  have "\<exists>resp s'. exchange C Now ?q s = Some (resp, s') \<and> meets invariant_notes (fc_expect (preflight_case p)) resp"
    if "harness_server s" for s
    using assms(3) exchange_options(1) [OF that q, of C Now] exchange_options(2) [OF that q channelID_path [OF assms(1)], of 3 C Now]
    by (auto simp: preflights_def preflight_case_def assms(2) meets_def expectStatus_def answered_def with_headers_def
      preflight_def status_defs invariant_notes_def header_is_def header_absent_def header_lists_def tokens)
  then show ?thesis by (auto simp: answers_def holds_def)
qed

section \<open>Instances with an allowance of one\<close>

lemma limited_simps [simp]:
  "sv_limiter (fresh_server instance_limited) = harness_limiter 1" "sv_store (fresh_server i) = []"
  "sv_signal (fresh_server instance_limited) = Some fx_signal_New" "sv_signal (fresh_server instance_disabled_limited) = None"
  by (simp_all add: fresh_server_def instance_config_def instance_defs exhaustibleLimit_def fx_signal_New_def)

lemma spent:
  assumes "spends (fresh_server instance_limited) c Now l" "0 \<le> c" "c < 3" "sv_limiter s = l"
  shows "exhausted c s"
  using second_refused [OF assms(2,3) _, of harness_addr "seconds Now" True l] assms(1,4) harness_client(2) [OF harness_fresh]
  by (simp add: spends_def exhausted_def) (simp add: harness_addr_def IsValid_def)

lemma short_channel: "plain_path ''short''" "decodeChannelID ''short'' = None"
  by (simp_all add: plain_path_def decodeChannelID_def ChannelIDChars_def)

lemma refused_put:
  "refused_after C (fresh_server instance_limited) (putRecord ''{}'' vendorType) 400 (putRecord body hs) (expectStatus 429)"
proof -
  let ?s = "fresh_server instance_limited"
  have "put_verdict C ''{}'' Now [] = RecordMalformed" by (rule verdict_unparsed) (simp_all add: no_envelopes)
  with exchange_put [OF harness_fresh, of 0 1 instance_limited "putRecord ''{}'' vendorType" "''{}''" C Now] roomy_New [of 1]
  obtain l where l: "exchange C Now (putRecord ''{}'' vendorType) ?s = Some (bare_answer 400,
      ?s\<lparr>sv_limiter := l, sv_store := put_stores C ''{}'' Now []\<rparr>)" "spends ?s ClassPutRecord Now l"
    by (auto simp: status_defs)
  let ?t = "?s\<lparr>sv_limiter := l, sv_store := put_stores C ''{}'' Now []\<rparr>"
  have "harness_server ?t" using harness_fresh by (simp add: harness_server_def)
  moreover have "exhausted ClassPutRecord ?t" by (rule spent [OF l(2)]) (simp_all add: class_defs)
  ultimately obtain s'' where "exchange C Now (putRecord body hs) ?t = Some (bare_answer 429, s'')"
    using exchange_refused(1) put_like_putRecord by blast
  with l(1) show ?thesis by (simp add: refused_after_def)
qed

lemma refused_get:
  "refused_after C (fresh_server instance_limited) (getRecord ''bits=0'') 200 (getRecord raw) (expectStatus 429)"
proof -
  let ?s = "fresh_server instance_limited"
  have "query_Cap 0 = 0" by (simp add: query_Cap_def capFor_def KMin_def)
  then have "rs_status (answered (get_answer ''bits=0'' Now [])) = 200"
    by (simp add: get_answer_def request_query_def asked_values repeated_def single_def query_Parse_def ParseUint32_def
      is_digit_def digits_value_def LookupIDBits_def exec_count_def store_ByPrefix_def answered_def with_headers_def split_def Let_def)
  with exchange_get [OF harness_fresh, of 0 1 instance_limited C Now "''bits=0''"] roomy_New [of 1]
  obtain l resp where l: "exchange C Now (getRecord ''bits=0'') ?s = Some (resp, ?s\<lparr>sv_limiter := l\<rparr>)"
    "rs_status resp = 200" "spends ?s ClassGetRecord Now l" by auto
  have "harness_server (?s\<lparr>sv_limiter := l\<rparr>)" using harness_fresh by (simp add: harness_server_def)
  moreover have "exhausted ClassGetRecord (?s\<lparr>sv_limiter := l\<rparr>)" by (rule spent [OF l(3)]) (simp_all add: class_defs)
  ultimately obtain s'' where "exchange C Now (getRecord raw) (?s\<lparr>sv_limiter := l\<rparr>) = Some (bare_answer 429, s'')"
    using exchange_refused(2) by blast
  with l(1,2) show ?thesis by (simp add: refused_after_def)
qed

lemma refused_post:
  assumes "signal_like ''POST'' q ch b"
  shows "refused_after C (fresh_server instance_limited) (getSignal ''short'') 400 q (expectStatus 429)"
proof -
  let ?s = "fresh_server instance_limited"
  have get: "Get_start ''short'' (seconds Now) fx_signal_New = (Returned None SignalBadChannel, fx_signal_New)"
    by (simp add: Get_start_def short_channel)
  from exchange_poll [OF harness_fresh, of 0 1 instance_limited, OF _ _ _ signal_like_simps(2) [OF short_channel(1)] _ get, of _ _ C]
    roomy_New [of 1]
  obtain l where l: "exchange C Now (getSignal ''short'') ?s = Some (answered (signal_reply None SignalBadChannel),
      ?s\<lparr>sv_limiter := l, sv_signal := Some fx_signal_New\<rparr>)" "spends ?s ClassSignal Now l" by auto
  let ?t = "?s\<lparr>sv_limiter := l, sv_signal := Some fx_signal_New\<rparr>"
  have "harness_server ?t" using harness_fresh by (simp add: harness_server_def)
  moreover have "exhausted ClassSignal ?t" by (rule spent [OF l(2)]) (simp_all add: class_defs)
  ultimately obtain s'' where "exchange C Now q ?t = Some (bare_answer 429, s'')"
    using exchange_refused(3) [of ?t q ch b] assms by auto
  with l(1) show ?thesis
    by (simp add: refused_after_def signal_reply_def status_defs flip: answered_status)
qed

lemma refused_poll:
  assumes "signal_like ''GET'' q ch b"
  shows "refused_after C (fresh_server instance_limited) (postSignal ''short'' signal_blob) 400 q (expectStatus 429)"
proof -
  let ?s = "fresh_server instance_limited"
  have post: "signal_Post 0 ''short'' [0x00, 0x10, 0x20, 0xff] (seconds Now) fx_signal_New = (SignalBadChannel, fx_signal_New)"
    by (simp add: signal_Post_def short_channel)
  have like: "signal_like ''POST'' (postSignal ''short'' signal_blob) ''short'' [0x00, 0x10, 0x20, 0xff]"
    by (rule signal_like_simps) (simp_all add: signal_blob_def short_channel)
  from exchange_post [OF harness_fresh, of 0 1 instance_limited, OF _ _ _ like _ post, of C] roomy_New [of 1]
  obtain l where l: "exchange C Now (postSignal ''short'' signal_blob) ?s = Some (bare_answer 400,
      ?s\<lparr>sv_limiter := l, sv_signal := Some fx_signal_New\<rparr>)" "spends ?s ClassSignal Now l" by (auto simp: status_defs)
  let ?t = "?s\<lparr>sv_limiter := l, sv_signal := Some fx_signal_New\<rparr>"
  have "harness_server ?t" using harness_fresh by (simp add: harness_server_def)
  moreover have "exhausted ClassSignal ?t" by (rule spent [OF l(2)]) (simp_all add: class_defs)
  ultimately obtain s'' where "exchange C Now q ?t = Some (bare_answer 429, s'')"
    using exchange_refused(4) [of ?t q ch b] assms by auto
  with l(1) show ?thesis by (simp add: refused_after_def)
qed

lemma refused_disabled:
  assumes "signal_like ''GET'' q ch b"
  shows "refused_after C (fresh_server instance_disabled_limited) (getSignal ''short'') 404 q (expectStatus 404)"
  using exchange_disabled(2) [OF harness_fresh limited_simps(4) signal_like_simps(2) [OF short_channel(1)], of C Now]
    exchange_disabled(2) [OF harness_fresh limited_simps(4) assms, of C Now]
  by (simp add: refused_after_def)

end
