(* ===== verification/Conform_Sections.thy ===== *)
theory Conform_Sections imports Conform_Answers begin

text \<open>
  Every group of fixtures the generator adds passes: one lemma per group, each saying that the
  generator is ready after the group if it was before, with as many candidates left as the group
  does not take.
\<close>

section \<open>Verdicts\<close>

text \<open>What every table that shows the initial records answers a body with.\<close>

definition always :: "crypto \<Rightarrow> storedRecord list \<Rightarrow> string \<Rightarrow> RecordReason \<Rightarrow> bool" where
  "always C recs body reason \<longleftrightarrow>
    (\<forall>db. shown db = map_of (map record_view recs) \<longrightarrow> put_verdict C body Now db = reason)"

lemma verdict_of:
  assumes "apart C N" "initial_ok C recs" "i < N" "j < N" "length l = 32" "length w = 8" "fx_time e" "0 \<le> v" "v < 10"
  shows "always C recs (render (craft_members C v (newPublisher C i) l (newPublisher C j) e w)) (first_failing
    [(v \<noteq> 1, RecordBadVersion), (e > Now + 173100, RecordTTLTooLong), (ident C i \<noteq> l, RecordLookupMismatch),
     (\<not> pow_Verify C l e w fx_PoWBits, RecordPoWInsufficient), (i \<noteq> j, RecordSigInvalid), (e \<le> Now, RecordExpired),
     (l \<in> fr_lookup ` set recs \<and> e \<le> RecordExpiresAt, RecordNotNewer)] RecordAccepted)"
proof -
  let ?p = "newPublisher C i" and ?s = "newPublisher C j"
  have ok: "publisher_ok C ?p" "publisher_ok C ?s" "crypto_laws C" using apart_publisher assms(1) by (auto simp: apart_def)
  then have parties: "parties C ?p l ?s w" using assms(5,6) by (simp add: parties_def)
  have "ed_verify C (p_pub ?p) (SigningBytes (crafted C ?p l ?s e w)) (d_Sig (crafted C ?p l ?s e w)) \<longleftrightarrow> i = j"
  proof (cases "i = j")
    case True
    then show ?thesis using crafted_signed [OF ok(1)] ok(3) by (simp add: crypto_laws_def)
  next
    case False
    then have "\<not> ed_verify C (p_pub ?p) m (ed_sign C (p_priv ?s) m)" for m
      using assms(1,3,4) by (auto simp: apart_def keys_apart_def)
    then show ?thesis using False by (simp add: crafted_def SigningBytes_def)
  qed
  with stale_initial [OF assms(2)] show ?thesis
    unfolding always_def verdict_craft [OF parties assms(7-9)] by (simp add: ident_def)
qed

lemma suits_put:
  assumes "ready C N recs n g" "always C recs body reason"
    and "fc_instance c = []" "fc_prior c = []" "fc_request c = putRecord body hs"
    and "fc_expect c = expectStatus (RecordReason_HTTPStatus reason)"
  shows "suits C recs (fixture_of c)"
proof -
  have "answers C recs (Some (loaded_signal C)) (putRecord body hs) (expectStatus (RecordReason_HTTPStatus reason))"
    using assms(2) by (intro answers_put) (simp add: always_def)
  with assms show ?thesis
    by (intro suits_loaded(1)) (auto simp: ready_def fixture_of_def)
qed

lemma ready_put:
  assumes "ready C N recs n g" "always C recs body reason"
    and "fc_instance c = []" "fc_prior c = []" "fc_request c = putRecord body hs"
    and "fc_expect c = expectStatus (RecordReason_HTTPStatus reason)"
  shows "ready C N recs n (add c g)"
  using ready_add [OF assms(1) suits_put [OF assms]] .

text \<open>The envelope a publisher makes, and one put together by hand.\<close>

lemma ready_laws: "ready C N recs n g \<Longrightarrow> apart C N" "ready C N recs n g \<Longrightarrow> initial_ok C recs"
  by (simp_all add: ready_def)

lemma made_envelope:
  assumes "apart C N" "pub_envelope C ctx (newPublisher C i) e = Inr env"
  obtains w where "env = transmitted (crafted C (newPublisher C i) (ident C i) (newPublisher C i) e w)"
    "envelopeMembers env = craft_members C 1 (newPublisher C i) (ident C i) (newPublisher C i) e w"
    "length w = 8" "pow_Verify C (ident C i) e w fx_PoWBits" "parties C (newPublisher C i) (ident C i) (newPublisher C i) w"
  using pub_envelope_craft [OF assms(2) apart_publisher [OF assms(1)]] assms(1)
  by (metis apart_def ident_def parties_def)

lemma made_verdict:
  assumes "apart C N" "initial_ok C recs" "i < N" "fx_time e" "pub_envelope C ctx (newPublisher C i) e = Inr env"
  shows "always C recs (render (envelopeMembers env)) (first_failing
    [(e > Now + 173100, RecordTTLTooLong), (e \<le> Now, RecordExpired),
     (ident C i \<in> fr_lookup ` set recs \<and> e \<le> RecordExpiresAt, RecordNotNewer)] RecordAccepted)"
proof -
  obtain w where w: "envelopeMembers env = craft_members C 1 (newPublisher C i) (ident C i) (newPublisher C i) e w"
    "length w = 8" "pow_Verify C (ident C i) e w fx_PoWBits"
    using made_envelope [OF assms(1,5)] by metis
  have "length (ident C i) = 32" using assms(1) ident_length by (auto simp: apart_def)
  from verdict_of [OF assms(1-3,3) this w(2) assms(4), of 1] w(3) show ?thesis
    unfolding w(1) by (simp cong: if_cong)
qed

lemma hand_verdict:
  assumes "apart C N" "initial_ok C recs" "i < N" "j < N" "m < N" "fx_time e" "length w = 8" "0 \<le> v" "v < 10"
    and "hand_signature C (newPublisher C j) (ident C m) (newPublisher C i) e = Inr sig"
  shows "always C recs (render (envelopeMembers (hand_envelope v (ident C m) (newPublisher C i) e w sig))) (first_failing
    [(v \<noteq> 1, RecordBadVersion), (e > Now + 173100, RecordTTLTooLong), (i \<noteq> m, RecordLookupMismatch),
     (\<not> pow_Verify C (ident C m) e w fx_PoWBits, RecordPoWInsufficient), (i \<noteq> j, RecordSigInvalid), (e \<le> Now, RecordExpired),
     (ident C m \<in> fr_lookup ` set recs \<and> e \<le> RecordExpiresAt, RecordNotNewer)] RecordAccepted)"
proof -
  have "length (ident C m) = 32" "ident C i \<noteq> ident C m \<longleftrightarrow> i \<noteq> m"
    using assms(1,3,5) ident_length by (auto simp: apart_def dest: inj_onD)
  with verdict_of [OF assms(1-4) _ assms(7,6,8,9), of "ident C m"] show ?thesis
    by (simp add: hand_envelope_craft [OF assms(10)])
qed

text \<open>Candidates drawn for a group.\<close>

lemma drawn:
  assumes "take_publishers C k g = Inr (ps, g')" "ready C N recs (n + k) g"
  shows "\<exists>js. ps = map (newPublisher C) js \<and> length js = k \<and> distinct js \<and> ready C N recs n g' \<and>
    list_all (\<lambda>i. i < N \<and> ident C i \<notin> fr_lookup ` set recs) js \<and> g_recency g' = g_recency g"
  using take_publishers_ready [OF assms(2,1)] by blast

lemma drawn_1:
  assumes "take_publishers C 1 g = Inr (ps, g')" "ready C N recs (Suc n) g"
  obtains a where "ps = [newPublisher C a]" "a < N" "ident C a \<notin> fr_lookup ` set recs" "ready C N recs n g'"
    "g_recency g' = g_recency g"
proof -
  have "ready C N recs (n + 1) g" using assms(2) by simp
  from drawn [OF assms(1) this] that show thesis by (auto simp: length_Suc_conv)
qed

lemma drawn_2:
  assumes "take_publishers C 2 g = Inr (ps, g')" "ready C N recs (Suc (Suc n)) g"
  obtains a b where "ps = [newPublisher C a, newPublisher C b]" "a < N" "ident C a \<notin> fr_lookup ` set recs"
    "b < N" "ident C b \<notin> fr_lookup ` set recs" "a \<noteq> b" "ready C N recs n g'" "g_recency g' = g_recency g"
proof -
  have "ready C N recs (n + 2) g" using assms(2) by simp
  from drawn [OF assms(1) this] that show thesis by (auto simp: length_Suc_conv numeral_2_eq_2)
qed

lemma drawn_3:
  assumes "take_publishers C 3 g = Inr (ps, g')" "ready C N recs (Suc (Suc (Suc n))) g"
  obtains a b c where "ps = [newPublisher C a, newPublisher C b, newPublisher C c]" "a < N" "b < N" "c < N"
    "ident C a \<notin> fr_lookup ` set recs" "ident C b \<notin> fr_lookup ` set recs"
    "a \<noteq> b" "a \<noteq> c" "b \<noteq> c" "ready C N recs n g'" "g_recency g' = g_recency g"
proof -
  have "ready C N recs (n + 3) g" using assms(2) by (simp add: numeral_3_eq_3)
  from drawn [OF assms(1) this] that show thesis by (auto simp: length_Suc_conv numeral_3_eq_3)
qed

section \<open>Meta and the accepted publish\<close>

lemma meta_ready:
  assumes "ready C N recs n g"
  shows "ready C N recs n (buildMetaFixtures g)"
proof -
  have r: "apart C N" "initial_ok C recs" "g_initial g = recs" using assms by (simp_all add: ready_def)
  note meta = answers_meta [OF r(2,3)]
  show ?thesis unfolding buildMetaFixtures_def
    by (intro ready_add assms)
      (rule suits_loaded [OF r(1,2)]; use meta [of "Some (loaded_signal C)"] meta [of None] in
        \<open>simp add: fixture_of_def zero_case_def instance_names\<close>)+
qed

lemmas case_simps = zero_case_def status_defs

lemma accepted_ready:
  assumes "put_accepted C ctx g = Inr (body, g')" "ready C N recs (Suc n) g"
  shows "ready C N recs n g' \<and> always C recs body RecordAccepted"
proof -
  from assms(1) obtain ps g1 env where s: "take_publishers C 1 g = Inr (ps, g1)"
    "pub_envelope C ctx (ps ! 0) RecordExpiresAt = Inr env" "body = render (envelopeMembers env)"
    by (auto simp: put_accepted_def andThen_Inr Let_def)
  obtain a where a: "ps = [newPublisher C a]" "a < N" "ident C a \<notin> fr_lookup ` set recs" "ready C N recs n g1"
    using drawn_1 [OF s(1) assms(2)] by metis
  have always: "always C recs body RecordAccepted"
    using made_verdict [OF ready_laws [OF a(4)] a(2) fx_times(3), of ctx env] s(2,3) a(1,3)
    by (simp add: RecordExpiresAt_def)
  from assms(1) s a(1) have "ready C N recs n g'"
    by (auto simp: put_accepted_def Let_def intro!: ready_put [OF a(4) always] simp: case_simps)
  with always show ?thesis by simp
qed

lemma content_types_ready:
  assumes "ready C N recs n g" "always C recs body RecordAccepted"
  shows "ready C N recs n (put_content_types body g)"
  unfolding put_content_types_def
  by (rule ready_add_all [OF assms(1)], use suits_put [OF assms] in \<open>auto simp: contentTypes_def case_simps\<close>)

lemma suits_limits_of_one:
  assumes "ready C N recs n g" "fc_instance c = InstanceLimitsOfOne" "length (fc_prior c) = 1" "pr_Repeat (hd (fc_prior c)) = 1"
    and "refused_after C (fresh_server instance_limited) (pr_Request (hd (fc_prior c))) (pr_ExpectStatus (hd (fc_prior c)))
      (fc_request c) (fc_expect c)"
  shows "suits C recs (fixture_of c)"
  using suits_limited(1) [OF ready_laws [OF assms(1)], of "fixture_of c" "hd (fc_prior c)"] assms(2-5)
  by (cases "fc_prior c") (simp_all add: fixture_of_def instance_names)

lemma put_limited_ready: "ready C N recs n g \<Longrightarrow> ready C N recs n (put_limited body g)"
  unfolding put_limited_def
  by (rule ready_add, assumption, rule suits_limits_of_one) (simp_all add: case_simps refused_put)

section \<open>The size\<close>

lemma padded_verdict:
  assumes "apart C N" "initial_ok C recs" "i < N" "ident C i \<notin> fr_lookup ` set recs"
    and "pub_envelope C ctx (newPublisher C i) RecordExpiresAt = Inr env"
  shows "padTo (envelopeMembers env) 4096 = Inr body \<Longrightarrow> always C recs body RecordAccepted"
    "padTo (envelopeMembers env) 4097 = Inr body \<Longrightarrow> length body = 4097"
proof -
  obtain w where w: "envelopeMembers env = craft_members C 1 (newPublisher C i) (ident C i) (newPublisher C i) RecordExpiresAt w"
    "pow_Verify C (ident C i) RecordExpiresAt w fx_PoWBits" "parties C (newPublisher C i) (ident C i) (newPublisher C i) w"
    using made_envelope [OF assms(1,5)] by metis
  show "length body = 4097" if pad: "padTo (envelopeMembers env) 4097 = Inr body"
    using padTo_craft(1) [OF w(1) pad] by linarith
  show "always C recs body RecordAccepted" if pad: "padTo (envelopeMembers env) 4096 = Inr body"
  proof -
    obtain extra where extra: "unknown_members extra" "int (length body) = 4096"
      "body = render (craft_members C 1 (newPublisher C i) (ident C i) (newPublisher C i) RecordExpiresAt w @ untyped extra)"
      using padTo_craft(1) [OF w(1) pad] w(1) by auto
    have "publisher_ok C (newPublisher C i)" "ed25519_ok C"
      using apart_publisher [OF assms(1)] assms(1) by (simp_all add: apart_def crypto_laws_def)
    note signed = crafted_signed [OF this]
    note verdict = verdict_crafted [OF w(3) fx_times(3) _ _ extra(1,3)]
    show ?thesis
      using verdict extra(2) w(2) assms(4) signed stale_initial [OF assms(2)]
      by (simp add: always_def ident_def RecordExpiresAt_def)
  qed
qed

lemma always_too_large: "4096 < length body \<Longrightarrow> always C recs body RecordTooLarge"
  by (simp add: always_def verdict_too_large)

lemma sizes_ready:
  assumes "put_sizes C ctx g = Inr (overLimit, g')" "ready C N recs (Suc n) g"
  shows "ready C N recs n g' \<and> length overLimit = 4097"
proof -
  from assms(1) obtain ps g1 env atLimit where s: "take_publishers C 1 g = Inr (ps, g1)"
    "pub_envelope C ctx (ps ! 0) RecordExpiresAt = Inr env" "padTo (envelopeMembers env) 4096 = Inr atLimit"
    "padTo (envelopeMembers env) 4097 = Inr overLimit"
    by (auto simp: put_sizes_def andThen_Inr fx_consts)
  obtain a where a: "ps = [newPublisher C a]" "a < N" "ident C a \<notin> fr_lookup ` set recs" "ready C N recs n g1"
    using drawn_1 [OF s(1) assms(2)] by metis
  have env: "pub_envelope C ctx (newPublisher C a) RecordExpiresAt = Inr env" using s(2) a(1) by simp
  note pads = padded_verdict [OF ready_laws [OF a(4)] a(2,3) env]
  have len: "length overLimit = 4097" by (rule pads(2) [OF s(4)])
  then have large: "always C recs overLimit RecordTooLarge" by (simp add: always_too_large)
  have g': "g' = snd (case put_sizes C ctx g of Inr x \<Rightarrow> x)" using assms(1) by simp
  have "ready C N recs n g'"
    unfolding g' using s a(1) 
    by (auto simp: put_sizes_def fx_consts case_simps intro!: ready_put [OF _ large] ready_put [OF a(4) pads(1) [OF s(3)]])
  with len show ?thesis by simp
qed

section \<open>Malformed bodies and the version\<close>

lemma malformed_ready:
  assumes "put_malformed C ctx g = Inr (mm, g')" "ready C N recs (Suc n) g"
  shows "ready C N recs n (put_bad_version mm g')"
proof -
  from assms(1) obtain ps g1 env pl nl where s: "take_publishers C 1 g = Inr (ps, g1)"
    "pub_envelope C ctx (ps ! 0) RecordExpiresAt = Inr env" "padded (e_LookupID env) = Inr pl"
    "nonCanonical (e_LookupID env) = Inr nl" "mm = envelopeMembers env"
    "g' = add_all (map malformed_case (malformed_bodies mm pl nl (b64_Encode (take (NonceLen - 1) (p_nonce (ps ! 0)))))) g1"
    by (auto simp: put_malformed_def andThen_Inr Let_def)
  obtain a where a: "ps = [newPublisher C a]" "a < N" "ident C a \<notin> fr_lookup ` set recs" "ready C N recs n g1"
    using drawn_1 [OF s(1) assms(2)] by metis
  note laws = ready_laws [OF a(4)]
  have "pub_envelope C ctx (newPublisher C a) RecordExpiresAt = Inr env" using s(2) a(1) by simp
  then obtain w where w: "env = transmitted (crafted C (newPublisher C a) (ident C a) (newPublisher C a) RecordExpiresAt w)"
    "length w = 8" "parties C (newPublisher C a) (ident C a) (newPublisher C a) w"
    using made_envelope [OF laws(1)] by metis
  have "always C recs (snd (snd m)) RecordMalformed"
    if "m \<in> set (malformed_bodies mm pl nl (b64_Encode (take (NonceLen - 1) (p_nonce (ps ! 0)))))" for m
    using malformed_verdicts [OF w(3) fx_times(3) w(1) s(3,4) refl, of "fst m" "fst (snd m)" "snd (snd m)"] that a(1) s(5)
    by (simp add: always_def)
  then have "suits C recs (fixture_of (malformed_case m))"
    if "m \<in> set (malformed_bodies mm pl nl (b64_Encode (take (NonceLen - 1) (p_nonce (ps ! 0)))))" for m
    by (rule suits_put [OF a(4)]) (use that in \<open>simp_all add: malformed_case_def case_simps\<close>)
  then have "\<forall>c \<in> set (map malformed_case (malformed_bodies mm pl nl (b64_Encode (take (NonceLen - 1) (p_nonce (ps ! 0)))))).
      suits C recs (fixture_of c)" by auto
  then have g': "ready C N recs n g'" unfolding s(6) by (rule ready_add_all [OF a(4)])
  have "set_member mm ''v'' ''2'' = craft_members C 2 (newPublisher C a) (ident C a) (newPublisher C a) RecordExpiresAt w"
    unfolding s(5) w(1) set_members(3) set_crafted(4) ..
  with verdict_of [OF laws a(2,2) _ w(2) fx_times(3), of "ident C a" 2] ident_length laws(1)
  have "always C recs (render (set_member mm ''v'' ''2'')) RecordBadVersion" by (auto simp: apart_def)
  then show ?thesis unfolding put_bad_version_def by (rule ready_put [OF g']) (simp_all add: case_simps)
qed

section \<open>The expiry bound\<close>

lemma ttl_ready:
  assumes "put_ttl C ctx g = Inr g'" "ready C N recs (Suc (Suc n)) g"
  shows "ready C N recs n g'"
proof -
  from assms(1) obtain ps g1 graceEnv overEnv where s: "take_publishers C 2 g = Inr (ps, g1)"
    "pub_envelope C ctx (ps ! 0) atGrace = Inr graceEnv" "pub_envelope C ctx (ps ! 1) overGrace = Inr overEnv"
    by (auto simp: put_ttl_def andThen_Inr Let_def)
  obtain a b where ab: "ps = [newPublisher C a, newPublisher C b]" "a < N" "ident C a \<notin> fr_lookup ` set recs" "b < N"
    "ready C N recs n g1"
    using drawn_2 [OF s(1) assms(2)] by metis
  note laws = ready_laws [OF ab(5)]
  have grace: "always C recs (render (envelopeMembers graceEnv)) RecordAccepted"
    using made_verdict [OF laws ab(2) fx_times(6), of ctx graceEnv] s(2) ab(1,3) by (simp add: atGrace_def fx_consts)
  have over: "always C recs (render (envelopeMembers overEnv)) RecordTTLTooLong"
    using made_verdict [OF laws ab(4) fx_times(7), of ctx overEnv] s(3) ab(1) by (simp add: overGrace_def fx_consts)
  show ?thesis using assms(1) s
    by (auto simp: put_ttl_def Let_def case_simps intro!: ready_put [OF _ over] ready_put [OF ab(5) grace])
qed

section \<open>Identifier, proof of work and signature\<close>

lemma mismatch_ready:
  assumes "put_mismatch C ctx g = Inr g'" "ready C N recs (Suc (Suc n)) g"
  shows "ready C N recs n g'"
proof -
  from assms(1) obtain ps g1 w sig where s: "take_publishers C 2 g = Inr (ps, g1)"
    "pubSolve C ctx (p_lookupID (ps ! 1)) RecordExpiresAt = Inr w"
    "hand_signature C (ps ! 0) (p_lookupID (ps ! 1)) (ps ! 0) RecordExpiresAt = Inr sig"
    by (auto simp: put_mismatch_def andThen_Inr Let_def)
  obtain a b where ab: "ps = [newPublisher C a, newPublisher C b]" "a < N" "b < N" "a \<noteq> b" "ready C N recs n g1"
    using drawn_2 [OF s(1) assms(2)] by metis
  have sig: "hand_signature C (newPublisher C a) (ident C b) (newPublisher C a) RecordExpiresAt = Inr sig"
    using s(3) ab(1) by (simp add: ident_def)
  have "length w = 8" using pubSolve_Inr [OF s(2)] by simp
  from hand_verdict [OF ready_laws [OF ab(5)] ab(2,2,3) fx_times(3) this _ _ sig, of 1] ab(4)
  have verdict: "always C recs (render (envelopeMembers (hand_envelope Version (p_lookupID (newPublisher C b)) (newPublisher C a)
      RecordExpiresAt w sig))) RecordLookupMismatch"
    by (simp add: ident_def Version_def RecordExpiresAt_def)
  show ?thesis using assms(1) s ab(1)
    by (auto simp: put_mismatch_def Let_def case_simps intro!: ready_put [OF ab(5) verdict])
qed

lemma pow_ready:
  assumes "put_pow C ctx g = Inr g'" "ready C N recs (Suc n) g"
  shows "ready C N recs n g'"
proof -
  from assms(1) obtain ps g1 env weak where s: "take_publishers C 1 g = Inr (ps, g1)"
    "pub_envelope C ctx (ps ! 0) RecordExpiresAt = Inr env" "insufficientPoW C (p_lookupID (ps ! 0)) RecordExpiresAt = Some weak"
    by (auto simp: put_pow_def andThen_Inr Let_def)
  obtain a where a: "ps = [newPublisher C a]" "a < N" "ready C N recs n g1" using drawn_1 [OF s(1) assms(2)] by metis
  note laws = ready_laws [OF a(3)]
  have "pub_envelope C ctx (newPublisher C a) RecordExpiresAt = Inr env" using s(2) a(1) by simp
  then obtain w where w: "env = transmitted (crafted C (newPublisher C a) (ident C a) (newPublisher C a) RecordExpiresAt w)"
    using made_envelope [OF laws(1)] by metis
  have weak: "length weak = 8" "\<not> pow_Verify C (ident C a) RecordExpiresAt weak fx_PoWBits"
    using insufficientPoW_fails [OF s(3)] a(1) by (simp_all add: ident_def)
  have "set_member (envelopeMembers env) ''pow'' (quoted (b64_Encode weak)) =
      craft_members C 1 (newPublisher C a) (ident C a) (newPublisher C a) RecordExpiresAt weak"
    using set_members(1) [of env weak] by (simp add: w set_crafted)
  with verdict_of [OF laws a(2,2) _ weak(1) fx_times(3), of "ident C a" 1] ident_length laws(1) weak(2)
  have verdict: "always C recs (render (set_member (envelopeMembers env) ''pow'' (quoted (b64_Encode weak)))) RecordPoWInsufficient"
    by (auto simp: apart_def RecordExpiresAt_def)
  show ?thesis using assms(1) s by (auto simp: put_pow_def Let_def returns_def case_simps intro!: ready_put [OF a(3) verdict])
qed

lemma signature_ready:
  assumes "put_signature C ctx g = Inr g'" "ready C N recs (Suc (Suc n)) g"
  shows "ready C N recs n g'"
proof -
  from assms(1) obtain ps g1 env sig where s: "take_publishers C 2 g = Inr (ps, g1)"
    "pub_envelope C ctx (ps ! 0) RecordExpiresAt = Inr env"
    "hand_signature C (ps ! 1) (p_lookupID (ps ! 0)) (ps ! 0) RecordExpiresAt = Inr sig"
    by (auto simp: put_signature_def andThen_Inr Let_def)
  obtain a b where ab: "ps = [newPublisher C a, newPublisher C b]" "a < N" "b < N" "a \<noteq> b" "ready C N recs n g1"
    using drawn_2 [OF s(1) assms(2)] by metis
  note laws = ready_laws [OF ab(5)]
  have "pub_envelope C ctx (newPublisher C a) RecordExpiresAt = Inr env" using s(2) ab(1) by simp
  then obtain w where w: "env = transmitted (crafted C (newPublisher C a) (ident C a) (newPublisher C a) RecordExpiresAt w)"
    "length w = 8" "pow_Verify C (ident C a) RecordExpiresAt w fx_PoWBits"
    using made_envelope [OF laws(1)] by metis
  have "sig = d_Sig (crafted C (newPublisher C a) (ident C a) (newPublisher C b) RecordExpiresAt w)"
    using hand_signature_Inr [OF s(3), of w] ab(1) by (simp add: ident_def)
  then have "set_member (envelopeMembers env) ''sig'' (quoted (b64_Encode sig)) =
      craft_members C 1 (newPublisher C a) (ident C a) (newPublisher C b) RecordExpiresAt w"
    using set_members(2) [of env sig] by (simp add: w(1) set_crafted)
  with verdict_of [OF laws ab(2,3) _ w(2) fx_times(3), of "ident C a" 1] ident_length laws(1) w(3) ab(4)
  have verdict: "always C recs (render (set_member (envelopeMembers env) ''sig'' (quoted (b64_Encode sig)))) RecordSigInvalid"
    by (auto simp: apart_def RecordExpiresAt_def)
  show ?thesis using assms(1) s by (auto simp: put_signature_def Let_def case_simps intro!: ready_put [OF ab(5) verdict])
qed

section \<open>The clock and the stored record\<close>

lemma expired_ready:
  assumes "put_expired C ctx g = Inr g'" "ready C N recs (Suc (Suc n)) g"
  shows "ready C N recs n g'"
proof -
  from assms(1) obtain ps g1 atNow before where s: "take_publishers C 2 g = Inr (ps, g1)"
    "pub_envelope C ctx (ps ! 0) Now = Inr atNow" "pub_envelope C ctx (ps ! 1) (Now - 1) = Inr before"
    by (auto simp: put_expired_def andThen_Inr Let_def)
  obtain a b where ab: "ps = [newPublisher C a, newPublisher C b]" "a < N" "b < N" "ready C N recs n g1"
    using drawn_2 [OF s(1) assms(2)] by metis
  note laws = ready_laws [OF ab(4)]
  have at: "always C recs (render (envelopeMembers atNow)) RecordExpired"
    using made_verdict [OF laws ab(2) fx_times(1), of ctx atNow] s(2) ab(1) by simp
  have before: "always C recs (render (envelopeMembers before)) RecordExpired"
    using made_verdict [OF laws ab(3) fx_times(2), of ctx before] s(3) ab(1) by simp
  show ?thesis using assms(1) s
    by (auto simp: put_expired_def Let_def case_simps intro!: ready_put [OF _ before] ready_put [OF ab(4) at])
qed

text \<open>The record of the initial state the recency fixtures republish under.\<close>

lemma ready_recency:
  assumes "ready C N recs n g"
  obtains k where "recency_target g = Inr (newPublisher C k)" "k < N" "ident C k \<in> fr_lookup ` set recs"
    "g_recencyExpires g = RecordExpiresAt"
  using assms by (fastforce simp: ready_def recency_target_def)

lemma recency_ready:
  assumes "put_recency C ctx g = Inr g'" "ready C N recs n g"
  shows "ready C N recs n g'"
proof -
  obtain k where k: "recency_target g = Inr (newPublisher C k)" "k < N" "ident C k \<in> fr_lookup ` set recs"
    "g_recencyExpires g = RecordExpiresAt" by (rule ready_recency [OF assms(2)])
  from assms(1) k(1,4) obtain same older newer where s: "pub_envelope C ctx (newPublisher C k) RecordExpiresAt = Inr same"
    "pub_envelope C ctx (newPublisher C k) (RecordExpiresAt - 1) = Inr older"
    "pub_envelope C ctx (newPublisher C k) (RecordExpiresAt + 1) = Inr newer"
    by (auto simp: put_recency_def andThen_Inr Let_def)
  note made = made_verdict [OF ready_laws [OF assms(2)] k(2)]
  have same: "always C recs (render (envelopeMembers same)) RecordNotNewer"
    using made [OF fx_times(3) s(1)] k(3) by (simp add: RecordExpiresAt_def)
  have older: "always C recs (render (envelopeMembers older)) RecordNotNewer"
    using made [OF fx_times(4) s(2)] k(3) by (simp add: RecordExpiresAt_def)
  have newer: "always C recs (render (envelopeMembers newer)) RecordAccepted"
    using made [OF fx_times(5) s(3)] by (simp add: RecordExpiresAt_def)
  show ?thesis using assms(1) s k
    by (auto simp: put_recency_def Let_def case_simps
      intro!: ready_put [OF ready_put [OF ready_put [OF assms(2) same] older] newer])
qed

end
