(* ===== verification/Conform_Order.thy ===== *)
theory Conform_Order imports Conform_Sections begin

text \<open>
  The fixtures that violate several conditions at once: each is answered with the code of the
  first of them, as the fixture says.
\<close>

section \<open>Two conditions\<close>

lemma order_size_ready:
  assumes "ready C N recs n g" "length overLimit = 4097"
  shows "ready C N recs n (order_size overLimit g)"
proof -
  have "always C recs (butlast overLimit @ '','') RecordTooLarge" using assms(2) by (intro always_too_large) simp
  then show ?thesis unfolding order_size_def Let_def
    by (rule ready_put [OF assms(1)]) (simp_all add: case_simps)
qed

lemma order_lookup_ready:
  assumes "order_lookup C ctx g = Inr g'" "ready C N recs (Suc (Suc n)) g"
  shows "ready C N recs n g'"
proof -
  from assms(1) obtain ps g1 w sig where s: "take_publishers C 2 g = Inr (ps, g1)"
    "pubSolve C ctx (p_lookupID (ps ! 1)) Now = Inr w" "hand_signature C (ps ! 0) (p_lookupID (ps ! 1)) (ps ! 0) Now = Inr sig"
    by (auto simp: order_lookup_def andThen_Inr Let_def)
  obtain a b where ab: "ps = [newPublisher C a, newPublisher C b]" "a < N" "b < N" "a \<noteq> b" "ready C N recs n g1"
    using drawn_2 [OF s(1) assms(2)] by metis
  have sig: "hand_signature C (newPublisher C a) (ident C b) (newPublisher C a) Now = Inr sig"
    using s(3) ab(1) by (simp add: ident_def)
  have "length w = 8" using pubSolve_Inr [OF s(2)] by simp
  from hand_verdict [OF ready_laws [OF ab(5)] ab(2,2,3) fx_times(1) this _ _ sig, of 1] ab(4)
  have verdict: "always C recs (render (envelopeMembers (hand_envelope Version (p_lookupID (newPublisher C b)) (newPublisher C a)
      Now w sig))) RecordLookupMismatch"
    by (simp add: ident_def Version_def)
  show ?thesis using assms(1) s ab(1)
    by (auto simp: order_lookup_def Let_def case_simps intro!: ready_put [OF ab(5) verdict])
qed

lemma order_signature_ready:
  assumes "order_signature C ctx g = Inr g'" "ready C N recs (Suc n) g"
  shows "ready C N recs n g'"
proof -
  obtain k where k: "recency_target g = Inr (newPublisher C k)" "k < N" "ident C k \<in> fr_lookup ` set recs"
    "g_recencyExpires g = RecordExpiresAt" by (rule ready_recency [OF assms(2)])
  from assms(1) k(1,4) obtain w ps g1 sig where s: "pubSolve C ctx (p_lookupID (newPublisher C k)) RecordExpiresAt = Inr w"
    "take_publishers C 1 g = Inr (ps, g1)"
    "hand_signature C (ps ! 0) (p_lookupID (newPublisher C k)) (newPublisher C k) RecordExpiresAt = Inr sig"
    by (auto simp: order_signature_def andThen_Inr Let_def)
  obtain a where a: "ps = [newPublisher C a]" "a < N" "ident C a \<notin> fr_lookup ` set recs" "ready C N recs n g1"
    using drawn_1 [OF s(2) assms(2)] by metis
  have "k \<noteq> a" using k(3) a(3) by auto
  have sig: "hand_signature C (newPublisher C a) (ident C k) (newPublisher C k) RecordExpiresAt = Inr sig"
    using s(3) a(1) by (simp add: ident_def)
  have w: "length w = 8" "pow_Verify C (ident C k) RecordExpiresAt w fx_PoWBits" using pubSolve_Inr [OF s(1)] by (simp_all add: ident_def)
  from hand_verdict [OF ready_laws [OF a(4)] k(2) a(2) k(2) fx_times(3) w(1) _ _ sig, of 1] \<open>k \<noteq> a\<close> w(2)
  have verdict: "always C recs (render (envelopeMembers (hand_envelope Version (p_lookupID (newPublisher C k)) (newPublisher C k)
      RecordExpiresAt w sig))) RecordSigInvalid"
    by (simp add: ident_def Version_def RecordExpiresAt_def)
  show ?thesis using assms(1) s a(1) k(1,4)
    by (auto simp: order_signature_def Let_def case_simps intro!: ready_put [OF a(4) verdict])
qed

lemma order_blunt_ready:
  assumes "order_blunt C ctx g = Inr g'" "ready C N recs (Suc (Suc n)) g"
  shows "ready C N recs n g'"
proof -
  from assms(1) obtain ps g1 weak sig where s: "take_publishers C 2 g = Inr (ps, g1)"
    "insufficientPoW C (p_lookupID (ps ! 0)) RecordExpiresAt = Some weak"
    "hand_signature C (ps ! 1) (p_lookupID (ps ! 0)) (ps ! 0) RecordExpiresAt = Inr sig"
    by (auto simp: order_blunt_def andThen_Inr Let_def)
  obtain a b where ab: "ps = [newPublisher C a, newPublisher C b]" "a < N" "b < N" "a \<noteq> b" "ready C N recs n g1"
    using drawn_2 [OF s(1) assms(2)] by metis
  have sig: "hand_signature C (newPublisher C b) (ident C a) (newPublisher C a) RecordExpiresAt = Inr sig"
    using s(3) ab(1) by (simp add: ident_def)
  have w: "length weak = 8" "\<not> pow_Verify C (ident C a) RecordExpiresAt weak fx_PoWBits"
    using insufficientPoW_fails [OF s(2)] ab(1) by (simp_all add: ident_def)
  from hand_verdict [OF ready_laws [OF ab(5)] ab(2,3,2) fx_times(3) w(1) _ _ sig, of 1] w(2)
  have verdict: "always C recs (render (envelopeMembers (hand_envelope Version (p_lookupID (newPublisher C a)) (newPublisher C a)
      RecordExpiresAt weak sig))) RecordPoWInsufficient"
    by (simp add: ident_def Version_def RecordExpiresAt_def)
  show ?thesis using assms(1) s ab(1)
    by (auto simp: order_blunt_def Let_def returns_def case_simps intro!: ready_put [OF ab(5) verdict])
qed

lemma order_expired_replay_ready:
  assumes "order_expired_replay C ctx g = Inr g'" "ready C N recs n g"
  shows "ready C N recs n g'"
proof -
  obtain k where k: "recency_target g = Inr (newPublisher C k)" "k < N" "ident C k \<in> fr_lookup ` set recs"
    "g_recencyExpires g = RecordExpiresAt" by (rule ready_recency [OF assms(2)])
  from assms(1) k(1) obtain w sig where s: "pubSolve C ctx (p_lookupID (newPublisher C k)) Now = Inr w"
    "hand_signature C (newPublisher C k) (p_lookupID (newPublisher C k)) (newPublisher C k) Now = Inr sig"
    by (auto simp: order_expired_replay_def andThen_Inr Let_def)
  have sig: "hand_signature C (newPublisher C k) (ident C k) (newPublisher C k) Now = Inr sig"
    using s(2) by (simp add: ident_def)
  have w: "length w = 8" "pow_Verify C (ident C k) Now w fx_PoWBits" using pubSolve_Inr [OF s(1)] by (simp_all add: ident_def)
  from hand_verdict [OF ready_laws [OF assms(2)] k(2,2,2) fx_times(1) w(1) _ _ sig, of 1] w(2)
  have verdict: "always C recs (render (envelopeMembers (hand_envelope Version (p_lookupID (newPublisher C k)) (newPublisher C k)
      Now w sig))) RecordExpired"
    by (simp add: ident_def Version_def)
  show ?thesis using assms(1) s k(1)
    by (auto simp: order_expired_replay_def Let_def case_simps intro!: ready_put [OF assms(2) verdict])
qed

section \<open>Three and four conditions\<close>

lemma order_three_ready:
  assumes "order_three C g = Inr g'" "ready C N recs (Suc (Suc n)) g"
  shows "ready C N recs n g'"
proof -
  from assms(1) obtain ps g1 weak sig where s: "take_publishers C 2 g = Inr (ps, g1)"
    "insufficientPoW C (p_lookupID (ps ! 0)) overGrace = Some weak"
    "hand_signature C (ps ! 1) (p_lookupID (ps ! 0)) (ps ! 0) overGrace = Inr sig"
    by (auto simp: order_three_def andThen_Inr Let_def)
  obtain a b where ab: "ps = [newPublisher C a, newPublisher C b]" "a < N" "b < N" "a \<noteq> b" "ready C N recs n g1"
    using drawn_2 [OF s(1) assms(2)] by metis
  have sig: "hand_signature C (newPublisher C b) (ident C a) (newPublisher C a) overGrace = Inr sig"
    using s(3) ab(1) by (simp add: ident_def)
  have w: "length weak = 8" using insufficientPoW_fails [OF s(2)] by simp
  from hand_verdict [OF ready_laws [OF ab(5)] ab(2,3,2) fx_times(7) w _ _ sig, of 1]
  have verdict: "always C recs (render (envelopeMembers (hand_envelope Version (p_lookupID (newPublisher C a)) (newPublisher C a)
      overGrace weak sig))) RecordTTLTooLong"
    by (simp add: ident_def Version_def overGrace_def fx_consts)
  show ?thesis using assms(1) s ab(1)
    by (auto simp: order_three_def Let_def returns_def case_simps intro!: ready_put [OF ab(5) verdict])
qed

lemma order_four_ready:
  assumes "order_four C g = Inr g'" "ready C N recs (Suc (Suc (Suc n))) g"
  shows "ready C N recs n g'"
proof -
  from assms(1) obtain ps g1 weak sig where s: "take_publishers C 3 g = Inr (ps, g1)"
    "insufficientPoW C (p_lookupID (ps ! 1)) RecordExpiresAt = Some weak"
    "hand_signature C (ps ! 2) (p_lookupID (ps ! 1)) (ps ! 0) RecordExpiresAt = Inr sig"
    by (auto simp: order_four_def andThen_Inr Let_def)
  obtain a b c where abc: "ps = [newPublisher C a, newPublisher C b, newPublisher C c]" "a < N" "b < N" "c < N"
    "ready C N recs n g1"
    using drawn_3 [OF s(1) assms(2)] by metis
  have sig: "hand_signature C (newPublisher C c) (ident C b) (newPublisher C a) RecordExpiresAt = Inr sig"
    using s(3) abc(1) by (simp add: ident_def)
  have w: "length weak = 8" using insufficientPoW_fails [OF s(2)] by simp
  from hand_verdict [OF ready_laws [OF abc(5)] abc(2,4,3) fx_times(3) w _ _ sig, of 2]
  have verdict: "always C recs (render (envelopeMembers (hand_envelope 2 (p_lookupID (newPublisher C b)) (newPublisher C a)
      RecordExpiresAt weak sig))) RecordBadVersion"
    by (simp add: ident_def)
  show ?thesis using assms(1) s abc(1)
    by (auto simp: order_four_def Let_def returns_def case_simps intro!: ready_put [OF abc(5) verdict])
qed

lemma order_limiter_ready:
  assumes "order_limiter C g = Inr g'" "ready C N recs (Suc n) g"
  shows "ready C N recs n g'"
proof -
  from assms(1) obtain ps g1 weak sig body where s: "take_publishers C 1 g = Inr (ps, g1)"
    "insufficientPoW C (p_lookupID (ps ! 0)) Now = Some weak"
    "hand_signature C (ps ! 0) (p_lookupID (ps ! 0)) (ps ! 0) Now = Inr sig"
    "padTo (envelopeMembers (hand_envelope 2 (p_lookupID (ps ! 0)) (ps ! 0) Now weak sig)) (fx_MaxRecordBytes + 1) = Inr body"
    by (auto simp: order_limiter_def andThen_Inr Let_def)
  obtain a where a: "ps = [newPublisher C a]" "ready C N recs n g1" using drawn_1 [OF s(1) assms(2)] by metis
  show ?thesis using assms(1) s
    by (auto simp: order_limiter_def Let_def returns_def case_simps refused_put intro!: ready_add [OF a(2)] suits_limits_of_one [OF a(2)])
qed

section \<open>Every fixture of a publish\<close>

lemma order_ready:
  assumes "buildOrderFixtures C ctx overLimit g = Inr g'" "ready C N recs (n + 11) g" "length overLimit = 4097"
  shows "ready C N recs n g'"
proof -
  have start: "ready C N recs (n + 11) (order_size overLimit g)" by (rule order_size_ready [OF assms(2,3)])
  from assms(1) obtain g1 g2 g3 g4 g5 g6 where s: "order_lookup C ctx (order_size overLimit g) = Inr g1"
    "order_signature C ctx g1 = Inr g2" "order_three C g2 = Inr g3" "order_four C g3 = Inr g4" "order_limiter C g4 = Inr g5"
    "order_blunt C ctx g5 = Inr g6" "order_expired_replay C ctx g6 = Inr g'"
    by (auto simp: buildOrderFixtures_def andThen_Inr)
  have "ready C N recs (n + 9) g1" using order_lookup_ready [OF s(1), of N recs "n + 9"] start by (simp add: eval_nat_numeral)
  then have "ready C N recs (n + 8) g2" using order_signature_ready [OF s(2), of N recs "n + 8"] by (simp add: eval_nat_numeral)
  then have "ready C N recs (n + 6) g3" using order_three_ready [OF s(3), of N recs "n + 6"] by (simp add: eval_nat_numeral)
  then have "ready C N recs (n + 3) g4" using order_four_ready [OF s(4), of N recs "n + 3"] by (simp add: eval_nat_numeral)
  then have "ready C N recs (n + 2) g5" using order_limiter_ready [OF s(5), of N recs "n + 2"] by (simp add: eval_nat_numeral)
  then have "ready C N recs n g6" using order_blunt_ready [OF s(6), of N recs n] by (simp add: eval_nat_numeral)
  then show ?thesis by (rule order_expired_replay_ready [OF s(7)])
qed

lemma records_ready:
  assumes "buildRecordFixtures C ctx g = Inr g'" "ready C N recs (n + 23) g"
  shows "ready C N recs n g'"
proof -
  from assms(1) obtain body g1 overLimit g2 mm g3 g4 g5 g6 g7 g8 g9 where s: "put_accepted C ctx g = Inr (body, g1)"
    "put_sizes C ctx (put_limited body (put_content_types body g1)) = Inr (overLimit, g2)" "put_malformed C ctx g2 = Inr (mm, g3)"
    "put_ttl C ctx (put_bad_version mm g3) = Inr g4" "put_mismatch C ctx g4 = Inr g5" "put_pow C ctx g5 = Inr g6"
    "put_signature C ctx g6 = Inr g7" "put_expired C ctx g7 = Inr g8" "put_recency C ctx g8 = Inr g9"
    "buildOrderFixtures C ctx overLimit g9 = Inr g'"
    by (auto simp: buildRecordFixtures_def andThen_Inr)
  have 1: "ready C N recs (n + 22) g1" "always C recs body RecordAccepted"
    using accepted_ready [OF s(1), of N recs "n + 22"] assms(2) by (simp_all add: eval_nat_numeral)
  have "ready C N recs (n + 22) (put_limited body (put_content_types body g1))"
    by (rule put_limited_ready [OF content_types_ready [OF 1]])
  then have 2: "ready C N recs (n + 21) g2" "length overLimit = 4097"
    using sizes_ready [OF s(2), of N recs "n + 21"] by (simp_all add: eval_nat_numeral)
  have "ready C N recs (n + 20) (put_bad_version mm g3)"
    using malformed_ready [OF s(3), of N recs "n + 20"] 2(1) by (simp add: eval_nat_numeral)
  then have "ready C N recs (n + 18) g4" using ttl_ready [OF s(4), of N recs "n + 18"] by (simp add: eval_nat_numeral)
  then have "ready C N recs (n + 16) g5" using mismatch_ready [OF s(5), of N recs "n + 16"] by (simp add: eval_nat_numeral)
  then have "ready C N recs (n + 15) g6" using pow_ready [OF s(6), of N recs "n + 15"] by (simp add: eval_nat_numeral)
  then have "ready C N recs (n + 13) g7" using signature_ready [OF s(7), of N recs "n + 13"] by (simp add: eval_nat_numeral)
  then have "ready C N recs (n + 11) g8" using expired_ready [OF s(8), of N recs "n + 11"] by (simp add: eval_nat_numeral)
  then have "ready C N recs (n + 11) g9" by (rule recency_ready [OF s(9)])
  then show ?thesis by (rule order_ready [OF s(10) _ 2(2)])
qed

end
