(* ===== verification/Conform_Generate.thy ===== *)
theory Conform_Generate imports Conform_Order begin

text \<open>
  The fixtures of lookups, signal channels and preflights, and the whole file: every fixture the
  generator emits passes on the directory.
\<close>

section \<open>Lookups\<close>

lemma suits_get:
  assumes "ready C N recs n g" "fc_instance c = []" "fc_prior c = []"
    and "answers C recs (Some (loaded_signal C)) (fc_request c) (fc_expect c)"
  shows "suits C recs (fixture_of c)"
  using assms by (intro suits_loaded(1) [OF ready_laws [OF assms(1)]]) (auto simp: fixture_of_def)

lemma answered_queries:
  assumes "initial_ok C recs"
  shows "answers C recs sig (getRecord ''bits=0'') (expectRecords (recordsBody recs))"
    "answers C recs sig (getRecord ''prefix=&bits=0'') (expectRecords (recordsBody recs))"
    "answers C recs sig (getRecord ''prefix=8&bits=1'') (expectRecords (recordsBody recs))"
    "answers C recs sig (getRecord ''prefix=f&bits=1'') (expectRecords (recordsBody recs))"
    "answers C recs sig (getRecord ''prefix=F&bits=1'') (expectRecords (recordsBody recs))"
    "answers C recs sig (getRecord ''prefix=0&bits=1'') (expectRecords (recordsBody []))"
    "answers C recs sig (getRecord ''prefix=7&bits=1'') (expectRecords (recordsBody []))"
  by (rule answers_records [OF assms asked(1) initial_filters(1) [OF assms]]
    answers_records [OF assms asked(2) initial_filters(1) [OF assms]]
    answers_records [OF assms asked(3) initial_filters(2) [OF assms]]
    answers_records [OF assms asked(4) initial_filters(3) [OF assms]]
    answers_records [OF assms asked(5) initial_filters(3) [OF assms]]
    answers_records [OF assms asked(6) initial_filters(4) [OF assms]]
    answers_records [OF assms asked(7) initial_filters(5) [OF assms]])+

lemma rejections_suit:
  assumes "ready C N recs n g" "r \<in> set (rejections cap)"
  shows "suits C recs (fixture_of (rejection_case r))"
proof -
  have "fst (snd (snd r)) \<in> set (map (\<lambda>r. fst (snd (snd r))) (rejections cap))" using assms(2) by (simp only: set_map) (rule imageI)
  then have "refused_query (fst (snd (snd r)))"
    using rejected_refused unfolding rejections_queries by (simp add: list_all_iff)
  note refused = answers_refused [OF ready_laws(2) [OF assms(1)] this]
  show ?thesis
    using refused by (cases r) (auto simp: rejection_case_def case_simps intro: suits_get [OF assms(1)])
qed

lemma lookup_ready:
  assumes "buildLookupFixtures g = Inr g'" "ready C N recs n g"
  shows "ready C N recs n g'"
proof -
  let ?all = "recordsBody recs" and ?cap = "capNote (length recs)"
  have init: "g_initial g = recs" using assms(2) by (simp add: ready_def)
  from assms(1) have g': "g' = get_limited (add_all (map rejection_case (rejections ?cap))
      (get_empty (recordsBody []) (get_prefixes ?cap ?all (get_bits_zero ?all g))))"
    by (auto simp: buildLookupFixtures_def andThen_Inr init Let_def split: if_splits)
  note answered = answered_queries [OF ready_laws(2) [OF assms(2)]]
  note get = suits_get [OF assms(2)]
  have 1: "ready C N recs n (get_bits_zero ?all g)" unfolding get_bits_zero_def
    by (intro ready_add assms(2); rule get; simp add: case_simps answered)
  have 2: "ready C N recs n (get_prefixes ?cap ?all (get_bits_zero ?all g))" unfolding get_prefixes_def
    by (intro ready_add 1; rule get; simp add: case_simps answered)
  have 3: "ready C N recs n (get_empty (recordsBody []) (get_prefixes ?cap ?all (get_bits_zero ?all g)))" unfolding get_empty_def
    by (intro ready_add 2; rule get; simp add: case_simps answered)
  have "\<forall>c \<in> set (map rejection_case (rejections ?cap)). suits C recs (fixture_of c)"
    using rejections_suit [OF assms(2)] by auto
  note 4 = ready_add_all [OF 3 this]
  show ?thesis unfolding g' get_limited_def
    by (intro ready_add 4, rule suits_limits_of_one [OF assms(2)]) (simp_all add: case_simps refused_get)
qed

section \<open>Signal channels\<close>

text \<open>The spellings of a channel that are no identifier, and their paths.\<close>

lemma nc_alphabet_path: "list_all (\<lambda>c. c \<noteq> CHR ''/'' \<and> c \<noteq> CHR ''%'' \<and> c \<noteq> CHR ''.'') nc_alphabet"
  by (simp add: nc_alphabet_def)

lemma bad_spellings:
  assumes "apart C N" "g_freeChannel g = channelID C 3"
  shows "decodeChannelID (paddedChannel g) = None" "plain_path (paddedChannel g)"
    "decodeChannelID (nonCanonicalChannel g) = None" "plain_path (nonCanonicalChannel g)"
    "decodeChannelID (butlast (channelID C 3)) = None" "plain_path (butlast (channelID C 3))"
proof -
  let ?key = "channel_key C 3"
  have key: "channelID C 3 = b64_Encode ?key" "length ?key = 32"
    using key_length [OF assms(1)] by (simp_all add: channelID_def channel_key_def)
  have "padded (b64_Encode ?key) = Inr (b64_Encode ?key @ ''='')" by (simp add: padded_def key)
  then have p: "paddedChannel g = b64_Encode ?key @ ''=''" by (simp add: paddedChannel_def assms(2) key(1))
  show "decodeChannelID (paddedChannel g) = None" by (simp add: p decodeChannelID_def)
  show "plain_path (paddedChannel g)" using b64_path [of ?key] by (simp add: p plain_path_def)
  have "length ?key mod 3 = 2" by (simp add: key(2))
  from nonCanonical_refused [OF this] obtain s where s: "nonCanonical (b64_Encode ?key) = Inr s" "b64_Decode s = None"
    "length s = length (b64_Encode ?key)" by blast
  then have nc: "nonCanonicalChannel g = s" by (simp add: nonCanonicalChannel_def assms(2) key(1))
  show "decodeChannelID (nonCanonicalChannel g) = None"
  proof (cases "decodeChannelID s")
    case (Some k)
    then have "b64_Decode s = Some k" by (auto simp: decodeChannelID_def b64_DecodeFixed_Inr split: sum.splits if_splits)
    with s(2) show ?thesis by simp
  qed (simp add: nc)
  obtain c where sc: "s = butlast (b64_Encode ?key) @ [c]" "c \<in> set nc_alphabet"
    using nonCanonical_last [OF s(1)] by blast
  have ne: "b64_Encode ?key \<noteq> []" using channelID_length [OF assms(1), of 3] by (cases "b64_Encode ?key") (simp_all add: key(1))
  show "plain_path (nonCanonicalChannel g)" 
    using sc(2) nc_alphabet_path list_all_butlast [OF b64_path [of ?key]] by (simp add: nc sc(1) plain_path_def list_all_iff)
  have short: "length (butlast (channelID C 3)) = 42" using channelID_length [OF assms(1)] by simp
  then show "decodeChannelID (butlast (channelID C 3)) = None" by (simp add: decodeChannelID_def ChannelIDChars_def)
  have "butlast (channelID C 3) \<noteq> []" using short by (cases "butlast (channelID C 3)") (simp_all del: length_butlast)
  then show "plain_path (butlast (channelID C 3))"
    using list_all_butlast [OF b64_path [of ?key]] by (simp add: key(1) plain_path_def)
qed

lemma signal_blob_bytes: "Body_Bytes signal_blob = Inr [0x00, 0x10, 0x20, 0xff]"
  by (simp add: signal_blob_def)

lemma post_answer:
  assumes "plain_path ch" "Body_Bytes w = Inr b" "length b \<le> 65537"
    and "fst (signal_Post 0 ch b (seconds Now) sg) = reason" "SignalReason_HTTPStatus reason = st"
  shows "answers C recs (Some sg) (postSignal ch w) (expectStatus st)"
  using answers_post [OF signal_like_simps(1) [OF assms(2,3,1)] assms(4)] assms(5) by simp

lemma poll_answer:
  assumes "plain_path ch" "reason \<noteq> SignalDelivered" "SignalReason_HTTPStatus reason = st"
    and "case Get_start ch (seconds Now) sg of (Returned blob' reason', sg') \<Rightarrow> blob' = None \<and> reason' = reason
      | (Waits w, sg') \<Rightarrow> fst (Get_finish w WokenByTimer sg') = Returned None reason"
  shows "answers C recs (Some sg) (getSignal ch) (expectStatus st)"
proof -
  have "meets invariant_notes (expectStatus st) (answered (signal_reply None reason))"
    using assms(2,3) by (simp add: signal_reply_def flip: answered_status)
  from answers_poll [OF signal_like_simps(2) [OF assms(1)] this assms(4)] show ?thesis .
qed

lemma held_answer:
  assumes "apart C N"
  shows "answers C recs (Some (loaded_signal C)) (getSignal (channelID C 1)) (expectBlob heldBlob)"
proof -
  have "bytes_of_string (string_of_bytes heldBlob) = heldBlob" by (rule bytes_of_string_of_bytes)
  then have "meets invariant_notes (expectBlob heldBlob) (answered (signal_reply (Some heldBlob) SignalDelivered))"
    by (simp add: signal_reply_def meets_def expectBlob_def expectStatus_def answered_def with_headers_def invariant_notes_def
      header_is_def header_absent_def status_defs)
  from answers_poll [OF signal_like_simps(2) [OF channelID_path [OF assms]] this polls_loaded(1) [OF assms]] show ?thesis .
qed

lemma suits_disabled:
  assumes "ready C N recs n g" "fc_instance c = InstanceSignalDisabled" "fc_prior c = []"
    and "answers C recs None (fc_request c) (fc_expect c)"
  shows "suits C recs (fixture_of c)"
  using assms by (intro suits_loaded(2) [OF ready_laws [OF assms(1)]]) (auto simp: fixture_of_def instance_names)

lemma suits_draining:
  assumes "ready C N recs n g" "fc_instance c = InstanceDraining" "fc_prior c = []"
    and "answers C recs (Some (signal_Shutdown (loaded_signal C))) (fc_request c) (fc_expect c)"
  shows "suits C recs (fixture_of c)"
  using assms by (intro suits_loaded(3) [OF ready_laws [OF assms(1)]]) (auto simp: fixture_of_def instance_names)

lemma suits_disabled_limited:
  assumes "ready C N recs n g" "fc_instance c = InstanceDisabledAndLimited" "length (fc_prior c) = 1" "pr_Repeat (hd (fc_prior c)) = 1"
    and "refused_after C (fresh_server instance_disabled_limited) (pr_Request (hd (fc_prior c))) (pr_ExpectStatus (hd (fc_prior c)))
      (fc_request c) (fc_expect c)"
  shows "suits C recs (fixture_of c)"
  using suits_limited(2) [OF ready_laws [OF assms(1)], of "fixture_of c" "hd (fc_prior c)"] assms(2-5)
  by (cases "fc_prior c") (simp_all add: fixture_of_def instance_names)

lemma ready_channels:
  assumes "ready C N recs n g"
  shows "g_heldChannel g = channelID C 1" "g_expiredChannel g = channelID C 2" "g_freeChannel g = channelID C 3"
    "g_sizeChannel g = channelID C 4" "g_heldBlob g = heldBlob"
  using assms by (simp_all add: ready_def)

lemma signal_post_ready:
  assumes "ready C N recs n g"
  shows "ready C N recs n (signal_post g)"
proof -
  have C: "apart C N" by (rule ready_laws(1) [OF assms])
  note path = channelID_path [OF C]
  have conflict: "answers C recs (Some (loaded_signal C)) (postSignal (channelID C 1) signal_blob) (expectStatus 409)"
    by (rule post_answer [OF path signal_blob_bytes _ posts_loaded(1) [OF C]]) (simp_all add: status_defs)
  have large: "answers C recs (Some (loaded_signal C)) (postSignal (channelID C 3) (repeated_body 0x61 (MaxBlobBytes + 1))) (expectStatus 413)"
    by (rule post_answer [OF path _ _ posts_loaded(5) [OF C, of "replicate 65537 0x61"]]) (simp_all add: status_defs MaxBlobBytes_def)
  have limit: "answers C recs (Some (loaded_signal C)) (postSignal (channelID C 4) (repeated_body 0x61 MaxBlobBytes)) (expectStatus 204)"
    by (rule post_answer [OF path _ _ posts_loaded(4) [OF C, of "replicate 65536 0x61"]]) (simp_all add: status_defs MaxBlobBytes_def)
  have lapsed: "answers C recs (Some (loaded_signal C)) (postSignal (channelID C 2) signal_blob) (expectStatus 204)"
    by (rule post_answer [OF path signal_blob_bytes _ posts_loaded(2) [OF C]]) (simp_all add: status_defs)
  have free: "answers C recs (Some (loaded_signal C)) (postSignal (channelID C 3) signal_blob) (expectStatus 204)"
    by (rule post_answer [OF path signal_blob_bytes _ posts_loaded(3) [OF C]]) (simp_all add: status_defs)
  show ?thesis unfolding signal_post_def
    by (intro ready_add assms; rule suits_get [OF assms])
      (simp_all add: case_simps ready_channels [OF assms] conflict [simplified] large limit lapsed free)
qed

lemma bad_channels_ready:
  assumes "ready C N recs n g" "g_freeChannel h = channelID C 3"
  shows "ready C N recs n (add_all (map bad_channel_case (badChannels h)) g)"
proof -
  have C: "apart C N" by (rule ready_laws(1) [OF assms(1)])
  note bad = bad_spellings [OF C assms(2)]
  have refused: "answers C recs (Some (loaded_signal C)) (postSignal ch signal_blob) (expectStatus 400)"
    if "plain_path ch" "decodeChannelID ch = None" for ch
    by (rule post_answer [OF that(1) signal_blob_bytes _ posts_loaded(6) [OF C that(2)]]) (simp_all add: status_defs)
  have "suits C recs (fixture_of (bad_channel_case c))" if "c \<in> set (badChannels h)" for c
    using that refused [OF bad(2,1)] refused [OF bad(4,3)] refused [OF short_channel]
    by (auto simp: badChannels_def bad_channel_case_def case_simps intro!: suits_get [OF assms(1)])
  then show ?thesis by (intro ready_add_all [OF assms(1)]) auto
qed

lemma signal_get_ready:
  assumes "ready C N recs n g"
  shows "ready C N recs n (signal_get g)"
proof -
  have C: "apart C N" by (rule ready_laws(1) [OF assms])
  note bad = bad_spellings [OF C ready_channels(3) [OF assms]]
  have malformed: "answers C recs (Some (loaded_signal C)) (getSignal (butlast (channelID C 3))) (expectStatus 400)"
    by (rule poll_answer [OF bad(6) _ _ polls_loaded(3) [OF C bad(5)]]) (simp_all add: status_defs)
  have empty: "answers C recs (Some (loaded_signal C)) (getSignal (channelID C 3)) (expectStatus 204)"
    by (rule poll_answer [OF channelID_path [OF C] _ _ polls_loaded(2) [OF C]]) (simp_all add: status_defs)
  show ?thesis unfolding signal_get_def
    by (intro ready_add assms; rule suits_get [OF assms])
      (simp_all add: case_simps ready_channels [OF assms] malformed empty held_answer [OF C, simplified])
qed

section \<open>Preflights\<close>

lemma cors_ready:
  assumes "ready C N recs n g"
  shows "ready C N recs n (buildCORSFixtures g)"
proof -
  note answer = answers_preflight [OF ready_laws(1) [OF assms] ready_channels(3) [OF assms]]
  have "suits C recs (fixture_of (preflight_case p))" if "p \<in> set (preflights g)" for p
    by (rule suits_get [OF assms _ _ answer [OF that]]) (simp_all add: preflight_case_def case_simps split: prod.split)
  then show ?thesis unfolding buildCORSFixtures_def by (intro ready_add_all [OF assms]) auto
qed

text \<open>The fixtures of the instances with an allowance of one, without channels, and draining.\<close>

lemma get_order_ready: "ready C N recs n g \<Longrightarrow> ready C N recs n (get_order g)"
  unfolding get_order_def
  by (rule ready_add, assumption, rule suits_limits_of_one) (simp_all add: case_simps refused_get)

lemma too_large_like: "apart C N \<Longrightarrow>
  signal_like ''POST'' (postSignal (channelID C 3) (repeated_body 0x61 (MaxBlobBytes + 1))) (channelID C 3) (replicate 65537 0x61)"
  by (intro signal_like_simps channelID_path) (simp_all add: MaxBlobBytes_def)

lemma signal_blob_like: "plain_path ch \<Longrightarrow> signal_like ''POST'' (postSignal ch signal_blob) ch [0x00, 0x10, 0x20, 0xff]"
  by (intro signal_like_simps signal_blob_bytes) simp_all

lemma signal_order_ready:
  assumes "ready C N recs n g"
  shows "ready C N recs n (signal_order g)"
proof -
  have C: "apart C N" by (rule ready_laws(1) [OF assms])
  note poll = signal_like_simps(2) [OF channelID_path [OF C], of 3]
  note limited = refused_post [OF too_large_like [OF C]] refused_disabled [OF poll]
  note disabled = answers_disabled(1) [OF too_large_like [OF C]] answers_disabled(2) [OF signal_like_simps(2) [OF short_channel(1)]]
  show ?thesis unfolding signal_order_def
    by (intro ready_add assms;
      (rule suits_limits_of_one [OF assms] suits_disabled_limited [OF assms] suits_disabled [OF assms];
        simp add: case_simps spends_signal_def instance_names ready_channels [OF assms] limited disabled; fail))
qed

lemma signal_limited_ready:
  assumes "ready C N recs n g"
  shows "ready C N recs n (signal_limited g)"
proof -
  have C: "apart C N" by (rule ready_laws(1) [OF assms])
  note poll = signal_like_simps(2) [OF channelID_path [OF C], of 3]
  note limited = refused_post [OF signal_blob_like [OF channelID_path [OF C]]] refused_poll [OF poll]
  show ?thesis unfolding signal_limited_def
    by (intro ready_add assms; rule suits_limits_of_one [OF assms];
      simp add: case_simps spends_signal_def instance_names ready_channels [OF assms] limited)
qed

lemma signal_draining_ready:
  assumes "ready C N recs n g"
  shows "ready C N recs n (signal_draining g)"
proof -
  have C: "apart C N" by (rule ready_laws(1) [OF assms])
  let ?sg = "signal_Shutdown (loaded_signal C)"
  have post: "answers C recs (Some ?sg) (postSignal (channelID C 3) signal_blob) (expectStatus 429)"
    by (rule post_answer [OF channelID_path [OF C] signal_blob_bytes _ posts_loaded(7) [OF C]]) (simp_all add: status_defs)
  have poll: "answers C recs (Some ?sg) (getSignal (channelID C 1)) (expectStatus 429)"
    by (rule poll_answer [OF channelID_path [OF C] _ _ polls_loaded(4) [OF C]]) (simp_all add: status_defs)
  show ?thesis unfolding signal_draining_def
    by (intro ready_add assms; rule suits_draining [OF assms];
      simp add: case_simps ready_channels [OF assms] post poll [simplified])
qed

lemma signal_disabled_ready:
  assumes "ready C N recs n g"
  shows "ready C N recs n (signal_disabled g)"
proof -
  have C: "apart C N" by (rule ready_laws(1) [OF assms])
  note post = answers_disabled(1) [OF signal_blob_like [OF channelID_path [OF C]]]
  note poll = answers_disabled(2) [OF signal_like_simps(2) [OF channelID_path [OF C]]]
  show ?thesis unfolding signal_disabled_def
    by (intro ready_add assms; rule suits_disabled [OF assms]; simp add: case_simps ready_channels [OF assms] post poll)
qed

lemma signal_ready:
  assumes "ready C N recs n g"
  shows "ready C N recs n (buildSignalFixtures g)"
  unfolding buildSignalFixtures_def
  by (intro signal_disabled_ready signal_draining_ready signal_limited_ready signal_order_ready get_order_ready signal_get_ready
    bad_channels_ready signal_post_ready assms ready_channels(3) [OF assms])

section \<open>The file\<close>

lemma generated_ready:
  assumes "Generate_fixtures C ctx = Inr g" "apart C N" "63 \<le> length (high_in C 0 N)"
  shows "\<exists>recs. ready C N recs 0 g"
proof -
  from assms(1) obtain g0 g1 g2 where s: "buildInitialState C ctx generator_start = Inr g0"
    "buildRecordFixtures C ctx (buildMetaFixtures g0) = Inr g1" "buildLookupFixtures g1 = Inr g2"
    "g = buildCORSFixtures (buildSignalFixtures g2)"
    by (auto simp: Generate_fixtures_def andThen_Inr)
  have "ready C N (g_initial g0) (0 + 23) g0" using buildInitialState_ready [OF s(1) assms(2), of 23] assms(3) by simp
  from records_ready [OF s(2) meta_ready [OF this]] show ?thesis
    unfolding s(4) by (intro exI cors_ready signal_ready) (rule lookup_ready [OF s(3)])
qed

lemma fixtures_pass:
  assumes "fx_Generate C ctx = Inr file" "apart C N" "63 \<le> length (high_in C 0 N)"
  shows "list_all (passes C file) (fl_Fixtures file)"
proof -
  from assms(1) obtain g cov where g: "Generate_fixtures C ctx = Inr g" "coverage_of coverageRows (g_coverage g) = Inr cov"
    "generator_file g = Inr file" by (auto simp: fx_Generate_def generator_file_def andThen_Inr)
  then have parts: "fl_Fixtures file = g_fixtures g" "fl_Instances file = fx_instances" "fl_ResponseInvariants file = invariant_notes"
    "fl_InitialState file = \<lparr>is_Note = initialStateNotes, is_Records = map initial_record_entry (g_initial g),
          is_SignalChannels = g_channels g\<rparr>"
    by (auto simp: generator_file_def)
  obtain recs where "ready C N recs 0 g" using generated_ready [OF g(1) assms(2,3)] by blast
  then have "list_all (suits C recs) (g_fixtures g)" "g_initial g = recs" "g_channels g = channels_of C"
    by (simp_all add: ready_def)
  then show ?thesis by (simp add: parts passes_def [abs_def] suits_def [abs_def] loaded_state_def)
qed

end
