(* ===== verification/Conform_Succeeds.thy ===== *)
theory Conform_Succeeds imports Conform_Generate begin

text \<open>
  The generator succeeds: with a hash that lets every identifier be solved for and has a counter
  that fails, no step returns an error, and every row of the tables is covered by a fixture.
\<close>

section \<open>Steps that succeed\<close>

definition workable :: "crypto \<Rightarrow> nat \<Rightarrow> bool" where
  "workable C N \<longleftrightarrow>
    (\<forall>i < N. \<forall>e. fx_time e \<longrightarrow>
      (\<exists>w. length w = 8 \<and> pow_Verify C (ident C i) e w fx_PoWBits) \<and>
      (\<exists>w. length w = 8 \<and> \<not> pow_Verify C (ident C i) e w fx_PoWBits))"

lemma solve_succeeds:
  assumes "workable C N" "i < N" "fx_time e" "\<forall>k. \<not> ctx k"
  shows "\<exists>v. pow_Solve C ctx (ident C i) e fx_PoWBits = Inr v"
proof -
  obtain w where w: "length w = 8" "pow_Verify C (ident C i) e w fx_PoWBits" using assms(1-3) by (auto simp: workable_def)
  have range: "0 \<le> fx_PoWBits" "fx_PoWBits \<le> MaxBits" by (simp_all add: fx_PoWBits_def MaxBits_def)
  have w': "be_bytes 8 (be_value w) = w" "be_value w < 2 ^ 64"
    using be_bytes_value [of w] be_value_bound [of w] w(1) by simp_all
  then have "solves C (ident C i) e fx_PoWBits (be_value w)" using w(2) by (simp add: solves_def)
  with solve_from_finds [OF range(1) _ assms(4), of "replicate 8 0" 0 "be_value w" C "ident C i" e] w'(2) range
  show ?thesis by (cases "pow_Solve C ctx (ident C i) e fx_PoWBits") (auto simp: pow_Solve_def pow_Len_def)
qed

lemma weak_succeeds:
  assumes "workable C N" "i < N" "fx_time e"
  shows "\<exists>w. insufficientPoW C (ident C i) e = Some w"
proof -
  obtain w where w: "length w = 8" "\<not> pow_Verify C (ident C i) e w fx_PoWBits" using assms by (auto simp: workable_def)
  then have "be_bytes 8 (be_value w) = w" "be_value w < 2 ^ 64"
    using be_bytes_value [of w] be_value_bound [of w] by simp_all
  with w(2) show ?thesis unfolding insufficientPoW_def by (intro weak_from_returns [of 0 "be_value w"]) simp_all
qed

definition works :: "crypto \<Rightarrow> (nat \<Rightarrow> bool) \<Rightarrow> nat \<Rightarrow> bool" where
  "works C ctx N \<longleftrightarrow> apart C N \<and> workable C N \<and> (\<forall>k. \<not> ctx k)"

lemma pubSolve_succeeds: "works C ctx N \<Longrightarrow> i < N \<Longrightarrow> fx_time e \<Longrightarrow> \<exists>w. pubSolve C ctx (p_lookupID (newPublisher C i)) e = Inr w"
  using solve_succeeds [of C N i e ctx] by (auto simp: works_def pubSolve_def pub_solve_def ident_def)

lemma weak_exists: "works C ctx N \<Longrightarrow> i < N \<Longrightarrow> fx_time e \<Longrightarrow> \<exists>w. insufficientPoW C (p_lookupID (newPublisher C i)) e = Some w"
  using weak_succeeds [of C N i e] by (simp add: works_def ident_def)

lemma signs_value:
  assumes "works C ctx N"
  shows "hand_signature C (newPublisher C j) stated p e =
    Inr (ed_sign C (p_priv (newPublisher C j)) (CanonicalEnvelope (byte_of (nat Version)) stated (p_pub p) e (p_nonce p) (p_ct p)))"
  using publisher_lengths(1) [OF apart_publisher] assms
  by (auto simp: works_def hand_signature_def record_Sign_def signs_def apart_def crypto_laws_def)

lemma envelope_succeeds:
  assumes "works C ctx N" "i < N" "fx_time e"
  shows "\<exists>env. pub_envelope C ctx (newPublisher C i) e = Inr env"
proof -
  have "length (p_priv (newPublisher C i)) = 64"
    using publisher_lengths(1) [OF apart_publisher] assms(1) by (auto simp: works_def apart_def crypto_laws_def)
  with solve_succeeds [of C N i e ctx] assms show ?thesis
    by (auto simp: works_def pub_envelope_def pub_solve_def record_Sign_def signs_def ident_def)
qed

lemma take_succeeds:
  assumes "ready C N recs (n + k) g"
  shows "\<exists>ps g'. take_publishers C k g = Inr (ps, g')"
proof -
  have "N < 2 ^ 32" "g_next g \<le> N" "k \<le> length (high_in C (g_next g) N)" using assms by (auto simp: ready_def apart_def)
  from highPublishers_returns [OF this] show ?thesis by (auto simp: take_publishers_def returns_def)
qed

lemma takes_1:
  assumes "ready C N recs (Suc n) g"
  obtains a g1 where "take_publishers C 1 g = Inr ([newPublisher C a], g1)" "a < N"
proof -
  obtain ps g1 where t: "take_publishers C 1 g = Inr (ps, g1)" using take_succeeds [of C N recs n 1 g] assms by auto
  from drawn_1 [OF t assms] t that show thesis by metis
qed

lemma takes_2:
  assumes "ready C N recs (Suc (Suc n)) g"
  obtains a b g1 where "take_publishers C 2 g = Inr ([newPublisher C a, newPublisher C b], g1)" "a < N" "b < N"
proof -
  obtain ps g1 where t: "take_publishers C 2 g = Inr (ps, g1)" using take_succeeds [of C N recs n 2 g] assms by auto
  from drawn_2 [OF t assms] t that show thesis by metis
qed

lemma takes_3:
  assumes "ready C N recs (Suc (Suc (Suc n))) g"
  obtains a b c g1 where "take_publishers C 3 g = Inr ([newPublisher C a, newPublisher C b, newPublisher C c], g1)" "a < N" "b < N" "c < N"
proof -
  have "ready C N recs (n + 3) g" using assms by (simp add: eval_nat_numeral)
  then obtain ps g1 where t: "take_publishers C 3 g = Inr (ps, g1)" using take_succeeds by blast
  from drawn_3 [OF t assms] t that show thesis by metis
qed

lemma padTo_envelope:
  assumes "works C ctx N" "pub_envelope C ctx (newPublisher C i) RecordExpiresAt = Inr env" "4096 \<le> len"
  shows "\<exists>body. padTo (envelopeMembers env) len = Inr body"
proof -
  obtain w where w: "envelopeMembers env = craft_members C 1 (newPublisher C i) (ident C i) (newPublisher C i) RecordExpiresAt w"
    "parties C (newPublisher C i) (ident C i) (newPublisher C i) w"
    using made_envelope [OF _ assms(2)] assms(1) by (metis works_def)
  have "length (render (envelopeMembers env)) \<le> 400" unfolding w(1) by (rule length_craft_members [OF w(2)]) simp_all
  with padTo_craft(2) [OF w(1), of len] assms(3) show ?thesis by simp
qed

section \<open>The publishes\<close>

lemma accepted_succeeds:
  assumes "works C ctx N" "ready C N recs (Suc n) g"
  shows "\<exists>x. put_accepted C ctx g = Inr x"
proof -
  obtain a g1 where a: "take_publishers C 1 g = Inr ([newPublisher C a], g1)" "a < N" by (rule takes_1 [OF assms(2)])
  with envelope_succeeds [OF assms(1) a(2) fx_times(3)] show ?thesis by (auto simp: put_accepted_def Let_def)
qed

lemma sizes_succeeds:
  assumes "works C ctx N" "ready C N recs (Suc n) g"
  shows "\<exists>x. put_sizes C ctx g = Inr x"
proof -
  obtain a g1 where a: "take_publishers C 1 g = Inr ([newPublisher C a], g1)" "a < N" by (rule takes_1 [OF assms(2)])
  obtain env where env: "pub_envelope C ctx (newPublisher C a) RecordExpiresAt = Inr env"
    using envelope_succeeds [OF assms(1) a(2) fx_times(3)] by blast
  with a padTo_envelope [OF assms(1) env, of 4096] padTo_envelope [OF assms(1) env, of 4097] show ?thesis
    by (auto simp: put_sizes_def Let_def fx_consts)
qed

lemma malformed_succeeds:
  assumes "works C ctx N" "ready C N recs (Suc n) g"
  shows "\<exists>x. put_malformed C ctx g = Inr x"
proof -
  obtain a g1 where a: "take_publishers C 1 g = Inr ([newPublisher C a], g1)" "a < N" by (rule takes_1 [OF assms(2)])
  obtain env where env: "pub_envelope C ctx (newPublisher C a) RecordExpiresAt = Inr env"
    using envelope_succeeds [OF assms(1) a(2) fx_times(3)] by blast
  obtain w where "env = transmitted (crafted C (newPublisher C a) (ident C a) (newPublisher C a) RecordExpiresAt w)"
    using made_envelope [OF _ env] assms(1) by (metis works_def)
  then have "e_LookupID env = b64_Encode (ident C a)" by (simp add: transmitted_def)
  moreover have "length (ident C a) = 32" using assms(1) ident_length by (auto simp: works_def apart_def)
  ultimately have "\<exists>s. padded (e_LookupID env) = Inr s" "\<exists>s. nonCanonical (e_LookupID env) = Inr s"
    using padded_refused [of "ident C a"] nonCanonical_refused [of "ident C a"] by auto
  with a env show ?thesis by (auto simp: put_malformed_def Let_def)
qed

lemma ttl_succeeds:
  assumes "works C ctx N" "ready C N recs (Suc (Suc n)) g"
  shows "\<exists>x. put_ttl C ctx g = Inr x"
proof -
  obtain a b g1 where t: "take_publishers C 2 g = Inr ([newPublisher C a, newPublisher C b], g1)" "a < N" "b < N"
    by (rule takes_2 [OF assms(2)])
  with envelope_succeeds [OF assms(1) t(2) fx_times(6)] envelope_succeeds [OF assms(1) t(3) fx_times(7)]
  show ?thesis by (auto simp: put_ttl_def Let_def)
qed

lemma mismatch_succeeds:
  assumes "works C ctx N" "ready C N recs (Suc (Suc n)) g"
  shows "\<exists>x. put_mismatch C ctx g = Inr x"
proof -
  obtain a b g1 where t: "take_publishers C 2 g = Inr ([newPublisher C a, newPublisher C b], g1)" "a < N" "b < N"
    by (rule takes_2 [OF assms(2)])
  with pubSolve_succeeds [OF assms(1) t(3) fx_times(3)] show ?thesis
    by (auto simp: signs_value [OF assms(1)] put_mismatch_def Let_def)
qed

lemma pow_succeeds:
  assumes "works C ctx N" "ready C N recs (Suc n) g"
  shows "\<exists>x. put_pow C ctx g = Inr x"
proof -
  obtain a g1 where a: "take_publishers C 1 g = Inr ([newPublisher C a], g1)" "a < N" by (rule takes_1 [OF assms(2)])
  with envelope_succeeds [OF assms(1) a(2) fx_times(3)] weak_exists [OF assms(1) a(2) fx_times(3)] show ?thesis
    by (auto simp: put_pow_def Let_def returns_def)
qed

lemma signature_succeeds:
  assumes "works C ctx N" "ready C N recs (Suc (Suc n)) g"
  shows "\<exists>x. put_signature C ctx g = Inr x"
proof -
  obtain a b g1 where t: "take_publishers C 2 g = Inr ([newPublisher C a, newPublisher C b], g1)" "a < N" "b < N"
    by (rule takes_2 [OF assms(2)])
  with envelope_succeeds [OF assms(1) t(2) fx_times(3)] show ?thesis
    by (auto simp: signs_value [OF assms(1)] put_signature_def Let_def)
qed

lemma expired_succeeds:
  assumes "works C ctx N" "ready C N recs (Suc (Suc n)) g"
  shows "\<exists>x. put_expired C ctx g = Inr x"
proof -
  obtain a b g1 where t: "take_publishers C 2 g = Inr ([newPublisher C a, newPublisher C b], g1)" "a < N" "b < N"
    by (rule takes_2 [OF assms(2)])
  with envelope_succeeds [OF assms(1) t(2) fx_times(1)] envelope_succeeds [OF assms(1) t(3) fx_times(2)]
  show ?thesis by (auto simp: put_expired_def Let_def)
qed

lemma recency_succeeds:
  assumes "works C ctx N" "ready C N recs n g"
  shows "\<exists>x. put_recency C ctx g = Inr x"
proof -
  obtain k where k: "recency_target g = Inr (newPublisher C k)" "k < N" "g_recencyExpires g = RecordExpiresAt"
    by (rule ready_recency [OF assms(2)])
  with envelope_succeeds [OF assms(1) k(2) fx_times(3)] envelope_succeeds [OF assms(1) k(2) fx_times(4)]
    envelope_succeeds [OF assms(1) k(2) fx_times(5)]
  show ?thesis by (auto simp: put_recency_def Let_def)
qed

section \<open>The evaluation order\<close>

lemma order_lookup_succeeds:
  assumes "works C ctx N" "ready C N recs (Suc (Suc n)) g"
  shows "\<exists>x. order_lookup C ctx g = Inr x"
proof -
  obtain a b g1 where t: "take_publishers C 2 g = Inr ([newPublisher C a, newPublisher C b], g1)" "a < N" "b < N"
    by (rule takes_2 [OF assms(2)])
  with pubSolve_succeeds [OF assms(1) t(3) fx_times(1)] show ?thesis
    by (auto simp: signs_value [OF assms(1)] order_lookup_def Let_def)
qed

lemma order_signature_succeeds:
  assumes "works C ctx N" "ready C N recs (Suc n) g"
  shows "\<exists>x. order_signature C ctx g = Inr x"
proof -
  obtain a g1 where a: "take_publishers C 1 g = Inr ([newPublisher C a], g1)" "a < N" by (rule takes_1 [OF assms(2)])
  obtain k where k: "recency_target g = Inr (newPublisher C k)" "k < N" "g_recencyExpires g = RecordExpiresAt"
    by (rule ready_recency [OF assms(2)])
  with a pubSolve_succeeds [OF assms(1) k(2) fx_times(3)] show ?thesis
    by (auto simp: signs_value [OF assms(1)] order_signature_def Let_def)
qed

lemma order_three_succeeds:
  assumes "works C ctx N" "ready C N recs (Suc (Suc n)) g"
  shows "\<exists>x. order_three C g = Inr x"
proof -
  obtain a b g1 where t: "take_publishers C 2 g = Inr ([newPublisher C a, newPublisher C b], g1)" "a < N" "b < N"
    by (rule takes_2 [OF assms(2)])
  with weak_exists [OF assms(1) t(2) fx_times(7)] show ?thesis
    by (auto simp: signs_value [OF assms(1)] order_three_def Let_def returns_def)
qed

lemma order_four_succeeds:
  assumes "works C ctx N" "ready C N recs (Suc (Suc (Suc n))) g"
  shows "\<exists>x. order_four C g = Inr x"
proof -
  obtain a b c g1 where t: "take_publishers C 3 g = Inr ([newPublisher C a, newPublisher C b, newPublisher C c], g1)"
    "a < N" "b < N" "c < N" by (rule takes_3 [OF assms(2)])
  with weak_exists [OF assms(1) t(3) fx_times(3)] show ?thesis
    by (auto simp: signs_value [OF assms(1)] order_four_def Let_def returns_def)
qed

lemma order_limiter_succeeds:
  assumes "works C ctx N" "ready C N recs (Suc n) g"
  shows "\<exists>x. order_limiter C g = Inr x"
proof -
  obtain a g1 where a: "take_publishers C 1 g = Inr ([newPublisher C a], g1)" "a < N" by (rule takes_1 [OF assms(2)])
  let ?p = "newPublisher C a"
  obtain weak where weak: "insufficientPoW C (p_lookupID ?p) Now = Some weak"
    using weak_exists [OF assms(1) a(2) fx_times(1)] by blast
  obtain sig where sig: "hand_signature C ?p (p_lookupID ?p) ?p Now = Inr sig" using signs_value [OF assms(1)] by blast
  have ok: "publisher_ok C ?p" "crypto_laws C" "length (p_lookupID ?p) = 32"
    using assms(1) apart_publisher ident_length [of C a] by (auto simp: works_def apart_def ident_def)
  then have parties: "parties C ?p (p_lookupID ?p) ?p weak"
    using insufficientPoW_fails [OF weak] by (simp add: parties_def)
  have ms: "envelopeMembers (hand_envelope 2 (p_lookupID ?p) ?p Now weak sig) = craft_members C 2 ?p (p_lookupID ?p) ?p Now weak"
    by (rule hand_envelope_craft [OF sig])
  have "\<exists>body. padTo (envelopeMembers (hand_envelope 2 (p_lookupID ?p) ?p Now weak sig)) 4097 = Inr body"
    using padTo_craft(2) [OF ms, of 4097] length_craft_members [OF parties fx_times(1), of 2] by (simp add: ms)
  with a weak sig show ?thesis by (auto simp: order_limiter_def Let_def returns_def fx_consts)
qed

lemma order_blunt_succeeds:
  assumes "works C ctx N" "ready C N recs (Suc (Suc n)) g"
  shows "\<exists>x. order_blunt C ctx g = Inr x"
proof -
  obtain a b g1 where t: "take_publishers C 2 g = Inr ([newPublisher C a, newPublisher C b], g1)" "a < N" "b < N"
    by (rule takes_2 [OF assms(2)])
  with weak_exists [OF assms(1) t(2) fx_times(3)] show ?thesis
    by (auto simp: signs_value [OF assms(1)] order_blunt_def Let_def returns_def)
qed

lemma order_expired_replay_succeeds:
  assumes "works C ctx N" "ready C N recs n g"
  shows "\<exists>x. order_expired_replay C ctx g = Inr x"
proof -
  obtain k where k: "recency_target g = Inr (newPublisher C k)" "k < N" by (rule ready_recency [OF assms(2)])
  with pubSolve_succeeds [OF assms(1) k(2) fx_times(1)] show ?thesis
    by (auto simp: signs_value [OF assms(1)] order_expired_replay_def Let_def)
qed

lemma order_succeeds:
  assumes "works C ctx N" "ready C N recs (n + 11) g" "length overLimit = 4097"
  shows "\<exists>x. buildOrderFixtures C ctx overLimit g = Inr x"
proof -
  have "ready C N recs (Suc (Suc (n + 9))) (order_size overLimit g)"
    using order_size_ready [OF assms(2,3)] by (simp add: eval_nat_numeral)
  with order_lookup_succeeds [OF assms(1)] order_lookup_ready
  obtain g1 where 1: "order_lookup C ctx (order_size overLimit g) = Inr g1" "ready C N recs (n + 9) g1" by blast
  then have "ready C N recs (Suc (n + 8)) g1" by (simp add: eval_nat_numeral)
  with order_signature_succeeds [OF assms(1)] order_signature_ready
  obtain g2 where 2: "order_signature C ctx g1 = Inr g2" "ready C N recs (n + 8) g2" by blast
  then have "ready C N recs (Suc (Suc (n + 6))) g2" by (simp add: eval_nat_numeral)
  with order_three_succeeds [OF assms(1)] order_three_ready
  obtain g3 where 3: "order_three C g2 = Inr g3" "ready C N recs (n + 6) g3" by blast
  then have "ready C N recs (Suc (Suc (Suc (n + 3)))) g3" by (simp add: eval_nat_numeral)
  with order_four_succeeds [OF assms(1)] order_four_ready
  obtain g4 where 4: "order_four C g3 = Inr g4" "ready C N recs (n + 3) g4" by blast
  then have "ready C N recs (Suc (n + 2)) g4" by (simp add: eval_nat_numeral)
  with order_limiter_succeeds [OF assms(1)] order_limiter_ready
  obtain g5 where 5: "order_limiter C g4 = Inr g5" "ready C N recs (n + 2) g5" by blast
  then have "ready C N recs (Suc (Suc n)) g5" by (simp add: eval_nat_numeral)
  with order_blunt_succeeds [OF assms(1)] order_blunt_ready
  obtain g6 where 6: "order_blunt C ctx g5 = Inr g6" "ready C N recs n g6" by blast
  with order_expired_replay_succeeds [OF assms(1)] obtain g7 where "order_expired_replay C ctx g6 = Inr g7" by blast
  with 1 2 3 4 5 6 show ?thesis by (simp add: buildOrderFixtures_def)
qed

lemma records_succeeds:
  assumes "works C ctx N" "ready C N recs (n + 23) g"
  shows "\<exists>x. buildRecordFixtures C ctx g = Inr x"
proof -
  have "ready C N recs (Suc (n + 22)) g" using assms(2) by (simp add: eval_nat_numeral)
  with accepted_succeeds [OF assms(1)] accepted_ready
  obtain body g1 where 1: "put_accepted C ctx g = Inr (body, g1)" "ready C N recs (n + 22) g1" "always C recs body RecordAccepted"
    by (metis surj_pair)
  let ?g = "put_limited body (put_content_types body g1)"
  have "ready C N recs (n + 22) ?g" by (rule put_limited_ready [OF content_types_ready [OF 1(2,3)]])
  then have "ready C N recs (Suc (n + 21)) ?g" by (simp add: eval_nat_numeral)
  with sizes_succeeds [OF assms(1)] sizes_ready
  obtain overLimit g2 where 2: "put_sizes C ctx ?g = Inr (overLimit, g2)" "ready C N recs (n + 21) g2" "length overLimit = 4097"
    by (metis surj_pair)
  then have "ready C N recs (Suc (n + 20)) g2" by (simp add: eval_nat_numeral)
  with malformed_succeeds [OF assms(1)] malformed_ready
  obtain mm g3 where 3: "put_malformed C ctx g2 = Inr (mm, g3)" "ready C N recs (n + 20) (put_bad_version mm g3)"
    by (metis surj_pair)
  then have "ready C N recs (Suc (Suc (n + 18))) (put_bad_version mm g3)" by (simp add: eval_nat_numeral)
  with ttl_succeeds [OF assms(1)] ttl_ready
  obtain g4 where 4: "put_ttl C ctx (put_bad_version mm g3) = Inr g4" "ready C N recs (n + 18) g4" by blast
  then have "ready C N recs (Suc (Suc (n + 16))) g4" by (simp add: eval_nat_numeral)
  with mismatch_succeeds [OF assms(1)] mismatch_ready
  obtain g5 where 5: "put_mismatch C ctx g4 = Inr g5" "ready C N recs (n + 16) g5" by blast
  then have "ready C N recs (Suc (n + 15)) g5" by (simp add: eval_nat_numeral)
  with pow_succeeds [OF assms(1)] pow_ready
  obtain g6 where 6: "put_pow C ctx g5 = Inr g6" "ready C N recs (n + 15) g6" by blast
  then have "ready C N recs (Suc (Suc (n + 13))) g6" by (simp add: eval_nat_numeral)
  with signature_succeeds [OF assms(1)] signature_ready
  obtain g7 where 7: "put_signature C ctx g6 = Inr g7" "ready C N recs (n + 13) g7" by blast
  then have "ready C N recs (Suc (Suc (n + 11))) g7" by (simp add: eval_nat_numeral)
  with expired_succeeds [OF assms(1)] expired_ready
  obtain g8 where 8: "put_expired C ctx g7 = Inr g8" "ready C N recs (n + 11) g8" by blast
  with recency_succeeds [OF assms(1)] recency_ready
  obtain g9 where 9: "put_recency C ctx g8 = Inr g9" "ready C N recs (n + 11) g9" by blast
  with order_succeeds [OF assms(1) _ 2(3)] obtain g10 where "buildOrderFixtures C ctx overLimit g9 = Inr g10" by blast
  with 1 2 3 4 5 6 7 8 9 show ?thesis by (simp add: buildRecordFixtures_def)
qed

section \<open>The initial state and the checks on it\<close>

lemma initial_records_succeeds:
  assumes "works C ctx N" "\<forall>i \<in> set js. i < N"
  shows "\<exists>g'. initial_records C ctx k (map (newPublisher C) js) g = Inr g'"
  using assms(2)
proof (induction js arbitrary: k g)
  case (Cons j js)
  then obtain env where "pub_envelope C ctx (newPublisher C j) RecordExpiresAt = Inr env"
    using envelope_succeeds [OF assms(1) _ fx_times(3), of j] by auto
  with Cons show ?case by (simp add: Let_def)
qed simp

lemma initial_succeeds:
  assumes "works C ctx N" "40 \<le> length (high_in C 0 N)"
  shows "\<exists>g. buildInitialState C ctx generator_start = Inr g"
proof -
  have "N < 2 ^ 32" using assms(1) by (simp add: works_def apart_def)
  from highPublishers_returns [OF this _ assms(2)] obtain j where
    j: "j \<le> N" "highPublishers C 0 40 = Some (map (newPublisher C) (high_in C 0 j), j)" by auto
  then have "\<forall>i \<in> set (high_in C 0 j). i < N" by (auto simp: high_in_set)
  with initial_records_succeeds [OF assms(1), of "high_in C 0 j" 0 "generator_start\<lparr>g_next := j\<rparr>"] j(2)
  show ?thesis by (auto simp: buildInitialState_def returns_def InitialRecordCount_def KMin_def Let_def)
qed

definition adversarial_ok :: "storedRecord \<Rightarrow> bool" where
  "adversarial_ok r \<longleftrightarrow> (fr_id r = ''record-adversarial-formatting'' \<longrightarrow> checkAdversarialRecord (fr_body r) = None)"

lemma record_id_ordinary: "record_id i \<noteq> ''record-adversarial-formatting''"
proof -
  obtain c s where "show_nat i = c # s" "is_digit c"
    using show_nat_digits [of i] show_nat_canonical [of i] by (cases "show_nat i") auto
  then show ?thesis by (auto simp: record_id_def is_digit_def)
qed

lemma adversarial_initial:
  assumes "initial_records C ctx i ps g = Inr g'" "\<forall>p \<in> set ps. publisher_ok C p" "crypto_laws C"
    and "list_all adversarial_ok (g_initial g)"
  shows "list_all adversarial_ok (g_initial g')"
  using assms(1,2,4)
proof (induction ps arbitrary: i g)
  case (Cons p ps)
  then obtain env where env: "pub_envelope C ctx p RecordExpiresAt = Inr env" by (auto simp: andThen_Inr)
  have "publisher_ok C p" using Cons.prems(2) by simp
  note bodies = pub_envelope_bodies [OF env this assms(3)]
  have "adversarial_ok (initial_record_of i p env)"
    using adversarial_check [OF bodies(1,4)] record_id_ordinary [of i]
    by (auto simp: adversarial_ok_def initial_record_of_def)
  moreover let ?g = "if i = 2 then g\<lparr>g_recency := Some p, g_recencyExpires := RecordExpiresAt\<rparr> else g"
  let ?h = "?g\<lparr>g_initial := g_initial ?g @ [initial_record_of i p env]\<rparr>"
  have "initial_records C ctx (i + 1) ps ?h = Inr g'" using Cons.prems(1) env by (simp add: Let_def)
  ultimately show ?case using Cons.IH [of "i + 1" ?h] Cons.prems(2,3) by simp
qed simp

lemma adversarial_state:
  assumes "buildInitialState C ctx generator_start = Inr g" "apart C N" "40 \<le> length (high_in C 0 N)"
  shows "check_adversarial (g_initial g) = None"
proof -
  from assms(1) obtain pubs k g1 where p: "highPublishers C 0 (nat InitialRecordCount) = Some (pubs, k)"
    "initial_records C ctx 0 pubs (generator_start\<lparr>g_next := k\<rparr>) = Inr g1" "g_initial g = sortStored (g_initial g1)"
    by (auto simp: buildInitialState_def andThen_Inr Let_def)
  have "N < 2 ^ 32" using assms(2) by (simp add: apart_def)
  from highPublishers_returns [OF this _ assms(3)] p(1) have "\<forall>p \<in> set pubs. publisher_ok C p"
    using apart_publisher [OF assms(2)] by (auto simp: InitialRecordCount_def KMin_def)
  from adversarial_initial [OF p(2) this] assms(2) have "list_all adversarial_ok (g_initial g1)"
    by (simp add: apart_def generator_start_def)
  then have "filter (\<lambda>e. e \<noteq> None) (map (\<lambda>r. checkAdversarialRecord (fr_body r))
       (filter (\<lambda>r. fr_id r = ''record-adversarial-formatting'') (g_initial g))) = []"
    by (auto simp: p(3) sortStored_def filter_empty_conv list_all_iff adversarial_ok_def)
  then show ?thesis by (simp only: check_adversarial_def list.case)
qed

lemma identifiers_check:
  "distinct (map fr_lookup recs) \<Longrightarrow> list_all (\<lambda>r. high_bit (fr_lookup r) \<and> length (fr_lookup r) = 32) recs \<Longrightarrow>
    set seen \<inter> fr_lookup ` set recs = {} \<Longrightarrow> check_identifiers seen recs = None"
  by (induction recs arbitrary: seen) auto

lemma identifiers_state: "initial_ok C recs \<Longrightarrow> checkDistinctIdentifiers recs = None"
  unfolding checkDistinctIdentifiers_def by (rule identifiers_check) (auto simp: initial_ok_def list_all_iff)

section \<open>The lookups' own checks\<close>

lemma lookup_succeeds:
  assumes "ready C N recs n g"
  shows "\<exists>x. buildLookupFixtures g = Inr x"
proof -
  have recs: "initial_ok C recs" "g_initial g = recs" using assms by (simp_all add: ready_def)
  then have "\<forall>r \<in> set recs. length (fr_lookup r) = 32" by (simp add: initial_ok_def list_all_iff)
  then have match: "matchingRecords recs p 1 = (case query_Parse p True (show_nat 1) True 1 of
       Inl e \<Rightarrow> Inl (if e = ReasonPrefixLength then PrefixChars else PrefixHex)
     | Inr q \<Rightarrow> Inr (filter (\<lambda>r. query_Matches q (fr_lookup r)) recs))" for p
    by (intro matchingRecords_Parse) simp_all
  have "show_nat 1 = ''1''" by code_simp
  then have parse: "query_Parse ''8'' True (show_nat 1) True 1 = Inr (first_bit 0x80)" "query_Parse ''0'' True (show_nat 1) True 1 = Inr (first_bit 0)"
    by (simp_all add: query_Parse_def ParseUint32_def is_digit_def digits_value_def LookupIDBits_def nibble_def byte_of_def first_bit_def)
  have "matchingRecords recs ''8'' 1 = Inr recs" "matchingRecords recs ''0'' 1 = Inr []"
    by (simp_all only: match parse sum.case initial_filters [OF recs(1)])
  then show ?thesis by (simp add: buildLookupFixtures_def recs(2) Let_def)
qed

end
