(* ===== verification/Conform_Coverage.thy ===== *)
theory Conform_Coverage imports Conform_Succeeds begin

text \<open>
  Which rows of the tables the groups of fixtures cover, and the two statements about the
  generator as a whole: it returns a file, and the directory passes every fixture of it.
\<close>

section \<open>Rows covered\<close>

definition covers :: "(string, string list) gomap \<Rightarrow> string set" where
  "covers m = {k. \<exists>x xs. map_of m k = Some (x # xs)}"

definition covered :: "generator \<Rightarrow> string set" where
  "covered g = covers (g_coverage g)"

lemma covers_cover: "covers (cover rows i m) = covers m \<union> set rows"
proof (induction rows arbitrary: m)
  case (Cons row rows)
  let ?fids = "(case map_of m row of None \<Rightarrow> [] | Some fids \<Rightarrow> fids) @ [i]"
  have "?fids \<noteq> []" by simp
  then obtain x xs where "?fids = x # xs" by (cases ?fids) auto
  then have "covers (map_put row ?fids m) = insert row (covers m)"
    by (auto simp: covers_def)
  then show ?case by (simp add: Cons.IH)
qed simp

lemma covered_add [simp]: "covered (add c g) = covered g \<union> set (fc_rows c)"
  by (simp add: covered_def add_def covers_cover)

lemma covered_add_all: "covered (add_all cs g) = covered g \<union> (\<Union>c \<in> set cs. set (fc_rows c))"
  by (induction cs arbitrary: g) auto

lemma covered_take: "take_publishers C k g = Inr (ps, g') \<Longrightarrow> covered g' = covered g"
  by (auto simp: take_publishers_def andThen_Inr covered_def)

lemma coverage_succeeds: "fst ` set rows \<subseteq> covers m \<Longrightarrow> \<exists>out. coverage_of rows m = Inr out"
  by (induction rows) (auto simp: covers_def)

lemma covered_accepted: "put_accepted C ctx g = Inr (b, g') \<Longrightarrow> covered g' = insert ''5.2/accepted'' (covered g)"
  by (clarsimp simp: put_accepted_def andThen_Inr Let_def covered_take zero_case_def)

lemma covered_content_types: "covered (put_content_types b g) = insert ''5.2/content-type'' (covered g)"
  by (simp add: put_content_types_def covered_add_all contentTypes_def zero_case_def)

lemma covered_limited: "covered (put_limited b g) = insert ''5.2/rate-limited'' (covered g)"
  by (simp add: put_limited_def zero_case_def)

lemma covered_sizes:
  "put_sizes C ctx g = Inr (b, g') \<Longrightarrow> covered g' = insert ''5.2/too-large'' (insert ''5.2/accepted'' (covered g))"
  by (clarsimp simp: put_sizes_def andThen_Inr Let_def covered_take zero_case_def)

lemma covered_malformed_cases:
  "(\<Union>c \<in> set (map malformed_case (malformed_bodies mm p q r)). set (fc_rows c)) = {''5.2/malformed''}"
proof -
  have "set (fc_rows (malformed_case m)) = {''5.2/malformed''}" for m by (simp add: malformed_case_def zero_case_def)
  moreover have "set (malformed_bodies mm p q r) \<noteq> {}" by (simp add: malformed_bodies_def)
  ultimately show ?thesis by simp
qed

lemma covered_malformed: "put_malformed C ctx g = Inr (mm, g') \<Longrightarrow> covered g' = insert ''5.2/malformed'' (covered g)"
  by (auto simp: put_malformed_def andThen_Inr Let_def covered_take covered_add_all covered_malformed_cases simp del: set_map)

lemma covered_bad_version: "covered (put_bad_version mm g) = insert ''5.2/bad-version'' (covered g)"
  by (simp add: put_bad_version_def zero_case_def)

lemma covered_ttl:
  "put_ttl C ctx g = Inr g' \<Longrightarrow> covered g' = insert ''5.2/ttl-too-long'' (insert ''5.2/accepted'' (covered g))"
  by (clarsimp simp: put_ttl_def andThen_Inr Let_def covered_take zero_case_def)

lemma covered_mismatch: "put_mismatch C ctx g = Inr g' \<Longrightarrow> covered g' = insert ''5.2/lookup-mismatch'' (covered g)"
  by (clarsimp simp: put_mismatch_def andThen_Inr Let_def covered_take zero_case_def)

lemma covered_pow: "put_pow C ctx g = Inr g' \<Longrightarrow> covered g' = insert ''5.2/pow'' (covered g)"
  by (clarsimp simp: put_pow_def andThen_Inr Let_def covered_take zero_case_def)

lemma covered_signature: "put_signature C ctx g = Inr g' \<Longrightarrow> covered g' = insert ''5.2/sig'' (covered g)"
  by (clarsimp simp: put_signature_def andThen_Inr Let_def covered_take zero_case_def)

lemma covered_expired: "put_expired C ctx g = Inr g' \<Longrightarrow> covered g' = insert ''5.2/expired'' (covered g)"
  by (clarsimp simp: put_expired_def andThen_Inr Let_def covered_take zero_case_def)

lemma covered_recency:
  "put_recency C ctx g = Inr g' \<Longrightarrow> covered g' = insert ''5.2/accepted'' (insert ''5.2/not-newer'' (covered g))"
  by (clarsimp simp: put_recency_def andThen_Inr Let_def covered_take zero_case_def)

lemma covered_order:
  "buildOrderFixtures C ctx b g = Inr g' \<Longrightarrow>
    covered g' = insert ''5.2/order'' (insert ''5.2/rate-limited'' (insert ''5.2/order'' (insert ''5.2/too-large'' (covered g))))"
  by (clarsimp simp: buildOrderFixtures_def order_size_def order_lookup_def order_signature_def order_three_def order_four_def
    order_limiter_def order_blunt_def order_expired_replay_def andThen_Inr Let_def covered_take zero_case_def)

definition record_rows :: "string set" where
  "record_rows = {''5.2/accepted'', ''5.2/rate-limited'', ''5.2/too-large'', ''5.2/malformed'', ''5.2/bad-version'', ''5.2/ttl-too-long'',
     ''5.2/lookup-mismatch'', ''5.2/pow'', ''5.2/sig'', ''5.2/expired'', ''5.2/not-newer'', ''5.2/order'', ''5.2/content-type''}"

lemma covered_records: "buildRecordFixtures C ctx g = Inr g' \<Longrightarrow> covered g \<union> record_rows \<subseteq> covered g'"
  by (clarsimp simp: buildRecordFixtures_def andThen_Inr covered_accepted covered_content_types covered_limited covered_sizes
    covered_malformed covered_bad_version covered_ttl covered_mismatch covered_pow covered_signature covered_expired
    covered_recency covered_order record_rows_def subset_insertI2)

lemma covered_meta: "covered (buildMetaFixtures g) = insert ''5.1/signal-false'' (insert ''5.1/meta'' (covered g))"
  by (simp add: buildMetaFixtures_def zero_case_def)

lemma subset_Un_rest: "A \<union> B \<subseteq> D \<Longrightarrow> A \<union> B \<union> X \<union> Y \<subseteq> Y \<union> (D \<union> X)"
  by blast

lemma subset_Un_chain:
  "A \<union> P \<subseteq> B \<Longrightarrow> B \<union> Q \<subseteq> D \<Longrightarrow> D \<union> R \<subseteq> E \<Longrightarrow> E \<union> S \<subseteq> F \<Longrightarrow> A \<union> P \<union> Q \<union> R \<union> S \<subseteq> F"
  by blast

lemma covered_rejections:
  "(\<Union>c \<in> set (map rejection_case (rejections cap)). set (fc_rows c)) =
    {''5.3/over-precise'', ''5.3/bits-required'', ''5.3/bits-lexical'', ''5.3/bits-max-256'', ''5.3/prefix-hex'', ''5.3/prefix-length'',
     ''5.3/repeated-parameter''}"
proof -
  have rows: "fc_rows (rejection_case r) = snd (snd (snd (snd r)))" for r
    by (simp add: rejection_case_def zero_case_def split: prod.split)
  have "map (\<lambda>r. snd (snd (snd (snd r)))) (rejections cap) = map (\<lambda>k. [k])
    [''5.3/over-precise'', ''5.3/bits-required'', ''5.3/bits-lexical'', ''5.3/bits-lexical'', ''5.3/bits-lexical'', ''5.3/bits-max-256'',
     ''5.3/prefix-hex'', ''5.3/prefix-length'', ''5.3/prefix-length'', ''5.3/prefix-length'', ''5.3/repeated-parameter'',
     ''5.3/repeated-parameter'']"
    by (simp add: rejections_def)
  from arg_cong [OF this, of "\<lambda>xs. \<Union> (set ` set xs)"] show ?thesis by (simp add: rows image_image comp_def) auto
qed

text \<open>The rows of the lookups, of the signal channels and of the preflights, group by group.\<close>

definition lookup_rows :: "string set" where
  "lookup_rows = {''5.2/verbatim'', ''5.3/match'', ''5.3/empty-result'', ''5.3/mask-padding-bits'', ''5.3/uppercase'', ''5.3/bits-zero'',
    ''5.3/content-type''}"

definition rejected_rows :: "string set" where
  "rejected_rows = {''5.3/over-precise'', ''5.3/bits-required'', ''5.3/bits-lexical'', ''5.3/bits-max-256'', ''5.3/prefix-hex'',
    ''5.3/prefix-length'', ''5.3/repeated-parameter''}"

definition post_rows :: "string set" where
  "post_rows = {''5.4/post-stored'', ''5.4/post-too-large'', ''5.4/post-conflict''}"

definition poll_rows :: "string set" where
  "poll_rows = {''5.4/get-delivered'', ''5.4/octet-stream'', ''5.4/get-empty'', ''5.4/get-bad-channel'', ''5.3/order''}"

definition refusal_rows :: "string set" where
  "refusal_rows = {''5.4/rate-limited'', ''5.4/draining'', ''5.4/disabled'', ''5.4/order''}"

definition preflight_rows :: "string set" where
  "preflight_rows = {''5.5/preflight'', ''5.5/allow-origin'', ''5.5/no-credentials''}"

lemma covered_lookup:
  assumes "buildLookupFixtures g = Inr g'"
  shows "covered g \<union> lookup_rows \<union> rejected_rows \<union> {''5.3/rate-limited''} \<subseteq> covered g'"
proof -
  let ?all = "recordsBody (g_initial g)" and ?cap = "capNote (length (g_initial g))"
  let ?h = "get_empty (recordsBody []) (get_prefixes ?cap ?all (get_bits_zero ?all g))"
  from assms have g': "g' = get_limited (add_all (map rejection_case (rejections ?cap)) ?h)"
    by (auto simp: buildLookupFixtures_def andThen_Inr Let_def split: if_splits)
  have "covered (get_limited h) = insert ''5.3/rate-limited'' (covered h)" for h by (simp add: get_limited_def zero_case_def)
  then have limited: "covered (get_limited h) = {''5.3/rate-limited''} \<union> covered h" for h by simp
  have "covered g \<union> lookup_rows \<subseteq> covered ?h"
    by (simp add: get_empty_def get_prefixes_def get_bits_zero_def zero_case_def lookup_rows_def subset_insertI2)
  then show ?thesis unfolding g' limited covered_add_all covered_rejections rejected_rows_def [symmetric] by (rule subset_Un_rest)
qed

lemma covered_signal:
  "covered g \<union> post_rows \<union> {''5.4/post-bad-channel''} \<union> poll_rows \<union> refusal_rows \<subseteq> covered (buildSignalFixtures g)"
proof -
  let ?g1 = "signal_post g" let ?g2 = "add_all (map bad_channel_case (badChannels g)) ?g1"
  let ?g3 = "get_order (signal_get ?g2)"
  have 1: "covered g \<union> post_rows \<subseteq> covered ?g1"
    by (simp add: signal_post_def zero_case_def post_rows_def subset_insertI2)
  have 2: "covered ?g1 \<union> {''5.4/post-bad-channel''} \<subseteq> covered ?g2"
    by (simp add: covered_add_all badChannels_def bad_channel_case_def zero_case_def subset_insertI2)
  have 3: "covered ?g2 \<union> poll_rows \<subseteq> covered ?g3"
    by (simp add: signal_get_def get_order_def zero_case_def poll_rows_def subset_insertI2)
  have 4: "covered h \<union> refusal_rows \<subseteq> covered (signal_disabled (signal_draining (signal_limited (signal_order h))))" for h
    by (simp add: signal_order_def signal_limited_def signal_draining_def signal_disabled_def zero_case_def refusal_rows_def subset_insertI2)
  show ?thesis unfolding buildSignalFixtures_def by (rule subset_Un_chain [OF 1 2 3 4])
qed

lemma covered_cors: "covered g \<union> preflight_rows \<subseteq> covered (buildCORSFixtures g)"
  by (simp add: buildCORSFixtures_def covered_add_all preflights_def preflight_case_def zero_case_def preflight_rows_def subset_insertI2)

lemma coverage_keys:
  "map fst coverageRows =
    [''5.1/meta'', ''5.1/signal-false'', ''5.2/accepted'', ''5.2/rate-limited'', ''5.2/too-large'', ''5.2/malformed'', ''5.2/bad-version'',
     ''5.2/ttl-too-long'', ''5.2/lookup-mismatch'', ''5.2/pow'', ''5.2/sig'', ''5.2/expired'', ''5.2/not-newer'', ''5.2/order'',
     ''5.2/content-type'', ''5.2/verbatim'', ''5.3/match'', ''5.3/empty-result'', ''5.3/mask-padding-bits'', ''5.3/uppercase'',
     ''5.3/bits-zero'', ''5.3/over-precise'', ''5.3/bits-required'', ''5.3/bits-lexical'', ''5.3/bits-max-256'', ''5.3/prefix-hex'',
     ''5.3/prefix-length'', ''5.3/repeated-parameter'', ''5.3/content-type'', ''5.3/order'', ''5.3/rate-limited'', ''5.4/post-stored'',
     ''5.4/post-bad-channel'', ''5.4/post-too-large'', ''5.4/post-conflict'', ''5.4/get-delivered'', ''5.4/get-empty'',
     ''5.4/get-bad-channel'', ''5.4/rate-limited'', ''5.4/draining'', ''5.4/disabled'', ''5.4/octet-stream'', ''5.4/order'',
     ''5.5/preflight'', ''5.5/allow-origin'', ''5.5/no-credentials'']"
  by (simp add: coverageRows_def)

section \<open>The generator as a whole\<close>

lemma generates:
  assumes "works C ctx N" "63 \<le> length (high_in C 0 N)"
  shows "\<exists>file. fx_Generate C ctx = Inr file"
proof -
  have C: "apart C N" using assms(1) by (simp add: works_def)
  obtain g0 where 0: "buildInitialState C ctx generator_start = Inr g0"
    using initial_succeeds [OF assms(1)] assms(2) by auto
  then have r0: "ready C N (g_initial g0) (0 + 23) g0" using buildInitialState_ready [OF 0 C, of 23] assms(2) by simp
  note r1 = meta_ready [OF this]
  from records_succeeds [OF assms(1) this] obtain g1 where 1: "buildRecordFixtures C ctx (buildMetaFixtures g0) = Inr g1" by blast
  from lookup_succeeds [OF records_ready [OF 1 r1]] obtain g2 where 2: "buildLookupFixtures g1 = Inr g2" by blast
  let ?g = "buildCORSFixtures (buildSignalFixtures g2)"
  have checks: "checkDistinctIdentifiers (g_initial g0) = None" "check_adversarial (g_initial g0) = None"
    using identifiers_state [OF ready_laws(2) [OF r0]] adversarial_state [OF 0 C] assms(2) by simp_all
  have sub: "covered g1 \<subseteq> covered g2" "covered g2 \<subseteq> covered (buildSignalFixtures g2)" "covered (buildSignalFixtures g2) \<subseteq> covered ?g"
    using covered_lookup [OF 2] covered_signal [of g2] covered_cors [of "buildSignalFixtures g2"] by simp_all
  have "fst ` set coverageRows = set (map fst coverageRows)" by simp
  also have "\<dots> \<subseteq> ({''5.1/meta'', ''5.1/signal-false''} \<union> record_rows) \<union>
      (lookup_rows \<union> rejected_rows \<union> {''5.3/rate-limited''}) \<union> (post_rows \<union> {''5.4/post-bad-channel''} \<union> poll_rows \<union> refusal_rows) \<union>
      preflight_rows"
    unfolding coverage_keys
    by (simp add: record_rows_def lookup_rows_def rejected_rows_def post_rows_def poll_rows_def refusal_rows_def preflight_rows_def)
  also have "\<dots> \<subseteq> covered ?g"
  proof (intro Un_least)
    have "covered (buildMetaFixtures g0) \<union> record_rows \<subseteq> covered g1" by (rule covered_records [OF 1])
    then have "insert ''5.1/signal-false'' (insert ''5.1/meta'' (covered g0)) \<union> record_rows \<subseteq> covered g1" unfolding covered_meta .
    then have r: "{''5.1/meta'', ''5.1/signal-false''} \<subseteq> covered g1" "record_rows \<subseteq> covered g1" by simp_all
    note up = subset_trans [OF _ sub(3)]
    note up' = up [OF subset_trans [OF _ sub(2)]]
    show "{''5.1/meta'', ''5.1/signal-false''} \<subseteq> covered ?g" by (rule up' [OF subset_trans [OF r(1) sub(1)]])
    show "record_rows \<subseteq> covered ?g" by (rule up' [OF subset_trans [OF r(2) sub(1)]])
    have l: "lookup_rows \<subseteq> covered g2" "rejected_rows \<subseteq> covered g2" "{''5.3/rate-limited''} \<subseteq> covered g2"
      using covered_lookup [OF 2] by simp_all
    show "lookup_rows \<subseteq> covered ?g" by (rule up' [OF l(1)])
    show "rejected_rows \<subseteq> covered ?g" by (rule up' [OF l(2)])
    show "{''5.3/rate-limited''} \<subseteq> covered ?g" by (rule up' [OF l(3)])
    have p: "post_rows \<subseteq> covered (buildSignalFixtures g2)" "{''5.4/post-bad-channel''} \<subseteq> covered (buildSignalFixtures g2)"
      "poll_rows \<subseteq> covered (buildSignalFixtures g2)" "refusal_rows \<subseteq> covered (buildSignalFixtures g2)"
      using covered_signal [of g2] by simp_all
    show "post_rows \<subseteq> covered ?g" by (rule up [OF p(1)])
    show "{''5.4/post-bad-channel''} \<subseteq> covered ?g" by (rule up [OF p(2)])
    show "poll_rows \<subseteq> covered ?g" by (rule up [OF p(3)])
    show "refusal_rows \<subseteq> covered ?g" by (rule up [OF p(4)])
    show "preflight_rows \<subseteq> covered ?g" using covered_cors by (simp only: Un_subset_iff)
  qed
  finally obtain cov where "coverage_of coverageRows (g_coverage ?g) = Inr cov"
    using coverage_succeeds unfolding covered_def by blast
  with 0 1 2 checks show ?thesis
    by (simp add: fx_Generate_def Generate_fixtures_def generator_file_def fails_def)
qed

end
