(* ===== verification/Fixture_Shape.thy ===== *)
theory Fixture_Shape imports Fixture_File "HOL-Library.Sublist" begin

text \<open>
  The shape of a generated file, whatever the keys are: the identifiers of its fixtures, the
  instance each is driven against, the conditions it names and the status it expects, in the
  order they are emitted; and that the rows of the coverage table list fixtures of the file.
\<close>

section \<open>What a fixture states\<close>

type_synonym claim = "string \<times> string \<times> string list \<times> string \<times> int"

definition claim_of :: "fixture \<Rightarrow> claim" where
  "claim_of f = (f_ID f, f_Instance f, f_Conditions f, f_ExpectFirst f, ex_Status (f_Expect f))"

definition log :: "generator \<Rightarrow> claim list" where
  "log g = map claim_of (g_fixtures g)"

lemma log_add [simp]: "log (add c g) = log g @ [claim_of (fixture_of c)]"
  by (simp add: log_def add_def)

lemma log_add_all: "log (add_all cs g) = log g @ map (\<lambda>c. claim_of (fixture_of c)) cs"
  by (induction cs g rule: add_all.induct) simp_all

lemma log_take: "take_publishers C k g = Inr (ps, g') \<Longrightarrow> log g' = log g"
  by (auto simp: take_publishers_def andThen_Inr log_def)

lemma claim_case:
  "claim_of (fixture_of c) = (fc_id c, if fc_instance c = [] then InstanceDefault else fc_instance c, fc_conditions c, fc_first c,
    ex_Status (fc_expect c))"
  by (simp add: claim_of_def fixture_of_def)

lemma expected_status [simp]: "ex_Status (expectStatus st) = st" "ex_Status (expectRecords b) = 200"
  "ex_Status (expectMeta b) = 200" "ex_Status (expectBlob bs) = 200"
  by (simp_all add: expectStatus_def expectRecords_def expectMeta_def expectBlob_def)

lemmas log_simps = andThen_Inr Let_def log_take zero_case_def claim_case instance_names

abbreviation default_claim :: "string \<Rightarrow> string list \<Rightarrow> string \<Rightarrow> int \<Rightarrow> claim" where
  "default_claim i cs first st \<equiv> (i, ''default'', cs, first, st)"

section \<open>Group by group\<close>

lemma log_meta: "log (buildMetaFixtures g) = log g @
  [default_claim ''meta-200-all-seven-members'' [] condAccepted 200,
   (''meta-200-signal-disabled'', ''signal-disabled'', [], condAccepted, 200)]"
  by (simp add: buildMetaFixtures_def log_simps)

lemma log_accepted: "put_accepted C ctx g = Inr (b, g') \<Longrightarrow> log g' = log g @ [default_claim ''record-put-204-accepted'' [] condAccepted 204]"
  by (clarsimp simp: put_accepted_def log_simps)

lemma log_content_types: "log (put_content_types b g) = log g @
  [default_claim ''record-put-204-content-type-vendor'' [] condAccepted 204,
   default_claim ''record-put-204-content-type-json'' [] condAccepted 204,
   default_claim ''record-put-204-content-type-unrecognised'' [] condAccepted 204,
   default_claim ''record-put-204-content-type-absent'' [] condAccepted 204]"
  by (simp add: put_content_types_def contentTypes_def log_simps)

lemma log_limited: "log (put_limited b g) = log g @
  [(''record-put-429-rate-limited'', ''limits-of-one'', [condRateLimited], condRateLimited, 429)]"
  by (simp add: put_limited_def log_simps)

lemma log_sizes: "put_sizes C ctx g = Inr (b, g') \<Longrightarrow> log g' = log g @
  [default_claim ''record-put-204-at-size-limit'' [] condAccepted 204,
   default_claim ''record-put-413-over-size-limit'' [condTooLarge] condTooLarge 413]"
  by (clarsimp simp: put_sizes_def log_simps)

lemma log_malformed: "put_malformed C ctx g = Inr (mm, g') \<Longrightarrow> log g' = log g @
  map (\<lambda>i. default_claim i [condMalformed] condMalformed 400)
   [''record-put-400-not-json'', ''record-put-400-empty-body'', ''record-put-400-not-an-object'',
    ''record-put-400-required-member-absent'', ''record-put-400-explicit-null'', ''record-put-400-padded-base64url'',
    ''record-put-400-non-canonical-base64url'', ''record-put-400-wrong-decoded-length'', ''record-put-400-duplicate-member'']"
proof -
  have "map (\<lambda>c. claim_of (fixture_of c)) (map malformed_case (malformed_bodies mm p q r)) =
      map (\<lambda>i. default_claim i [condMalformed] condMalformed 400) (map fst (malformed_bodies mm p q r))" for p q r
    by (simp add: malformed_case_def log_simps comp_def)
  moreover have "map fst (malformed_bodies mm p q r) =
   [''record-put-400-not-json'', ''record-put-400-empty-body'', ''record-put-400-not-an-object'',
    ''record-put-400-required-member-absent'', ''record-put-400-explicit-null'', ''record-put-400-padded-base64url'',
    ''record-put-400-non-canonical-base64url'', ''record-put-400-wrong-decoded-length'', ''record-put-400-duplicate-member'']" for p q r
    by (simp add: malformed_bodies_def)
  ultimately show "put_malformed C ctx g = Inr (mm, g') \<Longrightarrow> ?thesis"
    by (auto simp: put_malformed_def andThen_Inr Let_def log_take log_add_all simp del: list.map map_map)
qed

lemma log_bad_version: "log (put_bad_version mm g) = log g @ [default_claim ''record-put-400-bad-version'' [condBadVersion] condBadVersion 400]"
  by (simp add: put_bad_version_def log_simps)

lemma log_ttl: "put_ttl C ctx g = Inr g' \<Longrightarrow> log g' = log g @
  [default_claim ''record-put-204-at-ttl-skew-grace'' [] condAccepted 204,
   default_claim ''record-put-400-ttl-too-long'' [condTTLTooLong] condTTLTooLong 400]"
  by (clarsimp simp: put_ttl_def log_simps)

lemma log_mismatch: "put_mismatch C ctx g = Inr g' \<Longrightarrow> log g' = log g @
  [default_claim ''record-put-403-lookup-mismatch'' [condLookupMismatch] condLookupMismatch 403]"
  by (clarsimp simp: put_mismatch_def log_simps)

lemma log_pow: "put_pow C ctx g = Inr g' \<Longrightarrow> log g' = log g @
  [default_claim ''record-put-403-pow-insufficient'' [condPoWInsufficient] condPoWInsufficient 403]"
  by (clarsimp simp: put_pow_def log_simps)

lemma log_signature: "put_signature C ctx g = Inr g' \<Longrightarrow> log g' = log g @
  [default_claim ''record-put-403-sig-invalid'' [condSigInvalid] condSigInvalid 403]"
  by (clarsimp simp: put_signature_def log_simps)

lemma log_expired: "put_expired C ctx g = Inr g' \<Longrightarrow> log g' = log g @
  [default_claim ''record-put-409-expires-at-equals-now'' [condExpired] condExpired 409,
   default_claim ''record-put-409-expires-at-in-the-past'' [condExpired] condExpired 409]"
  by (clarsimp simp: put_expired_def log_simps)

lemma log_recency: "put_recency C ctx g = Inr g' \<Longrightarrow> log g' = log g @
  [default_claim ''record-put-409-not-newer-equal'' [condNotNewer] condNotNewer 409,
   default_claim ''record-put-409-not-newer-older'' [condNotNewer] condNotNewer 409,
   default_claim ''record-put-204-newer-replaces'' [] condAccepted 204]"
  by (clarsimp simp: put_recency_def log_simps)

lemma log_order: "buildOrderFixtures C ctx b g = Inr g' \<Longrightarrow> log g' = log g @
  [default_claim ''record-put-order-413-before-400-malformed'' [condTooLarge, condMalformed] condTooLarge 413,
   default_claim ''record-put-order-403-lookup-before-409-expired'' [condLookupMismatch, condExpired] condLookupMismatch 403,
   default_claim ''record-put-order-403-sig-before-409-not-newer'' [condSigInvalid, condNotNewer] condSigInvalid 403,
   default_claim ''record-put-order-400-ttl-before-403-pow-and-sig'' [condTTLTooLong, condPoWInsufficient, condSigInvalid] condTTLTooLong 400,
   default_claim ''record-put-order-400-version-before-three-403s''
     [condBadVersion, condLookupMismatch, condPoWInsufficient, condSigInvalid] condBadVersion 400,
   (''record-put-order-429-before-everything'', ''limits-of-one'', [condRateLimited, condTooLarge, condBadVersion, condExpired],
     condRateLimited, 429),
   default_claim ''record-put-order-403-pow-and-sig-are-indistinguishable'' [condPoWInsufficient, condSigInvalid] condPoWInsufficient 403,
   default_claim ''record-put-order-409-expired-and-not-newer'' [condExpired, condNotNewer] condExpired 409]"
  by (clarsimp simp: buildOrderFixtures_def order_size_def order_lookup_def order_signature_def order_three_def order_four_def
    order_limiter_def order_blunt_def order_expired_replay_def log_simps)

lemma log_rejections: "map (\<lambda>c. claim_of (fixture_of c)) (map rejection_case (rejections cap)) =
  map (\<lambda>i. default_claim i [] [] 400)
   [''record-get-400-over-precise'', ''record-get-400-bits-absent'', ''record-get-400-bits-leading-zero'',
    ''record-get-400-bits-not-a-number'', ''record-get-400-bits-signed'', ''record-get-400-bits-above-256'',
    ''record-get-400-prefix-not-hex'', ''record-get-400-prefix-too-long'', ''record-get-400-prefix-empty-with-bits'',
    ''record-get-400-prefix-absent-with-bits'', ''record-get-400-repeated-prefix'', ''record-get-400-repeated-bits'']"
proof -
  have "claim_of (fixture_of (rejection_case r)) = default_claim (fst r) [] [] 400" for r
    by (simp add: rejection_case_def log_simps split: prod.split)
  then have "map (\<lambda>c. claim_of (fixture_of c)) (map rejection_case (rejections cap)) =
      map (\<lambda>i. default_claim i [] [] 400) (map fst (rejections cap))" by (simp add: comp_def)
  moreover have "map fst (rejections cap) =
   [''record-get-400-over-precise'', ''record-get-400-bits-absent'', ''record-get-400-bits-leading-zero'',
    ''record-get-400-bits-not-a-number'', ''record-get-400-bits-signed'', ''record-get-400-bits-above-256'',
    ''record-get-400-prefix-not-hex'', ''record-get-400-prefix-too-long'', ''record-get-400-prefix-empty-with-bits'',
    ''record-get-400-prefix-absent-with-bits'', ''record-get-400-repeated-prefix'', ''record-get-400-repeated-bits'']"
    by (simp add: rejections_def)
  ultimately show ?thesis by (simp only:)
qed

lemma log_lookup:
  assumes "buildLookupFixtures g = Inr g'"
  shows "log g' = log g @
  [default_claim ''record-get-200-bits-zero-empty-prefix'' [] condAccepted 200,
   default_claim ''record-get-200-bits-zero-prefix-absent'' [] condAccepted 200,
   default_claim ''record-get-200-prefix-matches'' [] condAccepted 200,
   default_claim ''record-get-200-padding-bits-masked'' [] condAccepted 200,
   default_claim ''record-get-200-uppercase-prefix'' [] condAccepted 200,
   default_claim ''record-get-200-empty-result'' [] condAccepted 200,
   default_claim ''record-get-200-empty-result-padding-bits-masked'' [] condAccepted 200] @
  map (\<lambda>i. default_claim i [] [] 400)
   [''record-get-400-over-precise'', ''record-get-400-bits-absent'', ''record-get-400-bits-leading-zero'',
    ''record-get-400-bits-not-a-number'', ''record-get-400-bits-signed'', ''record-get-400-bits-above-256'',
    ''record-get-400-prefix-not-hex'', ''record-get-400-prefix-too-long'', ''record-get-400-prefix-empty-with-bits'',
    ''record-get-400-prefix-absent-with-bits'', ''record-get-400-repeated-prefix'', ''record-get-400-repeated-bits''] @
  [(''record-get-429-rate-limited'', ''limits-of-one'', [condRateLimited], condRateLimited, 429)]"
proof -
  let ?all = "recordsBody (g_initial g)" and ?cap = "capNote (length (g_initial g))"
  from assms have g': "g' = get_limited (add_all (map rejection_case (rejections ?cap))
      (get_empty (recordsBody []) (get_prefixes ?cap ?all (get_bits_zero ?all g))))"
    by (auto simp: buildLookupFixtures_def andThen_Inr Let_def split: if_splits)
  have "log (get_limited h) = log h @ [(''record-get-429-rate-limited'', ''limits-of-one'', [condRateLimited], condRateLimited, 429)]" for h
    by (simp add: get_limited_def log_simps)
  moreover have "log (get_empty t (get_prefixes c b (get_bits_zero b g))) = log g @
    [default_claim ''record-get-200-bits-zero-empty-prefix'' [] condAccepted 200,
     default_claim ''record-get-200-bits-zero-prefix-absent'' [] condAccepted 200,
     default_claim ''record-get-200-prefix-matches'' [] condAccepted 200,
     default_claim ''record-get-200-padding-bits-masked'' [] condAccepted 200,
     default_claim ''record-get-200-uppercase-prefix'' [] condAccepted 200,
     default_claim ''record-get-200-empty-result'' [] condAccepted 200,
     default_claim ''record-get-200-empty-result-padding-bits-masked'' [] condAccepted 200]" for t c b
    by (simp add: get_empty_def get_prefixes_def get_bits_zero_def log_simps)
  ultimately show ?thesis unfolding g' by (simp only: log_add_all log_rejections append_assoc)
qed

lemma log_signal_post: "log (signal_post g) = log g @
  [default_claim ''signal-post-204-stored'' [] condStored 204,
   default_claim ''signal-post-204-expired-blob-replaced'' [] condStored 204,
   default_claim ''signal-post-204-at-size-limit'' [] condStored 204,
   default_claim ''signal-post-413-too-large'' [condSignalLarge] condSignalLarge 413,
   default_claim ''signal-post-409-first-write-wins'' [condConflict] condConflict 409]"
  by (simp add: signal_post_def log_simps)

lemma log_bad_channels: "map (\<lambda>c. claim_of (fixture_of c)) (map bad_channel_case (badChannels g)) =
  [default_claim ''signal-post-400-channel-too-short'' [condBadChannel] condBadChannel 400,
   default_claim ''signal-post-400-channel-padded'' [condBadChannel] condBadChannel 400,
   default_claim ''signal-post-400-channel-non-canonical'' [condBadChannel] condBadChannel 400]"
  by (simp add: badChannels_def bad_channel_case_def log_simps)

lemma log_signal_get: "log (signal_get g) = log g @
  [default_claim ''signal-get-200-delivered'' [] condDelivered 200,
   default_claim ''signal-get-204-empty'' [] condEmpty 204,
   default_claim ''signal-get-400-bad-channel'' [condBadChannel] condBadChannel 400]"
  by (simp add: signal_get_def log_simps)

lemma log_get_order: "log (get_order g) = log g @
  [(''record-get-order-rate-limited-before-bad-bits'', ''limits-of-one'', [condRateLimited, condMalformed], condRateLimited, 429)]"
  by (simp add: get_order_def log_simps)

lemma log_signal_order: "log (signal_order g) = log g @
  [(''signal-order-disabled-before-rate-limited'', ''signal-disabled-limits-of-one'', [condDisabled, condRateLimited], condDisabled, 404),
   (''signal-order-disabled-before-bad-channel'', ''signal-disabled'', [condDisabled, condBadChannel], condDisabled, 404),
   (''signal-order-disabled-before-too-large'', ''signal-disabled'', [condDisabled, condSignalLarge], condDisabled, 404),
   (''signal-order-rate-limited-before-too-large'', ''limits-of-one'', [condRateLimited, condSignalLarge], condRateLimited, 429)]"
  by (simp add: signal_order_def log_simps)

lemma log_signal_limited: "log (signal_limited g) = log g @
  [(''signal-post-429-rate-limited'', ''limits-of-one'', [condRateLimited], condRateLimited, 429),
   (''signal-get-429-rate-limited'', ''limits-of-one'', [condRateLimited], condRateLimited, 429)]"
  by (simp add: signal_limited_def log_simps)

lemma log_signal_draining: "log (signal_draining g) = log g @
  [(''signal-post-429-draining'', ''draining'', [condRateLimited], condRateLimited, 429),
   (''signal-get-429-draining'', ''draining'', [condRateLimited], condRateLimited, 429)]"
  by (simp add: signal_draining_def log_simps)

lemma log_signal_off: "log (signal_disabled g) = log g @
  [(''signal-post-404-disabled'', ''signal-disabled'', [condDisabled], condDisabled, 404),
   (''signal-get-404-disabled'', ''signal-disabled'', [condDisabled], condDisabled, 404)]"
  by (simp add: signal_disabled_def log_simps)

lemma log_signal: "log (buildSignalFixtures g) = log g @
  [default_claim ''signal-post-204-stored'' [] condStored 204,
   default_claim ''signal-post-204-expired-blob-replaced'' [] condStored 204,
   default_claim ''signal-post-204-at-size-limit'' [] condStored 204,
   default_claim ''signal-post-413-too-large'' [condSignalLarge] condSignalLarge 413,
   default_claim ''signal-post-409-first-write-wins'' [condConflict] condConflict 409,
   default_claim ''signal-post-400-channel-too-short'' [condBadChannel] condBadChannel 400,
   default_claim ''signal-post-400-channel-padded'' [condBadChannel] condBadChannel 400,
   default_claim ''signal-post-400-channel-non-canonical'' [condBadChannel] condBadChannel 400,
   default_claim ''signal-get-200-delivered'' [] condDelivered 200,
   default_claim ''signal-get-204-empty'' [] condEmpty 204,
   default_claim ''signal-get-400-bad-channel'' [condBadChannel] condBadChannel 400,
   (''record-get-order-rate-limited-before-bad-bits'', ''limits-of-one'', [condRateLimited, condMalformed], condRateLimited, 429),
   (''signal-order-disabled-before-rate-limited'', ''signal-disabled-limits-of-one'', [condDisabled, condRateLimited], condDisabled, 404),
   (''signal-order-disabled-before-bad-channel'', ''signal-disabled'', [condDisabled, condBadChannel], condDisabled, 404),
   (''signal-order-disabled-before-too-large'', ''signal-disabled'', [condDisabled, condSignalLarge], condDisabled, 404),
   (''signal-order-rate-limited-before-too-large'', ''limits-of-one'', [condRateLimited, condSignalLarge], condRateLimited, 429),
   (''signal-post-429-rate-limited'', ''limits-of-one'', [condRateLimited], condRateLimited, 429),
   (''signal-get-429-rate-limited'', ''limits-of-one'', [condRateLimited], condRateLimited, 429),
   (''signal-post-429-draining'', ''draining'', [condRateLimited], condRateLimited, 429),
   (''signal-get-429-draining'', ''draining'', [condRateLimited], condRateLimited, 429),
   (''signal-post-404-disabled'', ''signal-disabled'', [condDisabled], condDisabled, 404),
   (''signal-get-404-disabled'', ''signal-disabled'', [condDisabled], condDisabled, 404)]"
  by (simp only: buildSignalFixtures_def Let_def log_signal_off log_signal_draining log_signal_limited log_signal_order log_get_order
    log_signal_get log_add_all log_bad_channels log_signal_post append_assoc append_Cons append_Nil)

lemma log_cors: "log (buildCORSFixtures g) = log g @
  [default_claim ''cors-options-record-preflight'' [] condAccepted 204,
   default_claim ''cors-options-signal-preflight'' [] condAccepted 204]"
  by (simp add: buildCORSFixtures_def preflights_def preflight_case_def log_add_all log_simps)

section \<open>The claims of the file, in order\<close>

definition meta_claims :: "claim list" where
  "meta_claims =
   [default_claim ''meta-200-all-seven-members'' [] condAccepted 200,
    (''meta-200-signal-disabled'', ''signal-disabled'', [], condAccepted, 200)]"

definition record_claims :: "claim list" where
  "record_claims =
   [default_claim ''record-put-204-accepted'' [] condAccepted 204,
    default_claim ''record-put-204-content-type-vendor'' [] condAccepted 204,
    default_claim ''record-put-204-content-type-json'' [] condAccepted 204,
    default_claim ''record-put-204-content-type-unrecognised'' [] condAccepted 204,
    default_claim ''record-put-204-content-type-absent'' [] condAccepted 204,
    (''record-put-429-rate-limited'', ''limits-of-one'', [condRateLimited], condRateLimited, 429),
    default_claim ''record-put-204-at-size-limit'' [] condAccepted 204,
    default_claim ''record-put-413-over-size-limit'' [condTooLarge] condTooLarge 413,
    default_claim ''record-put-400-not-json'' [condMalformed] condMalformed 400,
    default_claim ''record-put-400-empty-body'' [condMalformed] condMalformed 400,
    default_claim ''record-put-400-not-an-object'' [condMalformed] condMalformed 400,
    default_claim ''record-put-400-required-member-absent'' [condMalformed] condMalformed 400,
    default_claim ''record-put-400-explicit-null'' [condMalformed] condMalformed 400,
    default_claim ''record-put-400-padded-base64url'' [condMalformed] condMalformed 400,
    default_claim ''record-put-400-non-canonical-base64url'' [condMalformed] condMalformed 400,
    default_claim ''record-put-400-wrong-decoded-length'' [condMalformed] condMalformed 400,
    default_claim ''record-put-400-duplicate-member'' [condMalformed] condMalformed 400,
    default_claim ''record-put-400-bad-version'' [condBadVersion] condBadVersion 400,
    default_claim ''record-put-204-at-ttl-skew-grace'' [] condAccepted 204,
    default_claim ''record-put-400-ttl-too-long'' [condTTLTooLong] condTTLTooLong 400,
    default_claim ''record-put-403-lookup-mismatch'' [condLookupMismatch] condLookupMismatch 403,
    default_claim ''record-put-403-pow-insufficient'' [condPoWInsufficient] condPoWInsufficient 403,
    default_claim ''record-put-403-sig-invalid'' [condSigInvalid] condSigInvalid 403,
    default_claim ''record-put-409-expires-at-equals-now'' [condExpired] condExpired 409,
    default_claim ''record-put-409-expires-at-in-the-past'' [condExpired] condExpired 409,
    default_claim ''record-put-409-not-newer-equal'' [condNotNewer] condNotNewer 409,
    default_claim ''record-put-409-not-newer-older'' [condNotNewer] condNotNewer 409,
    default_claim ''record-put-204-newer-replaces'' [] condAccepted 204,
    default_claim ''record-put-order-413-before-400-malformed'' [condTooLarge, condMalformed] condTooLarge 413,
    default_claim ''record-put-order-403-lookup-before-409-expired'' [condLookupMismatch, condExpired] condLookupMismatch 403,
    default_claim ''record-put-order-403-sig-before-409-not-newer'' [condSigInvalid, condNotNewer] condSigInvalid 403,
    default_claim ''record-put-order-400-ttl-before-403-pow-and-sig'' [condTTLTooLong, condPoWInsufficient, condSigInvalid] condTTLTooLong 400,
    default_claim ''record-put-order-400-version-before-three-403s'' [condBadVersion, condLookupMismatch, condPoWInsufficient, condSigInvalid] condBadVersion 400,
    (''record-put-order-429-before-everything'', ''limits-of-one'', [condRateLimited, condTooLarge, condBadVersion, condExpired], condRateLimited, 429),
    default_claim ''record-put-order-403-pow-and-sig-are-indistinguishable'' [condPoWInsufficient, condSigInvalid] condPoWInsufficient 403,
    default_claim ''record-put-order-409-expired-and-not-newer'' [condExpired, condNotNewer] condExpired 409]"

definition lookup_claims :: "claim list" where
  "lookup_claims =
   [default_claim ''record-get-200-bits-zero-empty-prefix'' [] condAccepted 200,
    default_claim ''record-get-200-bits-zero-prefix-absent'' [] condAccepted 200,
    default_claim ''record-get-200-prefix-matches'' [] condAccepted 200,
    default_claim ''record-get-200-padding-bits-masked'' [] condAccepted 200,
    default_claim ''record-get-200-uppercase-prefix'' [] condAccepted 200,
    default_claim ''record-get-200-empty-result'' [] condAccepted 200,
    default_claim ''record-get-200-empty-result-padding-bits-masked'' [] condAccepted 200,
    default_claim ''record-get-400-over-precise'' [] [] 400,
    default_claim ''record-get-400-bits-absent'' [] [] 400,
    default_claim ''record-get-400-bits-leading-zero'' [] [] 400,
    default_claim ''record-get-400-bits-not-a-number'' [] [] 400,
    default_claim ''record-get-400-bits-signed'' [] [] 400,
    default_claim ''record-get-400-bits-above-256'' [] [] 400,
    default_claim ''record-get-400-prefix-not-hex'' [] [] 400,
    default_claim ''record-get-400-prefix-too-long'' [] [] 400,
    default_claim ''record-get-400-prefix-empty-with-bits'' [] [] 400,
    default_claim ''record-get-400-prefix-absent-with-bits'' [] [] 400,
    default_claim ''record-get-400-repeated-prefix'' [] [] 400,
    default_claim ''record-get-400-repeated-bits'' [] [] 400,
    (''record-get-429-rate-limited'', ''limits-of-one'', [condRateLimited], condRateLimited, 429)]"

definition signal_claims :: "claim list" where
  "signal_claims =
   [default_claim ''signal-post-204-stored'' [] condStored 204,
    default_claim ''signal-post-204-expired-blob-replaced'' [] condStored 204,
    default_claim ''signal-post-204-at-size-limit'' [] condStored 204,
    default_claim ''signal-post-413-too-large'' [condSignalLarge] condSignalLarge 413,
    default_claim ''signal-post-409-first-write-wins'' [condConflict] condConflict 409,
    default_claim ''signal-post-400-channel-too-short'' [condBadChannel] condBadChannel 400,
    default_claim ''signal-post-400-channel-padded'' [condBadChannel] condBadChannel 400,
    default_claim ''signal-post-400-channel-non-canonical'' [condBadChannel] condBadChannel 400,
    default_claim ''signal-get-200-delivered'' [] condDelivered 200,
    default_claim ''signal-get-204-empty'' [] condEmpty 204,
    default_claim ''signal-get-400-bad-channel'' [condBadChannel] condBadChannel 400,
    (''record-get-order-rate-limited-before-bad-bits'', ''limits-of-one'', [condRateLimited, condMalformed], condRateLimited, 429),
    (''signal-order-disabled-before-rate-limited'', ''signal-disabled-limits-of-one'', [condDisabled, condRateLimited], condDisabled, 404),
    (''signal-order-disabled-before-bad-channel'', ''signal-disabled'', [condDisabled, condBadChannel], condDisabled, 404),
    (''signal-order-disabled-before-too-large'', ''signal-disabled'', [condDisabled, condSignalLarge], condDisabled, 404),
    (''signal-order-rate-limited-before-too-large'', ''limits-of-one'', [condRateLimited, condSignalLarge], condRateLimited, 429),
    (''signal-post-429-rate-limited'', ''limits-of-one'', [condRateLimited], condRateLimited, 429),
    (''signal-get-429-rate-limited'', ''limits-of-one'', [condRateLimited], condRateLimited, 429),
    (''signal-post-429-draining'', ''draining'', [condRateLimited], condRateLimited, 429),
    (''signal-get-429-draining'', ''draining'', [condRateLimited], condRateLimited, 429),
    (''signal-post-404-disabled'', ''signal-disabled'', [condDisabled], condDisabled, 404),
    (''signal-get-404-disabled'', ''signal-disabled'', [condDisabled], condDisabled, 404)]"

definition cors_claims :: "claim list" where
  "cors_claims =
   [default_claim ''cors-options-record-preflight'' [] condAccepted 204,
    default_claim ''cors-options-signal-preflight'' [] condAccepted 204]"

section \<open>The whole file\<close>

lemma initial_log: "initial_records C ctx i ps g = Inr g' \<Longrightarrow> g_fixtures g' = g_fixtures g \<and> g_coverage g' = g_coverage g"
  by (induction C ctx i ps g rule: initial_records.induct) (auto simp: andThen_Inr Let_def split: if_splits)

lemma state_log: "buildInitialState C ctx generator_start = Inr g \<Longrightarrow> g_fixtures g = [] \<and> g_coverage g = []"
  by (auto simp: buildInitialState_def andThen_Inr Let_def generator_start_def dest!: initial_log)

lemma log_records:
  assumes "buildRecordFixtures C ctx g = Inr g'"
  shows "log g' = log g @ record_claims"
proof -
  from assms obtain b g1 big g2 mm g3 g4 g5 g6 g7 g8 g9 where
    "put_accepted C ctx g = Inr (b, g1)" "put_sizes C ctx (put_limited b (put_content_types b g1)) = Inr (big, g2)"
    "put_malformed C ctx g2 = Inr (mm, g3)" "put_ttl C ctx (put_bad_version mm g3) = Inr g4" "put_mismatch C ctx g4 = Inr g5"
    "put_pow C ctx g5 = Inr g6" "put_signature C ctx g6 = Inr g7" "put_expired C ctx g7 = Inr g8" "put_recency C ctx g8 = Inr g9"
    "buildOrderFixtures C ctx big g9 = Inr g'"
    by (auto simp: buildRecordFixtures_def andThen_Inr)
  from log_order [OF this(10)] log_recency [OF this(9)] log_expired [OF this(8)] log_signature [OF this(7)] log_pow [OF this(6)]
    log_mismatch [OF this(5)] log_ttl [OF this(4)] log_malformed [OF this(3)] log_sizes [OF this(2)] log_accepted [OF this(1)]
  show ?thesis
    by (simp only: log_bad_version log_limited log_content_types append_assoc append_Cons append_Nil list.map record_claims_def)
qed

lemma log_generated:
  assumes "Generate_fixtures C ctx = Inr g"
  shows "log g = meta_claims @ record_claims @ lookup_claims @ signal_claims @ cors_claims"
proof -
  from assms obtain g0 g1 g2 where s: "buildInitialState C ctx generator_start = Inr g0"
    "buildRecordFixtures C ctx (buildMetaFixtures g0) = Inr g1" "buildLookupFixtures g1 = Inr g2"
    "g = buildCORSFixtures (buildSignalFixtures g2)"
    by (auto simp: Generate_fixtures_def andThen_Inr)
  have "log g0 = []" using state_log [OF s(1)] by (simp add: log_def)
  with log_meta [of g0] have "log (buildMetaFixtures g0) = meta_claims" by (simp only: meta_claims_def append_Nil)
  with log_records [OF s(2)] have "log g1 = meta_claims @ record_claims" by (simp only:)
  moreover have "log g2 = log g1 @ lookup_claims"
    unfolding log_lookup [OF s(3)] by (simp only: lookup_claims_def append_assoc append_Cons append_Nil list.map)
  moreover have "log (buildSignalFixtures g2) = log g2 @ signal_claims" by (simp only: log_signal signal_claims_def)
  moreover have "log g = log (buildSignalFixtures g2) @ cors_claims" unfolding s(4) by (simp only: log_cors cors_claims_def)
  ultimately show ?thesis by (simp only: append_assoc)
qed

lemmas claims_defs = meta_claims_def record_claims_def lookup_claims_def signal_claims_def cors_claims_def

section \<open>What a claim has to be\<close>

text \<open>The outcome of the reject package that a named condition stands for.\<close>

definition record_reasons :: "(string \<times> RecordReason) list" where
  "record_reasons = zip recordConditionOrder [RecordRateLimited, RecordTooLarge, RecordMalformed, RecordBadVersion, RecordTTLTooLong,
     RecordLookupMismatch, RecordPoWInsufficient, RecordSigInvalid, RecordExpired, RecordNotNewer]"

definition signal_reasons :: "(string \<times> SignalReason) list" where
  "signal_reasons = zip signalConditionOrder [SignalDisabled, SignalRateLimited, SignalBadChannel, SignalTooLarge, SignalConflict]"

definition condition_status :: "(string \<times> int) list" where
  "condition_status = map (map_prod (\<lambda>c. c) RecordReason_HTTPStatus) record_reasons @
     map (map_prod (\<lambda>c. c) SignalReason_HTTPStatus) signal_reasons"

definition claim_typed :: "claim \<Rightarrow> bool" where
  "claim_typed = (\<lambda>(i, inst, cs, first, st).
     inst \<in> set (map in_Name fx_instances) \<and>
     list_ex (subseq cs) [recordConditionOrder, queryConditionOrder, signalConditionOrder] \<and>
     (cs \<noteq> [] \<longrightarrow> first = hd cs \<and> map_of condition_status first = Some st))"

lemma typed_meta: "list_all claim_typed meta_claims"
  by code_simp
lemma typed_record: "list_all claim_typed record_claims"
  by code_simp
lemma typed_lookup: "list_all claim_typed lookup_claims"
  by code_simp
lemma typed_signal: "list_all claim_typed signal_claims"
  by code_simp
lemma typed_cors: "list_all claim_typed cors_claims"
  by code_simp

lemma claims_distinct: "distinct (map fst (meta_claims @ record_claims @ lookup_claims @ signal_claims @ cors_claims))"
  by code_simp

end
