(* ===== verification/Conform_File.thy ===== *)
theory Conform_File imports Conform_Coverage Fixture_Shape begin

text \<open>
  The statements about the generator of API fixtures as a whole, over \<open>fx_Generate\<close>: it returns
  a file, the file is well formed, and the directory passes every fixture of it. The witnesses
  run it on \<open>fixture_crypto\<close>, primitives under which every identifier starts with a 1 bit.
\<close>

section \<open>Primitives for the witnesses\<close>

definition fixture_digest :: "bytes \<Rightarrow> bytes" where
  "fixture_digest m = (if length m = 32 then 0x80 # take 31 m else pad 32 (rev m))"

definition fixture_crypto :: crypto where
  "fixture_crypto = toy_crypto\<lparr>sha256 := fixture_digest\<rparr>"

lemma fixture_crypto_sel [simp]:
  "sha256 fixture_crypto = fixture_digest" "ed_public fixture_crypto = (\<lambda>seed. seed)"
  "ed_sign fixture_crypto = (\<lambda>key m. pad 32 key @ pad 32 m)"
  "ed_verify fixture_crypto = (\<lambda>pub m sig. sig = pad 32 pub @ pad 32 m)"
  by (simp_all add: fixture_crypto_def toy_crypto_def)

lemma length_fixture_digest [simp]: "length (fixture_digest m) = 32"
  by (simp add: fixture_digest_def)

lemma fixture_laws: "crypto_laws fixture_crypto"
  by (auto simp: crypto_laws_def sha256_ok_def ed25519_ok_def NewKeyFromSeed_def pad_def)

lemma fixture_digest_domain:
  assumes "28 < length d"
  shows "fixture_digest (d @ be_bytes 4 i) = rev (be_bytes 4 i) @ take 28 (rev d)"
  using assms by (simp add: fixture_digest_def pad_def)

lemma be_bytes_4_inject: "i < 64 \<Longrightarrow> j < 64 \<Longrightarrow> be_bytes 4 i = be_bytes 4 j \<longleftrightarrow> i = j"
  using be_bytes_inject [of 4 i j] by auto

definition fixture_seed :: "nat \<Rightarrow> bytes" where
  "fixture_seed i = rev (be_bytes 4 i) @ take 28 (rev (bytes_of_string publisherDomain))"

lemma fixture_seed_length [simp]: "length (fixture_seed i) = 32"
  by (simp add: fixture_seed_def publisherDomain_def)

lemma fixture_publisher:
  "p_priv (newPublisher fixture_crypto i) = fixture_seed i @ fixture_seed i"
  "p_pub (newPublisher fixture_crypto i) = fixture_seed i"
  "ident fixture_crypto i = 0x80 # take 31 (fixture_seed i)"
proof -
  have s: "fixture_digest (bytes_of_string publisherDomain @ be_bytes 4 i) = fixture_seed i"
    unfolding fixture_seed_def by (rule fixture_digest_domain) (simp add: publisherDomain_def)
  have "fixture_digest (fixture_seed i) = 0x80 # take 31 (fixture_seed i)" by (simp add: fixture_digest_def)
  with s show "p_priv (newPublisher fixture_crypto i) = fixture_seed i @ fixture_seed i"
    "p_pub (newPublisher fixture_crypto i) = fixture_seed i"
    "ident fixture_crypto i = 0x80 # take 31 (fixture_seed i)"
    by (simp_all add: newPublisher_def Let_def NewKeyFromSeed_def ident_def)
qed

lemma fixture_seed_inject:
  assumes "i < 64" "j < 64" "take 31 (fixture_seed i) = take 31 (fixture_seed j)"
  shows "i = j"
  using assms by (simp add: fixture_seed_def be_bytes_4_inject)

lemma fixture_keys_apart: "keys_apart fixture_crypto 64"
  using fixture_seed_inject by (auto simp: keys_apart_def fixture_publisher pad_def)

lemma fixture_apart: "apart fixture_crypto 64"
  unfolding apart_def
proof (intro conjI)
  show "inj_on (ident fixture_crypto) {..<64}"
    using fixture_seed_inject by (auto intro!: inj_onI simp: fixture_publisher)
  have "channel_key fixture_crypto n = rev (be_bytes 4 n) @ take 28 (rev (bytes_of_string channelDomain))" for n
    unfolding channel_key_def fixture_crypto_sel by (rule fixture_digest_domain) (simp add: channelDomain_def)
  then show "distinct (map (channel_key fixture_crypto) [1, 2, 3, 4])" by (simp add: be_bytes_4_inject)
qed (simp_all add: fixture_laws fixture_keys_apart)

lemma lzb_ge: "n \<le> lzb n b"
proof (induction n b rule: lzb.induct)
  case (2 n b bs)
  then show ?case by (auto simp: LeadingZeros8_def Let_def)
qed simp

lemma eight_zero_bits: "8 \<le> LeadingZeroBits (b # bs) \<longleftrightarrow> b = 0"
  using lzb_ge [of 8 bs] by (auto simp: LeadingZeroBits_def LeadingZeros8_def Let_def not_le unat_eq_0 split: if_splits)

lemma last_be_bytes: "last (be_bytes (Suc n) v) = byte_of (v mod 256)"
  by simp

lemma fixture_pow:
  assumes "length i = 32" "length w = 8"
  shows "pow_Verify fixture_crypto i e w fx_PoWBits \<longleftrightarrow> last w = 0"
proof -
  obtain v b where w: "w = v @ [b]" using assms(2) by (cases w rule: rev_cases) auto
  have "fixture_digest (pow_Input i e w) = b # tl (fixture_digest (pow_Input i e w))"
    using assms by (simp add: fixture_digest_def pow_Input_def pow_Prefix_def pad_def w)
  then have "8 \<le> LeadingZeroBits (fixture_digest (pow_Input i e w)) \<longleftrightarrow> b = 0" by (metis eight_zero_bits)
  with assms(2) show ?thesis by (simp add: pow_Verify_def pow_Len_def fx_PoWBits_def w)
qed

lemma fixture_workable: "workable fixture_crypto 64"
  unfolding workable_def
proof (intro allI impI conjI)
  fix i e
  have i: "length (ident fixture_crypto i) = 32" by (simp add: fixture_publisher)
  show "\<exists>w. length w = 8 \<and> pow_Verify fixture_crypto (ident fixture_crypto i) e w fx_PoWBits"
    by (rule exI [of _ "be_bytes 8 0"]) (simp add: fixture_pow [OF i] last_be_bytes [of 7, simplified] byte_of_def)
  show "\<exists>w. length w = 8 \<and> \<not> pow_Verify fixture_crypto (ident fixture_crypto i) e w fx_PoWBits"
    by (rule exI [of _ "be_bytes 8 1"]) (simp add: fixture_pow [OF i] last_be_bytes [of 7, simplified] byte_of_def)
qed

lemma fixture_works: "works fixture_crypto (\<lambda>k. False) 64"
  by (simp add: works_def fixture_apart fixture_workable)

lemma fixture_candidates: "63 \<le> length (high_in fixture_crypto 0 64)"
proof -
  have "high_bit (p_lookupID (newPublisher fixture_crypto k))" for k
    using fixture_publisher(3) [of k] by (simp add: high_bit_def ident_def)
  then show ?thesis by (simp add: high_in_def)
qed

section \<open>The coverage table\<close>

lemma coverage_of_rows:
  "coverage_of rows m = Inr out \<Longrightarrow>
    map (\<lambda>r. (cr_Table r, cr_Row r, cr_Status r)) out = map snd rows \<and> list_all (\<lambda>r. cr_Fixtures r \<noteq> []) out"
  by (induction rows arbitrary: out) (auto simp: andThen_Inr split: option.splits if_splits)

section \<open>The properties\<close>

text \<open>
  C3. The directory passes its own conformance fixtures. Whatever keys are drawn, as long as the
  primitives behave as documented, the identifiers of the first \<open>N\<close> candidates differ and 63 of
  them start with a 1 bit: when the generator returns a file, then for every fixture of it the
  server of \<open>Service\<close> and \<open>Api\<close>, built from the instance the fixture names, loaded with the
  initial state of the file by the very requests it lists and given the prior requests, answers
  the fixture's request with the status, the headers and the body that the fixture expects, and
  with the headers the file asks of every response.
\<close>

theorem generated_fixtures_pass:
  assumes "fx_Generate C ctx = Inr file" and "apart C N" and "63 \<le> length (high_in C 0 N)"
  shows "list_all (passes C file) (fl_Fixtures file)"
  by (rule fixtures_pass [OF assms])

theorem generated_fixtures_pass_witness:
  "\<exists>file. fx_Generate fixture_crypto (\<lambda>k. False) = Inr file \<and> list_all (passes fixture_crypto file) (fl_Fixtures file)"
  using generates [OF fixture_works fixture_candidates]
    generated_fixtures_pass [OF _ fixture_apart fixture_candidates, of "\<lambda>k. False"] by blast

text \<open>
  C17. The generator succeeds. When in addition a proof of work and a failing one exist for each
  candidate and the search is not cancelled, it returns a file; the table of coverage has the
  normative rows in their order, and none of them is without a fixture.
\<close>

theorem generator_succeeds:
  assumes "works C ctx N" and "63 \<le> length (high_in C 0 N)"
  shows "\<exists>file. fx_Generate C ctx = Inr file \<and>
    map (\<lambda>r. (cr_Table r, cr_Row r, cr_Status r)) (fl_Coverage file) = map snd coverageRows \<and>
    list_all (\<lambda>r. cr_Fixtures r \<noteq> []) (fl_Coverage file)"
proof -
  obtain out where out: "fx_Generate C ctx = Inr out" using generates [OF assms] by blast
  then obtain g where "generator_file g = Inr out" by (auto simp: fx_Generate_def andThen_Inr)
  then have "coverage_of coverageRows (g_coverage g) = Inr (fl_Coverage out)" by (auto simp: generator_file_def andThen_Inr)
  from coverage_of_rows [OF this] out show ?thesis by blast
qed

theorem generator_succeeds_witness:
  "\<exists>file. fx_Generate fixture_crypto (\<lambda>k. False) = Inr file \<and> length (fl_Coverage file) = 46"
proof -
  have "length coverageRows = 46" by (simp add: coverageRows_def)
  moreover obtain out where out: "fx_Generate fixture_crypto (\<lambda>k. False) = Inr out"
    "map (\<lambda>r. (cr_Table r, cr_Row r, cr_Status r)) (fl_Coverage out) = map snd coverageRows"
    using generator_succeeds [OF fixture_works fixture_candidates] by blast
  ultimately have "length (fl_Coverage out) = 46" using map_eq_imp_length_eq [OF out(2)] by (simp only:)
  with out(1) show ?thesis by blast
qed

text \<open>
  C18. A generated file is well formed, whatever the keys: it has 82 fixtures with different
  identifiers; each is driven against one of the instances of the file; the conditions it says
  the request violates are listed in the order of one of the three normative tables; and the
  first of them is the one it expects to be answered, with the status of the \<open>reject\<close> package.
\<close>

theorem generated_file_typed:
  assumes "fx_Generate C ctx = Inr file"
  shows "distinct (map f_ID (fl_Fixtures file)) \<and> length (fl_Fixtures file) = 82 \<and>
    list_all (\<lambda>f. f_Instance f \<in> set (map in_Name (fl_Instances file)) \<and>
      (\<exists>order \<in> {recordConditionOrder, queryConditionOrder, signalConditionOrder}. subseq (f_Conditions f) order) \<and>
      (f_Conditions f \<noteq> [] \<longrightarrow> f_ExpectFirst f = hd (f_Conditions f) \<and>
        map_of condition_status (f_ExpectFirst f) = Some (ex_Status (f_Expect f)))) (fl_Fixtures file)"
proof -
  from assms obtain g where g: "Generate_fixtures C ctx = Inr g" "fl_Fixtures file = g_fixtures g" "fl_Instances file = fx_instances"
    by (auto simp: fx_Generate_def generator_file_def andThen_Inr)
  let ?claims = "meta_claims @ record_claims @ lookup_claims @ signal_claims @ cors_claims"
  have l: "map claim_of (fl_Fixtures file) = ?claims" using log_generated [OF g(1)] by (simp only: log_def g(2))
  have "map f_ID (fl_Fixtures file) = map fst (map claim_of (fl_Fixtures file))" by (simp add: claim_of_def comp_def)
  then have "distinct (map f_ID (fl_Fixtures file))" unfolding l using claims_distinct by (simp only:)
  moreover have "length (map claim_of (fl_Fixtures file)) = 82" unfolding l by (simp add: claims_defs)
  moreover have "list_all claim_typed (map claim_of (fl_Fixtures file))"
    unfolding l list_all_append by (intro conjI typed_meta typed_record typed_lookup typed_signal typed_cors)
  ultimately show ?thesis by (simp add: list.pred_map comp_def claim_of_def claim_typed_def g(3))
qed

theorem generated_file_typed_witness:
  "\<exists>file. fx_Generate fixture_crypto (\<lambda>k. False) = Inr file \<and> length (fl_Fixtures file) = 82"
  using generates [OF fixture_works fixture_candidates] generated_file_typed by blast

end
