(* ===== verification/Derive.thy ===== *)
theory Derive imports Records "HOL-Library.Signed_Division" begin

text \<open>
  \<open>internal/derive/derive.go\<close>: the epoch-derived key schedule. HKDF, SHA-256 and Ed25519 are
  the crypto parameter; the epoch arithmetic, the info strings and the derivations are the
  code's. Go's integer division truncates towards zero, which is \<open>sdiv\<close>.
\<close>

section \<open>Constants\<close>

definition InfoWrite :: string where "InfoWrite = ''trig-write-v1''"
definition InfoRecord :: string where "InfoRecord = ''trig-record-v1''"
definition InfoMailbox :: string where "InfoMailbox = ''trig-mailbox-v1''"
definition InfoPairWrite :: string where "InfoPairWrite = ''trig-pair-write-v1''"
definition InfoPairRecord :: string where "InfoPairRecord = ''trig-pair-record-v1''"
definition EpochSeconds :: int where "EpochSeconds = 86400"
definition SDirLen :: nat where "SDirLen = 32"
definition KeyLen :: nat where "KeyLen = 32"

lemmas info_defs = InfoWrite_def InfoRecord_def InfoMailbox_def InfoPairWrite_def InfoPairRecord_def

datatype derive_error = ErrSDirLen | ErrHKDF

section \<open>Epochs\<close>

definition Epoch :: "int \<Rightarrow> int" where
  "Epoch unixTime =
    (if unixTime < 0
     then i64 (- (i64 (i64 (i64 (- unixTime) + EpochSeconds) - 1) sdiv EpochSeconds))
     else unixTime sdiv EpochSeconds)"

definition EpochStart :: "int \<Rightarrow> int" where
  "EpochStart epoch = i64 (epoch * EpochSeconds)"

definition epochInfo :: "string \<Rightarrow> int \<Rightarrow> string" where
  "epochInfo label epoch = label @ string_of_bytes (be_bytes 8 (uint64_of epoch))"

section \<open>Derivations\<close>

definition derived :: "crypto \<Rightarrow> bytes \<Rightarrow> string \<Rightarrow> int \<Rightarrow> derive_error + bytes" where
  "derived C secret label epoch =
    (if length secret \<noteq> SDirLen then Inl ErrSDirLen
     else case hkdf C secret (epochInfo label epoch) KeyLen of
       None \<Rightarrow> Inl ErrHKDF
     | Some out \<Rightarrow> Inr out)"

definition WriteSeed :: "crypto \<Rightarrow> bytes \<Rightarrow> int \<Rightarrow> derive_error + bytes" where
  "WriteSeed C sDir epoch = derived C sDir InfoWrite epoch"

definition RecordKey :: "crypto \<Rightarrow> bytes \<Rightarrow> int \<Rightarrow> derive_error + bytes" where
  "RecordKey C sDir epoch = derived C sDir InfoRecord epoch"

definition MailboxID :: "crypto \<Rightarrow> bytes \<Rightarrow> int \<Rightarrow> derive_error + bytes" where
  "MailboxID C sDir epoch = derived C sDir InfoMailbox epoch"

definition WriteKey :: "crypto \<Rightarrow> bytes \<Rightarrow> int \<Rightarrow> derive_error + bytes" where
  "WriteKey C sDir epoch =
    (case WriteSeed C sDir epoch of Inl err \<Rightarrow> Inl err | Inr seed \<Rightarrow> Inr (NewKeyFromSeed C seed))"

definition PairWriteSeed :: "crypto \<Rightarrow> bytes \<Rightarrow> int \<Rightarrow> derive_error + bytes" where
  "PairWriteSeed C sPair epoch = derived C sPair InfoPairWrite epoch"

definition PairRecordKey :: "crypto \<Rightarrow> bytes \<Rightarrow> int \<Rightarrow> derive_error + bytes" where
  "PairRecordKey C sPair epoch = derived C sPair InfoPairRecord epoch"

definition PairWriteKey :: "crypto \<Rightarrow> bytes \<Rightarrow> int \<Rightarrow> derive_error + bytes" where
  "PairWriteKey C sPair epoch =
    (case PairWriteSeed C sPair epoch of Inl err \<Rightarrow> Inl err | Inr seed \<Rightarrow> Inr (NewKeyFromSeed C seed))"

definition derive_LookupID :: "crypto \<Rightarrow> bytes \<Rightarrow> bytes" where
  "derive_LookupID C wkPub = sha256 C wkPub"

section \<open>Lemmas\<close>

lemma sdiv_nonneg: "0 \<le> a \<Longrightarrow> 0 < b \<Longrightarrow> (a :: int) sdiv b = a div b"
  by (cases "a = 0") (simp_all add: signed_divide_int_def)

lemma sdiv_neg: "a < 0 \<Longrightarrow> 0 < b \<Longrightarrow> (a :: int) sdiv b = - (- a div b)"
  by (simp add: signed_divide_int_def)

text \<open>Rounding \<open>- t\<close> up is rounding \<open>t\<close> down.\<close>

lemma ceil_floor:
  assumes "0 < b"
  shows "(- t + b - 1) div b = - (t div b :: int)"
proof (rule int_div_pos_eq)
  show "- t + b - 1 = b * - (t div b) + (b - 1 - t mod b)"
    using mult_div_mod_eq [of b t] unfolding mult_minus_right by linarith
  show "0 \<le> b - 1 - t mod b" using pos_mod_bound [OF assms, of t] by linarith
  show "b - 1 - t mod b < b" using pos_mod_sign [OF assms, of t] by linarith
qed

lemma epochInfo_inject:
  assumes "epochInfo l e = epochInfo l' e'" and "is_i64 e" and "is_i64 e'"
  shows "l = l' \<and> e = e'"
proof -
  from assms(1) have "l = l'" and
    "string_of_bytes (be_bytes 8 (uint64_of e)) = string_of_bytes (be_bytes 8 (uint64_of e'))"
    by (simp_all add: epochInfo_def append_eq_append_conv del: be_bytes.simps)
  then have "be_bytes 8 (uint64_of e) = be_bytes 8 (uint64_of e')"
    by (metis bytes_of_string_of_bytes)
  then have "uint64_of e = uint64_of e'"
    using be_bytes_inject uint64_of_less by blast
  with \<open>l = l'\<close> assms(2,3) uint64_of_inject show ?thesis by blast
qed

text \<open>Where the rounding's sum fits in 64 bits the code computes the floor; below, it wraps.\<close>

lemma Epoch_nonneg: "0 \<le> t \<Longrightarrow> Epoch t = t div 86400"
  by (simp add: Epoch_def EpochSeconds_def sdiv_nonneg)

lemma Epoch_negative: "t < 0 \<Longrightarrow> Epoch t = i64 (- (i64 (86399 - t) sdiv 86400))"
  using i64_add [of "- t + 86400" "- 1"] i64_add [of "- t" 86400]
  by (simp add: Epoch_def EpochSeconds_def)

lemma Epoch_neg:
  assumes "is_i64 t" and "t < 0" and "86400 - 2 ^ 63 \<le> t"
  shows "Epoch t = t div 86400"
proof -
  have "i64 (86399 - t) = 86399 - t"
    using assms by (intro i64_id) (simp add: is_i64_def)
  moreover have "(86399 - t) sdiv 86400 = - (t div 86400)"
    using ceil_floor [of 86400 t] assms(2) by (simp add: sdiv_nonneg)
  moreover have "i64 (t div 86400) = t div 86400"
    using assms by (intro i64_id) (auto simp: is_i64_def)
  ultimately show ?thesis using assms(2) by (simp add: Epoch_negative)
qed

lemma Epoch_wraps:
  assumes "is_i64 t" and "t < 86400 - 2 ^ 63"
  shows "0 < Epoch t"
proof -
  let ?n = "86399 - t - 2 ^ 64"
  have n: "- (2 ^ 63) \<le> ?n" "?n \<le> - (2 ^ 63) + 86399"
    using assms by (simp_all add: is_i64_def)
  have "i64 (86399 - t) = ?n"
    using n by (intro i64_wraps [of _ _ 1]) (simp_all add: is_i64_def)
  moreover have "?n sdiv 86400 = - (- ?n div 86400)" using n by (intro sdiv_neg) simp_all
  moreover have q: "0 < - ?n div 86400" "- ?n div 86400 < 2 ^ 63"
    using zdiv_mono1 [of 86400 "- ?n" 86400] zdiv_mono1 [of "- ?n" "2 ^ 63" 86400] n by simp_all
  moreover have "i64 (- ?n div 86400) = - ?n div 86400" using q by (intro i64_id) (simp add: is_i64_def)
  ultimately have "Epoch t = - ?n div 86400"
    using Epoch_negative [of t] assms by simp
  with q(1) show ?thesis by simp
qed

section \<open>Records under the schedule\<close>

lemma derived_lengths:
  assumes "hkdf_ok C" and "length sDir = 32"
  shows "\<exists>seed. WriteSeed C sDir epoch = Inr seed \<and> length seed = 32"
    and "\<exists>key. RecordKey C sDir epoch = Inr key \<and> length key = 32"
proof -
  have "\<exists>out. derived C sDir label epoch = Inr out \<and> length out = 32" for label
  proof -
    have "(32 :: nat) \<le> 255 * 32" by simp
    with assms(1) obtain out where "hkdf C sDir (epochInfo label epoch) 32 = Some out" "length out = 32"
      unfolding hkdf_ok_def by blast
    with assms(2) show ?thesis by (simp add: derived_def KeyLen_def SDirLen_def)
  qed
  then show "\<exists>seed. WriteSeed C sDir epoch = Inr seed \<and> length seed = 32"
    and "\<exists>key. RecordKey C sDir epoch = Inr key \<and> length key = 32"
    unfolding WriteSeed_def RecordKey_def by blast+
qed

lemma signature_length:
  "ed25519_ok C \<Longrightarrow> length seed = 32 \<Longrightarrow> length (ed_public C seed) = 32 \<and>
    length (ed_sign C (NewKeyFromSeed C seed) m) = 64 \<and> length (NewKeyFromSeed C seed) = 64 \<and>
    drop 32 (NewKeyFromSeed C seed) = ed_public C seed \<and>
    ed_verify C (ed_public C seed) m (ed_sign C (NewKeyFromSeed C seed) m)"
  by (simp add: ed25519_ok_def NewKeyFromSeed_def)

text \<open>The envelope of a payload sealed and signed with the keys of an epoch.\<close>

definition signed_record :: "crypto \<Rightarrow> bytes \<Rightarrow> bytes \<Rightarrow> bytes \<Rightarrow> int \<Rightarrow> bytes \<Rightarrow> Decoded" where
  "signed_record C seed nonce ct expiresAt solved =
    (let pub = ed_public C seed; lookup = sha256 C pub
     in \<lparr>d_V = 1, d_LookupID = lookup, d_WKPub = pub, d_ExpiresAt = expiresAt, d_CT = ct, d_Nonce = nonce,
         d_PoW = solved, d_Sig = ed_sign C (NewKeyFromSeed C seed)
           (CanonicalEnvelope 1 lookup pub expiresAt nonce ct)\<rparr>)"

lemma assembled_record:
  assumes laws: "sha256_ok C" "ed25519_ok C" "gcm_ok C"
    and len: "length seed = 32" "length key = 32" "length nonce = 12" "length solved = 8" "length ikSeed = 32"
    and pt: "MarshalPlaintext C (NewKeyFromSeed C ikSeed) body = Inr pt"
  shows "let d = signed_record C seed nonce (gcm_seal C key nonce pt) expiresAt solved in
    decoded_widths d \<and> Decoded_Verify C d = None \<and> record_Open C key (d_Nonce d) (d_CT d) = Inr pt \<and>
    VerifyPlaintext C (ed_public C ikSeed) pt = Inr body \<and> length (d_CT d) = length body + 82"
proof -
  note wk = signature_length [OF laws(2) len(1)] and ik = signature_length [OF laws(2) len(5)]
  have gcm: "length (gcm_seal C key nonce pt) = length pt + 16" "gcm_open C key nonce (gcm_seal C key nonce pt) = Some pt"
    using laws(3) len by (simp_all add: gcm_ok_def)
  have frame: "pt = be_bytes 2 (length body) @ body @ ed_sign C (NewKeyFromSeed C ikSeed) body" "length body \<le> MaxBodyLen"
    using pt ik by (auto simp: MarshalPlaintext_def split: if_splits)
  then have "ParsePlaintext pt = Inr (body, ed_sign C (NewKeyFromSeed C ikSeed) body)"
    using ParsePlaintext_framed ik by blast
  then have "VerifyPlaintext C (ed_public C ikSeed) pt = Inr body"
    using ik by (simp add: VerifyPlaintext_def VerifyPayload_def record_lens)
  moreover have "length pt = length body + 66" unfolding frame(1) using ik by simp
  ultimately show ?thesis
    using wk gcm len laws(1)
    by (simp add: Let_def signed_record_def decoded_widths_def sha256_ok_def Decoded_Verify_def VerifyLookupID_def
      VerifySignature_def SigningBytes_def record_Open_def newGCM_def record_lens)
qed

section \<open>Properties\<close>

text \<open>
  C26. The epoch of a time is the floor of the time over the epoch length, also before 1970, for
  exactly the times whose rounding does not leave the signed 64-bit range: every time except
  the first day that an \<open>int64\<close> can express.
\<close>

theorem Epoch_floor_iff:
  assumes "is_i64 t"
  shows "Epoch t = t div EpochSeconds \<longleftrightarrow> 86400 - 2 ^ 63 \<le> t"
proof (cases "86400 - 2 ^ 63 \<le> t")
  case True
  with Epoch_nonneg [of t] Epoch_neg [OF assms] show ?thesis
    by (cases "t < 0") (simp_all add: EpochSeconds_def)
next
  case False
  then have "t div 86400 < 0" by simp
  with Epoch_wraps [OF assms] False show ?thesis by (auto simp: EpochSeconds_def)
qed

theorem Epoch_floor_iff_witness: "Epoch (- 86401) = (- 86401) div EpochSeconds"
proof -
  have "is_i64 (- 86401)" by (simp add: is_i64_def)
  from Epoch_floor_iff [OF this] show ?thesis by simp
qed

text \<open>
  Epochs partition time: for an epoch whose seconds are in range, the times that belong
  to it are exactly the 86400 seconds from its \<open>EpochStart\<close>.
\<close>

theorem Epoch_interval:
  assumes "is_i64 t" and "86400 - 2 ^ 63 \<le> t" and "is_i64 (e * EpochSeconds)"
  shows "Epoch t = e \<longleftrightarrow> EpochStart e \<le> t \<and> t < EpochStart e + EpochSeconds"
proof -
  have "Epoch t = t div 86400"
    using Epoch_nonneg [of t] Epoch_neg [OF assms(1)] assms(2) by linarith
  moreover have "EpochStart e = e * 86400"
    using assms(3) by (simp add: EpochStart_def i64_id EpochSeconds_def)
  moreover have "t div 86400 = e \<longleftrightarrow> e * 86400 \<le> t \<and> t < e * 86400 + 86400"
    using int_div_pos_eq [of t 86400 e "t - 86400 * e"] mult_div_mod_eq [of 86400 t]
      pos_mod_bound [of 86400 t] pos_mod_sign [of 86400 t] by (cases "t div 86400 = e") linarith+
  ultimately show ?thesis by (simp add: EpochSeconds_def)
qed

theorem Epoch_interval_witness:
  "Epoch 1753574399 = 20295 \<longleftrightarrow> EpochStart 20295 \<le> 1753574399 \<and> 1753574399 < EpochStart 20295 + EpochSeconds"
  by (rule Epoch_interval) (simp_all add: is_i64_def EpochSeconds_def)

text \<open>
  Domain separation. The five derivations of the schedule ask HKDF for pairwise different
  info strings, within an epoch and across epochs: equal info means the same label and epoch.
\<close>

theorem schedule_infos_distinct:
  assumes "l \<in> {InfoWrite, InfoRecord, InfoMailbox, InfoPairWrite, InfoPairRecord}"
    and "l' \<in> {InfoWrite, InfoRecord, InfoMailbox, InfoPairWrite, InfoPairRecord}"
    and "is_i64 e" and "is_i64 e'"
  shows "(epochInfo l e = epochInfo l' e' \<longleftrightarrow> l = l' \<and> e = e') \<and>
    distinct [InfoWrite, InfoRecord, InfoMailbox, InfoPairWrite, InfoPairRecord]"
proof -
  have "distinct [InfoWrite, InfoRecord, InfoMailbox, InfoPairWrite, InfoPairRecord]"
    by (simp add: info_defs)
  with epochInfo_inject [OF _ assms(3,4)] show ?thesis by blast
qed

theorem schedule_infos_distinct_witness:
  "(epochInfo InfoWrite 20295 = epochInfo InfoPairWrite 20295 \<longleftrightarrow> InfoWrite = InfoPairWrite \<and> (20295 :: int) = 20295) \<and>
    distinct [InfoWrite, InfoRecord, InfoMailbox, InfoPairWrite, InfoPairRecord]"
  by (rule schedule_infos_distinct) (simp_all add: is_i64_def)

text \<open>
  The schedule and the directory agree. For a 32-byte secret every derivation succeeds with
  32 bytes; an envelope under \<open>LookupID\<close> of the write key's public half, signed with the derived
  write key, passes the directory's check, and a payload sealed under the derived record key
  with any 12-byte nonce opens under the record key anybody else derives from the same secret
  and epoch.
\<close>

theorem schedule_verifies:
  assumes "hkdf_ok C" and "sha256_ok C" and "ed25519_ok C" and "gcm_ok C"
    and "length sDir = SDirLen" and "length nonce = NonceLen"
  shows "\<exists>wk key ct sig. WriteKey C sDir epoch = Inr wk \<and> RecordKey C sDir epoch = Inr key \<and>
    length wk = 64 \<and> length key = KeyLen \<and>
    SealWithNonce C key nonce pt = Inr ct \<and> record_Open C key nonce ct = Inr pt \<and>
    record_Sign C wk 1 (derive_LookupID C (drop 32 wk)) (drop 32 wk) expiresAt nonce ct = Inr sig \<and>
    Decoded_Verify C \<lparr>d_V = 1, d_LookupID = derive_LookupID C (drop 32 wk), d_WKPub = drop 32 wk,
      d_ExpiresAt = expiresAt, d_CT = ct, d_Nonce = nonce, d_PoW = pow, d_Sig = sig\<rparr> = None"
proof -
  have "\<exists>out. derived C sDir l epoch = Inr out \<and> length out = 32" for l
  proof -
    have "(32 :: nat) \<le> 255 * 32" by simp
    with assms(1) obtain out where "hkdf C sDir (epochInfo l epoch) 32 = Some out" "length out = 32"
      unfolding hkdf_ok_def by blast
    with assms(5) show ?thesis by (simp add: derived_def KeyLen_def)
  qed
  then obtain seed key where seed: "WriteSeed C sDir epoch = Inr seed" "length seed = 32"
    and key: "RecordKey C sDir epoch = Inr key" "length key = 32"
    unfolding WriteSeed_def RecordKey_def by blast
  let ?wk = "NewKeyFromSeed C seed" and ?ct = "gcm_seal C key nonce pt"
  have "WriteKey C sDir epoch = Inr ?wk" using seed by (simp add: WriteKey_def)
  moreover have "drop 32 ?wk = ed_public C seed" "length ?wk = 64" "length (ed_public C seed) = 32"
    using assms(3) seed by (simp_all add: NewKeyFromSeed_def ed25519_ok_def)
  moreover have "SealWithNonce C key nonce pt = Inr ?ct" "record_Open C key nonce ?ct = Inr pt"
    using assms(4,6) key by (simp_all add: SealWithNonce_def record_Open_def newGCM_def gcm_ok_def record_lens)
  moreover have "ed_verify C (ed_public C seed) m (ed_sign C ?wk m)" for m
    using assms(3) seed by (simp add: ed25519_ok_def)
  ultimately show ?thesis using key
    by (intro exI [of _ ?wk] exI [of _ key] exI [of _ ?ct] exI)
      (auto simp: record_Sign_def Decoded_Verify_def VerifyLookupID_def VerifySignature_def
        SigningBytes_def derive_LookupID_def KeyLen_def)
qed

theorem schedule_verifies_witness:
  "\<exists>wk key ct sig. WriteKey toy_crypto (replicate 32 5) 20295 = Inr wk \<and>
    RecordKey toy_crypto (replicate 32 5) 20295 = Inr key \<and> length wk = 64 \<and> length key = KeyLen \<and>
    SealWithNonce toy_crypto key (replicate 12 1) [9, 8] = Inr ct \<and>
    record_Open toy_crypto key (replicate 12 1) ct = Inr [9, 8] \<and>
    record_Sign toy_crypto wk 1 (derive_LookupID toy_crypto (drop 32 wk)) (drop 32 wk) 77 (replicate 12 1) ct = Inr sig \<and>
    Decoded_Verify toy_crypto \<lparr>d_V = 1, d_LookupID = derive_LookupID toy_crypto (drop 32 wk),
      d_WKPub = drop 32 wk, d_ExpiresAt = 77, d_CT = ct, d_Nonce = replicate 12 1,
      d_PoW = replicate 8 0, d_Sig = sig\<rparr> = None"
  by (rule schedule_verifies) (simp_all add: SDirLen_def NonceLen_def)

end
