(* ===== verification/Vectors.thy ===== *)
theory Vectors imports Payload Derive begin

text \<open>
  \<open>internal/vectors/vectors.go\<close>: the generator of the committed test vectors. It is deterministic:
  counting patterns stand for the secrets and the nonce. Every member of the file is here, the
  prose ones included, as the string the file carries.
\<close>

section \<open>Test material\<close>

definition countingBytes :: "byte \<Rightarrow> nat \<Rightarrow> bytes" where
  "countingBytes start n = map (\<lambda>i. start + byte_of i) [0..<n]"

definition TestSDir :: bytes where "TestSDir = countingBytes 0x00 SDirLen"
definition TestIKSeed :: bytes where "TestIKSeed = countingBytes 0x20 32"
definition TestSPair :: bytes where "TestSPair = countingBytes 0x40 SDirLen"
definition FixedNonce :: bytes where "FixedNonce = countingBytes 0xa0 NonceLen"

definition sampleTimes :: "(int \<times> string) list" where
  "sampleTimes =
    [(1753487999, ''last second of epoch 20294 '' @ emdash @ '' one second before a boundary''),
     (1753488000, ''first second of epoch 20295 '' @ emdash @ '' exactly on the boundary, 86400 * 20295''),
     (1753574399, ''last second of epoch 20295''),
     (1753574400, ''first second of epoch 20296 '' @ emdash @ '' exactly on the boundary, 86400 * 20296'')]"

definition sampleTS :: int where "sampleTS = 1753488000"
definition sampleExpiresAt :: int where "sampleExpiresAt = 1753574400"

definition sampleBody :: Body where
  "sampleBody = \<lparr>b_V = Version, b_TS = sampleTS,
    b_Endpoints = Slice
      [\<lparr>ep_Type = EndpointLAN, ep_Host = ''192.168.1.50'', ep_Port = 8096\<rparr>,
       \<lparr>ep_Type = EndpointWAN4, ep_Host = ''203.0.113.7'', ep_Port = 8443\<rparr>,
       \<lparr>ep_Type = EndpointWAN6, ep_Host = ''2001:db8::42'', ep_Port = 8443\<rparr>,
       \<lparr>ep_Type = EndpointDNS, ep_Host = ''media.example.net'', ep_Port = 443\<rparr>] [],
    b_TLS = \<lparr>tls_Mode = TLSModePKI, tls_Fingerprint = []\<rparr>,
    b_Caps = Slice [''ice'', ''quic'', ''hls''] []\<rparr>"

section \<open>The file\<close>

record vec_conventions =
  vc_Note :: string
  vc_IntegerEncoding :: string
  vc_HKDFConstruction :: string
  vc_Ed25519Seed :: string
  vc_EnvelopeSignature :: string
  vc_PayloadSignature :: string
  vc_PoWInput :: string

record vec_epoch =
  v_Note :: string
  v_UnixTime :: int
  v_Epoch :: int
  v_EpochStart :: int
  v_WriteSeed :: string
  v_WKPub :: string
  v_WKPriv :: string
  v_LookupID :: string
  v_RecordKey :: string
  v_MailboxID :: string

record vec_pair =
  vp_Note :: string
  vp_Epoch :: int
  vp_WriteSeed :: string
  vp_WKPub :: string
  vp_WKPriv :: string
  vp_LookupID :: string
  vp_RecordKey :: string

record vec_envelope =
  ve_Note :: string
  ve_Epoch :: int
  ve_BodyUTF8 :: string
  ve_Body :: string
  ve_BodyLen :: nat
  ve_PayloadSig :: string
  ve_Plaintext :: string
  ve_Nonce :: string
  ve_SigningInput :: string
  ve_Envelope :: Envelope

record vec_pow =
  vw_Note :: string
  vw_Bits :: int
  vw_LookupID :: string
  vw_ExpiresAt :: int
  vw_Input :: string
  vw_Value :: string
  vw_Digest :: string
  vw_LeadingZeroBits :: int

record vec_file =
  vf_Comment :: string
  vf_Warning :: "string list"
  vf_Spec :: string
  vf_Encoding :: string
  vf_Conventions :: vec_conventions
  f_SDir :: string
  f_SPair :: string
  f_IKSeed :: string
  f_IKPub :: string
  f_Epochs :: "vec_epoch list"
  f_Pairing :: "vec_pair list"
  f_Envelope :: vec_envelope
  f_PoW :: vec_pow

datatype vec_error = VDerive derive_error | VRecord record_error | VPow pow_error

section \<open>The prose of the file\<close>

definition vector_comment :: string where
  "vector_comment =
    (''Trigstation directory service '' @ emdash @ '' protocol v1 test vectors. Generated by cmd/gen-vectors; regenerating must reproduce this file byte for byte.'')"

definition vector_warning :: "string list" where
  "vector_warning =
    [(''TEST ONLY. s_dir, s_pair and ik_seed are counting patterns, not secrets. Anyone holding this s_dir can derive this server's LookupID and RecordKey for every epoch, for ever.''),
     (''The envelope nonce is FIXED so that the vector is reproducible. DIRECTORY-SPEC.md '' @ sect @ ''4.1 requires a fresh CSPRNG nonce for every real publish and forbids a counter.''),
     (''The `body` bytes are definitive. Per '' @ sect @ ''4.2 the payload signature covers the literal transmitted bytes of body, so verify against the `body` field as given '' @ emdash @ '' do not re-serialise body_utf8 through your own JSON encoder and expect the signature to hold. A different spelling of the same object is a different, equally valid record with a different signature.'')]"

definition vector_conventions :: vec_conventions where
  "vector_conventions =
    \<lparr>vc_Note = (''The normative rule behind each encoding, for cross-checking against the spec.''),
     vc_IntegerEncoding = (sect @ ''0.1 '' @ emdash @ '' every integer concatenated into a byte string is fixed-width unsigned big-endian, never decimal text. epoch 8 bytes, expires_at 8, ts 8, v 1, pow 8.''),
     vc_HKDFConstruction = (sect @ ''3.3 '' @ emdash @ '' HKDF-SHA256, full RFC 5869 Extract-then-Expand with an empty salt (RFC 5869 '' @ sect @ ''2.2: HashLen zero bytes). Expand-only is explicitly NOT what the spec means.''),
     vc_Ed25519Seed = (sect @ ''3.3 '' @ emdash @ '' RFC 8032 '' @ sect @ ''5.1.5 seed derivation; the seed is hashed to produce the scalar and prefix, not treated as a clamped scalar. wk_priv is the 64-byte seed||public layout '' @ sect @ ''3.3 recommends; its first 32 bytes equal write_seed.''),
     vc_EnvelopeSignature = (sect @ ''4.1 '' @ emdash @ '' Ed25519(WK_priv, v||lookup_id||wk_pub||expires_at||nonce||ct) over raw byte values, integers per '' @ sect @ ''0.1. Safe as bare concatenation only because ct is the sole variable-length field and is last.''),
     vc_PayloadSignature = (sect @ ''4.2 '' @ emdash @ '' detached. Plaintext is body_len(uint16 BE)||body||sig(64), and sig = Ed25519(IK_priv, body) over the literal transmitted bytes. There is no canonicalisation rule; verifiers MUST NOT re-serialise before verifying.''),
     vc_PoWInput = (sect @ ''6.1 '' @ emdash @ '' SHA-256(\"trig-pow-v1\"||lookup_id||expires_at||pow), expires_at and pow 8 bytes each per '' @ sect @ ''0.1.'')\<rparr>"

definition note_pair :: string where
  "note_pair = (''PAIRING-SPEC.md '' @ sect @ ''3.1, derived from s_pair (not s_dir) under the trig-pair-* info strings'')"

definition note_envelope :: "int \<Rightarrow> string" where
  "note_envelope ep = (''A complete record for epoch '' @ Itoa ep @ ''. ts and expires_at are the worked example values from '' @ sect @ ''4.1 and '' @ sect @ ''4.2. body is the signing input for payload_sig; plaintext is body_len||body||payload_sig.'')"

definition note_pow :: string where
  "note_pow = (''Solved by incrementing an 8-byte big-endian counter from zero. Search order has no protocol significance.'')"

section \<open>The generator\<close>

definition epochVector :: "crypto \<Rightarrow> int \<Rightarrow> string \<Rightarrow> vec_error + vec_epoch" where
  "epochVector C unixTime note =
    (let ep = Epoch unixTime in
     case WriteSeed C TestSDir ep of Inl e \<Rightarrow> Inl (VDerive e) | Inr seed \<Rightarrow>
     (case WriteKey C TestSDir ep of Inl e \<Rightarrow> Inl (VDerive e) | Inr wk \<Rightarrow>
     (case RecordKey C TestSDir ep of Inl e \<Rightarrow> Inl (VDerive e) | Inr recKey \<Rightarrow>
     (case MailboxID C TestSDir ep of Inl e \<Rightarrow> Inl (VDerive e) | Inr mailbox \<Rightarrow>
       let wkPub = drop 32 wk in
       Inr \<lparr>v_Note = note, v_UnixTime = unixTime, v_Epoch = ep, v_EpochStart = EpochStart ep,
         v_WriteSeed = b64_Encode seed, v_WKPub = b64_Encode wkPub, v_WKPriv = b64_Encode wk,
         v_LookupID = b64_Encode (derive_LookupID C wkPub), v_RecordKey = b64_Encode recKey,
         v_MailboxID = b64_Encode mailbox\<rparr>))))"

definition pairVector :: "crypto \<Rightarrow> int \<Rightarrow> vec_error + vec_pair" where
  "pairVector C ep =
    (case PairWriteSeed C TestSPair ep of Inl e \<Rightarrow> Inl (VDerive e) | Inr seed \<Rightarrow>
     (case PairWriteKey C TestSPair ep of Inl e \<Rightarrow> Inl (VDerive e) | Inr wk \<Rightarrow>
     (case PairRecordKey C TestSPair ep of Inl e \<Rightarrow> Inl (VDerive e) | Inr recKey \<Rightarrow>
       let wkPub = drop 32 wk in
       Inr \<lparr>vp_Note = note_pair, vp_Epoch = ep, vp_WriteSeed = b64_Encode seed, vp_WKPub = b64_Encode wkPub,
         vp_WKPriv = b64_Encode wk, vp_LookupID = b64_Encode (derive_LookupID C wkPub),
         vp_RecordKey = b64_Encode recKey\<rparr>)))"

definition buildEnvelope ::
  "crypto \<Rightarrow> (nat \<Rightarrow> bool) \<Rightarrow> bytes \<Rightarrow> vec_error + vec_envelope \<times> vec_pow" where
  "buildEnvelope C cancelled ik =
    (let ep = Epoch sampleTS in
     case WriteKey C TestSDir ep of Inl e \<Rightarrow> Inl (VDerive e) | Inr wk \<Rightarrow>
     (case RecordKey C TestSDir ep of Inl e \<Rightarrow> Inl (VDerive e) | Inr recKey \<Rightarrow>
       let wkPub = drop 32 wk; lookupID = derive_LookupID C wkPub;
           body = bytes_of_string (marshal_body sampleBody)
       in
     (case MarshalPlaintext C ik body of Inl e \<Rightarrow> Inl (VRecord e) | Inr plaintext \<Rightarrow>
     (case ParsePlaintext plaintext of Inl e \<Rightarrow> Inl (VRecord e) | Inr (parsed, payloadSig) \<Rightarrow>
     (case SealWithNonce C recKey FixedNonce plaintext of Inl e \<Rightarrow> Inl (VRecord e) | Inr ct \<Rightarrow>
     (case pow_Solve C cancelled lookupID sampleExpiresAt DefaultBits of
        Inl e \<Rightarrow> Inl (VPow e)
      | Inr powValue \<Rightarrow>
        let powInput = pow_Input lookupID sampleExpiresAt powValue;
            powDigest = sha256 C powInput;
            envSigningInput = CanonicalEnvelope (byte_of (nat Version)) lookupID wkPub sampleExpiresAt FixedNonce ct
        in
     (case record_Sign C wk (byte_of (nat Version)) lookupID wkPub sampleExpiresAt FixedNonce ct of
        Inl e \<Rightarrow> Inl (VRecord e)
      | Inr sig \<Rightarrow> Inr
         (\<lparr>ve_Note = note_envelope ep, ve_Epoch = ep, ve_BodyUTF8 = marshal_body sampleBody, ve_Body = b64_Encode body,
           ve_BodyLen = length body, ve_PayloadSig = b64_Encode payloadSig,
           ve_Plaintext = b64_Encode plaintext, ve_Nonce = b64_Encode FixedNonce,
           ve_SigningInput = b64_Encode envSigningInput,
           ve_Envelope = \<lparr>e_V = Version, e_LookupID = b64_Encode lookupID, e_WKPub = b64_Encode wkPub,
             e_ExpiresAt = sampleExpiresAt, e_CT = b64_Encode ct, e_Nonce = b64_Encode FixedNonce,
             e_PoW = b64_Encode powValue, e_Sig = b64_Encode sig\<rparr>\<rparr>,
          \<lparr>vw_Note = note_pow, vw_Bits = DefaultBits, vw_LookupID = b64_Encode lookupID, vw_ExpiresAt = sampleExpiresAt,
           vw_Input = b64_Encode powInput, vw_Value = b64_Encode powValue,
           vw_Digest = b64_Encode powDigest, vw_LeadingZeroBits = LeadingZeroBits powDigest\<rparr>))))))))"

text \<open>The loop over the sample times: one pairing row for each run of equal epochs.\<close>

fun generate_rows ::
  "crypto \<Rightarrow> (int \<times> string) list \<Rightarrow> vec_epoch list \<Rightarrow> vec_pair list \<Rightarrow> vec_error + vec_epoch list \<times> vec_pair list" where
  "generate_rows C [] es ps = Inr (es, ps)"
| "generate_rows C ((t, note) # ts) es ps =
    (case epochVector C t note of
       Inl x \<Rightarrow> Inl x
     | Inr e \<Rightarrow>
         if ps = [] \<or> vp_Epoch (last ps) \<noteq> v_Epoch e then
           (case pairVector C (v_Epoch e) of
              Inl x \<Rightarrow> Inl x
            | Inr p \<Rightarrow> generate_rows C ts (es @ [e]) (ps @ [p]))
         else generate_rows C ts (es @ [e]) ps)"

definition Generate :: "crypto \<Rightarrow> (nat \<Rightarrow> bool) \<Rightarrow> vec_error + vec_file" where
  "Generate C cancelled =
    (let ik = NewKeyFromSeed C TestIKSeed; ikPub = drop 32 ik in
     case generate_rows C sampleTimes [] [] of
       Inl x \<Rightarrow> Inl x
     | Inr (es, ps) \<Rightarrow>
         (case buildEnvelope C cancelled ik of
            Inl x \<Rightarrow> Inl x
          | Inr (env, pow) \<Rightarrow> Inr
              \<lparr>vf_Comment = vector_comment, vf_Warning = vector_warning,
               vf_Spec = ''DIRECTORY-SPEC.md protocol version 1 (draft)'',
               vf_Encoding = (''All binary values are unpadded base64url, RFC 4648 '' @ sect @ ''5. No '=' padding is emitted.''),
               vf_Conventions = vector_conventions,
               f_SDir = b64_Encode TestSDir, f_SPair = b64_Encode TestSPair,
               f_IKSeed = b64_Encode TestIKSeed, f_IKPub = b64_Encode ikPub,
               f_Epochs = es, f_Pairing = ps, f_Envelope = env, f_PoW = pow\<rparr>))"

section \<open>What the vectors promise\<close>

lemma material_lengths [simp]:
  "length TestSDir = 32" "length TestIKSeed = 32" "length TestSPair = 32" "length FixedNonce = 12"
  by (simp_all add: TestSDir_def TestIKSeed_def TestSPair_def FixedNonce_def countingBytes_def SDirLen_def NonceLen_def)

lemma sampleBody_printable: "body_printable sampleBody"
  by (simp add: body_printable_def sampleBody_def ascii_def endpoint_types TLSModePKI_def Version_def sampleTS_def is_i64_def)

text \<open>A row of the schedule, with what it is derived from.\<close>

definition epoch_row :: "crypto \<Rightarrow> int \<Rightarrow> vec_epoch \<Rightarrow> bool" where
  "epoch_row C t e \<longleftrightarrow> v_UnixTime e = t \<and> v_Epoch e = t div 86400 \<and> v_EpochStart e \<le> t \<and> t < v_EpochStart e + 86400 \<and>
    (\<exists>wk key. WriteKey C TestSDir (v_Epoch e) = Inr wk \<and> RecordKey C TestSDir (v_Epoch e) = Inr key \<and>
      v_WKPub e = b64_Encode (drop 32 wk) \<and> v_LookupID e = b64_Encode (derive_LookupID C (drop 32 wk)) \<and>
      v_RecordKey e = b64_Encode key)"

lemma epochVector_row:
  assumes "epochVector C t label = Inr e" and "0 \<le> t" and "t < 2 ^ 62"
  shows "epoch_row C t e"
proof -
  have ep: "Epoch t = t div 86400" using assms(2) by (rule Epoch_nonneg)
  have "t div 86400 * 86400 \<le> t" "t < t div 86400 * 86400 + 86400" "0 \<le> t div 86400 * 86400"
    using assms(2) pos_mod_sign [of 86400 t] pos_mod_bound [of 86400 t] div_mult_mod_eq [of t 86400]
    by (simp_all add: pos_imp_zdiv_nonneg_iff)
  moreover from this assms(3) have "i64 (t div 86400 * 86400) = t div 86400 * 86400"
    by (intro i64_id) (simp add: is_i64_def)
  ultimately show ?thesis
    using assms(1) by (auto simp: epochVector_def Let_def epoch_row_def ep EpochStart_def EpochSeconds_def split: sum.splits)
qed

lemma pairVector_epoch: "pairVector C ep = Inr p \<Longrightarrow> vp_Epoch p = ep"
  by (auto simp: pairVector_def Let_def split: sum.splits)

lemma generate_rows_spec:
  assumes "generate_rows C ts es ps = Inr (es', ps')" and "\<forall>x \<in> set ts. 0 \<le> fst x \<and> fst x < 2 ^ 62"
  shows "\<exists>new. es' = es @ new \<and> list_all2 (epoch_row C) (map fst ts) new \<and>
    map vp_Epoch ps' = fold (\<lambda>t eps. if eps = [] \<or> last eps \<noteq> t div 86400 then eps @ [t div 86400] else eps) (map fst ts) (map vp_Epoch ps)"
  using assms
proof (induction C ts es ps rule: generate_rows.induct)
  case (2 C t label ts es ps)
  obtain e where e: "epochVector C t label = Inr e" using "2.prems"(1) by (auto split: sum.splits)
  have row: "epoch_row C t e" by (rule epochVector_row [OF e]) (use "2.prems"(2) in auto)
  then have ep: "v_Epoch e = t div 86400" by (simp add: epoch_row_def)
  show ?case
  proof (cases "ps = [] \<or> vp_Epoch (last ps) \<noteq> v_Epoch e")
    case True
    then obtain p where p: "pairVector C (v_Epoch e) = Inr p" and rest: "generate_rows C ts (es @ [e]) (ps @ [p]) = Inr (es', ps')"
      using "2.prems"(1) e by (auto split: sum.splits)
    from "2.IH"(1) [OF e True p rest] "2.prems"(2) obtain new where
      "es' = (es @ [e]) @ new" "list_all2 (epoch_row C) (map fst ts) new"
      "map vp_Epoch ps' = fold (\<lambda>t eps. if eps = [] \<or> last eps \<noteq> t div 86400 then eps @ [t div 86400] else eps) (map fst ts) (map vp_Epoch (ps @ [p]))"
      by auto
    with row True pairVector_epoch [OF p] ep show ?thesis
      by (intro exI [of _ "e # new"]) (auto simp: last_map)
  next
    case False
    with "2.prems"(1) e have rest: "generate_rows C ts (es @ [e]) ps = Inr (es', ps')" by auto
    from "2.IH"(2) [OF e False rest] "2.prems"(2) obtain new where
      "es' = (es @ [e]) @ new" "list_all2 (epoch_row C) (map fst ts) new"
      "map vp_Epoch ps' = fold (\<lambda>t eps. if eps = [] \<or> last eps \<noteq> t div 86400 then eps @ [t div 86400] else eps) (map fst ts) (map vp_Epoch ps)"
      by auto
    with row False ep show ?thesis by (intro exI [of _ "e # new"]) (auto simp: last_map)
  qed
qed simp

lemma sample_epochs:
  "map (\<lambda>x. fst x div 86400) sampleTimes = [20294, 20295, 20295, 20296]"
  "fold (\<lambda>t eps. if eps = [] \<or> last eps \<noteq> t div 86400 then eps @ [t div 86400] else eps) (map fst sampleTimes) [] =
    [20294, 20295, 20296]"
  "Epoch sampleTS = 20295"
  by (simp_all add: sampleTimes_def sampleTS_def Epoch_nonneg)

lemma generate_sample_rows:
  assumes "generate_rows C sampleTimes [] [] = Inr (es, ps)"
  shows "list_all2 (epoch_row C) (map fst sampleTimes) es" "map v_Epoch es = [20294, 20295, 20295, 20296]"
    "map vp_Epoch ps = [20294, 20295, 20296]"
proof -
  have "\<forall>x \<in> set sampleTimes. 0 \<le> fst x \<and> fst x < 2 ^ 62" by (simp add: sampleTimes_def)
  from generate_rows_spec [OF assms this] show rows: "list_all2 (epoch_row C) (map fst sampleTimes) es"
    and "map vp_Epoch ps = [20294, 20295, 20296]"
    unfolding sample_epochs(2) [symmetric] by auto
  from rows have "map v_Epoch es = map (\<lambda>t. t div 86400) (map fst sampleTimes)"
    by (induction) (simp_all add: epoch_row_def)
  then show "map v_Epoch es = [20294, 20295, 20295, 20296]" by (simp only: map_map comp_def sample_epochs)
qed

lemma buildEnvelope_spec:
  assumes laws: "hkdf_ok C" "sha256_ok C" "ed25519_ok C" "gcm_ok C"
    and built: "buildEnvelope C cancelled (NewKeyFromSeed C TestIKSeed) = Inr (env, pow)"
  obtains d wk key pt where "ve_Epoch env = 20295" "WriteKey C TestSDir 20295 = Inr wk"
    "RecordKey C TestSDir 20295 = Inr key" "ve_Envelope env = transmitted d" "decoded_widths d"
    "d_LookupID d = derive_LookupID C (drop 32 wk)" "d_ExpiresAt d = sampleExpiresAt"
    "Decoded_Verify C d = None" "ve_SigningInput env = b64_Encode (SigningBytes d)"
    "pow_Verify C (d_LookupID d) sampleExpiresAt (d_PoW d) DefaultBits" "vw_Value pow = b64_Encode (d_PoW d)"
    "DefaultBits \<le> vw_LeadingZeroBits pow"
    "record_Open C key (d_Nonce d) (d_CT d) = Inr pt" "ve_Plaintext env = b64_Encode pt"
    "VerifyPlaintext C (ed_public C TestIKSeed) pt = Inr (bytes_of_string (marshal_body sampleBody))"
    "ve_Body env = b64_Encode (bytes_of_string (marshal_body sampleBody))"
    "ve_BodyUTF8 env = marshal_body sampleBody"
proof -
  let ?body = "bytes_of_string (marshal_body sampleBody)" and ?ik = "NewKeyFromSeed C TestIKSeed"
  obtain seed where seed: "WriteSeed C TestSDir 20295 = Inr seed" "length seed = 32"
    using derived_lengths(1) [OF laws(1) material_lengths(1)] by blast
  obtain key where key: "RecordKey C TestSDir 20295 = Inr key" "length key = 32"
    using derived_lengths(2) [OF laws(1) material_lengths(1)] by blast
  let ?wk = "NewKeyFromSeed C seed" and ?pub = "ed_public C seed"
  let ?l = "sha256 C ?pub"
  note wk = signature_length [OF laws(3) seed(2)] and ik = signature_length [OF laws(3) material_lengths(2)]
  have key_ok: "newGCM key = None" using key by (simp add: newGCM_def record_lens)
  have WK: "WriteKey C TestSDir 20295 = Inr ?wk" using seed by (simp add: WriteKey_def)
  obtain pt where pt: "MarshalPlaintext C ?ik ?body = Inr pt"
    using built WK key by (cases "MarshalPlaintext C ?ik ?body") (simp_all add: buildEnvelope_def Let_def sample_epochs)
  let ?ct = "gcm_seal C key FixedNonce pt"
  have sealed: "SealWithNonce C key FixedNonce pt = Inr ?ct"
    using key_ok by (simp add: SealWithNonce_def NonceLen_def)
  obtain parsed payloadSig where parsed: "ParsePlaintext pt = Inr (parsed, payloadSig)"
    using built WK key pt by (cases "ParsePlaintext pt") (auto simp: buildEnvelope_def Let_def sample_epochs)
  obtain p where p: "pow_Solve C cancelled ?l sampleExpiresAt DefaultBits = Inr p"
    using built WK key pt wk sealed parsed
    by (cases "pow_Solve C cancelled ?l sampleExpiresAt DefaultBits")
      (simp_all add: buildEnvelope_def Let_def derive_LookupID_def sample_epochs)
  define d where "d = signed_record C seed FixedNonce ?ct sampleExpiresAt p"
  have p8: "length p = 8" "pow_Verify C ?l sampleExpiresAt p DefaultBits" using pow_Solve_verifies [OF p] by simp_all
  have asm: "decoded_widths d" "Decoded_Verify C d = None" "record_Open C key (d_Nonce d) (d_CT d) = Inr pt"
    "VerifyPlaintext C (ed_public C TestIKSeed) pt = Inr ?body"
    using assembled_record [OF laws(2,3,4) seed(2) key(2) material_lengths(4) p8(1) material_lengths(2) pt, of sampleExpiresAt]
    by (simp_all add: Let_def d_def)
  have fields: "ve_Epoch env = 20295" "ve_Envelope env = transmitted d" "ve_SigningInput env = b64_Encode (SigningBytes d)"
    "vw_Value pow = b64_Encode (d_PoW d)" "vw_LeadingZeroBits pow = LeadingZeroBits (sha256 C (pow_Input ?l sampleExpiresAt p))"
    "ve_Plaintext env = b64_Encode pt" "ve_Body env = b64_Encode ?body" "ve_BodyUTF8 env = marshal_body sampleBody"
    using built WK key pt p wk sealed parsed
    by (auto simp: buildEnvelope_def Let_def derive_LookupID_def sample_epochs record_Sign_def Version_def byte_of_def
      d_def transmitted_def signed_record_def SigningBytes_def)
  have "d_LookupID d = derive_LookupID C (drop 32 ?wk)" "d_ExpiresAt d = sampleExpiresAt"
    "pow_Verify C (d_LookupID d) sampleExpiresAt (d_PoW d) DefaultBits"
    using wk p8 by (simp_all add: d_def signed_record_def Let_def derive_LookupID_def)
  moreover have "DefaultBits \<le> vw_LeadingZeroBits pow" using p8(2) fields by (simp add: pow_Verify_def split: if_splits)
  ultimately show thesis using asm fields WK key(1) by (intro that) simp_all
qed

text \<open>
  C40. The vectors are consistent. Whatever file the generator gives, its rows are the schedule for the
  sample times, with one pairing row for each epoch; its envelope decodes, verifies and proves its
  work, is filed under the identifier of the row of its epoch, opens under that row's record key
  to the plaintext of the file, and the body in it is signed by the published identity key and
  reads back as the sample body.
\<close>

theorem vectors_consistent:
  assumes "hkdf_ok C" "sha256_ok C" "ed25519_ok C" "gcm_ok C" and "Generate C cancelled = Inr f"
  shows "map v_UnixTime (f_Epochs f) = map fst sampleTimes \<and> map v_Epoch (f_Epochs f) = [20294, 20295, 20295, 20296] \<and>
    map vp_Epoch (f_Pairing f) = [20294, 20295, 20296] \<and>
    (\<exists>row d key pt body ikPub. row \<in> set (f_Epochs f) \<and> v_Epoch row = ve_Epoch (f_Envelope f) \<and>
      Envelope_Decode (ve_Envelope (f_Envelope f)) = Inr d \<and> v_LookupID row = e_LookupID (ve_Envelope (f_Envelope f)) \<and>
      Decoded_Verify C d = None \<and> b64_Decode (ve_SigningInput (f_Envelope f)) = Some (SigningBytes d) \<and>
      pow_Verify C (d_LookupID d) (d_ExpiresAt d) (d_PoW d) DefaultBits \<and>
      b64_Decode (v_RecordKey row) = Some key \<and> record_Open C key (d_Nonce d) (d_CT d) = Inr pt \<and>
      b64_Decode (ve_Plaintext (f_Envelope f)) = Some pt \<and> b64_Decode (f_IKPub f) = Some ikPub \<and>
      VerifyPlaintext C ikPub pt = Inr body \<and> b64_Decode (ve_Body (f_Envelope f)) = Some body \<and>
      unmarshal_body (string_of_bytes body) = Some sampleBody)"
proof -
  obtain es ps env pow where gen: "generate_rows C sampleTimes [] [] = Inr (es, ps)"
    "buildEnvelope C cancelled (NewKeyFromSeed C TestIKSeed) = Inr (env, pow)"
    and f: "f_Epochs f = es" "f_Pairing f = ps" "f_Envelope f = env"
      "f_IKPub f = b64_Encode (drop 32 (NewKeyFromSeed C TestIKSeed))"
    using assms(5) by (auto simp: Generate_def Let_def split: sum.splits)
  note rows = generate_sample_rows [OF gen(1)]
  from rows(1) have times: "map v_UnixTime es = map fst sampleTimes"
    by (induction) (simp_all add: epoch_row_def)
  have "20295 \<in> set (map v_Epoch es)" unfolding rows(2) by simp
  then obtain row where row: "row \<in> set es" "v_Epoch row = 20295" by auto
  then obtain t where "epoch_row C t row" using rows(1) by (metis in_set_conv_nth list_all2_conv_all_nth)
  moreover obtain d wk key pt where e: "ve_Epoch env = 20295" "WriteKey C TestSDir 20295 = Inr wk"
    "RecordKey C TestSDir 20295 = Inr key" "ve_Envelope env = transmitted d" "decoded_widths d"
    "d_LookupID d = derive_LookupID C (drop 32 wk)" "d_ExpiresAt d = sampleExpiresAt"
    "Decoded_Verify C d = None" "ve_SigningInput env = b64_Encode (SigningBytes d)"
    "pow_Verify C (d_LookupID d) sampleExpiresAt (d_PoW d) DefaultBits"
    "record_Open C key (d_Nonce d) (d_CT d) = Inr pt" "ve_Plaintext env = b64_Encode pt"
    "VerifyPlaintext C (ed_public C TestIKSeed) pt = Inr (bytes_of_string (marshal_body sampleBody))"
    "ve_Body env = b64_Encode (bytes_of_string (marshal_body sampleBody))"
    by (rule buildEnvelope_spec [OF assms(1-4) gen(2)])
  ultimately have keys: "v_LookupID row = b64_Encode (d_LookupID d)" "v_RecordKey row = b64_Encode key"
    using row(2) by (auto simp: epoch_row_def)
  have "drop 32 (NewKeyFromSeed C TestIKSeed) = ed_public C TestIKSeed"
    using signature_length [OF assms(3) material_lengths(2)] by simp
  moreover have "Envelope_Decode (ve_Envelope env) = Inr d"
    using e Envelope_Decode_transmitted by simp
  moreover have "unmarshal_body (marshal_body sampleBody) = Some sampleBody"
    by (rule unmarshal_marshal_body [OF sampleBody_printable])
  moreover have "e_LookupID (ve_Envelope env) = b64_Encode (d_LookupID d)" using e by (simp add: transmitted_def)
  ultimately show ?thesis
    unfolding f using times rows row e keys
    by (intro conjI exI [of _ row] exI [of _ d] exI [of _ key] exI [of _ pt]
      exI [of _ "bytes_of_string (marshal_body sampleBody)"] exI [of _ "ed_public C TestIKSeed"]) simp_all
qed

section \<open>The generator succeeds when the search does\<close>

lemma rows_total:
  assumes "hkdf_ok C"
  shows "\<exists>es' ps'. generate_rows C ts es ps = Inr (es', ps')"
proof (induction ts arbitrary: es ps)
  case (Cons x ts)
  obtain t label where x: "x = (t, label)" by (cases x)
  have der: "\<exists>out. derived C s label ep = Inr out" if "length s = 32" for s label ep
  proof -
    have "(32 :: nat) \<le> 255 * 32" by simp
    with assms obtain out where "hkdf C s (epochInfo label ep) 32 = Some out" unfolding hkdf_ok_def by blast
    with that show ?thesis by (simp add: derived_def SDirLen_def KeyLen_def)
  qed
  have "\<exists>e. epochVector C t label = Inr e"
  proof -
    obtain a b c where "WriteSeed C TestSDir (Epoch t) = Inr a" "RecordKey C TestSDir (Epoch t) = Inr b"
      "MailboxID C TestSDir (Epoch t) = Inr c"
      using der [OF material_lengths(1)] unfolding WriteSeed_def RecordKey_def MailboxID_def by blast
    then show ?thesis by (simp add: epochVector_def Let_def WriteKey_def)
  qed
  then obtain e where e: "epochVector C t label = Inr e" by blast
  obtain a b where "PairWriteSeed C TestSPair (v_Epoch e) = Inr a" "PairRecordKey C TestSPair (v_Epoch e) = Inr b"
    using der [OF material_lengths(3)] unfolding PairWriteSeed_def PairRecordKey_def by blast
  then obtain p where "pairVector C (v_Epoch e) = Inr p"
    by (simp add: pairVector_def Let_def PairWriteKey_def)
  with e Cons.IH show ?case by (simp add: x)
qed simp

lemma sample_length: "length (marshal_body sampleBody) \<le> 500"
proof -
  have "length (Itoa 1) = 1" "length (Itoa 1753488000) = 10" "length (Itoa 8096) = 4" "length (Itoa 8443) = 4" "length (Itoa 443) = 3"
    by (simp_all add: Itoa_def show_nat.simps)
  moreover have "length (json_quote ''lan'') = 5" "length (json_quote ''wan4'') = 6" "length (json_quote ''wan6'') = 6"
    "length (json_quote ''dns'') = 5" "length (json_quote ''192.168.1.50'') = 14" "length (json_quote ''203.0.113.7'') = 13"
    "length (json_quote ''2001:db8::42'') = 14" "length (json_quote ''media.example.net'') = 19"
    "length (json_quote ''ice'') = 5" "length (json_quote ''quic'') = 6" "length (json_quote ''hls'') = 5" "length (json_quote ''pki'') = 5"
    by code_simp+
  ultimately show ?thesis
    by (simp add: marshal_body_def sampleBody_def slice_text_def array_text_def endpoint_text_def tls_text_def
      object_text_def quoted_def endpoint_types TLSModePKI_def Version_def sampleTS_def)
qed

lemma envelope_total:
  assumes laws: "hkdf_ok C" "ed25519_ok C" and solve: "\<And>l. \<exists>p. pow_Solve C cancelled l sampleExpiresAt DefaultBits = Inr p"
  shows "\<exists>env pow. buildEnvelope C cancelled (NewKeyFromSeed C TestIKSeed) = Inr (env, pow)"
proof -
  obtain seed where seed: "WriteSeed C TestSDir 20295 = Inr seed" "length seed = 32"
    using derived_lengths(1) [OF laws(1) material_lengths(1)] by blast
  obtain key where key: "RecordKey C TestSDir 20295 = Inr key" "length key = 32"
    using derived_lengths(2) [OF laws(1) material_lengths(1)] by blast
  note wk = signature_length [OF laws(2) seed(2)] and ik = signature_length [OF laws(2) material_lengths(2)]
  note sample_length
  then have body: "length (marshal_body sampleBody) \<le> MaxBodyLen" by (simp add: MaxBodyLen_def)
  have pt: "MarshalPlaintext C (NewKeyFromSeed C TestIKSeed) (bytes_of_string (marshal_body sampleBody)) =
    Inr (be_bytes 2 (length (marshal_body sampleBody)) @ bytes_of_string (marshal_body sampleBody) @
      ed_sign C (NewKeyFromSeed C TestIKSeed) (bytes_of_string (marshal_body sampleBody)))"
    using ik body by (simp add: MarshalPlaintext_def)
  have "newGCM key = None" using key by (simp add: newGCM_def record_lens)
  moreover obtain p where "pow_Solve C cancelled (derive_LookupID C (drop 32 (NewKeyFromSeed C seed))) sampleExpiresAt DefaultBits = Inr p"
    using solve by blast
  moreover note ParsePlaintext_framed [of "ed_sign C (NewKeyFromSeed C TestIKSeed) (bytes_of_string (marshal_body sampleBody))"
    "bytes_of_string (marshal_body sampleBody)"]
  ultimately show ?thesis
    using seed key wk ik body pt
    by (simp add: buildEnvelope_def Let_def WriteKey_def sample_epochs SealWithNonce_def NonceLen_def record_Sign_def)
qed

lemma zero_counter: "be_bytes n 0 = replicate n 0"
  by (induction n) (simp_all add: byte_of_def replicate_append_same)

lemma lzb_zeros: "lzb n (replicate k 0 @ x) = lzb (n + 8 * int k) x"
  by (induction k arbitrary: n) (simp_all add: algebra_simps)

lemma pad_zeros: "8 \<le> n \<Longrightarrow> pad n (replicate 8 0 @ x) = replicate 8 0 @ take (n - 8) (x @ replicate n 0)"
  by (simp add: pad_def)

lemma toy_solves: "pow_Solve toy_crypto (\<lambda>i. False) l e DefaultBits = Inr (be_bytes 8 0)"
proof -
  obtain a where input: "pow_Input l e (replicate 8 0) = a @ replicate 8 0" by (simp add: pow_Input_def)
  have "sha256 toy_crypto (a @ replicate 8 0) = replicate 8 0 @ take 24 (rev a @ replicate 32 0)"
    using pad_zeros [of 32 "rev a"] by (simp add: toy_crypto_def)
  then have "DefaultBits \<le> LeadingZeroBits (sha256 toy_crypto (pow_Input l e (replicate 8 0)))"
    unfolding input using lzb_shift [of 64] lzb_nonneg by (simp add: LeadingZeroBits_def DefaultBits_def lzb_zeros)
  then have "solves toy_crypto l e DefaultBits 0"
    unfolding solves_def pow_Verify_def zero_counter by (simp add: pow_Len_def DefaultBits_def)
  then have "solve_from toy_crypto (\<lambda>i. False) (pow_Input l e (replicate 8 0)) DefaultBits 0 = Inr (be_bytes 8 0)"
    using solve_from_step [of "replicate 8 0" DefaultBits toy_crypto "\<lambda>i. False" l e 0]
    by (simp add: DefaultBits_def del: be_bytes.simps)
  then show ?thesis unfolding pow_Solve_def by (simp add: DefaultBits_def MaxBits_def pow_Len_def)
qed

theorem vectors_consistent_witness:
  "\<exists>f d. Generate toy_crypto (\<lambda>i. False) = Inr f \<and> map vp_Epoch (f_Pairing f) = [20294, 20295, 20296] \<and>
    Envelope_Decode (ve_Envelope (f_Envelope f)) = Inr d \<and> Decoded_Verify toy_crypto d = None"
proof -
  have laws: "hkdf_ok toy_crypto" "sha256_ok toy_crypto" "ed25519_ok toy_crypto" "gcm_ok toy_crypto" by simp_all
  obtain es ps where "generate_rows toy_crypto sampleTimes [] [] = Inr (es, ps)" using rows_total [OF laws(1)] by blast
  moreover obtain env pow where "buildEnvelope toy_crypto (\<lambda>i. False) (NewKeyFromSeed toy_crypto TestIKSeed) = Inr (env, pow)"
    using envelope_total [OF laws(1,3)] toy_solves by blast
  ultimately obtain f where f: "Generate toy_crypto (\<lambda>i. False) = Inr f" by (simp add: Generate_def Let_def)
  from vectors_consistent [OF laws f] f show ?thesis by (elim conjE exE) (intro exI conjI, assumption+)
qed

end
