(* ===== verification/Json_Indent.thy ===== *)
theory Json_Indent imports Material begin

text \<open>
  What \<open>encoding/json\<close>'s \<open>Encoder\<close> writes with an indentation of two spaces and HTML escaping
  off, and that the parser of \<open>Json\<close> reads it back: the value itself, except that bytes of a
  string that are not UTF-8 have become the replacement rune.
\<close>

section \<open>Strings\<close>

text \<open>Every maximal piece that is not UTF-8 replaced, as the encoder does it.\<close>

function to_valid :: "string \<Rightarrow> string" where
  "to_valid [] = []"
| "to_valid (c # cs) =
    (if (of_char c :: nat) < 0x80 then c # to_valid cs
     else let (r, n) = utf8_decode c cs in utf8_encode r @ to_valid (drop (n - 1) cs))"
  by pat_completeness auto
termination
  by (relation "measure length") auto

text \<open>What a well-formed sequence of more than one byte is, whatever follows it.\<close>

lemma utf8_cont_append: "cs \<noteq> [] \<Longrightarrow> utf8_cont lo hi (cs @ s) = utf8_cont lo hi cs"
  by (cases cs) (simp_all add: utf8_cont_def)

lemma utf8_cont_Some: "utf8_cont lo hi cs = Some x \<longleftrightarrow> (\<exists>b s. cs = b # s \<and> lo \<le> of_char b \<and> of_char b \<le> hi \<and> x = of_char b - 0x80)"
  by (cases cs) (auto simp: utf8_cont_def)

lemma digit_div: "x < m \<Longrightarrow> (p * m + x) div m = (p :: nat)"
  by simp

lemma digit_mod: "x < m \<Longrightarrow> (p * m + x) mod m = (x :: nat)"
  by simp

lemma utf8_encode_two: "2 \<le> p \<Longrightarrow> p < 32 \<Longrightarrow> q < 64 \<Longrightarrow> utf8_encode (p * 64 + q) = map char_of [0xC0 + p, 0x80 + q :: nat]"
  by (simp add: utf8_encode_def)

lemma utf8_encode_three:
  assumes "p < 16" "q < 64" "u < 64" "p = 0 \<longrightarrow> 32 \<le> q" "p = 13 \<longrightarrow> q < 32" "r = (p * 64 + q) * 64 + u"
  shows "utf8_encode r = map char_of [0xE0 + p, 0x80 + q, 0x80 + u :: nat]"
proof -
  have d: "r div 64 = p * 64 + q" "r mod 64 = u" using assms(3) digit_div digit_mod unfolding assms(6) by blast+
  then have "r div 4096 = p" "r div 64 mod 64 = q"
    using assms(2) digit_div [of q 64 p] digit_mod [of q 64 p] div_mult2_eq [of r 64 64] by simp_all
  moreover have "0x800 \<le> r" using assms(4,6) by (cases "p = 0") auto
  moreover have "r < 0x10000" using assms(1-3,6) by simp
  moreover have "\<not> (0xD800 \<le> r \<and> r < 0xE000)"
  proof (cases "p = 13")
    case True
    with assms(3,5,6) show ?thesis by simp
  next
    case False
    then have "p \<le> 12 \<or> 14 \<le> p" by linarith
    then show ?thesis using assms(2,3,6) by auto
  qed
  ultimately show ?thesis using d(2) by (auto simp: utf8_encode_def)
qed

lemma utf8_encode_four:
  assumes "p < 5" "q < 64" "u < 64" "w < 64" "p = 0 \<longrightarrow> 16 \<le> q" "p = 4 \<longrightarrow> q < 16" "r = ((p * 64 + q) * 64 + u) * 64 + w"
  shows "utf8_encode r = map char_of [0xF0 + p, 0x80 + q, 0x80 + u, 0x80 + w :: nat]"
proof -
  have d: "r div 64 = (p * 64 + q) * 64 + u" "r mod 64 = w" using assms(4) digit_div digit_mod unfolding assms(7) by blast+
  then have e: "r div 4096 = p * 64 + q" "r div 64 mod 64 = u"
    using assms(3) digit_div [of u 64 "p * 64 + q"] digit_mod [of u 64 "p * 64 + q"] div_mult2_eq [of r 64 64] by simp_all
  then have "r div 262144 = p" "r div 4096 mod 64 = q"
    using assms(2) digit_div [of q 64 p] digit_mod [of q 64 p] div_mult2_eq [of r 4096 64] by simp_all
  moreover have "0x10000 \<le> r" using assms(5,7) by (cases "p = 0") auto
  moreover have "r \<le> 0x10FFFF"
  proof (cases "p = 4")
    case True
    with assms(3,4,6,7) show ?thesis by simp
  next
    case False
    then have "p \<le> 3" using assms(1) by linarith
    then show ?thesis using assms(2-4,7) by simp
  qed
  ultimately show ?thesis using d(2) e(2) by (simp add: utf8_encode_def)
qed

lemma continuation: "0x80 \<le> (of_char y :: nat) \<Longrightarrow> (of_char y :: nat) \<le> 0xBF \<Longrightarrow>
    \<exists>q < 64. y = char_of (0x80 + q :: nat)"
  by (intro exI [of _ "(of_char y :: nat) - 0x80"]) auto

text \<open>What a well-formed sequence of more than one byte is, whatever follows it.\<close>

definition sequence_of :: "nat \<Rightarrow> nat \<Rightarrow> char \<Rightarrow> string \<Rightarrow> bool" where
  "sequence_of r n c t \<longleftrightarrow> length t = n - 1 \<and> 1 < n \<and> (\<forall>x \<in> set t. 128 \<le> (of_char x :: nat)) \<and>
    utf8_encode r = c # t \<and> (\<forall>s. utf8_decode c (t @ s) = (r, n))"

lemma sequence_two:
  assumes "0xC2 \<le> (of_char c :: nat)" "(of_char c :: nat) \<le> 0xDF" "utf8_decode c cs = (r, n)" "\<not> (r = 0xFFFD \<and> n = 1)"
  shows "\<exists>t s. cs = t @ s \<and> sequence_of r n c t"
proof -
  from assms obtain y s where y: "cs = y # s" "0x80 \<le> (of_char y :: nat)" "(of_char y :: nat) \<le> 0xBF"
    by (auto simp: utf8_decode_def Let_def utf8_cont_Some split: option.splits)
  obtain q :: nat where q: "q < 64" "y = char_of (0x80 + q)" using continuation [OF y(2,3)] by blast
  obtain p :: nat where p: "p < 32" "2 \<le> p" "c = char_of (0xC0 + p :: nat)"
    using assms(1,2) by (intro that [of "of_char c - 0xC0"]) auto
  have d: "utf8_decode c ([y] @ s') = (p * 64 + q, 2)" for s'
    using p q by (simp add: utf8_decode_def Let_def utf8_cont_def)
  with assms(3) y(1) have "r = p * 64 + q" "n = 2" by (metis append_Cons append_Nil prod.inject)+
  then show ?thesis using d q p utf8_encode_two [OF p(2,1) q(1)] y(1)
    by (intro exI [of _ "[y]"] exI [of _ s]) (simp add: sequence_of_def)
qed

lemma sequence_three:
  assumes "0xE0 \<le> (of_char c :: nat)" "(of_char c :: nat) \<le> 0xEF" "utf8_decode c cs = (r, n)" "\<not> (r = 0xFFFD \<and> n = 1)"
  shows "\<exists>t s. cs = t @ s \<and> sequence_of r n c t"
proof -
  from assms obtain y u s where y: "cs = y # u # s" "0x80 \<le> (of_char y :: nat)" "(of_char y :: nat) \<le> 0xBF"
    "0x80 \<le> (of_char u :: nat)" "(of_char u :: nat) \<le> 0xBF"
    "(of_char c :: nat) = 0xE0 \<longrightarrow> 0xA0 \<le> (of_char y :: nat)" "(of_char c :: nat) = 0xED \<longrightarrow> (of_char y :: nat) \<le> 0x9F"
    by (cases cs; cases "tl cs") (auto simp: utf8_decode_def Let_def utf8_cont_Some split: option.splits if_splits)
  obtain q :: nat where q: "q < 64" "y = char_of (0x80 + q)" using continuation [OF y(2,3)] by blast
  obtain v :: nat where v: "v < 64" "u = char_of (0x80 + v)" using continuation [OF y(4,5)] by blast
  obtain p :: nat where p: "p < 16" "c = char_of (0xE0 + p :: nat)"
    using assms(1,2) by (intro that [of "of_char c - 0xE0"]) auto
  have b: "p = 0 \<longrightarrow> 32 \<le> q" "p = 13 \<longrightarrow> q < 32" using y(6,7) p q by auto
  have d: "utf8_decode c ([y, u] @ s') = (p * 4096 + q * 64 + v, 3)" for s'
    using p q v b by (auto simp: utf8_decode_def Let_def utf8_cont_def)
  with assms(3) y(1) have "r = p * 4096 + q * 64 + v" "n = 3" by (metis append_Cons append_Nil prod.inject)+
  then show ?thesis using d q p v utf8_encode_three [OF p(1) q(1) v(1) b, of r] y(1)
    by (intro exI [of _ "[y, u]"] exI [of _ s]) (simp add: sequence_of_def)
qed

lemma sequence_four:
  assumes "0xF0 \<le> (of_char c :: nat)" "(of_char c :: nat) \<le> 0xF4" "utf8_decode c cs = (r, n)" "\<not> (r = 0xFFFD \<and> n = 1)"
  shows "\<exists>t s. cs = t @ s \<and> sequence_of r n c t"
proof -
  from assms obtain y u w s where y: "cs = y # u # w # s" "0x80 \<le> (of_char y :: nat)" "(of_char y :: nat) \<le> 0xBF"
    "0x80 \<le> (of_char u :: nat)" "(of_char u :: nat) \<le> 0xBF" "0x80 \<le> (of_char w :: nat)" "(of_char w :: nat) \<le> 0xBF"
    "(of_char c :: nat) = 0xF0 \<longrightarrow> 0x90 \<le> (of_char y :: nat)" "(of_char c :: nat) = 0xF4 \<longrightarrow> (of_char y :: nat) \<le> 0x8F"
    by (cases cs; cases "tl cs"; cases "tl (tl cs)") (auto simp: utf8_decode_def Let_def utf8_cont_Some split: option.splits if_splits)
  obtain q :: nat where q: "q < 64" "y = char_of (0x80 + q)" using continuation [OF y(2,3)] by blast
  obtain v :: nat where v: "v < 64" "u = char_of (0x80 + v)" using continuation [OF y(4,5)] by blast
  obtain k :: nat where k: "k < 64" "w = char_of (0x80 + k)" using continuation [OF y(6,7)] by blast
  obtain p :: nat where p: "p < 5" "c = char_of (0xF0 + p :: nat)"
    using assms(1,2) by (intro that [of "of_char c - 0xF0"]) auto
  have b: "p = 0 \<longrightarrow> 16 \<le> q" "p = 4 \<longrightarrow> q < 16" using y(8,9) p q by auto
  have d: "utf8_decode c ([y, u, w] @ s') = (p * 262144 + q * 4096 + v * 64 + k, 4)" for s'
    using p q v k b by (auto simp: utf8_decode_def Let_def utf8_cont_def)
  with assms(3) y(1) have "r = p * 262144 + q * 4096 + v * 64 + k" "n = 4" by (metis append_Cons append_Nil prod.inject)+
  then show ?thesis using d q p v k utf8_encode_four [OF p(1) q(1) v(1) k(1) b, of r] y(1)
    by (intro exI [of _ "[y, u, w]"] exI [of _ s]) (simp add: sequence_of_def)
qed

lemma utf8_decode_valid:
  assumes "utf8_decode c cs = (r, n)" "\<not> (r = 0xFFFD \<and> n = 1)" "128 \<le> (of_char c :: nat)"
  shows "\<exists>t s. cs = t @ s \<and> sequence_of r n c t"
proof -
  consider "0xC2 \<le> (of_char c :: nat) \<and> (of_char c :: nat) \<le> 0xDF" | "0xE0 \<le> (of_char c :: nat) \<and> (of_char c :: nat) \<le> 0xEF"
    | "0xF0 \<le> (of_char c :: nat) \<and> (of_char c :: nat) \<le> 0xF4"
    | (none) "\<not> (of_char c :: nat) < 0x80" "\<not> (0xC2 \<le> (of_char c :: nat) \<and> (of_char c :: nat) \<le> 0xDF)"
      "\<not> (0xE0 \<le> (of_char c :: nat) \<and> (of_char c :: nat) \<le> 0xEF)" "\<not> (0xF0 \<le> (of_char c :: nat) \<and> (of_char c :: nat) \<le> 0xF4)"
    using assms(3) by fastforce
  then show ?thesis
  proof cases
    case none
    then have "utf8_decode c cs = (0xFFFD, 1)" by (simp only: utf8_decode_def Let_def if_False)
    with assms(1,2) show ?thesis by simp
  next
    case 1
    with sequence_two [OF _ _ assms(1,2)] show ?thesis by simp
  next
    case 2
    with sequence_three [OF _ _ assms(1,2)] show ?thesis by simp
  next
    case 3
    with sequence_four [OF _ _ assms(1,2)] show ?thesis by simp
  qed
qed

lemma to_valid_sequence: "sequence_of r n c t \<Longrightarrow> 128 \<le> (of_char c :: nat) \<Longrightarrow> to_valid (c # t @ s) = c # t @ to_valid s"
  by (simp add: sequence_of_def)

lemma to_valid_ascii: "ascii s \<Longrightarrow> to_valid s = s"
  by (induction s) (simp_all add: ascii_def)

text \<open>A string literal of the encoder is read as one string, and unquoting it gives \<open>to_valid\<close>.\<close>

lemma high_bytes_pass:
  "\<forall>x \<in> set t. 128 \<le> (of_char x :: nat) \<Longrightarrow> string_body (t @ s) = map_option (apfst ((@) t)) (string_body s)"
proof (induction t)
  case Nil
  then show ?case by (cases "string_body s") (simp_all add: apfst_def map_prod_def split_beta)
next
  case (Cons x t)
  then have "x \<noteq> CHR 0x22" "x \<noteq> CHR 0x5C" "\<not> (of_char x :: nat) < 32" by auto
  with Cons show ?case by (cases "string_body s") (simp_all add: apfst_def map_prod_def split_beta)
qed

lemma escape_plain_reads:
  assumes "(of_char c :: nat) < 128"
  shows "string_body (escape_plain c @ s) = map_option (apfst ((@) (escape_plain c))) (string_body s)"
    and "unquote (escape_plain c @ s) = c # unquote s"
proof -
  have "string_body (c # s) = map_option (apfst (Cons c)) (string_body s)" "unquote (c # s) = c # unquote s"
    if "c = CHR ''<'' \<or> c = CHR ''>'' \<or> c = CHR ''&''"
    using that by auto
  then show "string_body (escape_plain c @ s) = map_option (apfst ((@) (escape_plain c))) (string_body s)"
    "unquote (escape_plain c @ s) = c # unquote s"
    using string_body_escape [OF assms, of s] unquote_escape [OF assms, of s]
    by (cases "string_body s"; auto simp: escape_plain_def)+
qed

lemma unicode_escape_reads:
  assumes "hex4 h = Some r" "length h = 4" "list_all plain_char h" "\<not> (0xD800 \<le> r \<and> r < 0xE000)"
  shows "string_body (CHR 0x5C # CHR ''u'' # h @ s) = map_option (apfst (\<lambda>b. CHR 0x5C # CHR ''u'' # h @ b)) (string_body s)"
    and "unquote (CHR 0x5C # CHR ''u'' # h @ s) = utf8_encode r @ unquote s"
proof -
  obtain a b c d where h: "h = [a, b, c, d]" using assms(2) by (auto simp: numeral_eq_Suc length_Suc_conv)
  with assms(1) have hs: "hex4 (h @ s) = Some r" by simp
  have "string_body (h @ s) = map_option (apfst ((@) h)) (string_body s)"
    using assms(3) unfolding h by (cases "string_body s") (simp_all add: string_body_plain_char apfst_def map_prod_def split_beta del: string_body.simps)
  with hs show "string_body (CHR 0x5C # CHR ''u'' # h @ s) = map_option (apfst (\<lambda>b. CHR 0x5C # CHR ''u'' # h @ b)) (string_body s)"
    by (cases "string_body s") (simp_all add: string_body_unicode apfst_def map_prod_def split_beta del: hex4.simps string_body.simps)
  have "drop 4 (h @ s) = s" by (simp add: assms(2))
  with hs assms(4) show "unquote (CHR 0x5C # CHR ''u'' # h @ s) = utf8_encode r @ unquote s"
    by (auto simp: Let_def simp del: hex4.simps)
qed

lemma escape_no_html_reads:
  "string_body (escape_no_html s @ CHR 0x22 # rest) = Some (escape_no_html s, rest) \<and> unquote (escape_no_html s) = to_valid s"
proof (induction s rule: escape_no_html.induct)
  case (2 c cs)
  show ?case
  proof (cases "(of_char c :: nat) < 128")
    case True
    with 2(1) show ?thesis by (simp add: escape_plain_reads)
  next
    case high: False
    obtain r n where rn: "utf8_decode c cs = (r, n)" by (cases "utf8_decode c cs")
    note IH = 2(2-4) [OF high rn [symmetric] refl]
    consider (bad) "r = 0xFFFD \<and> n = 1" | (separator) "\<not> (r = 0xFFFD \<and> n = 1)" "r = 0x2028 \<or> r = 0x2029"
      | (copied) "\<not> (r = 0xFFFD \<and> n = 1)" "\<not> (r = 0x2028 \<or> r = 0x2029)" by blast
    then show ?thesis
    proof cases
      case bad
      have "hex4 ''fffd'' = Some 0xFFFD" "list_all plain_char ''fffd''"
        by (simp_all add: hex_val_def plain_char_def)
      note u = unicode_escape_reads [OF this(1) _ this(2)]
      have "escape_no_html (c # cs) = CHR 0x5C # CHR ''u'' # ''fffd'' @ escape_no_html cs"
        "to_valid (c # cs) = utf8_encode 0xFFFD @ to_valid cs"
        using bad high rn by simp_all
      then show ?thesis using IH(1) [OF bad] u
        by (simp only: append_Cons append_assoc) (simp del: string_body.simps unquote.simps hex4.simps)
    next
      case separator
      then have "r mod 16 = 8 \<or> r mod 16 = 9" by auto
      have h: "hex4 [CHR ''2'', CHR ''0'', CHR ''2'', hex_char (r mod 16)] = Some r"
        "list_all plain_char [CHR ''2'', CHR ''0'', CHR ''2'', hex_char (r mod 16)]"
        using separator(2) plain_hex_char [of "r mod 16"] by (auto simp: hex_val_def hex_char_def plain_char_code)
      note u = unicode_escape_reads [OF h(1) _ h(2)]
      have "escape_no_html (c # cs) = CHR 0x5C # CHR ''u'' # [CHR ''2'', CHR ''0'', CHR ''2'', hex_char (r mod 16)] @
          escape_no_html (drop (n - 1) cs)" "to_valid (c # cs) = utf8_encode r @ to_valid (drop (n - 1) cs)"
        using separator high rn by simp_all
      moreover have "\<not> (0xD800 \<le> r \<and> r < 0xE000)" using separator(2) by auto
      ultimately show ?thesis using IH(2) [OF separator] u by (simp del: string_body.simps unquote.simps hex4.simps)
    next
      case copied
      obtain t s where t: "cs = t @ s" "sequence_of r n c t" using utf8_decode_valid [OF rn copied(1)] high by auto
      then have len: "take (n - 1) cs = t" "drop (n - 1) cs = s" by (simp_all add: sequence_of_def)
      have esc: "escape_no_html (c # cs) = (c # t) @ escape_no_html s" using copied high rn len by auto
      have "string_body ((c # t) @ escape_no_html s @ CHR 0x22 # rest) = Some ((c # t) @ escape_no_html s, rest)"
        using high_bytes_pass [of "c # t" "escape_no_html s @ CHR 0x22 # rest"] IH(3) [OF copied] t(2) high len(2)
        by (simp add: sequence_of_def del: string_body.simps)
      moreover have "c \<noteq> CHR 0x5C" using high by auto
      then have "unquote ((c # t) @ escape_no_html s) = (c # t) @ unquote (escape_no_html s)"
        using t(2) high by (simp add: sequence_of_def)
      moreover have "to_valid (c # cs) = (c # t) @ to_valid s"
        unfolding t(1) using to_valid_sequence [OF t(2), of s] high by simp
      moreover have "unquote (escape_no_html s) = to_valid s" using IH(3) [OF copied] len(2) by simp
      ultimately show ?thesis unfolding esc by (simp only: append_assoc)
    qed
  qed
qed simp

section \<open>Values\<close>

text \<open>\<open>json.Indent\<close> on the text of a value: an empty array or object stays on its line.\<close>

definition newline :: "nat \<Rightarrow> string" where
  "newline i = CHR 0x0A # replicate (2 * i) CHR '' ''"

lemma size_member [termination_simp]: "(k, v) \<in> set ms \<Longrightarrow> size v < Suc (size_list (size_prod (\<lambda>_. 0) size) ms)"
  by (induction ms) auto

fun indent_json :: "nat \<Rightarrow> json \<Rightarrow> string" where
  "indent_json i JNull = ''null''"
| "indent_json i (JBool b) = (if b then ''true'' else ''false'')"
| "indent_json i (JNum l) = l"
| "indent_json i (JStr s) = jsonString s"
| "indent_json i (JArr vs) =
    (if vs = [] then ''[]''
     else ''['' @ join '','' (map (\<lambda>v. newline (Suc i) @ indent_json (Suc i) v) vs) @ newline i @ '']'')"
| "indent_json i (JObj ms) =
    (if ms = [] then [CHR 0x7B, CHR 0x7D]
     else CHR 0x7B # join '','' (map (\<lambda>(k, v). newline (Suc i) @ jsonString k @ '': '' @ indent_json (Suc i) v) ms) @
       newline i @ [CHR 0x7D])"

text \<open>\<open>Encode\<close> ends the value with a newline.\<close>

definition encode_indented :: "json \<Rightarrow> string" where
  "encode_indented v = indent_json 0 v @ [CHR 0x0A]"

text \<open>Strings with what is not UTF-8 replaced, throughout a value.\<close>

fun read_back :: "json \<Rightarrow> json" where
  "read_back (JStr s) = JStr (to_valid s)"
| "read_back (JArr vs) = JArr (map read_back vs)"
| "read_back (JObj ms) = JObj (map (\<lambda>(k, v). (to_valid k, read_back v)) ms)"
| "read_back v = v"

text \<open>A value whose numbers are integers and whose nesting is at most \<open>d\<close>.\<close>

fun printable :: "nat \<Rightarrow> json \<Rightarrow> bool" where
  "printable d JNull = True"
| "printable d (JBool b) = True"
| "printable d (JNum l) = (\<exists>x. l = Itoa x)"
| "printable d (JStr s) = True"
| "printable (Suc d) (JArr vs) = (\<forall>v \<in> set vs. printable d v)"
| "printable (Suc d) (JObj ms) = (\<forall>m \<in> set ms. printable d (snd m))"
| "printable 0 v = False"

section \<open>Reading the indented text\<close>

text \<open>White space before a value or a member does not matter to the parser.\<close>

lemma skip_newline [simp]: "skip_ws (newline i @ s) = skip_ws s"
proof -
  have "dropWhile is_ws (replicate n CHR '' '' @ s) = dropWhile is_ws s" for n
    by (induction n) (simp_all add: is_ws_def)
  then show ?thesis by (simp add: skip_ws_def newline_def is_ws_def)
qed

lemma skip_space [simp]: "skip_ws (CHR '' '' # s) = skip_ws s"
  by (simp add: skip_ws_def is_ws_def)

lemma pval_skip: "skip_ws s = skip_ws t \<Longrightarrow> pval n d s = pval n d t"
  by (cases n) simp_all

lemma pmems_skip: "skip_ws s = skip_ws t \<Longrightarrow> pmems n d s = pmems n d t"
  by (cases n) simp_all

lemma pelems_skip: "skip_ws s = skip_ws t \<Longrightarrow> pelems n d s = pelems n d t"
  using pval_skip [of s t] by (cases n) simp_all

lemma reads_jsonString: "reads_whole d (jsonString s) (JStr (to_valid s))"
proof -
  have "pval (Suc 0) d (jsonString s @ r) = Some (JStr (to_valid s), r)" for r
    using escape_no_html_reads [of s r] by (simp add: jsonString_def)
  then show ?thesis unfolding reads_whole_def by blast
qed

lemma reads_word: "reads d ''null'' JNull" "reads d (if b then ''true'' else ''false'') (JBool b)"
proof -
  have "pval (Suc 0) d ((if b then ''true'' else ''false'') @ r) = Some (JBool b, r)" for r
    by (simp add: strip_prefix_def is_ws_def skip_ws_def)
  then show "reads d (if b then ''true'' else ''false'') (JBool b)" unfolding reads_def by blast
qed (rule reads_null)

lemma ends_newline [simp]: "ends_value (newline i @ r)"
  by (simp add: ends_value_def newline_def)

lemma indented_elements:
  assumes "\<forall>v \<in> set vs. reads d (t v) (f v)" and "vs \<noteq> []"
  shows "\<exists>n. \<forall>m \<ge> n. \<forall>r. pelems m d (join '','' (map (\<lambda>v. newline j @ t v) vs) @ newline i @ CHR '']'' # r) = Some (map f vs, r)"
  using assms
proof (induction vs)
  case (Cons v vs)
  obtain n where n: "pval m d (newline j @ t v @ r) = Some (f v, r)" if "m \<ge> n" "ends_value r" for m r
    using Cons.prems(1) pval_skip [OF skip_newline] unfolding reads_bounded by (metis list.set_intros(1))
  show ?case
  proof (cases vs)
    case Nil
    have "pelems m d (join '','' (map (\<lambda>v. newline j @ t v) (v # vs)) @ newline i @ CHR '']'' # r) = Some (map f (v # vs), r)"
      if "m \<ge> Suc n" for m r
      using that n [of "m - 1" "newline i @ CHR '']'' # r"] Nil
      by (cases m) (simp_all del: pval.simps)
    then show ?thesis by blast
  next
    case (Cons w ws)
    with Cons.IH Cons.prems(1) obtain k where
      k: "pelems m d (join '','' (map (\<lambda>v. newline j @ t v) vs) @ newline i @ CHR '']'' # r) = Some (map f vs, r)" if "m \<ge> k" for m r
      by (metis list.distinct(1) list.set_intros(2))
    have "pelems m d (join '','' (map (\<lambda>v. newline j @ t v) (v # vs)) @ newline i @ CHR '']'' # r) = Some (map f (v # vs), r)"
      if "m \<ge> Suc (max n k)" for m r
      using that n [of "m - 1" "CHR '','' # join '','' (map (\<lambda>v. newline j @ t v) vs) @ newline i @ CHR '']'' # r"] k [of "m - 1" r] Cons
      by (cases m) (simp_all add: ends_value_def del: pval.simps)
    then show ?thesis by blast
  qed
qed simp

lemma indented_members:
  assumes "\<forall>x \<in> set ms. reads d (t (snd x)) (f (snd x))" and "ms \<noteq> []"
  shows "\<exists>n. \<forall>m \<ge> n. \<forall>r. pmems m d (join '','' (map (\<lambda>(k, v). newline j @ jsonString k @ '': '' @ t v) ms) @ newline i @ CHR 0x7D # r) =
    Some (map (\<lambda>(k, v). (to_valid k, f v)) ms, r)"
  using assms
proof (induction ms)
  case (Cons x ms)
  obtain k v where x: "x = (k, v)" by (cases x)
  obtain n where n: "pval m d (CHR '' '' # t v @ r) = Some (f v, r)" if "m \<ge> n" "ends_value r" for m r
    using Cons.prems(1) x pval_skip [OF skip_space] unfolding reads_bounded by (metis list.set_intros(1) snd_conv)
  note name = escape_no_html_reads [of k]
  show ?case
  proof (cases ms)
    case Nil
    have "pmems m d (join '','' (map (\<lambda>(k, v). newline j @ jsonString k @ '': '' @ t v) (x # ms)) @ newline i @ CHR 0x7D # r) =
        Some (map (\<lambda>(k, v). (to_valid k, f v)) (x # ms), r)" if "m \<ge> Suc n" for m r
      using that n [of "m - 1" "newline i @ CHR 0x7D # r"] Nil name x
      by (cases m) (simp_all add: jsonString_def del: pval.simps string_body.simps unquote.simps)
    then show ?thesis by blast
  next
    case (Cons y ys)
    let ?rest = "\<lambda>r. join '','' (map (\<lambda>(k, v). newline j @ jsonString k @ '': '' @ t v) ms) @ newline i @ CHR 0x7D # r"
    obtain l where l: "pmems m d (?rest r) = Some (map (\<lambda>(k, v). (to_valid k, f v)) ms, r)" if "m \<ge> l" for m r
      using Cons.IH Cons.prems(1) Cons by (metis (no_types, lifting) list.distinct(1) list.set_intros(2))
    have whole: "join '','' (map (\<lambda>(k, v). newline j @ jsonString k @ '': '' @ t v) (x # ms)) @ newline i @ CHR 0x7D # r =
        newline j @ CHR 0x22 # escape_no_html k @ CHR 0x22 # CHR '':'' # CHR '' '' # t v @ CHR '','' # ?rest r" for r
      using Cons by (simp add: x jsonString_def)
    have "pmems m d (join '','' (map (\<lambda>(k, v). newline j @ jsonString k @ '': '' @ t v) (x # ms)) @ newline i @ CHR 0x7D # r) =
        Some (map (\<lambda>(k, v). (to_valid k, f v)) (x # ms), r)" if "m \<ge> Suc (max n l)" for m r
      using that n [of "m - 1" "CHR '','' # ?rest r"] l [of "m - 1" r] name [of "CHR '':'' # CHR '' '' # t v @ CHR '','' # ?rest r"]
      unfolding whole
      by (cases m) (simp_all add: x ends_value_def del: pval.simps string_body.simps unquote.simps join.simps)
    then show ?thesis by blast
  qed
qed simp

lemma pelems_first:
  assumes "pelems n d s = Some y"
  shows "\<exists>c r. skip_ws s = c # r \<and> c \<noteq> CHR '']''"
proof -
  obtain m where m: "n = Suc m" using assms by (cases n) auto
  then have "pval m d s \<noteq> None" using assms by (auto split: option.splits)
  then show ?thesis
    by (cases m; cases "skip_ws s") (auto simp: lex_number_def lex_int_def digits_def is_digit_def)
qed

lemma indent_reads: "printable d v \<Longrightarrow> reads d (indent_json i v) (read_back v)"
proof (induction d v arbitrary: i rule: printable.induct)
  case (1 d)
  then show ?case by (simp add: reads_word)
next
  case (2 d b)
  then show ?case by (simp only: indent_json.simps read_back.simps reads_word)
next
  case (3 d l)
  then show ?case by (auto intro: reads_Itoa)
next
  case (4 d s)
  then show ?case by (simp add: reads_wholeD [OF reads_jsonString])
next
  case (5 d vs)
  show ?case
  proof (cases "vs = []")
    case True
    have "pval (Suc 0) (Suc d) (''[]'' @ r) = Some (JArr [], r)" for r by simp
    with True show ?thesis unfolding reads_def by (intro exI [of _ "Suc 0"]) simp
  next
    case False
    let ?t = "\<lambda>r. join '','' (map (\<lambda>v. newline (Suc i) @ indent_json (Suc i) v) vs) @ newline i @ CHR '']'' # r"
    have "\<forall>v \<in> set vs. reads d (indent_json (Suc i) v) (read_back v)" using 5 by simp
    then obtain n where n: "pelems n d (?t r) = Some (map read_back vs, r)" for r
      using indented_elements [OF _ False] by blast
    have "pval (Suc n) (Suc d) (indent_json i (JArr vs) @ r) = Some (read_back (JArr vs), r)" for r
    proof -
      obtain c s where "skip_ws (?t r) = c # s" "c \<noteq> CHR '']''" using pelems_first [OF n [of r]] by blast
      with n [of r] False show ?thesis by (simp del: pelems.simps)
    qed
    then show ?thesis unfolding reads_def by blast
  qed
next
  case (6 d ms)
  show ?case
  proof (cases "ms = []")
    case True
    have "pval (Suc 0) (Suc d) ([CHR 0x7B, CHR 0x7D] @ r) = Some (JObj [], r)" for r by simp
    with True show ?thesis unfolding reads_def by (intro exI [of _ "Suc 0"]) simp
  next
    case False
    let ?m = "\<lambda>(k, v). newline (Suc i) @ jsonString k @ '': '' @ indent_json (Suc i) v"
    let ?t = "\<lambda>r. join '','' (map ?m ms) @ newline i @ CHR 0x7D # r"
    have "\<forall>m \<in> set ms. reads d (indent_json (Suc i) (snd m)) (read_back (snd m))" using 6 by simp
    then obtain n where n: "pmems n d (?t r) = Some (map (\<lambda>(k, v). (to_valid k, read_back v)) ms, r)" for r
      using indented_members [OF _ False] by blast
    have "pval (Suc n) (Suc d) (indent_json i (JObj ms) @ r) = Some (read_back (JObj ms), r)" for r
    proof -
      obtain k v ms' where ms: "ms = (k, v) # ms'" using False by (cases ms) auto
      have "\<exists>s. ?t r = newline (Suc i) @ CHR 0x22 # s" unfolding ms by (cases ms') (simp_all add: jsonString_def)
      then obtain s where "skip_ws (?t r) = CHR 0x22 # s" by auto
      with n [of r] False show ?thesis by (simp del: pmems.simps)
    qed
    then show ?thesis unfolding reads_def by blast
  qed
qed simp_all

lemma json_parse_indented:
  assumes "printable d v" "d \<le> maxNestingDepth"
  shows "json_parse (encode_indented v) = Some (read_back v)"
proof -
  obtain n where "pval n d (indent_json 0 v @ [CHR 0x0A]) = Some (read_back v, [CHR 0x0A])"
    using indent_reads [OF assms(1), of 0] unfolding reads_def by (auto simp: ends_value_def)
  from pval_enough [OF this assms(2)] show ?thesis
    by (simp add: json_parse_def encode_indented_def skip_ws_def is_ws_def)
qed

end
