(* ===== verification/Marshal.thy ===== *)
theory Marshal imports Fixture_File Vectors Json_Indent begin

text \<open>
  The two functions called \<open>Marshal\<close>, of \<open>internal/apivectors/apivectors.go\<close> and
  \<open>internal/vectors/vectors.go\<close>: the members of each struct under the names of its tags, in the
  order of its fields, written by an encoder that indents by two spaces and leaves HTML alone.
  The lists of the model stand for slices and maps that are not nil; the generators make no
  other. A map is written with its keys in order.
\<close>

definition json_int :: "int \<Rightarrow> json" where "json_int x = JNum (Itoa x)"
definition json_strings :: "string list \<Rightarrow> json" where "json_strings ss = JArr (map JStr ss)"

definition json_map :: "('a \<Rightarrow> json) \<Rightarrow> (string, 'a) gomap \<Rightarrow> json" where
  "json_map f m = JObj (map (\<lambda>(k, v). (k, f v)) (sort_key fst m))"

section \<open>The file of API fixtures\<close>

text \<open>\<open>omitempty\<close> leaves out an empty string and a zero.\<close>

definition body_json :: "wire_body \<Rightarrow> json" where
  "body_json b = JObj ((''encoding'', JStr (wb_Encoding b)) #
    (if wb_Value b = [] then [] else [(''value'', JStr (wb_Value b))]) @
    (if wb_Byte b = 0 then [] else [(''byte'', json_int (wb_Byte b))]) @
    (if wb_Length b = 0 then [] else [(''length'', json_int (wb_Length b))]))"

definition request_json :: "wire_request \<Rightarrow> json" where
  "request_json q = JObj
    [(''method'', JStr (wq_Method q)), (''path'', JStr (wq_Path q)), (''query'', JStr (wq_Query q)),
     (''headers'', json_map JStr (wq_Headers q)), (''body'', body_json (wq_Body q))]"

definition prior_json :: "prior_request \<Rightarrow> json" where
  "prior_json p = JObj
    [(''note'', JStr (pr_Note p)), (''repeat'', json_int (pr_Repeat p)),
     (''expect_status'', json_int (pr_ExpectStatus p)), (''request'', request_json (pr_Request p))]"

definition expect_json :: "expectation \<Rightarrow> json" where
  "expect_json e = JObj
    [(''status'', json_int (ex_Status e)), (''body'', body_json (ex_Body e)), (''comparison'', JStr (ex_Comparison e)),
     (''headers'', json_map JStr (ex_Headers e)), (''header_tokens'', json_map json_strings (ex_HeaderTokens e)),
     (''headers_absent'', json_strings (ex_HeadersAbsent e))]"

definition fixture_json :: "fixture \<Rightarrow> json" where
  "fixture_json f = JObj
    [(''id'', JStr (f_ID f)), (''spec'', JStr (f_Spec f)), (''row'', JStr (f_Row f)), (''note'', json_strings (f_Note f)),
     (''instance'', JStr (f_Instance f)), (''violates'', json_strings (f_Conditions f)),
     (''expect_first'', JStr (f_ExpectFirst f)), (''order_is_normative'', JBool (f_OrderIsNormative f)),
     (''discriminating'', JBool (f_Discriminating f)), (''mutates_state'', JBool (f_MutatesState f)),
     (''prior_requests'', JArr (map prior_json (f_PriorRequests f))), (''request'', request_json (f_Request f)),
     (''expect'', expect_json (f_Expect f))]"

definition coverage_json :: "coverage_row \<Rightarrow> json" where
  "coverage_json r = JObj
    [(''table'', JStr (cr_Table r)), (''row'', JStr (cr_Row r)), (''status'', json_int (cr_Status r)),
     (''fixtures'', json_strings (cr_Fixtures r))]"

definition invariants_json :: "response_invariants \<Rightarrow> json" where
  "invariants_json r = JObj
    [(''_note'', json_strings (ri_Note r)), (''applies_to'', JStr (ri_AppliesTo r)),
     (''headers'', json_map JStr (ri_Headers r)), (''headers_absent'', json_strings (ri_HeadersAbsent r))]"

definition channel_json :: "initial_channel \<Rightarrow> json" where
  "channel_json c = JObj
    [(''id'', JStr (ic_ID c)), (''note'', JStr (ic_Note c)), (''channel_id'', JStr (ic_ChannelID c)),
     (''posted_at'', json_int (ic_PostedAt c)), (''expires_at'', json_int (ic_ExpiresAt c)),
     (''held_at_now'', JBool (ic_Held c)), (''load_expect_status'', json_int (ic_LoadExpectStatus c)),
     (''blob'', body_json (ic_Blob c))]"

definition record_json :: "initial_record \<Rightarrow> json" where
  "record_json r = JObj
    [(''id'', JStr (ir_ID r)), (''note'', JStr (ir_Note r)), (''lookup_id'', JStr (ir_LookupID r)),
     (''loaded_at'', json_int (ir_LoadedAt r)), (''expires_at'', json_int (ir_ExpiresAt r)),
     (''load_expect_status'', json_int (ir_LoadExpectStatus r)), (''envelope'', body_json (ir_Envelope r))]"

definition state_json :: "initial_state \<Rightarrow> json" where
  "state_json s = JObj
    [(''_note'', json_strings (is_Note s)), (''records'', JArr (map record_json (is_Records s))),
     (''signal_channels'', JArr (map channel_json (is_SignalChannels s)))]"

definition limits_json :: "rate_limits \<Rightarrow> json" where
  "limits_json l = JObj
    [(''put_record'', json_int (rl_PutRecord l)), (''get_record'', json_int (rl_GetRecord l)),
     (''signal'', json_int (rl_Signal l)), (''window_seconds'', json_int (rl_WindowSeconds l))]"

definition instance_json :: "fx_instance \<Rightarrow> json" where
  "instance_json i = JObj
    [(''name'', JStr (in_Name i)), (''note'', json_strings (in_Note i)), (''max_ttl'', json_int (in_MaxTTL i)),
     (''max_record_bytes'', json_int (in_MaxRecordBytes i)), (''pow_bits'', json_int (in_PoWBits i)),
     (''skew_grace'', json_int (in_SkewGrace i)), (''signal'', JBool (in_Signal i)), (''draining'', JBool (in_Draining i)),
     (''max_signal_blob_bytes'', json_int (in_MaxSignalBlobBytes i)), (''signal_ttl'', json_int (in_SignalTTL i)),
     (''signal_poll_window_maximum'', json_int (in_SignalPollWindowMaximum i)), (''k_min'', json_int (in_KMin i)),
     (''source_url'', JStr (in_SourceURL i)), (''rate_limits'', limits_json (in_RateLimits i)),
     (''load_initial_records'', JBool (in_LoadInitialRecords i)),
     (''load_initial_channels'', JBool (in_LoadInitialChannels i))]"

definition harness_json :: "fx_harness \<Rightarrow> json" where
  "harness_json h = JObj
    [(''_note'', json_strings (ha_Note h)), (''reset_between_fixtures'', JBool (ha_ResetBetweenFixtures h)),
     (''order_independent'', JBool (ha_OrderIndependent h))]"

definition order_json :: "table_order \<Rightarrow> json" where
  "order_json t = JObj
    [(''table'', JStr (to_Table t)), (''order_is_normative'', JBool (to_Normative t)), (''note'', JStr (to_Note t)),
     (''conditions_in_order'', json_strings (to_Conditions t))]"

definition named_json :: "named_note \<Rightarrow> json" where
  "named_json n = JObj [(''name'', JStr (fst n)), (''note'', JStr (snd n))]"

definition encoding_json :: "encoding_notes \<Rightarrow> json" where
  "encoding_json e = JObj
    [(''_note'', JStr (en_Note e)), (''binary_values'', JStr (en_BinaryValues e)), (''bodies'', JStr (en_Bodies e)),
     (''body_encodings'', JArr (map named_json (en_BodyEncodings e))),
     (''comparisons'', JArr (map named_json (en_Comparisons e))), (''headers'', JStr (en_Headers e)),
     (''query'', JStr (en_Query e)), (''conditions'', JArr (map named_json (en_Conditions e))),
     (''evaluation_order'', JArr (map order_json (en_Tables e)))]"

definition file_json :: "fx_file \<Rightarrow> json" where
  "file_json f = JObj
    [(''_comment'', JStr (fl_Comment f)), (''_warning'', json_strings (fl_Warning f)), (''spec'', JStr (fl_Spec f)),
     (''generated_by'', JStr (fl_GeneratedBy f)), (''now'', json_int (fl_Now f)),
     (''encoding'', encoding_json (fl_Encoding f)), (''harness'', harness_json (fl_Harness f)),
     (''instances'', JArr (map instance_json (fl_Instances f))), (''initial_state'', state_json (fl_InitialState f)),
     (''response_invariants'', invariants_json (fl_ResponseInvariants f)),
     (''coverage'', JArr (map coverage_json (fl_Coverage f))), (''fixtures'', JArr (map fixture_json (fl_Fixtures f)))]"

definition fx_Marshal :: "fx_file \<Rightarrow> string" where
  "fx_Marshal f = encode_indented (file_json f)"

section \<open>The file of test vectors\<close>

definition conventions_json :: "vec_conventions \<Rightarrow> json" where
  "conventions_json c = JObj
    [(''_note'', JStr (vc_Note c)), (''integer_encoding'', JStr (vc_IntegerEncoding c)),
     (''hkdf_construction'', JStr (vc_HKDFConstruction c)), (''ed25519_seed'', JStr (vc_Ed25519Seed c)),
     (''envelope_signature'', JStr (vc_EnvelopeSignature c)), (''payload_signature'', JStr (vc_PayloadSignature c)),
     (''pow_input'', JStr (vc_PoWInput c))]"

definition epoch_json :: "vec_epoch \<Rightarrow> json" where
  "epoch_json e = JObj
    [(''note'', JStr (v_Note e)), (''unix_time'', json_int (v_UnixTime e)), (''epoch'', json_int (v_Epoch e)),
     (''epoch_start'', json_int (v_EpochStart e)), (''write_seed'', JStr (v_WriteSeed e)), (''wk_pub'', JStr (v_WKPub e)),
     (''wk_priv'', JStr (v_WKPriv e)), (''lookup_id'', JStr (v_LookupID e)), (''record_key'', JStr (v_RecordKey e)),
     (''mailbox_id'', JStr (v_MailboxID e))]"

definition pair_json :: "vec_pair \<Rightarrow> json" where
  "pair_json p = JObj
    [(''note'', JStr (vp_Note p)), (''epoch'', json_int (vp_Epoch p)), (''pair_write_seed'', JStr (vp_WriteSeed p)),
     (''pair_wk_pub'', JStr (vp_WKPub p)), (''pair_wk_priv'', JStr (vp_WKPriv p)),
     (''pair_lookup_id'', JStr (vp_LookupID p)), (''pair_record_key'', JStr (vp_RecordKey p))]"

definition envelope_json :: "Envelope \<Rightarrow> json" where
  "envelope_json e = JObj
    [(''v'', json_int (e_V e)), (''lookup_id'', JStr (e_LookupID e)), (''wk_pub'', JStr (e_WKPub e)),
     (''expires_at'', json_int (e_ExpiresAt e)), (''ct'', JStr (e_CT e)), (''nonce'', JStr (e_Nonce e)),
     (''pow'', JStr (e_PoW e)), (''sig'', JStr (e_Sig e))]"

definition sample_json :: "vec_envelope \<Rightarrow> json" where
  "sample_json e = JObj
    [(''note'', JStr (ve_Note e)), (''epoch'', json_int (ve_Epoch e)), (''body_utf8'', JStr (ve_BodyUTF8 e)),
     (''body'', JStr (ve_Body e)), (''body_len'', json_int (int (ve_BodyLen e))), (''payload_sig'', JStr (ve_PayloadSig e)),
     (''plaintext'', JStr (ve_Plaintext e)), (''nonce'', JStr (ve_Nonce e)),
     (''envelope_signing_input'', JStr (ve_SigningInput e)), (''envelope'', envelope_json (ve_Envelope e))]"

definition pow_json :: "vec_pow \<Rightarrow> json" where
  "pow_json w = JObj
    [(''note'', JStr (vw_Note w)), (''bits'', json_int (vw_Bits w)), (''lookup_id'', JStr (vw_LookupID w)),
     (''expires_at'', json_int (vw_ExpiresAt w)), (''input'', JStr (vw_Input w)), (''value'', JStr (vw_Value w)),
     (''digest'', JStr (vw_Digest w)), (''leading_zero_bits'', json_int (vw_LeadingZeroBits w))]"

definition vectors_json :: "vec_file \<Rightarrow> json" where
  "vectors_json f = JObj
    [(''_comment'', JStr (vf_Comment f)), (''_warning'', json_strings (vf_Warning f)), (''spec'', JStr (vf_Spec f)),
     (''encoding'', JStr (vf_Encoding f)), (''conventions'', conventions_json (vf_Conventions f)),
     (''s_dir'', JStr (f_SDir f)), (''s_pair'', JStr (f_SPair f)), (''ik_seed'', JStr (f_IKSeed f)),
     (''ik_pub'', JStr (f_IKPub f)), (''epochs'', JArr (map epoch_json (f_Epochs f))),
     (''pairing'', JArr (map pair_json (f_Pairing f))), (''envelope'', sample_json (f_Envelope f)), (''pow'', pow_json (f_PoW f))]"

definition vec_Marshal :: "vec_file \<Rightarrow> string" where
  "vec_Marshal f = encode_indented (vectors_json f)"

section \<open>Both are read back\<close>

lemma printable_mono: "printable d v \<Longrightarrow> d \<le> e \<Longrightarrow> printable e v"
proof (induction d v arbitrary: e rule: printable.induct)
  case (5 d vs)
  then show ?case by (cases e) auto
next
  case (6 d ms)
  then show ?case by (cases e) auto
qed auto

lemma printable_leaves [simp]: "printable d (json_int x)" "0 < d \<Longrightarrow> printable d (json_strings ss)"
  by (cases d; auto simp: json_int_def json_strings_def)+

lemma printable_map [simp]: "\<forall>m \<in> set ms. printable d (f (snd m)) \<Longrightarrow> printable (Suc d) (json_map f ms)"
  by (auto simp: json_map_def)

lemma printable_body [simp]: "printable (Suc d) (body_json b)"
  by (auto simp: body_json_def)

lemma printable_request [simp]: "printable (Suc (Suc d)) (request_json x)"
  by (auto simp: request_json_def)

lemma printable_prior [simp]: "printable (Suc (Suc (Suc d))) (prior_json x)"
  by (auto simp: prior_json_def)

lemma printable_expect [simp]: "printable (Suc (Suc (Suc d))) (expect_json x)"
  by (auto simp: expect_json_def)

lemma printable_fixture [simp]: "printable (Suc (Suc (Suc (Suc (Suc d))))) (fixture_json x)"
  by (auto simp: fixture_json_def)

lemma printable_coverage [simp]: "printable (Suc (Suc d)) (coverage_json x)"
  by (auto simp: coverage_json_def)

lemma printable_invariants [simp]: "printable (Suc (Suc d)) (invariants_json x)"
  by (auto simp: invariants_json_def)

lemma printable_channel [simp]: "printable (Suc (Suc d)) (channel_json x)"
  by (auto simp: channel_json_def)

lemma printable_record [simp]: "printable (Suc (Suc d)) (record_json x)"
  by (auto simp: record_json_def)

lemma printable_state [simp]: "printable (Suc (Suc (Suc (Suc d)))) (state_json x)"
  by (auto simp: state_json_def)

lemma printable_limits [simp]: "printable (Suc d) (limits_json x)"
  by (auto simp: limits_json_def)

lemma printable_instance [simp]: "printable (Suc (Suc d)) (instance_json x)"
  by (auto simp: instance_json_def)

lemma printable_harness [simp]: "printable (Suc (Suc d)) (harness_json x)"
  by (auto simp: harness_json_def)

lemma printable_order [simp]: "printable (Suc (Suc d)) (order_json x)"
  by (auto simp: order_json_def)

lemma printable_named [simp]: "printable (Suc d) (named_json x)"
  by (auto simp: named_json_def)

lemma printable_encoding [simp]: "printable (Suc (Suc (Suc (Suc d)))) (encoding_json x)"
  by (auto simp: encoding_json_def)

lemma printable_file [simp]: "printable (Suc (Suc (Suc (Suc (Suc (Suc (Suc d))))))) (file_json x)"
  by (auto simp: file_json_def)

lemma printable_conventions [simp]: "printable (Suc d) (conventions_json x)"
  by (auto simp: conventions_json_def)

lemma printable_epoch [simp]: "printable (Suc d) (epoch_json x)"
  by (auto simp: epoch_json_def)

lemma printable_pair [simp]: "printable (Suc d) (pair_json x)"
  by (auto simp: pair_json_def)

lemma printable_envelope [simp]: "printable (Suc d) (envelope_json x)"
  by (auto simp: envelope_json_def)

lemma printable_sample [simp]: "printable (Suc (Suc d)) (sample_json x)"
  by (auto simp: sample_json_def)

lemma printable_pow [simp]: "printable (Suc d) (pow_json x)"
  by (auto simp: pow_json_def)

lemma printable_vectors [simp]: "printable (Suc (Suc (Suc d))) (vectors_json x)"
  by (auto simp: vectors_json_def)

text \<open>The text of either file parses to the value it was made from, with what is not UTF-8 replaced.\<close>

lemma fixtures_text: "json_parse (fx_Marshal f) = Some (read_back (file_json f))"
  unfolding fx_Marshal_def by (rule json_parse_indented [OF printable_file [of 0]]) (simp add: maxNestingDepth_def)

lemma vectors_text: "json_parse (vec_Marshal v) = Some (read_back (vectors_json v))"
  unfolding vec_Marshal_def by (rule json_parse_indented [OF printable_vectors [of 0]]) (simp add: maxNestingDepth_def)

end
