(* ===== verification/Goflag.thy ===== *)
theory Goflag imports Netip begin

text \<open>
  What the commands use of Go's \<open>flag\<close>, \<open>strconv\<close> and \<open>os\<close>: the reading of integers and booleans
  and the walk of \<open>FlagSet.Parse\<close> over the arguments. A command gives the walk its flags (is the
  name known, is it boolean) and its setter, which may refuse a value.
\<close>

section \<open>Integers and booleans\<close>

text \<open>An optional sign, and the range of an \<open>int64\<close>.\<close>

definition signed_value :: "bool \<Rightarrow> nat \<Rightarrow> int option" where
  "signed_value neg n =
    (let v = (if neg then - int n else int n) in if is_i64 v then Some v else None)"

definition split_sign :: "string \<Rightarrow> bool \<times> string" where
  "split_sign s =
    (case s of
       c # r \<Rightarrow> if c = CHR ''-'' then (True, r) else if c = CHR ''+'' then (False, r) else (False, s)
     | [] \<Rightarrow> (False, []))"

text \<open>\<open>strconv.Atoi\<close>, which is \<open>ParseInt(s, 10, 64)\<close>.\<close>

definition Atoi :: "string \<Rightarrow> int option" where
  "Atoi s =
    (let (neg, ds) = split_sign s in
     if ds = [] \<or> \<not> list_all is_digit ds then None else signed_value neg (digits_value ds))"

text \<open>\<open>ParseInt(s, 0, 64)\<close>, which \<open>flag\<close> uses: a base prefix, and underscores between digits.\<close>

definition base_digit :: "char \<Rightarrow> nat option" where
  "base_digit c =
    (let n = of_char c :: nat in
     if 48 \<le> n \<and> n \<le> 57 then Some (n - 48)
     else if 97 \<le> n \<and> n \<le> 122 then Some (n - 97 + 10)
     else if 65 \<le> n \<and> n \<le> 90 then Some (n - 65 + 10)
     else None)"

fun base_value :: "nat \<Rightarrow> string \<Rightarrow> nat \<Rightarrow> nat option" where
  "base_value b [] acc = Some acc"
| "base_value b (c # cs) acc =
    (if c = CHR ''_'' then base_value b cs acc
     else case base_digit c of
       None \<Rightarrow> None
     | Some d \<Rightarrow> if d < b then base_value b cs (acc * b + d) else None)"

definition base_prefix :: "string \<Rightarrow> nat \<times> string" where
  "base_prefix s =
    (case s of
       c # d # r \<Rightarrow>
         if c \<noteq> CHR ''0'' then (10, s)
         else if r \<noteq> [] \<and> (d = CHR ''x'' \<or> d = CHR ''X'') then (16, r)
         else if r \<noteq> [] \<and> (d = CHR ''b'' \<or> d = CHR ''B'') then (2, r)
         else if r \<noteq> [] \<and> (d = CHR ''o'' \<or> d = CHR ''O'') then (8, r)
         else (8, d # r)
     | _ \<Rightarrow> (10, s))"

text \<open>
  \<open>underscoreOK\<close>: an underscore follows a digit or the base prefix and is followed by a digit.
  The argument says what precedes: \<open>0\<close> a digit or a prefix, \<open>1\<close> an underscore, \<open>2\<close> nothing.
\<close>

fun underscores_ok :: "nat \<Rightarrow> string \<Rightarrow> bool" where
  "underscores_ok st [] = (st \<noteq> 1)"
| "underscores_ok st (c # cs) =
    (if c = CHR ''_'' then st = 0 \<and> underscores_ok 1 cs else underscores_ok 0 cs)"

definition ParseInt0 :: "string \<Rightarrow> int option" where
  "ParseInt0 s =
    (let (neg, ds) = split_sign s; (b, body) = base_prefix ds in
     if ds = [] then None
     else if CHR ''_'' \<in> set body \<and> \<not> underscores_ok (if body = ds then 2 else 0) body then None
     else case base_value b body 0 of None \<Rightarrow> None | Some n \<Rightarrow> signed_value neg n)"

definition ParseBool :: "string \<Rightarrow> bool option" where
  "ParseBool s =
    (if s \<in> {''1'', ''t'', ''T'', ''TRUE'', ''true'', ''True''} then Some True
     else if s \<in> {''0'', ''f'', ''F'', ''FALSE'', ''false'', ''False''} then Some False
     else None)"

section \<open>Flags\<close>

datatype flag_error = ErrHelp | BadSyntax string | NotDefined string | NeedsArgument string | BadValue string string

text \<open>
  \<open>known name\<close> is \<open>None\<close> for an undefined flag and otherwise tells whether it is boolean;
  \<open>assign name value c\<close> is the configuration with the flag set, or \<open>None\<close> where its \<open>Set\<close> fails.
\<close>

function flag_Parse ::
  "(string \<Rightarrow> bool option) \<Rightarrow> (string \<Rightarrow> string \<Rightarrow> 'c \<Rightarrow> 'c option) \<Rightarrow> string list \<Rightarrow> 'c \<Rightarrow>
    flag_error + 'c \<times> string list" where
  "flag_Parse known assign [] c = Inr (c, [])"
| "flag_Parse known assign (s # args) c =
    (if length s < 2 \<or> take 1 s \<noteq> ''-'' then Inr (c, s # args)
     else if s = ''--'' then Inr (c, args)
     else
       let word = (if take 2 s = ''--'' then drop 2 s else drop 1 s) in
       if take 1 word = ''-'' \<or> take 1 word = ''='' then Inl (BadSyntax s)
       else
         let (name, val) = (case split_first CHR ''='' word of
               Some (n, v) \<Rightarrow> (n, Some v) | None \<Rightarrow> (word, None))
         in case known name of
              None \<Rightarrow> if name = ''help'' \<or> name = ''h'' then Inl ErrHelp else Inl (NotDefined name)
            | Some True \<Rightarrow>
                (let v = (case val of Some v \<Rightarrow> v | None \<Rightarrow> ''true'')
                 in case assign name v c of
                      None \<Rightarrow> Inl (BadValue name v) | Some c' \<Rightarrow> flag_Parse known assign args c')
            | Some False \<Rightarrow>
                (case val of
                   Some v \<Rightarrow> (case assign name v c of
                       None \<Rightarrow> Inl (BadValue name v) | Some c' \<Rightarrow> flag_Parse known assign args c')
                 | None \<Rightarrow>
                     (case args of
                        [] \<Rightarrow> Inl (NeedsArgument name)
                      | v # args' \<Rightarrow> (case assign name v c of
                          None \<Rightarrow> Inl (BadValue name v) | Some c' \<Rightarrow> flag_Parse known assign args' c'))))"
  by pat_completeness auto
termination
  by (relation "measure (\<lambda>(known, assign, args, c). length args)") auto

text \<open>The value an environment gives to a name, if it is set.\<close>

type_synonym environment = "string \<Rightarrow> string option"

definition flag_word :: "string \<Rightarrow> string \<Rightarrow> string" where
  "flag_word name v = CHR ''-'' # name @ CHR ''='' # v"

lemma split_first_append: "c \<notin> set l \<Longrightarrow> split_first c (l @ c # r) = Some (l, r)"
  by (induction l) auto

text \<open>A word \<open>-name=value\<close> sets the flag, whatever its kind, and the walk goes on.\<close>

lemma flag_Parse_word:
  assumes "name \<noteq> []" and "CHR ''='' \<notin> set name" and "hd name \<noteq> CHR ''-''" and "known name \<noteq> None"
  shows "flag_Parse known assign (flag_word name v # args) c =
    (case assign name v c of None \<Rightarrow> Inl (BadValue name v) | Some c' \<Rightarrow> flag_Parse known assign args c')"
proof -
  obtain k ks where name: "name = k # ks" using assms(1) by (cases name) auto
  with assms have "k \<noteq> CHR ''-''" "k \<noteq> CHR ''=''" by auto
  moreover have "split_first CHR ''='' (name @ CHR ''='' # v) = Some (name, v)"
    by (rule split_first_append [OF assms(2)])
  moreover obtain b where "known name = Some b" using assms(4) by auto
  ultimately show ?thesis
    by (cases b) (auto simp: flag_word_def name Let_def split: option.split)
qed

end
