(* ===== verification/Generators.thy ===== *)
theory Generators imports Marshal Goflag Conform_File begin

text \<open>
  \<open>cmd/gen-vectors\<close> and \<open>cmd/gen-api-vectors\<close>: the commands that write the two generated files.
  The interrupt is the predicate on the counters of the proof-of-work search; whether
  \<open>os.WriteFile\<close> succeeds is a parameter. A run gives the exit status and the calls of
  \<open>WriteFile\<close>, as path and content. What goes to standard error is left out.
\<close>

section \<open>The commands\<close>

datatype 'e gen_error = Generating 'e | WriteFailed

type_synonym file_writes = "(string \<times> string) list"

definition write_file :: "(string \<Rightarrow> string \<Rightarrow> bool) \<Rightarrow> string \<Rightarrow> string \<Rightarrow> 'e gen_error option \<times> file_writes" where
  "write_file writes out b = (if writes out b then None else Some WriteFailed, [(out, b)])"

definition vectors_run :: "crypto \<Rightarrow> (nat \<Rightarrow> bool) \<Rightarrow> (string \<Rightarrow> string \<Rightarrow> bool) \<Rightarrow> string \<Rightarrow>
    vec_error gen_error option \<times> file_writes" where
  "vectors_run C interrupted writes out =
    (case Generate C interrupted of
       Inl e \<Rightarrow> (Some (Generating e), [])
     | Inr f \<Rightarrow> write_file writes out (vec_Marshal f))"

definition fixtures_run :: "crypto \<Rightarrow> (nat \<Rightarrow> bool) \<Rightarrow> (string \<Rightarrow> string \<Rightarrow> bool) \<Rightarrow> string \<Rightarrow>
    fx_error gen_error option \<times> file_writes" where
  "fixtures_run C interrupted writes out =
    (case fx_Generate C interrupted of
       Inl e \<Rightarrow> (Some (Generating e), [])
     | Inr f \<Rightarrow> write_file writes out (fx_Marshal f))"

text \<open>
  The one flag; words that follow the flags are ignored. \<open>flag.Parse\<close> itself exits with 0 when
  help is asked for and with 2 on an error.
\<close>

definition out_flag :: "string \<Rightarrow> bool option" where
  "out_flag name = (if name = ''o'' then Some False else None)"

definition gen_main :: "string \<Rightarrow> (string \<Rightarrow> 'e gen_error option \<times> file_writes) \<Rightarrow> string list \<Rightarrow> nat \<times> file_writes" where
  "gen_main path run args =
    (case flag_Parse out_flag (\<lambda>name v out. Some v) args path of
       Inl e \<Rightarrow> (if e = ErrHelp then 0 else 2, [])
     | Inr (out, rest) \<Rightarrow> apfst (\<lambda>e. if e = None then 0 else 1) (run out))"

definition vectors_main :: "crypto \<Rightarrow> (nat \<Rightarrow> bool) \<Rightarrow> (string \<Rightarrow> string \<Rightarrow> bool) \<Rightarrow> string list \<Rightarrow> nat \<times> file_writes" where
  "vectors_main C interrupted writes args = gen_main ''testdata/vectors.json'' (vectors_run C interrupted writes) args"

definition fixtures_main :: "crypto \<Rightarrow> (nat \<Rightarrow> bool) \<Rightarrow> (string \<Rightarrow> string \<Rightarrow> bool) \<Rightarrow> string list \<Rightarrow> nat \<times> file_writes" where
  "fixtures_main C interrupted writes args = gen_main ''testdata/api-vectors.json'' (fixtures_run C interrupted writes) args"

section \<open>An interrupt never changes what is generated\<close>

text \<open>\<open>within r s\<close>: when \<open>r\<close> is a result, \<open>s\<close> is the same one.\<close>

definition within :: "'e + 'a \<Rightarrow> 'e + 'a \<Rightarrow> bool" where
  "within r s \<longleftrightarrow> (\<forall>x. r = Inr x \<longrightarrow> s = Inr x)"

named_theorems uninterrupted

lemma within_refl [uninterrupted]: "within r r"
  by (simp add: within_def)

lemma within_andThen [uninterrupted]: "within r s \<Longrightarrow> (\<And>x. within (f x) (g x)) \<Longrightarrow> within (andThen r f) (andThen s g)"
  by (auto simp: within_def andThen_Inr)

lemma within_Let [uninterrupted]: "within (f a) (g a) \<Longrightarrow> within (Let a f) (Let a g)"
  by (simp add: Let_def)

lemma within_pair [uninterrupted]: "(\<And>x y. within (f x y) (g x y)) \<Longrightarrow> within (case p of (x, y) \<Rightarrow> f x y) (case p of (x, y) \<Rightarrow> g x y)"
  by (cases p) simp

lemma solve_from_uninterrupted: "within (solve_from C ctx buf k i) (solve_from C (\<lambda>_. False) buf k i)"
proof (induction C ctx buf k i rule: solve_from.induct)
  case (1 C ctx buf k i)
  then show ?case
    by (subst (1 2) solve_from.simps) (auto simp: within_def Let_def)
qed

lemma Solve_uninterrupted: "within (pow_Solve C ctx l e k) (pow_Solve C (\<lambda>_. False) l e k)"
  using solve_from_uninterrupted by (auto simp: pow_Solve_def within_def)

lemma pub_solve_uninterrupted [uninterrupted]: "within (pub_solve C ctx p e) (pub_solve C (\<lambda>_. False) p e)"
  using Solve_uninterrupted [of C ctx "p_lookupID p" e fx_PoWBits] by (auto simp: pub_solve_def within_def split: sum.splits)

lemma pubSolve_uninterrupted [uninterrupted]: "within (pubSolve C ctx l e) (pubSolve C (\<lambda>_. False) l e)"
  unfolding pubSolve_def by (rule uninterrupted)

lemma envelope_uninterrupted [uninterrupted]: "within (pub_envelope C ctx p e) (pub_envelope C (\<lambda>_. False) p e)"
  unfolding pub_envelope_def by (intro uninterrupted)

lemma initial_uninterrupted [uninterrupted]: "within (initial_records C ctx i ps g) (initial_records C (\<lambda>_. False) i ps g)"
proof (induction C ctx i ps g rule: initial_records.induct)
  case (2 C ctx i p ps g)
  then show ?case unfolding initial_records.simps by (intro uninterrupted) (rule 2, rule refl)
qed (simp add: within_def)

lemma state_uninterrupted [uninterrupted]: "within (buildInitialState C ctx g) (buildInitialState C (\<lambda>_. False) g)"
  unfolding buildInitialState_def by (intro uninterrupted)

lemma puts_uninterrupted [uninterrupted]:
  "within (put_accepted C ctx g) (put_accepted C (\<lambda>_. False) g)"
  "within (put_sizes C ctx g) (put_sizes C (\<lambda>_. False) g)"
  "within (put_malformed C ctx g) (put_malformed C (\<lambda>_. False) g)"
  "within (put_ttl C ctx g) (put_ttl C (\<lambda>_. False) g)"
  "within (put_mismatch C ctx g) (put_mismatch C (\<lambda>_. False) g)"
  "within (put_pow C ctx g) (put_pow C (\<lambda>_. False) g)"
  "within (put_signature C ctx g) (put_signature C (\<lambda>_. False) g)"
  "within (put_expired C ctx g) (put_expired C (\<lambda>_. False) g)"
  "within (put_recency C ctx g) (put_recency C (\<lambda>_. False) g)"
  unfolding put_accepted_def put_sizes_def put_malformed_def put_ttl_def put_mismatch_def put_pow_def put_signature_def
    put_expired_def put_recency_def
  by (intro uninterrupted)+

lemma orders_uninterrupted [uninterrupted]:
  "within (order_lookup C ctx g) (order_lookup C (\<lambda>_. False) g)"
  "within (order_signature C ctx g) (order_signature C (\<lambda>_. False) g)"
  "within (order_blunt C ctx g) (order_blunt C (\<lambda>_. False) g)"
  "within (order_expired_replay C ctx g) (order_expired_replay C (\<lambda>_. False) g)"
  unfolding order_lookup_def order_signature_def order_blunt_def order_expired_replay_def
  by (intro uninterrupted)+

lemma records_uninterrupted [uninterrupted]:
  "within (buildOrderFixtures C ctx b g) (buildOrderFixtures C (\<lambda>_. False) b g)"
  "within (buildRecordFixtures C ctx g) (buildRecordFixtures C (\<lambda>_. False) g)"
proof -
  show "within (buildOrderFixtures C ctx b g) (buildOrderFixtures C (\<lambda>_. False) b g)" for b g
    unfolding buildOrderFixtures_def by (intro uninterrupted)
  note this [uninterrupted]
  show "within (buildRecordFixtures C ctx g) (buildRecordFixtures C (\<lambda>_. False) g)"
    unfolding buildRecordFixtures_def by (intro uninterrupted)
qed

lemma fixtures_uninterrupted: "within (fx_Generate C ctx) (fx_Generate C (\<lambda>_. False))"
  unfolding fx_Generate_def Generate_fixtures_def by (intro uninterrupted)

lemma vectors_uninterrupted: "within (Generate C ctx) (Generate C (\<lambda>_. False))"
proof -
  have "within (buildEnvelope C ctx ik) (buildEnvelope C (\<lambda>_. False) ik)" for ik
    using Solve_uninterrupted [of C ctx _ sampleExpiresAt DefaultBits]
    by (auto simp: buildEnvelope_def within_def Let_def split: sum.splits)
  then show ?thesis by (auto simp: Generate_def within_def Let_def split: sum.splits)
qed

section \<open>What the commands write\<close>

text \<open>
  How a run of either command ends: help and a flag error come from \<open>flag.Parse\<close>, a failed
  generation writes nothing, and otherwise the text of what the uninterrupted generator gives
  is written once and the status is that of the write.
\<close>

definition parsed_flags :: "string \<Rightarrow> string list \<Rightarrow> flag_error + string \<times> string list" where
  "parsed_flags path args = flag_Parse out_flag (\<lambda>name v out. Some v) args path"

definition ends :: "string \<Rightarrow> ('f \<Rightarrow> string) \<Rightarrow> 'e + 'f \<Rightarrow> 'e + 'f \<Rightarrow> (string \<Rightarrow> string \<Rightarrow> bool) \<Rightarrow> string list \<Rightarrow>
    nat \<times> file_writes \<Rightarrow> bool" where
  "ends path text result complete writes args r \<longleftrightarrow>
    (case parsed_flags path args of
       Inl e \<Rightarrow> r = (if e = ErrHelp then 0 else 2, [])
     | Inr (out, rest) \<Rightarrow>
         (case result of
            Inl e \<Rightarrow> r = (1, [])
          | Inr f \<Rightarrow> complete = Inr f \<and> r = (if writes out (text f) then 0 else 1, [(out, text f)])))"

lemma gen_main_ends:
  assumes "\<And>out. run out = (case result of Inl e \<Rightarrow> (Some (Generating e), []) | Inr f \<Rightarrow> write_file writes out (text f))"
    and "within result complete"
  shows "ends path text result complete writes args (gen_main path run args)"
proof (cases "parsed_flags path args")
  case (Inl e)
  then show ?thesis by (simp add: ends_def gen_main_def parsed_flags_def)
next
  case (Inr p)
  obtain out rest where p: "p = (out, rest)" by (cases p)
  with Inr assms show ?thesis
    by (cases result) (simp_all add: ends_def gen_main_def parsed_flags_def write_file_def within_def)
qed

text \<open>
  C16. Regenerating is reproducible. Whatever the arguments and whenever an interrupt comes, a run
  of \<open>gen-api-vectors\<close> or \<open>gen-vectors\<close> that cannot generate writes nothing and exits with 1; any
  other writes one file, at the path of the flag or at the committed one, whose bytes are those
  of the uninterrupted generator, and its status is zero exactly if that write succeeds.
\<close>

theorem regenerating_reproduces:
  "ends ''testdata/api-vectors.json'' fx_Marshal (fx_Generate C interrupted) (fx_Generate C (\<lambda>_. False)) writes args
    (fixtures_main C interrupted writes args) \<and>
   ends ''testdata/vectors.json'' vec_Marshal (Generate C interrupted) (Generate C (\<lambda>_. False)) writes args
    (vectors_main C interrupted writes args)"
  unfolding fixtures_main_def vectors_main_def
  by (intro conjI gen_main_ends [OF _ fixtures_uninterrupted] gen_main_ends [OF _ vectors_uninterrupted])
    (simp_all add: fixtures_run_def vectors_run_def)

end
