(* ===== verification/Server_Main.thy ===== *)
theory Server_Main imports Service Goflag begin

text \<open>
  \<open>main.go\<close>: the command line with its environment, the assembly of the service, the order of the
  shutdown and the sweeps on their timers. Opening the database and listening are calls of the
  environment, whose outcomes are arguments; what is printed and called is a list of actions.
\<close>

section \<open>Timeouts\<close>

definition readHeaderTimeout :: duration where "readHeaderTimeout = seconds 10"
definition readTimeout :: duration where "readTimeout = seconds 45"
definition writeTimeout :: duration where "writeTimeout = seconds 45"
definition idleTimeout :: duration where "idleTimeout = seconds 120"
definition maxHeaderBytes :: int where "maxHeaderBytes = 16 * 2 ^ 10"
definition shutdownGrace :: duration where "shutdownGrace = seconds 10"
definition recordSweepInterval :: duration where "recordSweepInterval = seconds 300"
definition limiterSweepInterval :: duration where "limiterSweepInterval = seconds 60"

section \<open>The environment\<close>

definition envString :: "environment \<Rightarrow> string \<Rightarrow> string \<Rightarrow> string" where
  "envString env name def = (case env name of Some v \<Rightarrow> if v \<noteq> [] then v else def | None \<Rightarrow> def)"

definition envInt :: "environment \<Rightarrow> string \<Rightarrow> int \<Rightarrow> int" where
  "envInt env name def =
    (case env name of Some v \<Rightarrow> (case Atoi v of Some n \<Rightarrow> n | None \<Rightarrow> def) | None \<Rightarrow> def)"

definition envBool :: "environment \<Rightarrow> string \<Rightarrow> bool \<Rightarrow> bool" where
  "envBool env name def =
    (case env name of Some v \<Rightarrow> (case ParseBool v of Some b \<Rightarrow> b | None \<Rightarrow> def) | None \<Rightarrow> def)"

section \<open>The command line\<close>

record options =
  c_listen :: string
  c_database :: string
  c_sourceURL :: string
  c_powBits :: int
  c_maxTTL :: int
  c_maxRecordBytes :: int
  c_signalEnabled :: bool
  c_trustedProxies :: string
  c_ratePut :: int
  c_rateGet :: int
  c_rateSignal :: int

definition default_options :: "environment \<Rightarrow> options" where
  "default_options env =
    \<lparr>c_listen = envString env ''TRIGSTATIOND_LISTEN'' '':8080'',
     c_database = envString env ''TRIGSTATIOND_DB'' ''trigstation.db'',
     c_sourceURL = envString env ''TRIGSTATIOND_SOURCE_URL'' DefaultSourceURL,
     c_powBits = envInt env ''TRIGSTATIOND_POW_BITS'' 20,
     c_maxTTL = envInt env ''TRIGSTATIOND_MAX_TTL'' record_MaxTTL,
     c_maxRecordBytes = envInt env ''TRIGSTATIOND_MAX_RECORD_BYTES'' MaxEnvelopeBytes,
     c_signalEnabled = envBool env ''TRIGSTATIOND_SIGNAL'' True,
     c_trustedProxies = envString env ''TRIGSTATIOND_TRUSTED_PROXIES'' [],
     c_ratePut = envInt env ''TRIGSTATIOND_RATE_PUT'' DefaultPutRecord,
     c_rateGet = envInt env ''TRIGSTATIOND_RATE_GET'' DefaultGetRecord,
     c_rateSignal = envInt env ''TRIGSTATIOND_RATE_SIGNAL'' DefaultSignal\<rparr>"

definition server_flag :: "string \<Rightarrow> bool option" where
  "server_flag name =
    (if name = ''signal'' then Some True
     else if name \<in> {''listen'', ''db'', ''source-url'', ''pow-bits'', ''max-ttl'', ''max-record-bytes'',
       ''trusted-proxies'', ''rate-put'', ''rate-get'', ''rate-signal''} then Some False
     else None)"

definition set_server_flag :: "string \<Rightarrow> string \<Rightarrow> options \<Rightarrow> options option" where
  "set_server_flag name v c =
    (if name = ''listen'' then Some (c\<lparr>c_listen := v\<rparr>)
     else if name = ''db'' then Some (c\<lparr>c_database := v\<rparr>)
     else if name = ''source-url'' then Some (c\<lparr>c_sourceURL := v\<rparr>)
     else if name = ''trusted-proxies'' then Some (c\<lparr>c_trustedProxies := v\<rparr>)
     else if name = ''signal'' then map_option (\<lambda>b. c\<lparr>c_signalEnabled := b\<rparr>) (ParseBool v)
     else if name = ''pow-bits'' then map_option (\<lambda>n. c\<lparr>c_powBits := n\<rparr>) (ParseInt0 v)
     else if name = ''max-ttl'' then map_option (\<lambda>n. c\<lparr>c_maxTTL := n\<rparr>) (ParseInt0 v)
     else if name = ''max-record-bytes'' then map_option (\<lambda>n. c\<lparr>c_maxRecordBytes := n\<rparr>) (ParseInt0 v)
     else if name = ''rate-put'' then map_option (\<lambda>n. c\<lparr>c_ratePut := n\<rparr>) (ParseInt0 v)
     else if name = ''rate-get'' then map_option (\<lambda>n. c\<lparr>c_rateGet := n\<rparr>) (ParseInt0 v)
     else if name = ''rate-signal'' then map_option (\<lambda>n. c\<lparr>c_rateSignal := n\<rparr>) (ParseInt0 v)
     else None)"

datatype main_error =
    FlagError flag_error | UnexpectedArguments | ProxiesError proxies_error | OpenFailed | ApiError api_error
  | ListenError string | ShutdownError string

definition main_parseFlags :: "environment \<Rightarrow> string list \<Rightarrow> main_error + options" where
  "main_parseFlags env args =
    (case flag_Parse server_flag set_server_flag args (default_options env) of
       Inl e \<Rightarrow> Inl (FlagError e)
     | Inr (c, rest) \<Rightarrow> if rest \<noteq> [] then Inl UnexpectedArguments else Inr c)"

section \<open>Assembly\<close>

record http_server =
  hs_Addr :: string
  hs_ReadHeaderTimeout :: duration
  hs_ReadTimeout :: duration
  hs_WriteTimeout :: duration
  hs_IdleTimeout :: duration
  hs_MaxHeaderBytes :: int

text \<open>The default route the warning names, if the list has one; \<open>Bits\<close> of an invalid prefix is -1.\<close>

definition warnDefaultRoute :: "Prefix list \<Rightarrow> Prefix option" where
  "warnDefaultRoute trusted = find (\<lambda>p. Prefix_Bits p = 0) trusted"

datatype start = Helped | Failed main_error | Ready "Prefix option" http_server server

definition main_setup :: "environment \<Rightarrow> string list \<Rightarrow> (string \<Rightarrow> table option) \<Rightarrow> start" where
  "main_setup env args open_db =
    (case main_parseFlags env args of
       Inl e \<Rightarrow> if e = FlagError ErrHelp then Helped else Failed e
     | Inr cfg \<Rightarrow>
       (case ParsePrefixes (c_trustedProxies cfg) of
          Inl e \<Rightarrow> Failed (ProxiesError e)
        | Inr trusted \<Rightarrow>
          (case open_db (c_database cfg) of
             None \<Rightarrow> Failed OpenFailed
           | Some db \<Rightarrow>
             (case api_New
                \<lparr>cfg_Store = Some db,
                 cfg_Signal = (if c_signalEnabled cfg
                   then Some (signal_New \<lparr>so_TTL = 0, so_PollWindow = 0, so_MaxBlobBytes = 0,
                     so_MaxWaiters = 0, so_MaxWaitersPerChannel = 0\<rparr>) else None),
                 cfg_Limiter = Some (limiter_New \<lparr>o_PutRecord = c_ratePut cfg, o_GetRecord = c_rateGet cfg,
                   o_Signal = c_rateSignal cfg, o_Window = 0, o_MaxKeys = 0\<rparr>),
                 cfg_ClientAddr = Some (clientaddr_New trusted),
                 cfg_Limits = \<lparr>MaxRecordBytes = c_maxRecordBytes cfg, MaxTTL = c_maxTTL cfg,
                   PoWBits = c_powBits cfg, SkewGrace = DefaultSkewGrace\<rparr>,
                 cfg_SourceURL = c_sourceURL cfg\<rparr> of
                Inl e \<Rightarrow> Failed (ApiError e)
              | Inr handler \<Rightarrow> Ready (warnDefaultRoute trusted)
                  \<lparr>hs_Addr = c_listen cfg, hs_ReadHeaderTimeout = readHeaderTimeout,
                   hs_ReadTimeout = readTimeout, hs_WriteTimeout = writeTimeout,
                   hs_IdleTimeout = idleTimeout, hs_MaxHeaderBytes = maxHeaderBytes\<rparr> handler))))"

section \<open>Serving and stopping\<close>

text \<open>
  What the environment does: the listener fails first, or a signal arrives first; then the
  outcome of \<open>http.Server.Shutdown\<close> and the value the listener's goroutine sends.
\<close>

datatype stop_cause = ListenerStops "string option" | Signalled

datatype action = Listening string | ShuttingDown | CancelSweeps | DrainPolls | ShutdownHTTP duration | JoinSweeps | JoinListener

definition serve ::
  "http_server \<Rightarrow> stop_cause \<Rightarrow> string option \<Rightarrow> string option \<Rightarrow> server \<Rightarrow>
    main_error option \<times> action list \<times> server" where
  "serve srv cause shutdownErr listenErr handler =
    (case cause of
       ListenerStops err \<Rightarrow>
         (map_option ListenError err, [Listening (hs_Addr srv), CancelSweeps, JoinSweeps], handler)
     | Signalled \<Rightarrow>
         ((case listenErr of Some e \<Rightarrow> Some (ListenError e) | None \<Rightarrow> map_option ShutdownError shutdownErr),
          [Listening (hs_Addr srv), ShuttingDown, DrainPolls, ShutdownHTTP shutdownGrace, JoinSweeps, JoinListener],
          Drain handler))"

definition main_run ::
  "environment \<Rightarrow> string list \<Rightarrow> (string \<Rightarrow> table option) \<Rightarrow> stop_cause \<Rightarrow> string option \<Rightarrow> string option \<Rightarrow>
    main_error option" where
  "main_run env args open_db cause shutdownErr listenErr =
    (case main_setup env args open_db of
       Helped \<Rightarrow> None
     | Failed e \<Rightarrow> Some e
     | Ready w srv handler \<Rightarrow> fst (serve srv cause shutdownErr listenErr handler))"

definition main_status :: "main_error option \<Rightarrow> int" where
  "main_status err = (case err of None \<Rightarrow> 0 | Some e \<Rightarrow> 1)"

text \<open>The loop of \<open>startSweeps\<close> over the ticks it receives, until the context is done.\<close>

datatype tick = RecordTick bool instant | LimiterTick instant | ContextDone

fun startSweeps :: "tick list \<Rightarrow> server \<Rightarrow> server" where
  "startSweeps [] s = s"
| "startSweeps (ContextDone # ts) s = s"
| "startSweeps (RecordTick fault now # ts) s = startSweeps ts (snd (SweepRecords fault now s))"
| "startSweeps (LimiterTick now # ts) s = startSweeps ts (SweepLimiter now s)"

section \<open>Properties\<close>

lemma opts_ok: "signal_ok (signal_New o1)" "limiter_ok (limiter_New o2)"
  by (simp_all add: New_ok)

lemma api_New_fields:
  "api_New cfg = Inr s \<Longrightarrow> sv_sourceURL s = cfg_SourceURL cfg \<and> sv_signal s = cfg_Signal cfg \<and>
    TrimSpace (cfg_SourceURL cfg) \<noteq> []"
  by (auto simp: api_New_def route_def handle_def split: option.splits if_splits)

text \<open>
  C35. What the command serves. Whenever the assembly succeeds, on a database whose table is well
  formed, the service satisfies its invariant, advertises a source URL that is not blank, brokers
  signal channels exactly when the parsed flags enable them, and runs under deadlines that leave
  a full poll window to every long-poll.
\<close>

theorem main_setup_ready:
  assumes "main_setup env args open_db = Ready w srv s" and "\<forall>path db. open_db path = Some db \<longrightarrow> table_ok db"
  shows "service_ok s \<and> TrimSpace (sv_sourceURL s) \<noteq> [] \<and>
    (\<exists>cfg. main_parseFlags env args = Inr cfg \<and> (sv_signal s \<noteq> None \<longleftrightarrow> c_signalEnabled cfg)) \<and>
    MaxPollWindow < hs_ReadTimeout srv \<and> MaxPollWindow < hs_WriteTimeout srv"
proof -
  obtain cfg trusted db where c: "main_parseFlags env args = Inr cfg"
    "ParsePrefixes (c_trustedProxies cfg) = Inr trusted" "open_db (c_database cfg) = Some db"
    using assms(1) by (auto simp: main_setup_def split: sum.splits option.splits if_splits)
  define acfg where "acfg = \<lparr>cfg_Store = Some db,
                 cfg_Signal = (if c_signalEnabled cfg
                   then Some (signal_New \<lparr>so_TTL = 0, so_PollWindow = 0, so_MaxBlobBytes = 0,
                     so_MaxWaiters = 0, so_MaxWaitersPerChannel = 0\<rparr>) else None),
                 cfg_Limiter = Some (limiter_New \<lparr>o_PutRecord = c_ratePut cfg, o_GetRecord = c_rateGet cfg,
                   o_Signal = c_rateSignal cfg, o_Window = 0, o_MaxKeys = 0\<rparr>),
                 cfg_ClientAddr = Some (clientaddr_New trusted),
                 cfg_Limits = \<lparr>MaxRecordBytes = c_maxRecordBytes cfg, MaxTTL = c_maxTTL cfg,
                   PoWBits = c_powBits cfg, SkewGrace = DefaultSkewGrace\<rparr>,
                 cfg_SourceURL = c_sourceURL cfg\<rparr>"
  have new: "api_New acfg = Inr s" and srv: "hs_ReadTimeout srv = readTimeout" "hs_WriteTimeout srv = writeTimeout"
    using assms(1) c by (auto simp: main_setup_def simp flip: acfg_def split: sum.splits)
  have "service_ok s"
    by (rule api_New_ok [OF new]) (use assms(2) c(3) opts_ok in \<open>auto simp: acfg_def split: if_splits\<close>)
  with api_New_fields [OF new] c(1) srv show ?thesis
    by (auto simp: acfg_def readTimeout_def writeTimeout_def MaxPollWindow_def seconds_def)
qed

theorem main_setup_ready_witness:
  "\<exists>srv s. main_setup (\<lambda>name. None) [''-signal=false''] (\<lambda>path. Some []) = Ready None srv s \<and>
    service_ok s \<and> sv_signal s = None \<and> MaxPollWindow < hs_WriteTimeout srv"
proof -
  let ?env = "\<lambda>name. None :: string option"
  have flags: "main_parseFlags ?env [''-signal=false''] = Inr (default_options ?env\<lparr>c_signalEnabled := False\<rparr>)"
    by (simp add: main_parseFlags_def Let_def server_flag_def set_server_flag_def ParseBool_def)
  have blank: "ParsePrefixes [] = Inr []" and url: "TrimSpace DefaultSourceURL \<noteq> []" by code_simp+
  obtain srv s where run: "main_setup ?env [''-signal=false''] (\<lambda>path. Some []) = Ready None srv s"
    by (auto simp: main_setup_def flags default_options_def envString_def blank url api_New_def warnDefaultRoute_def)
  have "\<forall>path db. (\<lambda>path :: string. Some ([] :: table)) path = Some db \<longrightarrow> table_ok db"
    by (simp add: table_ok_def)
  from main_setup_ready [OF run this] flags run show ?thesis by auto
qed

fun tick_time :: "tick \<Rightarrow> int" where
  "tick_time (RecordTick fault now) = time_Unix now"
| "tick_time (LimiterTick now) = time_Unix now"
| "tick_time ContextDone = time_Unix zero_time"

lemma SweepRecords_live:
  assumes "table_ok (sv_store s)" and "time_Unix now \<le> t"
  shows "live_row t (sv_store (snd (SweepRecords fault now s))) = live_row t (sv_store s) \<and>
    table_ok (sv_store (snd (SweepRecords fault now s)))"
  using sweep_live_row [OF assms] sweep_ok [OF assms(1)] assms(1)
  by (cases fault) (auto simp: SweepRecords_def store_Sweep_def split_beta Let_def fun_eq_iff)

text \<open>
  The timers change no answer about records: after any ticks of both timers, failures of the
  database included, the table shows for every time from the last tick on exactly the records it
  showed before.
\<close>

theorem startSweeps_transparent:
  assumes "table_ok (sv_store s)" and "\<forall>x \<in> set ts. tick_time x \<le> t"
  shows "live_row t (sv_store (startSweeps ts s)) = live_row t (sv_store s)"
  using assms
proof (induction ts s rule: startSweeps.induct)
  case (3 fault now ts s)
  with SweepRecords_live [of s now t fault] show ?case by simp
next
  case (4 now ts s)
  then show ?case by (simp add: SweepLimiter_def)
qed simp_all

theorem startSweeps_transparent_witness:
  "live_row 7 (sv_store (startSweeps [RecordTick False (seconds 3), LimiterTick (seconds 4), RecordTick False (seconds 6), ContextDone]
      (demo_server\<lparr>sv_store := [row_of_record (sample_record 5)]\<rparr>))) =
    live_row 7 [row_of_record (sample_record 5)]"
proof -
  let ?ts = "[RecordTick False (seconds 3), LimiterTick (seconds 4), RecordTick False (seconds 6), ContextDone]"
  have "\<forall>x \<in> set ?ts. tick_time x \<le> 7" by (simp add: time_Unix_def seconds_def zero_time_def)
  from startSweeps_transparent [OF _ this, of "demo_server\<lparr>sv_store := [row_of_record (sample_record 5)]\<rparr>"]
  show ?thesis using sample_table_ok by simp
qed

lemma loop_seven: "parse_ipv6_loop 8 [] (Some 0) ''7'' = Some ([0, 7], Some 0, [])"
  by (subst parse_ipv6_loop.simps(2) [of 7, simplified]) (simp add: hex_digit_def)

lemma bytes_value_zeros: "bytes_value (replicate n 0 @ fs) = bytes_value fs"
  by (induction n) (simp_all add: bytes_value_def)

lemma parse_seven: "parse_ipv6 ''::7'' = Some (Addr6 7 [])"
  using bytes_value_zeros [of 14 "[0, 7]"]
  by (simp add: parse_ipv6_def loop_seven Let_def) (simp add: bytes_value_def)

lemma ipv6_entry: "parseEntry ''::7'' = (Addr6 7 [], True)"
  by (simp add: parseEntry_def ParseAddr_def parse_seven IsValid_def)

lemma ipv6_last: "lastEntry ''::7'' = (''::7'', [], True)"
  by code_simp

lemma drop_all: "drop_bit 32 (v :: 32 word) = 0"
  by (rule bit_eqI) (auto simp: bit_simps dest: bit_imp_le_length)

text \<open>
  The warning about a default route says that it makes the header ignored for every request.
  With the IPv4 default route alone, which draws the warning, it is not: for every IPv4 peer an
  IPv6 entry of the header is outside the trusted list and becomes the address the request is
  counted under.
\<close>

theorem default_route_keeps_header:
  "warnDefaultRoute [PrefixFrom (Addr4 0) 0] = Some (PrefixFrom (Addr4 0) 0) \<and>
    clientaddr_Addr (Some [PrefixFrom (Addr4 0) 0]) (Addr4 v) ''::7'' =
      Addr6 7 []"
proof -
  have "trusts [PrefixFrom (Addr4 0) 0] (Addr4 v)"
    by (simp add: trusts_def Contains_def PrefixFrom_def IsValid_def drop_all)
  moreover have "\<not> trusts [PrefixFrom (Addr4 0) 0] (Addr6 w z)" for w z
    by (simp add: trusts_def Contains_def PrefixFrom_def)
  ultimately show ?thesis
    by (simp add: warnDefaultRoute_def Prefix_Bits_def PrefixFrom_def [of _ 0] IsValid_def
      clientaddr_Addr_def walk.simps [of _ "''::7''"] ipv6_last ipv6_entry)
qed

end
