(* ===== verification/Trigcheck.thy ===== *)
theory Trigcheck imports Api Payload Derive Goflag begin

text \<open>
  \<open>cmd/trigcheck/main.go\<close>: the client that publishes one record and reads it back. The random
  generator, the clock, the file it writes and the directory it talks to are the world, an
  argument; what the operator sees and what is sent is a list of actions.
\<close>

section \<open>The command line\<close>

definition httpTimeout :: duration where "httpTimeout = seconds 30"
definition anonymitySet :: int where "anonymitySet = 50"

record tc_config =
  t_verify :: bool
  t_url :: string
  t_sDir :: string
  t_ik :: string
  t_ikPub :: string
  t_endpoints :: "Endpoint list"
  t_ttl :: int
  t_powBits :: int
  t_tlsMode :: string
  t_caps :: string
  t_out :: string
  t_epochOff :: int

datatype do_error = BuildRequest | Transport | ReadResponse

datatype tc_error =
    TFlag flag_error | TUnexpectedArguments | TNoURL | TNoSDir | TNoIKPub | TNoEndpoint | TBadTTL | TBadTLSMode
  | TSecret string | TEntropy string | TDerive derive_error | TRecord record_error | TPow pow_error
  | TTooLarge nat | TWrite | TRequest do_error | TRefused int | TStatus string int | TParse string | TIKPub
  | TShiftPanic | TInnerSignature record_error | TBodyInvalid | TNoMatch | TManyMatches nat

text \<open>\<open>strings.Trim\<close> with the cutset of the two brackets.\<close>

definition trim_brackets :: "string \<Rightarrow> string" where
  "trim_brackets s =
    (let cut = dropWhile (\<lambda>c. c = CHR ''['' \<or> c = CHR '']'') in rev (cut (rev (cut s))))"

definition endpoint_Set :: "string \<Rightarrow> Endpoint list \<Rightarrow> Endpoint list option" where
  "endpoint_Set v l =
    (case split_first CHR '':'' v of
       None \<Rightarrow> None
     | Some (t, rest) \<Rightarrow>
         (case split_last CHR '':'' rest of
            None \<Rightarrow> None
          | Some (host, portStr) \<Rightarrow>
              (case Atoi portStr of
                 None \<Rightarrow> None
               | Some port \<Rightarrow>
                   if port < 1 \<or> port > 65535 then None
                   else if t \<notin> {EndpointLAN, EndpointWAN4, EndpointWAN6, EndpointDNS} then None
                   else Some (l @ [\<lparr>ep_Type = t, ep_Host = trim_brackets host, ep_Port = port\<rparr>]))))"

definition tc_defaults :: tc_config where
  "tc_defaults = \<lparr>t_verify = False, t_url = [], t_sDir = [], t_ik = [], t_ikPub = [], t_endpoints = [],
    t_ttl = record_MaxTTL, t_powBits = DefaultBits, t_tlsMode = TLSModePKI, t_caps = [], t_out = [],
    t_epochOff = 0\<rparr>"

definition tc_flag :: "string \<Rightarrow> bool option" where
  "tc_flag name =
    (if name = ''verify'' then Some True
     else if name \<in> {''url'', ''s-dir'', ''ik'', ''ik-pub'', ''endpoint'', ''ttl'', ''pow-bits'', ''tls-mode'',
       ''caps'', ''o'', ''epoch-offset''} then Some False
     else None)"

definition set_tc_flag :: "string \<Rightarrow> string \<Rightarrow> tc_config \<Rightarrow> tc_config option" where
  "set_tc_flag name v c =
    (if name = ''verify'' then map_option (\<lambda>b. c\<lparr>t_verify := b\<rparr>) (ParseBool v)
     else if name = ''url'' then Some (c\<lparr>t_url := v\<rparr>)
     else if name = ''s-dir'' then Some (c\<lparr>t_sDir := v\<rparr>)
     else if name = ''ik'' then Some (c\<lparr>t_ik := v\<rparr>)
     else if name = ''ik-pub'' then Some (c\<lparr>t_ikPub := v\<rparr>)
     else if name = ''endpoint'' then map_option (\<lambda>l. c\<lparr>t_endpoints := l\<rparr>) (endpoint_Set v (t_endpoints c))
     else if name = ''ttl'' then map_option (\<lambda>n. c\<lparr>t_ttl := n\<rparr>) (ParseInt0 v)
     else if name = ''pow-bits'' then map_option (\<lambda>n. c\<lparr>t_powBits := n\<rparr>) (ParseInt0 v)
     else if name = ''tls-mode'' then Some (c\<lparr>t_tlsMode := v\<rparr>)
     else if name = ''caps'' then Some (c\<lparr>t_caps := v\<rparr>)
     else if name = ''o'' then Some (c\<lparr>t_out := v\<rparr>)
     else if name = ''epoch-offset'' then map_option (\<lambda>n. c\<lparr>t_epochOff := n\<rparr>) (ParseInt0 v)
     else None)"

definition TrimSuffix :: "string \<Rightarrow> string \<Rightarrow> string" where
  "TrimSuffix s suffix =
    (if length suffix \<le> length s \<and> drop (length s - length suffix) s = suffix
     then take (length s - length suffix) s else s)"

definition tc_parseFlags :: "string list \<Rightarrow> tc_error + tc_config" where
  "tc_parseFlags args =
    (case flag_Parse tc_flag set_tc_flag args tc_defaults of
       Inl e \<Rightarrow> Inl (TFlag e)
     | Inr (c, rest) \<Rightarrow>
         if rest \<noteq> [] then Inl TUnexpectedArguments
         else if t_url c = [] then Inl TNoURL
         else let c = c\<lparr>t_url := TrimSuffix (t_url c) ''/''\<rparr> in
           if t_verify c then
             (if t_sDir c = [] then Inl TNoSDir else if t_ikPub c = [] then Inl TNoIKPub else Inr c)
           else if t_endpoints c = [] then Inl TNoEndpoint
           else if t_ttl c < 1 \<or> t_ttl c > record_MaxTTL then Inl TBadTTL
           else if t_tlsMode c \<notin> {TLSModePKI, TLSModePinned} then Inl TBadTLSMode
           else Inr c)"

section \<open>The world\<close>

text \<open>What an HTTP request meets: a response has a status, a stream and whether the stream breaks off.\<close>

datatype answer = BadURL | NoResponse | Response int string bool

record tc_world =
  tw_sDir :: "bytes option"
  tw_ik :: "bytes option"
  tw_nonce :: bytes
  tw_now :: int
  tw_cancelled :: "nat \<Rightarrow> bool"
  tw_write_fails :: bool
  tw_net :: "string \<Rightarrow> string \<Rightarrow> string option \<Rightarrow> answer"

datatype tc_action =
    PrintKey string string
  | WriteFile string string
  | Requested string string "string option"
  | PrintLookup int nat string int
  | PrintReturned nat nat bool
  | PrintMatch int int string string "(string \<times> string) list"

text \<open>\<open>do\<close> reads at most a megabyte.\<close>

definition trig_do :: "tc_world \<Rightarrow> string \<Rightarrow> string \<Rightarrow> string option \<Rightarrow> do_error + int \<times> string" where
  "trig_do w method url body =
    (case tw_net w method url body of
       BadURL \<Rightarrow> Inl BuildRequest
     | NoResponse \<Rightarrow> Inl Transport
     | Response status stream fails \<Rightarrow>
         if 2 ^ 20 \<le> length stream then Inr (status, take (2 ^ 20) stream)
         else if fails then Inl ReadResponse else Inr (status, stream))"

definition secret :: "string \<Rightarrow> string \<Rightarrow> bytes option \<Rightarrow> tc_error + bytes \<times> bool" where
  "secret flagVal name random =
    (if flagVal \<noteq> [] then
       (case b64_DecodeFixed flagVal SDirLen of Inl e \<Rightarrow> Inl (TSecret name) | Inr b \<Rightarrow> Inr (b, False))
     else case random of None \<Rightarrow> Inl (TEntropy name) | Some b \<Rightarrow> Inr (b, True))"

section \<open>Publishing\<close>

definition build_body :: "int \<Rightarrow> tc_config \<Rightarrow> Body" where
  "build_body now cfg =
    \<lparr>b_V = Version, b_TS = now,
     b_Endpoints = (if t_endpoints cfg = [] then NilSlice else Slice (t_endpoints cfg) []),
     b_TLS = \<lparr>tls_Mode = t_tlsMode cfg, tls_Fingerprint = []\<rparr>,
     b_Caps = (if t_caps cfg = [] then NilSlice else Slice (split_on CHR '','' (t_caps cfg)) [])\<rparr>"

definition build ::
  "crypto \<Rightarrow> (nat \<Rightarrow> bool) \<Rightarrow> bytes \<Rightarrow> bytes \<Rightarrow> bytes \<Rightarrow> int \<Rightarrow> int \<Rightarrow> tc_config \<Rightarrow> tc_error + Envelope" where
  "build C cancelled random sDir ik epoch now cfg =
    (case WriteKey C sDir epoch of
       Inl e \<Rightarrow> Inl (TDerive e)
     | Inr wk \<Rightarrow>
       let wkPub = drop 32 wk; lookupID = derive_LookupID C wkPub in
       (case RecordKey C sDir epoch of
          Inl e \<Rightarrow> Inl (TDerive e)
        | Inr recordKey \<Rightarrow>
          (case MarshalPlaintext C ik (bytes_of_string (marshal_body (build_body now cfg))) of
             Inl e \<Rightarrow> Inl (TRecord e)
           | Inr plaintext \<Rightarrow>
             (case record_Seal C recordKey plaintext random of
                Inl e \<Rightarrow> Inl (TRecord e)
              | Inr (nonce, ct) \<Rightarrow>
                let expiresAt = i64 (now + t_ttl cfg) in
                (case pow_Solve C cancelled lookupID expiresAt (t_powBits cfg) of
                   Inl e \<Rightarrow> Inl (TPow e)
                 | Inr solved \<Rightarrow>
                   (case record_Sign C wk (byte_of (nat Version)) lookupID wkPub expiresAt nonce ct of
                      Inl e \<Rightarrow> Inl (TRecord e)
                    | Inr sig \<Rightarrow> Inr
                       \<lparr>e_V = Version, e_LookupID = b64_Encode lookupID, e_WKPub = b64_Encode wkPub,
                        e_ExpiresAt = expiresAt, e_CT = b64_Encode ct, e_Nonce = b64_Encode nonce,
                        e_PoW = b64_Encode solved, e_Sig = b64_Encode sig\<rparr>))))))"

definition runPublish :: "crypto \<Rightarrow> tc_world \<Rightarrow> tc_config \<Rightarrow> tc_error option \<times> tc_action list" where
  "runPublish C w cfg =
    (case secret (t_sDir cfg) ''s-dir'' (tw_sDir w) of
       Inl e \<Rightarrow> (Some e, [])
     | Inr (sDir, sDirGen) \<Rightarrow>
       (case secret (t_ik cfg) ''ik'' (tw_ik w) of
          Inl e \<Rightarrow> (Some e, [])
        | Inr (ikSeed, ikGen) \<Rightarrow>
          let ik = NewKeyFromSeed C ikSeed;
              keys = (if sDirGen then [PrintKey ''s_dir'' (b64_Encode sDir)] else []) @
                (if ikGen then [PrintKey ''ik_seed'' (b64_Encode ikSeed)] else []) @
                [PrintKey ''ik_pub'' (b64_Encode (drop 32 ik))];
              now = tw_now w;
              epoch = i64 (Epoch now + t_epochOff cfg)
          in (case build C (tw_cancelled w) (tw_nonce w) sDir ik epoch now cfg of
                Inl e \<Rightarrow> (Some e, keys)
              | Inr env \<Rightarrow>
                let body = marshal_envelope env in
                if int (length body) > MaxEnvelopeBytes then (Some (TTooLarge (length body)), keys)
                else if t_out cfg \<noteq> [] \<and> tw_write_fails w then (Some TWrite, keys)
                else
                  let wrote = (if t_out cfg \<noteq> [] then [WriteFile (t_out cfg) body] else []);
                      url = t_url cfg @ ''/v1/record'';
                      acts = keys @ wrote @ [Requested ''PUT'' url (Some body)]
                  in (case trig_do w ''PUT'' url (Some body) of
                        Inl e \<Rightarrow> (Some (TRequest e), acts)
                      | Inr (status, resp) \<Rightarrow>
                          (if status \<noteq> StatusNoContent then Some (TRefused status) else None, acts)))))"

section \<open>The width and the prefix of a lookup\<close>

text \<open>
  The loop of \<open>prefixBits\<close>: \<open>k << (bits + 1)\<close> wraps in 64 bits, and once \<open>bits + 1\<close> is past the
  largest \<open>int\<close> the shift count is negative, which panics.
\<close>

function prefix_loop :: "int \<Rightarrow> int \<Rightarrow> nat \<Rightarrow> nat option" where
  "prefix_loop recordCount k bits =
    (if bits + 1 \<ge> 2 ^ 63 then None
     else if i64 (k * 2 ^ (bits + 1)) \<le> recordCount then prefix_loop recordCount k (bits + 1)
     else Some bits)"
  by pat_completeness auto
termination
  by (relation "measure (\<lambda>(recordCount, k, bits). 2 ^ 63 - bits)") auto

declare prefix_loop.simps [simp del]

definition prefixBits :: "int \<Rightarrow> int \<Rightarrow> nat option" where
  "prefixBits recordCount k =
    (if k \<le> 0 \<or> recordCount < k then Some 0 else prefix_loop recordCount k 0)"

definition hex_text :: "bytes \<Rightarrow> string" where
  "hex_text b = concat (map (\<lambda>x. [hex_char (unat x div 16), hex_char (unat x mod 16)]) b)"

definition prefixHex :: "bytes \<Rightarrow> nat \<Rightarrow> string" where
  "prefixHex lookupID bits =
    (if bits = 0 then []
     else
       let full = hex_text lookupID;
           chars = min ((bits + 3) div 4) (length full);
           out = take chars full;
           unused = chars * 4 - bits
       in if unused > 0 then
            (case hex_val (out ! (chars - 1)) of
               None \<Rightarrow> out
             | Some v \<Rightarrow> out[chars - 1 := hex_char (v - v mod 2 ^ unused)])
          else out)"

section \<open>Reading back\<close>

text \<open>
  Elements and members with their values as raw text, as \<open>json.RawMessage\<close> keeps them.
\<close>

definition raw_text :: "string \<Rightarrow> string \<Rightarrow> string" where
  "raw_text s rest = take (length (skip_ws s) - length rest) (skip_ws s)"

fun raw_elems :: "nat \<Rightarrow> string \<Rightarrow> string list" where
  "raw_elems 0 s = []"
| "raw_elems (Suc n) s =
    (case pval (2 * length s + 2) maxNestingDepth s of
       None \<Rightarrow> []
     | Some (v, r) \<Rightarrow> raw_text s r #
        (case skip_ws r of
           [] \<Rightarrow> []
         | c # r' \<Rightarrow> if c = CHR '','' then raw_elems n r' else []))"

fun raw_mems :: "nat \<Rightarrow> string \<Rightarrow> (string \<times> string) list" where
  "raw_mems 0 s = []"
| "raw_mems (Suc n) s =
    (case skip_ws s of
       [] \<Rightarrow> []
     | q # s1 \<Rightarrow>
       (case string_body s1 of
          None \<Rightarrow> []
        | Some (name, s2) \<Rightarrow>
          let s3 = drop 1 (skip_ws s2) in
          (case pval (2 * length s3 + 2) maxNestingDepth s3 of
             None \<Rightarrow> []
           | Some (v, r) \<Rightarrow> (unquote name, raw_text s3 r) #
              (case skip_ws r of
                 [] \<Rightarrow> []
               | c # r' \<Rightarrow> if c = CHR '','' then raw_mems n r' else []))))"

definition raw_array :: "string \<Rightarrow> string list" where
  "raw_array s =
    (case json_parse s of Some (JArr []) \<Rightarrow> [] | _ \<Rightarrow> raw_elems (length s) (drop 1 (skip_ws s)))"

definition raw_object :: "string \<Rightarrow> (string \<times> string) list" where
  "raw_object s =
    (case json_parse s of Some (JObj []) \<Rightarrow> [] | _ \<Rightarrow> raw_mems (length s) (drop 1 (skip_ws s)))"

text \<open>\<open>json.Unmarshal\<close> into \<open>meta\<close> and into \<open>lookupResponse\<close>.\<close>

definition meta_member :: "string \<times> json \<Rightarrow> int \<Rightarrow> int option" where
  "meta_member m n =
    (if field_for [''record_count''] (fst m) = None then Some n else store_int64 (snd m) n)"

definition unmarshal_meta :: "string \<Rightarrow> int option" where
  "unmarshal_meta s =
    (case json_parse s of None \<Rightarrow> None | Some v \<Rightarrow> store_struct meta_member v 0)"

fun store_records :: "(string \<times> string) list \<Rightarrow> string list \<Rightarrow> string list option" where
  "store_records [] raws = Some raws"
| "store_records ((name, text) # ms) raws =
    (if field_for [''records''] name = None then store_records ms raws
     else case json_parse text of
       Some (JArr vs) \<Rightarrow> store_records ms (raw_array text)
     | Some JNull \<Rightarrow> store_records ms []
     | _ \<Rightarrow> None)"

definition unmarshal_lookup :: "string \<Rightarrow> string list option" where
  "unmarshal_lookup s =
    (case json_parse s of
       Some (JObj ms) \<Rightarrow> store_records (raw_object s) []
     | Some JNull \<Rightarrow> Some []
     | _ \<Rightarrow> None)"

text \<open>The filter of the loop: what fails here is passed over.\<close>

definition open_record :: "crypto \<Rightarrow> bytes \<Rightarrow> string \<Rightarrow> (Decoded \<times> bytes) option" where
  "open_record C recordKey raw =
    (case unmarshal_envelope raw of
       None \<Rightarrow> None
     | Some e \<Rightarrow>
       (case Envelope_Decode e of
          Inl x \<Rightarrow> None
        | Inr d \<Rightarrow>
          if Decoded_Verify C d \<noteq> None then None
          else (case record_Open C recordKey (d_Nonce d) (d_CT d) of
             Inl x \<Rightarrow> None | Inr plaintext \<Rightarrow> Some (d, plaintext))))"

definition optional :: "string \<Rightarrow> string" where
  "optional s = (if s = [] then [] else CHR '' '' # s)"

definition hostPort :: "string \<Rightarrow> int \<Rightarrow> string" where
  "hostPort host port =
    (if CHR '':'' \<in> set host then ''['' @ host @ '']:'' @ Itoa port else host @ '':'' @ Itoa port)"

definition show_match :: "Decoded \<Rightarrow> Body \<Rightarrow> tc_action" where
  "show_match d pb = PrintMatch (b_TS pb) (d_ExpiresAt d)
    (tls_Mode (b_TLS pb) @ optional (tls_Fingerprint (b_TLS pb))) (join '', '' (elems (b_Caps pb)))
    (map (\<lambda>ep. (ep_Type ep, hostPort (ep_Host ep) (ep_Port ep))) (elems (b_Endpoints pb)))"

fun verify_records ::
  "crypto \<Rightarrow> bytes \<Rightarrow> bytes \<Rightarrow> string list \<Rightarrow> nat \<Rightarrow> (tc_error + nat) \<times> tc_action list" where
  "verify_records C recordKey ikPub [] matched = (Inr matched, [])"
| "verify_records C recordKey ikPub (raw # raws) matched =
    (case open_record C recordKey raw of
       None \<Rightarrow> verify_records C recordKey ikPub raws matched
     | Some (d, plaintext) \<Rightarrow>
       (case VerifyPlaintext C ikPub plaintext of
          Inl e \<Rightarrow> (Inl (TInnerSignature e), [])
        | Inr bodyJSON \<Rightarrow>
          (case unmarshal_body (string_of_bytes bodyJSON) of
             None \<Rightarrow> (Inl TBodyInvalid, [])
           | Some pb \<Rightarrow> apsnd (Cons (show_match d pb))
               (verify_records C recordKey ikPub raws (matched + 1)))))"

definition verdict :: "nat \<Rightarrow> tc_error option" where
  "verdict matched =
    (if matched = 0 then Some TNoMatch else if matched > 1 then Some (TManyMatches matched) else None)"

definition lookup_query :: "string \<Rightarrow> nat \<Rightarrow> string" where
  "lookup_query prefix bits = ''prefix='' @ prefix @ ''&bits='' @ Itoa (int bits)"

definition lookup_url :: "tc_config \<Rightarrow> string \<Rightarrow> nat \<Rightarrow> string" where
  "lookup_url cfg prefix bits = t_url cfg @ ''/v1/record?'' @ lookup_query prefix bits"

definition runVerify :: "crypto \<Rightarrow> tc_world \<Rightarrow> tc_config \<Rightarrow> tc_error option \<times> tc_action list" where
  "runVerify C w cfg =
    (case secret (t_sDir cfg) ''s-dir'' (tw_sDir w) of
       Inl e \<Rightarrow> (Some e, [])
     | Inr (sDir, generated) \<Rightarrow>
       (case b64_DecodeFixed (t_ikPub cfg) 32 of
          Inl e \<Rightarrow> (Some TIKPub, [])
        | Inr ikPub \<Rightarrow>
          let metaURL = t_url cfg @ ''/v1/meta''; acts = [Requested ''GET'' metaURL None] in
          (case trig_do w ''GET'' metaURL None of
             Inl e \<Rightarrow> (Some (TRequest e), acts)
           | Inr (status, body) \<Rightarrow>
             if status \<noteq> StatusOK then (Some (TStatus ''/v1/meta'' status), acts)
             else case unmarshal_meta body of
               None \<Rightarrow> (Some (TParse ''/v1/meta''), acts)
             | Some recordCount \<Rightarrow>
               let epoch = i64 (Epoch (tw_now w) + t_epochOff cfg) in
               (case WriteKey C sDir epoch of
                  Inl e \<Rightarrow> (Some (TDerive e), acts)
                | Inr wk \<Rightarrow>
                  (case RecordKey C sDir epoch of
                     Inl e \<Rightarrow> (Some (TDerive e), acts)
                   | Inr recordKey \<Rightarrow>
                     (case prefixBits recordCount anonymitySet of
                        None \<Rightarrow> (Some TShiftPanic, acts)
                      | Some bits \<Rightarrow>
                        let prefix = prefixHex (derive_LookupID C (drop 32 wk)) bits;
                            q = lookup_url cfg prefix bits;
                            acts = acts @ [PrintLookup recordCount bits prefix epoch, Requested ''GET'' q None]
                        in (case trig_do w ''GET'' q None of
                              Inl e \<Rightarrow> (Some (TRequest e), acts)
                            | Inr (status, body) \<Rightarrow>
                              if status \<noteq> StatusOK then (Some (TStatus ''/v1/record'' status), acts)
                              else case unmarshal_lookup body of
                                None \<Rightarrow> (Some (TParse ''lookup''), acts)
                              | Some raws \<Rightarrow>
                                let n = length raws;
                                    acts = acts @ [PrintReturned n (length body)
                                      (recordCount > 0 \<and> i64 (int n * 2) > recordCount)]
                                in (case verify_records C recordKey ikPub raws 0 of
                                      (Inl e, shown) \<Rightarrow> (Some e, acts @ shown)
                                    | (Inr matched, shown) \<Rightarrow> (verdict matched, acts @ shown)))))))))"

definition tc_run :: "crypto \<Rightarrow> tc_world \<Rightarrow> string list \<Rightarrow> tc_error option \<times> tc_action list" where
  "tc_run C w args =
    (case tc_parseFlags args of
       Inl e \<Rightarrow> (if e = TFlag ErrHelp then None else Some e, [])
     | Inr cfg \<Rightarrow> if t_verify cfg then runVerify C w cfg else runPublish C w cfg)"

definition tc_status :: "tc_error option \<Rightarrow> int" where
  "tc_status err = (case err of None \<Rightarrow> 0 | Some e \<Rightarrow> 1)"

end
