(* ===== verification/Trigcheck_Lookup.thy ===== *)
theory Trigcheck_Lookup imports Trigcheck begin

text \<open>
  The lookup trigcheck makes: the width it computes from the advertised count is a floored
  logarithm, the prefix carries the leading bits of the identifier, and the directory's parser
  takes the query string and matches that identifier.
\<close>

section \<open>The width\<close>

lemma prefix_loop_climbs:
  "\<forall>j. a < j \<and> j \<le> a + d \<longrightarrow> i64 (k * 2 ^ j) \<le> n \<Longrightarrow> a + d < 2 ^ 63 \<Longrightarrow>
    prefix_loop n k a = prefix_loop n k (a + d)"
proof (induction d)
  case (Suc d)
  have "prefix_loop n k a = prefix_loop n k (a + d)" by (rule Suc.IH) (use Suc.prems in auto)
  also have "\<dots> = prefix_loop n k (a + d + 1)"
    using Suc.prems(1) [rule_format, of "a + d + 1"] Suc.prems(2) by (subst prefix_loop.simps) simp
  finally show ?case by simp
qed simp

lemma capFor_unique:
  assumes "0 < k" and "k * 2 ^ b \<le> n" and "n < k * 2 ^ (b + 1)"
  shows "capFor n k = b"
proof -
  have "k * 1 \<le> k * 2 ^ b" using assms(1) by (intro mult_left_mono) simp_all
  with assms(2) have n: "k \<le> n" by simp
  note c = capFor_bounds [OF assms(1) n]
  have "k * 2 ^ capFor n k < k * 2 ^ (b + 1)" "k * 2 ^ b < k * 2 ^ (capFor n k + 1)"
    using c assms(2,3) by linarith+
  then have "(2 :: int) ^ capFor n k < 2 ^ (b + 1)" "(2 :: int) ^ b < 2 ^ (capFor n k + 1)"
    using assms(1) by simp_all
  then have "capFor n k < b + 1" "b < capFor n k + 1" by (simp_all only: power_strict_increasing_iff)
  then show ?thesis by simp
qed

lemma small_fifty: "j \<le> 57 \<Longrightarrow> i64 (50 * 2 ^ j) = 50 * 2 ^ j \<and> (50 :: int) * 2 ^ j \<le> 50 * 2 ^ 57"
proof -
  assume "j \<le> 57"
  then have le: "(50 :: int) * 2 ^ j \<le> 50 * 2 ^ 57" by (intro mult_left_mono power_increasing) simp_all
  have "(0 :: int) \<le> 50 * 2 ^ j" by simp
  moreover have "50 * 2 ^ 57 < (2 :: int) ^ 63" "- (2 ^ 63) \<le> (0 :: int)" by simp_all
  ultimately have "is_i64 (50 * 2 ^ j)" using le unfolding is_i64_def by (intro conjI) linarith+
  with le show ?thesis by (simp add: i64_id)
qed

lemma shifted_fifty:
  assumes "50 * 2 ^ 57 \<le> n" and "is_i64 n"
  shows "i64 (50 * 2 ^ j) \<le> n"
proof -
  consider "j \<le> 57" | "j \<in> {58, 59, 60, 61, 62, 63}" | "64 \<le> j" by fastforce
  then show ?thesis
  proof cases
    case 1
    with small_fifty [OF 1] assms(1) show ?thesis by linarith
  next
    case 2
    with assms(1) show ?thesis by (auto simp: i64_def)
  next
    case 3
    then obtain d where "j = 64 + d" using le_Suc_ex by blast
    then have "(50 :: int) * 2 ^ j = 2 ^ 64 * (50 * 2 ^ d)" by (simp add: power_add)
    then have "i64 (50 * 2 ^ j) = 0"
      by (intro i64_wraps [of 0 _ "50 * 2 ^ d"]) (simp_all add: is_i64_def)
    with assms(1) show ?thesis by simp
  qed
qed

lemma prefixBits_capFor_iff:
  assumes "is_i64 n"
  shows "prefixBits n anonymitySet = (if n < 50 * 2 ^ 57 then Some (capFor n anonymitySet) else None)"
proof (cases "n < 50")
  case True
  then show ?thesis by (simp add: prefixBits_def anonymitySet_def capFor_def)
next
  case False
  show ?thesis
  proof (cases "n < 50 * 2 ^ 57")
    case True
    let ?b = "capFor n 50"
    note b = capFor_bounds [of 50 n]
    from False b have "50 * 2 ^ ?b \<le> n" "n < 50 * 2 ^ (?b + 1)" by simp_all
    from True this(1) have "(50 :: int) * 2 ^ ?b < 50 * 2 ^ 57" by linarith
    then have "(2 :: int) ^ ?b < 2 ^ 57" by simp
    then have b57: "?b < 57" by (simp only: power_strict_increasing_iff)
    have "i64 (50 * 2 ^ j) \<le> n" if "j \<le> ?b" for j
    proof -
      have "(50 :: int) * 2 ^ j \<le> 50 * 2 ^ ?b" using that by (intro mult_left_mono power_increasing) simp_all
      with \<open>50 * 2 ^ ?b \<le> n\<close> small_fifty [of j] that b57 show ?thesis by linarith
    qed
    with b57 have "prefix_loop n 50 0 = prefix_loop n 50 ?b"
      using prefix_loop_climbs [of 0 ?b 50 n] by simp
    also have "\<dots> = Some ?b"
      using b57 small_fifty [of "?b + 1"] \<open>n < 50 * 2 ^ (?b + 1)\<close> by (subst prefix_loop.simps) simp
    finally show ?thesis using False True by (simp add: prefixBits_def anonymitySet_def)
  next
    case big: False
    have "prefix_loop n 50 0 = prefix_loop n 50 (2 ^ 63 - 1)"
      using prefix_loop_climbs [of 0 "2 ^ 63 - 1" 50 n] shifted_fifty [OF _ assms] big by simp
    also have "\<dots> = None" by (subst prefix_loop.simps) simp
    finally show ?thesis using False big by (simp add: prefixBits_def anonymitySet_def)
  qed
qed

text \<open>
  C39. The width trigcheck asks for is the floored base-2 logarithm of \<open>record_count / 50\<close>, the same
  function of the count as the directory's cap with 50 for 20. For the counts from \<open>50 * 2^57\<close> on
  there is no width: the shifted product wraps below the count for every shift, and the loop ends
  only in the panic of a negative shift count.
\<close>

theorem prefixBits_log:
  assumes "is_i64 n"
  shows "prefixBits n anonymitySet = (if n < 50 * 2 ^ 57 then Some (capFor n anonymitySet) else None)"
  by (rule prefixBits_capFor_iff [OF assms])

theorem prefixBits_log_witness:
  "prefixBits 104233 anonymitySet = Some (capFor 104233 50) \<and> prefixBits (2 ^ 63 - 1) anonymitySet = None"
  using prefixBits_log [of 104233] prefixBits_log [of "2 ^ 63 - 1"] by (simp add: is_i64_def anonymitySet_def)

section \<open>The prefix\<close>

text \<open>The nibbles of a byte string, in the order of its hexadecimal text.\<close>

definition nib :: "bytes \<Rightarrow> nat \<Rightarrow> nat" where
  "nib b j = (if even j then unat (b ! (j div 2)) div 16 else unat (b ! (j div 2)) mod 16)"

lemma nib_less: "nib b j < 16"
  by (simp add: nib_def less_mult_imp_div_less)

lemma length_hex_text [simp]: "length (hex_text b) = 2 * length b"
  by (induction b) (simp_all add: hex_text_def)

lemma hex_text_nth: "j < 2 * length b \<Longrightarrow> hex_text b ! j = hex_char (nib b j)"
proof (induction b arbitrary: j)
  case (Cons x b)
  consider "j = 0" | "j = 1" | i where "j = Suc (Suc i)" by (cases j; cases "j - 1") auto
  then show ?case
  proof cases
    case (3 i)
    with Cons.prems Cons.IH [of i] show ?thesis by (simp add: hex_text_def nib_def)
  qed (simp_all add: hex_text_def nib_def)
qed simp

lemma bit_unat: "bit (unat w) n = bit w n" for w :: "8 word"
  by (simp add: bit_unsigned_iff possible_bit_def)

lemma high_nibble: "k < 4 \<Longrightarrow> bit (unat w div 16) (3 - k) = bit w (7 - k)" for w :: "8 word"
proof -
  assume "k < 4"
  then have "4 + (3 - k) = 7 - k" by simp
  moreover have "unat w div 16 = drop_bit 4 (unat w)" by (simp add: drop_bit_eq_div)
  ultimately show ?thesis by (simp add: bit_drop_bit_eq bit_unat)
qed

lemma low_nibble: "bit (unat w mod 16) (3 - k) = bit w (3 - k)" for w :: "8 word"
proof -
  have "unat w mod 16 = take_bit 4 (unat w)" by (simp add: take_bit_eq_mod)
  moreover have "3 - k < 4" by linarith
  ultimately show ?thesis by (simp add: bit_take_bit_iff bit_unat)
qed

lemma nib_bit:
  assumes "k < 4"
  shows "bit (nib b j) (3 - k) = bit_of b (4 * j + k)"
proof -
  obtain i where "j = 2 * i \<or> j = Suc (2 * i)" by (metis oddE evenE Suc_eq_plus1)
  then show ?thesis
  proof
    assume j: "j = 2 * i"
    have "(4 * j + k) div 8 = i" "(4 * j + k) mod 8 = k" using assms unfolding j by presburger+
    then show ?thesis using high_nibble [OF assms] j by (simp add: nib_def bit_of_def)
  next
    assume j: "j = Suc (2 * i)"
    have "(4 * j + k) div 8 = i" "(4 * j + k) mod 8 = k + 4" using assms unfolding j by presburger+
    then show ?thesis using low_nibble j by (simp add: nib_def bit_of_def)
  qed
qed

lemma nibble_hex_char: "m < 16 \<Longrightarrow> nibble (hex_char m) = Some (byte_of m)"
  by (simp add: nibble_def of_hex_char)

lemma bit_byte_of: "m < 256 \<Longrightarrow> bit (byte_of m) k = bit m k"
  by (metis bit_unat unat_byte_of)

lemma bit_clear_low_nat: "u \<le> k \<Longrightarrow> bit (v - v mod 2 ^ u :: nat) k = bit v k"
proof -
  assume "u \<le> k"
  moreover have "v - v mod 2 ^ u = push_bit u (drop_bit u v)"
    by (simp add: push_bit_eq_mult drop_bit_eq_div minus_mod_eq_div_mult)
  ultimately show ?thesis by (simp add: bit_push_bit_iff bit_drop_bit_eq)
qed

text \<open>The characters: every nibble in full but the last, whose unused low bits are zero.\<close>

lemma prefixHex_spec:
  assumes "bits \<le> 8 * length l"
  shows "length (prefixHex l bits) = (bits + 3) div 4 \<and>
    (\<forall>j < (bits + 3) div 4. \<exists>v. prefixHex l bits ! j = hex_char v \<and> v < 16 \<and>
      (\<forall>k < 4. 4 * j + k < bits \<longrightarrow> bit v (3 - k) = bit_of l (4 * j + k)))"
proof (cases "bits = 0")
  case True
  then show ?thesis by (simp add: prefixHex_def)
next
  case False
  define chars where "chars = (bits + 3) div 4"
  have chars: "chars \<le> 2 * length l" "0 < chars" "bits \<le> 4 * chars" "4 * chars < bits + 4"
    using assms False unfolding chars_def by linarith+
  define u where "u = chars * 4 - bits"
  define v where "v = nib l (chars - 1)"
  define out where "out = take chars (hex_text l)"
  have out: "length out = chars" "out ! j = hex_char (nib l j)" if "j < chars" for j
    using that chars by (simp_all add: out_def hex_text_nth)
  have hex: "prefixHex l bits = (if u > 0 then out[chars - 1 := hex_char (v - v mod 2 ^ u)] else out)"
    using False chars out [of "chars - 1"] hex_val_char [OF nib_less, of l "chars - 1"]
    by (simp add: prefixHex_def Let_def v_def u_def out_def min_def flip: chars_def)
  show ?thesis unfolding chars_def [symmetric]
  proof (intro conjI allI impI)
    show "length (prefixHex l bits) = chars" using hex out [of 0] chars by simp
    fix j assume j: "j < chars"
    show "\<exists>v. prefixHex l bits ! j = hex_char v \<and> v < 16 \<and>
      (\<forall>k < 4. 4 * j + k < bits \<longrightarrow> bit v (3 - k) = bit_of l (4 * j + k))"
    proof (cases "u > 0 \<and> j = chars - 1")
      case True
      have "bit (v - v mod 2 ^ u) (3 - k) = bit_of l (4 * j + k)" if "k < 4" "4 * j + k < bits" for k
      proof -
        have "u \<le> 3 - k" using that True chars unfolding u_def by linarith
        then show ?thesis using nib_bit [OF that(1), of l j] True by (simp add: bit_clear_low_nat v_def)
      qed
      moreover have "v - v mod 2 ^ u < 16" using nib_less [of l "chars - 1"] unfolding v_def by linarith
      ultimately show ?thesis using True hex out [OF j] j by (intro exI [of _ "v - v mod 2 ^ u"]) simp
    next
      case False
      with hex out [OF j] have "prefixHex l bits ! j = hex_char (nib l j)" by auto
      with nib_less nib_bit show ?thesis by blast
    qed
  qed
qed

lemma pack_nibbles_total: "\<forall>c \<in> set p. nibble c \<noteq> None \<Longrightarrow> \<exists>full'. pack_nibbles i p full = Some full'"
  by (induction i p full rule: pack_nibbles.induct) auto

lemma prefixHex_parsed:
  assumes "length l = 32" and "bits \<le> 256" and "bits \<le> maxBits"
  shows "\<exists>q. query_Parse (prefixHex l bits) True (Itoa (int bits)) True maxBits = Inr q \<and>
    q_Bits q = bits \<and> query_Matches q l"
proof -
  let ?p = "prefixHex l bits" and ?z = "replicate ((bits + 7) div 8) (0 :: byte)"
  have "bits \<le> 8 * length l" using assms by simp
  note spec = prefixHex_spec [OF this]
  have "nibble c \<noteq> None" if "c \<in> set ?p" for c
    using that spec nibble_hex_char by (metis in_set_conv_nth option.distinct(1))
  then obtain full where full: "pack_nibbles 0 ?p ?z = Some full" using pack_nibbles_total by blast
  have "hex_bit ?p i = bit_of l i" if "i < bits" for i
  proof -
    have j: "i div 4 < (bits + 3) div 4" "i mod 4 < 4" "4 * (i div 4) + i mod 4 = i" using that by auto
    from spec j(1) obtain v where "?p ! (i div 4) = hex_char v" "v < 16" and
      all: "\<forall>k < 4. 4 * (i div 4) + k < bits \<longrightarrow> bit v (3 - k) = bit_of l (4 * (i div 4) + k)" by blast
    with all [rule_format, of "i mod 4"] j that show ?thesis by (simp add: hex_bit_nibble nibble_hex_char bit_byte_of)
  qed
  then have "agree_on bits full l" using agree_hex [OF full] spec by simp
  moreover have "query_Parse ?p True (Itoa (int bits)) True maxBits = Inr (newQuery full bits)"
    using show_nat_query [of bits] full spec assms by (simp add: query_Parse_def Itoa_def Let_def LookupIDBits_def)
  moreover have "length full = (bits + 7) div 8" using length_pack_nibbles [OF full] by simp
  ultimately show ?thesis using assms by (simp add: newQuery_Matches newQuery_fields)
qed

section \<open>The lookup at the directory\<close>

definition word_char :: "char \<Rightarrow> bool" where
  "word_char c \<longleftrightarrow> c \<notin> {CHR ''%'', CHR ''+'', CHR ''&'', CHR '';'', CHR ''=''}"

lemma unescape_word: "list_all word_char s \<Longrightarrow> unescape form s = Some s"
  by (induction s) (auto simp: word_char_def)

lemma split_on_append_no_sep: "c \<notin> set l \<Longrightarrow> split_on c (l @ c # r) = l # split_on c r"
  by (simp add: split_on_append split_on_no_sep)

lemma query_pair_word:
  assumes "list_all word_char k" and "list_all word_char v"
  shows "query_pair (k @ CHR ''='' # v) = Some (k, v)"
proof -
  have "CHR ''='' \<notin> set k" "CHR '';'' \<notin> set k" "CHR '';'' \<notin> set v"
    using assms by (auto simp: list_all_iff word_char_def)
  with split_first_append [of "CHR ''=''" k v] assms show ?thesis
    by (simp add: query_pair_def unescape_word)
qed

lemma word_hex_char: "v < 16 \<Longrightarrow> word_char (hex_char v)"
proof -
  assume "v < 16"
  then have "(of_char (hex_char v) :: nat) \<notin> {37, 43, 38, 59, 61}" by (auto simp: of_hex_char)
  then show ?thesis unfolding word_char_def by auto
qed

lemma word_digit: "is_digit c \<Longrightarrow> word_char c"
  by (auto simp: word_char_def is_digit_def)

lemma lookup_query_values:
  assumes "list_all word_char prefix"
  shows "map_of (url_Query (lookup_query prefix bits)) ''prefix'' = Some [prefix] \<and>
    map_of (url_Query (lookup_query prefix bits)) ''bits'' = Some [Itoa (int bits)]"
proof -
  have itoa: "list_all word_char (Itoa (int bits))"
    using show_nat_digits [of bits] word_digit by (auto simp: Itoa_def list_all_iff)
  then have amp: "CHR ''&'' \<notin> set (''prefix='' @ prefix)" "CHR ''&'' \<notin> set (''bits='' @ Itoa (int bits))"
    using assms by (auto simp: list_all_iff word_char_def)
  have "split_on CHR ''&'' (lookup_query prefix bits) = [''prefix='' @ prefix, ''bits='' @ Itoa (int bits)]"
    using split_on_append_no_sep [OF amp(1), of "''bits='' @ Itoa (int bits)"] split_on_no_sep [OF amp(2)]
    by (simp add: lookup_query_def)
  moreover have "query_pair (''prefix='' @ prefix) = Some (''prefix'', prefix)"
    "query_pair (''bits='' @ Itoa (int bits)) = Some (''bits'', Itoa (int bits))"
    using query_pair_word [of "''prefix''" prefix] query_pair_word [of "''bits''" "Itoa (int bits)"] assms itoa
    by (simp_all add: word_char_def)
  ultimately show ?thesis by (simp add: url_Query_values)
qed

lemma capFor_antimono:
  assumes "0 < j" and "j \<le> k"
  shows "capFor n k \<le> capFor n j"
proof (cases "n < k")
  case True
  then show ?thesis by (simp add: capFor_def)
next
  case False
  with assms have "k * 2 ^ capFor n k \<le> n" "n < j * 2 ^ (capFor n j + 1)"
    using capFor_bounds [of k n] capFor_bounds [of j n] by simp_all
  moreover have "j * 2 ^ capFor n k \<le> k * 2 ^ capFor n k" using assms by (intro mult_right_mono) simp_all
  ultimately have "j * 2 ^ capFor n k < j * 2 ^ (capFor n j + 1)" by linarith
  then have "(2 :: int) ^ capFor n k < 2 ^ (capFor n j + 1)" using assms by simp
  then have "capFor n k < capFor n j + 1" by (simp only: power_strict_increasing_iff)
  then show ?thesis by simp
qed

lemma prefixHex_word: "bits \<le> 8 * length l \<Longrightarrow> list_all word_char (prefixHex l bits)"
  using prefixHex_spec [of bits l] word_hex_char by (fastforce simp: list_all_length)

lemma prefixBits_capFor:
  assumes "prefixBits n anonymitySet = Some b" and "is_i64 n"
  shows "b = capFor n 50 \<and> b < 57"
proof -
  have b: "b = capFor n 50" and n: "n < 50 * 2 ^ 57"
    using assms prefixBits_capFor_iff [OF assms(2)] by (simp_all add: anonymitySet_def split: if_splits)
  have "capFor n 50 < 57"
  proof (cases "n < 50")
    case False
    with capFor_bounds [of 50 n] have "50 * 2 ^ capFor n 50 \<le> n" by simp
    with n have "(50 :: int) * 2 ^ capFor n 50 < 50 * 2 ^ 57" by linarith
    then have "(2 :: int) ^ capFor n 50 < 2 ^ 57" by simp
    then show ?thesis by (simp only: power_strict_increasing_iff)
  qed (simp add: capFor_def)
  with b show ?thesis by simp
qed

text \<open>
  C37. The lookup of trigcheck at the directory. For every record count the directory may hold, the
  query built from the count it advertises and from the publisher's own identifier is parsed,
  never over-precise, matches that identifier, and asks for no more bits than leave an expected
  fifty records, where the directory advertises as many.
\<close>

theorem own_lookup_accepted:
  assumes "0 \<le> cnt" and "is_i64 cnt" and "length l = 32"
    and "prefixBits (understate cnt) anonymitySet = Some bits"
    and "rq_rawquery r = lookup_query (prefixHex l bits) bits"
  shows "\<not> repeated (url_Query (rq_rawquery r)) ''prefix'' \<and> \<not> repeated (url_Query (rq_rawquery r)) ''bits'' \<and>
    (\<exists>q. request_query r cnt = Inr q \<and> q_Bits q = bits \<and> query_Matches q l) \<and>
    (understate cnt < anonymitySet \<and> bits = 0 \<or> anonymitySet * 2 ^ bits \<le> cnt)"
proof -
  let ?n = "understate cnt"
  have n: "0 \<le> ?n" "?n \<le> cnt" "is_i64 ?n"
    using understate_bounds [OF assms(1)] assms(2) by (simp_all add: is_i64_def)
  from prefixBits_capFor [OF assms(4) n(3)] have b: "bits = capFor ?n 50" "bits < 57" by simp_all
  have "capFor ?n 50 \<le> query_Cap ?n" by (simp add: query_Cap_def KMin_def capFor_antimono)
  with query_Cap_mono [OF n(2)] b have cap: "bits \<le> query_Cap cnt" by simp
  have "list_all word_char (prefixHex l bits)" by (rule prefixHex_word) (use assms(3) b in simp)
  note vals = lookup_query_values [OF this, of bits]
  moreover obtain q where "query_Parse (prefixHex l bits) True (Itoa (int bits)) True (query_Cap cnt) = Inr q"
    "q_Bits q = bits" "query_Matches q l"
    using prefixHex_parsed [OF assms(3) _ cap] b by auto
  moreover have "?n < anonymitySet \<and> bits = 0 \<or> anonymitySet * 2 ^ bits \<le> cnt"
  proof (cases "?n < 50")
    case True
    then show ?thesis by (simp add: b anonymitySet_def capFor_def)
  next
    case False
    then show ?thesis using capFor_bounds [of 50 ?n] n(2) by (simp add: anonymitySet_def b(1))
  qed
  ultimately show ?thesis
    by (simp add: repeated_def request_query_def single_def assms(5) Let_def)
qed

lemma understate_demo: "understate 104233 = 100000"
  by (simp add: understate_def Let_def scale_up.simps)

definition sample_lookup :: request where
  "sample_lookup = \<lparr>rq_method = ''GET'', rq_path = ''/v1/record'',
    rq_rawquery = lookup_query (prefixHex (replicate 32 0xC3) 10) 10, rq_remote = [], rq_forwarded = [],
    rq_body = [], rq_body_fails = False\<rparr>"

theorem own_lookup_accepted_witness:
  "\<exists>q. request_query sample_lookup 104233 = Inr q \<and> query_Matches q (replicate 32 0xC3)"
proof -
  have "capFor 100000 50 = 10" by (rule capFor_unique) simp_all
  then have "prefixBits (understate 104233) anonymitySet = Some 10"
    using prefixBits_capFor_iff [of 100000] by (simp add: understate_demo is_i64_def anonymitySet_def)
  from own_lookup_accepted [OF _ _ _ this, of "replicate 32 0xC3" sample_lookup]
  show ?thesis by (auto simp: is_i64_def sample_lookup_def)
qed

end
