(* ===== verification/Trigcheck_Readback.thy ===== *)
theory Trigcheck_Readback imports Trigcheck_Lookup begin

text \<open>
  Publishing and reading back: the answers of the modelled directory as the client parses them,
  the envelope \<open>build\<close> makes, its acceptance, and what a verification finds in a bucket.
\<close>

section \<open>Reading the directory's answers\<close>

lemma reads_whole_pval:
  assumes "reads_whole d t v" and "d \<le> maxNestingDepth"
  shows "pval (2 * length (t @ r) + 2) maxNestingDepth (t @ r) = Some (v, r)"
proof -
  from assms(1) obtain n where "pval n d (t @ r) = Some (v, r)" unfolding reads_whole_def by blast
  from pval_enough [OF this assms(2)] show ?thesis .
qed

lemma reads_whole_first: "reads_whole d t v \<Longrightarrow> t \<noteq> []"
proof
  assume "reads_whole d t v" and "t = []"
  then obtain n where "pval n d [] = Some (v, [])" unfolding reads_whole_def by force
  then show False by (cases n) simp_all
qed

definition no_ws_first :: "string \<Rightarrow> bool" where
  "no_ws_first t \<longleftrightarrow> t \<noteq> [] \<and> \<not> is_ws (hd t)"

lemma raw_text_exact: "no_ws_first t \<Longrightarrow> raw_text (t @ r) r = t"
  by (cases t) (simp_all add: no_ws_first_def raw_text_def)

lemma raw_elems_join:
  assumes "list_all2 (reads_whole d) ts vs" and "d \<le> maxNestingDepth" and "\<forall>t \<in> set ts. no_ws_first t"
    and "length ts \<le> n" and "ts \<noteq> []"
  shows "raw_elems n (join '','' ts @ CHR '']'' # r) = ts"
  using assms(1,3,4,5)
proof (induction ts vs arbitrary: n rule: list_all2_induct)
  case (Cons t ts v vs)
  obtain m where n: "n = Suc m" "length ts \<le> m" using Cons.prems by (cases n) auto
  show ?case
  proof (cases ts)
    case Nil
    with Cons.prems reads_whole_pval [OF Cons.hyps(1) assms(2), of "CHR '']'' # r"] n show ?thesis
      by (simp add: raw_text_exact)
  next
    case (Cons t' ts')
    then have "raw_elems m (join '','' ts @ CHR '']'' # r) = ts" using Cons.IH Cons.prems n by simp
    with Cons Cons.prems reads_whole_pval [OF Cons.hyps(1) assms(2), of "CHR '','' # join '','' ts @ CHR '']'' # r"] n
    show ?thesis by (simp add: raw_text_exact)
  qed
qed simp

lemma raw_array_text:
  assumes "list_all2 (reads_whole d) ts vs" and "d < maxNestingDepth" and "\<forall>t \<in> set ts. no_ws_first t"
  shows "raw_array (array_text ts) = ts \<and> json_parse (array_text ts) = Some (JArr vs)"
proof -
  have "list_all2 (reads d) ts vs" using assms(1) by (auto intro: list_all2_mono reads_wholeD)
  from reads_array [OF this] Suc_leI [OF assms(2)] have parse: "json_parse (array_text ts) = Some (JArr vs)"
    by (rule json_parse_reads_whole)
  have long: "length ts \<le> length (join '','' ts @ '']'')"
    by (induction "'',''" ts rule: join.induct) auto
  show ?thesis
  proof (cases ts)
    case Nil
    with assms(1) parse show ?thesis by (simp add: raw_array_def)
  next
    case (Cons t ts')
    then obtain v vs' where "vs = v # vs'" using assms(1) by (cases vs) auto
    with parse raw_elems_join [OF assms(1) _ assms(3), of "length (array_text ts)" "[]"] assms(2) long Cons
    show ?thesis by (simp add: raw_array_def array_text_def)
  qed
qed

lemma raw_mems_single:
  assumes "reads_whole d t v" and "d \<le> maxNestingDepth" and "no_ws_first t" and "list_all plain_char k"
  shows "raw_mems (Suc n) (quoted k @ CHR '':'' # t @ [CHR 0x7D]) = [(k, t)]"
  using reads_whole_pval [OF assms(1,2), of "[CHR 0x7D]"] string_body_plain [OF assms(4)] raw_text_exact [OF assms(3)]
  by (simp add: quoted_def unquote_plain [OF assms(4)] del: pval.simps)

text \<open>The bucket of a lookup is read back as the texts the directory joined.\<close>

lemma unmarshal_records_text:
  assumes "list_all2 (reads_whole d) ts vs" and "d + 1 < maxNestingDepth" and "\<forall>t \<in> set ts. no_ws_first t"
  shows "unmarshal_lookup (records_text ts) = Some ts"
proof -
  have arr: "reads_whole (Suc d) (array_text ts) (JArr vs)"
    by (rule reads_array) (use assms(1) in \<open>auto intro: list_all2_mono reads_wholeD\<close>)
  have object: "records_text ts = object_text [(''records'', array_text ts)]"
    by (simp add: records_text_def object_text_def array_text_def quoted_def)
  have "reads_whole (Suc (Suc d)) (records_text ts) (JObj [(''records'', JArr vs)])"
    unfolding object by (rule reads_object) (simp_all add: reads_wholeD [OF arr] plain_char_def)
  then have parse: "json_parse (records_text ts) = Some (JObj [(''records'', JArr vs)])"
    by (rule json_parse_reads_whole) (use assms(2) in simp)
  have "raw_mems (length (records_text ts)) (quoted ''records'' @ CHR '':'' # array_text ts @ [CHR 0x7D]) =
      [(''records'', array_text ts)]"
    unfolding records_text_def
    using raw_mems_single [OF arr, of "''records''"] assms(2)
    by (simp add: no_ws_first_def array_text_def plain_char_def del: raw_mems.simps)
  then have "raw_object (records_text ts) = [(''records'', array_text ts)]"
    using parse object by (simp add: raw_object_def object_text_def)
  moreover have "field_for [''records''] ''records'' = Some ''records''" by (rule field_for_exact) simp
  moreover have "raw_array (array_text ts) = ts" "json_parse (array_text ts) = Some (JArr vs)"
    using raw_array_text [OF assms(1) _ assms(3)] assms(2) by simp_all
  ultimately show ?thesis using parse by (simp add: unmarshal_lookup_def)
qed

lemma reads_bool: "reads d ''true'' (JBool True)" "reads d ''false'' (JBool False)"
proof -
  have "pval (Suc 0) d (''true'' @ r) = Some (JBool True, r)" "pval (Suc 0) d (''false'' @ r) = Some (JBool False, r)" for r
    by (simp_all add: strip_prefix_def is_ws_def skip_ws_def)
  then show "reads d ''true'' (JBool True)" "reads d ''false'' (JBool False)" unfolding reads_def by blast+
qed

lemma meta_names:
  "field_for [''record_count''] ''record_count'' = Some ''record_count''"
  "field_for [''record_count''] ''v'' = None" "field_for [''record_count''] ''max_ttl'' = None"
  "field_for [''record_count''] ''max_record_bytes'' = None" "field_for [''record_count''] ''pow_bits'' = None"
  "field_for [''record_count''] ''signal'' = None" "field_for [''record_count''] ''source_url'' = None"
  by code_simp+

text \<open>The count the client reads is the one the directory advertises.\<close>

lemma unmarshal_meta_members:
  assumes "is_i64 (understate cnt)" and "ascii (sv_sourceURL s)"
  shows "unmarshal_meta (object_text (meta_members cnt s)) = Some (understate cnt)"
proof -
  let ?vs = "[(''v'', JNum (Itoa 1)), (''record_count'', JNum (Itoa (understate cnt))), (''max_ttl'', JNum (Itoa (MaxTTL (sv_limits s)))),
     (''max_record_bytes'', JNum (Itoa (MaxRecordBytes (sv_limits s)))), (''pow_bits'', JNum (Itoa (PoWBits (sv_limits s)))),
     (''signal'', JBool (sv_signal s \<noteq> None)), (''source_url'', JStr (sv_sourceURL s))]"
  have "reads_whole (Suc 0) (object_text (meta_members cnt s)) (JObj ?vs)"
    unfolding meta_members_def
    by (rule reads_object) (use assms(2) in \<open>simp_all add: reads_Itoa reads_quote reads_bool plain_char_def\<close>)
  then have "json_parse (object_text (meta_members cnt s)) = Some (JObj ?vs)"
    by (rule json_parse_reads_whole) (simp add: maxNestingDepth_def)
  with assms(1) show ?thesis
    by (simp add: unmarshal_meta_def store_struct_def meta_member_def meta_names store_int64_def)
qed

section \<open>The envelope that is published\<close>

text \<open>What \<open>build\<close> gives, with the laws of the primitives.\<close>

lemma build_published:
  assumes laws: "hkdf_ok C" "sha256_ok C" "ed25519_ok C" "gcm_ok C"
    and len: "length sDir = 32" "length ikSeed = 32" "length random = 12"
    and built: "build C cancelled random sDir (NewKeyFromSeed C ikSeed) epoch now cfg = Inr env"
  obtains d key pt where "env = transmitted d" "decoded_widths d" "d_ExpiresAt d = i64 (now + t_ttl cfg)"
    "Decoded_Verify C d = None" "pow_Verify C (d_LookupID d) (d_ExpiresAt d) (d_PoW d) (t_powBits cfg)"
    "RecordKey C sDir epoch = Inr key" "record_Open C key (d_Nonce d) (d_CT d) = Inr pt"
    "VerifyPlaintext C (ed_public C ikSeed) pt = Inr (bytes_of_string (marshal_body (build_body now cfg)))"
    "\<exists>wk. WriteKey C sDir epoch = Inr wk \<and> d_LookupID d = derive_LookupID C (drop 32 wk)"
    "length (d_CT d) = length (marshal_body (build_body now cfg)) + 82"
proof -
  obtain seed where seed: "WriteSeed C sDir epoch = Inr seed" "length seed = 32"
    using derived_lengths(1) [OF laws(1) len(1)] by blast
  obtain key where key: "RecordKey C sDir epoch = Inr key" "length key = 32"
    using derived_lengths(2) [OF laws(1) len(1)] by blast
  let ?body = "bytes_of_string (marshal_body (build_body now cfg))"
  let ?wk = "NewKeyFromSeed C seed" and ?pub = "ed_public C seed" and ?ik = "NewKeyFromSeed C ikSeed"
  let ?l = "sha256 C ?pub" and ?e = "i64 (now + t_ttl cfg)"
  note wk = signature_length [OF laws(3) seed(2)] and ik = signature_length [OF laws(3) len(2)]
  have key_ok: "newGCM key = None" using key by (simp add: newGCM_def record_lens)
  have WK: "WriteKey C sDir epoch = Inr ?wk" using seed by (simp add: WriteKey_def)
  obtain pt where pt: "MarshalPlaintext C ?ik ?body = Inr pt"
    using built WK key by (cases "MarshalPlaintext C ?ik ?body") (simp_all add: build_def Let_def)
  let ?ct = "gcm_seal C key random pt"
  obtain p where p: "pow_Solve C cancelled ?l ?e (t_powBits cfg) = Inr p"
    using built WK key pt wk key_ok
    by (cases "pow_Solve C cancelled ?l ?e (t_powBits cfg)")
      (simp_all add: build_def Let_def record_Seal_def derive_LookupID_def)
  define d where "d = signed_record C seed random ?ct ?e p"
  have p8: "length p = 8" using pow_Solve_verifies [OF p] by simp
  have asm: "decoded_widths d" "Decoded_Verify C d = None" "record_Open C key (d_Nonce d) (d_CT d) = Inr pt"
    "VerifyPlaintext C (ed_public C ikSeed) pt = Inr ?body" "length (d_CT d) = length ?body + 82"
    using assembled_record [OF laws(2,3,4) seed(2) key(2) len(3) p8 len(2) pt, of ?e] by (simp_all add: Let_def d_def)
  have env: "env = transmitted d"
    using built WK key pt p wk key_ok
    by (simp add: build_def Let_def record_Seal_def derive_LookupID_def record_Sign_def Version_def
      byte_of_def d_def transmitted_def signed_record_def)
  have solved: "pow_Verify C (d_LookupID d) (d_ExpiresAt d) (d_PoW d) (t_powBits cfg)" "d_ExpiresAt d = ?e"
    using pow_Solve_verifies [OF p] by (simp_all add: d_def signed_record_def Let_def)
  have "\<exists>wk. WriteKey C sDir epoch = Inr wk \<and> d_LookupID d = derive_LookupID C (drop 32 wk)"
    using WK wk by (simp add: d_def signed_record_def Let_def derive_LookupID_def)
  then show thesis using asm solved env key(1) by (intro that) simp_all
qed

lemma unmarshal_envelope_text:
  "is_i64 (d_ExpiresAt d) \<Longrightarrow> unmarshal_envelope (envelope_text d) = Some (transmitted d)"
  using accept_parse_envelope_text [of d] by (auto simp: accept_parse_def split: option.splits if_splits)

lemma pow_Verify_weaker: "pow_Verify C l e p k \<Longrightarrow> 0 \<le> j \<Longrightarrow> j \<le> k \<Longrightarrow> pow_Verify C l e p j"
  by (auto simp: pow_Verify_def split: if_splits)

text \<open>
  What trigcheck builds, a directory accepts: at any time before the expiry, an instance whose
  difficulty is at most the one solved for, whose bound on the lifetime admits the expiry and
  whose size limit the body meets answers the envelope as transmitted with acceptance, and
  decodes the identifier of the epoch's write key.
\<close>

theorem built_record_accepted:
  assumes "hkdf_ok C" "sha256_ok C" "ed25519_ok C" "gcm_ok C"
    and "length sDir = 32" "length ikSeed = 32" "length random = 12"
    and "build C cancelled random sDir (NewKeyFromSeed C ikSeed) epoch now cfg = Inr env"
    and "int (length (marshal_envelope env)) \<le> MaxRecordBytes lim" "0 \<le> PoWBits lim" "PoWBits lim \<le> t_powBits cfg"
    and "now' < i64 (now + t_ttl cfg)" "i64 (now + t_ttl cfg) \<le> i64 (i64 (now' + MaxTTL lim) + SkewGrace lim)"
  shows "\<exists>d wk. accept_Check C (marshal_envelope env) now' lim False = (RecordAccepted, Some d) \<and>
    WriteKey C sDir epoch = Inr wk \<and> d_LookupID d = derive_LookupID C (drop 32 wk) \<and>
    d_ExpiresAt d = i64 (now + t_ttl cfg)"
proof -
  from build_published [OF assms(1-8)] obtain d wk where env: "env = transmitted d" "decoded_widths d"
    and d: "d_ExpiresAt d = i64 (now + t_ttl cfg)" "Decoded_Verify C d = None"
      "pow_Verify C (d_LookupID d) (d_ExpiresAt d) (d_PoW d) (t_powBits cfg)"
      "WriteKey C sDir epoch = Inr wk" "d_LookupID d = derive_LookupID C (drop 32 wk)"
    by metis
  have "accept_parse (marshal_envelope env) = Some env"
    unfolding env(1) marshal_transmitted by (rule accept_parse_envelope_text) (simp add: d)
  moreover have "Envelope_Decode env = Inr d" unfolding env(1) by (rule Envelope_Decode_transmitted [OF env(2)])
  moreover have "ed_verify C (d_WKPub d) (SigningBytes d) (d_Sig d)" "sha256 C (d_WKPub d) = d_LookupID d"
    using d(2) by (auto simp: Decoded_Verify_def VerifySignature_def VerifyLookupID_def split: if_splits option.splits)
  moreover have "pow_Verify C (d_LookupID d) (d_ExpiresAt d) (d_PoW d) (PoWBits lim)"
    using pow_Verify_weaker [OF d(3) assms(10,11)] .
  ultimately have "accept_Check C (marshal_envelope env) now' lim False = (RecordAccepted, Some d)"
    using assms(9,12,13) d(1) by (auto simp: accept_Check_iff)
  with d show ?thesis by blast
qed

lemma verify_records_skip:
  "\<forall>raw \<in> set pre. open_record C key raw = None \<Longrightarrow>
    verify_records C key ikPub (pre @ raws) m = verify_records C key ikPub raws m"
  by (induction pre) simp_all

text \<open>
  From any bucket that holds the transmitted envelope and whose other members do not open under
  the record key, the loop finds exactly one record, and shows the times, the mode, the
  capabilities and the endpoints that were published, in order.
\<close>

lemma built_record_read_back:
  assumes "hkdf_ok C" "sha256_ok C" "ed25519_ok C" "gcm_ok C"
    and "length sDir = 32" "length ikSeed = 32" "length random = 12"
    and "build C cancelled random sDir (NewKeyFromSeed C ikSeed) epoch now cfg = Inr env"
    and "body_printable (build_body now cfg)" and "RecordKey C sDir epoch = Inr key"
    and "\<forall>raw \<in> set (pre @ post). open_record C key raw = None"
  shows "verify_records C key (ed_public C ikSeed) (pre @ marshal_envelope env # post) 0 =
    (Inr 1, [PrintMatch now (i64 (now + t_ttl cfg)) (t_tlsMode cfg)
      (join '', '' (if t_caps cfg = [] then [] else split_on CHR '','' (t_caps cfg)))
      (map (\<lambda>ep. (ep_Type ep, hostPort (ep_Host ep) (ep_Port ep))) (t_endpoints cfg))])"
proof -
  from build_published [OF assms(1-8)] assms(10) obtain d pt where env: "env = transmitted d" "decoded_widths d"
    and d: "d_ExpiresAt d = i64 (now + t_ttl cfg)" "Decoded_Verify C d = None"
      "record_Open C key (d_Nonce d) (d_CT d) = Inr pt"
      "VerifyPlaintext C (ed_public C ikSeed) pt = Inr (bytes_of_string (marshal_body (build_body now cfg)))"
    by (metis sum.inject(2))
  have "unmarshal_envelope (marshal_envelope env) = Some env"
    unfolding env(1) marshal_transmitted by (rule unmarshal_envelope_text) (simp add: d)
  with env d have own: "open_record C key (marshal_envelope env) = Some (d, pt)"
    by (simp add: open_record_def Envelope_Decode_transmitted)
  have rest: "verify_records C key (ed_public C ikSeed) post 1 = (Inr 1, [])"
    using verify_records_skip [of post C key _ "[]"] assms(11) by simp
  have "verify_records C key (ed_public C ikSeed) (pre @ marshal_envelope env # post) 0 =
      (Inr 1, [show_match d (build_body now cfg)])"
    using verify_records_skip [of pre C key] assms(9,11) own d rest unmarshal_marshal_body by simp
  then show ?thesis by (simp add: show_match_def build_body_def d optional_def)
qed

text \<open>An envelope's text as a member of a bucket.\<close>

lemma envelope_text_reads:
  "\<exists>v. reads_whole 1 (envelope_text d) v" "no_ws_first (envelope_text d)"
proof -
  have "reads_whole (Suc 0) (envelope_text d) (JObj (map (\<lambda>(k, t, v). (k, v)) (envelope_members d)))"
    unfolding envelope_text_def text_of_members_def
    by (rule reads_object)
      (use envelope_members_rendered [of d] in \<open>auto simp: envelope_members_def intro!: renders_reads\<close>)
  then show "\<exists>v. reads_whole 1 (envelope_text d) v" by auto
  show "no_ws_first (envelope_text d)"
    by (simp add: no_ws_first_def envelope_text_def text_of_members_def object_text_def)
qed

lemma unmarshal_bucket: "unmarshal_lookup (records_text (map envelope_text ds)) = Some (map envelope_text ds)"
proof -
  obtain f where f: "reads_whole 1 (envelope_text d) (f d)" for d
    using envelope_text_reads(1) by metis
  have "list_all2 (reads_whole 1) (map envelope_text ds) (map f ds)"
    using f by (simp add: list_all2_conv_all_nth)
  then show ?thesis
    by (rule unmarshal_records_text) (use envelope_text_reads(2) in \<open>auto simp: maxNestingDepth_def\<close>)
qed

definition shown_record :: "int \<Rightarrow> tc_config \<Rightarrow> tc_action" where
  "shown_record now cfg = PrintMatch now (i64 (now + t_ttl cfg)) (t_tlsMode cfg)
    (join '', '' (if t_caps cfg = [] then [] else split_on CHR '','' (t_caps cfg)))
    (map (\<lambda>ep. (ep_Type ep, hostPort (ep_Host ep) (ep_Port ep))) (t_endpoints cfg))"

definition answers :: "tc_world \<Rightarrow> string \<Rightarrow> string \<Rightarrow> bool" where
  "answers w url body \<longleftrightarrow> tw_net w ''GET'' url None = Response StatusOK body False \<and> length body < 2 ^ 20"

lemma answers_do: "answers w url body \<Longrightarrow> trig_do w ''GET'' url None = Inr (StatusOK, body)"
  by (simp add: answers_def trig_do_def)

lemma publish_then_verify_run:
  assumes laws: "hkdf_ok C" "sha256_ok C" "ed25519_ok C" "gcm_ok C"
    and len: "length sDir = 32" "length ikSeed = 32" "length random = 12"
    and built: "build C cancelled random sDir (NewKeyFromSeed C ikSeed) epoch now cfg = Inr env"
    and printable: "body_printable (build_body now cfg)"
    and keys: "WriteKey C sDir epoch = Inr wk" "RecordKey C sDir epoch = Inr key"
    and flags: "t_sDir vcfg = b64_Encode sDir" "t_ikPub vcfg = b64_Encode (ed_public C ikSeed)"
    and clock: "i64 (Epoch (tw_now w) + t_epochOff vcfg) = epoch"
    and meta: "answers w (t_url vcfg @ ''/v1/meta'') (object_text (meta_members cnt s))"
      "is_i64 (understate cnt)" "ascii (sv_sourceURL s)"
    and width: "prefixBits (understate cnt) anonymitySet = Some bits"
    and lookup: "answers w (lookup_url vcfg (prefixHex (derive_LookupID C (drop 32 wk)) bits) bits)
      (records_text (map envelope_text pre @ marshal_envelope env # map envelope_text post))"
    and others: "\<forall>d \<in> set (pre @ post). open_record C key (envelope_text d) = None"
  shows "\<exists>acts. runVerify C w vcfg = (None, acts @ [shown_record now cfg])"
proof -
  have sec: "secret (t_sDir vcfg) ''s-dir'' (tw_sDir w) = Inr (sDir, False)"
  proof -
    have "length (b64_Encode sDir) = 43" unfolding length_b64_Encode len(1) by simp
    then have "b64_Encode sDir \<noteq> []" by (metis list.size(3) zero_neq_numeral)
    with len(1) show ?thesis by (simp add: secret_def flags SDirLen_def)
  qed
  have ik: "b64_DecodeFixed (t_ikPub vcfg) 32 = Inr (ed_public C ikSeed)"
    using laws(3) len(2) by (simp add: flags ed25519_ok_def)
  obtain d where "env = transmitted d" by (rule build_published [OF laws len built])
  then have bucket: "unmarshal_lookup (records_text (map envelope_text pre @ marshal_envelope env # map envelope_text post)) =
      Some (map envelope_text pre @ marshal_envelope env # map envelope_text post)"
    using unmarshal_bucket [of "pre @ d # post"] by (simp add: marshal_transmitted)
  have "\<forall>raw \<in> set (map envelope_text pre @ map envelope_text post). open_record C key raw = None"
    using others by auto
  from built_record_read_back [OF laws len built printable keys(2) this]
  have "verify_records C key (ed_public C ikSeed) (map envelope_text pre @ marshal_envelope env # map envelope_text post) 0 =
      (Inr 1, [shown_record now cfg])"
    by (simp add: shown_record_def)
  then show ?thesis
    using sec ik answers_do [OF meta(1)] answers_do [OF lookup] unmarshal_meta_members [OF meta(2,3)] width keys bucket
    by (simp add: runVerify_def Let_def clock verdict_def)
qed

section \<open>A concrete run\<close>

definition demo_tc :: tc_config where
  "demo_tc = tc_defaults\<lparr>t_url := ''http://d'', t_endpoints := [\<lparr>ep_Type = ''lan'', ep_Host = ''::1'', ep_Port = 80\<rparr>],
    t_ttl := 3600, t_powBits := 0, t_caps := ''ice,hls''\<rparr>"

lemma demo_body: "length (marshal_body (build_body 100 demo_tc)) \<le> 200" "body_printable (build_body 100 demo_tc)"
proof -
  show "length (marshal_body (build_body 100 demo_tc)) \<le> 200" by code_simp
  have "is_i64 80" "is_i64 100" "is_i64 1" by (simp_all add: is_i64_def)
  then show "body_printable (build_body 100 demo_tc)"
    by (simp add: body_printable_def build_body_def demo_tc_def tc_defaults_def ascii_def Version_def TLSModePKI_def)
qed

lemma crypto_laws: "hkdf_ok toy_crypto" "sha256_ok toy_crypto" "ed25519_ok toy_crypto" "gcm_ok toy_crypto"
  by simp_all

lemma demo_lengths: "length (replicate 32 (5 :: byte)) = 32" "length (replicate 32 (6 :: byte)) = 32"
  "length (replicate 12 (7 :: byte)) = 12"
  by simp_all

lemma demo_built:
  obtains env key wk where "build toy_crypto (\<lambda>i. False) (replicate 12 7) (replicate 32 5)
      (NewKeyFromSeed toy_crypto (replicate 32 6)) 0 100 demo_tc = Inr env"
    "RecordKey toy_crypto (replicate 32 5) 0 = Inr key" "WriteKey toy_crypto (replicate 32 5) 0 = Inr wk"
    "length (marshal_envelope env) \<le> 4096"
proof -
  let ?C = toy_crypto and ?s = "replicate 32 5 :: bytes" and ?ik = "NewKeyFromSeed toy_crypto (replicate 32 6)"
  obtain seed where seed: "WriteSeed ?C ?s 0 = Inr seed" "length seed = 32"
    using derived_lengths(1) [OF crypto_laws(1) demo_lengths(1)] by blast
  obtain key where key: "RecordKey ?C ?s 0 = Inr key" "length key = 32"
    using derived_lengths(2) [OF crypto_laws(1) demo_lengths(1)] by blast
  note wk = signature_length [OF crypto_laws(3) seed(2)] and ik = signature_length [OF crypto_laws(3) demo_lengths(2)]
  obtain pt where "MarshalPlaintext ?C ?ik (bytes_of_string (marshal_body (build_body 100 demo_tc))) = Inr pt"
    using ik demo_body(1) by (simp add: MarshalPlaintext_def MaxBodyLen_def)
  moreover have "newGCM key = None" using key by (simp add: newGCM_def record_lens)
  moreover have "t_powBits demo_tc = 0" by (simp add: demo_tc_def)
  ultimately obtain env where env: "build ?C (\<lambda>i. False) (replicate 12 7) ?s ?ik 0 100 demo_tc = Inr env"
    using seed key wk
    by (simp add: build_def Let_def WriteKey_def record_Seal_def pow_Solve_zero record_Sign_def)
  obtain d where d: "env = transmitted d" "decoded_widths d" "d_ExpiresAt d = i64 (100 + t_ttl demo_tc)"
    "length (d_CT d) = length (marshal_body (build_body 100 demo_tc)) + 82"
    by (rule build_published [OF crypto_laws demo_lengths env])
  have "length (Itoa 3700) = 4" "length (Itoa 1) = 1" by code_simp+
  moreover have "d_ExpiresAt d = 3700" using d(3) by (simp add: demo_tc_def i64_id is_i64_def)
  moreover have "(4 * length (d_CT d) + 2) div 3 \<le> 1000" using d(4) demo_body(1) by simp
  ultimately have "length (marshal_envelope env) \<le> 4096"
    using d(2) unfolding d(1) marshal_transmitted
    by (simp add: envelope_text_def text_of_members_def envelope_members_def object_text_def quoted_def decoded_widths_def)
  with that env key seed show thesis by (simp add: WriteKey_def)
qed

definition demo_srv :: server where
  "demo_srv = \<lparr>sv_store = [], sv_signal = None,
    sv_limiter = limiter_New \<lparr>o_PutRecord = 0, o_GetRecord = 0, o_Signal = 0, o_Window = 0, o_MaxKeys = 0\<rparr>,
    sv_client = [], sv_limits = DefaultLimits, sv_sourceURL = ''https://d'', sv_mux = []\<rparr>"

definition demo_vcfg :: tc_config where
  "demo_vcfg = demo_tc\<lparr>t_verify := True, t_sDir := b64_Encode (replicate 32 5),
    t_ikPub := b64_Encode (ed_public toy_crypto (replicate 32 6))\<rparr>"

definition demo_tw :: "Envelope \<Rightarrow> tc_world" where
  "demo_tw env = \<lparr>tw_sDir = Some (replicate 32 5), tw_ik = Some (replicate 32 6), tw_nonce = replicate 12 7, tw_now = 100,
    tw_cancelled = (\<lambda>i. False), tw_write_fails = False,
    tw_net = (\<lambda>method url body. if method = ''PUT'' then Response 204 [] False
      else if url = ''http://d/v1/meta'' then Response 200 (object_text (meta_members 1 demo_srv)) False
      else Response 200 (records_text [marshal_envelope env]) False)\<rparr>"

lemma demo_answers:
  assumes "length (marshal_envelope env) \<le> 4096"
  shows "answers (demo_tw env) (t_url demo_vcfg @ ''/v1/meta'') (object_text (meta_members 1 demo_srv))"
    and "answers (demo_tw env) (lookup_url demo_vcfg prefix bits) (records_text [marshal_envelope env])"
proof -
  have "length (Itoa 1) = 1" "length (Itoa 172800) = 6" "length (Itoa 4096) = 4" "length (Itoa 20) = 2"
    by (simp_all add: Itoa_def show_nat.simps)
  moreover have "length (json_quote ''https://d'') = 11" by code_simp
  ultimately have "length (object_text (meta_members 1 demo_srv)) \<le> 300"
    by (simp add: meta_members_def demo_srv_def DefaultLimits_def understate_def record_MaxTTL_def
      MaxEnvelopeBytes_def DefaultBits_def object_text_def quoted_def)
  then show "answers (demo_tw env) (t_url demo_vcfg @ ''/v1/meta'') (object_text (meta_members 1 demo_srv))"
    by (simp add: answers_def demo_tw_def demo_vcfg_def demo_tc_def StatusOK_def)
  show "answers (demo_tw env) (lookup_url demo_vcfg prefix bits) (records_text [marshal_envelope env])"
    using assms by (simp add: answers_def demo_tw_def demo_vcfg_def demo_tc_def StatusOK_def lookup_url_def records_text_def)
qed

lemma demo_understate: "understate 1 = 1" "prefixBits 1 anonymitySet = Some 0" "ascii (sv_sourceURL demo_srv)"
  "Epoch 100 = 0" "i64 0 = 0" "is_i64 1"
  by (simp_all add: understate_def prefixBits_def anonymitySet_def ascii_def demo_srv_def Epoch_nonneg i64_def is_i64_def)

lemma demo_verifies:
  assumes "build toy_crypto (\<lambda>i. False) (replicate 12 7) (replicate 32 5)
      (NewKeyFromSeed toy_crypto (replicate 32 6)) 0 100 demo_tc = Inr env"
    and "RecordKey toy_crypto (replicate 32 5) 0 = Inr key" "WriteKey toy_crypto (replicate 32 5) 0 = Inr wk"
    and "length (marshal_envelope env) \<le> 4096"
  shows "\<exists>acts. runVerify toy_crypto (demo_tw env) demo_vcfg = (None, acts @ [shown_record 100 demo_tc])"
  by (rule publish_then_verify_run [OF crypto_laws demo_lengths assms(1) demo_body(2) assms(3,2), of demo_vcfg "demo_tw env"
        1 demo_srv 0 "[]" "[]"])
    (use demo_answers [OF assms(4)] in \<open>simp_all add: demo_understate demo_vcfg_def demo_tc_def demo_tw_def tc_defaults_def\<close>)

text \<open>Whatever the bucket holds, what the loop counts and shows is what opened and verified.\<close>

lemma verify_records_sound:
  "verify_records C key ikPub raws m = (Inr n, shown) \<Longrightarrow>
    n = m + length shown \<and>
    list_all2 (\<lambda>raw a. \<exists>d pt body pb. open_record C key raw = Some (d, pt) \<and> VerifyPlaintext C ikPub pt = Inr body \<and>
        unmarshal_body (string_of_bytes body) = Some pb \<and> a = show_match d pb)
      (filter (\<lambda>raw. open_record C key raw \<noteq> None) raws) shown"
proof (induction C key ikPub raws m arbitrary: n shown rule: verify_records.induct)
  case (2 C key ikPub raw raws m)
  show ?case
  proof (cases "open_record C key raw")
    case None
    with 2 show ?thesis by simp
  next
    case (Some dp)
    obtain d pt where dp: "dp = (d, pt)" by (cases dp)
    with Some "2.prems" obtain body pb rest where step: "VerifyPlaintext C ikPub pt = Inr body"
      "unmarshal_body (string_of_bytes body) = Some pb"
      "verify_records C key ikPub raws (m + 1) = (Inr n, rest)" "shown = show_match d pb # rest"
      by (cases "verify_records C key ikPub raws (m + 1)") (auto split: sum.splits option.splits)
    from "2.IH"(2) [OF Some dp [symmetric] step(1,2,3)] Some dp step show ?thesis by auto
  qed
qed simp

section \<open>Properties\<close>

text \<open>What a directory answers to a verification: its meta, and a bucket for the lookup it gets.\<close>

definition directory_answers ::
  "crypto \<Rightarrow> tc_world \<Rightarrow> tc_config \<Rightarrow> bytes \<Rightarrow> int \<Rightarrow> int \<Rightarrow> server \<Rightarrow> string list \<Rightarrow> bool" where
  "directory_answers C w vcfg sDir epoch cnt s bucket \<longleftrightarrow>
    is_i64 (understate cnt) \<and> ascii (sv_sourceURL s) \<and>
    answers w (t_url vcfg @ ''/v1/meta'') (object_text (meta_members cnt s)) \<and>
    (case (WriteKey C sDir epoch, prefixBits (understate cnt) anonymitySet) of
       (Inr wk, Some bits) \<Rightarrow>
         answers w (lookup_url vcfg (prefixHex (derive_LookupID C (drop 32 wk)) bits) bits) (records_text bucket)
     | _ \<Rightarrow> False)"

text \<open>
  C36. What was published is read back. If the directory's bucket for the lookup contains the
  transmitted envelope among others that do not open under the record key, a verification in the
  same epoch with the secret and the identity key succeeds, and shows last the times, the mode,
  the capabilities and the endpoints that were published, in their order.
\<close>

theorem publish_then_verify:
  assumes "hkdf_ok C" "sha256_ok C" "ed25519_ok C" "gcm_ok C"
    and "length sDir = 32" "length ikSeed = 32" "length random = 12"
    and "build C cancelled random sDir (NewKeyFromSeed C ikSeed) epoch now cfg = Inr env"
    and "body_printable (build_body now cfg)" "RecordKey C sDir epoch = Inr key"
    and "t_sDir vcfg = b64_Encode sDir" "t_ikPub vcfg = b64_Encode (ed_public C ikSeed)"
    and "i64 (Epoch (tw_now w) + t_epochOff vcfg) = epoch"
    and "directory_answers C w vcfg sDir epoch cnt s (map envelope_text pre @ marshal_envelope env # map envelope_text post)"
    and "\<forall>d \<in> set (pre @ post). open_record C key (envelope_text d) = None"
  shows "\<exists>acts. runVerify C w vcfg = (None, acts @ [shown_record now cfg])"
proof -
  obtain wk bits where "WriteKey C sDir epoch = Inr wk" "prefixBits (understate cnt) anonymitySet = Some bits"
    "answers w (lookup_url vcfg (prefixHex (derive_LookupID C (drop 32 wk)) bits) bits)
      (records_text (map envelope_text pre @ marshal_envelope env # map envelope_text post))"
    using assms(14) by (auto simp: directory_answers_def split: sum.splits option.splits)
  with assms(14) publish_then_verify_run [OF assms(1-9) _ assms(10-13) _ _ _ _ _ assms(15), of wk cnt s bits]
  show ?thesis by (simp add: directory_answers_def)
qed

theorem publish_then_verify_witness:
  "\<exists>env acts. build toy_crypto (\<lambda>i. False) (replicate 12 7) (replicate 32 5)
      (NewKeyFromSeed toy_crypto (replicate 32 6)) 0 100 demo_tc = Inr env \<and>
    runVerify toy_crypto (demo_tw env) demo_vcfg = (None, acts @ [shown_record 100 demo_tc])"
proof -
  obtain env key wk where env: "build toy_crypto (\<lambda>i. False) (replicate 12 7) (replicate 32 5)
      (NewKeyFromSeed toy_crypto (replicate 32 6)) 0 100 demo_tc = Inr env"
    and key: "RecordKey toy_crypto (replicate 32 5) 0 = Inr key" and wk: "WriteKey toy_crypto (replicate 32 5) 0 = Inr wk"
    and len: "length (marshal_envelope env) \<le> 4096"
    by (rule demo_built)
  have "directory_answers toy_crypto (demo_tw env) demo_vcfg (replicate 32 5) 0 1 demo_srv
      (map envelope_text [] @ marshal_envelope env # map envelope_text [])"
    using demo_answers [OF len] by (simp add: directory_answers_def demo_understate wk)
  from publish_then_verify [OF crypto_laws demo_lengths env demo_body(2) key _ _ _ this]
  have "\<exists>acts. runVerify toy_crypto (demo_tw env) demo_vcfg = (None, acts @ [shown_record 100 demo_tc])"
    by (simp add: demo_vcfg_def demo_tw_def demo_understate demo_tc_def tc_defaults_def)
  with env show ?thesis by blast
qed

theorem built_record_accepted_witness:
  "\<exists>env d. build toy_crypto (\<lambda>i. False) (replicate 12 7) (replicate 32 5)
      (NewKeyFromSeed toy_crypto (replicate 32 6)) 0 100 demo_tc = Inr env \<and>
    accept_Check toy_crypto (marshal_envelope env) 130 (sample_limits) False = (RecordAccepted, Some d) \<and>
    d_ExpiresAt d = 3700"
proof -
  obtain env key wk where env: "build toy_crypto (\<lambda>i. False) (replicate 12 7) (replicate 32 5)
      (NewKeyFromSeed toy_crypto (replicate 32 6)) 0 100 demo_tc = Inr env"
    and len: "length (marshal_envelope env) \<le> 4096"
    by (rule demo_built)
  from built_record_accepted [OF crypto_laws demo_lengths env, of sample_limits 130] len env show ?thesis
    by (auto simp: sample_limits_def demo_tc_def i64_id is_i64_def)
qed

text \<open>
  C38. A verification that succeeds is evidence. When \<open>runVerify\<close> reports no error, the directory answered
  the lookup with a bucket of which exactly one member opened under the record key derived from
  the given secret; that member's identifier is the digest of its key and its signature verifies,
  and the payload carries a signature under the given identity key; what is shown last is the
  content of that payload.
\<close>

theorem verify_success_sound:
  assumes "runVerify C w cfg = (None, acts)"
  shows "\<exists>sDir gen ikPub key raws url body raw d pt payload pb.
    secret (t_sDir cfg) ''s-dir'' (tw_sDir w) = Inr (sDir, gen) \<and> b64_DecodeFixed (t_ikPub cfg) 32 = Inr ikPub \<and>
    RecordKey C sDir (i64 (Epoch (tw_now w) + t_epochOff cfg)) = Inr key \<and>
    trig_do w ''GET'' url None = Inr (StatusOK, body) \<and> unmarshal_lookup body = Some raws \<and>
    filter (\<lambda>raw. open_record C key raw \<noteq> None) raws = [raw] \<and> open_record C key raw = Some (d, pt) \<and>
    Decoded_Verify C d = None \<and> record_Open C key (d_Nonce d) (d_CT d) = Inr pt \<and>
    VerifyPlaintext C ikPub pt = Inr payload \<and> unmarshal_body (string_of_bytes payload) = Some pb \<and>
    acts \<noteq> [] \<and> last acts = show_match d pb"
proof -
  let ?epoch = "i64 (Epoch (tw_now w) + t_epochOff cfg)"
  obtain sDir gen ikPub key url body raws n shown before where run:
    "secret (t_sDir cfg) ''s-dir'' (tw_sDir w) = Inr (sDir, gen)" "b64_DecodeFixed (t_ikPub cfg) 32 = Inr ikPub"
    "RecordKey C sDir ?epoch = Inr key" "trig_do w ''GET'' url None = Inr (StatusOK, body)"
    "unmarshal_lookup body = Some raws" "verify_records C key ikPub raws 0 = (Inr n, shown)"
    "verdict n = None" "acts = before @ shown"
    using assms
    by (auto simp: runVerify_def Let_def split: sum.splits option.splits prod.splits if_splits)
  from run(7) have n: "n = 1" by (simp add: verdict_def split: if_splits)
  from verify_records_sound [OF run(6)] n obtain a where a: "shown = [a]" by (cases shown) auto
  with verify_records_sound [OF run(6)] obtain raw where raw: "filter (\<lambda>raw. open_record C key raw \<noteq> None) raws = [raw]"
    by (auto simp: list_all2_Cons2)
  with verify_records_sound [OF run(6)] a obtain d pt payload pb where m: "open_record C key raw = Some (d, pt)"
    "VerifyPlaintext C ikPub pt = Inr payload" "unmarshal_body (string_of_bytes payload) = Some pb" "a = show_match d pb"
    by auto
  have "Decoded_Verify C d = None" "record_Open C key (d_Nonce d) (d_CT d) = Inr pt"
    using m(1) by (auto simp: open_record_def split: option.splits sum.splits if_splits)
  with run raw m a show ?thesis by (intro exI conjI) (assumption | simp)+
qed

text \<open>
  What is sent was shown before. When \<open>runPublish\<close> makes a request, it is one PUT of an envelope
  within the size cap, made after every generated secret was printed and the same bytes were
  written to the file asked for; the command succeeds exactly when the answer is 204.
\<close>

theorem publish_requests:
  assumes "runPublish C w cfg = (err, acts)" and "Requested method url sent \<in> set acts"
  shows "\<exists>keys wrote body env. acts = keys @ wrote @ [Requested ''PUT'' (t_url cfg @ ''/v1/record'') (Some body)] \<and>
    body = marshal_envelope env \<and> int (length body) \<le> MaxEnvelopeBytes \<and>
    wrote = (if t_out cfg = [] then [] else [WriteFile (t_out cfg) body]) \<and>
    (t_sDir cfg = [] \<longrightarrow> (\<exists>b. tw_sDir w = Some b \<and> PrintKey ''s_dir'' (b64_Encode b) \<in> set keys)) \<and>
    (t_ik cfg = [] \<longrightarrow> (\<exists>b. tw_ik w = Some b \<and> PrintKey ''ik_seed'' (b64_Encode b) \<in> set keys)) \<and>
    (err = None \<longleftrightarrow> (\<exists>resp. trig_do w ''PUT'' (t_url cfg @ ''/v1/record'') (Some body) = Inr (StatusNoContent, resp)))"
proof -
  obtain sDir sGen ikSeed ikGen where sec: "secret (t_sDir cfg) ''s-dir'' (tw_sDir w) = Inr (sDir, sGen)"
    "secret (t_ik cfg) ''ik'' (tw_ik w) = Inr (ikSeed, ikGen)"
    using assms by (auto simp: runPublish_def split: sum.splits)
  define keys where "keys = (if sGen then [PrintKey ''s_dir'' (b64_Encode sDir)] else []) @
    (if ikGen then [PrintKey ''ik_seed'' (b64_Encode ikSeed)] else []) @
    [PrintKey ''ik_pub'' (b64_Encode (drop 32 (NewKeyFromSeed C ikSeed)))]"
  have none: "Requested method url sent \<notin> set keys" by (auto simp: keys_def)
  obtain env where env: "build C (tw_cancelled w) (tw_nonce w) sDir (NewKeyFromSeed C ikSeed)
      (i64 (Epoch (tw_now w) + t_epochOff cfg)) (tw_now w) cfg = Inr env"
    using assms none by (auto simp: runPublish_def sec Let_def simp flip: keys_def split: sum.splits)
  define body where "body = marshal_envelope env"
  have small: "int (length body) \<le> MaxEnvelopeBytes" and writes: "\<not> (t_out cfg \<noteq> [] \<and> tw_write_fails w)"
    using assms none by (auto simp: runPublish_def sec env Let_def simp flip: keys_def body_def split: if_splits)
  let ?r = "trig_do w ''PUT'' (t_url cfg @ ''/v1/record'') (Some body)"
  have "(err, acts) = (case ?r of Inl e \<Rightarrow> Some (TRequest e) | Inr (status, resp) \<Rightarrow>
      if status \<noteq> StatusNoContent then Some (TRefused status) else None,
    keys @ (if t_out cfg = [] then [] else [WriteFile (t_out cfg) body]) @
      [Requested ''PUT'' (t_url cfg @ ''/v1/record'') (Some body)])"
    using assms(1) small writes
    by (auto simp: runPublish_def sec env Let_def simp flip: keys_def body_def split: sum.splits)
  moreover have "t_sDir cfg = [] \<longrightarrow> (\<exists>b. tw_sDir w = Some b \<and> PrintKey ''s_dir'' (b64_Encode b) \<in> set keys)"
    using sec(1) by (auto simp: secret_def keys_def split: option.splits)
  moreover have "t_ik cfg = [] \<longrightarrow> (\<exists>b. tw_ik w = Some b \<and> PrintKey ''ik_seed'' (b64_Encode b) \<in> set keys)"
    using sec(2) by (auto simp: secret_def keys_def split: option.splits)
  ultimately show ?thesis using small
    by (intro exI [of _ keys] exI [of _ "if t_out cfg = [] then [] else [WriteFile (t_out cfg) body]"]
      exI [of _ body] exI [of _ env]) (auto simp: body_def split: sum.splits if_splits)
qed

theorem verify_success_sound_witness:
  "\<exists>env acts raws raw key. runVerify toy_crypto (demo_tw env) demo_vcfg = (None, acts) \<and>
    RecordKey toy_crypto (replicate 32 5) 0 = Inr key \<and>
    filter (\<lambda>raw. open_record toy_crypto key raw \<noteq> None) raws = [raw]"
proof -
  obtain env key wk where d: "build toy_crypto (\<lambda>i. False) (replicate 12 7) (replicate 32 5)
      (NewKeyFromSeed toy_crypto (replicate 32 6)) 0 100 demo_tc = Inr env"
    "RecordKey toy_crypto (replicate 32 5) 0 = Inr key" "WriteKey toy_crypto (replicate 32 5) 0 = Inr wk"
    "length (marshal_envelope env) \<le> 4096"
    by (rule demo_built)
  from demo_verifies [OF d] obtain acts where run: "runVerify toy_crypto (demo_tw env) demo_vcfg = (None, acts)" by blast
  have "secret (t_sDir demo_vcfg) ''s-dir'' (tw_sDir (demo_tw env)) = Inr (replicate 32 5, False)"
  proof -
    have "length (b64_Encode (replicate 32 (5 :: byte))) = 43" unfolding length_b64_Encode by simp
    then have "b64_Encode (replicate 32 (5 :: byte)) \<noteq> []" by (metis list.size(3) zero_neq_numeral)
    then show ?thesis by (simp add: secret_def demo_vcfg_def SDirLen_def)
  qed
  moreover have "i64 (Epoch (tw_now (demo_tw env)) + t_epochOff demo_vcfg) = 0"
    by (simp add: demo_tw_def demo_vcfg_def demo_tc_def tc_defaults_def demo_understate)
  ultimately obtain raws raw where "filter (\<lambda>raw. open_record toy_crypto key raw \<noteq> None) raws = [raw]"
    using verify_success_sound [OF run] d(2) by auto
  with run d(2) show ?thesis by blast
qed

theorem publish_requests_witness:
  "\<exists>env acts keys body. runPublish toy_crypto (demo_tw env) demo_tc = (None, acts) \<and>
    acts = keys @ [Requested ''PUT'' ''http://d/v1/record'' (Some body)] \<and> length body \<le> 4096 \<and>
    PrintKey ''s_dir'' (b64_Encode (replicate 32 5)) \<in> set keys"
proof -
  obtain env where env: "build toy_crypto (\<lambda>i. False) (replicate 12 7) (replicate 32 5)
      (NewKeyFromSeed toy_crypto (replicate 32 6)) 0 100 demo_tc = Inr env"
    and len: "length (marshal_envelope env) \<le> 4096"
    by (rule demo_built)
  have world: "tw_sDir (demo_tw env) = Some (replicate 32 5)" "tw_ik (demo_tw env) = Some (replicate 32 6)"
    "tw_nonce (demo_tw env) = replicate 12 7" "tw_now (demo_tw env) = 100" "tw_cancelled (demo_tw env) = (\<lambda>i. False)"
    "trig_do (demo_tw env) ''PUT'' url body = Inr (204, [])" for url body
    by (simp_all add: demo_tw_def trig_do_def)
  have flags: "t_sDir demo_tc = []" "t_ik demo_tc = []" "t_epochOff demo_tc = 0" "t_out demo_tc = []" "t_url demo_tc = ''http://d''"
    by (simp_all add: demo_tc_def tc_defaults_def)
  obtain acts where run: "runPublish toy_crypto (demo_tw env) demo_tc = (None, acts)"
    "Requested ''PUT'' ''http://d/v1/record'' (Some (marshal_envelope env)) \<in> set acts"
    using env len by (simp add: runPublish_def secret_def flags world demo_understate Let_def MaxEnvelopeBytes_def StatusNoContent_def)
  from publish_requests [OF run] show ?thesis
    using run(1) by (auto simp: flags world MaxEnvelopeBytes_def)
qed

end
