(* ===== verification/Unmarshal.thy ===== *)
theory Unmarshal imports Marshal "HOL-Library.Monad_Syntax" begin

text \<open>
  The two generated files as their readers see them. The tags of a struct name the members for the
  decoder as they do for the encoder: \<open>read_file\<close> and \<open>read_vectors\<close> read a JSON value by the tags of
  \<open>internal/apivectors/apivectors.go\<close>, \<open>internal/vectors/vectors.go\<close> and \<open>internal/record/envelope.go\<close>,
  strictly: every member under its name, in the order of the fields, of its type, and no other.
  They are written from the structs and share nothing with the encoder.
\<close>

section \<open>Values of the basic types\<close>

fun read_string :: "json \<Rightarrow> string option" where
  "read_string (JStr s) = Some s"
| "read_string _ = None"

fun read_bool :: "json \<Rightarrow> bool option" where
  "read_bool (JBool b) = Some b"
| "read_bool _ = None"

definition read_digits :: "string \<Rightarrow> int option" where
  "read_digits ds = (if ds \<noteq> [] \<and> list_all is_digit ds then Some (int (digits_value ds)) else None)"

fun read_int :: "json \<Rightarrow> int option" where
  "read_int (JNum l) = (if l \<noteq> [] \<and> hd l = CHR ''-'' then map_option uminus (read_digits (tl l)) else read_digits l)"
| "read_int _ = None"

definition read_nat :: "json \<Rightarrow> nat option" where
  "read_nat j = do { x \<leftarrow> read_int j; if 0 \<le> x then Some (nat x) else None }"

fun read_list :: "(json \<Rightarrow> 'a option) \<Rightarrow> json \<Rightarrow> 'a list option" where
  "read_list r (JArr js) = those (map r js)"
| "read_list r _ = None"

fun read_map :: "(json \<Rightarrow> 'a option) \<Rightarrow> json \<Rightarrow> (string, 'a) gomap option" where
  "read_map r (JObj ms) = map_option (zip (map fst ms)) (those (map (r \<circ> snd) ms))"
| "read_map r _ = None"

text \<open>The members of an object that has exactly these, in this order.\<close>

definition members :: "string list \<Rightarrow> json \<Rightarrow> (string \<Rightarrow> json) option" where
  "members names j =
    (case j of JObj ms \<Rightarrow> if map fst ms = names then Some (\<lambda>n. the (map_of ms n)) else None | _ \<Rightarrow> None)"

section \<open>The structs\<close>

text \<open>A body: the members with \<open>omitempty\<close> may be missing, and stand for the zero value then.\<close>

definition optional :: "'a \<Rightarrow> (json \<Rightarrow> 'a option) \<Rightarrow> json option \<Rightarrow> 'a option" where
  "optional zero r x = (case x of None \<Rightarrow> Some zero | Some j \<Rightarrow> r j)"

definition read_body :: "json \<Rightarrow> wire_body option" where
  "read_body j =
    (case j of
       JObj ms \<Rightarrow>
         if map fst ms = [n \<leftarrow> [''encoding'', ''value'', ''byte'', ''length'']. n \<in> set (map fst ms)] then do {
           e \<leftarrow> Option.bind (map_of ms ''encoding'') read_string;
           v \<leftarrow> optional [] read_string (map_of ms ''value'');
           b \<leftarrow> optional 0 read_int (map_of ms ''byte'');
           l \<leftarrow> optional 0 read_int (map_of ms ''length'');
           Some \<lparr>wb_Encoding = e, wb_Value = v, wb_Byte = b, wb_Length = l\<rparr> }
         else None
     | _ \<Rightarrow> None)"

definition read_request :: "json \<Rightarrow> wire_request option" where
  "read_request j = do {
     m \<leftarrow> members
       [''method'', ''path'', ''query'', ''headers'', ''body''] j;
     method \<leftarrow> read_string (m ''method'');
     path \<leftarrow> read_string (m ''path'');
     query \<leftarrow> read_string (m ''query'');
     headers \<leftarrow> read_map read_string (m ''headers'');
     body \<leftarrow> read_body (m ''body'');
     Some \<lparr>wq_Method = method, wq_Path = path, wq_Query = query, wq_Headers = headers, wq_Body = body\<rparr> }"

definition read_prior :: "json \<Rightarrow> prior_request option" where
  "read_prior j = do {
     m \<leftarrow> members
       [''note'', ''repeat'', ''expect_status'', ''request''] j;
     note \<leftarrow> read_string (m ''note'');
     repeat \<leftarrow> read_int (m ''repeat'');
     expect_status \<leftarrow> read_int (m ''expect_status'');
     request \<leftarrow> read_request (m ''request'');
     Some \<lparr>pr_Note = note, pr_Repeat = repeat, pr_ExpectStatus = expect_status, pr_Request = request\<rparr> }"

definition read_expect :: "json \<Rightarrow> expectation option" where
  "read_expect j = do {
     m \<leftarrow> members
       [''status'', ''body'', ''comparison'', ''headers'', ''header_tokens'', ''headers_absent''] j;
     status \<leftarrow> read_int (m ''status'');
     body \<leftarrow> read_body (m ''body'');
     comparison \<leftarrow> read_string (m ''comparison'');
     headers \<leftarrow> read_map read_string (m ''headers'');
     header_tokens \<leftarrow> read_map (read_list read_string) (m ''header_tokens'');
     headers_absent \<leftarrow> read_list read_string (m ''headers_absent'');
     Some \<lparr>ex_Status = status, ex_Body = body, ex_Comparison = comparison, ex_Headers = headers,
       ex_HeaderTokens = header_tokens, ex_HeadersAbsent = headers_absent\<rparr> }"

definition read_fixture :: "json \<Rightarrow> fixture option" where
  "read_fixture j = do {
     m \<leftarrow> members
       [''id'', ''spec'', ''row'', ''note'', ''instance'', ''violates'', ''expect_first'', ''order_is_normative'',
        ''discriminating'', ''mutates_state'', ''prior_requests'', ''request'', ''expect''] j;
     id \<leftarrow> read_string (m ''id'');
     spec \<leftarrow> read_string (m ''spec'');
     row \<leftarrow> read_string (m ''row'');
     note \<leftarrow> read_list read_string (m ''note'');
     instance \<leftarrow> read_string (m ''instance'');
     violates \<leftarrow> read_list read_string (m ''violates'');
     expect_first \<leftarrow> read_string (m ''expect_first'');
     order_is_normative \<leftarrow> read_bool (m ''order_is_normative'');
     discriminating \<leftarrow> read_bool (m ''discriminating'');
     mutates_state \<leftarrow> read_bool (m ''mutates_state'');
     prior_requests \<leftarrow> read_list read_prior (m ''prior_requests'');
     request \<leftarrow> read_request (m ''request'');
     expect \<leftarrow> read_expect (m ''expect'');
     Some \<lparr>f_ID = id, f_Spec = spec, f_Row = row, f_Note = note, f_Instance = instance, f_Conditions = violates,
       f_ExpectFirst = expect_first, f_OrderIsNormative = order_is_normative, f_Discriminating = discriminating,
       f_MutatesState = mutates_state, f_PriorRequests = prior_requests, f_Request = request, f_Expect = expect\<rparr> }"

definition read_coverage :: "json \<Rightarrow> coverage_row option" where
  "read_coverage j = do {
     m \<leftarrow> members
       [''table'', ''row'', ''status'', ''fixtures''] j;
     table \<leftarrow> read_string (m ''table'');
     row \<leftarrow> read_string (m ''row'');
     status \<leftarrow> read_int (m ''status'');
     fixtures \<leftarrow> read_list read_string (m ''fixtures'');
     Some \<lparr>cr_Table = table, cr_Row = row, cr_Status = status, cr_Fixtures = fixtures\<rparr> }"

definition read_invariants :: "json \<Rightarrow> response_invariants option" where
  "read_invariants j = do {
     m \<leftarrow> members
       [''_note'', ''applies_to'', ''headers'', ''headers_absent''] j;
     note \<leftarrow> read_list read_string (m ''_note'');
     applies_to \<leftarrow> read_string (m ''applies_to'');
     headers \<leftarrow> read_map read_string (m ''headers'');
     headers_absent \<leftarrow> read_list read_string (m ''headers_absent'');
     Some \<lparr>ri_Note = note, ri_AppliesTo = applies_to, ri_Headers = headers, ri_HeadersAbsent = headers_absent\<rparr> }"

definition read_channel :: "json \<Rightarrow> initial_channel option" where
  "read_channel j = do {
     m \<leftarrow> members
       [''id'', ''note'', ''channel_id'', ''posted_at'', ''expires_at'', ''held_at_now'', ''load_expect_status'',
        ''blob''] j;
     id \<leftarrow> read_string (m ''id'');
     note \<leftarrow> read_string (m ''note'');
     channel_id \<leftarrow> read_string (m ''channel_id'');
     posted_at \<leftarrow> read_int (m ''posted_at'');
     expires_at \<leftarrow> read_int (m ''expires_at'');
     held_at_now \<leftarrow> read_bool (m ''held_at_now'');
     load_expect_status \<leftarrow> read_int (m ''load_expect_status'');
     blob \<leftarrow> read_body (m ''blob'');
     Some \<lparr>ic_ID = id, ic_Note = note, ic_ChannelID = channel_id, ic_PostedAt = posted_at, ic_ExpiresAt = expires_at,
       ic_Held = held_at_now, ic_LoadExpectStatus = load_expect_status, ic_Blob = blob\<rparr> }"

definition read_record :: "json \<Rightarrow> initial_record option" where
  "read_record j = do {
     m \<leftarrow> members
       [''id'', ''note'', ''lookup_id'', ''loaded_at'', ''expires_at'', ''load_expect_status'', ''envelope''] j;
     id \<leftarrow> read_string (m ''id'');
     note \<leftarrow> read_string (m ''note'');
     lookup_id \<leftarrow> read_string (m ''lookup_id'');
     loaded_at \<leftarrow> read_int (m ''loaded_at'');
     expires_at \<leftarrow> read_int (m ''expires_at'');
     load_expect_status \<leftarrow> read_int (m ''load_expect_status'');
     envelope \<leftarrow> read_body (m ''envelope'');
     Some \<lparr>ir_ID = id, ir_Note = note, ir_LookupID = lookup_id, ir_LoadedAt = loaded_at, ir_ExpiresAt = expires_at,
       ir_LoadExpectStatus = load_expect_status, ir_Envelope = envelope\<rparr> }"

definition read_state :: "json \<Rightarrow> initial_state option" where
  "read_state j = do {
     m \<leftarrow> members
       [''_note'', ''records'', ''signal_channels''] j;
     note \<leftarrow> read_list read_string (m ''_note'');
     records \<leftarrow> read_list read_record (m ''records'');
     signal_channels \<leftarrow> read_list read_channel (m ''signal_channels'');
     Some \<lparr>is_Note = note, is_Records = records, is_SignalChannels = signal_channels\<rparr> }"

definition read_limits :: "json \<Rightarrow> rate_limits option" where
  "read_limits j = do {
     m \<leftarrow> members
       [''put_record'', ''get_record'', ''signal'', ''window_seconds''] j;
     put_record \<leftarrow> read_int (m ''put_record'');
     get_record \<leftarrow> read_int (m ''get_record'');
     signal \<leftarrow> read_int (m ''signal'');
     window_seconds \<leftarrow> read_int (m ''window_seconds'');
     Some \<lparr>rl_PutRecord = put_record, rl_GetRecord = get_record, rl_Signal = signal, rl_WindowSeconds = window_seconds\<rparr> }"

definition read_instance :: "json \<Rightarrow> fx_instance option" where
  "read_instance j = do {
     m \<leftarrow> members
       [''name'', ''note'', ''max_ttl'', ''max_record_bytes'', ''pow_bits'', ''skew_grace'', ''signal'', ''draining'',
        ''max_signal_blob_bytes'', ''signal_ttl'', ''signal_poll_window_maximum'', ''k_min'', ''source_url'',
        ''rate_limits'', ''load_initial_records'', ''load_initial_channels''] j;
     name \<leftarrow> read_string (m ''name'');
     note \<leftarrow> read_list read_string (m ''note'');
     max_ttl \<leftarrow> read_int (m ''max_ttl'');
     max_record_bytes \<leftarrow> read_int (m ''max_record_bytes'');
     pow_bits \<leftarrow> read_int (m ''pow_bits'');
     skew_grace \<leftarrow> read_int (m ''skew_grace'');
     signal \<leftarrow> read_bool (m ''signal'');
     draining \<leftarrow> read_bool (m ''draining'');
     max_signal_blob_bytes \<leftarrow> read_int (m ''max_signal_blob_bytes'');
     signal_ttl \<leftarrow> read_int (m ''signal_ttl'');
     signal_poll_window_maximum \<leftarrow> read_int (m ''signal_poll_window_maximum'');
     k_min \<leftarrow> read_int (m ''k_min'');
     source_url \<leftarrow> read_string (m ''source_url'');
     rate_limits \<leftarrow> read_limits (m ''rate_limits'');
     load_initial_records \<leftarrow> read_bool (m ''load_initial_records'');
     load_initial_channels \<leftarrow> read_bool (m ''load_initial_channels'');
     Some \<lparr>in_Name = name, in_Note = note, in_MaxTTL = max_ttl, in_MaxRecordBytes = max_record_bytes,
       in_PoWBits = pow_bits, in_SkewGrace = skew_grace, in_Signal = signal, in_Draining = draining,
       in_MaxSignalBlobBytes = max_signal_blob_bytes, in_SignalTTL = signal_ttl,
       in_SignalPollWindowMaximum = signal_poll_window_maximum, in_KMin = k_min, in_SourceURL = source_url,
       in_RateLimits = rate_limits, in_LoadInitialRecords = load_initial_records,
       in_LoadInitialChannels = load_initial_channels\<rparr> }"

definition read_harness :: "json \<Rightarrow> fx_harness option" where
  "read_harness j = do {
     m \<leftarrow> members
       [''_note'', ''reset_between_fixtures'', ''order_independent''] j;
     note \<leftarrow> read_list read_string (m ''_note'');
     reset_between_fixtures \<leftarrow> read_bool (m ''reset_between_fixtures'');
     order_independent \<leftarrow> read_bool (m ''order_independent'');
     Some \<lparr>ha_Note = note, ha_ResetBetweenFixtures = reset_between_fixtures, ha_OrderIndependent = order_independent\<rparr> }"

definition read_order :: "json \<Rightarrow> table_order option" where
  "read_order j = do {
     m \<leftarrow> members
       [''table'', ''order_is_normative'', ''note'', ''conditions_in_order''] j;
     table \<leftarrow> read_string (m ''table'');
     order_is_normative \<leftarrow> read_bool (m ''order_is_normative'');
     note \<leftarrow> read_string (m ''note'');
     conditions_in_order \<leftarrow> read_list read_string (m ''conditions_in_order'');
     Some \<lparr>to_Table = table, to_Normative = order_is_normative, to_Note = note, to_Conditions = conditions_in_order\<rparr> }"

definition read_named :: "json \<Rightarrow> named_note option" where
  "read_named j = do {
     m \<leftarrow> members
       [''name'', ''note''] j;
     name \<leftarrow> read_string (m ''name'');
     note \<leftarrow> read_string (m ''note'');
     Some (name, note) }"

definition read_encoding :: "json \<Rightarrow> encoding_notes option" where
  "read_encoding j = do {
     m \<leftarrow> members
       [''_note'', ''binary_values'', ''bodies'', ''body_encodings'', ''comparisons'', ''headers'', ''query'',
        ''conditions'', ''evaluation_order''] j;
     note \<leftarrow> read_string (m ''_note'');
     binary_values \<leftarrow> read_string (m ''binary_values'');
     bodies \<leftarrow> read_string (m ''bodies'');
     body_encodings \<leftarrow> read_list read_named (m ''body_encodings'');
     comparisons \<leftarrow> read_list read_named (m ''comparisons'');
     headers \<leftarrow> read_string (m ''headers'');
     query \<leftarrow> read_string (m ''query'');
     conditions \<leftarrow> read_list read_named (m ''conditions'');
     evaluation_order \<leftarrow> read_list read_order (m ''evaluation_order'');
     Some \<lparr>en_Note = note, en_BinaryValues = binary_values, en_Bodies = bodies, en_BodyEncodings = body_encodings,
       en_Comparisons = comparisons, en_Headers = headers, en_Query = query, en_Conditions = conditions,
       en_Tables = evaluation_order\<rparr> }"

definition read_file :: "json \<Rightarrow> fx_file option" where
  "read_file j = do {
     m \<leftarrow> members
       [''_comment'', ''_warning'', ''spec'', ''generated_by'', ''now'', ''encoding'', ''harness'', ''instances'',
        ''initial_state'', ''response_invariants'', ''coverage'', ''fixtures''] j;
     comment \<leftarrow> read_string (m ''_comment'');
     warning \<leftarrow> read_list read_string (m ''_warning'');
     spec \<leftarrow> read_string (m ''spec'');
     generated_by \<leftarrow> read_string (m ''generated_by'');
     now \<leftarrow> read_int (m ''now'');
     encoding \<leftarrow> read_encoding (m ''encoding'');
     harness \<leftarrow> read_harness (m ''harness'');
     instances \<leftarrow> read_list read_instance (m ''instances'');
     initial_state \<leftarrow> read_state (m ''initial_state'');
     response_invariants \<leftarrow> read_invariants (m ''response_invariants'');
     coverage \<leftarrow> read_list read_coverage (m ''coverage'');
     fixtures \<leftarrow> read_list read_fixture (m ''fixtures'');
     Some \<lparr>fl_Comment = comment, fl_Warning = warning, fl_Spec = spec, fl_GeneratedBy = generated_by, fl_Now = now,
       fl_Encoding = encoding, fl_Harness = harness, fl_Instances = instances, fl_InitialState = initial_state,
       fl_ResponseInvariants = response_invariants, fl_Coverage = coverage, fl_Fixtures = fixtures\<rparr> }"

definition read_conventions :: "json \<Rightarrow> vec_conventions option" where
  "read_conventions j = do {
     m \<leftarrow> members
       [''_note'', ''integer_encoding'', ''hkdf_construction'', ''ed25519_seed'', ''envelope_signature'',
        ''payload_signature'', ''pow_input''] j;
     note \<leftarrow> read_string (m ''_note'');
     integer_encoding \<leftarrow> read_string (m ''integer_encoding'');
     hkdf_construction \<leftarrow> read_string (m ''hkdf_construction'');
     ed25519_seed \<leftarrow> read_string (m ''ed25519_seed'');
     envelope_signature \<leftarrow> read_string (m ''envelope_signature'');
     payload_signature \<leftarrow> read_string (m ''payload_signature'');
     pow_input \<leftarrow> read_string (m ''pow_input'');
     Some \<lparr>vc_Note = note, vc_IntegerEncoding = integer_encoding, vc_HKDFConstruction = hkdf_construction,
       vc_Ed25519Seed = ed25519_seed, vc_EnvelopeSignature = envelope_signature,
       vc_PayloadSignature = payload_signature, vc_PoWInput = pow_input\<rparr> }"

definition read_epoch :: "json \<Rightarrow> vec_epoch option" where
  "read_epoch j = do {
     m \<leftarrow> members
       [''note'', ''unix_time'', ''epoch'', ''epoch_start'', ''write_seed'', ''wk_pub'', ''wk_priv'', ''lookup_id'',
        ''record_key'', ''mailbox_id''] j;
     note \<leftarrow> read_string (m ''note'');
     unix_time \<leftarrow> read_int (m ''unix_time'');
     epoch \<leftarrow> read_int (m ''epoch'');
     epoch_start \<leftarrow> read_int (m ''epoch_start'');
     write_seed \<leftarrow> read_string (m ''write_seed'');
     wk_pub \<leftarrow> read_string (m ''wk_pub'');
     wk_priv \<leftarrow> read_string (m ''wk_priv'');
     lookup_id \<leftarrow> read_string (m ''lookup_id'');
     record_key \<leftarrow> read_string (m ''record_key'');
     mailbox_id \<leftarrow> read_string (m ''mailbox_id'');
     Some \<lparr>v_Note = note, v_UnixTime = unix_time, v_Epoch = epoch, v_EpochStart = epoch_start, v_WriteSeed = write_seed,
       v_WKPub = wk_pub, v_WKPriv = wk_priv, v_LookupID = lookup_id, v_RecordKey = record_key,
       v_MailboxID = mailbox_id\<rparr> }"

definition read_pair :: "json \<Rightarrow> vec_pair option" where
  "read_pair j = do {
     m \<leftarrow> members
       [''note'', ''epoch'', ''pair_write_seed'', ''pair_wk_pub'', ''pair_wk_priv'', ''pair_lookup_id'',
        ''pair_record_key''] j;
     note \<leftarrow> read_string (m ''note'');
     epoch \<leftarrow> read_int (m ''epoch'');
     pair_write_seed \<leftarrow> read_string (m ''pair_write_seed'');
     pair_wk_pub \<leftarrow> read_string (m ''pair_wk_pub'');
     pair_wk_priv \<leftarrow> read_string (m ''pair_wk_priv'');
     pair_lookup_id \<leftarrow> read_string (m ''pair_lookup_id'');
     pair_record_key \<leftarrow> read_string (m ''pair_record_key'');
     Some \<lparr>vp_Note = note, vp_Epoch = epoch, vp_WriteSeed = pair_write_seed, vp_WKPub = pair_wk_pub,
       vp_WKPriv = pair_wk_priv, vp_LookupID = pair_lookup_id, vp_RecordKey = pair_record_key\<rparr> }"

definition read_envelope :: "json \<Rightarrow> Envelope option" where
  "read_envelope j = do {
     m \<leftarrow> members
       [''v'', ''lookup_id'', ''wk_pub'', ''expires_at'', ''ct'', ''nonce'', ''pow'', ''sig''] j;
     v \<leftarrow> read_int (m ''v'');
     lookup_id \<leftarrow> read_string (m ''lookup_id'');
     wk_pub \<leftarrow> read_string (m ''wk_pub'');
     expires_at \<leftarrow> read_int (m ''expires_at'');
     ct \<leftarrow> read_string (m ''ct'');
     nonce \<leftarrow> read_string (m ''nonce'');
     pow \<leftarrow> read_string (m ''pow'');
     sig \<leftarrow> read_string (m ''sig'');
     Some \<lparr>e_V = v, e_LookupID = lookup_id, e_WKPub = wk_pub, e_ExpiresAt = expires_at, e_CT = ct, e_Nonce = nonce,
       e_PoW = pow, e_Sig = sig\<rparr> }"

definition read_sample :: "json \<Rightarrow> vec_envelope option" where
  "read_sample j = do {
     m \<leftarrow> members
       [''note'', ''epoch'', ''body_utf8'', ''body'', ''body_len'', ''payload_sig'', ''plaintext'', ''nonce'',
        ''envelope_signing_input'', ''envelope''] j;
     note \<leftarrow> read_string (m ''note'');
     epoch \<leftarrow> read_int (m ''epoch'');
     body_utf8 \<leftarrow> read_string (m ''body_utf8'');
     body \<leftarrow> read_string (m ''body'');
     body_len \<leftarrow> read_nat (m ''body_len'');
     payload_sig \<leftarrow> read_string (m ''payload_sig'');
     plaintext \<leftarrow> read_string (m ''plaintext'');
     nonce \<leftarrow> read_string (m ''nonce'');
     envelope_signing_input \<leftarrow> read_string (m ''envelope_signing_input'');
     envelope \<leftarrow> read_envelope (m ''envelope'');
     Some \<lparr>ve_Note = note, ve_Epoch = epoch, ve_BodyUTF8 = body_utf8, ve_Body = body, ve_BodyLen = body_len,
       ve_PayloadSig = payload_sig, ve_Plaintext = plaintext, ve_Nonce = nonce,
       ve_SigningInput = envelope_signing_input, ve_Envelope = envelope\<rparr> }"

definition read_pow :: "json \<Rightarrow> vec_pow option" where
  "read_pow j = do {
     m \<leftarrow> members
       [''note'', ''bits'', ''lookup_id'', ''expires_at'', ''input'', ''value'', ''digest'', ''leading_zero_bits''] j;
     note \<leftarrow> read_string (m ''note'');
     bits \<leftarrow> read_int (m ''bits'');
     lookup_id \<leftarrow> read_string (m ''lookup_id'');
     expires_at \<leftarrow> read_int (m ''expires_at'');
     input \<leftarrow> read_string (m ''input'');
     value \<leftarrow> read_string (m ''value'');
     digest \<leftarrow> read_string (m ''digest'');
     leading_zero_bits \<leftarrow> read_int (m ''leading_zero_bits'');
     Some \<lparr>vw_Note = note, vw_Bits = bits, vw_LookupID = lookup_id, vw_ExpiresAt = expires_at, vw_Input = input,
       vw_Value = value, vw_Digest = digest, vw_LeadingZeroBits = leading_zero_bits\<rparr> }"

definition read_vectors :: "json \<Rightarrow> vec_file option" where
  "read_vectors j = do {
     m \<leftarrow> members
       [''_comment'', ''_warning'', ''spec'', ''encoding'', ''conventions'', ''s_dir'', ''s_pair'', ''ik_seed'',
        ''ik_pub'', ''epochs'', ''pairing'', ''envelope'', ''pow''] j;
     comment \<leftarrow> read_string (m ''_comment'');
     warning \<leftarrow> read_list read_string (m ''_warning'');
     spec \<leftarrow> read_string (m ''spec'');
     encoding \<leftarrow> read_string (m ''encoding'');
     conventions \<leftarrow> read_conventions (m ''conventions'');
     s_dir \<leftarrow> read_string (m ''s_dir'');
     s_pair \<leftarrow> read_string (m ''s_pair'');
     ik_seed \<leftarrow> read_string (m ''ik_seed'');
     ik_pub \<leftarrow> read_string (m ''ik_pub'');
     epochs \<leftarrow> read_list read_epoch (m ''epochs'');
     pairing \<leftarrow> read_list read_pair (m ''pairing'');
     envelope \<leftarrow> read_sample (m ''envelope'');
     pow \<leftarrow> read_pow (m ''pow'');
     Some \<lparr>vf_Comment = comment, vf_Warning = warning, vf_Spec = spec, vf_Encoding = encoding,
       vf_Conventions = conventions, f_SDir = s_dir, f_SPair = s_pair, f_IKSeed = ik_seed, f_IKPub = ik_pub,
       f_Epochs = epochs, f_Pairing = pairing, f_Envelope = envelope, f_PoW = pow\<rparr> }"

section \<open>What a reader gets of a value\<close>

text \<open>
  The value a reader of the text gets: what is not UTF-8 is replaced in every string, and a map
  comes with its keys in order. All else is as it was.
\<close>

definition mend_map :: "('a \<Rightarrow> 'b) \<Rightarrow> (string, 'a) gomap \<Rightarrow> (string, 'b) gomap" where
  "mend_map g m = map (\<lambda>(k, v). (to_valid k, g v)) (sort_key fst m)"

definition mend_body :: "wire_body \<Rightarrow> wire_body" where
  "mend_body b = b\<lparr>wb_Encoding := to_valid (wb_Encoding b), wb_Value := to_valid (wb_Value b)\<rparr>"

definition mend_request :: "wire_request \<Rightarrow> wire_request" where
  "mend_request r = r\<lparr>
    wq_Method := to_valid (wq_Method r), wq_Path := to_valid (wq_Path r), wq_Query := to_valid (wq_Query r),
    wq_Headers := mend_map to_valid (wq_Headers r), wq_Body := mend_body (wq_Body r)\<rparr>"

definition mend_prior :: "prior_request \<Rightarrow> prior_request" where
  "mend_prior r = r\<lparr>
    pr_Note := to_valid (pr_Note r), pr_Request := mend_request (pr_Request r)\<rparr>"

definition mend_expect :: "expectation \<Rightarrow> expectation" where
  "mend_expect r = r\<lparr>
    ex_Body := mend_body (ex_Body r), ex_Comparison := to_valid (ex_Comparison r),
    ex_Headers := mend_map to_valid (ex_Headers r), ex_HeaderTokens := mend_map (map to_valid) (ex_HeaderTokens r),
    ex_HeadersAbsent := map to_valid (ex_HeadersAbsent r)\<rparr>"

definition mend_fixture :: "fixture \<Rightarrow> fixture" where
  "mend_fixture r = r\<lparr>
    f_ID := to_valid (f_ID r), f_Spec := to_valid (f_Spec r), f_Row := to_valid (f_Row r),
    f_Note := map to_valid (f_Note r), f_Instance := to_valid (f_Instance r),
    f_Conditions := map to_valid (f_Conditions r), f_ExpectFirst := to_valid (f_ExpectFirst r),
    f_PriorRequests := map mend_prior (f_PriorRequests r), f_Request := mend_request (f_Request r),
    f_Expect := mend_expect (f_Expect r)\<rparr>"

definition mend_coverage :: "coverage_row \<Rightarrow> coverage_row" where
  "mend_coverage r = r\<lparr>
    cr_Table := to_valid (cr_Table r), cr_Row := to_valid (cr_Row r), cr_Fixtures := map to_valid (cr_Fixtures r)\<rparr>"

definition mend_invariants :: "response_invariants \<Rightarrow> response_invariants" where
  "mend_invariants r = r\<lparr>
    ri_Note := map to_valid (ri_Note r), ri_AppliesTo := to_valid (ri_AppliesTo r),
    ri_Headers := mend_map to_valid (ri_Headers r), ri_HeadersAbsent := map to_valid (ri_HeadersAbsent r)\<rparr>"

definition mend_channel :: "initial_channel \<Rightarrow> initial_channel" where
  "mend_channel r = r\<lparr>
    ic_ID := to_valid (ic_ID r), ic_Note := to_valid (ic_Note r), ic_ChannelID := to_valid (ic_ChannelID r),
    ic_Blob := mend_body (ic_Blob r)\<rparr>"

definition mend_record :: "initial_record \<Rightarrow> initial_record" where
  "mend_record r = r\<lparr>
    ir_ID := to_valid (ir_ID r), ir_Note := to_valid (ir_Note r), ir_LookupID := to_valid (ir_LookupID r),
    ir_Envelope := mend_body (ir_Envelope r)\<rparr>"

definition mend_state :: "initial_state \<Rightarrow> initial_state" where
  "mend_state r = r\<lparr>
    is_Note := map to_valid (is_Note r), is_Records := map mend_record (is_Records r),
    is_SignalChannels := map mend_channel (is_SignalChannels r)\<rparr>"

definition mend_instance :: "fx_instance \<Rightarrow> fx_instance" where
  "mend_instance r = r\<lparr>
    in_Name := to_valid (in_Name r), in_Note := map to_valid (in_Note r), in_SourceURL := to_valid (in_SourceURL r)\<rparr>"

definition mend_harness :: "fx_harness \<Rightarrow> fx_harness" where
  "mend_harness r = r\<lparr>
    ha_Note := map to_valid (ha_Note r)\<rparr>"

definition mend_order :: "table_order \<Rightarrow> table_order" where
  "mend_order r = r\<lparr>
    to_Table := to_valid (to_Table r), to_Note := to_valid (to_Note r),
    to_Conditions := map to_valid (to_Conditions r)\<rparr>"

definition mend_named :: "named_note \<Rightarrow> named_note" where
  "mend_named r = (to_valid (fst r), to_valid (snd r))"

definition mend_encoding :: "encoding_notes \<Rightarrow> encoding_notes" where
  "mend_encoding r = r\<lparr>
    en_Note := to_valid (en_Note r), en_BinaryValues := to_valid (en_BinaryValues r),
    en_Bodies := to_valid (en_Bodies r), en_BodyEncodings := map mend_named (en_BodyEncodings r),
    en_Comparisons := map mend_named (en_Comparisons r), en_Headers := to_valid (en_Headers r),
    en_Query := to_valid (en_Query r), en_Conditions := map mend_named (en_Conditions r),
    en_Tables := map mend_order (en_Tables r)\<rparr>"

definition mend_file :: "fx_file \<Rightarrow> fx_file" where
  "mend_file r = r\<lparr>
    fl_Comment := to_valid (fl_Comment r), fl_Warning := map to_valid (fl_Warning r), fl_Spec := to_valid (fl_Spec r),
    fl_GeneratedBy := to_valid (fl_GeneratedBy r), fl_Encoding := mend_encoding (fl_Encoding r),
    fl_Harness := mend_harness (fl_Harness r), fl_Instances := map mend_instance (fl_Instances r),
    fl_InitialState := mend_state (fl_InitialState r),
    fl_ResponseInvariants := mend_invariants (fl_ResponseInvariants r),
    fl_Coverage := map mend_coverage (fl_Coverage r), fl_Fixtures := map mend_fixture (fl_Fixtures r)\<rparr>"

definition mend_conventions :: "vec_conventions \<Rightarrow> vec_conventions" where
  "mend_conventions r = r\<lparr>
    vc_Note := to_valid (vc_Note r), vc_IntegerEncoding := to_valid (vc_IntegerEncoding r),
    vc_HKDFConstruction := to_valid (vc_HKDFConstruction r), vc_Ed25519Seed := to_valid (vc_Ed25519Seed r),
    vc_EnvelopeSignature := to_valid (vc_EnvelopeSignature r),
    vc_PayloadSignature := to_valid (vc_PayloadSignature r), vc_PoWInput := to_valid (vc_PoWInput r)\<rparr>"

definition mend_epoch :: "vec_epoch \<Rightarrow> vec_epoch" where
  "mend_epoch r = r\<lparr>
    v_Note := to_valid (v_Note r), v_WriteSeed := to_valid (v_WriteSeed r), v_WKPub := to_valid (v_WKPub r),
    v_WKPriv := to_valid (v_WKPriv r), v_LookupID := to_valid (v_LookupID r), v_RecordKey := to_valid (v_RecordKey r),
    v_MailboxID := to_valid (v_MailboxID r)\<rparr>"

definition mend_pair :: "vec_pair \<Rightarrow> vec_pair" where
  "mend_pair r = r\<lparr>
    vp_Note := to_valid (vp_Note r), vp_WriteSeed := to_valid (vp_WriteSeed r), vp_WKPub := to_valid (vp_WKPub r),
    vp_WKPriv := to_valid (vp_WKPriv r), vp_LookupID := to_valid (vp_LookupID r),
    vp_RecordKey := to_valid (vp_RecordKey r)\<rparr>"

definition mend_envelope :: "Envelope \<Rightarrow> Envelope" where
  "mend_envelope r = r\<lparr>
    e_LookupID := to_valid (e_LookupID r), e_WKPub := to_valid (e_WKPub r), e_CT := to_valid (e_CT r),
    e_Nonce := to_valid (e_Nonce r), e_PoW := to_valid (e_PoW r), e_Sig := to_valid (e_Sig r)\<rparr>"

definition mend_sample :: "vec_envelope \<Rightarrow> vec_envelope" where
  "mend_sample r = r\<lparr>
    ve_Note := to_valid (ve_Note r), ve_BodyUTF8 := to_valid (ve_BodyUTF8 r), ve_Body := to_valid (ve_Body r),
    ve_PayloadSig := to_valid (ve_PayloadSig r), ve_Plaintext := to_valid (ve_Plaintext r),
    ve_Nonce := to_valid (ve_Nonce r), ve_SigningInput := to_valid (ve_SigningInput r),
    ve_Envelope := mend_envelope (ve_Envelope r)\<rparr>"

definition mend_pow :: "vec_pow \<Rightarrow> vec_pow" where
  "mend_pow r = r\<lparr>
    vw_Note := to_valid (vw_Note r), vw_LookupID := to_valid (vw_LookupID r), vw_Input := to_valid (vw_Input r),
    vw_Value := to_valid (vw_Value r), vw_Digest := to_valid (vw_Digest r)\<rparr>"

definition mend_vectors :: "vec_file \<Rightarrow> vec_file" where
  "mend_vectors r = r\<lparr>
    vf_Comment := to_valid (vf_Comment r), vf_Warning := map to_valid (vf_Warning r), vf_Spec := to_valid (vf_Spec r),
    vf_Encoding := to_valid (vf_Encoding r), vf_Conventions := mend_conventions (vf_Conventions r),
    f_SDir := to_valid (f_SDir r), f_SPair := to_valid (f_SPair r), f_IKSeed := to_valid (f_IKSeed r),
    f_IKPub := to_valid (f_IKPub r), f_Epochs := map mend_epoch (f_Epochs r),
    f_Pairing := map mend_pair (f_Pairing r), f_Envelope := mend_sample (f_Envelope r), f_PoW := mend_pow (f_PoW r)\<rparr>"

section \<open>Reading what was written\<close>

lemma to_valid_literal [simp]: "ascii (c # s) \<Longrightarrow> to_valid (c # s) = c # s"
  by (rule to_valid_ascii)

lemma ascii_Cons [simp]: "ascii (c # s) \<longleftrightarrow> (of_char c :: nat) < 128 \<and> ascii s" "ascii []"
  by (simp_all add: ascii_def)

lemma read_digits_show [simp]: "read_digits (show_nat n) = Some (int n)"
  using show_nat_digits [of n] by (simp add: read_digits_def)

lemma reads_int [simp]: "read_int (read_back (json_int x)) = Some x" "read_int (JNum (Itoa x)) = Some x"
proof -
  obtain c ds where "show_nat (nat x) = c # ds" "is_digit c"
    using show_nat_digits [of "nat x"] by (cases "show_nat (nat x)") auto
  moreover from this have "c \<noteq> CHR ''-''" using digit_not_dash by blast
  ultimately have "show_nat (nat x) \<noteq> [] \<and> hd (show_nat (nat x)) \<noteq> CHR ''-''" by simp
  then show "read_int (JNum (Itoa x)) = Some x" by (auto simp: Itoa_def)
  then show "read_int (read_back (json_int x)) = Some x" by (simp add: json_int_def)
qed

lemma reads_nat [simp]: "read_nat (read_back (json_int (int n))) = Some n"
  by (simp add: read_nat_def)

lemma those_map: "(\<And>x. x \<in> set xs \<Longrightarrow> r x = Some (g x)) \<Longrightarrow> those (map r xs) = Some (map g xs)"
  by (induction xs) auto

lemma those_reads:
  "(\<And>x. r (read_back (f x)) = Some (g x)) \<Longrightarrow> those (map (r \<circ> (read_back \<circ> f)) xs) = Some (map g xs)"
  by (rule those_map) simp

lemma reads_strings [simp]: "read_list read_string (read_back (json_strings ss)) = Some (map to_valid ss)"
  using those_map [of ss "read_string \<circ> (read_back \<circ> JStr)" to_valid] by (simp add: json_strings_def)

lemma reads_map [simp]:
  fixes f :: "'v \<Rightarrow> json"
  assumes "\<And>v. r (read_back (f v)) = Some (g v)"
  shows "read_map r (read_back (json_map f m)) = Some (mend_map g m)"
proof -
  have "those (map (\<lambda>x. r (read_back (f (snd x)))) ms) = Some (map (g \<circ> snd) ms)" for ms :: "(string \<times> 'v) list"
    using assms by (intro those_map) simp
  moreover have "zip (map (\<lambda>x. to_valid (fst x)) ms) (map (g \<circ> snd) ms) = map (\<lambda>(k, v). (to_valid k, g v)) ms"
    for ms :: "(string \<times> 'v) list"
    by (induction ms) auto
  ultimately show ?thesis
    by (simp add: json_map_def mend_map_def comp_def split_beta)
qed

lemma reads_body [simp]: "read_body (read_back (body_json b)) = Some (mend_body b)"
  by (cases b) (simp add: body_json_def read_body_def mend_body_def optional_def)

lemma reads_request [simp]: "read_request (read_back (request_json r)) = Some (mend_request r)"
  by (cases r) (simp add: request_json_def read_request_def mend_request_def members_def)

lemma reads_prior [simp]: "read_prior (read_back (prior_json r)) = Some (mend_prior r)"
  by (cases r) (simp add: prior_json_def read_prior_def mend_prior_def members_def)
lemmas reads_priors [simp] = those_reads [of read_prior prior_json mend_prior, OF reads_prior]

lemma reads_expect [simp]: "read_expect (read_back (expect_json r)) = Some (mend_expect r)"
  by (cases r) (simp add: expect_json_def read_expect_def mend_expect_def members_def)

lemma reads_fixture [simp]: "read_fixture (read_back (fixture_json r)) = Some (mend_fixture r)"
  by (cases r) (simp add: fixture_json_def read_fixture_def mend_fixture_def members_def)
lemmas reads_fixtures [simp] = those_reads [of read_fixture fixture_json mend_fixture, OF reads_fixture]

lemma reads_coverage [simp]: "read_coverage (read_back (coverage_json r)) = Some (mend_coverage r)"
  by (cases r) (simp add: coverage_json_def read_coverage_def mend_coverage_def members_def)
lemmas reads_coverages [simp] = those_reads [of read_coverage coverage_json mend_coverage, OF reads_coverage]

lemma reads_invariants [simp]: "read_invariants (read_back (invariants_json r)) = Some (mend_invariants r)"
  by (cases r) (simp add: invariants_json_def read_invariants_def mend_invariants_def members_def)

lemma reads_channel [simp]: "read_channel (read_back (channel_json r)) = Some (mend_channel r)"
  by (cases r) (simp add: channel_json_def read_channel_def mend_channel_def members_def)
lemmas reads_channels [simp] = those_reads [of read_channel channel_json mend_channel, OF reads_channel]

lemma reads_record [simp]: "read_record (read_back (record_json r)) = Some (mend_record r)"
  by (cases r) (simp add: record_json_def read_record_def mend_record_def members_def)
lemmas reads_records [simp] = those_reads [of read_record record_json mend_record, OF reads_record]

lemma reads_state [simp]: "read_state (read_back (state_json r)) = Some (mend_state r)"
  by (cases r) (simp add: state_json_def read_state_def mend_state_def members_def)

lemma reads_limits [simp]: "read_limits (read_back (limits_json r)) = Some (r)"
  by (cases r) (simp add: limits_json_def read_limits_def members_def)

lemma reads_instance [simp]: "read_instance (read_back (instance_json r)) = Some (mend_instance r)"
  by (cases r) (simp add: instance_json_def read_instance_def mend_instance_def members_def)
lemmas reads_instances [simp] = those_reads [of read_instance instance_json mend_instance, OF reads_instance]

lemma reads_harness [simp]: "read_harness (read_back (harness_json r)) = Some (mend_harness r)"
  by (cases r) (simp add: harness_json_def read_harness_def mend_harness_def members_def)

lemma reads_order [simp]: "read_order (read_back (order_json r)) = Some (mend_order r)"
  by (cases r) (simp add: order_json_def read_order_def mend_order_def members_def)
lemmas reads_orders [simp] = those_reads [of read_order order_json mend_order, OF reads_order]

lemma reads_named [simp]: "read_named (read_back (named_json r)) = Some (mend_named r)"
  by (cases r) (simp add: named_json_def read_named_def mend_named_def members_def)
lemmas reads_nameds [simp] = those_reads [of read_named named_json mend_named, OF reads_named]

lemma reads_encoding [simp]: "read_encoding (read_back (encoding_json r)) = Some (mend_encoding r)"
  by (cases r) (simp add: encoding_json_def read_encoding_def mend_encoding_def members_def)

lemma reads_file [simp]: "read_file (read_back (file_json r)) = Some (mend_file r)"
  by (cases r) (simp add: file_json_def read_file_def mend_file_def members_def)

lemma reads_conventions [simp]: "read_conventions (read_back (conventions_json r)) = Some (mend_conventions r)"
  by (cases r) (simp add: conventions_json_def read_conventions_def mend_conventions_def members_def)

lemma reads_epoch [simp]: "read_epoch (read_back (epoch_json r)) = Some (mend_epoch r)"
  by (cases r) (simp add: epoch_json_def read_epoch_def mend_epoch_def members_def)
lemmas reads_epochs [simp] = those_reads [of read_epoch epoch_json mend_epoch, OF reads_epoch]

lemma reads_pair [simp]: "read_pair (read_back (pair_json r)) = Some (mend_pair r)"
  by (cases r) (simp add: pair_json_def read_pair_def mend_pair_def members_def)
lemmas reads_pairs [simp] = those_reads [of read_pair pair_json mend_pair, OF reads_pair]

lemma reads_envelope [simp]: "read_envelope (read_back (envelope_json r)) = Some (mend_envelope r)"
  by (cases r) (simp add: envelope_json_def read_envelope_def mend_envelope_def members_def)

lemma reads_sample [simp]: "read_sample (read_back (sample_json r)) = Some (mend_sample r)"
  by (cases r) (simp add: sample_json_def read_sample_def mend_sample_def members_def)

lemma reads_pow [simp]: "read_pow (read_back (pow_json r)) = Some (mend_pow r)"
  by (cases r) (simp add: pow_json_def read_pow_def mend_pow_def members_def)

lemma reads_vectors [simp]: "read_vectors (read_back (vectors_json r)) = Some (mend_vectors r)"
  by (cases r) (simp add: vectors_json_def read_vectors_def mend_vectors_def members_def)

section \<open>The files\<close>

text \<open>
  C15. Each generated file is JSON and says what was generated. Whatever the file, parsing the text
  \<open>Marshal\<close> writes and reading the value by the tags of the structs gives back the file: every
  member of every struct under its name, in the order of the fields, with its value; only bytes
  that are not UTF-8 are replaced, and the keys of a map are in order.
\<close>

theorem marshalled_reads_back:
  "Option.bind (json_parse (fx_Marshal f)) read_file = Some (mend_file f) \<and>
   Option.bind (json_parse (vec_Marshal v)) read_vectors = Some (mend_vectors v)"
  by (simp add: fixtures_text vectors_text)

end
