(* ===== verification/Spec2Isabelle.thy ===== *)
theory Spec2Isabelle imports Accept Api B64 Clientaddr Conform_Adversarial Conform_Answers Conform_Bodies Conform_Coverage Conform_File Conform_Generate Conform_Instances Conform_Order Conform_Sections Conform_State Conform_Succeeds Conformance Crypto Derive Fixture_Channels Fixture_File Fixture_Notes Fixture_Records Fixture_Shape Fixtures Generators Goflag Harness Http Json Json_Indent Marshal Material Netip Payload Pow Prelude Query Ratelimit Records Reject Server_Main Service Signal Store Trigcheck Trigcheck_Lookup Trigcheck_Readback Unmarshal Vectors begin

text \<open>
  Verification library of trigstationd, the directory server of the Trigstation protocol (Go).

  The program. A media server publishes, once per epoch of a day, a signed and sealed envelope
  under an identifier derived from a secret (PUT /v1/record). A client that shares the secret asks
  for all envelopes whose identifier starts with a few bits (GET /v1/record) and finds its own by
  trial decryption; the directory learns a bucket, not a server. GET /v1/meta advertises the count
  that sizes the bucket, and /v1/signal/{channel_id} brokers one-shot blobs between two parties,
  with long polls. Everything else is refused, and requests are limited per source network.

  Theories, in the order in which they build on each other, with the source they model:
    Prelude                bytes, 64-bit integers with wrap-around, time, Go maps; the locales
                           \<open>go_map\<close>, \<open>text_codec\<close> and \<open>stepped_component\<close>
    Json, Netip, Http, Goflag, Crypto
                           the Go standard library as far as the source uses it (encoding/json,
                           net/netip and strings, net/http and net/url, flag and strconv); the
                           cryptographic primitives are a parameter with their laws as hypotheses
    Reject                 internal/reject/reject.go, internal/query/reason.go: the status tables
    B64                    internal/b64/base64url.go
    Records, Payload       internal/record: envelope, signing input, payload; the body as JSON
    Derive                 internal/derive/derive.go: the key schedule of an epoch
    Pow                    internal/pow/pow.go
    Query                  internal/query/query.go, internal/store/prefix.go
    Accept                 internal/accept/accept.go: the publish pipeline
    Store                  internal/store/store.go: the table of records; locale \<open>recency_store\<close>
    Ratelimit              internal/ratelimit/ratelimit.go
    Clientaddr             internal/clientaddr/clientaddr.go
    Signal                 internal/signal/signal.go: the channels with a heap of objects
    Api, Service           internal/api: handlers and routing; the service as one state machine
    Server_Main            main.go: flags, assembly, shutdown, sweeps on timers
    Trigcheck, Trigcheck_Lookup, Trigcheck_Readback
                           cmd/trigcheck/main.go: the client that publishes and reads back
    Vectors                internal/vectors/vectors.go: the generator of the test vectors
    Material               internal/apivectors/material.go: publishers, rendering, masking
    Fixtures               internal/apivectors: the types of the file (apivectors.go), the
                           conditions, the coverage rows and the initial state (fixtures.go)
    Fixture_Notes          the notes of the fixtures, word for word
    Fixture_Records        fixtures.go: the fixtures of /v1/meta and PUT /v1/record
    Fixture_Channels       fixtures.go: the fixtures of lookups, signal channels and preflights
    Fixture_File           generate.go: instances, encoding notes and \<open>Generate\<close>
    Harness                how a fixture is driven against \<open>Service\<close>: the instance built, the initial
                           state loaded, the prior requests made, the answer compared
    Conformance, Conform_Bodies, Conform_Adversarial, Conform_State, Conform_Instances,
    Conform_Answers, Conform_Sections, Conform_Order, Conform_Generate
                           the directory passes the generated fixtures, group by group
    Conform_Succeeds, Conform_Coverage
                           the generator returns a file and covers every row
    Fixture_Shape, Conform_File
                           the claims of the 82 fixtures in order; the statements about the file
    Json_Indent, Marshal   material.go, internal/vectors: the two files as indented JSON text with
                           the prose of their members
    Unmarshal              a strict reader of the two files by the tags of the structs, written
                           from the structs alone: the specification for \<open>Marshal\<close>
    Generators             cmd/gen-vectors, cmd/gen-api-vectors: the commands that write the files

  How the model follows the code. A struct is a record, a method is a function that returns the
  state after it, an error is the left summand or \<open>None\<close>, an enumeration is a datatype with the
  source's order. Integers of Go are \<open>int\<close> with \<open>i64\<close> where the code does not bound a sum or a
  product; bytes and addresses are words. Objects shared by pointer (\<open>Signal\<close>) live in a heap. What
  the code reads from outside - the clock, the random generator, the database's failures, the
  network, which waiter the runtime picks - is an argument of the step that reads it. Handlers run
  one at a time at the grain of the code's critical sections; a long poll is two steps, so that
  any other request, sweep or shutdown may come between them.

  What the lemmas show. Each component has an invariant that all of its operations keep
  (\<open>signal_ok\<close>, \<open>limiter_ok\<close>, \<open>table_ok\<close>, and \<open>service_ok\<close> for their composition), its operations'
  behaviour on every branch, and what its callers rely on: records are never rolled back and a
  sweep changes no answer (\<open>Store\<close>), a blob is handed over at most once and a waiting poll receives
  the post (\<open>Signal\<close>), no source exceeds its allowance by more than the window's edge allows
  (\<open>Ratelimit\<close>), a header cannot forge the address that is counted (\<open>Clientaddr\<close>), a lookup selects
  exactly the matching identifiers (\<open>Query\<close>), the publish pipeline is its normative table
  (\<open>Accept\<close>). \<open>Service\<close> composes them: what was published is served until it expires or a later
  request publishes a record that expires later. \<open>Trigcheck_Lookup\<close> and \<open>Trigcheck_Readback\<close> put the client against the modelled
  directory: its lookup is always accepted and finds its own record, and a record published is
  read back. \<open>Conform_File\<close> runs the repository's own conformance fixtures inside the logic: for
  all keys that are apart (\<open>apart\<close>), the file \<open>fx_Generate\<close> returns is well formed, and every
  fixture of it - request, prior requests, expected status, headers and body - is what the model
  of the directory answers; under \<open>works\<close> the generator does return a file. The expectations are
  computed in internal/apivectors without the code of the directory, so this compares two
  independent renderings of the specification. \<open>Unmarshal\<close> shows that parsing the text written for
  either file and reading it by the tags of its structs gives the file back, and \<open>Generators\<close>
  that a run writes one file or nothing and that an uninterrupted run repeats the file. The
  interfaces are locales, each interpreted on the code's own definitions:
  \<open>go_map\<close> by association lists, \<open>text_codec\<close> by base64url, \<open>stepped_component\<close> by the limiter and the
  channels, \<open>recency_store\<close> by the store and again by the whole service.

  Bounds and fuel. The JSON parser carries fuel; \<open>pval_fuel\<close> and \<open>pval_enough\<close> show that
  \<open>2 * length s + 2\<close> units decide every input. The loop over the groups of an IPv6 address has eight
  iterations, as many as the address has groups. The search for a proof of work and the loop of
  \<open>prefixBits\<close> are functions that end by the width of their counter; where that end is a failure or
  a panic it is a value of the model. The searches of the generator for identifiers with a high bit
  and for a failing proof of work have no bound in the code: they are partial functions, and
  \<open>highPublishers_returns\<close> and \<open>weak_succeeds\<close> show when they return. The whole generator draws 63
  publishers, which is why the statements about it ask for 63 candidates with a high bit among
  the first \<open>N < 2 ^ 32\<close>. Concrete runs in the witnesses use \<open>toy_crypto\<close>, which
  satisfies the laws of the primitives.

  Not modelled: the SQLite driver and its file (a statement is atomic and may fail as a whole; what
  Open makes of the driver's failures is in \<open>Store\<close>), the listener and TLS, goroutine scheduling
  finer than critical sections, the text of log lines and usage messages, the stack a recovered
  panic logs; nil slices and maps are not told apart from empty ones, since the generated files
  hold none; the \<open>Location\<close> and body of the mux's 301 and its 400 for the request target \<open>*\<close> (net/http);
  the tests, which restate the properties on examples.
\<close>

end
